(* ===== verification/Prelude.thy ===== *)
theory Prelude
  imports Main "HOL-Library.Word"
begin

text \<open>
  What every component shares: the machine types of the firmware (a 32-bit little-endian
  Cortex-M4), the error codes of \<open>include/common/PosixError.h\<close>, the outcome of a C
  function that may run into undefined behaviour or wait for ever, byte strings and
  their two encodings, and the collections of facts the component proofs use.
\<close>

unbundle bit_operations_syntax

named_theorems fw_defs \<open>definitions that a component's proofs unfold together\<close>
named_theorems fw_inv \<open>preservation of the components' invariants\<close>

type_synonym u8 = "8 word"
type_synonym u16 = "16 word"
type_synonym u32 = "32 word"
type_synonym bytes = "u8 list"

section \<open>Error codes\<close>

text \<open>
  The codes of \<open>PosixError.h\<close> that the modelled code returns, each a constructor.
  The code returns them negated; \<open>perr_code\<close> gives the value the header assigns.
  \<open>EFAIL\<close> is the bare \<open>-1\<close> some functions return.
\<close>

datatype perr = EAGAIN | EBADMSG | EBUSY | EEXIST | EFAULT | EINVAL | ENODEV
  | ENOMEM | ENOSPC | ENOTSUP | ETIMEDOUT | EFAIL

fun perr_code :: "perr \<Rightarrow> int" where
  "perr_code EAGAIN = 0x1003"
| "perr_code EBADMSG = 0x1005"
| "perr_code EBUSY = 0x1006"
| "perr_code EEXIST = 0x100b"
| "perr_code EFAULT = 0x100c"
| "perr_code EINVAL = 0x1010"
| "perr_code ENODEV = 0x1018"
| "perr_code ENOMEM = 0x101c"
| "perr_code ENOSPC = 0x101d"
| "perr_code ENOTSUP = 0x1021"
| "perr_code ETIMEDOUT = 0x102a"
| "perr_code EFAIL = 1"

lemma perr_code_inj: "perr_code a = perr_code b \<longleftrightarrow> a = b"
  by (cases a; cases b) simp_all

lemma perr_code_pos: "0 < perr_code e"
  by (cases e) simp_all

text \<open>The order of the codes as the integers they are, so that lists of codes can be sorted.\<close>

instantiation perr :: linorder
begin

definition less_eq_perr :: "perr \<Rightarrow> perr \<Rightarrow> bool" where
  "less_eq_perr a b \<longleftrightarrow> perr_code a \<le> perr_code b"

definition less_perr :: "perr \<Rightarrow> perr \<Rightarrow> bool" where
  "less_perr a b \<longleftrightarrow> perr_code a < perr_code b"

instance
  by standard (auto simp: less_eq_perr_def less_perr_def perr_code_inj)

end

section \<open>Outcomes\<close>

text \<open>
  \<open>Ret x\<close>: the C function returned. \<open>Fault\<close>: it read or wrote outside the object it
  was given (undefined behaviour in C, a corrupted memory or a hard fault on the
  target). \<open>Hang\<close>: it is still waiting when the input the environment supplies is
  used up.
\<close>

datatype 'a outcome = Ret 'a | Fault | Hang

fun obind :: "'a outcome \<Rightarrow> ('a \<Rightarrow> 'b outcome) \<Rightarrow> 'b outcome" where
  "obind (Ret x) f = f x"
| "obind Fault f = Fault"
| "obind Hang f = Hang"

lemma obind_eq_Ret [simp]: "obind m f = Ret y \<longleftrightarrow> (\<exists>x. m = Ret x \<and> f x = Ret y)"
  by (cases m) auto

lemma obind_eq_Fault: "obind m f = Fault \<longleftrightarrow> m = Fault \<or> (\<exists>x. m = Ret x \<and> f x = Fault)"
  by (cases m) auto

lemma obind_eq_Hang: "obind m f = Hang \<longleftrightarrow> m = Hang \<or> (\<exists>x. m = Ret x \<and> f x = Hang)"
  by (cases m) auto

lemma obind_Ret [simp]: "obind m Ret = m"
  by (cases m) auto

lemma obind_assoc: "obind (obind m f) g = obind m (\<lambda>x. obind (f x) g)"
  by (cases m) auto

lemma obind_cong [fundef_cong]:
  "m = n \<Longrightarrow> (\<And>x. n = Ret x \<Longrightarrow> f x = g x) \<Longrightarrow> obind m f = obind n g"
  by (cases n) auto

text \<open>\<open>oall P m\<close>: whatever \<open>m\<close> returns satisfies \<open>P\<close>; \<open>osafe m\<close>: it does not fault.\<close>

definition oall :: "('a \<Rightarrow> bool) \<Rightarrow> 'a outcome \<Rightarrow> bool" where
  "oall P m \<longleftrightarrow> (case m of Ret x \<Rightarrow> P x | Fault \<Rightarrow> True | Hang \<Rightarrow> True)"

definition osafe :: "'a outcome \<Rightarrow> bool" where
  "osafe m \<longleftrightarrow> m \<noteq> Fault"

lemma oall_simps [simp]: "oall P (Ret x) = P x" "oall P Fault" "oall P Hang"
  by (simp_all add: oall_def)

lemma osafe_simps [simp]: "osafe (Ret x)" "\<not> osafe Fault" "osafe Hang"
  by (simp_all add: osafe_def)

lemma oallD: "oall P m \<Longrightarrow> m = Ret x \<Longrightarrow> P x"
  by simp

lemma oall_iff: "oall P m \<longleftrightarrow> (\<forall>x. m = Ret x \<longrightarrow> P x)"
  by (cases m) auto

lemma oall_obind:
  "oall Q m \<Longrightarrow> (\<And>x. m = Ret x \<Longrightarrow> Q x \<Longrightarrow> oall P (f x)) \<Longrightarrow> oall P (obind m f)"
  by (cases m) auto

lemma osafe_obind: "osafe m \<Longrightarrow> (\<And>x. m = Ret x \<Longrightarrow> osafe (f x)) \<Longrightarrow> osafe (obind m f)"
  by (cases m) auto

lemma unat_of_nat_u32: "k < 2 ^ 32 \<Longrightarrow> unat (of_nat k :: u32) = k"
  by (simp add: unat_of_nat take_bit_nat_eq_self)

section \<open>Byte strings\<close>

text \<open>
  \<open>be32\<close> and \<open>le32\<close> are the four bytes of a word in network and in host order; the
  readers take the first four bytes of a string.
\<close>

definition byte_of :: "nat \<Rightarrow> u32 \<Rightarrow> u8" where
  "byte_of i w = ucast (drop_bit (8 * i) w)"

definition le32 :: "u32 \<Rightarrow> bytes" where
  "le32 w = [byte_of 0 w, byte_of 1 w, byte_of 2 w, byte_of 3 w]"

definition be32 :: "u32 \<Rightarrow> bytes" where
  "be32 w = rev (le32 w)"

definition word_of :: "u8 \<Rightarrow> u8 \<Rightarrow> u8 \<Rightarrow> u8 \<Rightarrow> u32" where
  "word_of b0 b1 b2 b3 =
     ucast b0 OR push_bit 8 (ucast b1) OR push_bit 16 (ucast b2) OR push_bit 24 (ucast b3)"

fun of_le32 :: "bytes \<Rightarrow> u32" where
  "of_le32 (b0 # b1 # b2 # b3 # _) = word_of b0 b1 b2 b3"
| "of_le32 _ = 0"

fun of_be32 :: "bytes \<Rightarrow> u32" where
  "of_be32 (b3 # b2 # b1 # b0 # _) = word_of b0 b1 b2 b3"
| "of_be32 _ = 0"

lemma length_le32 [simp]: "length (le32 w) = 4"
  by (simp add: le32_def)

lemma length_be32 [simp]: "length (be32 w) = 4"
  by (simp add: be32_def)

lemma bit_byte_of: "bit (byte_of i w) n \<longleftrightarrow> n < 8 \<and> bit w (8 * i + n)"
  by (auto simp: byte_of_def bit_ucast_iff bit_drop_bit_eq)

lemma bit_word_of:
  "bit (word_of b0 b1 b2 b3) n \<longleftrightarrow>
     (if n < 8 then bit b0 n else if n < 16 then bit b1 (n - 8)
      else if n < 24 then bit b2 (n - 16) else n < 32 \<and> bit b3 (n - 24))"
  by (auto simp: word_of_def bit_or_iff bit_push_bit_iff bit_ucast_iff dest: bit_imp_le_length)

lemma word_of_bytes: "word_of (byte_of 0 w) (byte_of 1 w) (byte_of 2 w) (byte_of 3 w) = w"
  by (rule bit_word_eqI) (auto simp: bit_word_of bit_byte_of)

lemma byte_of_word:
  "byte_of 0 (word_of b0 b1 b2 b3) = b0" "byte_of 1 (word_of b0 b1 b2 b3) = b1"
  "byte_of 2 (word_of b0 b1 b2 b3) = b2" "byte_of 3 (word_of b0 b1 b2 b3) = b3"
  by (rule bit_word_eqI; simp add: bit_word_of bit_byte_of)+

lemma of_le32_le32 [simp]: "of_le32 (le32 w @ bs) = w" "of_le32 (le32 w) = w"
  by (simp_all add: le32_def word_of_bytes del: One_nat_def)

lemma of_be32_be32 [simp]: "of_be32 (be32 w @ bs) = w" "of_be32 (be32 w) = w"
  by (simp_all add: be32_def le32_def word_of_bytes del: One_nat_def)

lemma le32_inj [simp]: "le32 a = le32 b \<longleftrightarrow> a = b"
  by (metis of_le32_le32(2))

lemma be32_inj [simp]: "be32 a = be32 b \<longleftrightarrow> a = b"
  by (metis of_be32_be32(2))

lemma of_le32_take [simp]: "of_le32 (take 4 bs @ cs) = of_le32 bs" if "4 \<le> length bs"
proof -
  from that obtain b0 b1 b2 b3 r where "bs = b0 # b1 # b2 # b3 # r"
    by (auto simp: numeral_eq_Suc Suc_le_length_iff)
  then show ?thesis by simp
qed

text \<open>A byte array overwritten at an offset; used only where the bounds were checked.\<close>

definition splice :: "nat \<Rightarrow> 'a list \<Rightarrow> 'a list \<Rightarrow> 'a list" where
  "splice off new xs = take off xs @ new @ drop (off + length new) xs"

lemma length_splice [simp]: "off + length new \<le> length xs \<Longrightarrow> length (splice off new xs) = length xs"
  by (simp add: splice_def)

lemma take_splice_lt [simp]: "n \<le> off \<Longrightarrow> off \<le> length xs \<Longrightarrow> take n (splice off new xs) = take n xs"
  by (simp add: splice_def min_absorb1)

lemma drop_splice_at [simp]:
  "off + length new \<le> length xs \<Longrightarrow> take (length new) (drop off (splice off new xs)) = new"
  by (simp add: splice_def)

lemma splice_Nil [simp]: "splice off [] xs = xs"
  by (simp add: splice_def)

text \<open>Indices of a ring of \<open>n\<close> slots, advanced by one and wrapped by comparison.\<close>

definition ring_next :: "nat \<Rightarrow> nat \<Rightarrow> nat" where
  "ring_next n i = (if Suc i = n then 0 else Suc i)"

lemma ring_next_mod: "i < n \<Longrightarrow> ring_next n i = Suc i mod n"
  by (auto simp: ring_next_def)

lemma ring_next_less [simp]: "i < n \<Longrightarrow> ring_next n i < n"
  by (auto simp: ring_next_def)

text \<open>The \<open>k\<close> slots of a ring from slot \<open>i\<close> on: the abstraction of every ring buffer here.\<close>

definition ring_take :: "nat \<Rightarrow> nat \<Rightarrow> 'a list \<Rightarrow> 'a list" where
  "ring_take i k xs = map (\<lambda>j. xs ! ((i + j) mod length xs)) [0..<k]"

lemma length_ring_take [simp]: "length (ring_take i k xs) = k"
  by (simp add: ring_take_def)

lemma ring_take_0 [simp]: "ring_take i 0 xs = []"
  by (simp add: ring_take_def)

lemma ring_take_nth: "j < k \<Longrightarrow> ring_take i k xs ! j = xs ! ((i + j) mod length xs)"
  by (simp add: ring_take_def)

lemma ring_take_Cons:
  "i < length xs \<Longrightarrow> ring_take i (Suc k) xs = xs ! i # ring_take (Suc i mod length xs) k xs"
  by (rule nth_equalityI) (auto simp: ring_take_nth nth_Cons mod_simps split: nat.splits)

lemma ring_take_mod: "ring_take (i mod length xs) k xs = ring_take i k xs"
  by (simp add: ring_take_def mod_add_left_eq)

lemma ring_slot_inj_le:
  assumes "a \<le> b" "b < n" "((i::nat) + a) mod n = (i + b) mod n" shows "a = b"
proof -
  have "n dvd b - a" using assms mod_eq_dvd_iff_nat [of "i + a" "i + b" n] by simp
  then show ?thesis using assms by (auto dest: dvd_imp_le)
qed

lemma ring_slot_inj:
  "a < n \<Longrightarrow> b < n \<Longrightarrow> ((i::nat) + a) mod n = (i + b) mod n \<Longrightarrow> a = b"
  by (metis nat_le_linear ring_slot_inj_le)

text \<open>Writing the slot after the last one in use extends the abstraction by that element.\<close>

lemma ring_take_snoc:
  assumes "k < length xs"
  shows "ring_take i (Suc k) (xs[(i + k) mod length xs := x]) = ring_take i k xs @ [x]"
proof (rule nth_equalityI)
  show "length (ring_take i (Suc k) (xs[(i + k) mod length xs := x]))
    = length (ring_take i k xs @ [x])" by simp
  have lt: "(i + k) mod length xs < length xs" using assms by (intro mod_less_divisor) linarith
  fix j assume "j < length (ring_take i (Suc k) (xs[(i + k) mod length xs := x]))"
  then have j: "j < Suc k" by simp
  have "(i + j) mod length xs = (i + k) mod length xs \<longleftrightarrow> j = k"
    using j assms ring_slot_inj [of j "length xs" k i] by auto
  then show "ring_take i (Suc k) (xs[(i + k) mod length xs := x]) ! j
    = (ring_take i k xs @ [x]) ! j"
    using j lt
    by (cases "j = k") (auto simp: ring_take_nth nth_append nth_list_update)
qed

lemma ring_take_full_overwrite:
  assumes "i < length xs"
  shows "ring_take (Suc i mod length xs) (length xs) (xs[i := x])
     = tl (ring_take i (length xs) xs) @ [x]"
proof -
  obtain k where k: "length xs = Suc k" using assms by (cases "length xs") auto
  have "(Suc i mod length xs + k) mod length xs = (i + length xs) mod length xs"
    by (simp only: k mod_add_left_eq) simp
  then have i: "(Suc i mod length xs + k) mod length xs = i" using assms by simp
  have "ring_take (Suc i mod length xs) (Suc k) (xs[i := x])
     = ring_take (Suc i mod length xs) k xs @ [x]"
    using ring_take_snoc [of k xs "Suc i mod length xs" x] k i by simp
  then show ?thesis using k ring_take_Cons [OF assms, of k] by simp
qed

end
