(* ===== verification/Agv_Types.thy ===== *)
theory Agv_Types
  imports Prelude
begin

text \<open>
  The data the vehicle's components exchange: the states and actions of
  \<open>usr/include/motion_ctrl.h\<close>, the status record of \<open>usr/include/agv.h\<close> and the numbers
  the headers give the enumerators. Actions and events travel as plain numbers, so they
  stay \<open>u32\<close> values here, with the enumerators as abbreviations.
\<close>

datatype motion_state = MOTIONSTATE_ONSTOPING | MOTIONSTATE_GOSTRAIGHT | MOTIONSTATE_TRUNLEFT
  | MOTIONSTATE_TRUNRIGHT | MOTIONSTATE_UNLOADING | MOTIONSTATE_GOBACKWARD

fun motion_state_code :: "motion_state \<Rightarrow> u32" where
  "motion_state_code MOTIONSTATE_ONSTOPING = 0"
| "motion_state_code MOTIONSTATE_GOSTRAIGHT = 1"
| "motion_state_code MOTIONSTATE_TRUNLEFT = 2"
| "motion_state_code MOTIONSTATE_TRUNRIGHT = 3"
| "motion_state_code MOTIONSTATE_UNLOADING = 4"
| "motion_state_code MOTIONSTATE_GOBACKWARD = 5"

datatype work_state = AGV_WKSTATE_READY | AGV_WKSTATE_STOP | AGV_WKSTATE_MOVING
  | AGV_WKSTATE_CHARGING | AGV_WKSTATE_ERROR

record motion_info =
  mi_point :: u32
  mi_x_deviation :: u32
  mi_y_deviation :: u32
  mi_direction :: u32
  mi_dir_deviation :: u32
  mi_speed :: u32
  mi_state :: motion_state
  mi_action :: u32

record agv_status =
  mtstate :: motion_info
  battery :: u32
  work_state :: work_state
  agv_error :: u32

text \<open>\<open>agv_action_t\<close>.\<close>

abbreviation (input) ACTION_GOSTRAIGHT :: u32 where "ACTION_GOSTRAIGHT \<equiv> 1"
abbreviation (input) ACTION_TRUNLEFT :: u32 where "ACTION_TRUNLEFT \<equiv> 2"
abbreviation (input) ACTION_TRUNRIGHT :: u32 where "ACTION_TRUNRIGHT \<equiv> 3"
abbreviation (input) ACTION_CHARGE :: u32 where "ACTION_CHARGE \<equiv> 6"
abbreviation (input) ACTION_STOP_CHARGE :: u32 where "ACTION_STOP_CHARGE \<equiv> 7"
abbreviation (input) ACTION_STOP :: u32 where "ACTION_STOP \<equiv> 8"
abbreviation (input) ACTION_UNLOAD :: u32 where "ACTION_UNLOAD \<equiv> 9"
abbreviation (input) ACTION_GOBACKWARD :: u32 where "ACTION_GOBACKWARD \<equiv> 10"
abbreviation (input) ACTION_SYS_RESET :: u32 where "ACTION_SYS_RESET \<equiv> 21"

text \<open>\<open>motion_event_t\<close>, which \<open>avg_evt_t\<close> repeats.\<close>

abbreviation (input) EVENT_ACTION_START :: u32 where "EVENT_ACTION_START \<equiv> 0"
abbreviation (input) EVENT_ACTION_OVER :: u32 where "EVENT_ACTION_OVER \<equiv> 1"
abbreviation (input) EVENT_POINT_ARRIVAL :: u32 where "EVENT_POINT_ARRIVAL \<equiv> 2"
abbreviation (input) EVENT_ERROR :: u32 where "EVENT_ERROR \<equiv> 3"
abbreviation (input) EVENT_ERROR_RECOVERY :: u32 where "EVENT_ERROR_RECOVERY \<equiv> 4"

text \<open>The error events of \<open>agv.h\<close>.\<close>

abbreviation (input) GS_COMM_BREAK_EVENT :: u32 where "GS_COMM_BREAK_EVENT \<equiv> 1"
abbreviation (input) OUT_OF_TRACK_EVENT :: u32 where "OUT_OF_TRACK_EVENT \<equiv> 2"
abbreviation (input) SERVOL_INVALID_EVENT :: u32 where "SERVOL_INVALID_EVENT \<equiv> 3"
abbreviation (input) SERVOR_INVALID_EVENT :: u32 where "SERVOR_INVALID_EVENT \<equiv> 4"
abbreviation (input) WAY_POINT_ERROR :: u32 where "WAY_POINT_ERROR \<equiv> 6"
abbreviation (input) BMS_COM_OUTOFTM :: u32 where "BMS_COM_OUTOFTM \<equiv> 7"
abbreviation (input) ENCODER_L_ERROR :: u32 where "ENCODER_L_ERROR \<equiv> 8"
abbreviation (input) ENCODER_R_ERROR :: u32 where "ENCODER_R_ERROR \<equiv> 9"

text \<open>\<open>agvcp_event_t\<close>: the actions of the protocol, and the two connection events.\<close>

abbreviation (input) AGVCPEVT_CONNECTION_LOST :: u32 where "AGVCPEVT_CONNECTION_LOST \<equiv> 0x11"
abbreviation (input) AGVCPEVT_CONNECTION_RECOVERY :: u32 where "AGVCPEVT_CONNECTION_RECOVERY \<equiv> 0x12"

text \<open>The message types of \<open>agvcp.c\<close>.\<close>

abbreviation (input) MSG_REGISTER :: u32 where "MSG_REGISTER \<equiv> 1"
abbreviation (input) MSG_UNREGISTER :: u32 where "MSG_UNREGISTER \<equiv> 2"
abbreviation (input) MSG_HEARTBEAT :: u32 where "MSG_HEARTBEAT \<equiv> 7"
abbreviation (input) MSG_ERRREPORT :: u32 where "MSG_ERRREPORT \<equiv> 13"
abbreviation (input) MSG_ACTION_OVER :: u32 where "MSG_ACTION_OVER \<equiv> 20"
abbreviation (input) MSG_REPORT_FLAGPOINT :: u32 where "MSG_REPORT_FLAGPOINT \<equiv> 23"
abbreviation (input) MSG_CONFIRM :: u32 where "MSG_CONFIRM \<equiv> 30"
abbreviation (input) MSG_ACTION :: u32 where "MSG_ACTION \<equiv> 1010"
abbreviation (input) MSG_READ_PARAM :: u32 where "MSG_READ_PARAM \<equiv> 2000"
abbreviation (input) MSG_WRITE_PARAM :: u32 where "MSG_WRITE_PARAM \<equiv> 2001"

end
