(* ===== verification/Os_Queue.thy ===== *)
theory Os_Queue
  imports Prelude
begin

text \<open>
  The message queues of uC/OS-II (\<open>ucosii/uCOS-II/Source/os_q.c\<close>) that every task of the
  firmware talks through. A queue is its control block: the ring of slots between
  \<open>OSQStart\<close> and \<open>OSQEnd\<close>, the two pointers into it (kept as offsets from
  \<open>OSQStart\<close>), and the tasks that wait on the event block. A message is a pointer-sized
  value, with \<open>0\<close> for NULL. The abstraction \<open>osq_msgs\<close> is the list of messages in the
  order they will be taken; the interface \<open>msg_queue\<close> states what the clients rely on.
\<close>

section \<open>The queue control block and its operations\<close>

datatype os_err = OS_ERR_NONE | OS_ERR_Q_FULL | OS_ERR_Q_EMPTY | OS_ERR_TIMEOUT
  | OS_ERR_MEM_NO_FREE_BLKS | OS_ERR_MEM_FULL | OS_ERR_TASK_WAITING | OS_ERR_EVENT_TYPE | OS_ERR_PEVENT_NULL
  | OS_ERR_PEND_ISR | OS_ERR_PEND_LOCKED | OS_ERR_PEND_ABORT | OS_ERR_POST_ISR | OS_ERR_QUERY_ISR | OS_ERR_CREATE_ISR
  | OS_ERR_DEL_ISR | OS_ERR_INVALID_OPT | OS_ERR_PRIO_EXIST | OS_ERR_PCP_LOWER | OS_ERR_NOT_MUTEX_OWNER

record 'a os_q =
  OSQTbl :: "'a list"
  OSQIn :: nat
  OSQOut :: nat
  OSQSize :: nat
  OSQEntries :: nat
  OSEventTbl :: "nat list"
  OSTCBMsg :: "(nat \<times> 'a) list"

text \<open>
  \<open>OSQCreate\<close> draws an event block and a queue block from two pools (here their free
  counts) and hands the event block back when there is no queue block.
\<close>

definition OSQCreate :: "nat \<Rightarrow> nat \<Rightarrow> 'a list \<Rightarrow> 'a os_q option \<times> nat \<times> nat" where
  "OSQCreate ecbs qs start =
     (if ecbs = 0 then (None, ecbs, qs)
      else if qs \<noteq> 0 then
        (Some \<lparr>OSQTbl = start, OSQIn = 0, OSQOut = 0, OSQSize = length start, OSQEntries = 0,
               OSEventTbl = [], OSTCBMsg = []\<rparr>, ecbs - 1, qs - 1)
      else (None, ecbs, qs))"

definition OSQAccept :: "'a::zero os_q \<Rightarrow> ('a \<times> os_err) \<times> 'a os_q" where
  "OSQAccept q =
     (if 0 < OSQEntries q then
        ((OSQTbl q ! OSQOut q, OS_ERR_NONE),
         q\<lparr>OSQOut := ring_next (OSQSize q) (OSQOut q), OSQEntries := OSQEntries q - 1\<rparr>)
      else ((0, OS_ERR_Q_EMPTY), q))"

text \<open>
  \<open>OSQPend\<close> in two parts: the call, which either takes a message or puts the task (its
  priority) on the wait list, and the resumption after the scheduler ran it again, with
  a message that a post handed over or after the time-out.
\<close>

definition OSQPend :: "nat \<Rightarrow> 'a::zero os_q \<Rightarrow> ('a \<times> os_err) option \<times> 'a os_q" where
  "OSQPend prio q =
     (if 0 < OSQEntries q then
        (Some (OSQTbl q ! OSQOut q, OS_ERR_NONE),
         q\<lparr>OSQOut := ring_next (OSQSize q) (OSQOut q), OSQEntries := OSQEntries q - 1\<rparr>)
      else (None, q\<lparr>OSEventTbl := insort prio (OSEventTbl q)\<rparr>))"

definition OSQPend_resume :: "nat \<Rightarrow> 'a::zero os_q \<Rightarrow> ('a \<times> os_err) \<times> 'a os_q" where
  "OSQPend_resume prio q =
     (case map_of (OSTCBMsg q) prio of
        Some m \<Rightarrow> ((m, OS_ERR_NONE), q\<lparr>OSTCBMsg := filter (\<lambda>e. fst e \<noteq> prio) (OSTCBMsg q)\<rparr>)
      | None \<Rightarrow> ((0, OS_ERR_TIMEOUT), q\<lparr>OSEventTbl := remove1 prio (OSEventTbl q)\<rparr>))"

text \<open>A post hands the message to the waiting task of highest priority, if there is one.\<close>

definition OS_EventTaskRdy :: "'a \<Rightarrow> 'a os_q \<Rightarrow> 'a os_q" where
  "OS_EventTaskRdy m q =
     q\<lparr>OSEventTbl := tl (OSEventTbl q), OSTCBMsg := OSTCBMsg q @ [(hd (OSEventTbl q), m)]\<rparr>"

definition OSQPost :: "'a \<Rightarrow> 'a os_q \<Rightarrow> os_err \<times> 'a os_q" where
  "OSQPost m q =
     (if OSEventTbl q \<noteq> [] then (OS_ERR_NONE, OS_EventTaskRdy m q)
      else if OSQSize q \<le> OSQEntries q then (OS_ERR_Q_FULL, q)
      else (OS_ERR_NONE,
        q\<lparr>OSQTbl := (OSQTbl q)[OSQIn q := m],
          OSQEntries := OSQEntries q + 1,
          OSQIn := ring_next (OSQSize q) (OSQIn q)\<rparr>))"

definition OSQPostFront :: "'a \<Rightarrow> 'a os_q \<Rightarrow> os_err \<times> 'a os_q" where
  "OSQPostFront m q =
     (if OSEventTbl q \<noteq> [] then (OS_ERR_NONE, OS_EventTaskRdy m q)
      else if OSQSize q \<le> OSQEntries q then (OS_ERR_Q_FULL, q)
      else
        let out = (if OSQOut q = 0 then OSQSize q else OSQOut q) - 1
        in (OS_ERR_NONE,
            q\<lparr>OSQOut := out, OSQTbl := (OSQTbl q)[out := m], OSQEntries := OSQEntries q + 1\<rparr>))"

definition OSQFlush :: "'a os_q \<Rightarrow> os_err \<times> 'a os_q" where
  "OSQFlush q = (OS_ERR_NONE, q\<lparr>OSQIn := 0, OSQOut := 0, OSQEntries := 0\<rparr>)"

definition OSQQuery_OSNMsgs :: "'a os_q \<Rightarrow> nat" where
  "OSQQuery_OSNMsgs q = OSQEntries q"

section \<open>Invariant and abstraction\<close>

definition osq_ok :: "'a os_q \<Rightarrow> bool" where
  "osq_ok q \<longleftrightarrow> length (OSQTbl q) = OSQSize q \<and> 0 < OSQSize q
     \<and> OSQOut q < OSQSize q \<and> OSQEntries q \<le> OSQSize q
     \<and> OSQIn q = (OSQOut q + OSQEntries q) mod OSQSize q
     \<and> sorted (OSEventTbl q) \<and> (OSEventTbl q \<noteq> [] \<longrightarrow> OSQEntries q = 0)"

definition osq_msgs :: "'a os_q \<Rightarrow> 'a list" where
  "osq_msgs q = ring_take (OSQOut q) (OSQEntries q) (OSQTbl q)"

text \<open>No task is waiting on the queue: always so for the queues only polled with \<open>OSQAccept\<close>.\<close>

definition osq_quiet :: "'a os_q \<Rightarrow> bool" where
  "osq_quiet q \<longleftrightarrow> osq_ok q \<and> OSEventTbl q = []"

lemma length_osq_msgs [simp]: "length (osq_msgs q) = OSQEntries q"
  by (simp add: osq_msgs_def)

lemma osq_msgs_Nil_iff: "osq_msgs q = [] \<longleftrightarrow> OSQEntries q = 0"
  by (metis length_osq_msgs length_0_conv)

lemma OSQCreate_ok:
  "OSQCreate e n start = (Some q, r) \<Longrightarrow> start \<noteq> [] \<Longrightarrow>
     osq_quiet q \<and> osq_msgs q = [] \<and> OSQSize q = length start"
  by (auto simp: OSQCreate_def osq_quiet_def osq_ok_def osq_msgs_def split: if_splits)

lemma osq_take_front:
  assumes "osq_ok q" "0 < OSQEntries q"
  shows "osq_msgs q = OSQTbl q ! OSQOut q
      # osq_msgs (q\<lparr>OSQOut := ring_next (OSQSize q) (OSQOut q), OSQEntries := OSQEntries q - 1\<rparr>)"
proof -
  obtain k where k: "OSQEntries q = Suc k" using assms(2) by (cases "OSQEntries q") auto
  show ?thesis
    using assms k ring_take_Cons [of "OSQOut q" "OSQTbl q" k]
    by (simp add: osq_msgs_def osq_ok_def ring_next_mod)
qed

lemma osq_drop_front_ok:
  assumes "osq_ok q" "0 < OSQEntries q"
  shows "osq_ok (q\<lparr>OSQOut := ring_next (OSQSize q) (OSQOut q), OSQEntries := OSQEntries q - 1\<rparr>)"
proof -
  obtain k where k: "OSQEntries q = Suc k" using assms(2) by (cases "OSQEntries q") auto
  show ?thesis using assms k by (auto simp: osq_ok_def ring_next_mod mod_simps)
qed

lemma OSQAccept_empty: "osq_msgs q = [] \<Longrightarrow> OSQAccept q = ((0, OS_ERR_Q_EMPTY), q)"
  by (simp add: osq_msgs_Nil_iff OSQAccept_def)

lemma OSQAccept_msg:
  assumes "osq_quiet q" "osq_msgs q = m # ms"
  obtains q' where "OSQAccept q = ((m, OS_ERR_NONE), q')" "osq_quiet q'" "osq_msgs q' = ms"
    "OSQSize q' = OSQSize q"
proof -
  have e: "0 < OSQEntries q" using assms(2) by (metis length_osq_msgs length_Cons zero_less_Suc)
  have ok: "osq_ok q" "OSEventTbl q = []" using assms(1) by (auto simp: osq_quiet_def)
  show thesis
    by (rule that [of "q\<lparr>OSQOut := ring_next (OSQSize q) (OSQOut q), OSQEntries := OSQEntries q - 1\<rparr>"])
      (use e ok assms(2) osq_take_front [OF ok(1) e] osq_drop_front_ok [OF ok(1) e] in
        \<open>auto simp: OSQAccept_def osq_quiet_def\<close>)
qed

lemma OSQPost_full: "osq_quiet q \<Longrightarrow> OSQSize q \<le> length (osq_msgs q) \<Longrightarrow> OSQPost m q = (OS_ERR_Q_FULL, q)"
  by (simp add: OSQPost_def osq_quiet_def)

lemma OSQPost_room:
  assumes "osq_quiet q" "length (osq_msgs q) < OSQSize q"
  obtains q' where "OSQPost m q = (OS_ERR_NONE, q')" "osq_quiet q'"
    "osq_msgs q' = osq_msgs q @ [m]" "OSQSize q' = OSQSize q"
proof -
  have ok: "osq_ok q" "OSEventTbl q = []" "OSQEntries q < OSQSize q"
    using assms by (auto simp: osq_quiet_def)
  let ?q = "q\<lparr>OSQTbl := (OSQTbl q)[OSQIn q := m], OSQEntries := OSQEntries q + 1,
              OSQIn := ring_next (OSQSize q) (OSQIn q)\<rparr>"
  have "osq_msgs ?q = osq_msgs q @ [m]"
    using ok ring_take_snoc [of "OSQEntries q" "OSQTbl q" "OSQOut q" m]
    by (simp add: osq_msgs_def osq_ok_def)
  moreover have "osq_ok ?q"
    using ok by (auto simp: osq_ok_def ring_next_mod mod_simps)
  ultimately show thesis
    using ok that [of ?q] by (simp add: OSQPost_def osq_quiet_def)
qed

lemma OSQPostFront_full:
  "osq_quiet q \<Longrightarrow> OSQSize q \<le> length (osq_msgs q) \<Longrightarrow> OSQPostFront m q = (OS_ERR_Q_FULL, q)"
  by (simp add: OSQPostFront_def osq_quiet_def)

lemma ring_take_before:
  assumes "i < length xs" "k < length xs"
  defines "j \<equiv> (if i = 0 then length xs else i) - 1"
  shows "ring_take j (Suc k) (xs[j := x]) = x # ring_take i k xs" and "j < length xs"
    and "Suc j mod length xs = i"
proof -
  show j: "j < length xs" "Suc j mod length xs = i" using assms by (auto simp: j_def)
  have "j \<noteq> (i + l) mod length xs" if l: "l < k" for l
  proof
    assume "j = (i + l) mod length xs"
    then have "(j + Suc l) mod length xs = (j + 0) mod length xs"
      using j by (metis add_Suc_right add_Suc mod_add_left_eq mod_mod_trivial add.right_neutral mod_less)
    moreover have "Suc l < length xs" "0 < length xs" using l assms(2) by linarith+
    ultimately have "Suc l = 0" by (metis ring_slot_inj)
    then show False by simp
  qed
  then have "ring_take i k (xs[j := x]) = ring_take i k xs"
    by (simp add: ring_take_def)
  then show "ring_take j (Suc k) (xs[j := x]) = x # ring_take i k xs"
    using ring_take_Cons [of j "xs[j := x]" k] j by simp
qed

lemma OSQPostFront_room:
  assumes "osq_quiet q" "length (osq_msgs q) < OSQSize q"
  obtains q' where "OSQPostFront m q = (OS_ERR_NONE, q')" "osq_quiet q'"
    "osq_msgs q' = m # osq_msgs q" "OSQSize q' = OSQSize q"
proof -
  have ok: "osq_ok q" "OSEventTbl q = []" "OSQEntries q < OSQSize q"
    using assms by (auto simp: osq_quiet_def)
  have len: "length (OSQTbl q) = OSQSize q" "OSQOut q < OSQSize q" using ok by (auto simp: osq_ok_def)
  let ?j = "(if OSQOut q = 0 then OSQSize q else OSQOut q) - 1"
  let ?q = "q\<lparr>OSQOut := ?j, OSQTbl := (OSQTbl q)[?j := m], OSQEntries := OSQEntries q + 1\<rparr>"
  have "osq_msgs ?q = m # osq_msgs q"
    using len ok(3) ring_take_before(1) [of "OSQOut q" "OSQTbl q" "OSQEntries q" m]
    by (auto simp: osq_msgs_def split: if_splits)
  moreover have j: "?j < OSQSize q" "Suc ?j mod OSQSize q = OSQOut q"
    using len ok(3) ring_take_before(2,3) [of "OSQOut q" "OSQTbl q" "OSQEntries q"] by auto
  then have "(OSQOut q + OSQEntries q) mod OSQSize q = (?j + (OSQEntries q + 1)) mod OSQSize q"
    by (metis mod_add_left_eq add_Suc_right add_Suc Suc_eq_plus1)
  then have "osq_ok ?q"
    using ok j len by (auto simp: osq_ok_def)
  ultimately show thesis
    using ok that [of ?q] by (simp add: OSQPostFront_def osq_quiet_def Let_def)
qed

section \<open>The interface its clients use\<close>

text \<open>
  The three calls a client makes on a polled queue, what they answer, and the bounded
  list that specifies them.
\<close>

datatype 'a qop = QPost 'a | QPostFront 'a | QAccept

datatype 'a qout = QDone | QFull | QGot 'a | QEmpty

fun spec_step :: "nat \<Rightarrow> 'a list \<Rightarrow> 'a qop \<Rightarrow> 'a qout \<times> 'a list" where
  "spec_step n ms (QPost m) = (if length ms < n then (QDone, ms @ [m]) else (QFull, ms))"
| "spec_step n ms (QPostFront m) = (if length ms < n then (QDone, m # ms) else (QFull, ms))"
| "spec_step n [] QAccept = (QEmpty, [])"
| "spec_step n (m # ms) QAccept = (QGot m, ms)"

fun osq_step :: "'a::zero os_q \<Rightarrow> 'a qop \<Rightarrow> 'a qout \<times> 'a os_q" where
  "osq_step q (QPost m) =
     (case OSQPost m q of (e, q') \<Rightarrow> (if e = OS_ERR_NONE then QDone else QFull, q'))"
| "osq_step q (QPostFront m) =
     (case OSQPostFront m q of (e, q') \<Rightarrow> (if e = OS_ERR_NONE then QDone else QFull, q'))"
| "osq_step q QAccept =
     (case OSQAccept q of ((m, e), q') \<Rightarrow> (if e = OS_ERR_NONE then QGot m else QEmpty, q'))"

text \<open>A run of a machine over a list of operations: the answers and the last state.\<close>

fun run_ops :: "('s \<Rightarrow> 'o \<Rightarrow> 'r \<times> 's) \<Rightarrow> 's \<Rightarrow> 'o list \<Rightarrow> 'r list \<times> 's" where
  "run_ops f s [] = ([], s)"
| "run_ops f s (x # xs) =
     (case f s x of (r, s') \<Rightarrow> case run_ops f s' xs of (rs, s'') \<Rightarrow> (r # rs, s''))"

lemma run_ops_append:
  "run_ops f s (xs @ ys) =
     (case run_ops f s xs of (rs, s') \<Rightarrow> case run_ops f s' ys of (rs', s'') \<Rightarrow> (rs @ rs', s''))"
  by (induction xs arbitrary: s) (simp_all split: prod.splits)

text \<open>
  The laws: an operation answers and changes the messages as the bounded list does, and
  keeps the invariant and the capacity. From them, any run refines the list's run.
\<close>

locale msg_queue =
  fixes step :: "'q \<Rightarrow> 'a qop \<Rightarrow> 'a qout \<times> 'q"
    and msgs :: "'q \<Rightarrow> 'a list"
    and cap :: "'q \<Rightarrow> nat"
    and ok :: "'q \<Rightarrow> bool"
  assumes step_spec: "ok q \<Longrightarrow> step q x = (r, q') \<Longrightarrow> spec_step (cap q) (msgs q) x = (r, msgs q')"
    and step_ok: "ok q \<Longrightarrow> step q x = (r, q') \<Longrightarrow> ok q' \<and> cap q' = cap q"
    and msgs_cap: "ok q \<Longrightarrow> length (msgs q) \<le> cap q"
begin

lemma run_refines:
  "ok q \<Longrightarrow> run_ops step q xs = (rs, q') \<Longrightarrow>
     run_ops (spec_step (cap q)) (msgs q) xs = (rs, msgs q') \<and> ok q' \<and> cap q' = cap q"
proof (induction xs arbitrary: q rs)
  case Nil
  then show ?case by simp
next
  case (Cons x xs)
  obtain r q1 where s: "step q x = (r, q1)" by (cases "step q x")
  obtain rs1 where t: "run_ops step q1 xs = (rs1, q')" "rs = r # rs1"
    using Cons.prems(2) s by (auto split: prod.splits)
  from step_ok [OF Cons.prems(1) s] have ok1: "ok q1" "cap q1 = cap q" by auto
  with Cons.IH [OF ok1(1) t(1)] step_spec [OF Cons.prems(1) s] t(2) show ?case by simp
qed

lemma step_post:
  assumes "ok q" "length (msgs q) < cap q" "step q (QPost m) = (r, q')"
  shows "r = QDone \<and> msgs q' = msgs q @ [m] \<and> ok q' \<and> cap q' = cap q"
  using step_spec [OF assms(1,3)] step_ok [OF assms(1,3)] assms(2) by auto

lemma step_post_front:
  assumes "ok q" "length (msgs q) < cap q" "step q (QPostFront m) = (r, q')"
  shows "r = QDone \<and> msgs q' = m # msgs q \<and> ok q' \<and> cap q' = cap q"
  using step_spec [OF assms(1,3)] step_ok [OF assms(1,3)] assms(2) by auto

lemma step_accept:
  assumes "ok q" "step q QAccept = (QGot m, q')"
  shows "msgs q = m # msgs q' \<and> ok q' \<and> cap q' = cap q"
  using step_spec [OF assms] step_ok [OF assms] by (cases "msgs q") auto

text \<open>Messages that fit, posted in order to an empty queue, come out in that order.\<close>

lemma posts_then_accepts:
  assumes "ok q" "msgs q = []" "length ms \<le> cap q"
  shows "fst (run_ops step q (map QPost ms @ map (\<lambda>_. QAccept) ms))
    = map (\<lambda>_. QDone) ms @ map QGot ms"
proof -
  have posts: "run_ops (spec_step n) old (map QPost ms) = (map (\<lambda>_. QDone) ms, old @ ms)"
    if "length old + length ms \<le> n" for n and old :: "'a list" and ms
    using that by (induction ms arbitrary: old) auto
  have gets: "run_ops (spec_step n) ms (map (\<lambda>_. QAccept) ms) = (map QGot ms, [])" for n and ms :: "'a list"
    by (induction ms) auto
  obtain rs q' where r: "run_ops step q (map QPost ms @ map (\<lambda>_. QAccept) ms) = (rs, q')"
    by (cases "run_ops step q (map QPost ms @ map (\<lambda>_. QAccept) ms)")
  have "run_ops (spec_step (cap q)) [] (map QPost ms @ map (\<lambda>_. QAccept) ms)
     = (map (\<lambda>_. QDone) ms @ map QGot ms, [])"
    using posts [of "[]" ms "cap q"] gets [of "cap q" ms] assms(3) by (simp add: run_ops_append)
  moreover have "run_ops (spec_step (cap q)) [] (map QPost ms @ map (\<lambda>_. QAccept) ms) = (rs, msgs q')"
    using run_refines [OF assms(1) r] assms(2) by metis
  ultimately show ?thesis using r by (metis fst_conv)
qed

text \<open>Putting a message back where it was taken from restores the queue.\<close>

lemma accept_post_front:
  assumes "ok q" "run_ops step q [QAccept] = ([QGot m], q1)"
    and "run_ops step q1 [QPostFront m] = (rs, q2)"
  shows "rs = [QDone] \<and> msgs q2 = msgs q"
proof -
  obtain ms where q: "msgs q = m # ms" "msgs q1 = ms" "ok q1" "cap q1 = cap q"
    using run_refines [OF assms(1,2)] by (cases "msgs q") auto
  with run_refines [OF q(3) assms(3)] msgs_cap [OF assms(1)] show ?thesis by auto
qed

end

lemma osq_step_spec:
  assumes "osq_quiet q" "osq_step q x = (r, q')"
  shows "spec_step (OSQSize q) (osq_msgs q) x = (r, osq_msgs q')" "osq_quiet q'" "OSQSize q' = OSQSize q"
proof -
  have "spec_step (OSQSize q) (osq_msgs q) x = (r, osq_msgs q') \<and> osq_quiet q' \<and> OSQSize q' = OSQSize q"
  proof (cases x)
    case (QPost m)
    show ?thesis
    proof (cases "length (osq_msgs q) < OSQSize q")
      case True
      obtain q1 where "OSQPost m q = (OS_ERR_NONE, q1)" "osq_quiet q1"
        "osq_msgs q1 = osq_msgs q @ [m]" "OSQSize q1 = OSQSize q"
        by (rule OSQPost_room [OF assms(1) True])
      then show ?thesis using True assms QPost by auto
    next
      case False
      then show ?thesis using OSQPost_full [OF assms(1), of m] assms QPost by auto
    qed
  next
    case (QPostFront m)
    show ?thesis
    proof (cases "length (osq_msgs q) < OSQSize q")
      case True
      obtain q1 where "OSQPostFront m q = (OS_ERR_NONE, q1)" "osq_quiet q1"
        "osq_msgs q1 = m # osq_msgs q" "OSQSize q1 = OSQSize q"
        by (rule OSQPostFront_room [OF assms(1) True])
      then show ?thesis using True assms QPostFront by auto
    next
      case False
      then show ?thesis using OSQPostFront_full [OF assms(1), of m] assms QPostFront by auto
    qed
  next
    case QAccept
    show ?thesis
    proof (cases "osq_msgs q")
      case Nil
      then show ?thesis using OSQAccept_empty [OF Nil] assms QAccept by auto
    next
      case (Cons m ms)
      obtain q1 where "OSQAccept q = ((m, OS_ERR_NONE), q1)" "osq_quiet q1"
        "osq_msgs q1 = ms" "OSQSize q1 = OSQSize q"
        by (rule OSQAccept_msg [OF assms(1) Cons])
      then show ?thesis using Cons assms QAccept by auto
    qed
  qed
  then show "spec_step (OSQSize q) (osq_msgs q) x = (r, osq_msgs q')" "osq_quiet q'"
    "OSQSize q' = OSQSize q" by auto
qed

lemma osq_quiet_cap: "osq_quiet q \<Longrightarrow> length (osq_msgs q) \<le> OSQSize q"
  by (simp add: osq_quiet_def osq_ok_def)

interpretation osq: msg_queue "osq_step :: 'a::zero os_q \<Rightarrow> _" osq_msgs OSQSize osq_quiet
  by unfold_locales (auto dest: osq_step_spec osq_quiet_cap)

section \<open>Properties\<close>

text \<open>
  C13: any sequence of posts, front posts and accepts on a queue nobody waits on answers
  exactly as a list bounded by the queue's size would, and leaves that list's contents:
  the ring with its two wrapping pointers and its count refines a bounded queue.
\<close>

theorem OSQ_refines_bounded_list:
  assumes "osq_quiet q" "run_ops osq_step q ops = (answers, q')"
  shows "run_ops (spec_step (OSQSize q)) (osq_msgs q) ops = (answers, osq_msgs q')
    \<and> osq_quiet q' \<and> OSQSize q' = OSQSize q"
  using assms by (rule osq.run_refines)

definition demo_q :: "nat os_q" where
  "demo_q = \<lparr>OSQTbl = [0, 0, 0], OSQIn = 0, OSQOut = 0, OSQSize = 3, OSQEntries = 0,
     OSEventTbl = [], OSTCBMsg = []\<rparr>"

lemma demo_q_quiet: "osq_quiet demo_q" "osq_msgs demo_q = []" "OSQSize demo_q = 3"
  by (simp_all add: demo_q_def osq_quiet_def osq_ok_def osq_msgs_def)

theorem OSQ_refines_bounded_list_witness:
  "\<exists>q'. run_ops osq_step demo_q [QPost 7, QPost 8, QPostFront 9, QPost 1, QAccept]
      = ([QDone, QDone, QDone, QFull, QGot 9], q') \<and> osq_msgs q' = [7, 8]"
proof -
  obtain rs q' where r: "run_ops osq_step demo_q [QPost 7, QPost 8, QPostFront 9, QPost 1, QAccept] = (rs, q')"
    by (cases "run_ops osq_step demo_q [QPost 7, QPost 8, QPostFront 9, QPost 1, QAccept]")
  with OSQ_refines_bounded_list [OF demo_q_quiet(1) r] show ?thesis
    by (simp add: demo_q_quiet)
qed

text \<open>
  a message posted while tasks wait is not queued: it is handed to the waiting task of
  highest priority, which gets exactly that message when it resumes, and the other
  waiters keep waiting.
\<close>

theorem OSQPost_hands_over:
  assumes "osq_ok q" "OSEventTbl q = prio # waiting" "prio \<notin> fst ` set (OSTCBMsg q)"
  shows "\<exists>q' q''. OSQPost m q = (OS_ERR_NONE, q') \<and> osq_msgs q' = osq_msgs q \<and> OSEventTbl q' = waiting
    \<and> OSQPend_resume prio q' = ((m, OS_ERR_NONE), q'') \<and> OSTCBMsg q'' = OSTCBMsg q \<and> osq_ok q''"
proof -
  have "map_of (OSTCBMsg q) prio = None" using assms(3) by (simp add: map_of_eq_None_iff)
  moreover have "filter (\<lambda>e. fst e \<noteq> prio) (OSTCBMsg q) = OSTCBMsg q"
    using assms(3) by (intro filter_True) force
  ultimately show ?thesis
    using assms(1,2)
    by (auto simp: OSQPost_def OS_EventTaskRdy_def OSQPend_resume_def osq_ok_def osq_msgs_def map_add_def
        split: option.splits)
qed

theorem OSQPost_hands_over_witness:
  "\<exists>q' q''. OSQPost 5 (snd (OSQPend 3 (snd (OSQPend 4 demo_q)))) = (OS_ERR_NONE, q')
    \<and> OSEventTbl q' = [4] \<and> OSQPend_resume 3 q' = ((5, OS_ERR_NONE), q'')"
  using OSQPost_hands_over [of "snd (OSQPend 3 (snd (OSQPend 4 demo_q)))" 3 "[4]" 5]
  by (auto simp: demo_q_def OSQPend_def osq_ok_def)

end
