(* ===== verification/Os_Mem.thy ===== *)
theory Os_Mem
  imports Os_Queue
begin

text \<open>
  The fixed-size block partitions of uC/OS-II (\<open>ucosii/uCOS-II/Source/os_mem.c\<close>). A
  partition is its control block and the bytes of its pool, addressed as the target
  does: a free block holds the address of the next free one in its first four bytes, in
  host order, and \<open>0\<close> is NULL. The abstraction \<open>mem_free\<close> is the list of free
  blocks; \<open>block_pool\<close> states the laws the clients use, and \<open>mailbox\<close> combines them
  with those of the queues: a pool of blocks and a queue of pointers into it.
\<close>

section \<open>Memory\<close>

type_synonym memory = "nat \<Rightarrow> u8"

definition mem_write :: "nat \<Rightarrow> bytes \<Rightarrow> memory \<Rightarrow> memory" where
  "mem_write a bs m = (\<lambda>x. if a \<le> x \<and> x < a + length bs then bs ! (x - a) else m x)"

definition mem_read :: "nat \<Rightarrow> nat \<Rightarrow> memory \<Rightarrow> bytes" where
  "mem_read a n m = map m [a..<a + n]"

definition load_ptr :: "memory \<Rightarrow> nat \<Rightarrow> nat" where
  "load_ptr m a = unat (of_le32 (mem_read a 4 m))"

definition store_ptr :: "nat \<Rightarrow> nat \<Rightarrow> memory \<Rightarrow> memory" where
  "store_ptr a p m = mem_write a (le32 (of_nat p)) m"

lemma length_mem_read [simp]: "length (mem_read a n m) = n"
  by (simp add: mem_read_def)

lemma mem_read_write_same [simp]: "mem_read a (length bs) (mem_write a bs m) = bs"
  by (rule nth_equalityI) (auto simp: mem_read_def mem_write_def)

lemma mem_read_write_other:
  "b + n \<le> a \<or> a + length bs \<le> b \<Longrightarrow> mem_read b n (mem_write a bs m) = mem_read b n m"
  by (auto simp: mem_read_def mem_write_def)

lemma mem_write_Nil [simp]: "mem_write a [] m = m"
  by (intro ext) (auto simp: mem_write_def)

lemma mem_read_Nil [simp]: "mem_read a 0 m = []"
  by (simp add: mem_read_def)

lemma load_store_ptr: "p < 2 ^ 32 \<Longrightarrow> load_ptr (store_ptr a p m) a = p"
  using mem_read_write_same [of a "le32 (of_nat p)" m]
  by (simp add: load_ptr_def store_ptr_def unat_of_nat take_bit_nat_eq_self)

lemma load_ptr_write_other:
  "b + 4 \<le> a \<or> a + length bs \<le> b \<Longrightarrow> load_ptr (mem_write a bs m) b = load_ptr m b"
  by (simp add: load_ptr_def mem_read_write_other)

section \<open>Partitions\<close>

record os_mem =
  OSMemAddr :: nat
  OSMemFreeList :: nat
  OSMemBlkSize :: nat
  OSMemNBlks :: nat
  OSMemNFree :: nat
  OSMemPool :: memory

fun link_blocks :: "nat \<Rightarrow> nat \<Rightarrow> nat \<Rightarrow> memory \<Rightarrow> memory" where
  "link_blocks 0 plink blksize m = store_ptr plink 0 m"
| "link_blocks (Suc loops) plink blksize m =
     link_blocks loops (plink + blksize) blksize (store_ptr plink (plink + blksize) m)"

text \<open>\<open>parts\<close> is the number of partition control blocks still free.\<close>

definition OSMemCreate :: "nat \<Rightarrow> nat \<Rightarrow> nat \<Rightarrow> nat \<Rightarrow> memory \<Rightarrow> os_mem option \<times> nat" where
  "OSMemCreate parts addr nblks blksize m =
     (if parts = 0 then (None, parts)
      else (Some \<lparr>OSMemAddr = addr, OSMemFreeList = addr, OSMemBlkSize = blksize,
                  OSMemNBlks = nblks, OSMemNFree = nblks,
                  OSMemPool = link_blocks (nblks - 1) addr blksize m\<rparr>, parts - 1))"

definition OSMemGet :: "os_mem \<Rightarrow> (nat \<times> os_err) \<times> os_mem" where
  "OSMemGet m =
     (if 0 < OSMemNFree m then
        ((OSMemFreeList m, OS_ERR_NONE),
         m\<lparr>OSMemFreeList := load_ptr (OSMemPool m) (OSMemFreeList m), OSMemNFree := OSMemNFree m - 1\<rparr>)
      else ((0, OS_ERR_MEM_NO_FREE_BLKS), m))"

definition OSMemPut :: "nat \<Rightarrow> os_mem \<Rightarrow> os_err \<times> os_mem" where
  "OSMemPut pblk m =
     (if OSMemNBlks m \<le> OSMemNFree m then (OS_ERR_MEM_FULL, m)
      else (OS_ERR_NONE,
        m\<lparr>OSMemPool := store_ptr pblk (OSMemFreeList m) (OSMemPool m),
          OSMemFreeList := pblk, OSMemNFree := OSMemNFree m + 1\<rparr>))"

text \<open>
  What the clients' \<open>memcpy\<close> calls do with a block: an access inside the pool is carried
  out, even when it leaves the block; an access outside the pool faults.
\<close>

definition pool_has :: "os_mem \<Rightarrow> nat \<Rightarrow> nat \<Rightarrow> bool" where
  "pool_has m a n \<longleftrightarrow> OSMemAddr m \<le> a \<and> a + n \<le> OSMemAddr m + OSMemNBlks m * OSMemBlkSize m"

definition blk_write :: "nat \<Rightarrow> nat \<Rightarrow> bytes \<Rightarrow> os_mem \<Rightarrow> os_mem outcome" where
  "blk_write p off bs m =
     (if pool_has m (p + off) (length bs)
      then Ret (m\<lparr>OSMemPool := mem_write (p + off) bs (OSMemPool m)\<rparr>) else Fault)"

definition blk_read :: "nat \<Rightarrow> nat \<Rightarrow> nat \<Rightarrow> os_mem \<Rightarrow> bytes outcome" where
  "blk_read p off n m =
     (if pool_has m (p + off) n then Ret (mem_read (p + off) n (OSMemPool m)) else Fault)"

section \<open>Invariant and abstraction\<close>

fun free_chain :: "nat \<Rightarrow> memory \<Rightarrow> nat \<Rightarrow> nat list" where
  "free_chain 0 m p = []"
| "free_chain (Suc n) m p = p # free_chain n m (load_ptr m p)"

definition mem_free :: "os_mem \<Rightarrow> nat list" where
  "mem_free m = free_chain (OSMemNFree m) (OSMemPool m) (OSMemFreeList m)"

definition mem_blocks :: "os_mem \<Rightarrow> nat list" where
  "mem_blocks m = map (\<lambda>i. OSMemAddr m + i * OSMemBlkSize m) [0..<OSMemNBlks m]"

definition mem_ok :: "os_mem \<Rightarrow> bool" where
  "mem_ok m \<longleftrightarrow> 4 \<le> OSMemBlkSize m \<and> 0 < OSMemAddr m
     \<and> OSMemAddr m + OSMemNBlks m * OSMemBlkSize m \<le> 2 ^ 32
     \<and> distinct (mem_free m) \<and> set (mem_free m) \<subseteq> set (mem_blocks m)"

lemma length_free_chain [simp]: "length (free_chain n m p) = n"
  by (induction n arbitrary: p) auto

lemma length_mem_free [simp]: "length (mem_free m) = OSMemNFree m"
  by (simp add: mem_free_def)

lemma length_mem_blocks [simp]: "length (mem_blocks m) = OSMemNBlks m"
  by (simp add: mem_blocks_def)

lemma free_chain_cong:
  "(\<And>q. q \<in> set (free_chain n m p) \<Longrightarrow> load_ptr m' q = load_ptr m q) \<Longrightarrow>
     free_chain n m' p = free_chain n m p"
  by (induction n arbitrary: p) auto

lemma mem_blocks_apart:
  assumes "p \<in> set (mem_blocks m)" "q \<in> set (mem_blocks m)" "p \<noteq> q"
  shows "p + OSMemBlkSize m \<le> q \<or> q + OSMemBlkSize m \<le> p"
proof -
  obtain i j where ij: "p = OSMemAddr m + i * OSMemBlkSize m" "q = OSMemAddr m + j * OSMemBlkSize m"
    using assms(1,2) by (auto simp: mem_blocks_def)
  with assms(3) have "i < j \<or> j < i" by auto
  then have "Suc i * OSMemBlkSize m \<le> j * OSMemBlkSize m \<or> Suc j * OSMemBlkSize m \<le> i * OSMemBlkSize m"
    by (metis Suc_leI mult_le_mono1)
  then show ?thesis using ij by auto
qed

lemma mem_blocks_bounds:
  assumes "p \<in> set (mem_blocks m)"
  shows "OSMemAddr m \<le> p" "p + OSMemBlkSize m \<le> OSMemAddr m + OSMemNBlks m * OSMemBlkSize m"
proof -
  obtain i where i: "p = OSMemAddr m + i * OSMemBlkSize m" "i < OSMemNBlks m"
    using assms by (fastforce simp: mem_blocks_def)
  then show "OSMemAddr m \<le> p" by simp
  from i(2) have "Suc i * OSMemBlkSize m \<le> OSMemNBlks m * OSMemBlkSize m"
    by (intro mult_le_mono1) simp
  then show "p + OSMemBlkSize m \<le> OSMemAddr m + OSMemNBlks m * OSMemBlkSize m" using i(1) by simp
qed

lemma mem_ok_block:
  assumes "mem_ok m" "p \<in> set (mem_blocks m)"
  shows "0 < p" "p < 2 ^ 32" "p + 4 \<le> OSMemAddr m + OSMemNBlks m * OSMemBlkSize m"
  using assms mem_blocks_bounds [OF assms(2)] by (auto simp: mem_ok_def)

lemma mem_ok_nfree: "mem_ok m \<Longrightarrow> OSMemNFree m \<le> OSMemNBlks m"
  unfolding mem_ok_def
  by (metis card_mono List.finite_set distinct_card length_mem_free card_length length_mem_blocks le_trans)

lemma OSMemGet_none: "mem_free m = [] \<Longrightarrow> OSMemGet m = ((0, OS_ERR_MEM_NO_FREE_BLKS), m)"
  by (metis OSMemGet_def length_mem_free list.size(3) less_irrefl)

lemma OSMemGet_some:
  assumes "mem_ok m" "mem_free m = p # fs"
  obtains m' where "OSMemGet m = ((p, OS_ERR_NONE), m')" "mem_ok m'" "mem_free m' = fs"
    "mem_blocks m' = mem_blocks m" "OSMemPool m' = OSMemPool m" "OSMemBlkSize m' = OSMemBlkSize m"
    "pool_has m' = pool_has m"
proof -
  obtain n where n: "OSMemNFree m = Suc n"
    using assms(2) by (metis length_Cons length_mem_free)
  let ?m = "m\<lparr>OSMemFreeList := load_ptr (OSMemPool m) (OSMemFreeList m), OSMemNFree := OSMemNFree m - 1\<rparr>"
  have f: "OSMemFreeList m = p" "mem_free ?m = fs"
    using assms(2) n by (auto simp: mem_free_def)
  show thesis
    by (rule that [of ?m])
      (use f n assms in \<open>auto simp: OSMemGet_def mem_ok_def mem_blocks_def pool_has_def fun_eq_iff\<close>)
qed

lemma OSMemPut_some:
  assumes "mem_ok m" "p \<in> set (mem_blocks m)" "p \<notin> set (mem_free m)"
  obtains m' where "OSMemPut p m = (OS_ERR_NONE, m')" "mem_ok m'" "mem_free m' = p # mem_free m"
    "mem_blocks m' = mem_blocks m" "OSMemBlkSize m' = OSMemBlkSize m" "pool_has m' = pool_has m"
    "\<And>q n. q \<in> set (mem_blocks m) \<Longrightarrow> q \<noteq> p \<Longrightarrow> n \<le> OSMemBlkSize m \<Longrightarrow>
       mem_read q n (OSMemPool m') = mem_read q n (OSMemPool m)"
proof -
  have nf: "OSMemNFree m < OSMemNBlks m"
  proof -
    have "card (insert p (set (mem_free m))) \<le> card (set (mem_blocks m))"
      using assms by (intro card_mono) (auto simp: mem_ok_def)
    moreover have "card (set (mem_free m)) = OSMemNFree m"
      using assms(1) by (metis distinct_card length_mem_free mem_ok_def)
    ultimately show ?thesis using assms(3) card_length [of "mem_blocks m"] by simp
  qed
  let ?m = "m\<lparr>OSMemPool := store_ptr p (OSMemFreeList m) (OSMemPool m),
              OSMemFreeList := p, OSMemNFree := OSMemNFree m + 1\<rparr>"
  have sz: "4 \<le> OSMemBlkSize m" using assms(1) by (simp add: mem_ok_def)
  have other: "mem_read q n (OSMemPool ?m) = mem_read q n (OSMemPool m)"
    if "q \<in> set (mem_blocks m)" "q \<noteq> p" "n \<le> OSMemBlkSize m" for q n
    using mem_blocks_apart [OF that(1) assms(2) that(2)] that(3) sz
    by (simp add: store_ptr_def) (intro mem_read_write_other, auto)
  have link: "free_chain (OSMemNFree m) (OSMemPool ?m) (OSMemFreeList m) = mem_free m"
    unfolding mem_free_def
  proof (rule free_chain_cong)
    fix q assume "q \<in> set (free_chain (OSMemNFree m) (OSMemPool m) (OSMemFreeList m))"
    then have "q \<in> set (mem_blocks m)" "q \<noteq> p" using assms by (auto simp: mem_ok_def mem_free_def)
    then show "load_ptr (OSMemPool ?m) q = load_ptr (OSMemPool m) q"
      using other [of q 4] sz by (simp add: load_ptr_def)
  qed
  have "mem_free ?m = p # mem_free m"
  proof (cases "OSMemNFree m = 0")
    case True
    then show ?thesis by (simp add: mem_free_def)
  next
    case False
    then have "OSMemFreeList m \<in> set (mem_free m)"
      by (cases "OSMemNFree m") (simp_all add: mem_free_def)
    then have "OSMemFreeList m < 2 ^ 32" using assms(1) mem_ok_block(2) by (auto simp: mem_ok_def)
    then show ?thesis using link by (simp add: mem_free_def load_store_ptr)
  qed
  then show thesis
    by (intro that [of ?m])
      (use nf assms other in \<open>auto simp: OSMemPut_def mem_ok_def mem_blocks_def pool_has_def fun_eq_iff\<close>)
qed

text \<open>A write inside a block that is not free keeps the partition; outside the pool it faults.\<close>

lemma blk_write_own:
  assumes "mem_ok m" "p \<in> set (mem_blocks m)" "p \<notin> set (mem_free m)"
    and "off + length bs \<le> OSMemBlkSize m"
  obtains m' where "blk_write p off bs m = Ret m'" "mem_ok m'" "mem_free m' = mem_free m"
    "mem_blocks m' = mem_blocks m" "OSMemBlkSize m' = OSMemBlkSize m" "pool_has m' = pool_has m"
    "\<And>q n. q \<in> set (mem_blocks m) \<Longrightarrow> q \<noteq> p \<Longrightarrow> n \<le> OSMemBlkSize m \<Longrightarrow>
       mem_read q n (OSMemPool m') = mem_read q n (OSMemPool m)"
    "OSMemPool m' = mem_write (p + off) bs (OSMemPool m)"
proof -
  let ?m = "m\<lparr>OSMemPool := mem_write (p + off) bs (OSMemPool m)\<rparr>"
  have sz: "4 \<le> OSMemBlkSize m" using assms(1) by (simp add: mem_ok_def)
  have other: "mem_read q n (OSMemPool ?m) = mem_read q n (OSMemPool m)"
    if "q \<in> set (mem_blocks m)" "q \<noteq> p" "n \<le> OSMemBlkSize m" for q n
    using mem_blocks_apart [OF that(1) assms(2) that(2)] that(3) assms(4)
    by simp (intro mem_read_write_other, auto)
  have link: "mem_free ?m = mem_free m"
    unfolding mem_free_def
  proof (simp, rule free_chain_cong)
    fix q assume "q \<in> set (free_chain (OSMemNFree m) (OSMemPool m) (OSMemFreeList m))"
    then have "q \<in> set (mem_blocks m)" "q \<noteq> p" using assms by (auto simp: mem_ok_def mem_free_def)
    then show "load_ptr (mem_write (p + off) bs (OSMemPool m)) q = load_ptr (OSMemPool m) q"
      using other [of q 4] sz by (simp add: load_ptr_def)
  qed
  have "pool_has m (p + off) (length bs)"
    using mem_blocks_bounds [OF assms(2)] assms(4) by (simp add: pool_has_def)
  then show thesis
    by (intro that [of ?m])
      (use link other assms in \<open>auto simp: blk_write_def mem_ok_def mem_blocks_def pool_has_def fun_eq_iff\<close>)
qed

lemma blk_read_own:
  assumes "p \<in> set (mem_blocks m)" "off + n \<le> OSMemBlkSize m"
  shows "blk_read p off n m = Ret (mem_read (p + off) n (OSMemPool m))"
  using mem_blocks_bounds [OF assms(1)] assms(2) by (simp add: blk_read_def pool_has_def)

lemma load_ptr_link_blocks: "q + 4 \<le> a \<Longrightarrow> load_ptr (link_blocks n a b m) q = load_ptr m q"
  by (induction n arbitrary: a m) (simp_all add: store_ptr_def load_ptr_write_other)

lemma free_chain_link_blocks:
  "4 \<le> b \<Longrightarrow> a + Suc n * b \<le> 2 ^ 32 \<Longrightarrow>
     free_chain (Suc n) (link_blocks n a b m) a = map (\<lambda>i. a + i * b) [0..<Suc n]"
proof (induction n arbitrary: a m)
  case 0
  then show ?case by simp
next
  case (Suc n)
  have "free_chain (Suc n) (link_blocks n (a + b) b (store_ptr a (a + b) m)) (a + b)
      = map (\<lambda>i. a + b + i * b) [0..<Suc n]"
    using Suc.prems by (intro Suc.IH) simp_all
  moreover have "load_ptr (link_blocks n (a + b) b (store_ptr a (a + b) m)) a = a + b"
    using Suc.prems by (simp add: load_ptr_link_blocks load_store_ptr)
  moreover have "map (\<lambda>i. a + i * b) [0..<Suc (Suc n)] = a # map (\<lambda>i. a + b + i * b) [0..<Suc n]"
    by (simp add: upt_rec [of 0] map_Suc_upt [symmetric] o_def add.assoc del: upt_Suc)
  ultimately show ?case by (simp del: upt_Suc)
qed

text \<open>A new partition: every block is free, in address order.\<close>

lemma OSMemCreate_ok:
  assumes "OSMemCreate parts addr nblks blksize m0 = (Some m, r)"
    and "0 < nblks" "4 \<le> blksize" "0 < addr" "addr + nblks * blksize \<le> 2 ^ 32"
  shows "mem_ok m" "mem_free m = mem_blocks m" "OSMemNBlks m = nblks" "OSMemBlkSize m = blksize"
proof -
  obtain n where n: "nblks = Suc n" using assms(2) by (cases nblks) auto
  have m: "m = \<lparr>OSMemAddr = addr, OSMemFreeList = addr, OSMemBlkSize = blksize, OSMemNBlks = nblks,
      OSMemNFree = nblks, OSMemPool = link_blocks n addr blksize m0\<rparr>"
    using assms(1) n by (auto simp: OSMemCreate_def split: if_splits)
  show f: "mem_free m = mem_blocks m"
    using free_chain_link_blocks [of blksize addr n m0] assms(3,5) n
    by (simp add: m mem_free_def mem_blocks_def del: free_chain.simps upt_Suc)
  have "distinct (mem_blocks m)"
    using assms(3) by (auto simp: mem_blocks_def m distinct_map inj_on_def)
  then show "mem_ok m" using f assms m by (simp add: mem_ok_def)
  show "OSMemNBlks m = nblks" "OSMemBlkSize m = blksize" by (simp_all add: m)
qed

section \<open>The interface its clients use\<close>

text \<open>
  A pool hands out a block that was free, or none when all are in use, and takes a
  block in use back; nothing else changes hands.
\<close>

locale block_pool =
  fixes get :: "'m \<Rightarrow> 'p option \<times> 'm"
    and put :: "'p \<Rightarrow> 'm \<Rightarrow> 'm"
    and free :: "'m \<Rightarrow> 'p list"
    and blocks :: "'m \<Rightarrow> 'p list"
    and pok :: "'m \<Rightarrow> bool"
  assumes free_blocks: "pok m \<Longrightarrow> distinct (free m) \<and> set (free m) \<subseteq> set (blocks m)"
    and get_none: "pok m \<Longrightarrow> free m = [] \<Longrightarrow> get m = (None, m)"
    and get_some: "pok m \<Longrightarrow> free m = p # fs \<Longrightarrow>
      \<exists>m'. get m = (Some p, m') \<and> pok m' \<and> free m' = fs \<and> blocks m' = blocks m"
    and put_law: "pok m \<Longrightarrow> p \<in> set (blocks m) \<Longrightarrow> p \<notin> set (free m) \<Longrightarrow>
      pok (put p m) \<and> free (put p m) = p # free m \<and> blocks (put p m) = blocks m"
begin

text \<open>A block that is handed out was not in use and is in use afterwards.\<close>

lemma get_fresh:
  assumes "pok m" "get m = (Some p, m')"
  shows "p \<in> set (free m) \<and> p \<notin> set (free m') \<and> p \<in> set (blocks m')"
proof (cases "free m")
  case Nil
  with assms get_none show ?thesis by force
next
  case (Cons q fs)
  with assms get_some [OF assms(1) Cons] free_blocks [OF assms(1)] show ?thesis by auto
qed

lemma get_put: "pok m \<Longrightarrow> get m = (Some p, m') \<Longrightarrow> free (put p m') = free m"
  by (cases "free m") (use get_none get_some get_fresh put_law in \<open>fastforce+\<close>)

end

text \<open>
  A mailbox: a pool and a queue of pointers to its blocks, with as many slots as blocks.
  \<open>owned\<close> accounts for every block: free, queued, or in the hands of a task. As long as
  it holds, a held block can always be posted, and no message is in two places.
\<close>

locale mailbox = msg_queue step msgs cap qok + block_pool get put free blocks pok
  for step :: "'q \<Rightarrow> 'p qop \<Rightarrow> 'p qout \<times> 'q" and msgs cap qok
    and get :: "'m \<Rightarrow> 'p option \<times> 'm" and put free blocks pok
begin

definition owned :: "'q \<Rightarrow> 'm \<Rightarrow> 'p list \<Rightarrow> bool" where
  "owned q m held \<longleftrightarrow> qok q \<and> pok m \<and> length (blocks m) \<le> cap q
     \<and> distinct (msgs q @ held @ free m) \<and> set (msgs q @ held @ free m) = set (blocks m)"

lemma owned_get: "owned q m held \<Longrightarrow> get m = (Some p, m') \<Longrightarrow> owned q m' (p # held)"
  using get_none [of m] get_some [of m] by (cases "free m") (force simp: owned_def)+

lemma owned_put:
  assumes "owned q m (p # held)" shows "owned q (put p m) held"
proof -
  have "pok m" "p \<in> set (blocks m)" "p \<notin> set (free m)" using assms by (auto simp: owned_def)
  note put_law [OF this]
  with assms show ?thesis by (auto simp: owned_def)
qed

lemma owned_room:
  assumes "owned q m (p # held)" shows "length (msgs q) < cap q"
proof -
  have "length (msgs q @ (p # held) @ free m) \<le> length (blocks m)"
    using assms distinct_card [of "msgs q @ (p # held) @ free m"] card_length [of "blocks m"]
    by (simp add: owned_def)
  with assms show ?thesis by (simp add: owned_def)
qed

lemma owned_post:
  assumes "owned q m (p # held)" "step q (QPost p) = (r, q')"
  shows "r = QDone \<and> owned q' m held \<and> msgs q' = msgs q @ [p]"
proof -
  have "r = QDone \<and> msgs q' = msgs q @ [p] \<and> qok q' \<and> cap q' = cap q"
    using assms owned_room [OF assms(1)] by (intro step_post) (auto simp: owned_def)
  with assms(1) show ?thesis by (auto simp: owned_def)
qed

lemma owned_post_front:
  assumes "owned q m (p # held)" "step q (QPostFront p) = (r, q')"
  shows "r = QDone \<and> owned q' m held \<and> msgs q' = p # msgs q"
proof -
  have "r = QDone \<and> msgs q' = p # msgs q \<and> qok q' \<and> cap q' = cap q"
    using assms owned_room [OF assms(1)] by (intro step_post_front) (auto simp: owned_def)
  with assms(1) show ?thesis by (auto simp: owned_def)
qed

lemma owned_accept:
  assumes "owned q m held" "step q QAccept = (QGot p, q')"
  shows "owned q' m (p # held) \<and> msgs q = p # msgs q'"
proof -
  have "msgs q = p # msgs q' \<and> qok q' \<and> cap q' = cap q"
    using assms by (intro step_accept) (auto simp: owned_def)
  with assms(1) show ?thesis by (auto simp: owned_def)
qed

end

definition mem_get :: "os_mem \<Rightarrow> nat option \<times> os_mem" where
  "mem_get m = (case OSMemGet m of ((p, e), m') \<Rightarrow> (if e = OS_ERR_NONE then Some p else None, m'))"

definition mem_put :: "nat \<Rightarrow> os_mem \<Rightarrow> os_mem" where
  "mem_put p m = snd (OSMemPut p m)"

lemma mem_get_some:
  assumes "mem_ok m" "mem_free m = p # fs"
  shows "\<exists>m'. mem_get m = (Some p, m') \<and> mem_ok m' \<and> mem_free m' = fs \<and> mem_blocks m' = mem_blocks m"
  by (rule OSMemGet_some [OF assms]) (auto simp: mem_get_def)

lemma mem_put_law:
  assumes "mem_ok m" "p \<in> set (mem_blocks m)" "p \<notin> set (mem_free m)"
  shows "mem_ok (mem_put p m) \<and> mem_free (mem_put p m) = p # mem_free m
    \<and> mem_blocks (mem_put p m) = mem_blocks m"
  by (rule OSMemPut_some [OF assms]) (auto simp: mem_put_def)

lemma mem_free_blocks: "mem_ok m \<Longrightarrow> distinct (mem_free m) \<and> set (mem_free m) \<subseteq> set (mem_blocks m)"
  by (simp add: mem_ok_def)

lemma mem_get_none: "mem_free m = [] \<Longrightarrow> mem_get m = (None, m)"
  by (simp add: mem_get_def OSMemGet_none)

interpretation osm: block_pool mem_get mem_put mem_free mem_blocks mem_ok
  by unfold_locales (simp_all add: mem_free_blocks mem_get_none mem_get_some mem_put_law)

interpretation mbox: mailbox "osq_step :: nat os_q \<Rightarrow> _" osq_msgs OSQSize osq_quiet
    mem_get mem_put mem_free mem_blocks mem_ok
  by unfold_locales

section \<open>Depositing and withdrawing byte blocks\<close>

text \<open>
  What a queue of blocks holds: the bytes of each queued block. The lemmas describe the two
  sequences the clients run: get, fill, post; and accept, read, put.
\<close>

definition mbox_ok :: "nat os_q \<Rightarrow> os_mem \<Rightarrow> bool" where
  "mbox_ok q m \<longleftrightarrow> mbox.owned q m []"

definition mbox_data :: "nat os_q \<Rightarrow> os_mem \<Rightarrow> bytes list" where
  "mbox_data q m = map (\<lambda>p. mem_read p (OSMemBlkSize m) (OSMemPool m)) (osq_msgs q)"

lemma length_mbox_data [simp]: "length (mbox_data q m) = OSQEntries q"
  by (simp add: mbox_data_def)

lemma owned_mem_ok: "mbox.owned q m held \<Longrightarrow> mem_ok m" "mbox.owned q m held \<Longrightarrow> osq_quiet q"
  by (auto simp: mbox.owned_def)

lemma mbox_create:
  assumes "OSQCreate e n tbl = (Some q, r)" "OSMemCreate parts addr nblks blksize m0 = (Some m, r')"
    and "length tbl = nblks" "0 < nblks" "4 \<le> blksize" "0 < addr" "addr + nblks * blksize \<le> 2 ^ 32"
  shows "mbox_ok q m \<and> mbox_data q m = [] \<and> OSMemBlkSize m = blksize"
proof -
  have "tbl \<noteq> []" using assms(3,4) by auto
  note OSQCreate_ok [OF assms(1) this] OSMemCreate_ok [OF assms(2) assms(4-7)]
  then show ?thesis using assms(3) by (simp add: mbox_ok_def mbox.owned_def mbox_data_def mem_ok_def)
qed

lemma mem_read_split: "mem_read a (i + j) m = mem_read a i m @ mem_read (a + i) j m"
  using upt_add_eq_append [of a "a + i" j] by (simp add: mem_read_def add.assoc flip: map_append)

lemma mem_write_append: "mem_write (a + length xs) ys (mem_write a xs m) = mem_write a (xs @ ys) m"
  by (rule ext) (auto simp: mem_write_def nth_append)

lemma blk_write_append:
  "obind (blk_write p off xs m) (\<lambda>m1. blk_write p (off + length xs) ys m1) = blk_write p off (xs @ ys) m"
proof -
  have "pool_has m (p + off) (length (xs @ ys)) \<longleftrightarrow>
      pool_has m (p + off) (length xs) \<and> pool_has m (p + (off + length xs)) (length ys)"
    unfolding pool_has_def length_append by linarith
  moreover have "pool_has (m\<lparr>OSMemPool := x\<rparr>) a n = pool_has m a n" for x a n
    by (simp add: pool_has_def)
  moreover have "mem_write (p + (off + length xs)) ys (mem_write (p + off) xs (OSMemPool m))
      = mem_write (p + off) (xs @ ys) (OSMemPool m)"
    using mem_write_append [of "p + off" xs ys] by (simp only: add.assoc)
  ultimately show ?thesis by (simp add: blk_write_def del: length_append)
qed

lemma mem_read_write_inside:
  "length bs \<le> n \<Longrightarrow> mem_read a n (mem_write a bs m) = bs @ mem_read (a + length bs) (n - length bs) m"
  using mem_read_split [of a "length bs" "n - length bs" "mem_write a bs m"]
    mem_read_write_other [of "a + length bs" "n - length bs" a bs m] by simp

lemma mbox_get_empty:
  "mem_free m = [] \<Longrightarrow> OSMemGet m = ((0, OS_ERR_MEM_NO_FREE_BLKS), m)"
  by (rule OSMemGet_none)

lemma mbox_get:
  assumes "mbox.owned q m held" "mem_free m = p # fs"
  obtains m1 where "OSMemGet m = ((p, OS_ERR_NONE), m1)" "mbox.owned q m1 (p # held)" "p \<noteq> 0"
    "OSMemBlkSize m1 = OSMemBlkSize m" "OSMemPool m1 = OSMemPool m" "mem_free m1 = fs"
    "mem_blocks m1 = mem_blocks m"
proof -
  have ok: "mem_ok m" using assms(1) by (rule owned_mem_ok)
  obtain m1 where m1: "OSMemGet m = ((p, OS_ERR_NONE), m1)" "mem_ok m1" "mem_free m1 = fs"
    "mem_blocks m1 = mem_blocks m" "OSMemPool m1 = OSMemPool m" "OSMemBlkSize m1 = OSMemBlkSize m"
    "pool_has m1 = pool_has m"
    by (rule OSMemGet_some [OF ok assms(2)])
  have "p \<in> set (mem_blocks m)" using ok assms(2) by (auto simp: mem_ok_def)
  then have "p \<noteq> 0" using mem_ok_block(1) [OF ok] by auto
  moreover have "mbox.owned q m1 (p # held)"
    using mbox.owned_get [of q m held p m1] assms(1) m1(1) by (simp add: mem_get_def)
  ultimately show thesis using m1 that by blast
qed

lemma owned_block: "mbox.owned q m (p # held) \<Longrightarrow> p \<in> set (mem_blocks m) \<and> p \<notin> set (mem_free m)"
  by (auto simp: mbox.owned_def)

lemma owned_queued: "mbox.owned q m held \<Longrightarrow> p \<in> set (osq_msgs q) \<Longrightarrow>
    p \<in> set (mem_blocks m) \<and> p \<notin> set held \<and> p \<notin> set (mem_free m)"
  by (auto simp: mbox.owned_def)

lemma mbox_deposit:
  assumes "mbox.owned q m1 (p # held)" "length bs \<le> OSMemBlkSize m1"
  obtains m2 q' where "blk_write p 0 bs m1 = Ret m2" "OSQPost p q = (OS_ERR_NONE, q')" "mbox.owned q' m2 held"
    "OSMemBlkSize m2 = OSMemBlkSize m1"
    "mbox_data q' m2 = mbox_data q m1 @ [bs @ drop (length bs) (mem_read p (OSMemBlkSize m1) (OSMemPool m1))]"
proof -
  have ok: "mem_ok m1" using assms(1) by (rule owned_mem_ok)
  note blk = owned_block [OF assms(1)]
  have lb: "0 + length bs \<le> OSMemBlkSize m1" using assms(2) by simp
  obtain m2 where m2: "blk_write p 0 bs m1 = Ret m2" "mem_ok m2" "mem_free m2 = mem_free m1"
    "mem_blocks m2 = mem_blocks m1" "OSMemBlkSize m2 = OSMemBlkSize m1"
    and other: "\<And>q n. q \<in> set (mem_blocks m1) \<Longrightarrow> q \<noteq> p \<Longrightarrow> n \<le> OSMemBlkSize m1 \<Longrightarrow>
       mem_read q n (OSMemPool m2) = mem_read q n (OSMemPool m1)"
    and pool: "OSMemPool m2 = mem_write (p + 0) bs (OSMemPool m1)"
    by (rule blk_write_own [OF ok conjunct1 [OF blk] conjunct2 [OF blk] lb])
      (rule that; assumption)
  have own: "mbox.owned q m2 (p # held)" using assms(1) m2 by (auto simp: mbox.owned_def)
  obtain r q' where s: "osq_step q (QPost p) = (r, q')" by (cases "osq_step q (QPost p)")
  have po: "r = QDone \<and> mbox.owned q' m2 held \<and> osq_msgs q' = osq_msgs q @ [p]"
    by (rule mbox.owned_post [OF own s])
  then have post: "OSQPost p q = (OS_ERR_NONE, q')" using s by (auto split: prod.splits if_splits)
  have "mem_read x (OSMemBlkSize m2) (OSMemPool m2) = mem_read x (OSMemBlkSize m1) (OSMemPool m1)"
    if "x \<in> set (osq_msgs q)" for x
    using other [of x "OSMemBlkSize m1"] owned_queued [OF assms(1) that] m2(5) by simp
  moreover have "mem_read p (OSMemBlkSize m2) (OSMemPool m2)
      = bs @ drop (length bs) (mem_read p (OSMemBlkSize m1) (OSMemPool m1))"
    using assms(2) mem_read_split [of p "length bs" "OSMemBlkSize m1 - length bs" "OSMemPool m1"]
    by (simp add: m2(5) pool mem_read_write_inside)
  ultimately have "mbox_data q' m2 = mbox_data q m1
      @ [bs @ drop (length bs) (mem_read p (OSMemBlkSize m1) (OSMemPool m1))]"
    using po by (simp add: mbox_data_def)
  then show thesis using that m2(1,5) post po by simp
qed

lemma mbox_accept_empty: "mbox_data q m = [] \<Longrightarrow> OSQAccept q = ((0, OS_ERR_Q_EMPTY), q)"
  by (simp add: mbox_data_def OSQAccept_empty)

lemma mbox_accept:
  assumes "mbox.owned q m held" "mbox_data q m = d # ds"
  obtains p q' where "OSQAccept q = ((p, OS_ERR_NONE), q')" "p \<noteq> 0" "mbox.owned q' m (p # held)"
    "d = mem_read p (OSMemBlkSize m) (OSMemPool m)" "mbox_data q' m = ds"
    "\<And>off n. off + n \<le> OSMemBlkSize m \<Longrightarrow> blk_read p off n m = Ret (take n (drop off d))"
proof -
  obtain p ps where ps: "osq_msgs q = p # ps" "d = mem_read p (OSMemBlkSize m) (OSMemPool m)"
    "ds = map (\<lambda>p. mem_read p (OSMemBlkSize m) (OSMemPool m)) ps"
    using assms(2) by (cases "osq_msgs q") (auto simp: mbox_data_def)
  have own: "mbox.owned q m held" "osq_quiet q" "mem_ok m"
    using assms(1) by (auto simp: owned_mem_ok)
  obtain q' where q': "OSQAccept q = ((p, OS_ERR_NONE), q')" "osq_quiet q'" "osq_msgs q' = ps"
    by (rule OSQAccept_msg [OF own(2) ps(1)])
  have "osq_step q QAccept = (QGot p, q')" using q'(1) by simp
  then have o': "mbox.owned q' m (p # held)" using mbox.owned_accept [OF own(1)] by simp
  then have blk: "p \<in> set (mem_blocks m)" using owned_block by blast
  then have "p \<noteq> 0" using mem_ok_block(1) [OF own(3)] by auto
  moreover have "blk_read p off n m = Ret (take n (drop off d))" if "off + n \<le> OSMemBlkSize m" for off n
  proof -
    have "OSMemBlkSize m = off + (n + (OSMemBlkSize m - off - n))" using that by simp
    then have "d = mem_read p off (OSMemPool m) @ mem_read (p + off) n (OSMemPool m)
        @ mem_read (p + off + n) (OSMemBlkSize m - off - n) (OSMemPool m)"
      using ps(2) by (metis mem_read_split)
    then show ?thesis using blk_read_own [OF blk that] by simp
  qed
  ultimately show thesis using that [of p q'] q'(1,3) ps(2,3) o' by (simp add: mbox_data_def)
qed

lemma mbox_put:
  assumes "mbox.owned q m (p # held)"
  shows "mbox.owned q (snd (OSMemPut p m)) held" "mbox_data q (snd (OSMemPut p m)) = mbox_data q m"
    "OSMemBlkSize (snd (OSMemPut p m)) = OSMemBlkSize m"
proof -
  have ok: "mem_ok m" using assms by (rule owned_mem_ok)
  note blk = owned_block [OF assms]
  obtain m' where m': "OSMemPut p m = (OS_ERR_NONE, m')" "OSMemBlkSize m' = OSMemBlkSize m"
    and other: "\<And>q n. q \<in> set (mem_blocks m) \<Longrightarrow> q \<noteq> p \<Longrightarrow> n \<le> OSMemBlkSize m \<Longrightarrow>
       mem_read q n (OSMemPool m') = mem_read q n (OSMemPool m)"
    by (rule OSMemPut_some [OF ok conjunct1 [OF blk] conjunct2 [OF blk]]) (rule that; assumption)
  show "OSMemBlkSize (snd (OSMemPut p m)) = OSMemBlkSize m" using m' by simp
  show "mbox.owned q (snd (OSMemPut p m)) held"
    using mbox.owned_put [OF assms] by (simp add: mem_put_def)
  have "mem_read x (OSMemBlkSize m') (OSMemPool m') = mem_read x (OSMemBlkSize m) (OSMemPool m)"
    if "x \<in> set (osq_msgs q)" for x
    using other [of x "OSMemBlkSize m"] owned_queued [OF assms that] m' by simp
  then show "mbox_data q (snd (OSMemPut p m)) = mbox_data q m" using m' by (simp add: mbox_data_def)
qed

section \<open>Properties\<close>

text \<open>
  a new partition is well formed and hands out every one of its blocks: the list
  that \<open>OSMemCreate\<close> threads through the blocks holds them all, each once, in address
  order.
\<close>

theorem OSMemCreate_all_free:
  assumes "OSMemCreate parts addr nblks blksize m0 = (Some m, parts')"
    and "0 < nblks" "4 \<le> blksize" "0 < addr" "addr + nblks * blksize \<le> 2 ^ 32"
  shows "mem_ok m \<and> mem_free m = map (\<lambda>i. addr + i * blksize) [0..<nblks]"
proof -
  have "mem_blocks m = map (\<lambda>i. addr + i * blksize) [0..<nblks]"
    using assms(1) by (auto simp: OSMemCreate_def mem_blocks_def split: if_splits)
  then show ?thesis using OSMemCreate_ok [OF assms] by simp
qed

definition demo_mem :: os_mem where
  "demo_mem = the (fst (OSMemCreate 1 1000 4 16 (\<lambda>_. 0)))"

lemma demo_mem_create: "OSMemCreate 1 1000 4 16 (\<lambda>_. 0) = (Some demo_mem, 0)"
  by (simp add: demo_mem_def OSMemCreate_def)

theorem OSMemCreate_all_free_witness: "mem_ok demo_mem \<and> mem_free demo_mem = [1000, 1016, 1032, 1048]"
  using OSMemCreate_all_free [OF demo_mem_create] by (simp add: upt_rec)

text \<open>
  C30: a block that \<open>OSMemGet\<close> hands out was free and is not free afterwards, so it is
  handed out once; giving it back with \<open>OSMemPut\<close> restores the free list, whatever its
  owner wrote into it.
\<close>

theorem OSMemGet_exclusive:
  assumes "mem_ok m" "mem_get m = (Some p, m')" "blk_write p 0 bs m' = Ret m''" "length bs \<le> OSMemBlkSize m"
  shows "p \<in> set (mem_free m) \<and> p \<notin> set (mem_free m') \<and> mem_free m'' = mem_free m'
    \<and> mem_free (mem_put p m'') = mem_free m \<and> mem_ok (mem_put p m'')"
proof -
  have f: "p \<in> set (mem_free m)" "p \<notin> set (mem_free m')" "p \<in> set (mem_blocks m')"
    using osm.get_fresh [OF assms(1,2)] by auto
  obtain fs where fs: "mem_free m = p # fs"
    using assms(1,2) mem_get_none [of m] mem_get_some [of m] by (cases "mem_free m") fastforce+
  obtain m1 where m1: "OSMemGet m = ((p, OS_ERR_NONE), m1)" "mem_ok m1" "mem_free m1 = fs" "OSMemBlkSize m1 = OSMemBlkSize m"
    by (rule OSMemGet_some [OF assms(1) fs])
  have m': "m' = m1" using assms(2) m1(1) by (simp add: mem_get_def)
  have lb: "0 + length bs \<le> OSMemBlkSize m1" using assms(4) m1(4) by simp
  obtain m2 where m2: "blk_write p 0 bs m1 = Ret m2" "mem_ok m2" "mem_free m2 = mem_free m1" "mem_blocks m2 = mem_blocks m1"
    by (rule blk_write_own [OF m1(2) f(3) [unfolded m'] f(2) [unfolded m'] lb]) (rule that; assumption)
  have "m'' = m2" using assms(3) m2(1) m' by simp
  then show ?thesis
    using f m' m1(3) m2 fs mem_put_law [of m2 p] by simp
qed

theorem OSMemGet_exclusive_witness:
  "\<exists>m' m''. mem_get demo_mem = (Some 1000, m') \<and> blk_write 1000 0 [1, 2, 3, 4, 5] m' = Ret m''
    \<and> mem_free (mem_put 1000 m'') = [1000, 1016, 1032, 1048]"
proof -
  have ok: "mem_ok demo_mem" and free: "mem_free demo_mem = [1000, 1016, 1032, 1048]"
    using OSMemCreate_ok [OF demo_mem_create] by (simp_all add: mem_blocks_def demo_mem_def OSMemCreate_def upt_rec)
  obtain m' where g: "mem_get demo_mem = (Some 1000, m')"
    using mem_get_some [OF ok free] by auto
  have "blk_write 1000 0 [1, 2, 3, 4, 5] m' = Ret (m'\<lparr>OSMemPool := mem_write (1000 + 0) [1, 2, 3, 4, 5] (OSMemPool m')\<rparr>)"
    using g by (auto simp: blk_write_def pool_has_def mem_get_def OSMemGet_def demo_mem_def OSMemCreate_def)
  with OSMemGet_exclusive [OF ok g this] g free show ?thesis
    by (auto simp: demo_mem_def OSMemCreate_def)
qed

text \<open>
  C14: in a mailbox whose queue has as many slots as the pool has blocks, the sequence get,
  fill, post never fails as long as a block is free, and the message arrives unchanged
  behind those already queued.
\<close>

theorem mailbox_deposit:
  assumes "mbox.owned q m held" "mem_free m = p # fs" "length bs \<le> OSMemBlkSize m"
  shows "\<exists>m1 m2 q' rest. OSMemGet m = ((p, OS_ERR_NONE), m1) \<and> blk_write p 0 bs m1 = Ret m2
    \<and> OSQPost p q = (OS_ERR_NONE, q') \<and> mbox.owned q' m2 held
    \<and> mbox_data q' m2 = mbox_data q m @ [bs @ rest]"
proof -
  obtain m1 where m1: "OSMemGet m = ((p, OS_ERR_NONE), m1)" "mbox.owned q m1 (p # held)"
    "OSMemBlkSize m1 = OSMemBlkSize m" "OSMemPool m1 = OSMemPool m"
    by (rule mbox_get [OF assms(1,2)])
  have l: "length bs \<le> OSMemBlkSize m1" using assms(3) m1(3) by simp
  obtain m2 q' where "blk_write p 0 bs m1 = Ret m2" "OSQPost p q = (OS_ERR_NONE, q')" "mbox.owned q' m2 held"
    "mbox_data q' m2 = mbox_data q m1 @ [bs @ drop (length bs) (mem_read p (OSMemBlkSize m1) (OSMemPool m1))]"
    by (rule mbox_deposit [OF m1(2) l])
  moreover have "mbox_data q m1 = mbox_data q m" using m1 by (simp add: mbox_data_def)
  ultimately show ?thesis using m1(1) by auto
qed

theorem mailbox_deposit_witness:
  "\<exists>q m m1 m2 q' rest. OSQCreate 1 1 (replicate 4 0) = (Some q, 0, 0) \<and> OSMemCreate 1 1000 4 16 (\<lambda>_. 0) = (Some m, 0)
    \<and> OSMemGet m = ((1000, OS_ERR_NONE), m1) \<and> blk_write 1000 0 [1, 2, 3] m1 = Ret m2
    \<and> OSQPost 1000 q = (OS_ERR_NONE, q') \<and> mbox_data q' m2 = [[1, 2, 3] @ rest]"
proof -
  obtain q where q: "OSQCreate 1 1 (replicate 4 0) = (Some q :: nat os_q option, 0, 0)" by (simp add: OSQCreate_def)
  have ok: "mbox.owned q demo_mem []" "mbox_data q demo_mem = []" "OSMemBlkSize demo_mem = 16"
    using mbox_create [OF q demo_mem_create] by (simp_all add: mbox_ok_def)
  have free: "mem_free demo_mem = 1000 # [1016, 1032, 1048]"
    using OSMemCreate_ok [OF demo_mem_create] by (simp add: mem_blocks_def demo_mem_def OSMemCreate_def upt_rec)
  show ?thesis
    using mailbox_deposit [OF ok(1) free, of "[1, 2, 3]"] q demo_mem_create ok(2,3) by auto
qed

end
