(* ===== verification/Floats.thy ===== *)
theory Floats
  imports Complex_Main Prelude
begin

text \<open>
  The floating-point arithmetic of the target: IEEE binary32 (\<open>float\<close>) and binary64
  (\<open>double\<close>) numbers as the rationals they are, every operation rounded to nearest, ties
  to even, with gradual underflow. Infinities, NaNs and the sign of zero are not
  represented: a result beyond the largest finite number stays the rational it is, so the
  model follows the hardware as long as no operation overflows. A C conversion to an
  integer truncates towards zero.
\<close>

section \<open>Rounding\<close>

definition round_even :: "rat \<Rightarrow> int" where
  "round_even x =
     (let f = \<lfloor>x\<rfloor>; d = x - of_int f
      in if d < 1 / 2 then f else if 1 / 2 < d then f + 1 else if even f then f else f + 1)"

text \<open>
  The exponent \<open>e\<close> for which \<open>2 ^ (p - 1) \<le> x / 2 ^ e < 2 ^ p\<close>, searched from 0 in at most
  \<open>n\<close> steps and not below \<open>emin\<close>; \<open>m\<close> is \<open>x / 2 ^ e\<close>.
\<close>

fun find_exp :: "nat \<Rightarrow> nat \<Rightarrow> int \<Rightarrow> rat \<Rightarrow> int \<Rightarrow> rat \<times> int" where
  "find_exp 0 p emin m e = (m, e)"
| "find_exp (Suc n) p emin m e =
     (if 2 ^ p \<le> m then find_exp n p emin (m / 2) (e + 1)
      else if m < 2 ^ (p - 1) \<and> emin < e then find_exp n p emin (m * 2) (e - 1)
      else (m, e))"

definition pow2 :: "int \<Rightarrow> rat" where
  "pow2 e = (if 0 \<le> e then 2 ^ nat e else 1 / 2 ^ nat (- e))"

definition fround :: "nat \<Rightarrow> nat \<Rightarrow> int \<Rightarrow> rat \<Rightarrow> rat" where
  "fround n p emin x =
     (case find_exp n p emin \<bar>x\<bar> 0 of
        (m, e) \<Rightarrow> sgn x * of_int (round_even m) * pow2 e)"

definition fl32 :: "rat \<Rightarrow> rat" where
  "fl32 = fround 200 24 (- 149)"

definition fl64 :: "rat \<Rightarrow> rat" where
  "fl64 = fround 1200 53 (- 1074)"

text \<open>C's conversion of a floating-point value to an integer.\<close>

definition ftrunc :: "rat \<Rightarrow> int" where
  "ftrunc x = (if 0 \<le> x then \<lfloor>x\<rfloor> else - \<lfloor>- x\<rfloor>)"

definition fadd :: "rat \<Rightarrow> rat \<Rightarrow> rat" where "fadd x y = fl32 (x + y)"
definition fsub :: "rat \<Rightarrow> rat \<Rightarrow> rat" where "fsub x y = fl32 (x - y)"
definition fmul :: "rat \<Rightarrow> rat \<Rightarrow> rat" where "fmul x y = fl32 (x * y)"
definition fdiv :: "rat \<Rightarrow> rat \<Rightarrow> rat" where "fdiv x y = fl32 (x / y)"

definition dadd :: "rat \<Rightarrow> rat \<Rightarrow> rat" where "dadd x y = fl64 (x + y)"
definition dsub :: "rat \<Rightarrow> rat \<Rightarrow> rat" where "dsub x y = fl64 (x - y)"
definition dmul :: "rat \<Rightarrow> rat \<Rightarrow> rat" where "dmul x y = fl64 (x * y)"
definition ddiv :: "rat \<Rightarrow> rat \<Rightarrow> rat" where "ddiv x y = fl64 (x / y)"

section \<open>Facts about rounding\<close>

lemma round_even_int [simp]: "round_even (of_int n) = n"
  by (simp add: round_even_def Let_def)

lemma round_even_error: "\<bar>of_int (round_even x) - x\<bar> \<le> 1 / 2"
proof -
  obtain f d where f: "f = \<lfloor>x\<rfloor>" "d = x - of_int f" by simp
  have d: "0 \<le> d" "d < 1" "x = of_int f + d" unfolding f by linarith+
  have "round_even x = f \<and> d \<le> 1 / 2 \<or> round_even x = f + 1 \<and> 1 / 2 \<le> d"
    unfolding round_even_def Let_def using f by (auto simp: not_less)
  then show ?thesis using d by (auto simp: abs_if)
qed

lemma round_even_mono: "x \<le> y \<Longrightarrow> round_even x \<le> round_even y"
proof -
  assume le: "x \<le> y"
  then have f: "\<lfloor>x\<rfloor> \<le> \<lfloor>y\<rfloor>" by (rule floor_mono)
  show ?thesis
  proof (cases "\<lfloor>x\<rfloor> = \<lfloor>y\<rfloor>")
    case True
    then show ?thesis using le by (auto simp: round_even_def Let_def)
  next
    case False
    then have "\<lfloor>x\<rfloor> + 1 \<le> \<lfloor>y\<rfloor>" using f by linarith
    moreover have "round_even x \<le> \<lfloor>x\<rfloor> + 1" "\<lfloor>y\<rfloor> \<le> round_even y"
      by (auto simp: round_even_def Let_def)
    ultimately show ?thesis by linarith
  qed
qed

lemma round_even_nonneg: "0 \<le> x \<Longrightarrow> 0 \<le> round_even x"
  using round_even_mono [of 0 x] round_even_int [of 0] by simp

lemma pow2_pos: "0 < pow2 e"
  by (simp add: pow2_def)

lemma fround_0 [simp]: "fround n p emin 0 = 0"
  by (simp add: fround_def split: prod.splits)

lemma fround_nonneg: "0 \<le> x \<Longrightarrow> 0 \<le> fround n p emin x"
proof -
  assume x: "0 \<le> x"
  have nn: "0 \<le> m \<Longrightarrow> 0 \<le> fst (find_exp n p emin m e)" for m e
    by (induction n p emin m e rule: find_exp.induct) auto
  obtain m e where me: "find_exp n p emin \<bar>x\<bar> 0 = (m, e)" by (cases "find_exp n p emin \<bar>x\<bar> 0")
  then have "0 \<le> m" using nn [of "\<bar>x\<bar>" 0] by simp
  then have "0 \<le> (of_int (round_even m) :: rat)" using round_even_nonneg by simp
  moreover have "0 \<le> sgn x" using x by (simp add: sgn_if)
  moreover have "0 \<le> pow2 e" using pow2_pos [of e] by simp
  ultimately show ?thesis unfolding fround_def me by simp
qed

lemma fround_minus: "fround n p emin (- x) = - fround n p emin x"
  by (simp add: fround_def split: prod.splits)

lemma fl32_0 [simp]: "fl32 0 = 0"
  by (simp add: fl32_def)

lemma fl64_0 [simp]: "fl64 0 = 0"
  by (simp add: fl64_def)

lemma ftrunc_int [simp]: "ftrunc (of_int n) = n"
  by (simp add: ftrunc_def)

text \<open>The exponent search finds the exponent of a normal number within its range.\<close>

lemma pow2_Suc: "pow2 (e + 1) = 2 * pow2 e"
proof (cases "0 \<le> e")
  case True
  then have "nat (e + 1) = Suc (nat e)" by simp
  then show ?thesis using True by (simp add: pow2_def)
next
  case False
  then have e: "nat (- e) = Suc (nat (- e - 1))" by simp
  show ?thesis
  proof (cases "e = - 1")
    case False
    then have "\<not> 0 \<le> e + 1" using \<open>\<not> 0 \<le> e\<close> by simp
    then show ?thesis using \<open>\<not> 0 \<le> e\<close> e by (simp add: pow2_def)
  qed (simp add: pow2_def)
qed

lemma pow2_add: "pow2 (a + int k) = 2 ^ k * pow2 a"
proof (induction k)
  case (Suc k)
  have "a + int (Suc k) = (a + int k) + 1" by simp
  then show ?case by (simp only: pow2_Suc Suc power_Suc mult.assoc)
qed simp

lemma find_exp_normal:
  "2 ^ (p - 1) \<le> m0 \<Longrightarrow> m0 < 2 ^ p \<Longrightarrow> 0 < p \<Longrightarrow> emin \<le> e0 \<Longrightarrow> m * pow2 e = m0 * pow2 e0 \<Longrightarrow>
     \<bar>e0 - e\<bar> \<le> int n \<Longrightarrow> find_exp n p emin m e = (m0, e0)"
proof (induction n p emin m e rule: find_exp.induct)
  case (1 p emin m e)
  then have "e0 = e" by simp
  with 1 pow2_pos [of e] show ?case by simp
next
  case (2 n p emin m e)
  have p2: "2 ^ p = 2 * (2 ^ (p - 1) :: rat)" using 2(5) by (simp flip: power_Suc)
  note shift = pow2_add
  consider "e < e0" | "e0 < e" | "e = e0" by linarith
  then show ?case
  proof cases
    case 1
    then obtain k where k: "e0 = e + int (Suc k)"
      by (metis zless_iff_Suc_zadd)
    have "m = m0 * 2 ^ Suc k" using 2(7) pow2_pos [of e] by (simp only: k shift) simp
    moreover have "1 \<le> (2 :: rat) ^ k" by simp
    then have "m0 * 1 \<le> m0 * 2 ^ k" using 2(3) by (intro mult_left_mono) (auto intro: order_trans [rotated])
    ultimately have "2 ^ p \<le> m" using 2(3) p2 by simp
    moreover have "m / 2 * pow2 (e + 1) = m0 * pow2 e0" using 2(7) by (simp add: pow2_Suc)
    ultimately show ?thesis using 2(1) [OF _ 2(3-6)] 1 2(8) by simp
  next
    case 2
    then obtain k where k: "e = e0 + int (Suc k)"
      by (metis zless_iff_Suc_zadd)
    have "m * 2 ^ Suc k = m0" using \<open>m * pow2 e = m0 * pow2 e0\<close> pow2_pos [of e0] by (simp only: k shift) simp
    moreover have "0 < m0" using \<open>2 ^ (p - 1) \<le> m0\<close> by (auto intro: less_le_trans [rotated])
    ultimately have m: "0 < m" "m0 = 2 * (m * 2 ^ k)" by (auto simp: zero_less_mult_iff)
    have "1 \<le> (2 :: rat) ^ k" by simp
    then have "m * 1 \<le> m * 2 ^ k" using m by (intro mult_left_mono) auto
    moreover have "m * 2 ^ k < 2 ^ (p - 1)" using m \<open>m0 < 2 ^ p\<close> p2 by simp
    ultimately have "m < 2 ^ (p - 1)" by (simp only: mult_1_right)
    moreover from this have "\<not> 2 ^ p \<le> m" using p2 m by simp
    moreover have "m * 2 * pow2 (e - 1) = m0 * pow2 e0"
      using \<open>m * pow2 e = m0 * pow2 e0\<close> pow2_Suc [of "e - 1"] by simp
    moreover have "emin < e" using 2 \<open>emin \<le> e0\<close> by linarith
    ultimately show ?thesis
      using "2.IH"(2) [OF _ _ \<open>2 ^ (p - 1) \<le> m0\<close> \<open>m0 < 2 ^ p\<close> \<open>0 < p\<close> \<open>emin \<le> e0\<close>] 2 \<open>\<bar>e0 - e\<bar> \<le> int (Suc n)\<close> by simp
  next
    case 3
    then have "m = m0" using 2(7) pow2_pos [of e] by simp
    then show ?thesis using 3 2(3,4) by simp
  qed
qed

lemma fround_normal:
  assumes "\<bar>x\<bar> = m0 * pow2 e0" "2 ^ (p - 1) \<le> m0" "m0 < 2 ^ p" "0 < p" "emin \<le> e0" "\<bar>e0\<bar> \<le> int n"
  shows "fround n p emin x = sgn x * of_int (round_even m0) * pow2 e0"
  using find_exp_normal [of p m0 emin e0 "\<bar>x\<bar>" 0 n] assms by (simp add: fround_def pow2_def)

text \<open>Rounding to a significand of \<open>p\<close> bits errs by at most half a unit in the last place.\<close>

lemma fround_error:
  assumes "\<bar>x\<bar> = m0 * pow2 e0" "2 ^ (p - 1) \<le> m0" "m0 < 2 ^ p" "0 < p" "emin \<le> e0" "\<bar>e0\<bar> \<le> int n"
  shows "\<bar>fround n p emin x - x\<bar> \<le> pow2 e0 / 2"
proof -
  have x: "x = sgn x * (m0 * pow2 e0)" using assms(1) by (metis mult.commute sgn_mult_abs abs_mult_sgn)
  have "fround n p emin x - x = sgn x * ((of_int (round_even m0) - m0) * pow2 e0)"
    by (subst (2) x) (simp add: fround_normal [OF assms] algebra_simps)
  then have "\<bar>fround n p emin x - x\<bar> \<le> \<bar>(of_int (round_even m0) - m0) * pow2 e0\<bar>"
    by (simp add: abs_mult sgn_if)
  also have "\<dots> = \<bar>of_int (round_even m0) - m0\<bar> * pow2 e0"
    using pow2_pos [of e0] by (simp add: abs_mult)
  also have "\<dots> \<le> 1 / 2 * pow2 e0"
    using round_even_error [of m0] pow2_pos [of e0] by (intro mult_right_mono) auto
  finally show ?thesis by simp
qed

end
