(* ===== verification/Tools.thy ===== *)
theory Tools
  imports Prelude
begin

text \<open>
  The helpers of \<open>usr/common/tools.c\<close> and \<open>usr/include/common/tools.h\<close>: byte-order
  conversion, the wrap-safe time difference, the BCD and decimal conversions and the
  case-insensitive comparison. Characters are bytes (\<open>char\<close> is unsigned on the target),
  a string is its bytes without the final NUL, an output buffer is the list it had
  before the call.
\<close>

section \<open>Byte order and time\<close>

primrec reverse_copy_loop :: "nat \<Rightarrow> nat \<Rightarrow> bytes \<Rightarrow> bytes \<Rightarrow> bytes" where
  "reverse_copy_loop 0 len src dest = dest"
| "reverse_copy_loop (Suc k) len src dest =
     reverse_copy_loop k len src (dest[len - Suc k := src ! (len - 1 - (len - Suc k))])"

definition reverse_copy :: "bytes \<Rightarrow> bytes \<Rightarrow> nat \<Rightarrow> bytes" where
  "reverse_copy src dest len = reverse_copy_loop len len src dest"

definition NTOHL_COPY :: "bytes \<Rightarrow> bytes \<Rightarrow> bytes" where
  "NTOHL_COPY src dest = reverse_copy src dest 4"

definition HTONL_COPY :: "bytes \<Rightarrow> bytes \<Rightarrow> bytes" where
  "HTONL_COPY src dest = reverse_copy src dest 4"

definition TIME_DIFFERENCE :: "u32 \<Rightarrow> u32 \<Rightarrow> u32" where
  "TIME_DIFFERENCE newtm oldtm =
     (if oldtm \<le> newtm then newtm - oldtm else (NOT 0) - oldtm + newtm + 1)"

lemma reverse_copy_loop_spec:
  "k \<le> len \<Longrightarrow> len \<le> length src \<Longrightarrow> len \<le> length dest \<Longrightarrow>
     reverse_copy_loop k len src dest
     = take (len - k) dest @ rev (take k src) @ drop len dest"
proof (induction k arbitrary: dest)
  case 0
  then show ?case by simp
next
  case (Suc k)
  let ?d = "dest[len - Suc k := src ! k]"
  have i: "len - 1 - (len - Suc k) = k" "len - k = Suc (len - Suc k)" "len - Suc k < len"
    using Suc.prems by auto
  have "take (len - k) ?d = take (len - Suc k) dest @ [src ! k]"
    unfolding i(2) using i(3) Suc.prems by (simp add: take_Suc_conv_app_nth)
  moreover have "rev (take (Suc k) src) = src ! k # rev (take k src)"
    using Suc.prems by (simp add: take_Suc_conv_app_nth)
  ultimately show ?case using Suc.IH [of ?d] Suc.prems i(1,3) by simp
qed

lemma reverse_copy_spec:
  "len \<le> length src \<Longrightarrow> len \<le> length dest \<Longrightarrow> reverse_copy src dest len = rev (take len src) @ drop len dest"
  by (simp add: reverse_copy_def reverse_copy_loop_spec)

text \<open>Copying a word from host to network order and back.\<close>

lemma HTONL_COPY_be32: "length dest = 4 \<Longrightarrow> HTONL_COPY (le32 w) dest = be32 w"
  by (simp add: HTONL_COPY_def reverse_copy_spec be32_def)

lemma NTOHL_COPY_le32: "length dest = 4 \<Longrightarrow> NTOHL_COPY (be32 w) dest = le32 w"
  by (simp add: NTOHL_COPY_def reverse_copy_spec be32_def)

lemma TIME_DIFFERENCE_sub: "TIME_DIFFERENCE newtm oldtm = newtm - oldtm"
  by (simp add: TIME_DIFFERENCE_def)

lemma TIME_DIFFERENCE_elapsed: "TIME_DIFFERENCE (t + d) t = d"
  by (simp add: TIME_DIFFERENCE_sub)

section \<open>BCD\<close>

primrec Uint2BCD_loop :: "nat \<Rightarrow> u32 \<Rightarrow> bytes \<Rightarrow> u32 \<times> bytes" where
  "Uint2BCD_loop 0 d bcd = (d, bcd)"
| "Uint2BCD_loop (Suc k) d bcd =
     (if d = 0 then (d, splice 0 (replicate (Suc k) 0) bcd)
      else Uint2BCD_loop k (d div 10 div 10)
             (bcd[k := ucast (d mod 10) OR push_bit 4 (ucast ((d div 10) mod 10))]))"

text \<open>
  \<open>Uint2BCD\<close> fills the buffer from its end; \<open>k\<close> counts the bytes still to fill, and when
  no digit is left they are cleared. The result is \<open>Some ENOMEM\<close> for \<open>-PERR_ENOMEM\<close>.
\<close>

definition Uint2BCD :: "u32 \<Rightarrow> bytes \<Rightarrow> u8 \<Rightarrow> perr option \<times> bytes" where
  "Uint2BCD n bcd sz =
     (case Uint2BCD_loop (unat sz) n bcd of
        (d, bcd') \<Rightarrow> (if d \<noteq> 0 then Some ENOMEM else None, bcd'))"

primrec BCD2Uint_loop :: "bytes \<Rightarrow> u32 \<Rightarrow> nat \<Rightarrow> u32 \<times> nat" where
  "BCD2Uint_loop [] r i = (r, i)"
| "BCD2Uint_loop (b # bs) r i =
     (if 10 < drop_bit 4 b then (r, i)
      else
        let r1 = r * 10 + ucast (drop_bit 4 b)
        in if 10 < b AND 0x0F then (r1, i) else BCD2Uint_loop bs r1 (Suc i))"

definition BCD2Uint :: "bytes \<Rightarrow> nat \<Rightarrow> u32 \<times> nat" where
  "BCD2Uint bcd len = BCD2Uint_loop (take len bcd) 0 0"

primrec BCD2Ascii_loop :: "bytes \<Rightarrow> nat \<Rightarrow> bytes \<Rightarrow> nat \<times> bytes" where
  "BCD2Ascii_loop [] i out = (2 * i, out)"
| "BCD2Ascii_loop (b # bs) i out =
     (let hi = drop_bit 4 b AND 0x0F; lo = b AND 0x0F
      in if 9 < hi then (2 * i, out)
         else if 9 < lo then (2 * i + 1, out[2 * i := hi + 48])
         else BCD2Ascii_loop bs (Suc i) (out[2 * i := hi + 48, 2 * i + 1 := lo + 48]))"

definition BCD2Ascii :: "bytes \<Rightarrow> nat \<Rightarrow> bytes \<Rightarrow> nat \<times> bytes" where
  "BCD2Ascii bcd len ascii = BCD2Ascii_loop (take len bcd) 0 ascii"

definition isdigit :: "u8 \<Rightarrow> bool" where
  "isdigit c \<longleftrightarrow> 48 \<le> c \<and> c \<le> 57"

text \<open>The pairs of digits; the result is the bytes written (the code returns their number).\<close>

fun Ascii2BCD_pairs :: "bytes \<Rightarrow> bytes" where
  "Ascii2BCD_pairs (a # b # cs) =
     (if \<not> isdigit a \<or> \<not> isdigit b then []
      else ((a - 48) * 10 + (b - 48)) # Ascii2BCD_pairs cs)"
| "Ascii2BCD_pairs _ = []"

definition Ascii2BCD :: "bytes \<Rightarrow> nat \<Rightarrow> bytes" where
  "Ascii2BCD ascii len =
     (if odd len then
        if \<not> isdigit (ascii ! 0) then []
        else (ascii ! 0 - 48) # Ascii2BCD_pairs (take (len - 1) (drop 1 ascii))
      else Ascii2BCD_pairs (take len ascii))"

section \<open>Decimal numbers and comparison\<close>

primrec Ascii2Uint_loop :: "bytes \<Rightarrow> nat \<Rightarrow> u32 \<Rightarrow> u32 \<times> nat" where
  "Ascii2Uint_loop [] i r = (r, i)"
| "Ascii2Uint_loop (c # cs) i r =
     (if c < 48 \<or> 57 < c then (r, i) else Ascii2Uint_loop cs (Suc i) (r * 10 + ucast (c - 48)))"

text \<open>\<open>Ascii2Uint\<close> returns the number and stores in \<open>len\<close> how many characters it used.\<close>

definition Ascii2Uint :: "bytes \<Rightarrow> nat \<Rightarrow> u32 \<times> nat" where
  "Ascii2Uint ascii len = Ascii2Uint_loop (take len ascii) 0 0"

definition toupper :: "u8 \<Rightarrow> u8" where
  "toupper c = (if 97 \<le> c \<and> c \<le> 122 then c - 32 else c)"

definition str_at :: "bytes \<Rightarrow> nat \<Rightarrow> u8" where
  "str_at s i = (if i < length s then s ! i else 0)"

primrec strnicmp_loop :: "nat \<Rightarrow> nat \<Rightarrow> bytes \<Rightarrow> bytes \<Rightarrow> int" where
  "strnicmp_loop 0 i s t = 0"
| "strnicmp_loop (Suc n) i s t =
     (if toupper (str_at s i) \<noteq> toupper (str_at t i)
      then if str_at t i < str_at s i then 1 else -1
      else if str_at s i = 0 then 0
      else strnicmp_loop n (Suc i) s t)"

definition strnicmp :: "bytes \<Rightarrow> bytes \<Rightarrow> nat \<Rightarrow> int" where
  "strnicmp s t maxlen = strnicmp_loop maxlen 0 s t"

section \<open>What the conversions compute\<close>

definition bcd_byte :: "u8 \<Rightarrow> nat" where
  "bcd_byte b = 10 * unat (drop_bit 4 b) + unat (b AND 15)"

definition bcd_val :: "bytes \<Rightarrow> nat" where
  "bcd_val bs = foldl (\<lambda>a b. a * 100 + bcd_byte b) 0 bs"

lemma bcd_val_simps [simp]: "bcd_val [] = 0" "bcd_val (bs @ [b]) = bcd_val bs * 100 + bcd_byte b"
  by (simp_all add: bcd_val_def)

lemma bcd_val_zeros: "bcd_val (replicate n 0) = 0"
  by (induction n) (simp_all flip: replicate_append_same add: bcd_byte_def)

lemma nibbles_hi:
  fixes lo hi :: u8
  assumes "unat lo < 16" "unat hi < 16"
  shows "drop_bit 4 (lo OR push_bit 4 hi) = hi" "(lo OR push_bit 4 hi) AND 15 = lo"
proof -
  have "unat lo = take_bit 4 (unat lo)" "unat hi = take_bit 4 (unat hi)"
    using assms by (simp_all add: take_bit_nat_eq_self)
  then have lo: "take_bit 4 lo = lo" "take_bit 4 hi = hi"
    by (metis unsigned_take_bit_eq unsigned_word_eqI)+
  then have l: "\<not> bit lo n" if "4 \<le> n" for n using that by (metis bit_take_bit_iff not_le)
  have h: "\<not> bit hi n" if "4 \<le> n" for n using that lo by (metis bit_take_bit_iff not_le)
  show "drop_bit 4 (lo OR push_bit 4 hi) = hi"
    by (rule bit_word_eqI) (auto simp: bit_simps l dest: bit_imp_le_length intro: h, metis h add.commute leI trans_less_add1)
  have m: "(15 :: u8) = mask 4" by (simp add: mask_eq_exp_minus_1)
  have "take_bit 4 (lo OR push_bit 4 hi) = lo" by (simp add: take_bit_or lo take_bit_push_bit)
  then show "(lo OR push_bit 4 hi) AND 15 = lo" by (simp only: m take_bit_eq_mask)
qed

lemma bcd_byte_pack:
  assumes "a < 10" "b < 10"
  shows "bcd_byte (of_nat a OR push_bit 4 (of_nat b)) = 10 * b + a"
proof -
  have u: "unat (of_nat a :: u8) = a" "unat (of_nat b :: u8) = b"
    using assms by (simp_all add: unat_of_nat take_bit_nat_eq_self)
  show ?thesis using nibbles_hi [of "of_nat a" "of_nat b"] assms u by (simp add: bcd_byte_def)
qed

lemma ucast_of_unat: "ucast (w :: u32) = (of_nat (unat w) :: u8)"
  by simp

lemma Uint2BCD_loop_spec:
  "k \<le> length bcd \<Longrightarrow> Uint2BCD_loop k d bcd = (d', bcd') \<Longrightarrow>
     length bcd' = length bcd \<and> drop k bcd' = drop k bcd
     \<and> bcd_val (take k bcd') = unat d mod 100 ^ k \<and> unat d' = unat d div 100 ^ k"
proof (induction k arbitrary: d bcd)
  case 0
  then show ?case by simp
next
  case (Suc k)
  show ?case
  proof (cases "d = 0")
    case True
    then have "d' = 0" "bcd' = Prelude.splice 0 (replicate (Suc k) 0) bcd" using Suc.prems by auto
    with Suc.prems True show ?thesis
      by (simp add: Prelude.splice_def bcd_val_zeros del: replicate_Suc)
  next
    case False
    let ?b = "ucast (d mod 10) OR push_bit 4 (ucast ((d div 10) mod 10)) :: u8"
    let ?d = "d div 10 div 10"
    have rec: "Uint2BCD_loop k ?d (bcd[k := ?b]) = (d', bcd')" using Suc.prems False by simp
    have k: "k < length bcd" using Suc.prems by simp
    from Suc.IH [OF _ rec] k have ih: "length bcd' = length bcd" "drop k bcd' = drop k (bcd[k := ?b])"
      "bcd_val (take k bcd') = unat ?d mod 100 ^ k" "unat d' = unat ?d div 100 ^ k" by auto
    have u: "unat ?d = unat d div 100" by (simp add: unat_div div_mult2_eq [symmetric])
    have "?b = of_nat (unat d mod 10) OR push_bit 4 (of_nat (unat d div 10 mod 10))"
      unfolding ucast_of_unat by (simp add: unat_mod unat_div)
    then have "bcd_byte ?b = 10 * (unat d div 10 mod 10) + unat d mod 10"
      by (simp only:) (rule bcd_byte_pack; simp)
    also have "\<dots> = unat d mod 100" using mod_mult2_eq [of "unat d" 10 10] by simp
    finally have b: "bcd_byte ?b = unat d mod 100" .
    have nk: "bcd' ! k = ?b" and dk: "drop (Suc k) bcd' = drop (Suc k) bcd"
      using ih(1,2) k by (simp_all add: Cons_nth_drop_Suc [symmetric])
    have "bcd_val (take (Suc k) bcd') = unat d mod 100 ^ Suc k"
      using ih(1,3) k nk b u mod_mult2_eq [of "unat d" 100 "100 ^ k"]
      by (simp add: take_Suc_conv_app_nth mult.commute)
    then show ?thesis using ih u dk by (simp add: div_mult2_eq)
  qed
qed

text \<open>Encoding succeeds exactly when the digits fit, and the value is kept modulo the size.\<close>

lemma Uint2BCD_spec:
  assumes "length bcd = unat sz" "Uint2BCD n bcd sz = (e, bcd')"
  shows "length bcd' = unat sz" "bcd_val bcd' = unat n mod 100 ^ unat sz"
    "e = (if unat n < 100 ^ unat sz then None else Some ENOMEM)"
proof -
  obtain d' where l: "Uint2BCD_loop (unat sz) n bcd = (d', bcd')"
    and e: "e = (if d' \<noteq> 0 then Some ENOMEM else None)"
    using assms(2) by (auto simp: Uint2BCD_def split: prod.splits)
  note Uint2BCD_loop_spec [OF _ l]
  with assms(1) have s: "length bcd' = unat sz" "bcd_val (take (unat sz) bcd') = unat n mod 100 ^ unat sz"
    "unat d' = unat n div 100 ^ unat sz" by auto
  then show "length bcd' = unat sz" "bcd_val bcd' = unat n mod 100 ^ unat sz" by simp_all
  have "d' = 0 \<longleftrightarrow> unat n < 100 ^ unat sz"
    using s(3) by (simp add: unat_eq_zero [symmetric] div_eq_0_iff)
  then show "e = (if unat n < 100 ^ unat sz then None else Some ENOMEM)" using e by simp
qed

text \<open>\<open>BCD2Uint\<close> reads only the high digit of each byte.\<close>

lemma BCD2Uint_loop_valid:
  "\<forall>b\<in>set bs. drop_bit 4 b \<le> 10 \<and> b AND 15 \<le> 10 \<Longrightarrow>
     BCD2Uint_loop bs r i = (foldl (\<lambda>r b. r * 10 + ucast (drop_bit 4 b)) r bs, i + length bs)"
  by (induction bs arbitrary: r i) (auto simp: Let_def)

definition dec_val :: "nat \<Rightarrow> bytes \<Rightarrow> nat" where
  "dec_val r cs = foldl (\<lambda>r c. r * 10 + (unat c - 48)) r cs"

lemma Ascii2Uint_loop_spec:
  "Ascii2Uint_loop cs i (of_nat r) =
     (of_nat (dec_val r (takeWhile isdigit cs)), i + length (takeWhile isdigit cs))"
proof (induction cs arbitrary: i r)
  case Nil
  then show ?case by (simp add: dec_val_def)
next
  case (Cons c cs)
  show ?case
  proof (cases "isdigit c")
    case True
    then have "48 \<le> c" by (simp add: isdigit_def)
    then have "unat (c - 48) = unat c - 48" by (simp add: unat_sub)
    then have "(ucast (c - 48) :: u32) = of_nat (unat c - 48)" by (metis of_nat_unat)
    then have "of_nat r * 10 + ucast (c - 48) = (of_nat (r * 10 + (unat c - 48)) :: u32)" by simp
    then show ?thesis
      using True Cons.IH [of "Suc i" "r * 10 + (unat c - 48)"]
      by (simp add: isdigit_def dec_val_def not_less)
  next
    case False
    then show ?thesis by (auto simp: isdigit_def dec_val_def not_le)
  qed
qed

lemma Ascii2Uint_spec:
  "Ascii2Uint cs len =
     (of_nat (dec_val 0 (takeWhile isdigit (take len cs))), length (takeWhile isdigit (take len cs)))"
  using Ascii2Uint_loop_spec [of "take len cs" 0 0] by (simp add: Ascii2Uint_def)

text \<open>The comparison is equality of the strings up to case, on the first \<open>maxlen\<close> characters.\<close>

lemma toupper_0: "toupper c = 0 \<longleftrightarrow> c = 0"
proof -
  have "c - 32 \<noteq> 0" if "97 \<le> c" using that by auto
  then show ?thesis by (auto simp: toupper_def)
qed

lemma strnicmp_loop_eq:
  "0 \<notin> set s \<Longrightarrow> 0 \<notin> set t \<Longrightarrow> i \<le> length s \<Longrightarrow> i \<le> length t \<Longrightarrow>
     strnicmp_loop n i s t = 0 \<longleftrightarrow> take n (map toupper (drop i s)) = take n (map toupper (drop i t))"
proof (induction n arbitrary: i)
  case 0
  then show ?case by simp
next
  case (Suc n)
  have at: "str_at s i = 0 \<longleftrightarrow> i = length s" "str_at t i = 0 \<longleftrightarrow> i = length t"
    using Suc.prems by (auto simp: str_at_def dest: nth_mem)
  consider "i = length s" | "i = length t" | "i < length s" "i < length t"
    using Suc.prems by linarith
  then show ?case
  proof cases
    case 1
    then show ?thesis using at Suc.prems toupper_0 [of "str_at t i"]
      by (auto simp: toupper_0 str_at_def toupper_def [of 0])
  next
    case 2
    then show ?thesis using at Suc.prems toupper_0 [of "str_at s i"]
      by (auto simp: toupper_0 str_at_def toupper_def [of 0])
  next
    case 3
    then show ?thesis using at Suc.IH [of "Suc i"] Suc.prems
      by (auto simp: str_at_def Cons_nth_drop_Suc [symmetric])
  qed
qed

lemma strnicmp_eq:
  "0 \<notin> set s \<Longrightarrow> 0 \<notin> set t \<Longrightarrow>
     strnicmp s t n = 0 \<longleftrightarrow> take n (map toupper s) = take n (map toupper t)"
  by (simp add: strnicmp_def strnicmp_loop_eq)

section \<open>Properties\<close>

text \<open>
  \<open>Uint2BCD\<close> succeeds exactly when the number has at most twice as many digits as the
  buffer has bytes, and then the buffer holds its decimal digits; otherwise it reports
  \<open>-PERR_ENOMEM\<close> and the buffer holds the low digits.
\<close>

theorem Uint2BCD_correct:
  assumes "length bcd = unat sz" "Uint2BCD n bcd sz = (e, bcd')"
  shows "length bcd' = unat sz \<and> bcd_val bcd' = unat n mod 100 ^ unat sz
    \<and> (e = None \<longleftrightarrow> unat n < 100 ^ unat sz) \<and> (e = None \<longrightarrow> bcd_val bcd' = unat n)"
  using Uint2BCD_spec [OF assms] by auto

theorem Uint2BCD_correct_witness:
  "\<exists>e bcd'. Uint2BCD 70123 [0, 0, 0] 3 = (e, bcd') \<and> e = None \<and> bcd_val bcd' = 70123"
proof -
  obtain e bcd' where r: "Uint2BCD 70123 [0, 0, 0] 3 = (e, bcd')" by (cases "Uint2BCD 70123 [0, 0, 0] 3")
  show ?thesis using Uint2BCD_correct [OF _ r] r by simp
qed

text \<open>
  converting a word to network order and back with the two copying macros is the
  identity, and the network order is the big-endian byte string.
\<close>

theorem byte_order_roundtrip:
  assumes "length d1 = 4" "length d2 = 4"
  shows "HTONL_COPY (le32 w) d1 = be32 w \<and> NTOHL_COPY (HTONL_COPY (le32 w) d1) d2 = le32 w"
  using assms by (simp add: HTONL_COPY_be32 NTOHL_COPY_le32)

theorem byte_order_roundtrip_witness:
  "NTOHL_COPY (HTONL_COPY (le32 0x12345678) [9, 9, 9, 9]) [0, 0, 0, 0] = le32 0x12345678"
  by (rule conjunct2 [OF byte_order_roundtrip [of "[9, 9, 9, 9]" "[0, 0, 0, 0]" "0x12345678"]]) simp_all

text \<open>
  \<open>strnicmp\<close> returns 0 exactly when the strings agree, up to the case of their letters,
  on the first \<open>maxlen\<close> characters.
\<close>

theorem strnicmp_equal_iff:
  assumes "0 \<notin> set s" "0 \<notin> set t"
  shows "strnicmp s t n = 0 \<longleftrightarrow> take n (map toupper s) = take n (map toupper t)"
  using assms by (rule strnicmp_eq)

theorem strnicmp_equal_iff_witness: "strnicmp [72, 101] [104, 69, 108] 2 = 0"
  using strnicmp_equal_iff [of "[72, 101]" "[104, 69, 108]" 2] by (simp add: toupper_def)

end
