(* ===== verification/Agvcp.thy ===== *)
theory Agvcp
  imports Agv_Types Os_Mem Floats Tools "HOL-Library.Sublist"
begin

text \<open>
  The control protocol (\<open>usr/application/agvcp.c\<close>), the vehicle's side of the dialogue
  with the dispatch server over UDP: a datagram is a message type, a sequence number and
  parameters. A message the vehicle sends is repeated until it is acknowledged; an action
  the server sends is acknowledged, buffered, confirmed and only then handed to the
  vehicle; a repeated action is acknowledged but not buffered again.

  The state \<open>agvcp_conn\<close> is the C structure \<open>conn\<close> with the static receive queue, plus
  what the environment sees and gives: the datagrams sent so far, and those that will
  arrive during each of the next 10 ms delays. The callbacks of \<open>agvcp_cb_t\<close> work on an
  abstract vehicle state. \<open>junk\<close> is what the uninitialised receive buffer of
  \<open>wait_ack\<close> holds when it is entered, \<open>rxdata\<close> the buffer of the connection loop.
\<close>

section \<open>State\<close>

datatype conn_state = CONNSTATE_OFFLINE | CONNSTATE_ONLINE | CONNSTATE_REGISTERING
  | CONNSTATE_UNREGISTERING | CONNSTATE_ERROR

record 'e agvcp_cb =
  agvcp_event_callback :: "u32 \<Rightarrow> u32 \<Rightarrow> bytes \<Rightarrow> 'e \<Rightarrow> 'e"
  get_status_callback :: "'e \<Rightarrow> agv_status \<times> 'e"
  read_param :: "(u32 \<Rightarrow> 'e \<Rightarrow> rat \<times> 'e) option"
  write_param :: "(u32 \<Rightarrow> rat \<Rightarrow> 'e \<Rightarrow> 'e) option"

record 'e agvcp_conn =
  agvid :: u32
  txseq :: u32
  rxseq :: u32
  conn_state :: conn_state
  err_cnt :: u32
  action_mem :: os_mem
  action_que :: "nat os_q"
  rxmem :: os_mem
  rxq :: "nat os_q"
  sent :: "bytes list"
  inbox :: "bytes list list"
  junk :: bytes
  rxdata :: bytes
  agv :: 'e

abbreviation (input) AGVCP_MAXMSG_SIZE :: nat where "AGVCP_MAXMSG_SIZE \<equiv> 512"

section \<open>Datagrams\<close>

text \<open>
  The receive callback of the wifi driver: the datagram is copied into a block, behind
  its length, and the block is queued; when there is no room it is dropped.
\<close>

definition sock_async_rxcallback :: "bytes \<Rightarrow> 'e agvcp_conn \<Rightarrow> 'e agvcp_conn outcome" where
  "sock_async_rxcallback bs c =
     (if AGVCP_MAXMSG_SIZE < length bs then Ret c
      else case OSMemGet (rxmem c) of
        ((p, e), m1) \<Rightarrow>
          if p = 0 then Ret (c\<lparr>rxmem := m1\<rparr>)
          else
            obind (blk_write p 0 (le32 (of_nat (length bs))) m1) (\<lambda>m2.
            obind (blk_write p 4 bs m2) (\<lambda>m3.
              case OSQPost p (rxq c) of
                (e, q1) \<Rightarrow>
                  if e \<noteq> OS_ERR_NONE then Ret (c\<lparr>rxq := q1, rxmem := snd (OSMemPut p m3)\<rparr>)
                  else Ret (c\<lparr>rxq := q1, rxmem := m3\<rparr>))))"

fun deliver :: "bytes list \<Rightarrow> 'e agvcp_conn \<Rightarrow> 'e agvcp_conn outcome" where
  "deliver [] c = Ret c"
| "deliver (d # ds) c = obind (sock_async_rxcallback d c) (deliver ds)"

text \<open>A 10 ms delay: what arrives meanwhile is delivered.\<close>

definition dly10 :: "'e agvcp_conn \<Rightarrow> 'e agvcp_conn outcome" where
  "dly10 c =
     (case inbox c of [] \<Rightarrow> Ret c | ds # rest \<Rightarrow> deliver ds (c\<lparr>inbox := rest\<rparr>))"

text \<open>\<open>sock_read\<close>: \<open>Inr []\<close> stands for 0, no datagram waiting.\<close>

definition sock_read :: "nat \<Rightarrow> 'e agvcp_conn \<Rightarrow> ((perr + bytes) \<times> 'e agvcp_conn) outcome" where
  "sock_read sz c =
     (case OSQAccept (rxq c) of
        ((p, e), q1) \<Rightarrow>
          if p = 0 then Ret (Inr [], c\<lparr>rxq := q1\<rparr>)
          else
            obind (blk_read p 0 4 (rxmem c)) (\<lambda>lb.
              let len = unat (of_le32 lb)
              in if sz < len then Ret (Inl ENOSPC, c\<lparr>rxq := q1, rxmem := snd (OSMemPut p (rxmem c))\<rparr>)
                 else obind (blk_read p 4 len (rxmem c)) (\<lambda>bs.
                   Ret (Inr bs, c\<lparr>rxq := q1, rxmem := snd (OSMemPut p (rxmem c))\<rparr>))))"

definition sock_write :: "bytes \<Rightarrow> 'e agvcp_conn \<Rightarrow> 'e agvcp_conn" where
  "sock_write bs c = c\<lparr>sent := sent c @ [bs]\<rparr>"

text \<open>
  \<open>agv_rx_msg\<close> copies the parameters over the start of the caller's buffer \<open>data\<close>; what
  was behind them stays.
\<close>

definition agv_rx_msg :: "bytes \<Rightarrow> 'e agvcp_conn \<Rightarrow>
    ((perr + (u32 \<times> u32 \<times> nat)) \<times> bytes \<times> 'e agvcp_conn) outcome" where
  "agv_rx_msg data c =
     obind (sock_read AGVCP_MAXMSG_SIZE c) (\<lambda>(r, c1).
       let rx = (case r of Inl e \<Rightarrow> [] | Inr bs \<Rightarrow> bs)
       in if length rx < 8 then Ret (Inl ETIMEDOUT, data, c1)
          else
            let len = (if length data < length rx - 8 then length data else length rx - 8)
            in Ret (Inr (of_be32 rx, of_be32 (drop 4 rx), len),
                    Prelude.splice 0 (take len (drop 8 rx)) data, c1))"

definition agv_tx_msg :: "u32 \<Rightarrow> u32 \<Rightarrow> bytes \<Rightarrow> 'e agvcp_conn \<Rightarrow> perr option \<times> 'e agvcp_conn" where
  "agv_tx_msg msg_type seq msg c =
     (if AGVCP_MAXMSG_SIZE \<le> length msg + 8 then (Some ENOMEM, c)
      else (None, sock_write (be32 msg_type @ be32 seq @ msg) c))"

section \<open>Incoming messages\<close>

text \<open>
  \<open>buffer_msg\<close>: \<open>params\<close> is the rest of the caller's buffer and \<open>len\<close> the number of its
  bytes that belong to the message. The guard \<open>len + 16\<close> is 32-bit arithmetic.
\<close>

definition buffer_msg :: "u32 \<Rightarrow> u32 \<Rightarrow> bytes \<Rightarrow> u32 \<Rightarrow> 'e agvcp_conn \<Rightarrow>
    (perr option \<times> 'e agvcp_conn) outcome" where
  "buffer_msg msg_type seq params len c =
     (case OSMemGet (action_mem c) of
        ((p, e), m1) \<Rightarrow>
          if p = 0 then Ret (Some ENOMEM, c\<lparr>action_mem := m1\<rparr>)
          else if of_nat AGVCP_MAXMSG_SIZE < len + 16 then
            Ret (Some ENOSPC, c\<lparr>action_mem := snd (OSMemPut p m1)\<rparr>)
          else if length params < unat len then Fault
          else
            obind (blk_write p 0 (le32 msg_type @ le32 seq @ le32 len @ take (unat len) params) m1) (\<lambda>m2.
              case OSQPost p (action_que c) of
                (e, q1) \<Rightarrow>
                  if e \<noteq> OS_ERR_NONE then
                    Ret (Some ENOMEM, c\<lparr>action_que := q1, action_mem := snd (OSMemPut p m2)\<rparr>)
                  else Ret (None, c\<lparr>action_que := q1, action_mem := m2\<rparr>)))"

definition is_repeat :: "u32 \<Rightarrow> 'e agvcp_conn \<Rightarrow> bool" where
  "is_repeat seq c \<longleftrightarrow> seq = rxseq c \<and> seq \<noteq> 0 \<and> rxseq c \<noteq> 0"

text \<open>
  \<open>agvcp_msg_process\<close>: \<open>buf\<close> is the caller's buffer from the parameters on. The answers
  are fixed-size, so the results of \<open>agv_tx_msg\<close> the code ignores are successes.
\<close>

definition agvcp_msg_process :: "'e agvcp_cb \<Rightarrow> u32 \<Rightarrow> u32 \<Rightarrow> bytes \<Rightarrow> u32 \<Rightarrow> 'e agvcp_conn \<Rightarrow>
    (perr option \<times> 'e agvcp_conn) outcome" where
  "agvcp_msg_process cb msg_type seq buf len c =
     obind
       (if msg_type = MSG_ACTION then
          let paramlen = of_be32 (drop 4 buf)
          in if paramlen + 8 \<noteq> len then Ret (Some EBADMSG, c)
             else if is_repeat seq c then
               Ret (Some EEXIST, snd (agv_tx_msg msg_type seq (be32 (agvid c)) c))
             else
               obind (buffer_msg msg_type seq buf len c) (\<lambda>(r, c1).
                 if r = None then Ret (None, snd (agv_tx_msg msg_type seq (be32 (agvid c)) c1))
                 else Ret (Some EAGAIN, c1))
        else if msg_type = MSG_WRITE_PARAM then
          let c1 = snd (agv_tx_msg msg_type seq (be32 (agvid c) @ take 8 buf) c)
          in if is_repeat seq c then Ret (Some EEXIST, c1)
             else
               Ret (None,
                 case write_param cb of
                   None \<Rightarrow> c1
                 | Some f \<Rightarrow>
                     c1\<lparr>agv := f (of_be32 buf)
                              (fl32 (ddiv (of_int (sint (of_be32 (drop 4 buf)))) 1000)) (agv c1)\<rparr>)
        else if msg_type = MSG_READ_PARAM then
          let (val_f, c1) = (case read_param cb of
                  None \<Rightarrow> (0, c)
                | Some f \<Rightarrow> (case f (of_be32 buf) (agv c) of (v, e) \<Rightarrow> (v, c\<lparr>agv := e\<rparr>)));
              val_int = of_int (ftrunc (dmul val_f 1000))
          in Ret (None, snd (agv_tx_msg msg_type seq (be32 (agvid c) @ take 4 buf @ be32 val_int) c1))
        else Ret (Some ENOTSUP, c))
       (\<lambda>(r, c1). Ret (r, if r = None then c1\<lparr>rxseq := seq\<rparr> else c1))"

section \<open>Waiting for an acknowledgement\<close>

text \<open>
  The polls of \<open>wait_ack\<close>, one per 10 ms: the awaited acknowledgement ends the wait;
  another message with at least five bytes of parameters and the vehicle's id is processed
  here; anything else is dropped.
\<close>

primrec wait_polls :: "'e agvcp_cb \<Rightarrow> u32 \<Rightarrow> u32 \<Rightarrow> nat \<Rightarrow> bytes \<Rightarrow> 'e agvcp_conn \<Rightarrow>
    (bool \<times> 'e agvcp_conn) outcome" where
  "wait_polls cb msg_type seq 0 buf c = Ret (False, c)"
| "wait_polls cb msg_type seq (Suc n) buf c =
     obind (dly10 c) (\<lambda>c1.
     obind (agv_rx_msg buf c1) (\<lambda>(r, buf1, c2).
       case r of
         Inl e \<Rightarrow> wait_polls cb msg_type seq n buf1 c2
       | Inr (rxmtype, rxmseq, len) \<Rightarrow>
           if rxmtype = msg_type \<and> rxmseq = seq then Ret (True, c2)
           else if 4 < len \<and> of_be32 buf1 = agvid c2 then
             obind (agvcp_msg_process cb rxmtype rxmseq (drop 4 buf1) (of_nat (len - 4)) c2)
               (\<lambda>(_, c3). wait_polls cb msg_type seq n buf1 c3)
           else wait_polls cb msg_type seq n buf1 c2))"

definition wait_ack :: "'e agvcp_cb \<Rightarrow> u32 \<Rightarrow> u32 \<Rightarrow> nat \<Rightarrow> 'e agvcp_conn \<Rightarrow>
    (bool \<times> 'e agvcp_conn) outcome" where
  "wait_ack cb msg_type seq tmout_ms c = wait_polls cb msg_type seq ((tmout_ms + 9) div 10) (junk c) c"

text \<open>What the operations leave alone.\<close>

definition conn_frame :: "'e agvcp_conn \<Rightarrow> 'e agvcp_conn \<Rightarrow> bool" where
  "conn_frame c c' \<longleftrightarrow> agvid c' = agvid c \<and> txseq c' = txseq c \<and> conn_state c' = conn_state c
     \<and> err_cnt c' = err_cnt c \<and> junk c' = junk c \<and> rxdata c' = rxdata c \<and> prefix (sent c) (sent c')"

lemma conn_frame_refl [simp]: "conn_frame c c"
  by (simp add: conn_frame_def)

lemma conn_frame_trans: "conn_frame a b \<Longrightarrow> conn_frame b c \<Longrightarrow> conn_frame a c"
  by (auto simp: conn_frame_def)

lemma sock_async_frame:
  "sock_async_rxcallback bs c = Ret c' \<Longrightarrow> conn_frame c c' \<and> inbox c' = inbox c \<and> sent c' = sent c
     \<and> rxseq c' = rxseq c \<and> agv c' = agv c \<and> action_mem c' = action_mem c \<and> action_que c' = action_que c"
  by (auto simp: sock_async_rxcallback_def conn_frame_def case_prod_unfold split: if_splits)

lemma deliver_frame:
  "deliver ds c = Ret c' \<Longrightarrow> conn_frame c c' \<and> inbox c' = inbox c \<and> sent c' = sent c
     \<and> rxseq c' = rxseq c \<and> agv c' = agv c \<and> action_mem c' = action_mem c \<and> action_que c' = action_que c"
proof (induction ds arbitrary: c)
  case (Cons d ds)
  then obtain c1 where "sock_async_rxcallback d c = Ret c1" "deliver ds c1 = Ret c'" by auto
  with Cons.IH [of c1] sock_async_frame [of d c c1] show ?case by (auto intro: conn_frame_trans)
qed simp

lemma dly10_frame:
  "dly10 c = Ret c' \<Longrightarrow> conn_frame c c' \<and> inbox c' = tl (inbox c) \<and> sent c' = sent c
     \<and> rxseq c' = rxseq c \<and> agv c' = agv c \<and> action_mem c' = action_mem c \<and> action_que c' = action_que c"
  by (auto simp: dly10_def conn_frame_def split: list.splits dest!: deliver_frame)

lemma sock_read_frame:
  "sock_read n c = Ret (r, c') \<Longrightarrow> conn_frame c c' \<and> inbox c' = inbox c \<and> sent c' = sent c
     \<and> rxseq c' = rxseq c \<and> agv c' = agv c \<and> action_mem c' = action_mem c \<and> action_que c' = action_que c"
  by (auto simp: sock_read_def conn_frame_def Let_def case_prod_unfold split: if_splits)

lemma agv_rx_msg_frame:
  "agv_rx_msg buf c = Ret (r, buf', c') \<Longrightarrow> conn_frame c c' \<and> inbox c' = inbox c \<and> sent c' = sent c
     \<and> rxseq c' = rxseq c \<and> agv c' = agv c \<and> action_mem c' = action_mem c \<and> action_que c' = action_que c"
  by (auto simp: agv_rx_msg_def Let_def split: if_splits sum.splits dest!: sock_read_frame)

lemma agv_tx_msg_frame:
  "conn_frame c (snd (agv_tx_msg t s m c))" "inbox (snd (agv_tx_msg t s m c)) = inbox c"
  "rxseq (snd (agv_tx_msg t s m c)) = rxseq c" "agv (snd (agv_tx_msg t s m c)) = agv c"
  "action_mem (snd (agv_tx_msg t s m c)) = action_mem c" "action_que (snd (agv_tx_msg t s m c)) = action_que c"
  "rxmem (snd (agv_tx_msg t s m c)) = rxmem c" "rxq (snd (agv_tx_msg t s m c)) = rxq c"
  by (simp_all add: agv_tx_msg_def sock_write_def conn_frame_def)

lemma agv_tx_msg_fixed [simp]:
  "agvid (snd (agv_tx_msg t s m c)) = agvid c" "txseq (snd (agv_tx_msg t s m c)) = txseq c"
  "conn_state (snd (agv_tx_msg t s m c)) = conn_state c" "err_cnt (snd (agv_tx_msg t s m c)) = err_cnt c"
  "junk (snd (agv_tx_msg t s m c)) = junk c" "rxdata (snd (agv_tx_msg t s m c)) = rxdata c"
  by (simp_all add: agv_tx_msg_def sock_write_def)

lemma buffer_msg_frame:
  "buffer_msg t s ps n c = Ret (r, c') \<Longrightarrow> conn_frame c c' \<and> inbox c' = inbox c \<and> sent c' = sent c
     \<and> rxseq c' = rxseq c \<and> agv c' = agv c"
  by (auto simp: buffer_msg_def conn_frame_def case_prod_unfold split: if_splits)

section \<open>Invariant and abstraction of the two mailboxes\<close>

definition rx_ok :: "'e agvcp_conn \<Rightarrow> bool" where
  "rx_ok c \<longleftrightarrow> mbox_ok (rxq c) (rxmem c) \<and> OSMemBlkSize (rxmem c) = AGVCP_MAXMSG_SIZE + 4
     \<and> (\<forall>d\<in>set (mbox_data (rxq c) (rxmem c)). unat (of_le32 d) \<le> AGVCP_MAXMSG_SIZE)"

definition act_ok :: "nat list \<Rightarrow> 'e agvcp_conn \<Rightarrow> bool" where
  "act_ok held c \<longleftrightarrow> mbox.owned (action_que c) (action_mem c) held
     \<and> OSMemBlkSize (action_mem c) = AGVCP_MAXMSG_SIZE"

text \<open>\<open>held\<close>: the block of the action being handed to the vehicle, if there is one.\<close>

definition conn_ok :: "nat list \<Rightarrow> 'e agvcp_conn \<Rightarrow> bool" where
  "conn_ok held c \<longleftrightarrow> rx_ok c \<and> act_ok held c \<and> length (junk c) = AGVCP_MAXMSG_SIZE \<and> length (rxdata c) = 256"

text \<open>The datagrams waiting, and the buffered messages: type, sequence number, parameters.\<close>

definition rx_msgs :: "'e agvcp_conn \<Rightarrow> bytes list" where
  "rx_msgs c = map (\<lambda>d. take (unat (of_le32 d)) (drop 4 d)) (mbox_data (rxq c) (rxmem c))"

definition act_decode :: "bytes \<Rightarrow> u32 \<times> u32 \<times> bytes" where
  "act_decode d = (of_le32 d, of_le32 (drop 4 d), take (unat (of_le32 (drop 8 d))) (drop 12 d))"

definition act_data :: "'e agvcp_conn \<Rightarrow> bytes list" where
  "act_data c = mbox_data (action_que c) (action_mem c)"

definition act_msgs :: "'e agvcp_conn \<Rightarrow> (u32 \<times> u32 \<times> bytes) list" where
  "act_msgs c = map act_decode (act_data c)"

lemma sock_async_rx:
  assumes "rx_ok c"
  shows "\<exists>c'. sock_async_rxcallback bs c = Ret c' \<and> rx_ok c' \<and> rx_msgs c' =
    (if length bs \<le> AGVCP_MAXMSG_SIZE \<and> mem_free (rxmem c) \<noteq> [] then rx_msgs c @ [bs] else rx_msgs c)"
proof (cases "AGVCP_MAXMSG_SIZE < length bs \<or> mem_free (rxmem c) = []")
  case True
  then show ?thesis
    using assms mbox_get_empty [of "rxmem c"]
    by (auto simp: sock_async_rxcallback_def rx_ok_def rx_msgs_def)
next
  case False
  then obtain p fs where fs: "mem_free (rxmem c) = p # fs" by (cases "mem_free (rxmem c)") auto
  have ok: "mbox.owned (rxq c) (rxmem c) []" "OSMemBlkSize (rxmem c) = 516"
    using assms by (auto simp: rx_ok_def mbox_ok_def)
  obtain m1 where m1: "OSMemGet (rxmem c) = ((p, OS_ERR_NONE), m1)" "mbox.owned (rxq c) m1 [p]" "p \<noteq> 0"
    "OSMemBlkSize m1 = OSMemBlkSize (rxmem c)" "OSMemPool m1 = OSMemPool (rxmem c)"
    by (rule mbox_get [OF ok(1) fs])
  let ?lb = "le32 (of_nat (length bs))"
  have len: "length (?lb @ bs) \<le> OSMemBlkSize m1" using False ok m1(4) by simp
  obtain m2 q' where m2: "blk_write p 0 (?lb @ bs) m1 = Ret m2" "OSQPost p (rxq c) = (OS_ERR_NONE, q')"
    "mbox.owned q' m2 []" "OSMemBlkSize m2 = OSMemBlkSize m1"
    and d: "mbox_data q' m2 = mbox_data (rxq c) m1
      @ [(?lb @ bs) @ drop (length (?lb @ bs)) (mem_read p (OSMemBlkSize m1) (OSMemPool m1))]"
    by (rule mbox_deposit [OF m1(2) len])
  obtain m where w: "blk_write p 0 ?lb m1 = Ret m" "blk_write p 4 bs m = Ret m2"
    using blk_write_append [of p 0 ?lb m1 bs] m2(1) by auto
  have "mbox_data (rxq c) m1 = mbox_data (rxq c) (rxmem c)" using m1 by (simp add: mbox_data_def)
  moreover have "unat (of_nat (length bs) :: u32) = length bs"
    using False by (simp add: unat_of_nat take_bit_nat_eq_self)
  ultimately show ?thesis
    using False assms fs m1 m2 w d by (simp add: sock_async_rxcallback_def rx_ok_def rx_msgs_def mbox_ok_def)
qed

lemma deliver_rx: "rx_ok c \<Longrightarrow> \<exists>c'. deliver ds c = Ret c' \<and> rx_ok c'"
proof (induction ds arbitrary: c)
  case (Cons d ds)
  then show ?case using sock_async_rx [OF Cons.prems, of d] by fastforce
qed simp

lemma dly10_rx: "rx_ok c \<Longrightarrow> \<exists>c'. dly10 c = Ret c' \<and> rx_ok c'"
  using deliver_rx [of "c\<lparr>inbox := tl (inbox c)\<rparr>"]
  by (auto simp: dly10_def rx_ok_def split: list.splits)

lemma sock_read_empty: "rx_msgs c = [] \<Longrightarrow> sock_read n c = Ret (Inr [], c)"
  using mbox_accept_empty [of "rxq c" "rxmem c"] by (simp add: rx_msgs_def sock_read_def)

lemma sock_read_msg:
  assumes "rx_ok c" "rx_msgs c = d # ds"
  obtains c' where "sock_read AGVCP_MAXMSG_SIZE c = Ret (Inr d, c')" "rx_ok c'" "rx_msgs c' = ds"
    "length d \<le> AGVCP_MAXMSG_SIZE"
proof -
  obtain b bs where b: "mbox_data (rxq c) (rxmem c) = b # bs" "d = take (unat (of_le32 b)) (drop 4 b)"
    "ds = map (\<lambda>d. take (unat (of_le32 d)) (drop 4 d)) bs"
    using assms(2) by (cases "mbox_data (rxq c) (rxmem c)") (auto simp: rx_msgs_def)
  have ok: "mbox.owned (rxq c) (rxmem c) []" "OSMemBlkSize (rxmem c) = 516"
    using assms by (auto simp: rx_ok_def mbox_ok_def)
  obtain p q' where a: "OSQAccept (rxq c) = ((p, OS_ERR_NONE), q')" "p \<noteq> 0" "mbox.owned q' (rxmem c) [p]"
    "b = mem_read p (OSMemBlkSize (rxmem c)) (OSMemPool (rxmem c))" "mbox_data q' (rxmem c) = bs"
    and rd: "\<And>off n. off + n \<le> OSMemBlkSize (rxmem c) \<Longrightarrow> blk_read p off n (rxmem c) = Ret (take n (drop off b))"
    by (rule mbox_accept [OF ok(1) b(1)]) (rule that; assumption)
  note put = mbox_put [OF a(3)]
  have lb: "length b = 516" "unat (of_le32 b) \<le> 512" using a(4) ok(2) assms(1) b(1) by (auto simp: rx_ok_def)
  have "of_le32 (take 4 b) = of_le32 b" using of_le32_take [of b "[]"] lb by simp
  moreover have "blk_read p 0 4 (rxmem c) = Ret (take 4 b)" using rd [of 0 4] ok(2) by simp
  moreover have "blk_read p 4 (unat (of_le32 b)) (rxmem c) = Ret d" using rd [of 4] lb ok(2) b(2) by simp
  moreover have "length d \<le> 512" using b(2) lb by simp
  ultimately show thesis
    using that [of "c\<lparr>rxq := q', rxmem := snd (OSMemPut p (rxmem c))\<rparr>"] a put lb assms(1) b
    by (simp add: sock_read_def Let_def rx_ok_def rx_msgs_def mbox_ok_def)
qed

text \<open>\<open>agv_rx_msg\<close> never faults and keeps the size of the caller's buffer.\<close>

lemma agv_rx_msg_ok:
  assumes "rx_ok c"
  shows "\<exists>r buf' c'. agv_rx_msg buf c = Ret (r, buf', c') \<and> rx_ok c' \<and> length buf' = length buf
    \<and> (\<forall>t s n. r = Inr (t, s, n) \<longrightarrow> n \<le> length buf)"
proof (cases "rx_msgs c")
  case Nil
  then show ?thesis using assms sock_read_empty [OF Nil] by (simp add: agv_rx_msg_def)
next
  case (Cons d ds)
  obtain c' where "sock_read AGVCP_MAXMSG_SIZE c = Ret (Inr d, c')" "rx_ok c'"
    by (rule sock_read_msg [OF assms Cons])
  then show ?thesis by (auto simp: agv_rx_msg_def Let_def)
qed

section \<open>Buffering and processing\<close>

lemma act_decode_stored:
  "unat len \<le> length params \<Longrightarrow>
     act_decode ((le32 t @ le32 s @ le32 len @ take (unat len) params) @ rest) = (t, s, take (unat len) params)"
  by (simp add: act_decode_def)

lemma buffer_msg_ok:
  assumes "act_ok held c" "unat len + 16 < 2 ^ 32" "unat len \<le> length params"
  shows "\<exists>r c'. buffer_msg t s params len c = Ret (r, c') \<and> act_ok held c' \<and> rxq c' = rxq c \<and> rxmem c' = rxmem c
    \<and> prefix (act_data c) (act_data c')
    \<and> (if mem_free (action_mem c) \<noteq> [] \<and> unat len + 16 \<le> AGVCP_MAXMSG_SIZE
        then r = None \<and> act_msgs c' = act_msgs c @ [(t, s, take (unat len) params)]
        else r \<noteq> None \<and> act_msgs c' = act_msgs c)"
proof (cases "mem_free (action_mem c)")
  case Nil
  then show ?thesis
    using assms(1) mbox_get_empty [of "action_mem c"] by (simp add: buffer_msg_def act_ok_def act_msgs_def act_data_def)
next
  case (Cons p fs)
  have ok: "mbox.owned (action_que c) (action_mem c) held" "OSMemBlkSize (action_mem c) = 512"
    using assms(1) by (auto simp: act_ok_def)
  obtain m1 where m1: "OSMemGet (action_mem c) = ((p, OS_ERR_NONE), m1)" "mbox.owned (action_que c) m1 (p # held)"
    "p \<noteq> 0" "OSMemBlkSize m1 = OSMemBlkSize (action_mem c)" "OSMemPool m1 = OSMemPool (action_mem c)"
    by (rule mbox_get [OF ok(1) Cons])
  have dm1: "mbox_data (action_que c) m1 = mbox_data (action_que c) (action_mem c)"
    using m1 by (simp add: mbox_data_def)
  have guard: "(512 :: u32) < len + 16 \<longleftrightarrow> 512 < unat len + 16"
    using assms(2) by (simp add: word_less_nat_alt unat_word_ariths)
  show ?thesis
  proof (cases "512 < unat len + 16")
    case True
    then show ?thesis
      using m1 mbox_put [OF m1(2)] guard assms(1) Cons dm1
      by (simp add: buffer_msg_def act_ok_def act_msgs_def act_data_def)
  next
    case False
    let ?bs = "le32 t @ le32 s @ le32 len @ take (unat len) params"
    have len: "length ?bs \<le> OSMemBlkSize m1" using False ok m1(4) by simp
    obtain m2 q' where m2: "blk_write p 0 ?bs m1 = Ret m2" "OSQPost p (action_que c) = (OS_ERR_NONE, q')"
      "mbox.owned q' m2 held" "OSMemBlkSize m2 = OSMemBlkSize m1"
      and d: "mbox_data q' m2 = mbox_data (action_que c) m1
        @ [?bs @ drop (length ?bs) (mem_read p (OSMemBlkSize m1) (OSMemPool m1))]"
      by (rule mbox_deposit [OF m1(2) len])
    show ?thesis
      using False m1 m2 d dm1 guard assms Cons ok act_decode_stored [OF assms(3)]
      by (simp add: buffer_msg_def act_ok_def act_msgs_def act_data_def)
  qed
qed

text \<open>The 32-bit lengths the two callers pass are small, except for the underflow of \<open>len - 4\<close>.\<close>

definition len_ok :: "bytes \<Rightarrow> u32 \<Rightarrow> bool" where
  "len_ok buf len \<longleftrightarrow> unat len + 16 < 2 ^ 32 \<and> unat len \<le> length buf"

lemma rx_ok_cong:
  "rxq c' = rxq c \<Longrightarrow> rxmem c' = rxmem c \<Longrightarrow> rx_ok c' = rx_ok c"
  by (simp add: rx_ok_def)

lemma act_ok_cong:
  "action_que c' = action_que c \<Longrightarrow> action_mem c' = action_mem c \<Longrightarrow> act_ok held c' = act_ok held c \<and> act_msgs c' = act_msgs c"
  by (simp add: act_ok_def act_msgs_def act_data_def)

lemma conn_ok_tx [simp]: "conn_ok held (snd (agv_tx_msg t s m c)) = conn_ok held c"
  by (simp add: conn_ok_def rx_ok_def act_ok_def agv_tx_msg_frame)

lemma act_msgs_tx [simp]: "act_msgs (snd (agv_tx_msg t s m c)) = act_msgs c"
  by (simp add: act_msgs_def act_data_def agv_tx_msg_frame)

lemma conn_ok_upd [simp]:
  "conn_ok held (c\<lparr>rxseq := x\<rparr>) = conn_ok held c" "conn_ok held (c\<lparr>agv := e\<rparr>) = conn_ok held c"
  "conn_ok held (c\<lparr>txseq := y\<rparr>) = conn_ok held c" "conn_ok held (c\<lparr>err_cnt := z\<rparr>) = conn_ok held c"
  "conn_ok held (c\<lparr>conn_state := st\<rparr>) = conn_ok held c" "conn_ok held (c\<lparr>inbox := ib\<rparr>) = conn_ok held c"
  "conn_ok held (c\<lparr>sent := se\<rparr>) = conn_ok held c"
  by (simp_all add: conn_ok_def rx_ok_def act_ok_def)

lemma act_msgs_upd [simp]:
  "act_msgs (c\<lparr>rxseq := x\<rparr>) = act_msgs c" "act_msgs (c\<lparr>agv := e\<rparr>) = act_msgs c"
  "act_msgs (c\<lparr>txseq := y\<rparr>) = act_msgs c" "act_msgs (c\<lparr>err_cnt := z\<rparr>) = act_msgs c"
  "act_msgs (c\<lparr>conn_state := st\<rparr>) = act_msgs c" "act_msgs (c\<lparr>inbox := ib\<rparr>) = act_msgs c"
  by (simp_all add: act_msgs_def act_data_def)

text \<open>
  What \<open>agvcp_msg_process\<close> does with an action: a new one is buffered, acknowledged and
  its number remembered; a repeated one is only acknowledged; one that does not fit or is
  malformed leaves everything as it was, so that the server repeats it.
\<close>

lemma process_action:
  assumes "conn_ok held c" "len_ok buf len"
  shows "\<exists>r c'. agvcp_msg_process cb MSG_ACTION seq buf len c = Ret (r, c') \<and> conn_ok held c' \<and>
    (if of_be32 (drop 4 buf) + 8 \<noteq> len then r = Some EBADMSG \<and> c' = c
     else if is_repeat seq c then r = Some EEXIST \<and> act_msgs c' = act_msgs c
       \<and> sent c' = sent c @ [be32 MSG_ACTION @ be32 seq @ be32 (agvid c)] \<and> rxseq c' = rxseq c
     else if mem_free (action_mem c) \<noteq> [] \<and> unat len + 16 \<le> AGVCP_MAXMSG_SIZE then
       r = None \<and> act_msgs c' = act_msgs c @ [(MSG_ACTION, seq, take (unat len) buf)]
       \<and> sent c' = sent c @ [be32 MSG_ACTION @ be32 seq @ be32 (agvid c)] \<and> rxseq c' = seq
     else r = Some EAGAIN \<and> act_msgs c' = act_msgs c \<and> sent c' = sent c \<and> rxseq c' = rxseq c)"
proof -
  have "act_ok held c" "rx_ok c" using assms(1) by (auto simp: conn_ok_def)
  obtain r c1 where b: "buffer_msg MSG_ACTION seq buf len c = Ret (r, c1)" "act_ok held c1" "rxq c1 = rxq c"
    "rxmem c1 = rxmem c" "if mem_free (action_mem c) \<noteq> [] \<and> unat len + 16 \<le> AGVCP_MAXMSG_SIZE
        then r = None \<and> act_msgs c1 = act_msgs c @ [(MSG_ACTION, seq, take (unat len) buf)]
        else r \<noteq> None \<and> act_msgs c1 = act_msgs c"
    using buffer_msg_ok [OF \<open>act_ok held c\<close>, of len buf MSG_ACTION seq] assms(2) by (auto simp: len_ok_def)
  note f = buffer_msg_frame [OF b(1)]
  have f': "agvid c1 = agvid c" "junk c1 = junk c" "rxdata c1 = rxdata c" using f by (auto simp: conn_frame_def)
  have s1: "sent c1 = sent c" using b(1) by (auto simp: buffer_msg_def case_prod_unfold split: if_splits)
  have ok1: "conn_ok held c1" using assms(1) b f' by (simp add: conn_ok_def rx_ok_def)
  have tx: "sent (snd (agv_tx_msg MSG_ACTION seq (be32 (agvid c)) d))
      = sent d @ [be32 MSG_ACTION @ be32 seq @ be32 (agvid c)]" for d :: "'a agvcp_conn"
    by (simp add: agv_tx_msg_def sock_write_def)
  show ?thesis
    using assms(1) b(1,5) ok1 f f' s1 tx
    by (auto simp: agvcp_msg_process_def Let_def agv_tx_msg_frame simp del: agv_tx_msg_def)
qed

lemma process_other_ok:
  assumes "conn_ok held c" "msg_type \<noteq> MSG_ACTION"
  shows "\<exists>r c'. agvcp_msg_process cb msg_type seq buf len c = Ret (r, c') \<and> conn_ok held c' \<and> act_msgs c' = act_msgs c"
proof -
  obtain v c1 where rd: "(case read_param cb of None \<Rightarrow> (0, c)
      | Some f \<Rightarrow> (case f (of_be32 buf) (agv c) of (v, e) \<Rightarrow> (v, c\<lparr>agv := e\<rparr>))) = (v, c1)"
    and c1: "conn_ok held c1" "act_msgs c1 = act_msgs c"
    using assms(1) by (cases "read_param cb") (auto simp: case_prod_unfold)
  consider "msg_type = MSG_WRITE_PARAM" | "msg_type = MSG_READ_PARAM"
    | "msg_type \<noteq> MSG_WRITE_PARAM" "msg_type \<noteq> MSG_READ_PARAM" by blast
  then show ?thesis
  proof cases
    case 1
    then show ?thesis using assms(1)
      by (cases "is_repeat seq c"; cases "write_param cb") (simp_all add: agvcp_msg_process_def Let_def)
  next
    case 2
    then show ?thesis using c1 by (simp add: agvcp_msg_process_def Let_def rd)
  next
    case 3
    then show ?thesis using assms by (simp add: agvcp_msg_process_def)
  qed
qed

lemma msg_process_ok:
  assumes "conn_ok held c" "len_ok buf len"
  shows "\<exists>r c'. agvcp_msg_process cb msg_type seq buf len c = Ret (r, c') \<and> conn_ok held c'"
  using process_action [OF assms, of cb seq] process_other_ok [OF assms(1), of msg_type cb seq buf len]
  by (cases "msg_type = MSG_ACTION") blast+

lemma msg_process_frame:
  assumes "agvcp_msg_process cb t s buf len c = Ret (r, c')"
  shows "conn_frame c c'" "inbox c' = inbox c"
proof -
  have "conn_frame c c' \<and> inbox c' = inbox c"
    using assms agv_tx_msg_frame(1) [of _ _ _ _] buffer_msg_frame
    by (fastforce simp: agvcp_msg_process_def Let_def agv_tx_msg_def sock_write_def conn_frame_def
        split: if_splits option.splits prod.splits)
  then show "conn_frame c c'" "inbox c' = inbox c" by auto
qed

lemma wait_polls_frame:
  "wait_polls cb t s n buf c = Ret (r, c') \<Longrightarrow>
     conn_frame c c' \<and> (\<exists>k\<le>n. inbox c' = drop k (inbox c) \<and> (\<not> r \<longrightarrow> k = n))"
proof (induction n arbitrary: buf c)
  case 0
  then show ?case by simp
next
  case (Suc n)
  obtain c1 where c1: "dly10 c = Ret c1" using Suc.prems by auto
  obtain q buf1 c2 where c2: "agv_rx_msg buf c1 = Ret (q, buf1, c2)" using Suc.prems c1 by auto
  note f = dly10_frame [OF c1] agv_rx_msg_frame [OF c2]
  have f2: "conn_frame c c2" "inbox c2 = drop 1 (inbox c)"
    using f by (auto intro: conn_frame_trans simp: drop_Suc)
  have step: ?case if w: "wait_polls cb t s n b d = Ret (r, c')" and d: "conn_frame c d" "inbox d = inbox c2" for b d
  proof -
    obtain k where k: "k \<le> n" "inbox c' = drop k (inbox d)" "\<not> r \<longrightarrow> k = n" "conn_frame d c'"
      using Suc.IH [OF w] by blast
    then have "inbox c' = drop (Suc k) (inbox c)" using d(2) f2(2) by (simp add: drop_Suc drop_tl)
    then show ?thesis using k d(1) by (auto intro: conn_frame_trans)
  qed
  show ?case
  proof (cases q)
    case (Inl e)
    then show ?thesis using Suc.prems c1 c2 step [OF _ f2(1)] by simp
  next
    case (Inr m)
    obtain mt ms len where m: "m = (mt, ms, len)" by (cases m)
    show ?thesis
    proof (cases "mt = t \<and> ms = s")
      case True
      then show ?thesis using Suc.prems c1 c2 Inr m f2 by (auto intro!: exI [of _ "Suc 0"])
    next
      case False
      show ?thesis
      proof (cases "4 < len \<and> of_be32 buf1 = agvid c2")
        case True
        then obtain q2 c3 where p: "agvcp_msg_process cb mt ms (drop 4 buf1) (of_nat (len - 4)) c2 = Ret (q2, c3)"
          "wait_polls cb t s n buf1 c3 = Ret (r, c')"
          using Suc.prems c1 c2 Inr m False by (auto simp del: wait_polls.simps(1) split: if_splits)
        show ?thesis
          using step [OF p(2)] msg_process_frame [OF p(1)] f2(1) by (auto intro: conn_frame_trans)
      next
        case no: False
        then show ?thesis using Suc.prems c1 c2 Inr m False step [OF _ f2(1)] by auto
      qed
    qed
  qed
qed

lemma wait_polls_ok:
  "conn_ok held c \<Longrightarrow> length buf = AGVCP_MAXMSG_SIZE \<Longrightarrow> \<exists>r c'. wait_polls cb t s n buf c = Ret (r, c') \<and> conn_ok held c'"
proof (induction n arbitrary: buf c)
  case 0
  then show ?case by (intro exI [of _ False] exI [of _ c]) simp
next
  case (Suc n)
  obtain c1 where c1: "dly10 c = Ret c1" "rx_ok c1"
    using dly10_rx [of c] Suc.prems by (auto simp: conn_ok_def)
  obtain q buf1 c2 where c2: "agv_rx_msg buf c1 = Ret (q, buf1, c2)" "rx_ok c2" "length buf1 = length buf"
    and n: "\<And>t s n. q = Inr (t, s, n) \<Longrightarrow> n \<le> length buf"
    using agv_rx_msg_ok [OF c1(2), of buf] by blast
  note f = dly10_frame [OF c1(1)] agv_rx_msg_frame [OF c2(1)]
  have ok2: "conn_ok held c2"
    using Suc.prems f c2(2) by (auto simp: conn_ok_def conn_frame_def act_ok_def)
  note IH = Suc.IH [OF _ c2(3) [unfolded Suc.prems(2)]]
  show ?case
  proof (cases q)
    case (Inl e)
    then show ?thesis using c1 c2 IH [OF ok2] by simp
  next
    case (Inr m)
    obtain mt ms len where m: "m = (mt, ms, len)" by (cases m)
    have "len \<le> 512" using n Inr m Suc.prems by simp
    then have u: "unat (of_nat (len - 4) :: u32) = len - 4"
      by (simp add: unat_of_nat take_bit_nat_eq_self)
    moreover have "len - 4 \<le> 508" using \<open>len \<le> 512\<close> by linarith
    ultimately have "len_ok (drop 4 buf1) (of_nat (len - 4))"
      using c2(3) Suc.prems by (simp add: len_ok_def)
    from msg_process_ok [OF ok2 this, of cb mt ms]
    obtain q2 c3 where c3: "agvcp_msg_process cb mt ms (drop 4 buf1) (of_nat (len - 4)) c2 = Ret (q2, c3)" "conn_ok held c3"
      by blast
    show ?thesis using c1 c2 c3 Inr m ok2 IH [OF ok2] IH [OF c3(2)] by auto
  qed
qed

section \<open>Sending\<close>

abbreviation (input) WAIT_ACK_TIMEOUT :: nat where "WAIT_ACK_TIMEOUT \<equiv> 1000"

text \<open>
  The \<open>RETRY\<close> loop of \<open>agv_send_msg_locked\<close>. \<open>retry = 0\<close> means for ever: the loop is
  \<open>Hang\<close> when the wait timed out and the environment has nothing left to deliver (the
  100 polls of one wait empty the receive queue). The result tells whether the message was
  acknowledged.
\<close>

function send_loop :: "'e agvcp_cb \<Rightarrow> u32 \<Rightarrow> u32 \<Rightarrow> bytes \<Rightarrow> bool \<Rightarrow> nat \<Rightarrow> 'e agvcp_conn \<Rightarrow>
    (bool \<times> 'e agvcp_conn) outcome" where
  "send_loop cb msg_type seq msg forever retry c =
     (let c1 = snd (agv_tx_msg msg_type seq msg c)
      in obind (wait_ack cb msg_type seq WAIT_ACK_TIMEOUT c1) (\<lambda>(acked, c2).
           if acked then Ret (True, c2\<lparr>txseq := txseq c2 + 1\<rparr>)
           else if forever then
             if inbox c1 = [] then Hang else send_loop cb msg_type seq msg forever retry c2
           else if 0 < retry - 1 then send_loop cb msg_type seq msg forever (retry - 1) c2
           else Ret (False, c2)))"
  by auto
termination
proof (relation "measures [\<lambda>(_, _, _, _, inf, r, c). if inf then length (inbox c) else 0,
    \<lambda>(_, _, _, _, inf, r, c). r]", goal_cases)
  case 1
  then show ?case by simp
next
  case (2 cb msg_type seq msg forever retry c c1 x acked c2)
  then have "\<not> acked" "wait_polls cb msg_type seq 100 (junk c1) c1 = Ret (acked, c2)"
    by (auto simp: wait_ack_def)
  then have "inbox c2 = drop 100 (inbox c1)" using wait_polls_frame by blast
  moreover have "inbox c1 = inbox c" using 2(1) by (simp add: agv_tx_msg_frame)
  ultimately show ?case using 2 by (cases "inbox c") auto
next
  case (3 cb msg_type seq msg forever retry c c1 x acked c2)
  then show ?case by auto
qed

declare send_loop.simps [simp del]

definition on_connection_error :: "'e agvcp_cb \<Rightarrow> 'e agvcp_conn \<Rightarrow> 'e agvcp_conn" where
  "on_connection_error cb c = c\<lparr>agv := agvcp_event_callback cb AGVCPEVT_CONNECTION_LOST 0 [] (agv c)\<rparr>"

definition on_connection_recovery :: "'e agvcp_cb \<Rightarrow> 'e agvcp_conn \<Rightarrow> 'e agvcp_conn" where
  "on_connection_recovery cb c = c\<lparr>agv := agvcp_event_callback cb AGVCPEVT_CONNECTION_RECOVERY 0 [] (agv c)\<rparr>"

abbreviation (input) AGVCP_MAX_ERRCNT :: u32 where "AGVCP_MAX_ERRCNT \<equiv> 5"

definition agv_send_msg_locked :: "'e agvcp_cb \<Rightarrow> u32 \<Rightarrow> bytes \<Rightarrow> nat \<Rightarrow> 'e agvcp_conn \<Rightarrow>
    (perr option \<times> 'e agvcp_conn) outcome" where
  "agv_send_msg_locked cb msg_type msg retry_times c =
     (if msg_type = MSG_HEARTBEAT then
        let c1 = snd (agv_tx_msg msg_type (txseq c) msg c)
        in Ret (None, c1\<lparr>txseq := txseq c1 + 1\<rparr>)
      else
        obind (send_loop cb msg_type (txseq c) msg (retry_times = 0) retry_times c) (\<lambda>(acked, c1).
          if \<not> acked then
            let c2 = c1\<lparr>err_cnt := err_cnt c1 + 1\<rparr>
            in Ret (Some ETIMEDOUT,
                 if AGVCP_MAX_ERRCNT < err_cnt c2 \<and> conn_state c2 = CONNSTATE_ONLINE
                 then (on_connection_error cb c2)\<lparr>conn_state := CONNSTATE_ERROR\<rparr> else c2)
          else if conn_state c1 = CONNSTATE_ERROR then
            Ret (None, (on_connection_recovery cb c1)\<lparr>conn_state := CONNSTATE_ONLINE\<rparr>)
          else Ret (None, c1)))"

text \<open>\<open>agv_send_msg\<close> and \<open>agv_trans_msg\<close> take the connection's mutex around it.\<close>

definition agv_send_msg :: "'e agvcp_cb \<Rightarrow> u32 \<Rightarrow> bytes \<Rightarrow> nat \<Rightarrow> 'e agvcp_conn \<Rightarrow>
    (perr option \<times> 'e agvcp_conn) outcome" where
  "agv_send_msg = agv_send_msg_locked"

lemma wait_ack_frame:
  assumes "wait_ack cb t s n c = Ret (r, c')"
  shows "conn_frame c c'" "r \<or> inbox c' = drop ((n + 9) div 10) (inbox c)"
  using wait_polls_frame assms unfolding wait_ack_def by blast+

lemma wait_ack_ok: "conn_ok held c \<Longrightarrow> \<exists>r c'. wait_ack cb t s n c = Ret (r, c') \<and> conn_ok held c'"
  unfolding wait_ack_def by (rule wait_polls_ok) (auto simp: conn_ok_def)

text \<open>
  The loop never faults; it returns when it may give up, and also for ever-repeated
  messages as soon as it is acknowledged.
\<close>

lemma send_loop_ok:
  "conn_ok held c \<Longrightarrow> send_loop cb t s msg forever n c = Hang \<and> forever
     \<or> (\<exists>r c'. send_loop cb t s msg forever n c = Ret (r, c') \<and> conn_ok held c' \<and> (forever \<longrightarrow> r))"
proof (induction cb t s msg forever n c rule: send_loop.induct)
  case (1 cb t s msg forever n c)
  let ?c1 = "snd (agv_tx_msg t s msg c)"
  obtain r c2 where w: "wait_ack cb t s 1000 ?c1 = Ret (r, c2)" "conn_ok held c2"
    using wait_ack_ok [of held ?c1 cb t s 1000] 1(3) by auto
  note IH = 1(1) [OF refl w(1) refl] 1(2) [OF refl w(1) refl]
  show ?case
    by (subst (1 2) send_loop.simps) (use w IH in \<open>auto simp: Let_def\<close>)
qed

text \<open>What a send that returns has done.\<close>

lemma send_loop_frame:
  "send_loop cb t s msg forever n c = Ret (r, c') \<Longrightarrow> length msg + 8 < AGVCP_MAXMSG_SIZE \<Longrightarrow>
     agvid c' = agvid c \<and> conn_state c' = conn_state c \<and> err_cnt c' = err_cnt c
     \<and> junk c' = junk c \<and> rxdata c' = rxdata c \<and> prefix (sent c @ [be32 t @ be32 s @ msg]) (sent c')
     \<and> txseq c' = (if r then txseq c + 1 else txseq c) \<and> (forever \<longrightarrow> r)"
proof (induction cb t s msg forever n c rule: send_loop.induct)
  case (1 cb t s msg forever n c)
  let ?c1 = "snd (agv_tx_msg t s msg c)"
  have s1: "sent ?c1 = sent c @ [be32 t @ be32 s @ msg]"
    using 1(4) by (simp add: agv_tx_msg_def sock_write_def)
  obtain r1 c2 where w: "wait_ack cb t s 1000 ?c1 = Ret (r1, c2)"
    using 1(3) by (subst (asm) send_loop.simps) (auto simp: Let_def)
  note f = wait_ack_frame(1) [OF w]
  have f2: "agvid c2 = agvid c" "conn_state c2 = conn_state c" "err_cnt c2 = err_cnt c" "junk c2 = junk c"
    "rxdata c2 = rxdata c" "txseq c2 = txseq c" "prefix (sent c @ [be32 t @ be32 s @ msg]) (sent c2)"
    using f s1 by (auto simp: conn_frame_def)
  note IH = 1(1) [OF refl w refl _ _ _ _ 1(4)] 1(2) [OF refl w refl _ _ _ _ 1(4)]
  have "(if r1 then Ret (True, c2\<lparr>txseq := txseq c2 + 1\<rparr>)
       else if forever then if inbox ?c1 = [] then Hang else send_loop cb t s msg forever n c2
       else if 0 < n - 1 then send_loop cb t s msg forever (n - 1) c2 else Ret (False, c2)) = Ret (r, c')"
    using 1(3) w by (subst (asm) send_loop.simps) (simp add: Let_def)
  then show ?case
    using f2 IH by (auto split: if_splits intro: prefix_order.trans [OF _ append_prefixD])
qed

text \<open>
  The number of messages still to be dealt with: no operation below raises it, which is
  what ends the loop over the buffered messages.
\<close>

definition pending :: "'e agvcp_conn \<Rightarrow> nat" where
  "pending c = OSQEntries (action_que c) + OSQEntries (rxq c) + length (concat (inbox c))"

lemma pending_upd [simp]:
  "pending (c\<lparr>rxseq := x\<rparr>) = pending c" "pending (c\<lparr>agv := e\<rparr>) = pending c"
  "pending (c\<lparr>txseq := y\<rparr>) = pending c" "pending (c\<lparr>err_cnt := z\<rparr>) = pending c"
  "pending (c\<lparr>conn_state := st\<rparr>) = pending c" "pending (snd (agv_tx_msg t s m c)) = pending c"
  by (simp_all add: pending_def agv_tx_msg_frame)

lemma OSQPost_entries: "OSQEntries (snd (OSQPost p q)) \<le> Suc (OSQEntries q)"
  by (simp add: OSQPost_def OS_EventTaskRdy_def)

lemma OSQAccept_entries: "OSQEntries (snd (OSQAccept q)) = OSQEntries q - 1"
  "fst (fst (OSQAccept q)) \<noteq> 0 \<Longrightarrow> 0 < OSQEntries q"
  by (auto simp: OSQAccept_def split: if_splits)

lemma sock_async_entries:
  "sock_async_rxcallback bs c = Ret c' \<Longrightarrow> OSQEntries (rxq c') \<le> Suc (OSQEntries (rxq c))"
  using OSQPost_entries [of _ "rxq c"]
  by (auto simp: sock_async_rxcallback_def case_prod_unfold split: if_splits)

lemma deliver_entries:
  "deliver ds c = Ret c' \<Longrightarrow> OSQEntries (rxq c') \<le> OSQEntries (rxq c) + length ds"
proof (induction ds arbitrary: c)
  case (Cons d ds)
  then obtain c1 where c1: "sock_async_rxcallback d c = Ret c1" "deliver ds c1 = Ret c'" by auto
  from Cons.IH [OF c1(2)] sock_async_entries [OF c1(1)] show ?case by simp
qed simp

lemma dly10_pending: "dly10 c = Ret c' \<Longrightarrow> pending c' \<le> pending c"
proof (cases "inbox c")
  case (Cons ds rest)
  assume d: "dly10 c = Ret c'"
  then have "deliver ds (c\<lparr>inbox := rest\<rparr>) = Ret c'" using Cons by (simp add: dly10_def)
  from deliver_entries [OF this] deliver_frame [OF this] show ?thesis by (simp add: pending_def Cons)
qed (simp add: dly10_def)

lemma agv_rx_msg_pending:
  assumes "agv_rx_msg buf c = Ret (r, buf', c')"
  shows "pending c' \<le> pending c" "r = Inr m \<Longrightarrow> pending c' < pending c"
proof -
  obtain q c1 where s: "sock_read 512 c = Ret (q, c1)" using assms by (auto simp: agv_rx_msg_def)
  have c1: "OSQEntries (rxq c1) = OSQEntries (rxq c) - 1" "inbox c1 = inbox c" "action_que c1 = action_que c"
    using s OSQAccept_entries(1) [of "rxq c"]
    by (auto simp: sock_read_def case_prod_unfold Let_def split: if_splits)
  have ne: "0 < OSQEntries (rxq c)" if "q = Inr bs" "8 \<le> length bs" for bs
    using s that OSQAccept_entries(2) [of "rxq c"]
    by (auto simp: sock_read_def case_prod_unfold Let_def split: if_splits)
  have c': "c' = c1" using assms s by (auto simp: agv_rx_msg_def Let_def split: if_splits)
  show "pending c' \<le> pending c" using c1 c' by (simp add: pending_def)
  assume "r = Inr m"
  then obtain bs where "q = Inr bs" "8 \<le> length bs"
    using assms s by (cases q) (auto simp: agv_rx_msg_def Let_def split: if_splits)
  from ne [OF this] show "pending c' < pending c" using c1 c' by (simp add: pending_def)
qed

lemma buffer_msg_pending: "buffer_msg t s ps n c = Ret (r, c') \<Longrightarrow> pending c' \<le> Suc (pending c)"
  using OSQPost_entries [of _ "action_que c"]
  by (auto simp: buffer_msg_def pending_def case_prod_unfold split: if_splits)

lemma msg_process_pending:
  assumes "agvcp_msg_process cb t s buf len c = Ret (r, c')"
  shows "pending c' \<le> Suc (pending c)"
proof (cases "t = MSG_ACTION")
  case True
  then show ?thesis
    using assms buffer_msg_pending by (fastforce simp: agvcp_msg_process_def Let_def split: if_splits)
next
  case False
  then have "pending c' = pending c"
    using assms by (auto simp: agvcp_msg_process_def Let_def case_prod_unfold split: if_splits option.splits)
  then show ?thesis by simp
qed

lemma wait_polls_pending: "wait_polls cb t s n buf c = Ret (r, c') \<Longrightarrow> pending c' \<le> pending c"
proof (induction n arbitrary: buf c)
  case 0
  then show ?case by simp
next
  case (Suc n)
  obtain c1 where c1: "dly10 c = Ret c1" using Suc.prems by auto
  obtain q buf1 c2 where c2: "agv_rx_msg buf c1 = Ret (q, buf1, c2)" using Suc.prems c1 by auto
  have le: "pending c2 \<le> pending c" "q = Inr m \<Longrightarrow> pending c2 < pending c" for m
    using dly10_pending [OF c1] agv_rx_msg_pending [OF c2] by (auto intro: le_less_trans dest: less_le_trans)
  show ?case
  proof (cases q)
    case (Inl e)
    then show ?thesis using Suc.prems c1 c2 le Suc.IH [of buf1 c2] by simp
  next
    case (Inr m)
    obtain mt ms len where m: "m = (mt, ms, len)" by (cases m)
    consider (ack) "mt = t \<and> ms = s" | (drop) "\<not> (mt = t \<and> ms = s)" "\<not> (4 < len \<and> of_be32 buf1 = agvid c2)"
      | (msg) "\<not> (mt = t \<and> ms = s)" "4 < len \<and> of_be32 buf1 = agvid c2" by blast
    then show ?thesis
    proof cases
      case ack
      then show ?thesis using Suc.prems c1 c2 Inr m le by auto
    next
      case drop
      then show ?thesis using Suc.prems c1 c2 Inr m le Suc.IH [of buf1 c2] by (simp split: if_splits)
    next
      case msg
      then obtain q2 c3 where p: "agvcp_msg_process cb mt ms (drop 4 buf1) (of_nat (len - 4)) c2 = Ret (q2, c3)"
        "wait_polls cb t s n buf1 c3 = Ret (r, c')"
        using Suc.prems c1 c2 Inr m by (auto split: if_splits)
      show ?thesis using Suc.IH [OF p(2)] msg_process_pending [OF p(1)] le(2) [OF Inr] by linarith
    qed
  qed
qed

lemma send_loop_pending: "send_loop cb t s msg forever n c = Ret (r, c') \<Longrightarrow> pending c' \<le> pending c"
proof (induction cb t s msg forever n c rule: send_loop.induct)
  case (1 cb t s msg forever n c)
  let ?c1 = "snd (agv_tx_msg t s msg c)"
  obtain r1 c2 where w: "wait_ack cb t s 1000 ?c1 = Ret (r1, c2)"
    using 1(3) by (subst (asm) send_loop.simps) (auto simp: Let_def)
  have "pending c2 \<le> pending c"
    using wait_polls_pending w unfolding wait_ack_def by fastforce
  moreover have "(if r1 then Ret (True, c2\<lparr>txseq := txseq c2 + 1\<rparr>)
       else if forever then if inbox ?c1 = [] then Hang else send_loop cb t s msg forever n c2
       else if 0 < n - 1 then send_loop cb t s msg forever (n - 1) c2 else Ret (False, c2)) = Ret (r, c')"
    using 1(3) w by (subst (asm) send_loop.simps) (simp add: Let_def)
  ultimately show ?case
    using 1(1) [OF refl w refl] 1(2) [OF refl w refl] by (auto split: if_splits)
qed

lemma agv_send_msg_pending: "agv_send_msg cb t msg n c = Ret (r, c') \<Longrightarrow> pending c' \<le> pending c"
  by (auto simp: agv_send_msg_def agv_send_msg_locked_def Let_def on_connection_error_def
      on_connection_recovery_def split: if_splits dest!: send_loop_pending)

section \<open>What waiting and sending preserve\<close>

text \<open>
  A relation between states that the elementary operations of the protocol respect is
  respected by a wait and by a send: the inductions are done once here. A message that is
  received and processed is one step, \<open>own\<close> are the types of message the sender may use.
  A wait or a send that ends with an acknowledgement has read it.
\<close>

locale conn_steps =
  fixes cb :: "'e agvcp_cb" and own :: "u32 \<Rightarrow> bool" and R :: "'e agvcp_conn \<Rightarrow> 'e agvcp_conn \<Rightarrow> bool"
  assumes R_refl: "R c c"
    and R_trans: "R a b \<Longrightarrow> R b d \<Longrightarrow> R a d"
    and R_dly10: "dly10 c = Ret c' \<Longrightarrow> R c c'"
    and R_rx: "agv_rx_msg buf c = Ret (r, buf', c') \<Longrightarrow> length buf = AGVCP_MAXMSG_SIZE \<Longrightarrow>
      R c c' \<and> length buf' = AGVCP_MAXMSG_SIZE \<and> (\<forall>t s n. r = Inr (t, s, n) \<longrightarrow> n \<le> AGVCP_MAXMSG_SIZE)"
    and R_tx: "own t \<Longrightarrow> R c (snd (agv_tx_msg t s m c))"
    and R_take: "agv_rx_msg buf c = Ret (Inr (t, s, len), buf', c1) \<Longrightarrow> length buf = AGVCP_MAXMSG_SIZE \<Longrightarrow> 4 < len \<Longrightarrow>
      of_be32 buf' = agvid c1 \<Longrightarrow> agvcp_msg_process cb t s (drop 4 buf') (of_nat (len - 4)) c1 = Ret (e, c') \<Longrightarrow> R c c'"
    and R_txseq: "R c (c\<lparr>txseq := x\<rparr>)"
    and R_junk: "R a b \<Longrightarrow> junk b = junk a"
begin

definition acked :: "u32 \<Rightarrow> u32 \<Rightarrow> 'e agvcp_conn \<Rightarrow> bool" where
  "acked t s c \<longleftrightarrow> (\<exists>c0 buf len buf' c1. R c c0 \<and> agv_rx_msg buf c0 = Ret (Inr (t, s, len), buf', c1))"

lemma acked_R: "R c c' \<Longrightarrow> acked t s c' \<Longrightarrow> acked t s c"
  unfolding acked_def using R_trans by blast

lemma wait_polls_R: "wait_polls cb t s n buf c = Ret (r, c') \<Longrightarrow> length buf = AGVCP_MAXMSG_SIZE \<Longrightarrow> R c c' \<and> (r \<longrightarrow> acked t s c)"
proof (induction n arbitrary: buf c)
  case 0
  then show ?case by (simp add: R_refl)
next
  case (Suc n)
  obtain c1 where c1: "dly10 c = Ret c1" using Suc.prems by auto
  obtain q buf1 c2 where c2: "agv_rx_msg buf c1 = Ret (q, buf1, c2)" using Suc.prems c1 by auto
  note R1 = R_dly10 [OF c1]
  note rx = R_rx [OF c2 Suc.prems(2)]
  have R2: "R c c2" using R1 rx R_trans by blast
  have rest: ?case if "wait_polls cb t s n buf1 d = Ret (r, c')" "R c d" for d
    using Suc.IH [OF that(1)] rx that(2) R_trans acked_R by blast
  show ?case
  proof (cases q)
    case (Inl e)
    then show ?thesis using Suc.prems c1 c2 rest [OF _ R2] by simp
  next
    case (Inr m)
    obtain mt ms len where m: "m = (mt, ms, len)" by (cases m)
    consider (ack) "mt = t \<and> ms = s" | (drop) "\<not> (mt = t \<and> ms = s)" "\<not> (4 < len \<and> of_be32 buf1 = agvid c2)"
      | (msg) "\<not> (mt = t \<and> ms = s)" "4 < len \<and> of_be32 buf1 = agvid c2" by blast
    then show ?thesis
    proof cases
      case ack
      then have "acked t s c" unfolding acked_def using R1 c2 Inr m by blast
      then show ?thesis using Suc.prems c1 c2 Inr m R2 ack by auto
    next
      case drop
      then have "wait_polls cb t s n buf1 c2 = Ret (r, c')" using Suc.prems c1 c2 Inr m by (auto split: if_splits)
      then show ?thesis by (rule rest [OF _ R2])
    next
      case msg
      then obtain q2 c3 where p: "agvcp_msg_process cb mt ms (drop 4 buf1) (of_nat (len - 4)) c2 = Ret (q2, c3)"
        "wait_polls cb t s n buf1 c3 = Ret (r, c')"
        using Suc.prems c1 c2 Inr m by (auto split: if_splits)
      have "R c1 c3" using R_take [OF c2 [unfolded Inr m] Suc.prems(2) _ _ p(1)] msg(2) by blast
      then show ?thesis using rest [OF p(2)] R1 R_trans by blast
    qed
  qed
qed

lemma send_loop_R':
  "send_loop cb' t s msg forever n c = Ret (r, c') \<Longrightarrow> length (junk c) = AGVCP_MAXMSG_SIZE \<Longrightarrow> own t \<Longrightarrow> cb' = cb \<Longrightarrow>
     R c c' \<and> (r \<longrightarrow> acked t s c)"
proof (induction cb' t s msg forever n c rule: send_loop.induct)
  case (1 cb' t s msg forever n c)
  note cb = \<open>cb' = cb\<close> and own = \<open>own t\<close>
  let ?c1 = "snd (agv_tx_msg t s msg c)"
  obtain r1 c2 where w: "wait_ack cb' t s 1000 ?c1 = Ret (r1, c2)"
    using 1(3) by (subst (asm) send_loop.simps) (auto simp: Let_def)
  have "length (junk ?c1) = 512" using 1(4) by simp
  then have "R ?c1 c2 \<and> (r1 \<longrightarrow> acked t s ?c1)" using wait_polls_R w unfolding wait_ack_def cb by blast
  then have R2: "R c c2" "r1 \<longrightarrow> acked t s c" using R_tx [OF own] R_trans acked_R by blast+
  then have j2: "length (junk c2) = 512" using R_junk 1(4) by simp
  have "(if r1 then Ret (True, c2\<lparr>txseq := txseq c2 + 1\<rparr>)
       else if forever then if inbox ?c1 = [] then Hang else send_loop cb' t s msg forever n c2
       else if 0 < n - 1 then send_loop cb' t s msg forever (n - 1) c2 else Ret (False, c2)) = Ret (r, c')"
    using 1(3) w by (subst (asm) send_loop.simps) (simp add: Let_def)
  then show ?case
    using 1(1) [OF refl w refl _ _ _ _ j2 own cb] 1(2) [OF refl w refl _ _ _ _ j2 own cb] R2 R_txseq R_trans acked_R
    by (auto split: if_splits)
qed

lemmas send_loop_R = send_loop_R' [OF _ _ _ refl]

end

text \<open>When receiving and processing can be looked at apart, and every message may be sent:\<close>

locale conn_rel =
  fixes cb :: "'e agvcp_cb" and R :: "'e agvcp_conn \<Rightarrow> 'e agvcp_conn \<Rightarrow> bool"
  assumes R_refl: "R c c"
    and R_trans: "R a b \<Longrightarrow> R b d \<Longrightarrow> R a d"
    and R_dly10: "dly10 c = Ret c' \<Longrightarrow> R c c'"
    and R_rx: "agv_rx_msg buf c = Ret (r, buf', c') \<Longrightarrow> length buf = AGVCP_MAXMSG_SIZE \<Longrightarrow>
      R c c' \<and> length buf' = AGVCP_MAXMSG_SIZE \<and> (\<forall>t s n. r = Inr (t, s, n) \<longrightarrow> n \<le> AGVCP_MAXMSG_SIZE)"
    and R_tx: "R c (snd (agv_tx_msg t s m c))"
    and R_msg: "agvcp_msg_process cb t s buf len c = Ret (e, c') \<Longrightarrow> len_ok buf len \<Longrightarrow> R c c'"
    and R_txseq: "R c (c\<lparr>txseq := x\<rparr>)"
    and R_junk: "R a b \<Longrightarrow> junk b = junk a"

lemma len_ok_rx: "n \<le> AGVCP_MAXMSG_SIZE \<Longrightarrow> length buf = AGVCP_MAXMSG_SIZE \<Longrightarrow> len_ok (drop 4 buf) (of_nat (n - 4))"
proof -
  assume n: "n \<le> 512" "length buf = 512"
  have "unat (of_nat (n - 4) :: u32) = n - 4" using n by (simp add: unat_of_nat take_bit_nat_eq_self)
  moreover have "n - 4 \<le> 508" using n by linarith
  ultimately show ?thesis using n by (simp add: len_ok_def)
qed

sublocale conn_rel \<subseteq> steps: conn_steps cb "\<lambda>_. True" R
proof
  fix c c1 c' buf buf' t s len e
  assume "agv_rx_msg buf c = Ret (Inr (t, s, len), buf', c1)" "length buf = 512"
    and p: "agvcp_msg_process cb t s (drop 4 buf') (of_nat (len - 4)) c1 = Ret (e, c')"
  from R_rx [OF this(1,2)] have "R c c1" "length buf' = 512" "len \<le> 512" by simp_all
  then show "R c c'" using R_msg [OF p] len_ok_rx R_trans by blast
qed (fact R_refl R_trans R_dly10 R_rx R_tx R_txseq R_junk | rule R_refl R_dly10 R_rx R_tx R_txseq R_junk; assumption | blast intro: R_trans)+

text \<open>The actions already buffered stay, in their order; the invariant is kept.\<close>

definition act_grow :: "nat list \<Rightarrow> 'e agvcp_conn \<Rightarrow> 'e agvcp_conn \<Rightarrow> bool" where
  "act_grow held c c' \<longleftrightarrow> junk c' = junk c
     \<and> (conn_ok held c \<longrightarrow> conn_ok held c' \<and> prefix (act_data c) (act_data c'))"

lemma msg_process_grow:
  assumes "agvcp_msg_process cb t s buf len c = Ret (r, c')" "len_ok buf len"
  shows "act_grow held c c'"
proof -
  have j: "junk c' = junk c" using msg_process_frame [OF assms(1)] by (simp add: conn_frame_def)
  have "prefix (act_data c) (act_data c')" if ok: "conn_ok held c"
  proof (cases "t = MSG_ACTION \<and> of_be32 (drop 4 buf) + 8 = len \<and> \<not> is_repeat s c")
    case True
    have "act_ok held c" using ok by (simp add: conn_ok_def)
    obtain q c1 where b: "buffer_msg t s buf len c = Ret (q, c1)" "prefix (act_data c) (act_data c1)"
      using buffer_msg_ok [OF \<open>act_ok held c\<close>, of len buf t s] assms(2) by (auto simp: len_ok_def)
    have "act_data c' = act_data c1"
      using assms(1) True b(1) by (auto simp: agvcp_msg_process_def Let_def act_data_def agv_tx_msg_frame split: if_splits)
    then show ?thesis using b by simp
  next
    case False
    then have "act_data c' = act_data c"
      using assms(1)
      by (auto simp: agvcp_msg_process_def Let_def act_data_def agv_tx_msg_frame case_prod_unfold
          split: if_splits option.splits)
    then show ?thesis by simp
  qed
  moreover have "conn_ok held c'" if "conn_ok held c"
    using msg_process_ok [OF that assms(2), of cb t s] assms(1) by auto
  ultimately show ?thesis using j by (simp add: act_grow_def)
qed

interpretation grow: conn_rel cb "act_grow held"
proof
  fix c c' :: "'a agvcp_conn" and buf r buf' t s m x len e
  show "act_grow held c c" by (simp add: act_grow_def)
  show "act_grow held c (snd (agv_tx_msg t s m c))"
    by (simp add: act_grow_def act_data_def agv_tx_msg_frame)
  show "act_grow held c (c\<lparr>txseq := x\<rparr>)" by (simp add: act_grow_def act_data_def)
  show "act_grow held c c'" if "dly10 c = Ret c'"
    using that dly10_frame [OF that] dly10_rx [of c]
    by (auto simp: act_grow_def conn_frame_def conn_ok_def act_ok_def act_data_def)
  show "act_grow held c c'" if "agvcp_msg_process cb t s buf len c = Ret (e, c')" "len_ok buf len"
    using that by (rule msg_process_grow)
  assume rx: "agv_rx_msg buf c = Ret (r, buf', c')" and len: "length buf = 512"
  have "act_grow held c c'"
    using agv_rx_msg_frame [OF rx] agv_rx_msg_ok [of c buf] rx
    by (auto simp: act_grow_def conn_frame_def conn_ok_def act_ok_def act_data_def)
  moreover have "length buf' = 512" "\<forall>t s n. r = Inr (t, s, n) \<longrightarrow> n \<le> 512"
    using rx len by (auto simp: agv_rx_msg_def Let_def split: if_splits)
  ultimately show "act_grow held c c' \<and> length buf' = 512 \<and> (\<forall>t s n. r = Inr (t, s, n) \<longrightarrow> n \<le> 512)"
    by blast
qed (auto simp: act_grow_def intro: prefix_order.trans)

text \<open>With callbacks that only read the vehicle's state, waiting does not change it.\<close>

definition cb_pure :: "'e agvcp_cb \<Rightarrow> bool" where
  "cb_pure cb \<longleftrightarrow> (\<forall>f i v e. write_param cb = Some f \<longrightarrow> f i v e = e)
     \<and> (\<forall>f i e. read_param cb = Some f \<longrightarrow> snd (f i e) = e)"

definition agv_same :: "'e agvcp_cb \<Rightarrow> 'e agvcp_conn \<Rightarrow> 'e agvcp_conn \<Rightarrow> bool" where
  "agv_same cb c c' \<longleftrightarrow> junk c' = junk c \<and> (cb_pure cb \<longrightarrow> agv c' = agv c)"

lemma msg_process_agv:
  assumes "agvcp_msg_process cb t s buf len c = Ret (r, c')"
  shows "agv_same cb c c'"
proof -
  have "junk c' = junk c" using msg_process_frame [OF assms(1)] by (simp add: conn_frame_def)
  moreover have "agv c' = agv c" if "cb_pure cb"
    using assms that buffer_msg_frame
    by (fastforce simp: agvcp_msg_process_def Let_def agv_tx_msg_frame case_prod_unfold cb_pure_def
        split: if_splits option.splits)
  ultimately show ?thesis by (simp add: agv_same_def)
qed

interpretation same: conn_rel cb "agv_same cb"
proof
  fix c c' :: "'a agvcp_conn" and buf r buf' t s m x len e
  show "agv_same cb c c'" if "dly10 c = Ret c'"
    using dly10_frame [OF that] by (auto simp: agv_same_def conn_frame_def)
  show "agv_same cb c c'" if "agvcp_msg_process cb t s buf len c = Ret (e, c')" "len_ok buf len"
    using that(1) by (rule msg_process_agv)
  assume rx: "agv_rx_msg buf c = Ret (r, buf', c')" and len: "length buf = 512"
  have "agv_same cb c c'" using agv_rx_msg_frame [OF rx] by (auto simp: agv_same_def conn_frame_def)
  moreover have "length buf' = 512" "\<forall>t s n. r = Inr (t, s, n) \<longrightarrow> n \<le> 512"
    using rx len by (auto simp: agv_rx_msg_def Let_def split: if_splits)
  ultimately show "agv_same cb c c' \<and> length buf' = 512 \<and> (\<forall>t s n. r = Inr (t, s, n) \<longrightarrow> n \<le> 512)"
    by blast
qed (auto simp: agv_same_def agv_tx_msg_frame)

end
