(* ===== verification/Agvcp_Log.thy ===== *)
theory Agvcp_Log
  imports Agvcp
begin

text \<open>
  What the vehicle takes from the server while it sends: the datagrams that wait or are still to
  arrive (\<open>incoming\<close>), and the log of those it accepts. While it waits for an acknowledgement it may
  accept requests; every one comes from a datagram of its own, in the order of arrival, none but
  a read has the number of the one accepted before it (0 apart), the actions among them and only they are
  buffered, and the vehicle answers an action only when it accepts it or has accepted it
  before. And a send does not end before its acknowledgement has been read.
\<close>

section \<open>Datagrams read\<close>

lemma of_be32_take: "4 \<le> n \<Longrightarrow> of_be32 (take n bs) = of_be32 bs"
proof -
  assume "4 \<le> n"
  then obtain k where "n = 4 + k" by (auto simp: le_iff_add)
  then have k: "n = Suc (Suc (Suc (Suc k)))" by simp
  show ?thesis unfolding k by (induction bs rule: of_be32.induct) simp_all
qed

lemma agv_rx_msg_empty: "rx_msgs c = [] \<Longrightarrow> agv_rx_msg buf c = Ret (Inl ETIMEDOUT, buf, c)"
  by (simp add: agv_rx_msg_def sock_read_empty)

lemma agv_rx_msg_some:
  assumes "rx_ok c" "rx_msgs c = d # ds" "8 \<le> length d"
  obtains c' where "agv_rx_msg buf c = Ret (Inr (of_be32 d, of_be32 (drop 4 d), min (length buf) (length d - 8)),
      Prelude.splice 0 (take (min (length buf) (length d - 8)) (drop 8 d)) buf, c')"
    "rx_ok c'" "rx_msgs c' = ds"
proof -
  obtain c' where c': "sock_read AGVCP_MAXMSG_SIZE c = Ret (Inr d, c')" "rx_ok c'" "rx_msgs c' = ds"
    by (rule sock_read_msg [OF assms(1,2)])
  have "(if length buf < length d - 8 then length buf else length d - 8) = min (length buf) (length d - 8)"
    by (simp add: min_def)
  then show thesis using that c' assms(3) by (simp add: agv_rx_msg_def Let_def)
qed

definition incoming :: "'e agvcp_conn \<Rightarrow> bytes list" where
  "incoming c = rx_msgs c @ concat (inbox c)"

lemma incoming_tx [simp]: "incoming (snd (agv_tx_msg t s m c)) = incoming c"
  by (simp add: incoming_def rx_msgs_def agv_tx_msg_frame)

lemma incoming_upd [simp]:
  "incoming (c\<lparr>rxseq := x\<rparr>) = incoming c" "incoming (c\<lparr>agv := e\<rparr>) = incoming c" "incoming (c\<lparr>txseq := y\<rparr>) = incoming c"
  "incoming (c\<lparr>action_que := q\<rparr>) = incoming c" "incoming (c\<lparr>action_mem := m\<rparr>) = incoming c"
  by (simp_all add: incoming_def rx_msgs_def)

lemma deliver_incoming: "rx_ok c \<Longrightarrow> deliver ds c = Ret c' \<Longrightarrow> rx_ok c' \<and> subseq (rx_msgs c') (rx_msgs c @ ds)"
proof (induction ds arbitrary: c)
  case (Cons d ds)
  obtain c1 where c1: "sock_async_rxcallback d c = Ret c1" "rx_ok c1"
    "rx_msgs c1 = (if length d \<le> 512 \<and> mem_free (rxmem c) \<noteq> [] then rx_msgs c @ [d] else rx_msgs c)"
    using sock_async_rx [OF Cons.prems(1), of d] by blast
  have "rx_ok c'" "subseq (rx_msgs c') (rx_msgs c1 @ ds)" using Cons.IH [OF c1(2)] Cons.prems(2) c1(1) by simp_all
  moreover have "subseq (rx_msgs c @ ds) (rx_msgs c @ d # ds)" by (rule list_emb_append_mono) (simp_all add: list_emb_Cons)
  then have "subseq (rx_msgs c1 @ ds) (rx_msgs c @ d # ds)" using c1(3) by simp
  ultimately show ?case using subseq_order.trans by blast
qed simp

lemma dly10_incoming:
  assumes "rx_ok c" "dly10 c = Ret c'"
  shows "rx_ok c'" "subseq (incoming c') (incoming c)"
proof -
  have "rx_ok c' \<and> subseq (incoming c') (incoming c)"
  proof (cases "inbox c")
    case Nil
    then show ?thesis using assms by (simp add: dly10_def)
  next
    case (Cons ds rest)
    let ?c = "c\<lparr>inbox := rest\<rparr>"
    have d: "deliver ds ?c = Ret c'" "rx_ok ?c" "rx_msgs ?c = rx_msgs c"
      using assms Cons by (simp_all add: dly10_def rx_ok_def rx_msgs_def)
    have i: "inbox c' = rest" using deliver_frame [OF d(1)] by simp
    have "rx_ok c'" "subseq (rx_msgs c') (rx_msgs c @ ds)" using deliver_incoming [OF d(2,1)] d(3) by simp_all
    then have "subseq (rx_msgs c' @ concat rest) ((rx_msgs c @ ds) @ concat rest)" by (intro list_emb_append_mono subseq_order.refl)
    then show ?thesis using \<open>rx_ok c'\<close> i by (simp add: incoming_def Cons)
  qed
  then show "rx_ok c'" "subseq (incoming c') (incoming c)" by auto
qed

text \<open>A message that is read is the oldest datagram, which has at least the eight bytes of the header.\<close>

lemma agv_rx_msg_read:
  assumes "rx_ok c" "agv_rx_msg buf c = Ret (Inr (t, s, len), buf', c')"
  obtains d where "incoming c = d # incoming c'" "8 \<le> length d" "length d \<le> AGVCP_MAXMSG_SIZE" "t = of_be32 d" "s = of_be32 (drop 4 d)"
    "len = min (length buf) (length d - 8)" "buf' = Prelude.splice 0 (take len (drop 8 d)) buf" "rx_ok c'"
proof (cases "rx_msgs c")
  case Nil
  then show thesis using assms(2) by (simp add: agv_rx_msg_empty)
next
  case (Cons d ds)
  have l: "8 \<le> length d"
  proof (rule ccontr)
    assume "\<not> 8 \<le> length d"
    moreover obtain c1 where "sock_read AGVCP_MAXMSG_SIZE c = Ret (Inr d, c1)" by (rule sock_read_msg [OF assms(1) Cons])
    ultimately show False using assms(2) by (simp add: agv_rx_msg_def)
  qed
  obtain c1 where c1: "agv_rx_msg buf c = Ret (Inr (of_be32 d, of_be32 (drop 4 d), min (length buf) (length d - 8)),
      Prelude.splice 0 (take (min (length buf) (length d - 8)) (drop 8 d)) buf, c1)" "rx_ok c1" "rx_msgs c1 = ds"
    by (rule agv_rx_msg_some [OF assms(1) Cons l])
  moreover have "length d \<le> 512" by (rule sock_read_msg [OF assms(1) Cons])
  moreover have "inbox c1 = inbox c" using agv_rx_msg_frame [OF c1(1)] by simp
  ultimately show thesis using that [of d] l Cons assms(2) by (simp add: incoming_def)
qed

lemma agv_rx_msg_incoming:
  assumes "rx_ok c" "agv_rx_msg buf c = Ret (r, buf', c')"
  shows "rx_ok c'" "subseq (incoming c') (incoming c)"
proof -
  have i: "inbox c' = inbox c" using agv_rx_msg_frame [OF assms(2)] by simp
  have "rx_ok c' \<and> subseq (rx_msgs c') (rx_msgs c)"
  proof (cases "rx_msgs c")
    case Nil
    then show ?thesis using assms by (simp add: agv_rx_msg_empty)
  next
    case (Cons d ds)
    obtain c1 where "sock_read AGVCP_MAXMSG_SIZE c = Ret (Inr d, c1)" "rx_ok c1" "rx_msgs c1 = ds"
      by (rule sock_read_msg [OF assms(1) Cons])
    then show ?thesis using assms(2) Cons by (auto simp: agv_rx_msg_def Let_def split: if_splits)
  qed
  then show "rx_ok c'" "subseq (incoming c') (incoming c)" using i by (auto simp: incoming_def intro: list_emb_append_mono)
qed

section \<open>The log of the accepted requests\<close>

text \<open>A request: type, number and what follows the vehicle's name.\<close>

type_synonym request = "u32 \<times> u32 \<times> bytes"

definition request :: "bytes \<Rightarrow> request" where
  "request d = (of_be32 d, of_be32 (drop 4 d), drop 12 d)"

text \<open>\<open>fresh r\<close>: no request but a read repeats the number of the one before it, at first \<open>r\<close>; 0 is no number.\<close>

primrec fresh :: "u32 \<Rightarrow> request list \<Rightarrow> bool" where
  "fresh r [] = True"
| "fresh r (m # ms) = ((fst m = MSG_READ_PARAM \<or> fst (snd m) \<noteq> r \<or> fst (snd m) = 0) \<and> fresh (fst (snd m)) ms)"

primrec last_number :: "u32 \<Rightarrow> request list \<Rightarrow> u32" where
  "last_number r [] = r"
| "last_number r (m # ms) = last_number (fst (snd m)) ms"

definition numbers :: "u32 \<Rightarrow> request list \<Rightarrow> u32 set" where
  "numbers r ms = insert r ((fst \<circ> snd) ` set ms)"

definition actions :: "request list \<Rightarrow> request list" where
  "actions ms = filter (\<lambda>m. fst m = MSG_ACTION) ms"

definition action_answer :: "u32 \<Rightarrow> u32 \<Rightarrow> bytes" where
  "action_answer name s = be32 MSG_ACTION @ be32 s @ be32 name"

lemma fresh_append: "fresh r (ms @ ns) \<longleftrightarrow> fresh r ms \<and> fresh (last_number r ms) ns"
  by (induction ms arbitrary: r) auto

lemma last_number_append: "last_number r (ms @ ns) = last_number (last_number r ms) ns"
  by (induction ms arbitrary: r) auto

lemma last_number_in: "last_number r ms \<in> numbers r ms"
  by (induction ms arbitrary: r) (auto simp: numbers_def)

lemma numbers_append: "numbers r ms \<subseteq> numbers r (ms @ ns)" "numbers (last_number r ms) ns \<subseteq> numbers r (ms @ ns)"
  using last_number_in [of r ms] by (auto simp: numbers_def)

text \<open>\<open>acc\<close> are the datagrams accepted on the way from \<open>c\<close> to \<open>c'\<close>.\<close>

definition accepted :: "'e agvcp_conn \<Rightarrow> 'e agvcp_conn \<Rightarrow> bytes list \<Rightarrow> bool" where
  "accepted c c' acc \<longleftrightarrow> agvid c' = agvid c \<and> subseq (acc @ incoming c') (incoming c)
     \<and> (\<forall>d\<in>set acc. 12 < length d \<and> of_be32 (drop 8 d) = agvid c)
     \<and> fresh (rxseq c) (map request acc) \<and> rxseq c' = last_number (rxseq c) (map request acc)
     \<and> (\<exists>xs. sent c' = sent c @ xs
          \<and> (\<forall>s. action_answer (agvid c) s \<in> set xs \<longrightarrow> s \<in> numbers (rxseq c) (map request acc)))"

lemma accepted_Nil: "agvid c' = agvid c \<Longrightarrow> subseq (incoming c') (incoming c) \<Longrightarrow> rxseq c' = rxseq c \<Longrightarrow> sent c' = sent c \<Longrightarrow> accepted c c' []"
  by (simp add: accepted_def)

lemma accepted_short: "accepted c c' acc \<Longrightarrow> \<forall>d\<in>set (incoming c). length d \<le> 12 \<Longrightarrow> acc = []"
proof (cases acc)
  case (Cons d ds)
  assume a: "accepted c c' acc" "\<forall>d\<in>set (incoming c). length d \<le> 12"
  then have "subseq (d # ds @ incoming c') (incoming c)" "12 < length d" using Cons by (simp_all add: accepted_def)
  moreover from this have "d \<in> set (incoming c)" by (auto dest: list_emb_set [where x = d])
  ultimately show ?thesis using a(2) by auto
qed

lemma accepted_trans:
  assumes "accepted a b l1" "accepted b c l2" shows "accepted a c (l1 @ l2)"
proof -
  obtain xs ys where xs: "sent b = sent a @ xs" "\<forall>s. action_answer (agvid a) s \<in> set xs \<longrightarrow> s \<in> numbers (rxseq a) (map request l1)"
    and ys: "sent c = sent b @ ys" "\<forall>s. action_answer (agvid b) s \<in> set ys \<longrightarrow> s \<in> numbers (rxseq b) (map request l2)"
    using assms by (auto simp: accepted_def)
  have f: "agvid b = agvid a" "agvid c = agvid a" "rxseq b = last_number (rxseq a) (map request l1)"
    using assms by (simp_all add: accepted_def)
  have "subseq (l1 @ (l2 @ incoming c)) (l1 @ incoming b)"
    by (rule list_emb_append_mono) (use assms(2) in \<open>simp_all add: accepted_def\<close>)
  then have sub: "subseq ((l1 @ l2) @ incoming c) (incoming a)" using assms(1) subseq_order.trans by (fastforce simp: accepted_def)
  have ans: "s \<in> numbers (rxseq a) (map request (l1 @ l2))" if "action_answer (agvid a) s \<in> set (xs @ ys)" for s
    using that xs(2) ys(2) f numbers_append [of "rxseq a" "map request l1" "map request l2"] by auto
  have "sent c = sent a @ xs @ ys" using xs(1) ys(1) by simp
  then have "\<exists>zs. sent c = sent a @ zs \<and> (\<forall>s. action_answer (agvid a) s \<in> set zs \<longrightarrow> s \<in> numbers (rxseq a) (map request (l1 @ l2)))"
    using ans by blast
  then show ?thesis
    using assms f sub unfolding accepted_def by (auto simp: fresh_append last_number_append)
qed

section \<open>What processing a message does to it\<close>

lemma answer_types: "be32 t @ rest = action_answer name s \<Longrightarrow> t = MSG_ACTION"
  by (metis action_answer_def append_eq_append_conv be32_inj length_be32)

lemma answer_number: "action_answer name s = be32 MSG_ACTION @ be32 n @ rest \<Longrightarrow> s = n"
  by (metis action_answer_def append_eq_append_conv be32_inj length_be32)

lemma sent_tx: "sent (snd (agv_tx_msg t s m c)) = sent c @ (if AGVCP_MAXMSG_SIZE \<le> length m + 8 then [] else [be32 t @ be32 s @ m])"
  by (simp add: agv_tx_msg_def sock_write_def)

lemma tx_answers:
  "\<exists>xs. sent (snd (agv_tx_msg t s m c)) = sent c @ xs \<and> (\<forall>n. action_answer name n \<in> set xs \<longrightarrow> t = MSG_ACTION \<and> n = s)"
  using answer_types [of t _ name] answer_number [of name _ s m]
  by (auto simp: agv_tx_msg_def sock_write_def) metis+

lemma msg_process_rx:
  assumes "agvcp_msg_process cb t s buf len c = Ret (r, c')"
  shows "incoming c' = incoming c" "rx_ok c' = rx_ok c" "rx_msgs c' = rx_msgs c" "rxmem c' = rxmem c"
proof -
  have "rxq c' = rxq c \<and> rxmem c' = rxmem c \<and> inbox c' = inbox c"
    using assms by (auto simp: agvcp_msg_process_def Let_def agv_tx_msg_def sock_write_def buffer_msg_def case_prod_unfold
        split: if_splits option.splits)
  then show "incoming c' = incoming c" "rx_ok c' = rx_ok c" "rx_msgs c' = rx_msgs c" "rxmem c' = rxmem c" by (simp_all add: incoming_def rx_msgs_def rx_ok_def)
qed

text \<open>A request is accepted, and then its number remembered, or nothing but an answer to a repetition happens.\<close>

lemma msg_process_log:
  assumes "conn_ok held c" "len_ok buf len" "agvcp_msg_process cb t s buf len c = Ret (r, c')"
  shows "if r = None
    then (t = MSG_READ_PARAM \<or> s \<noteq> rxseq c \<or> s = 0) \<and> rxseq c' = s
      \<and> act_msgs c' = act_msgs c @ actions [(t, s, take (unat len) buf)]
    else rxseq c' = rxseq c \<and> act_msgs c' = act_msgs c"
    "\<exists>xs. sent c' = sent c @ xs \<and> (\<forall>n. action_answer (agvid c) n \<in> set xs \<longrightarrow> n = s \<and> (r = None \<or> s = rxseq c))"
proof -
  have "(if r = None
    then (t = MSG_READ_PARAM \<or> s \<noteq> rxseq c \<or> s = 0) \<and> rxseq c' = s
      \<and> act_msgs c' = act_msgs c @ actions [(t, s, take (unat len) buf)]
    else rxseq c' = rxseq c \<and> act_msgs c' = act_msgs c)
    \<and> (\<exists>xs. sent c' = sent c @ xs \<and> (\<forall>n. action_answer (agvid c) n \<in> set xs \<longrightarrow> n = s \<and> (r = None \<or> s = rxseq c)))"
  proof (cases "t = MSG_ACTION")
    case True
    then show ?thesis
      using process_action [OF assms(1,2), of cb s] assms(3) answer_number
      by (auto simp: is_repeat_def actions_def split: if_splits)
  next
    case False
    then have m: "act_msgs c' = act_msgs c" using process_other_ok [OF assms(1) False, of cb s buf len] assms(3) by auto
    have no: "action_answer name n \<noteq> be32 t @ rest" for name n rest using answer_types [of t rest name n] False by metis
    have "\<exists>xs. sent c' = sent c @ xs \<and> (\<forall>n. action_answer (agvid c) n \<notin> set xs)"
      using assms(3) False no
      by (auto simp: agvcp_msg_process_def Let_def case_prod_unfold sent_tx split: if_splits option.splits)
    moreover have "if r = None then (t = MSG_READ_PARAM \<or> s \<noteq> rxseq c \<or> s = 0) \<and> rxseq c' = s else rxseq c' = rxseq c"
      using assms(3) False
      by (auto simp: agvcp_msg_process_def Let_def case_prod_unfold is_repeat_def agv_tx_msg_frame split: if_splits option.splits)
    ultimately show ?thesis using m False by (auto simp: actions_def)
  qed
  then show "if r = None
    then (t = MSG_READ_PARAM \<or> s \<noteq> rxseq c \<or> s = 0) \<and> rxseq c' = s
      \<and> act_msgs c' = act_msgs c @ actions [(t, s, take (unat len) buf)]
    else rxseq c' = rxseq c \<and> act_msgs c' = act_msgs c"
    "\<exists>xs. sent c' = sent c @ xs \<and> (\<forall>n. action_answer (agvid c) n \<in> set xs \<longrightarrow> n = s \<and> (r = None \<or> s = rxseq c))"
    by blast+
qed

section \<open>What a wait and a send take\<close>

definition took :: "nat list \<Rightarrow> 'e agvcp_conn \<Rightarrow> 'e agvcp_conn \<Rightarrow> bool" where
  "took held c c' \<longleftrightarrow> junk c' = junk c \<and> (conn_ok held c \<longrightarrow> conn_ok held c'
     \<and> (\<exists>acc. accepted c c' acc \<and> act_msgs c' = act_msgs c @ actions (map request acc)))"

lemma took_trans: "took held a b \<Longrightarrow> took held b c \<Longrightarrow> took held a c"
  unfolding took_def using accepted_trans by (fastforce simp: actions_def)

lemma took_quiet:
  assumes "junk c' = junk c" "conn_ok held c \<Longrightarrow> conn_ok held c' \<and> accepted c c' [] \<and> act_msgs c' = act_msgs c"
  shows "took held c c'"
  unfolding took_def using assms by (auto simp: actions_def intro!: exI [of _ "[]"])

text \<open>A datagram that is read and processed: accepted it joins the log, otherwise it is gone.\<close>

lemma took_take:
  assumes "agv_rx_msg buf c = Ret (Inr (t, s, len), buf', c1)" "length buf = AGVCP_MAXMSG_SIZE" "4 < len" "of_be32 buf' = agvid c1"
    "agvcp_msg_process cb t s (drop 4 buf') (of_nat (len - 4)) c1 = Ret (e, c')"
  shows "took held c c'"
proof -
  note f = agv_rx_msg_frame [OF assms(1)] and p = msg_process_frame(1) [OF assms(5)]
  have fr: "agvid c1 = agvid c" "junk c1 = junk c" "sent c1 = sent c" "rxseq c1 = rxseq c" "agvid c' = agvid c" "junk c' = junk c"
    using f p by (simp_all add: conn_frame_def)
  have "conn_ok held c' \<and> (\<exists>acc. accepted c c' acc \<and> act_msgs c' = act_msgs c @ actions (map request acc))" if ok: "conn_ok held c"
  proof -
    have rok: "rx_ok c" using ok by (simp add: conn_ok_def)
    obtain d where d: "incoming c = d # incoming c1" "8 \<le> length d" "length d \<le> 512" "t = of_be32 d" "s = of_be32 (drop 4 d)"
      "len = min (length buf) (length d - 8)" "buf' = Prelude.splice 0 (take len (drop 8 d)) buf" "rx_ok c1"
      by (rule agv_rx_msg_read [OF rok assms(1)])
    have ok1: "conn_ok held c1" using ok f d(8) by (simp add: conn_ok_def act_ok_def conn_frame_def)
    have len: "len = length d - 8" "len \<le> 512" using d(3,6) assms(2) by simp_all
    have b: "length buf' = 512" "take len buf' = drop 8 d" using d(7) len assms(2) by (simp_all add: splice_def)
    have u: "unat (of_nat (len - 4) :: u32) = len - 4" using len(2) by (simp add: unat_of_nat take_bit_nat_eq_self)
    have "take (len - 4) (drop 4 buf') = drop 4 (take len buf')" by (simp add: drop_take)
    also have "\<dots> = drop 12 d" unfolding b(2) by simp
    finally have par: "take (len - 4) (drop 4 buf') = drop 12 d" .
    have "of_be32 buf' = of_be32 (drop 8 d)" using of_be32_take [of len buf'] assms(3) b(2) by simp
    then have name: "of_be32 (drop 8 d) = agvid c" using assms(4) fr(1) by simp
    note lok = len_ok_rx [OF len(2) b(1)]
    note m = msg_process_log [OF ok1 lok assms(5), unfolded u par fr]
    have "conn_ok held c'" using msg_process_ok [OF ok1 lok, of cb t s] assms(5) by auto
    moreover have "act_msgs c1 = act_msgs c" using f by (simp add: act_msgs_def act_data_def)
    moreover note i = msg_process_rx(1) [OF assms(5)]
    moreover have "12 < length d" using assms(3) len by simp
    moreover have "accepted c c' (if e = None then [d] else [])"
      using m fr d(1,4,5) i name \<open>12 < length d\<close>
      by (auto simp: accepted_def request_def numbers_def list_emb_Cons split: if_splits)
    moreover have "actions (map request (if e = None then [d] else [])) = (if e = None then actions [(t, s, drop 12 d)] else [])"
      using d(4,5) by (simp add: request_def actions_def)
    ultimately show ?thesis using m(1) by (intro conjI exI [of _ "if e = None then [d] else []"]) (auto split: if_splits)
  qed
  then show ?thesis using fr by (simp add: took_def)
qed

interpretation took: conn_steps cb "\<lambda>t. t \<noteq> MSG_ACTION" "took held"
proof
  fix c c' c1 :: "'a agvcp_conn" and buf r buf' t s m x len e
  show "took held c c" "took held c (c\<lparr>txseq := x\<rparr>)" by (rule took_quiet; simp add: accepted_def numbers_def)+
  show "took held a b \<Longrightarrow> took held b d \<Longrightarrow> took held a d" for a b d :: "'a agvcp_conn" by (rule took_trans)
  show "took held a b \<Longrightarrow> junk b = junk a" for a b :: "'a agvcp_conn" by (simp add: took_def)
  show "took held c c'" if "dly10 c = Ret c'"
    using that dly10_frame [OF that] dly10_incoming [OF _ that]
    by (intro took_quiet) (auto simp: conn_frame_def conn_ok_def act_ok_def act_msgs_def act_data_def intro!: accepted_Nil)
  show "took held c (snd (agv_tx_msg t s m c))" if "t \<noteq> MSG_ACTION"
    using that tx_answers [of t s m c "agvid c"]
    by (intro took_quiet) (auto simp: accepted_def agv_tx_msg_frame)
  show "took held c c'" if "agv_rx_msg buf c = Ret (Inr (t, s, len), buf', c1)" "length buf = 512" "4 < len" "of_be32 buf' = agvid c1"
    "agvcp_msg_process cb t s (drop 4 buf') (of_nat (len - 4)) c1 = Ret (e, c')"
    using that by (rule took_take)
  assume rx: "agv_rx_msg buf c = Ret (r, buf', c')" and len: "length buf = 512"
  have "took held c c'"
    using agv_rx_msg_frame [OF rx] agv_rx_msg_incoming [OF _ rx]
    by (intro took_quiet) (auto simp: conn_frame_def conn_ok_def act_ok_def act_msgs_def act_data_def intro!: accepted_Nil)
  moreover have "length buf' = 512" "\<forall>t s n. r = Inr (t, s, n) \<longrightarrow> n \<le> 512"
    using rx len by (auto simp: agv_rx_msg_def Let_def split: if_splits)
  ultimately show "took held c c' \<and> length buf' = 512 \<and> (\<forall>t s n. r = Inr (t, s, n) \<longrightarrow> n \<le> 512)" by blast
qed

section \<open>Acknowledgements\<close>

text \<open>An acknowledgement: a datagram with the type and the number of the message.\<close>

definition is_ack :: "u32 \<Rightarrow> u32 \<Rightarrow> bytes \<Rightarrow> bool" where
  "is_ack t s d \<longleftrightarrow> 8 \<le> length d \<and> of_be32 d = t \<and> of_be32 (drop 4 d) = s"

text \<open>What is read was waiting or arrived, whatever is sent.\<close>

definition heard :: "'e agvcp_conn \<Rightarrow> 'e agvcp_conn \<Rightarrow> bool" where
  "heard c c' \<longleftrightarrow> junk c' = junk c \<and> (rx_ok c \<longrightarrow> rx_ok c' \<and> subseq (incoming c') (incoming c))"

interpretation heard: conn_rel cb heard
proof
  fix c c' :: "'a agvcp_conn" and buf r buf' t s m x len e
  show "heard c c" "heard c (snd (agv_tx_msg t s m c))" "heard c (c\<lparr>txseq := x\<rparr>)"
    by (simp_all add: heard_def rx_ok_def agv_tx_msg_frame)
  show "heard c c'" if "dly10 c = Ret c'"
    using dly10_frame [OF that] dly10_incoming [OF _ that] by (simp add: heard_def conn_frame_def)
  show "heard c c'" if "agvcp_msg_process cb t s buf len c = Ret (e, c')" "len_ok buf len"
    using msg_process_frame [OF that(1)] msg_process_rx [OF that(1)]
    by (simp add: heard_def conn_frame_def)
  assume rx: "agv_rx_msg buf c = Ret (r, buf', c')" and len: "length buf = 512"
  have "heard c c'" using agv_rx_msg_frame [OF rx] agv_rx_msg_incoming [OF _ rx] by (simp add: heard_def conn_frame_def)
  moreover have "length buf' = 512" "\<forall>t s n. r = Inr (t, s, n) \<longrightarrow> n \<le> 512"
    using rx len by (auto simp: agv_rx_msg_def Let_def split: if_splits)
  ultimately show "heard c c' \<and> length buf' = 512 \<and> (\<forall>t s n. r = Inr (t, s, n) \<longrightarrow> n \<le> 512)" by blast
qed (auto simp: heard_def intro: subseq_order.trans)

lemma send_loop_acked:
  assumes "send_loop cb t s msg forever n c = Ret (True, c')" "conn_ok held c"
  shows "\<exists>d\<in>set (incoming c). is_ack t s d"
proof -
  have ok: "rx_ok c" "length (junk c) = 512" using assms(2) by (simp_all add: conn_ok_def)
  obtain c0 buf len buf' c1 where a: "heard c c0" "agv_rx_msg buf c0 = Ret (Inr (t, s, len), buf', c1)"
    using heard.steps.send_loop_R [OF assms(1) ok(2)] unfolding heard.steps.acked_def by blast
  then have acc: "rx_ok c0" "subseq (incoming c0) (incoming c)" using ok by (auto simp: heard_def)
  obtain d where d: "incoming c0 = d # incoming c1" "8 \<le> length d" "t = of_be32 d" "s = of_be32 (drop 4 d)"
    by (rule agv_rx_msg_read [OF acc(1) a(2)])
  have "d \<in> set (incoming c)"
    by (rule list_emb_set [OF acc(2), of d]) (simp_all add: d(1))
  moreover have "is_ack t s d" using d(2-4) by (simp add: is_ack_def)
  ultimately show ?thesis by blast
qed

lemma send_loop_took:
  assumes "send_loop cb t s msg forever n c = Ret (r, c')" "conn_ok held c" "t \<noteq> MSG_ACTION"
  shows "took held c c'"
  using took.send_loop_R [OF assms(1) _ assms(3), of held] assms(2) by (simp add: conn_ok_def)

section \<open>How long a send lasts\<close>

text \<open>
  When nothing waits and nothing but the acknowledgement arrives, after \<open>k\<close> delays of 10 ms,
  it ends the send, which has repeated the message every hundred delays.
\<close>

lemma wait_polls_quiet:
  "rx_msgs c = [] \<Longrightarrow> inbox c = replicate n [] @ rest \<Longrightarrow> wait_polls cb t s n buf c = Ret (False, c\<lparr>inbox := rest\<rparr>)"
proof (induction n arbitrary: c)
  case 0
  then show ?case by simp
next
  case (Suc n)
  let ?c = "c\<lparr>inbox := replicate n [] @ rest\<rparr>"
  have d: "dly10 c = Ret ?c" using Suc.prems(2) by (simp add: dly10_def)
  have e: "rx_msgs ?c = []" using Suc.prems(1) by (simp add: rx_msgs_def)
  show ?case using d Suc.IH [OF e] by (simp add: agv_rx_msg_empty [OF e])
qed

lemma deliver_prefix: "rx_ok c \<Longrightarrow> deliver ds c = Ret c' \<Longrightarrow> prefix (rx_msgs c) (rx_msgs c')"
proof (induction ds arbitrary: c)
  case (Cons d ds)
  obtain c1 where c1: "sock_async_rxcallback d c = Ret c1" "rx_ok c1" "prefix (rx_msgs c) (rx_msgs c1)"
    using sock_async_rx [OF Cons.prems(1), of d] by auto
  then show ?case using Cons.IH [OF c1(2)] Cons.prems(2) prefix_order.trans by auto
qed simp

lemma wait_polls_ack:
  "rx_ok c \<Longrightarrow> rx_msgs c = [] \<Longrightarrow> mem_free (rxmem c) \<noteq> [] \<Longrightarrow> inbox c = replicate k [] @ (d # ds) # rest \<Longrightarrow>
     is_ack t s d \<Longrightarrow> length d \<le> AGVCP_MAXMSG_SIZE \<Longrightarrow> k < n \<Longrightarrow>
     \<exists>c'. wait_polls cb t s n buf c = Ret (True, c') \<and> sent c' = sent c"
proof (induction k arbitrary: c n)
  case 0
  obtain n' where n: "n = Suc n'" using 0 by (cases n) auto
  let ?c = "c\<lparr>inbox := rest\<rparr>"
  have ok: "rx_ok ?c" "rx_msgs ?c = []" "mem_free (rxmem ?c) \<noteq> []"
    using "0.prems" by (simp_all add: rx_ok_def rx_msgs_def)
  obtain c1 where c1: "sock_async_rxcallback d ?c = Ret c1" "rx_ok c1" "rx_msgs c1 = [d]"
    using sock_async_rx [OF ok(1), of d] ok "0.prems" by auto
  obtain c2 where c2: "deliver ds c1 = Ret c2" "rx_ok c2" using deliver_rx [OF c1(2)] by blast
  have dl: "dly10 c = Ret c2" using "0.prems" c1(1) c2(1) by (simp add: dly10_def)
  obtain ms where ms: "rx_msgs c2 = d # ms" using deliver_prefix [OF c1(2) c2(1)] c1(3) by (auto simp: prefix_def)
  have l: "8 \<le> length d" using "0.prems" by (simp add: is_ack_def)
  obtain c3 where "agv_rx_msg buf c2 = Ret (Inr (of_be32 d, of_be32 (drop 4 d), min (length buf) (length d - 8)),
      Prelude.splice 0 (take (min (length buf) (length d - 8)) (drop 8 d)) buf, c3)"
    by (rule agv_rx_msg_some [OF c2(2) ms l])
  then obtain b where c3: "agv_rx_msg buf c2 = Ret (Inr (t, s, min (length buf) (length d - 8)), b, c3)"
    using "0.prems"(5) by (simp add: is_ack_def)
  have "sent c3 = sent c" using dly10_frame [OF dl] agv_rx_msg_frame [OF c3] by simp
  then show ?case using dl c3 n by simp
next
  case (Suc k)
  obtain n' where n: "n = Suc n'" "k < n'" using Suc by (cases n) auto
  let ?c = "c\<lparr>inbox := replicate k [] @ (d # ds) # rest\<rparr>"
  have dl: "dly10 c = Ret ?c" using Suc.prems by (simp add: dly10_def)
  have e: "rx_ok ?c" "rx_msgs ?c = []" "mem_free (rxmem ?c) \<noteq> []"
    using Suc.prems by (simp_all add: rx_msgs_def rx_ok_def)
  obtain c' where "wait_polls cb t s n' buf ?c = Ret (True, c')" "sent c' = sent ?c"
    using Suc.IH [OF e _ Suc.prems(5,6) n(2)] by auto
  then show ?case using n(1) dl by (simp add: agv_rx_msg_empty [OF e(2)])
qed

lemma send_loop_quiet:
  assumes "is_ack t s d" "length d \<le> AGVCP_MAXMSG_SIZE" "length msg + 8 < AGVCP_MAXMSG_SIZE"
  shows "rx_ok c \<Longrightarrow> rx_msgs c = [] \<Longrightarrow> mem_free (rxmem c) \<noteq> [] \<Longrightarrow> inbox c = replicate k [] @ (d # ds) # rest \<Longrightarrow>
     \<exists>c'. send_loop cb t s msg True 0 c = Ret (True, c')
        \<and> sent c' = sent c @ replicate (Suc (k div 100)) (be32 t @ be32 s @ msg)"
proof (induction k arbitrary: c rule: less_induct)
  case (less k)
  let ?c = "snd (agv_tx_msg t s msg c)"
  have c1: "sent ?c = sent c @ [be32 t @ be32 s @ msg]" using assms(3) by (simp add: sent_tx)
  have ok: "rx_ok ?c" "rx_msgs ?c = []" "mem_free (rxmem ?c) \<noteq> []" "inbox ?c = replicate k [] @ (d # ds) # rest"
    using less.prems by (simp_all add: rx_ok_def rx_msgs_def agv_tx_msg_frame)
  show ?case
  proof (cases "k < 100")
    case True
    obtain c' where "wait_polls cb t s 100 (junk ?c) ?c = Ret (True, c')" "sent c' = sent ?c"
      using wait_polls_ack [OF ok assms(1,2) True] by blast
    then show ?thesis using True c1 by (subst send_loop.simps) (simp add: wait_ack_def Let_def)
  next
    case False
    let ?rest = "replicate (k - 100) [] @ (d # ds) # rest"
    have i: "inbox ?c = replicate 100 [] @ ?rest" using ok(4) False by (simp add: replicate_add [symmetric] flip: append_assoc)
    let ?c2 = "?c\<lparr>inbox := ?rest\<rparr>"
    have w: "wait_polls cb t s 100 (junk ?c) ?c = Ret (False, ?c2)" by (rule wait_polls_quiet [OF ok(2) i])
    have ok2: "rx_ok ?c2" "rx_msgs ?c2 = []" "mem_free (rxmem ?c2) \<noteq> []" "inbox ?c2 = ?rest"
      using ok by (simp_all add: rx_ok_def rx_msgs_def)
    obtain c' where c': "send_loop cb t s msg True 0 ?c2 = Ret (True, c')"
      "sent c' = sent ?c2 @ replicate (Suc ((k - 100) div 100)) (be32 t @ be32 s @ msg)"
      using less.IH [OF _ ok2] False by auto
    have "send_loop cb t s msg True 0 c = send_loop cb t s msg True 0 ?c2"
      using w ok(4) by (subst send_loop.simps) (simp add: wait_ack_def Let_def)
    moreover have "k div 100 = Suc ((k - 100) div 100)" using False by (simp add: le_div_geq)
    ultimately show ?thesis using c' c1 by simp
  qed
qed

end
