(* ===== verification/Agvcp_Conn.thy ===== *)
theory Agvcp_Conn
  imports Agvcp_Log
begin

text \<open>
  The upper half of \<open>usr/application/agvcp.c\<close>: the reports the vehicle sends, the handling
  of buffered actions, the loop of the connection and the session around it (register,
  serve, unregister). A report ends when it is acknowledged; the loop is one step per
  round, with the time it reads and the disconnect flag as inputs.
\<close>

section \<open>Reports\<close>

fun get_agvcp_attitude :: "work_state \<Rightarrow> motion_state \<Rightarrow> u32" where
  "get_agvcp_attitude wkst motst =
     (if wkst = AGV_WKSTATE_ERROR then 3
      else if wkst = AGV_WKSTATE_CHARGING then 2
      else if wkst = AGV_WKSTATE_MOVING then 1
      else 0)"

fun get_agvcp_motion_state :: "work_state \<Rightarrow> motion_state \<Rightarrow> u32" where
  "get_agvcp_motion_state wkst motst =
     (if wkst = AGV_WKSTATE_CHARGING then 7
      else if motst = MOTIONSTATE_GOSTRAIGHT then 3
      else if motst = MOTIONSTATE_TRUNLEFT then 4
      else if motst = MOTIONSTATE_TRUNRIGHT then 5
      else if motst = MOTIONSTATE_UNLOADING then 6
      else 2)"

fun get_agvcp_agv_state :: "work_state \<Rightarrow> motion_state \<Rightarrow> u32" where
  "get_agvcp_agv_state wkst motst = (if wkst = AGV_WKSTATE_CHARGING then 2 else 0)"

definition get_agvcp_err :: "u8 \<Rightarrow> u32" where
  "get_agvcp_err e =
     (if e = 1 then 6 else if e = 2 then 7 else if e = 6 then 3004 else if e = 3 then 8
      else if e = 4 then 9 else if e = 7 then 4004 else if e = 8 then 13 else if e = 9 then 14 else 0)"

definition get_status :: "'e agvcp_cb \<Rightarrow> 'e agvcp_conn \<Rightarrow> agv_status \<times> 'e agvcp_conn" where
  "get_status cb c = (case get_status_callback cb (agv c) of (st, e) \<Rightarrow> (st, c\<lparr>agv := e\<rparr>))"

definition agv_register_device :: "'e agvcp_cb \<Rightarrow> 'e agvcp_conn \<Rightarrow> (perr option \<times> 'e agvcp_conn) outcome" where
  "agv_register_device cb c =
     (case get_status cb c of (st, c1) \<Rightarrow>
        agv_send_msg cb MSG_REGISTER
          (be32 (agvid c1) @ be32 (mi_point (mtstate st)) @ be32 (mi_direction (mtstate st))
           @ be32 (get_agvcp_agv_state (work_state st) (mi_state (mtstate st)))) 1 c1)"

definition agv_unregister_device :: "'e agvcp_cb \<Rightarrow> 'e agvcp_conn \<Rightarrow> (perr option \<times> 'e agvcp_conn) outcome" where
  "agv_unregister_device cb c =
     (case get_status cb c of (st, c1) \<Rightarrow>
        agv_send_msg cb MSG_UNREGISTER
          (be32 (agvid c1) @ be32 (mi_point (mtstate st))
           @ be32 (get_agvcp_agv_state (work_state st) (mi_state (mtstate st)))) 1 c1)"

definition heartbeat_msg :: "u32 \<Rightarrow> agv_status \<Rightarrow> bytes" where
  "heartbeat_msg name st =
     be32 name @ be32 (battery st) @ be32 (mi_speed (mtstate st)) @ be32 (mi_direction (mtstate st))
     @ be32 (mi_point (mtstate st))
     @ be32 (get_agvcp_attitude (work_state st) (mi_state (mtstate st)))
     @ be32 (mi_x_deviation (mtstate st)) @ be32 (mi_y_deviation (mtstate st))
     @ be32 (mi_dir_deviation (mtstate st))
     @ be32 (get_agvcp_motion_state (work_state st) (mi_state (mtstate st)))"

definition agv_send_heartbeat :: "'e agvcp_cb \<Rightarrow> 'e agvcp_conn \<Rightarrow> (perr option \<times> 'e agvcp_conn) outcome" where
  "agv_send_heartbeat cb c =
     (case get_status cb c of (st, c1) \<Rightarrow> agv_send_msg cb MSG_HEARTBEAT (heartbeat_msg (agvid c1) st) 1 c1)"

definition agv_send_naviinfo :: "'e agvcp_cb \<Rightarrow> u32 \<Rightarrow> u32 \<Rightarrow> 'e agvcp_conn \<Rightarrow>
    (perr option \<times> 'e agvcp_conn) outcome" where
  "agv_send_naviinfo cb position dir c =
     agv_send_msg cb MSG_REPORT_FLAGPOINT (be32 (agvid c) @ be32 position @ be32 dir) 0 c"

definition agv_send_action_over :: "'e agvcp_cb \<Rightarrow> u32 \<Rightarrow> 'e agvcp_conn \<Rightarrow>
    (perr option \<times> 'e agvcp_conn) outcome" where
  "agv_send_action_over cb action c =
     (case get_status cb c of (st, c1) \<Rightarrow>
        agv_send_msg cb MSG_ACTION_OVER
          (be32 (agvid c1) @ be32 action @ be32 (mi_point (mtstate st)) @ be32 (mi_direction (mtstate st))) 0 c1)"

definition agv_send_error :: "'e agvcp_cb \<Rightarrow> u32 \<Rightarrow> 'e agvcp_conn \<Rightarrow> (perr option \<times> 'e agvcp_conn) outcome" where
  "agv_send_error cb err c =
     (case get_status cb c of (st, c1) \<Rightarrow>
        agv_send_msg cb MSG_ERRREPORT
          (be32 (agvid c1) @ be32 (mi_point (mtstate st)) @ be32 (get_agvcp_err (ucast err))) 0 c1)"

definition agv_confirm_msg :: "'e agvcp_cb \<Rightarrow> u32 \<Rightarrow> u32 \<Rightarrow> 'e agvcp_conn \<Rightarrow>
    (perr option \<times> 'e agvcp_conn) outcome" where
  "agv_confirm_msg cb mtype seq c =
     agv_send_msg cb MSG_CONFIRM (be32 (agvid c) @ be32 mtype @ be32 seq) 0 c"

text \<open>
  \<open>agvcp_notify_event\<close>: \<open>params\<close> is the event block from its parameters on. The events that
  are not reported leave the result of the C function unused or 0.
\<close>

definition agvcp_notify_event :: "'e agvcp_cb \<Rightarrow> u32 \<Rightarrow> bytes \<Rightarrow> 'e agvcp_conn \<Rightarrow>
    (perr option \<times> 'e agvcp_conn) outcome" where
  "agvcp_notify_event cb evt params c =
     (if conn_state c \<noteq> CONNSTATE_ONLINE \<and> conn_state c \<noteq> CONNSTATE_ERROR then Ret (None, c)
      else if evt = EVENT_ACTION_OVER then agv_send_action_over cb (ucast (params ! 0)) c
      else if evt = EVENT_POINT_ARRIVAL then
        agv_send_naviinfo cb (of_be32 params) (of_be32 (drop 4 params)) c
      else if evt = EVENT_ERROR then agv_send_error cb (ucast (params ! 0)) c
      else Ret (None, c))"

section \<open>Buffered actions\<close>

text \<open>
  Each buffered action is confirmed, and when the server acknowledged that, handed to the
  vehicle with what follows its header in the block. The block belongs to this task until
  it is freed, so its fields are read once.
\<close>

lemma agv_confirm_msg_pending: "agv_confirm_msg cb t s c = Ret (r, c') \<Longrightarrow> pending c' \<le> pending c"
  by (auto simp: agv_confirm_msg_def dest: agv_send_msg_pending)

lemma pending_put [simp]: "pending (c\<lparr>action_mem := m\<rparr>) = pending c"
  by (simp add: pending_def)

function process_buffered_msg :: "'e agvcp_cb \<Rightarrow> 'e agvcp_conn \<Rightarrow> 'e agvcp_conn outcome" where
  "process_buffered_msg cb c =
     (let p = fst (fst (OSQAccept (action_que c)));
          c1 = c\<lparr>action_que := snd (OSQAccept (action_que c))\<rparr>
      in if p = 0 then Ret c1
         else obind (blk_read p 0 AGVCP_MAXMSG_SIZE (action_mem c1)) (\<lambda>d.
           if of_le32 d \<noteq> MSG_ACTION then
             process_buffered_msg cb (c1\<lparr>action_mem := snd (OSMemPut p (action_mem c1))\<rparr>)
           else
             obind (agv_confirm_msg cb (of_le32 d) (of_le32 (drop 4 d)) c1) (\<lambda>(r, c2).
               process_buffered_msg cb
                 (c2\<lparr>agv := agvcp_event_callback cb (of_be32 (drop 12 d)) (of_be32 (drop 16 d)) (drop 20 d) (agv c2),
                     action_mem := snd (OSMemPut p (action_mem c2))\<rparr>))))"
  by auto
termination
proof (relation "measure (\<lambda>(cb, c). pending c)", goal_cases)
  case 1
  then show ?case by simp
next
  case (2 cb c p c1 d)
  then have "0 < OSQEntries (action_que c)" using OSQAccept_entries(2) by blast
  with 2 show ?case by (simp add: pending_def OSQAccept_entries(1))
next
  case (3 cb c p c1 d x r c2)
  then have "0 < OSQEntries (action_que c)" using OSQAccept_entries(2) by blast
  then have "pending c1 < pending c" using 3(2) by (simp add: pending_def OSQAccept_entries(1))
  moreover have "pending c2 \<le> pending c1" using 3 agv_confirm_msg_pending by blast
  ultimately show ?case by simp
qed

declare process_buffered_msg.simps [simp del]

section \<open>The connection\<close>

definition HEARTBEAT_TICKS :: u32 where "HEARTBEAT_TICKS = 500 * 1000 div 1000"

text \<open>
  One round of \<open>agvcp_connectoin_process\<close> up to its wait, with the time it reads; the
  state carries the time of the last heartbeat.
\<close>

definition connection_step :: "'e agvcp_cb \<Rightarrow> u32 \<Rightarrow> u32 \<times> 'e agvcp_conn \<Rightarrow>
    (u32 \<times> 'e agvcp_conn) outcome" where
  "connection_step cb tm s =
     (case s of (hb, c) \<Rightarrow>
        obind (if HEARTBEAT_TICKS \<le> TIME_DIFFERENCE tm hb
               then obind (agv_send_heartbeat cb c) (\<lambda>(r, c1). Ret (tm, c1))
               else Ret (hb, c)) (\<lambda>(hb1, c1).
        obind (agv_rx_msg (rxdata c1) c1) (\<lambda>(r, data, c2).
        obind
          (let c3 = c2\<lparr>rxdata := data\<rparr>
           in case r of
                Inl e \<Rightarrow> Ret c3
              | Inr (msgtype, seq, len) \<Rightarrow>
                  if of_be32 data \<noteq> agvid c3 then Ret c3
                  else
                    obind (agvcp_msg_process cb msgtype seq (drop 4 data) (of_nat len - 4) c3) (\<lambda>(ret, c4).
                      Ret (if ret = None \<and> conn_state c4 = CONNSTATE_ERROR
                           then (on_connection_recovery cb c4)\<lparr>conn_state := CONNSTATE_ONLINE\<rparr>
                           else c4)))
          (\<lambda>c5. obind (process_buffered_msg cb c5) (\<lambda>c6. Ret (hb1, c6))))))"

text \<open>
  The loop: each round waits up to 20 ticks for the disconnect flag, while datagrams may
  arrive. A round is a pair of the time and whether the flag is set at its end; the loop
  hangs when the rounds are used up without the flag.
\<close>

fun agvcp_connectoin_process :: "'e agvcp_cb \<Rightarrow> (u32 \<times> bool) list \<Rightarrow> u32 \<times> 'e agvcp_conn \<Rightarrow>
    (u32 \<times> 'e agvcp_conn) outcome" where
  "agvcp_connectoin_process cb [] s = Hang"
| "agvcp_connectoin_process cb ((tm, disconnect) # rounds) s =
     obind (connection_step cb tm s) (\<lambda>(hb, c).
     obind (dly10 c) (\<lambda>c1.
       if disconnect then Ret (hb, c1) else agvcp_connectoin_process cb rounds (hb, c1)))"

text \<open>
  Registration and unregistration are repeated until acknowledged (a pause of 500 ms
  after a failed registration); they hang when the environment delivers nothing more.
\<close>

primrec dlys :: "nat \<Rightarrow> 'e agvcp_conn \<Rightarrow> 'e agvcp_conn outcome" where
  "dlys 0 c = Ret c"
| "dlys (Suc n) c = obind (dly10 c) (dlys n)"

lemma dlys_inbox: "dlys n c = Ret c' \<Longrightarrow> inbox c' = drop n (inbox c)"
proof (induction n arbitrary: c)
  case (Suc n)
  then obtain c1 where "dly10 c = Ret c1" "dlys n c1 = Ret c'" by auto
  with Suc.IH [of c1] dly10_frame [of c c1] show ?case by (simp add: drop_Suc)
qed simp

lemma send_loop_inbox:
  "send_loop cb t s msg forever n c = Ret (False, c') \<Longrightarrow> inbox c \<noteq> [] \<Longrightarrow> length (inbox c') < length (inbox c)"
proof (induction cb t s msg forever n c rule: send_loop.induct)
  case (1 cb t s msg forever n c)
  let ?c1 = "snd (agv_tx_msg t s msg c)"
  obtain r1 c2 where w: "wait_ack cb t s 1000 ?c1 = Ret (r1, c2)"
    using 1(3) by (subst (asm) send_loop.simps) (auto simp: Let_def)
  have i1: "inbox ?c1 = inbox c" by (simp add: agv_tx_msg_frame)
  have "(if r1 then Ret (True, c2\<lparr>txseq := txseq c2 + 1\<rparr>)
       else if forever then if inbox ?c1 = [] then Hang else send_loop cb t s msg forever n c2
       else if 0 < n - 1 then send_loop cb t s msg forever (n - 1) c2 else Ret (False, c2)) = Ret (False, c')"
    using 1(3) w by (subst (asm) send_loop.simps) (simp add: Let_def)
  moreover from this have i2: "inbox c2 = drop 100 (inbox c)"
    using wait_ack_frame(2) [OF w] i1 by (auto split: if_splits)
  moreover have sub: "length (inbox c') \<le> length (inbox d)" if "send_loop cb t s msg f m d = Ret (r, c')" for f m d r
    using that
  proof (induction cb t s msg f m d rule: send_loop.induct)
    case (1 cb t s msg f m d)
    let ?d1 = "snd (agv_tx_msg t s msg d)"
    obtain r1 d2 where w: "wait_ack cb t s 1000 ?d1 = Ret (r1, d2)"
      using 1(3) by (subst (asm) send_loop.simps) (auto simp: Let_def)
    have "length (inbox d2) \<le> length (inbox d)"
      using wait_polls_frame w unfolding wait_ack_def
      by (metis agv_tx_msg_frame(2) diff_le_self length_drop)
    moreover have "(if r1 then Ret (True, d2\<lparr>txseq := txseq d2 + 1\<rparr>)
         else if f then if inbox ?d1 = [] then Hang else send_loop cb t s msg f m d2
         else if 0 < m - 1 then send_loop cb t s msg f (m - 1) d2 else Ret (False, d2)) = Ret (r, c')"
      using 1(3) w by (subst (asm) send_loop.simps) (simp add: Let_def)
    ultimately show ?case using 1(1) [OF refl w refl] 1(2) [OF refl w refl] by (auto split: if_splits)
  qed
  ultimately show ?case using 1(4) by (cases "inbox c") (auto split: if_splits dest!: sub)
qed

lemma agv_send_msg_inbox:
  "agv_send_msg cb t msg n c = Ret (Some e, c') \<Longrightarrow> inbox c \<noteq> [] \<Longrightarrow> length (inbox c') < length (inbox c)"
  by (auto simp: agv_send_msg_def agv_send_msg_locked_def Let_def on_connection_error_def
      split: if_splits dest!: send_loop_inbox)

lemma get_status_inbox [simp]: "inbox (snd (get_status cb c)) = inbox c"
  by (simp add: get_status_def case_prod_unfold)

lemma register_inbox:
  "agv_register_device cb c = Ret (Some e, c') \<Longrightarrow> inbox c \<noteq> [] \<Longrightarrow> length (inbox c') < length (inbox c)"
  using get_status_inbox [of cb c]
  by (auto simp: agv_register_device_def case_prod_unfold dest!: agv_send_msg_inbox)

lemma unregister_inbox:
  "agv_unregister_device cb c = Ret (Some e, c') \<Longrightarrow> inbox c \<noteq> [] \<Longrightarrow> length (inbox c') < length (inbox c)"
  using get_status_inbox [of cb c]
  by (auto simp: agv_unregister_device_def case_prod_unfold dest!: agv_send_msg_inbox)

function register_loop :: "'e agvcp_cb \<Rightarrow> 'e agvcp_conn \<Rightarrow> 'e agvcp_conn outcome" where
  "register_loop cb c =
     obind (agv_register_device cb c) (\<lambda>(ret, c1).
       if ret = None then Ret c1
       else if inbox c = [] then Hang
       else obind (dlys 50 c1) (register_loop cb))"
  by auto
termination
proof (relation "measure (\<lambda>(cb, c). length (inbox c))", goal_cases)
  case 1
  then show ?case by simp
next
  case (2 cb c x ret c1 c2)
  then have "length (inbox c1) < length (inbox c)" using register_inbox by blast
  moreover have "inbox c2 = drop 50 (inbox c1)" using 2 dlys_inbox by blast
  ultimately show ?case by simp
qed

function unregister_loop :: "'e agvcp_cb \<Rightarrow> 'e agvcp_conn \<Rightarrow> 'e agvcp_conn outcome" where
  "unregister_loop cb c =
     obind (agv_unregister_device cb c) (\<lambda>(ret, c1).
       if ret = None then Ret c1
       else if inbox c = [] then Hang
       else unregister_loop cb c1)"
  by auto
termination
proof (relation "measure (\<lambda>(cb, c). length (inbox c))", goal_cases)
  case 1
  then show ?case by simp
next
  case (2 cb c x ret c1)
  then have "length (inbox c1) < length (inbox c)" using unregister_inbox by blast
  then show ?case by simp
qed

declare register_loop.simps [simp del] unregister_loop.simps [simp del]

text \<open>One round of \<open>agvcp_task\<close>, from the connect flag to the next wait for it.\<close>

definition agvcp_session :: "'e agvcp_cb \<Rightarrow> (u32 \<times> bool) list \<Rightarrow> u32 \<times> 'e agvcp_conn \<Rightarrow>
    (u32 \<times> 'e agvcp_conn) outcome" where
  "agvcp_session cb rounds s =
     (case s of (hb, c) \<Rightarrow>
        obind (register_loop cb (c\<lparr>conn_state := CONNSTATE_REGISTERING, err_cnt := 0\<rparr>)) (\<lambda>c1.
        obind (agvcp_connectoin_process cb rounds (hb, c1\<lparr>conn_state := CONNSTATE_ONLINE\<rparr>)) (\<lambda>(hb2, c2).
        obind (unregister_loop cb (c2\<lparr>conn_state := CONNSTATE_UNREGISTERING\<rparr>)) (\<lambda>c3.
          Ret (hb2, c3\<lparr>conn_state := CONNSTATE_OFFLINE\<rparr>)))))"

text \<open>
  \<open>agvcp_init\<close> with the pools of control blocks as counts: the sequence numbers start at 0
  and all ones, and the pool and queue of the actions are created. The receive queue and
  pool that \<open>create_udp_conn\<close> creates in the task are created here with them.
\<close>

definition agvcp_init :: "u32 \<Rightarrow> nat \<Rightarrow> memory \<Rightarrow> nat \<Rightarrow> memory \<Rightarrow> bytes \<Rightarrow> bytes \<Rightarrow> 'e \<Rightarrow> 'e agvcp_conn option" where
  "agvcp_init agv_name actionmem_pool am rxdata_mempool rm junk0 rxdata0 e =
     (case fst (OSMemCreate 1 actionmem_pool 4 AGVCP_MAXMSG_SIZE am) of
        None \<Rightarrow> None
      | Some amem \<Rightarrow> (case fst (OSQCreate 1 1 (replicate 4 0)) of
          None \<Rightarrow> None
        | Some aque \<Rightarrow> (case fst (OSMemCreate 1 rxdata_mempool 4 (AGVCP_MAXMSG_SIZE + 4) rm) of
            None \<Rightarrow> None
          | Some rmem \<Rightarrow> (case fst (OSQCreate 1 1 (replicate 4 0)) of
              None \<Rightarrow> None
            | Some rq \<Rightarrow> Some \<lparr>agvid = agv_name, txseq = 0, rxseq = NOT 0, conn_state = CONNSTATE_OFFLINE,
                err_cnt = 0, action_mem = amem, action_que = aque, rxmem = rmem, rxq = rq,
                sent = [], inbox = [], junk = junk0, rxdata = rxdata0, agv = e\<rparr>))))"

lemma agvcp_init_ok:
  assumes "0 < a" "a + 2048 \<le> 2 ^ 32" "0 < r" "r + 2064 \<le> 2 ^ 32" "length j = 512" "length d = 256"
  shows "\<exists>c. agvcp_init name a am r rm j d e = Some c \<and> conn_ok [] c \<and> act_msgs c = [] \<and> rx_msgs c = []"
proof -
  obtain amem k where am: "OSMemCreate 1 a 4 512 am = (Some amem, k)" by (simp add: OSMemCreate_def)
  obtain rmem k' where rm: "OSMemCreate 1 r 4 (512 + 4) rm = (Some rmem, k')" by (simp add: OSMemCreate_def)
  obtain q k2 where q: "OSQCreate 1 1 (replicate 4 (0::nat)) = (Some q, k2)" by (simp add: OSQCreate_def)
  have m1: "mbox_ok q amem \<and> mbox_data q amem = [] \<and> OSMemBlkSize amem = 512"
    by (rule mbox_create [OF q am]) (use assms in auto)
  have m2: "mbox_ok q rmem \<and> mbox_data q rmem = [] \<and> OSMemBlkSize rmem = 516"
    using mbox_create [OF q rm] assms by auto
  let ?c = "\<lparr>agvid = name, txseq = 0, rxseq = NOT 0, conn_state = CONNSTATE_OFFLINE, err_cnt = 0,
      action_mem = amem, action_que = q, rxmem = rmem, rxq = q, sent = [], inbox = [], junk = j,
      rxdata = d, agv = e\<rparr>"
  have "agvcp_init name a am r rm j d e = Some ?c"
    unfolding agvcp_init_def am q rm fst_conv option.case by (rule refl)
  moreover have "conn_ok [] ?c \<and> act_msgs ?c = [] \<and> rx_msgs ?c = []"
    using m1 m2 assms by (simp add: conn_ok_def rx_ok_def act_ok_def act_msgs_def act_data_def rx_msgs_def mbox_ok_def)
  ultimately show ?thesis by blast
qed

section \<open>Safety\<close>

text \<open>Whatever a send does, it keeps the invariant and never faults.\<close>

lemma conn_ok_cong:
  "rxq c' = rxq c \<Longrightarrow> rxmem c' = rxmem c \<Longrightarrow> action_que c' = action_que c \<Longrightarrow> action_mem c' = action_mem c \<Longrightarrow>
     junk c' = junk c \<Longrightarrow> rxdata c' = rxdata c \<Longrightarrow> conn_ok held c' = conn_ok held c"
  by (simp add: conn_ok_def rx_ok_def act_ok_def)

lemma agv_send_msg_ok:
  assumes "conn_ok held c"
  shows "agv_send_msg cb t msg n c = Hang \<or> (\<exists>r c'. agv_send_msg cb t msg n c = Ret (r, c') \<and> conn_ok held c')"
proof (cases "t = MSG_HEARTBEAT")
  case True
  then show ?thesis using assms by (simp add: agv_send_msg_def agv_send_msg_locked_def Let_def)
next
  case False
  consider "send_loop cb t (txseq c) msg (n = 0) n c = Hang"
    | r c1 where "send_loop cb t (txseq c) msg (n = 0) n c = Ret (r, c1)" "conn_ok held c1"
    using send_loop_ok [OF assms] by blast
  then show ?thesis
  proof cases
    case 1
    then show ?thesis using False by (simp add: agv_send_msg_def agv_send_msg_locked_def)
  next
    case 2
    then show ?thesis using False
      by (cases r) (simp_all add: agv_send_msg_def agv_send_msg_locked_def Let_def
          on_connection_error_def on_connection_recovery_def)
  qed
qed

lemma get_status_ok: "conn_ok held (snd (get_status cb c)) = conn_ok held c"
  by (simp add: get_status_def case_prod_unfold)

lemma agv_confirm_msg_ok:
  "conn_ok held c \<Longrightarrow> agv_confirm_msg cb t s c = Hang
     \<or> (\<exists>r c'. agv_confirm_msg cb t s c = Ret (r, c') \<and> conn_ok held c')"
  unfolding agv_confirm_msg_def by (rule agv_send_msg_ok)

lemma agv_send_heartbeat_ret:
  assumes "conn_ok held c"
  shows "\<exists>c'. agv_send_heartbeat cb c = Ret (None, c') \<and> conn_ok held c' \<and> rx_msgs c' = rx_msgs c
    \<and> conn_state c' = conn_state c \<and> rxdata c' = rxdata c \<and> agvid c' = agvid c"
  using assms
  by (simp add: agv_send_heartbeat_def get_status_def case_prod_unfold agv_send_msg_def
      agv_send_msg_locked_def Let_def rx_msgs_def agv_tx_msg_frame)

text \<open>A confirmation keeps the buffered actions in order and, outside the error state, the vehicle.\<close>

lemma agv_confirm_msg_grow:
  assumes "agv_confirm_msg cb t s c = Ret (r, c')" "conn_ok held c"
  shows "conn_ok held c'" "prefix (act_data c) (act_data c')"
proof -
  obtain q c1 where l: "send_loop cb MSG_CONFIRM (txseq c) (be32 (agvid c) @ be32 t @ be32 s) True 0 c = Ret (q, c1)"
    using assms(1) by (auto simp: agv_confirm_msg_def agv_send_msg_def agv_send_msg_locked_def)
  have j: "length (junk c) = 512" using assms(2) by (simp add: conn_ok_def)
  have g: "conn_ok held c1" "prefix (act_data c) (act_data c1)"
    using grow.steps.send_loop_R [OF l j, of held] assms(2) by (auto simp: act_grow_def)
  have d: "act_data c' = act_data c1 \<and> conn_ok held c' = conn_ok held c1"
    using assms(1) l by (auto simp: agv_confirm_msg_def agv_send_msg_def agv_send_msg_locked_def Let_def
        act_data_def on_connection_error_def on_connection_recovery_def split: if_splits)
  show "conn_ok held c'" "prefix (act_data c) (act_data c')" using g d by auto
qed

lemma agv_confirm_msg_online:
  assumes "agv_confirm_msg cb t s c = Ret (r, c')" "conn_ok held c" "conn_state c \<noteq> CONNSTATE_ERROR"
  shows "r = None" "conn_state c' = conn_state c" "cb_pure cb \<Longrightarrow> agv c' = agv c" "agvid c' = agvid c"
    "prefix (sent c @ [be32 MSG_CONFIRM @ be32 (txseq c) @ be32 (agvid c) @ be32 t @ be32 s]) (sent c')"
proof -
  obtain q c1 where l: "send_loop cb MSG_CONFIRM (txseq c) (be32 (agvid c) @ be32 t @ be32 s) True 0 c = Ret (q, c1)"
    using assms(1) by (auto simp: agv_confirm_msg_def agv_send_msg_def agv_send_msg_locked_def)
  have j: "length (junk c) = 512" using assms(2) by (simp add: conn_ok_def)
  note f = send_loop_frame [OF l]
  have q: "q" "conn_state c1 = conn_state c" "agvid c1 = agvid c" using f by simp_all
  then have c': "c' = c1" "r = None"
    using assms(1,3) l by (auto simp: agv_confirm_msg_def agv_send_msg_def agv_send_msg_locked_def split: if_splits)
  show "r = None" "conn_state c' = conn_state c" "agvid c' = agvid c" using c' q by auto
  show "prefix (sent c @ [be32 MSG_CONFIRM @ be32 (txseq c) @ be32 (agvid c) @ be32 t @ be32 s]) (sent c')"
    using f c' by simp
  show "cb_pure cb \<Longrightarrow> agv c' = agv c"
    using same.steps.send_loop_R [OF l j] c' by (simp add: agv_same_def)
qed

text \<open>
  The round over the buffered actions: it returns or waits for the server for ever; when
  it returns, the queue is empty and every block is free again.
\<close>

lemma act_accept:
  assumes "conn_ok [] c" "act_data c = d # ds"
  obtains p where "fst (fst (OSQAccept (action_que c))) = p" "p \<noteq> 0"
    "conn_ok [p] (c\<lparr>action_que := snd (OSQAccept (action_que c))\<rparr>)"
    "act_data (c\<lparr>action_que := snd (OSQAccept (action_que c))\<rparr>) = ds"
    "blk_read p 0 AGVCP_MAXMSG_SIZE (action_mem c) = Ret d" "length d = AGVCP_MAXMSG_SIZE"
proof -
  have ok: "mbox.owned (action_que c) (action_mem c) []" "OSMemBlkSize (action_mem c) = 512"
    using assms(1) by (auto simp: conn_ok_def act_ok_def)
  obtain p q' where a: "OSQAccept (action_que c) = ((p, OS_ERR_NONE), q')" "p \<noteq> 0"
    "mbox.owned q' (action_mem c) [p]" "d = mem_read p (OSMemBlkSize (action_mem c)) (OSMemPool (action_mem c))"
    "mbox_data q' (action_mem c) = ds"
    and rd: "\<And>off n. off + n \<le> OSMemBlkSize (action_mem c) \<Longrightarrow> blk_read p off n (action_mem c) = Ret (take n (drop off d))"
    by (rule mbox_accept [OF ok(1) assms(2) [unfolded act_data_def]]) (rule that; assumption)
  have "length d = 512" using a(4) ok(2) by simp
  moreover have "blk_read p 0 512 (action_mem c) = Ret d" using rd [of 0 512] ok(2) \<open>length d = 512\<close> by simp
  ultimately show thesis
    using that a assms(1) ok by (simp add: conn_ok_def rx_ok_def act_ok_def act_data_def)
qed

lemma act_put:
  assumes "conn_ok [p] c"
  shows "conn_ok [] (c\<lparr>action_mem := snd (OSMemPut p (action_mem c))\<rparr>)"
    "act_data (c\<lparr>action_mem := snd (OSMemPut p (action_mem c))\<rparr>) = act_data c"
proof -
  have "mbox.owned (action_que c) (action_mem c) [p]" using assms by (simp add: conn_ok_def act_ok_def)
  from mbox_put [OF this] assms
  show "conn_ok [] (c\<lparr>action_mem := snd (OSMemPut p (action_mem c))\<rparr>)"
    "act_data (c\<lparr>action_mem := snd (OSMemPut p (action_mem c))\<rparr>) = act_data c"
    by (simp_all add: conn_ok_def act_ok_def rx_ok_def act_data_def)
qed

text \<open>Handing a stored action to the vehicle.\<close>

definition hand_over :: "'e agvcp_cb \<Rightarrow> bytes \<Rightarrow> 'e \<Rightarrow> 'e" where
  "hand_over cb d = (if of_le32 d = MSG_ACTION
     then agvcp_event_callback cb (of_be32 (drop 12 d)) (of_be32 (drop 16 d)) (drop 20 d) else id)"

lemma act_data_upd [simp]:
  "act_data (c\<lparr>agv := e\<rparr>) = act_data c" "act_data (c\<lparr>conn_state := st\<rparr>) = act_data c"
  by (simp_all add: act_data_def)

lemma process_buffered_msg_ok:
  "conn_ok [] c \<Longrightarrow> process_buffered_msg cb c = Hang
     \<or> (\<exists>c'. process_buffered_msg cb c = Ret c' \<and> conn_ok [] c' \<and> act_data c' = []
          \<and> (conn_state c \<noteq> CONNSTATE_ERROR \<longrightarrow> conn_state c' = conn_state c))"
proof (induction cb c rule: process_buffered_msg.induct)
  case (1 cb c)
  show ?case
  proof (cases "act_data c")
    case Nil
    then have a: "OSQAccept (action_que c) = ((0, OS_ERR_Q_EMPTY), action_que c)"
      by (simp add: act_data_def mbox_accept_empty)
    have "process_buffered_msg cb c = Ret c"
      by (subst process_buffered_msg.simps) (simp add: a)
    then show ?thesis using 1(3) Nil by (auto intro: exI [of _ "[]"])
  next
    case (Cons d ds)
    obtain p where p: "fst (fst (OSQAccept (action_que c))) = p" "p \<noteq> 0"
      "conn_ok [p] (c\<lparr>action_que := snd (OSQAccept (action_que c))\<rparr>)"
      "act_data (c\<lparr>action_que := snd (OSQAccept (action_que c))\<rparr>) = ds"
      "blk_read p 0 512 (action_mem c) = Ret d" "length d = 512"
      by (rule act_accept [OF 1(3) Cons])
    let ?c1 = "c\<lparr>action_que := snd (OSQAccept (action_que c))\<rparr>"
    have rd: "blk_read p 0 512 (action_mem ?c1) = Ret d" using p(5) by simp
    show ?thesis
    proof (cases "of_le32 d = MSG_ACTION")
      case False
      let ?c2 = "?c1\<lparr>action_mem := snd (OSMemPut p (action_mem ?c1))\<rparr>"
      have "process_buffered_msg cb c = process_buffered_msg cb ?c2"
        by (subst process_buffered_msg.simps) (use p rd False in simp)
      moreover note 1(1) [OF p(1) [symmetric] refl p(2) rd False act_put(1) [OF p(3)]] act_put(2) [OF p(3)] p(4)
      ultimately show ?thesis using False Cons by (auto simp: hand_over_def)
    next
      case True
      note cf = agv_confirm_msg_ok [OF p(3), of cb "of_le32 d" "of_le32 (drop 4 d)"]
      show ?thesis
      proof (cases "agv_confirm_msg cb (of_le32 d) (of_le32 (drop 4 d)) ?c1 = Hang")
        case h: True
        have "process_buffered_msg cb c = Hang"
          by (subst process_buffered_msg.simps) (use p rd True h in simp)
        then show ?thesis by simp
      next
        case False
        then obtain r c2 where c2: "agv_confirm_msg cb (of_le32 d) (of_le32 (drop 4 d)) ?c1 = Ret (r, c2)"
          "conn_ok [p] c2" using cf by blast
        have pre: "prefix ds (act_data c2)" using agv_confirm_msg_grow(2) [OF c2(1) p(3)] p(4) by simp
        let ?c3 = "c2\<lparr>agv := hand_over cb d (agv c2)\<rparr>"
        let ?c4 = "?c3\<lparr>action_mem := snd (OSMemPut p (action_mem c2))\<rparr>"
        have ok3: "conn_ok [p] ?c3" using c2(2) by simp
        have c4: "conn_ok [] ?c4" "act_data ?c4 = act_data c2" using act_put [OF ok3] by simp_all
        have ho: "hand_over cb d = agvcp_event_callback cb (of_be32 (drop 12 d)) (of_be32 (drop 16 d)) (drop 20 d)"
          using True by (simp add: hand_over_def)
        have pb: "process_buffered_msg cb c = process_buffered_msg cb ?c4"
          by (subst process_buffered_msg.simps) (use p rd True c2 ho in simp)
        have "conn_state c2 = conn_state c" if "conn_state c \<noteq> CONNSTATE_ERROR"
          using agv_confirm_msg_online [OF c2(1) p(3)] that by simp
        then show ?thesis using 1(2) [OF p(1) [symmetric] refl p(2) rd _ c2(1) refl] c4(1) True ho pb by auto
      qed
    qed
  qed
qed

text \<open>
  The log of the round: every buffered action is confirmed and handed over; so is every action
  accepted while the vehicle waited for the acknowledgements, with what its own datagram says.
\<close>

definition confirmation :: "u32 \<Rightarrow> request \<Rightarrow> bytes" where
  "confirmation name m = be32 name @ be32 (fst m) @ be32 (fst (snd m))"

definition confirms :: "bytes list \<Rightarrow> bytes list" where
  "confirms xs = map (drop 8) (filter (\<lambda>x. of_be32 x = MSG_CONFIRM) xs)"

definition confirmed :: "'e agvcp_conn \<Rightarrow> 'e agvcp_conn \<Rightarrow> request list \<Rightarrow> bool" where
  "confirmed c c' ms \<longleftrightarrow> (\<exists>xs. sent c' = sent c @ xs \<and> subseq (map (confirmation (agvid c)) ms) (confirms xs))"

lemma confirmed_trans:
  assumes "confirmed a b ms" "confirmed b c ns" "agvid b = agvid a"
  shows "confirmed a c (ms @ ns)"
proof -
  obtain xs ys where xs: "sent b = sent a @ xs" "subseq (map (confirmation (agvid a)) ms) (confirms xs)"
    and ys: "sent c = sent b @ ys" "subseq (map (confirmation (agvid a)) ns) (confirms ys)"
    using assms by (auto simp: confirmed_def)
  have "subseq (map (confirmation (agvid a)) (ms @ ns)) (confirms (xs @ ys))"
    using list_emb_append_mono [OF xs(2) ys(2)] by (simp add: confirms_def)
  then show ?thesis using xs(1) ys(1) by (auto simp: confirmed_def)
qed

lemma confirmed_Nil: "sent c' = sent c \<Longrightarrow> confirmed c c' []"
  by (simp add: confirmed_def)

lemma accepted_cong:
  assumes "agvid d = agvid c" "incoming d = incoming c" "rxseq d = rxseq c" "sent d = sent c"
  shows "accepted d c' acc = accepted c c' acc" "accepted c' d acc = accepted c' c acc"
  using assms by (simp_all add: accepted_def)

lemma agv_confirm_msg_log:
  assumes "agv_confirm_msg cb t s c = Ret (r, c')" "conn_ok held c" "conn_state c \<noteq> CONNSTATE_ERROR"
  shows "\<exists>acc more. accepted c c' acc \<and> act_data c' = act_data c @ more
    \<and> map act_decode more = actions (map request acc) \<and> confirmed c c' [(t, s, ps)]"
proof -
  obtain q c1 where l: "send_loop cb MSG_CONFIRM (txseq c) (be32 (agvid c) @ be32 t @ be32 s) True 0 c = Ret (q, c1)"
    using assms(1) by (auto simp: agv_confirm_msg_def agv_send_msg_def agv_send_msg_locked_def)
  have "q" "conn_state c1 = conn_state c" using send_loop_frame [OF l] by simp_all
  then have c': "c' = c1"
    using assms(1,3) l by (auto simp: agv_confirm_msg_def agv_send_msg_def agv_send_msg_locked_def split: if_splits)
  obtain acc where acc: "accepted c c' acc" "act_msgs c' = act_msgs c @ actions (map request acc)"
    using send_loop_took [OF l assms(2)] assms(2) c' by (auto simp: took_def)
  obtain more where more: "act_data c' = act_data c @ more"
    using agv_confirm_msg_grow(2) [OF assms(1,2)] by (auto simp: prefix_def)
  have "confirmed c c' [(t, s, ps)]"
    using agv_confirm_msg_online(5) [OF assms]
    by (auto simp: prefix_def confirmed_def confirms_def confirmation_def)
  then show ?thesis using acc more by (auto simp: act_msgs_def)
qed

lemma process_buffered_msg_log:
  "conn_ok [] c \<Longrightarrow> process_buffered_msg cb c = Ret c' \<Longrightarrow> conn_state c \<noteq> CONNSTATE_ERROR \<Longrightarrow>
     \<exists>acc later. accepted c c' acc \<and> map act_decode later = actions (map request acc)
       \<and> confirmed c c' (actions (act_msgs c @ map request acc))
       \<and> (cb_pure cb \<longrightarrow> agv c' = fold (hand_over cb) (act_data c @ later) (agv c))"
proof (induction cb c rule: process_buffered_msg.induct)
  case (1 cb c)
  show ?case
  proof (cases "act_data c")
    case Nil
    then have "OSQAccept (action_que c) = ((0, OS_ERR_Q_EMPTY), action_que c)"
      by (simp add: act_data_def mbox_accept_empty)
    then have "c' = c" using 1(4) by (subst (asm) process_buffered_msg.simps) simp
    then show ?thesis
      using Nil by (intro exI [of _ "[]"]) (simp add: accepted_Nil confirmed_Nil actions_def act_msgs_def)
  next
    case (Cons d ds)
    obtain p where p: "fst (fst (OSQAccept (action_que c))) = p" "p \<noteq> 0"
      "conn_ok [p] (c\<lparr>action_que := snd (OSQAccept (action_que c))\<rparr>)"
      "act_data (c\<lparr>action_que := snd (OSQAccept (action_que c))\<rparr>) = ds"
      "blk_read p 0 512 (action_mem c) = Ret d" "length d = 512"
      by (rule act_accept [OF 1(3) Cons])
    let ?c1 = "c\<lparr>action_que := snd (OSQAccept (action_que c))\<rparr>"
    have rd: "blk_read p 0 512 (action_mem ?c1) = Ret d" using p(5) by simp
    have m: "act_msgs c = act_decode d # map act_decode ds" using Cons by (simp add: act_msgs_def)
    show ?thesis
    proof (cases "of_le32 d = MSG_ACTION")
      case False
      let ?c2 = "?c1\<lparr>action_mem := snd (OSMemPut p (action_mem ?c1))\<rparr>"
      have "process_buffered_msg cb ?c2 = Ret c'"
        using 1(4) by (subst (asm) process_buffered_msg.simps) (use p rd False in simp)
      from 1(1) [OF p(1) [symmetric] refl p(2) rd False act_put(1) [OF p(3)] this]
      obtain acc later where "accepted ?c2 c' acc" "map act_decode later = actions (map request acc)"
        "confirmed ?c2 c' (actions (map act_decode ds @ map request acc))"
        "cb_pure cb \<longrightarrow> agv c' = fold (hand_over cb) (ds @ later) (agv ?c2)"
        using 1(5) act_put(2) [OF p(3)] p(4) by (auto simp: act_msgs_def)
      moreover have "actions (act_msgs c @ map request acc) = actions (map act_decode ds @ map request acc)"
        using False m by (simp add: actions_def act_decode_def)
      moreover have "accepted ?c2 c' acc = accepted c c' acc" by (rule accepted_cong) simp_all
      moreover have "confirmed ?c2 c' = confirmed c c'" by (simp add: confirmed_def fun_eq_iff)
      moreover have "fold (hand_over cb) (act_data c @ later) (agv c) = fold (hand_over cb) (ds @ later) (agv ?c2)"
        using False Cons by (simp add: hand_over_def)
      ultimately show ?thesis by metis
    next
      case True
      obtain r c2 where c2: "agv_confirm_msg cb (of_le32 d) (of_le32 (drop 4 d)) ?c1 = Ret (r, c2)"
        using 1(4) by (subst (asm) process_buffered_msg.simps) (use p rd True in auto)
      have st1: "conn_state ?c1 \<noteq> CONNSTATE_ERROR" using 1(5) by simp
      note on = agv_confirm_msg_online [OF c2 p(3) st1]
      obtain acc1 more where l1: "accepted ?c1 c2 acc1" "act_data c2 = ds @ more"
        "map act_decode more = actions (map request acc1)" "confirmed ?c1 c2 [act_decode d]"
        using agv_confirm_msg_log [OF c2 p(3) st1, of "snd (snd (act_decode d))"]
        unfolding p(4) by (auto simp: act_decode_def)
      let ?c3 = "c2\<lparr>agv := hand_over cb d (agv c2)\<rparr>"
      let ?c4 = "?c3\<lparr>action_mem := snd (OSMemPut p (action_mem c2))\<rparr>"
      have "conn_ok [p] ?c3" using agv_confirm_msg_grow(1) [OF c2 p(3)] by simp
      from act_put [OF this] have c4: "conn_ok [] ?c4" "act_data ?c4 = ds @ more" using l1(2) by simp_all
      have ho: "hand_over cb d = agvcp_event_callback cb (of_be32 (drop 12 d)) (of_be32 (drop 16 d)) (drop 20 d)"
        using True by (simp add: hand_over_def)
      have pb: "process_buffered_msg cb ?c4 = Ret c'"
        using 1(4) by (subst (asm) process_buffered_msg.simps) (use p rd True c2 ho in simp)
      have "conn_state ?c4 \<noteq> CONNSTATE_ERROR" using on(2) 1(5) by simp
      then obtain acc2 later where l2: "accepted ?c4 c' acc2" "map act_decode later = actions (map request acc2)"
        "confirmed ?c4 c' (actions (map act_decode (ds @ more) @ map request acc2))"
        "cb_pure cb \<longrightarrow> agv c' = fold (hand_over cb) ((ds @ more) @ later) (agv ?c4)"
        using 1(2) [OF p(1) [symmetric] refl p(2) rd _ c2 refl] True c4 pb ho by (auto simp: act_msgs_def)
      have "accepted c c2 acc1" "accepted c2 c' acc2"
        using l1(1) l2(1) accepted_cong [of ?c1 c c2] accepted_cong [of ?c4 c2 c'] by simp_all
      then have "accepted c c' (acc1 @ acc2)" by (rule accepted_trans)
      moreover have "map act_decode (more @ later) = actions (map request (acc1 @ acc2))"
        using l1(3) l2(2) by (simp add: actions_def)
      moreover have "confirmed c c' (actions (act_msgs c @ map request (acc1 @ acc2)))"
      proof -
        have "confirmed c c2 [act_decode d]" "confirmed c2 c' (actions (map act_decode (ds @ more) @ map request acc2))"
          using l1(4) l2(3) by (simp_all add: confirmed_def)
        from confirmed_trans [OF this] show ?thesis
          using on(4) True m l1(3) by (simp add: actions_def act_decode_def)
      qed
      moreover have "agv c' = fold (hand_over cb) (act_data c @ more @ later) (agv c)" if "cb_pure cb"
        using l2(4) on(3) [OF that] that Cons by simp
      ultimately show ?thesis by blast
    qed
  qed
qed

section \<open>One round of the connection\<close>

lemma conn_ok_rx:
  assumes "agv_rx_msg (rxdata c) c = Ret (r, data, c')" "conn_ok held c"
  shows "conn_ok held (c'\<lparr>rxdata := data\<rparr>)"
proof -
  have "rx_ok c" "length (rxdata c) = 256" using assms(2) by (auto simp: conn_ok_def)
  from agv_rx_msg_ok [OF this(1), of "rxdata c"] assms(1) this(2)
  have "rx_ok c'" "length data = 256" by auto
  then show ?thesis
    using agv_rx_msg_frame [OF assms(1)] assms(2)
    by (simp add: conn_ok_def rx_ok_def act_ok_def conn_frame_def)
qed

lemma len_ok_small:
  assumes "4 \<le> n" "n \<le> 256" "length data = 256"
  shows "len_ok (drop 4 data) (of_nat n - 4)"
proof -
  have "of_nat n - (4 :: u32) = of_nat (n - 4)" using assms(1) by (simp add: of_nat_diff)
  moreover have "unat (of_nat (n - 4) :: u32) = n - 4"
    by (rule unat_of_nat_u32) (use assms(2) in simp)
  ultimately show ?thesis using assms by (simp add: len_ok_def)
qed

text \<open>
  A round is safe unless the datagram it reads is shorter than the header and the vehicle's
  name together: then \<open>len - 4\<close> wraps around and the rest of the buffer is taken for a
  message.
\<close>

lemma connection_step_ok:
  assumes ok: "conn_ok [] c" and len: "rx_msgs c \<noteq> [] \<Longrightarrow> 12 \<le> length (hd (rx_msgs c))"
  shows "connection_step cb tm (hb, c) = Hang
     \<or> (\<exists>hb' c'. connection_step cb tm (hb, c) = Ret (hb', c') \<and> conn_ok [] c' \<and> act_data c' = []
          \<and> (conn_state c = CONNSTATE_ONLINE \<longrightarrow> conn_state c' = CONNSTATE_ONLINE))"
proof -
  obtain hb1 c1 where h: "(if HEARTBEAT_TICKS \<le> TIME_DIFFERENCE tm hb
      then obind (agv_send_heartbeat cb c) (\<lambda>(r, c1). Ret (tm, c1)) else Ret (hb, c)) = Ret (hb1, c1)"
    and c1: "conn_ok [] c1" "rx_msgs c1 = rx_msgs c" "conn_state c1 = conn_state c" "rxdata c1 = rxdata c"
    using agv_send_heartbeat_ret [OF ok, of cb] ok
    by (cases "HEARTBEAT_TICKS \<le> TIME_DIFFERENCE tm hb") auto
  have rok: "rx_ok c1" "length (rxdata c1) = 256" using c1(1) by (auto simp: conn_ok_def)
  define body where "body data r c2 = (let c3 = c2\<lparr>rxdata := data\<rparr>
           in case r of
                Inl e \<Rightarrow> Ret c3
              | Inr (msgtype, seq, len) \<Rightarrow>
                  if of_be32 data \<noteq> agvid c3 then Ret c3
                  else
                    obind (agvcp_msg_process cb msgtype seq (drop 4 data) (of_nat len - 4) c3) (\<lambda>(ret, c4).
                      Ret (if ret = None \<and> conn_state c4 = CONNSTATE_ERROR
                           then (on_connection_recovery cb c4)\<lparr>conn_state := CONNSTATE_ONLINE\<rparr>
                           else c4)))" for data and r :: "perr + u32 \<times> u32 \<times> nat" and c2
  have "\<exists>r data c2 c5. agv_rx_msg (rxdata c1) c1 = Ret (r, data, c2) \<and> body data r c2 = Ret c5
      \<and> conn_ok [] c5 \<and> (conn_state c = CONNSTATE_ONLINE \<longrightarrow> conn_state c5 = CONNSTATE_ONLINE)"
  proof (cases "rx_msgs c1")
    case Nil
    then show ?thesis
      using c1 conn_ok_rx [OF agv_rx_msg_empty [OF Nil] c1(1)]
      by (simp add: agv_rx_msg_empty body_def Let_def)
  next
    case (Cons d ds)
    then have d: "12 \<le> length d" using len c1(2) by simp
    then have d8: "8 \<le> length d" by simp
    let ?n = "min (length (rxdata c1)) (length d - 8)"
    let ?data = "Prelude.splice 0 (take ?n (drop 8 d)) (rxdata c1)"
    obtain c2 where c2: "agv_rx_msg (rxdata c1) c1
        = Ret (Inr (of_be32 d, of_be32 (drop 4 d), ?n), ?data, c2)"
      by (rule agv_rx_msg_some [OF rok(1) Cons d8])
    have ok3: "conn_ok [] (c2\<lparr>rxdata := ?data\<rparr>)" by (rule conn_ok_rx [OF c2 c1(1)])
    have st2: "conn_state c2 = conn_state c" using agv_rx_msg_frame [OF c2] c1(3) by (simp add: conn_frame_def)
    have n: "4 \<le> ?n" "?n \<le> 256" using d rok by auto
    have "length ?data = 256" using rok by simp
    from len_ok_small [OF n this] have lok: "len_ok (drop 4 ?data) (of_nat ?n - 4)" .
    obtain q c4 where c4: "agvcp_msg_process cb (of_be32 d) (of_be32 (drop 4 d)) (drop 4 ?data) (of_nat ?n - 4)
        (c2\<lparr>rxdata := ?data\<rparr>) = Ret (q, c4)" "conn_ok [] c4"
      using msg_process_ok [OF ok3 lok] by blast
    have st4: "conn_state c4 = conn_state c"
      using msg_process_frame(1) [OF c4(1)] st2 by (simp add: conn_frame_def)
    show ?thesis
    proof (cases "of_be32 ?data = agvid c2")
      case True
      then show ?thesis
        using c2 c4 st4 by (auto simp: body_def Let_def on_connection_recovery_def)
    next
      case False
      then show ?thesis using c2 ok3 st2 by (auto simp: body_def Let_def)
    qed
  qed
  then obtain r data c2 c5 where b: "agv_rx_msg (rxdata c1) c1 = Ret (r, data, c2)" "body data r c2 = Ret c5"
    "conn_ok [] c5" "conn_state c = CONNSTATE_ONLINE \<longrightarrow> conn_state c5 = CONNSTATE_ONLINE" by blast
  have step: "connection_step cb tm (hb, c) = obind (process_buffered_msg cb c5) (\<lambda>c6. Ret (hb1, c6))"
    unfolding connection_step_def prod.case h obind.simps b(1) using b(2) unfolding body_def by simp
  show ?thesis
    using process_buffered_msg_ok [OF b(3), of cb] b(4) step by auto
qed

section \<open>Properties\<close>

text \<open>A freshly initialised connection, and callbacks that log the actions they are handed.\<close>

definition demo_status :: agv_status where
  "demo_status = \<lparr>mtstate = \<lparr>mi_point = 0, mi_x_deviation = 0, mi_y_deviation = 0, mi_direction = 0,
     mi_dir_deviation = 0, mi_speed = 0, mi_state = MOTIONSTATE_ONSTOPING, mi_action = 8\<rparr>,
     battery = 100, work_state = AGV_WKSTATE_READY, agv_error = 0\<rparr>"

definition demo_cb :: "u32 list agvcp_cb" where
  "demo_cb = \<lparr>agvcp_event_callback = \<lambda>a l ps e. e @ [a], get_status_callback = \<lambda>e. (demo_status, e),
     read_param = None, write_param = None\<rparr>"

definition demo_conn :: "u32 list agvcp_conn" where
  "demo_conn = the (agvcp_init 5 1000 (\<lambda>_. 0) 9000 (\<lambda>_. 0) (replicate 512 0) (replicate 256 0) [])"

lemma demo_conn_ok: "conn_ok [] demo_conn" "act_msgs demo_conn = []" "rx_msgs demo_conn = []"
proof -
  obtain c where "agvcp_init 5 1000 (\<lambda>_. 0) 9000 (\<lambda>_. 0) (replicate 512 0) (replicate 256 0) [] = Some (c :: u32 list agvcp_conn)"
    "conn_ok [] c" "act_msgs c = []" "rx_msgs c = []"
    using agvcp_init_ok [of 1000 9000 "replicate 512 0" "replicate 256 0" 5 "\<lambda>_. 0" "\<lambda>_. 0" "[] :: u32 list"] by auto
  then show "conn_ok [] demo_conn" "act_msgs demo_conn = []" "rx_msgs demo_conn = []"
    by (simp_all add: demo_conn_def)
qed

lemma demo_conn_fields: "agvid demo_conn = 5" "rxseq demo_conn = NOT 0" "sent demo_conn = []"
  "conn_state demo_conn = CONNSTATE_OFFLINE" "txseq demo_conn = 0" "err_cnt demo_conn = 0"
  "rxdata demo_conn = replicate 256 0" "inbox demo_conn = []" "agv demo_conn = []"
  "OSMemNFree (action_mem demo_conn) = 4" "OSMemNFree (rxmem demo_conn) = 4"
  by (simp_all add: demo_conn_def agvcp_init_def OSMemCreate_def OSQCreate_def)

lemma demo_conn_free: "mem_free (action_mem demo_conn) \<noteq> []" "mem_free (rxmem demo_conn) \<noteq> []"
  by (metis demo_conn_fields(10) length_mem_free list.size(3) zero_neq_numeral,
      metis demo_conn_fields(11) length_mem_free list.size(3) zero_neq_numeral)

text \<open>
  C1: an action that is new is buffered behind the earlier ones, acknowledged and its
  number remembered; the same number again is acknowledged but not buffered, so that an
  action the server repeats because an answer was lost is executed once.
\<close>

theorem action_idempotent:
  assumes "conn_ok held c" "len_ok buf len" "of_be32 (drop 4 buf) + 8 = len" "unat len + 16 \<le> 512"
    and "mem_free (action_mem c) \<noteq> []" "seq \<noteq> 0" "seq \<noteq> rxseq c"
  shows "\<exists>c1 c2. agvcp_msg_process cb MSG_ACTION seq buf len c = Ret (None, c1)
    \<and> agvcp_msg_process cb MSG_ACTION seq buf len c1 = Ret (Some EEXIST, c2)
    \<and> act_msgs c1 = act_msgs c @ [(MSG_ACTION, seq, take (unat len) buf)] \<and> act_msgs c2 = act_msgs c1
    \<and> sent c2 = sent c @ replicate 2 (be32 MSG_ACTION @ be32 seq @ be32 (agvid c)) \<and> conn_ok held c2"
proof -
  have rep: "\<not> is_repeat seq c" using assms(7) by (simp add: is_repeat_def)
  obtain c1 where c1: "agvcp_msg_process cb MSG_ACTION seq buf len c = Ret (None, c1)" "conn_ok held c1"
    "act_msgs c1 = act_msgs c @ [(MSG_ACTION, seq, take (unat len) buf)]"
    "sent c1 = sent c @ [be32 MSG_ACTION @ be32 seq @ be32 (agvid c)]" "rxseq c1 = seq"
    using process_action [OF assms(1,2), of cb seq] rep assms(3-5) by auto
  have "is_repeat seq c1" using c1(5) assms(6) by (simp add: is_repeat_def)
  moreover have "agvid c1 = agvid c" using msg_process_frame(1) [OF c1(1)] by (simp add: conn_frame_def)
  ultimately show ?thesis
    using process_action [OF c1(2) assms(2), of cb seq] assms(3) c1 by (auto simp: numeral_2_eq_2)
qed

theorem action_idempotent_witness:
  "\<exists>c1 c2. agvcp_msg_process demo_cb MSG_ACTION 7 (be32 1 @ be32 4 @ be32 9 @ [0, 0]) 12 demo_conn = Ret (None, c1)
    \<and> agvcp_msg_process demo_cb MSG_ACTION 7 (be32 1 @ be32 4 @ be32 9 @ [0, 0]) 12 c1 = Ret (Some EEXIST, c2)
    \<and> act_msgs c2 = [(MSG_ACTION, 7, be32 1 @ be32 4 @ be32 9)]"
proof -
  have lok: "len_ok (be32 1 @ be32 4 @ be32 9 @ [0, 0]) 12" by (simp add: len_ok_def)
  have pl: "of_be32 (drop 4 (be32 1 @ be32 4 @ be32 9 @ [0, 0])) + 8 = 12" by simp
  show ?thesis
    using action_idempotent [OF demo_conn_ok(1) lok pl, of 7 demo_cb] demo_conn_free(1) demo_conn_ok(2)
    by (auto simp: demo_conn_fields)
qed

text \<open>
  C8: a message that is to be acknowledged either waits for ever or returns with the sequence
  number advanced by one; it was sent with the old number, first of all what the call sent, and
  the connection's state is not changed. It returns only when an acknowledgement was waiting
  or has arrived: a datagram with the type of the message and its number. And when nothing else
  is in the way it does return as soon as the acknowledgement arrives, having sent the
  message once per second until then (a hundred delays of 10 ms).
\<close>

theorem send_until_acked:
  assumes "conn_ok held c" "msg_type \<noteq> MSG_HEARTBEAT" "length msg + 8 < 512" "conn_state c \<noteq> CONNSTATE_ERROR"
  shows "(agv_send_msg cb msg_type msg 0 c = Hang \<or> (\<exists>c'. agv_send_msg cb msg_type msg 0 c = Ret (None, c')
      \<and> txseq c' = txseq c + 1 \<and> conn_state c' = conn_state c \<and> conn_ok held c'
      \<and> prefix (sent c @ [be32 msg_type @ be32 (txseq c) @ msg]) (sent c')
      \<and> (\<exists>d\<in>set (incoming c). is_ack msg_type (txseq c) d)))
    \<and> (\<forall>k d ds rest. rx_msgs c = [] \<and> mem_free (rxmem c) \<noteq> [] \<and> inbox c = replicate k [] @ (d # ds) # rest
        \<and> is_ack msg_type (txseq c) d \<and> length d \<le> 512 \<longrightarrow>
        (\<exists>c'. agv_send_msg cb msg_type msg 0 c = Ret (None, c')
          \<and> sent c' = sent c @ replicate (Suc (k div 100)) (be32 msg_type @ be32 (txseq c) @ msg)))"
proof (intro conjI allI impI)
  have ret: "agv_send_msg cb msg_type msg 0 c = Ret (None, c1)"
    if "send_loop cb msg_type (txseq c) msg True 0 c = Ret (r, c1)" for r c1
    using that send_loop_frame [OF that assms(3)] assms(2,4)
    by (simp add: agv_send_msg_def agv_send_msg_locked_def)
  show "agv_send_msg cb msg_type msg 0 c = Hang \<or> (\<exists>c'. agv_send_msg cb msg_type msg 0 c = Ret (None, c')
      \<and> txseq c' = txseq c + 1 \<and> conn_state c' = conn_state c \<and> conn_ok held c'
      \<and> prefix (sent c @ [be32 msg_type @ be32 (txseq c) @ msg]) (sent c')
      \<and> (\<exists>d\<in>set (incoming c). is_ack msg_type (txseq c) d))"
  proof (cases "send_loop cb msg_type (txseq c) msg True 0 c = Hang")
    case True
    then show ?thesis using assms(2) by (simp add: agv_send_msg_def agv_send_msg_locked_def)
  next
    case False
    then obtain c1 where l: "send_loop cb msg_type (txseq c) msg True 0 c = Ret (True, c1)" "conn_ok held c1"
      using send_loop_ok [OF assms(1), of cb msg_type "txseq c" msg True 0] by auto
    then show ?thesis
      using ret [OF l(1)] send_loop_frame [OF l(1) assms(3)] send_loop_acked [OF l(1) assms(1)] by simp
  qed
  fix k d ds rest
  assume a: "rx_msgs c = [] \<and> mem_free (rxmem c) \<noteq> [] \<and> inbox c = replicate k [] @ (d # ds) # rest
    \<and> is_ack msg_type (txseq c) d \<and> length d \<le> 512"
  have "rx_ok c" using assms(1) by (simp add: conn_ok_def)
  then obtain c1 where "send_loop cb msg_type (txseq c) msg True 0 c = Ret (True, c1)"
    "sent c1 = sent c @ replicate (Suc (k div 100)) (be32 msg_type @ be32 (txseq c) @ msg)"
    using send_loop_quiet [OF _ _ assms(3), of msg_type "txseq c" d c k ds rest cb] a by auto
  then show "\<exists>c'. agv_send_msg cb msg_type msg 0 c = Ret (None, c')
      \<and> sent c' = sent c @ replicate (Suc (k div 100)) (be32 msg_type @ be32 (txseq c) @ msg)"
    using ret by blast
qed

text \<open>
  The acknowledgement arrives after 1.5 s: the message was sent twice. An acknowledgement with
  another number does not end the send.
\<close>

theorem send_until_acked_witness:
  "(\<exists>c'. agv_send_msg demo_cb MSG_REGISTER [] 0
        (demo_conn\<lparr>inbox := replicate 150 [] @ [[be32 MSG_REGISTER @ be32 0]]\<rparr>) = Ret (None, c')
      \<and> txseq c' = 1 \<and> sent c' = [be32 MSG_REGISTER @ be32 0, be32 MSG_REGISTER @ be32 0])
    \<and> agv_send_msg demo_cb MSG_REGISTER [] 0 (demo_conn\<lparr>inbox := [[be32 MSG_REGISTER @ be32 1]]\<rparr>) = Hang"
proof
  let ?c = "demo_conn\<lparr>inbox := replicate 150 [] @ [[be32 MSG_REGISTER @ be32 0]]\<rparr>"
  have ok: "conn_ok [] ?c" using demo_conn_ok(1) by simp
  have r: "rx_msgs ?c = []" using demo_conn_ok(3) by (simp add: rx_msgs_def)
  have ack: "is_ack MSG_REGISTER 0 (be32 MSG_REGISTER @ be32 0)" by (simp add: is_ack_def)
  have i: "inbox ?c = replicate 150 [] @ ((be32 MSG_REGISTER @ be32 0) # []) # []" by simp
  note s = send_until_acked [OF ok, of MSG_REGISTER "[]" demo_cb]
  obtain c' where c': "agv_send_msg demo_cb MSG_REGISTER [] 0 ?c = Ret (None, c')"
    "sent c' = replicate (Suc (150 div 100)) (be32 MSG_REGISTER @ be32 0)"
    using s r ack i demo_conn_free(2) by (fastforce simp: demo_conn_fields)
  then have "txseq c' = 1" using s by (simp add: demo_conn_fields)
  then show "\<exists>c'. agv_send_msg demo_cb MSG_REGISTER [] 0 ?c = Ret (None, c')
      \<and> txseq c' = 1 \<and> sent c' = [be32 MSG_REGISTER @ be32 0, be32 MSG_REGISTER @ be32 0]"
    using c' by (simp add: numeral_2_eq_2)
next
  let ?c = "demo_conn\<lparr>inbox := [[be32 MSG_REGISTER @ be32 1]]\<rparr>"
  have ok: "conn_ok [] ?c" using demo_conn_ok(1) by simp
  have "incoming ?c = [be32 MSG_REGISTER @ be32 1]" using demo_conn_ok(3) by (simp add: incoming_def rx_msgs_def)
  then have "\<not> (\<exists>d\<in>set (incoming ?c). is_ack MSG_REGISTER (txseq ?c) d)"
    by (simp add: is_ack_def demo_conn_fields)
  then show "agv_send_msg demo_cb MSG_REGISTER [] 0 ?c = Hang"
    using send_until_acked [OF ok, of MSG_REGISTER "[]" demo_cb] by (simp add: demo_conn_fields)
qed

text \<open>
  C2: a round over the buffered actions that returns has confirmed every action that was
  buffered and handed it to the vehicle, once, in the order of arrival; then the actions
  accepted while it waited for the acknowledgements. Each of those comes from a datagram of its
  own among those waiting or arriving, in their order, addressed to this vehicle, and has not
  the number of the request accepted before it unless that is 0, so a repetition of an action is
  answered and neither buffered nor handed over again. The queue is empty and all its blocks are free.
\<close>

theorem buffered_actions_in_order:
  assumes "conn_ok [] c" "process_buffered_msg cb c = Ret c'" "conn_state c \<noteq> CONNSTATE_ERROR" "cb_pure cb"
  shows "act_msgs c' = [] \<and> conn_ok [] c' \<and> (\<exists>acc later. accepted c c' acc
    \<and> map act_decode later = actions (map request acc)
    \<and> agv c' = fold (hand_over cb) (act_data c @ later) (agv c)
    \<and> confirmed c c' (actions (act_msgs c @ map request acc)))"
  using process_buffered_msg_ok [OF assms(1), of cb] process_buffered_msg_log [OF assms(1-3)] assms(2,4)
  by (auto simp: act_msgs_def)

text \<open>
  An action is received and buffered; the server acknowledges the confirmation, and the vehicle
  gets that action and no other.
\<close>

lemma demo_round:
  assumes "conn_ok [] c" "act_msgs c = [(MSG_ACTION, n, ps)]" "conn_state c \<noteq> CONNSTATE_ERROR"
    "rx_msgs c = []" "mem_free (rxmem c) \<noteq> []" "inbox c = [[be32 MSG_CONFIRM @ be32 (txseq c)]]"
  shows "\<exists>c'. process_buffered_msg cb c = Ret c'"
proof -
  obtain d where d: "act_data c = [d]" "act_decode d = (MSG_ACTION, n, ps)" using assms(2) by (auto simp: act_msgs_def)
  obtain p where p: "fst (fst (OSQAccept (action_que c))) = p" "p \<noteq> 0"
    "conn_ok [p] (c\<lparr>action_que := snd (OSQAccept (action_que c))\<rparr>)"
    "act_data (c\<lparr>action_que := snd (OSQAccept (action_que c))\<rparr>) = []"
    "blk_read p 0 512 (action_mem c) = Ret d"
    by (rule act_accept [OF assms(1) d(1)])
  let ?c = "c\<lparr>action_que := snd (OSQAccept (action_que c))\<rparr>"
  have t: "of_le32 d = MSG_ACTION" using d(2) by (simp add: act_decode_def)
  have q: "rx_ok ?c" "rx_msgs ?c = []" "mem_free (rxmem ?c) \<noteq> []"
    "inbox ?c = replicate 0 [] @ ((be32 MSG_CONFIRM @ be32 (txseq c)) # []) # []"
    using assms(4-6) p(3) by (simp_all add: rx_msgs_def conn_ok_def)
  have ack: "is_ack MSG_CONFIRM (txseq c) (be32 MSG_CONFIRM @ be32 (txseq c))" by (simp add: is_ack_def)
  obtain c1 where l: "send_loop cb MSG_CONFIRM (txseq c) (be32 (agvid c) @ be32 (of_le32 d) @ be32 (of_le32 (drop 4 d))) True 0 ?c
      = Ret (True, c1)"
    using send_loop_quiet [OF ack _ _ q, where cb = cb and msg = "be32 (agvid c) @ be32 (of_le32 d) @ be32 (of_le32 (drop 4 d))"] by auto
  then obtain r c2 where c2: "agv_confirm_msg cb (of_le32 d) (of_le32 (drop 4 d)) ?c = Ret (r, c2)"
    by (cases "conn_state c1 = CONNSTATE_ERROR")
      (auto simp: agv_confirm_msg_def agv_send_msg_def agv_send_msg_locked_def)
  obtain acc more where acc: "accepted ?c c2 acc" "act_data c2 = more" "map act_decode more = actions (map request acc)"
    using agv_confirm_msg_log [OF c2 p(3), of ps] assms(3) p(4) by auto
  have "incoming ?c = [be32 MSG_CONFIRM @ be32 (txseq c)]" using assms(4,6) by (simp add: incoming_def rx_msgs_def)
  then have "acc = []" using accepted_short [OF acc(1)] by simp
  then have e: "act_data c2 = []" using acc by (simp add: actions_def)
  let ?c4 = "c2\<lparr>agv := agvcp_event_callback cb (of_be32 (drop 12 d)) (of_be32 (drop 16 d)) (drop 20 d) (agv c2),
    action_mem := snd (OSMemPut p (action_mem c2))\<rparr>"
  have "conn_ok [p] (c2\<lparr>agv := agvcp_event_callback cb (of_be32 (drop 12 d)) (of_be32 (drop 16 d)) (drop 20 d) (agv c2)\<rparr>)"
    using agv_confirm_msg_grow(1) [OF c2 p(3)] by simp
  from act_put(2) [OF this] e have "act_data ?c4 = []" by simp
  then have "OSQAccept (action_que ?c4) = ((0, OS_ERR_Q_EMPTY), action_que ?c4)"
    by (simp only: act_data_def mbox_accept_empty)
  then have "process_buffered_msg cb ?c4 = Ret ?c4" by (subst process_buffered_msg.simps) simp
  moreover have "process_buffered_msg cb c = process_buffered_msg cb ?c4"
    by (subst process_buffered_msg.simps) (use p t c2 in simp)
  ultimately show ?thesis by auto
qed

theorem buffered_actions_in_order_witness:
  "\<exists>c1 c2. agvcp_msg_process demo_cb MSG_ACTION 7 (be32 1 @ be32 4 @ be32 9 @ [0, 0]) 12
        (demo_conn\<lparr>inbox := [[be32 MSG_CONFIRM @ be32 0]]\<rparr>) = Ret (None, c1)
    \<and> process_buffered_msg demo_cb c1 = Ret c2 \<and> act_msgs c2 = [] \<and> agv c2 = [1]
    \<and> confirmed c1 c2 [(MSG_ACTION, 7, be32 1 @ be32 4 @ be32 9)]"
proof -
  let ?c = "demo_conn\<lparr>inbox := [[be32 MSG_CONFIRM @ be32 0]]\<rparr>"
  let ?m = "(MSG_ACTION, 7 :: u32, be32 1 @ be32 4 @ be32 9)"
  have ok: "conn_ok [] ?c" using demo_conn_ok(1) by simp
  have lok: "len_ok (be32 1 @ be32 4 @ be32 9 @ [0, 0]) 12" by (simp add: len_ok_def)
  have pl: "of_be32 (drop 4 (be32 1 @ be32 4 @ be32 9 @ [0, 0])) + 8 = 12" by simp
  have "\<not> is_repeat 7 ?c" by (simp add: is_repeat_def demo_conn_fields)
  then obtain c1 where c1: "agvcp_msg_process demo_cb MSG_ACTION 7 (be32 1 @ be32 4 @ be32 9 @ [0, 0]) 12 ?c = Ret (None, c1)"
    "conn_ok [] c1" "act_msgs c1 = [?m]"
    using process_action [OF ok lok, of demo_cb 7] demo_conn_free(1) demo_conn_ok(2) pl by auto
  note f = msg_process_frame [OF c1(1)] and rx = msg_process_rx [OF c1(1)]
  have r: "conn_state c1 \<noteq> CONNSTATE_ERROR" "rx_msgs c1 = []" "mem_free (rxmem c1) \<noteq> []"
    "inbox c1 = [[be32 MSG_CONFIRM @ be32 (txseq c1)]]" "incoming c1 = [be32 MSG_CONFIRM @ be32 0]"
    using f rx demo_conn_free(2) demo_conn_ok(3) by (simp_all add: conn_frame_def demo_conn_fields incoming_def rx_msgs_def)
  have agv: "agv c1 = []"
    using msg_process_agv [OF c1(1)] by (simp add: agv_same_def cb_pure_def demo_cb_def demo_conn_fields)
  have pure: "cb_pure demo_cb" by (simp add: cb_pure_def demo_cb_def)
  obtain c2 where c2: "process_buffered_msg demo_cb c1 = Ret c2" using demo_round [OF c1(2,3) r(1-4)] by blast
  obtain acc later where acc: "act_msgs c2 = []" "accepted c1 c2 acc" "map act_decode later = actions (map request acc)"
    "agv c2 = fold (hand_over demo_cb) (act_data c1 @ later) []"
    "confirmed c1 c2 (actions (act_msgs c1 @ map request acc))"
    using buffered_actions_in_order [OF c1(2) c2 r(1) pure] agv by auto
  have "acc = []" using accepted_short [OF acc(2)] r(5) by simp
  then have l: "later = []" "actions (act_msgs c1 @ map request acc) = [?m]"
    using acc(3) c1(3) by (simp_all add: actions_def)
  obtain d where d: "act_data c1 = [d]" "act_decode d = ?m" using c1(3) by (auto simp: act_msgs_def)
  let ?n = "unat (of_le32 (drop 8 d))"
  have ps: "take ?n (drop 12 d) = be32 1 @ be32 4 @ be32 9" "of_le32 d = MSG_ACTION" using d(2) by (simp_all add: act_decode_def)
  from arg_cong [OF ps(1), of length] have "4 \<le> ?n" by simp
  then have "of_be32 (drop 12 d) = 1" using of_be32_take [of ?n "drop 12 d"] ps(1) by simp
  then have "agv c2 = [1]" using acc(4) d(1) l(1) ps(2) by (simp add: hand_over_def demo_cb_def)
  then show ?thesis using c1(1) c2 acc(1,5) l(2) by auto
qed

text \<open>
  C21: a round of the connection never faults and keeps both mailboxes intact as long as the
  datagram it reads has at least the twelve bytes of the header and the vehicle's name;
  and it never leaves the online state, so a lost connection is never reported.
\<close>

theorem connection_round_safe:
  assumes "conn_ok [] c" "rx_msgs c \<noteq> [] \<Longrightarrow> 12 \<le> length (hd (rx_msgs c))"
  shows "connection_step cb tm (hb, c) \<noteq> Fault
    \<and> (\<forall>hb' c'. connection_step cb tm (hb, c) = Ret (hb', c') \<longrightarrow> conn_ok [] c' \<and> act_msgs c' = []
        \<and> (conn_state c = CONNSTATE_ONLINE \<longrightarrow> conn_state c' = CONNSTATE_ONLINE))"
  using connection_step_ok [OF assms, of cb tm hb] by (auto simp: act_msgs_def)

text \<open>The connection is online, and the server reads a parameter.\<close>

theorem connection_round_safe_witness:
  "\<exists>c. sock_async_rxcallback (be32 MSG_READ_PARAM @ be32 3 @ be32 5 @ be32 1) (demo_conn\<lparr>conn_state := CONNSTATE_ONLINE\<rparr>) = Ret c
    \<and> rx_msgs c = [be32 MSG_READ_PARAM @ be32 3 @ be32 5 @ be32 1] \<and> connection_step demo_cb 700 (0, c) \<noteq> Fault
    \<and> (\<forall>hb' c'. connection_step demo_cb 700 (0, c) = Ret (hb', c') \<longrightarrow> conn_state c' = CONNSTATE_ONLINE)"
proof -
  let ?c = "demo_conn\<lparr>conn_state := CONNSTATE_ONLINE\<rparr>" and ?d = "be32 MSG_READ_PARAM @ be32 3 @ be32 5 @ be32 1"
  have ok: "conn_ok [] ?c" "rx_ok ?c" using demo_conn_ok(1) by (simp_all add: conn_ok_def rx_ok_def act_ok_def)
  obtain c where c: "sock_async_rxcallback ?d ?c = Ret c" "rx_ok c" "rx_msgs c = [?d]"
    using sock_async_rx [OF ok(2), of ?d] demo_conn_free(2) demo_conn_ok(3) by (auto simp: rx_msgs_def)
  note f = sock_async_frame [OF c(1)]
  have "conn_ok [] c" using ok c(2) f by (simp add: conn_ok_def act_ok_def conn_frame_def)
  moreover have "conn_state c = CONNSTATE_ONLINE" using f by (simp add: conn_frame_def)
  moreover have "12 \<le> length (hd (rx_msgs c))" using c(3) by simp
  ultimately show ?thesis using connection_round_safe [of c demo_cb 700 0] c(1,3) by blast
qed

text \<open>
  the guard the previous property needs is necessary: an action datagram that ends
  after its header, read over a buffer in which an earlier message left the vehicle's name
  and the length \<open>0xFFFFFFF4\<close>, passes the length checks (both wrap around) and makes
  \<open>buffer_msg\<close> copy almost four gigabytes out of the 256-byte buffer.
\<close>

theorem short_action_faults:
  assumes "conn_ok [] c" "rx_msgs c = (be32 MSG_ACTION @ be32 seq) # ds"
    and "of_be32 (rxdata c) = agvid c" "of_be32 (drop 8 (rxdata c)) = 0xFFFFFFF4"
    and "\<not> is_repeat seq c" "mem_free (action_mem c) \<noteq> []"
  shows "connection_step cb tm (tm, c) = Fault"
proof -
  have rok: "rx_ok c" "act_ok [] c" "length (rxdata c) = 256" using assms(1) by (auto simp: conn_ok_def)
  have d8: "8 \<le> length (be32 MSG_ACTION @ be32 seq)" by simp
  obtain c2 where c2: "agv_rx_msg (rxdata c) c = Ret (Inr (MSG_ACTION, seq, 0), rxdata c, c2)"
    by (rule agv_rx_msg_some [OF rok(1) assms(2) d8, of "rxdata c"]) simp
  note f = agv_rx_msg_frame [OF c2]
  obtain p fs where fs: "mem_free (action_mem c) = p # fs" using assms(6) by (cases "mem_free (action_mem c)") auto
  have own: "mbox.owned (action_que c) (action_mem c) []" using rok(2) by (simp add: act_ok_def)
  obtain m1 where m1: "OSMemGet (action_mem c) = ((p, OS_ERR_NONE), m1)" "p \<noteq> 0"
    by (rule mbox_get [OF own fs])
  have "buffer_msg MSG_ACTION seq (drop 4 (rxdata c)) (- 4) (c2\<lparr>rxdata := rxdata c\<rparr>) = Fault"
    using m1 f rok(3) by (simp add: buffer_msg_def)
  moreover have "\<not> is_repeat seq (c2\<lparr>rxdata := rxdata c\<rparr>)" using assms(5) f by (simp add: is_repeat_def)
  ultimately have "agvcp_msg_process cb MSG_ACTION seq (drop 4 (rxdata c)) (of_nat 0 - 4) (c2\<lparr>rxdata := rxdata c\<rparr>) = Fault"
    using assms(4) by (simp add: agvcp_msg_process_def Let_def)
  moreover have "TIME_DIFFERENCE tm tm = 0" by (simp add: TIME_DIFFERENCE_def)
  moreover have "agvid c2 = agvid c" using f by (simp add: conn_frame_def)
  ultimately show ?thesis
    using c2 assms(3) by (simp add: connection_step_def HEARTBEAT_TICKS_def)
qed

theorem short_action_faults_witness:
  "\<exists>c. sock_async_rxcallback (be32 MSG_ACTION @ be32 9) (demo_conn\<lparr>rxdata := be32 5 @ be32 1 @ be32 0xFFFFFFF4 @ replicate 244 0\<rparr>) = Ret c
    \<and> connection_step demo_cb 0 (0, c) = Fault"
proof -
  let ?d = "be32 5 @ be32 1 @ be32 0xFFFFFFF4 @ replicate 244 0"
  let ?c = "demo_conn\<lparr>rxdata := ?d\<rparr>"
  have ok: "conn_ok [] ?c" "rx_ok ?c" using demo_conn_ok(1) by (simp_all add: conn_ok_def rx_ok_def act_ok_def)
  obtain c where c: "sock_async_rxcallback (be32 MSG_ACTION @ be32 9) ?c = Ret c" "rx_ok c"
    "rx_msgs c = [be32 MSG_ACTION @ be32 9]"
    using sock_async_rx [OF ok(2), of "be32 MSG_ACTION @ be32 9"] demo_conn_free(2) demo_conn_ok(3)
    by (auto simp: rx_msgs_def)
  note f = sock_async_frame [OF c(1)]
  have f': "rxdata c = ?d" "agvid c = 5" "junk c = junk demo_conn" "rxseq c = NOT 0"
    using f by (simp_all add: conn_frame_def demo_conn_fields)
  have "conn_ok [] c" using ok c(2) f f' by (simp add: conn_ok_def act_ok_def)
  moreover have "of_be32 (rxdata c) = agvid c" "of_be32 (drop 8 (rxdata c)) = 0xFFFFFFF4"
    unfolding f' by simp_all
  moreover have "\<not> is_repeat 9 c" unfolding is_repeat_def f'(4) by simp
  moreover have "mem_free (action_mem c) \<noteq> []" using f demo_conn_free by simp
  ultimately have "connection_step demo_cb 0 (0, c) = Fault"
    using short_action_faults [of c 9 "[]" demo_cb 0] c(3) by simp
  then show ?thesis using c(1) by blast
qed

end
