(* ===== verification/List_Head.thy ===== *)
theory List_Head
  imports Prelude
begin

text \<open>
  The intrusive doubly linked lists of \<open>usr/include/common/list.h\<close>, on a store of links: a
  node is an address and the head is a node like the others. \<open>dlist l h xs\<close> is the
  abstraction: from the head \<open>h\<close> the nodes \<open>xs\<close> follow in this order and the links lead
  back. The registries of the CAN dispatcher and of the log are such lists.
\<close>

section \<open>Links and operations\<close>

record links =
  next_of :: "nat \<Rightarrow> nat"
  prev_of :: "nat \<Rightarrow> nat"

definition INIT_LIST_HEAD :: "nat \<Rightarrow> links \<Rightarrow> links" where
  "INIT_LIST_HEAD h l = l\<lparr>next_of := (next_of l)(h := h), prev_of := (prev_of l)(h := h)\<rparr>"

definition list_add :: "nat \<Rightarrow> nat \<Rightarrow> links \<Rightarrow> links" where
  "list_add newent afterthisent l =
     (let nx = next_of l afterthisent;
          l1 = l\<lparr>next_of := (next_of l)(newent := nx)\<rparr>;
          l2 = l1\<lparr>prev_of := (prev_of l1)(newent := afterthisent)\<rparr>;
          l3 = l2\<lparr>next_of := (next_of l2)(afterthisent := newent)\<rparr>
      in l3\<lparr>prev_of := (prev_of l3)(nx := newent)\<rparr>)"

definition list_add_tail :: "nat \<Rightarrow> nat \<Rightarrow> links \<Rightarrow> links" where
  "list_add_tail newent beforethisent l =
     (let pv = prev_of l beforethisent;
          l1 = l\<lparr>prev_of := (prev_of l)(newent := pv)\<rparr>;
          l2 = l1\<lparr>next_of := (next_of l1)(newent := beforethisent)\<rparr>;
          l3 = l2\<lparr>prev_of := (prev_of l2)(beforethisent := newent)\<rparr>
      in l3\<lparr>next_of := (next_of l3)(pv := newent)\<rparr>)"

definition list_del :: "nat \<Rightarrow> links \<Rightarrow> links" where
  "list_del ent l =
     (let l1 = l\<lparr>next_of := (next_of l)(prev_of l ent := next_of l ent)\<rparr>
      in l1\<lparr>prev_of := (prev_of l1)(next_of l1 ent := prev_of l1 ent)\<rparr>)"

definition list_empty :: "nat \<Rightarrow> links \<Rightarrow> bool" where
  "list_empty h l \<longleftrightarrow> next_of l h = h"

text \<open>
  \<open>list_for_each\<close> with a body that may leave the loop: \<open>body node s\<close> gives the new state
  and whether to go on. The fuel is the number of nodes the loop may visit; \<open>None\<close> means
  it was not enough.
\<close>

primrec list_for_each :: "nat \<Rightarrow> links \<Rightarrow> nat \<Rightarrow> (nat \<Rightarrow> 's \<Rightarrow> bool \<times> 's) \<Rightarrow> nat \<Rightarrow> 's \<Rightarrow> 's option" where
  "list_for_each 0 l h body ent s = (if ent = h then Some s else None)"
| "list_for_each (Suc n) l h body ent s =
     (if ent = h then Some s
      else case body ent s of
             (goon, s') \<Rightarrow> if goon then list_for_each n l h body (next_of l ent) s' else Some s')"

section \<open>Abstraction\<close>

fun chain :: "links \<Rightarrow> nat list \<Rightarrow> bool" where
  "chain l (a # b # xs) \<longleftrightarrow> next_of l a = b \<and> prev_of l b = a \<and> chain l (b # xs)"
| "chain l _ \<longleftrightarrow> True"

definition dlist :: "links \<Rightarrow> nat \<Rightarrow> nat list \<Rightarrow> bool" where
  "dlist l h xs \<longleftrightarrow> distinct (h # xs) \<and> chain l (h # xs @ [h])"

lemma chain_append: "chain l (xs @ a # ys) \<longleftrightarrow> chain l (xs @ [a]) \<and> chain l (a # ys)"
  by (induction l xs rule: chain.induct) auto

lemma chain_cong:
  "(\<And>a. a \<in> set (butlast xs) \<Longrightarrow> next_of l' a = next_of l a) \<Longrightarrow>
   (\<And>a. a \<in> set (tl xs) \<Longrightarrow> prev_of l' a = prev_of l a) \<Longrightarrow> chain l' xs = chain l xs"
  by (induction l xs rule: chain.induct) auto

lemma chain_last: "chain l (xs @ [a, b]) \<Longrightarrow> prev_of l b = a \<and> next_of l a = b"
  using chain_append [of l xs a "[b]"] by simp

lemma dlist_init: "dlist (INIT_LIST_HEAD h l) h []"
  by (simp add: dlist_def INIT_LIST_HEAD_def)

lemma dlist_empty: "dlist l h xs \<Longrightarrow> list_empty h l \<longleftrightarrow> xs = []"
  by (cases xs) (auto simp: dlist_def list_empty_def)

lemma dlist_distinct: "dlist l h xs \<Longrightarrow> distinct xs \<and> h \<notin> set xs"
  by (simp add: dlist_def)

text \<open>The three ways a list changes, each as the list operation it is.\<close>

lemma dlist_add_tail:
  assumes "dlist l h xs" "x \<notin> set (h # xs)"
  shows "dlist (list_add_tail x h l) h (xs @ [x])"
proof -
  obtain ys z where z: "h # xs = ys @ [z]" by (cases "h # xs" rule: rev_cases) auto
  have c: "chain l (ys @ [z, h])" using assms(1) z by (metis append_Cons append_assoc append_Nil dlist_def)
  then have pz: "prev_of l h = z" using chain_last by blast
  let ?l = "list_add_tail x h l"
  have "distinct (ys @ [z])" "x \<notin> set (ys @ [z])" "x \<noteq> h"
    using assms by (simp_all add: dlist_def flip: z)
  then have ne: "x \<noteq> h" "x \<noteq> z" "x \<notin> set ys" "z \<notin> set ys" by auto
  have "h \<notin> set (tl (ys @ [z]))" using assms(1) by (simp add: dlist_def flip: z)
  moreover have "x \<notin> set (tl (ys @ [z]))" using assms(2) by (simp flip: z)
  ultimately have "chain ?l (ys @ [z]) = chain l (ys @ [z])"
    using ne by (intro chain_cong) (auto simp: list_add_tail_def Let_def pz butlast_append)
  moreover have "chain l (ys @ [z])" using c chain_append [of l ys z "[h]"] by simp
  ultimately have "chain ?l (ys @ [z, x, h])"
    using ne chain_append [of ?l ys z "[x, h]"] by (auto simp: list_add_tail_def Let_def pz)
  then have "chain ?l (h # (xs @ [x]) @ [h])" using z by (metis append_Cons append_assoc append_Nil)
  then show ?thesis using assms by (simp add: dlist_def)
qed

lemma dlist_add:
  assumes "dlist l h xs" "x \<notin> set (h # xs)"
  shows "dlist (list_add x h l) h (x # xs)"
proof -
  obtain z zs where z: "xs @ [h] = z # zs" by (cases "xs @ [h]") auto
  have c: "chain l (h # z # zs)" using assms(1) z by (simp add: dlist_def)
  then have nz: "next_of l h = z" by simp
  let ?l = "list_add x h l"
  have "x \<notin> set (z # zs)" using assms(2) by (simp flip: z)
  then have ne: "x \<noteq> h" "x \<noteq> z" "x \<notin> set zs" using assms(2) by auto
  have "distinct (z # zs)"
    using assms(1) by (simp add: dlist_def flip: z)
  moreover have "h \<notin> set (butlast (z # zs))" using assms(1) by (simp add: dlist_def flip: z)
  moreover have "x \<notin> set (butlast (z # zs))" using assms(2) by (simp flip: z)
  ultimately have "chain ?l (z # zs) = chain l (z # zs)"
    using ne by (intro chain_cong) (auto simp: list_add_def Let_def nz)
  then have "chain ?l (h # x # z # zs)" using c ne by (auto simp: list_add_def Let_def nz)
  then show ?thesis using assms z by (simp add: dlist_def)
qed

lemma dlist_del:
  assumes "dlist l h (xs @ x # ys)" shows "dlist (list_del x l) h (xs @ ys)"
proof -
  obtain us u where u: "h # xs = us @ [u]" by (cases "h # xs" rule: rev_cases) auto
  obtain v vs where v: "ys @ [h] = v # vs" by (cases "ys @ [h]") auto
  have e: "h # (xs @ x # ys) @ [h] = us @ [u, x] @ (v # vs)"
    using u v by (metis append.assoc append_Cons append_Nil)
  then have c: "chain l (us @ [u, x] @ (v # vs))" using assms by (simp add: dlist_def)
  then have c1: "chain l (us @ [u])" and c2: "chain l (u # x # v # vs)"
    using chain_append [of l us u "x # v # vs"] by simp_all
  then have pn: "prev_of l x = u" "next_of l x = v" by auto
  let ?l = "list_del x l"
  have d: "distinct (us @ [u])" "distinct (v # vs)" "x \<notin> set (us @ [u])" "x \<notin> set (v # vs)"
    using assms by (simp_all add: dlist_def flip: u v)
  have d2: "u \<notin> set (butlast (v # vs))" "v \<notin> set (tl (us @ [u]))"
  proof -
    have "set (us @ [u]) = insert h (set xs)" "butlast (v # vs) = ys"
      by (simp_all flip: u v)
    moreover have "u \<in> set (us @ [u])" by simp
    ultimately show "u \<notin> set (butlast (v # vs))" using assms by (auto simp: dlist_def)
    have "tl (us @ [u]) = xs" "set (v # vs) = insert h (set ys)"
      by (simp_all flip: u v)
    moreover have "v \<in> set (v # vs)" by simp
    ultimately show "v \<notin> set (tl (us @ [u]))" using assms by (auto simp: dlist_def)
  qed
  have l: "next_of ?l = (next_of l)(u := v)" "prev_of ?l = (prev_of l)(v := u)"
    using d by (auto simp: list_del_def Let_def pn)
  have "chain ?l (us @ [u]) = chain l (us @ [u])"
    using d d2 by (intro chain_cong) (auto simp: l butlast_append)
  moreover have "chain ?l (v # vs) = chain l (v # vs)"
    using d d2 by (intro chain_cong) (auto simp: l)
  ultimately have "chain ?l (us @ u # v # vs)"
    using c1 c2 chain_append [of ?l us u "v # vs"] by (simp add: l)
  moreover have "us @ u # v # vs = h # (xs @ ys) @ [h]"
    using u v by (metis append.assoc append_Cons append_Nil)
  ultimately show ?thesis using assms by (simp add: dlist_def)
qed

text \<open>The loop runs over exactly the nodes of the list, in order, until the body leaves it.\<close>

primrec each :: "(nat \<Rightarrow> 's \<Rightarrow> bool \<times> 's) \<Rightarrow> nat list \<Rightarrow> 's \<Rightarrow> 's" where
  "each body [] s = s"
| "each body (x # xs) s = (case body x s of (goon, s') \<Rightarrow> if goon then each body xs s' else s')"

lemma for_each_chain:
  "chain l (xs @ [h]) \<Longrightarrow> h \<notin> set xs \<Longrightarrow> length xs \<le> n \<Longrightarrow>
     list_for_each n l h body (hd (xs @ [h])) s = Some (each body xs s)"
proof (induction xs arbitrary: n s)
  case Nil
  then show ?case by (cases n) simp_all
next
  case (Cons x xs)
  obtain m where m: "n = Suc m" using Cons.prems(3) by (cases n) auto
  have nx: "next_of l x = hd (xs @ [h])" "chain l (xs @ [h])"
    using Cons.prems(1) by (cases xs; auto)+
  have IH: "list_for_each m l h body (hd (xs @ [h])) s' = Some (each body xs s')" for s'
    using Cons.prems(2,3) m nx(2) by (intro Cons.IH) auto
  show ?case using Cons.prems(2) by (auto simp: m nx(1) IH split: prod.split)
qed

lemma for_each_dlist:
  assumes "dlist l h xs" "length xs \<le> n"
  shows "list_for_each n l h body (next_of l h) s = Some (each body xs s)"
proof -
  have c: "chain l (xs @ [h])" "next_of l h = hd (xs @ [h])"
    using assms(1) by (cases xs; auto simp: dlist_def)+
  show ?thesis unfolding c(2) using assms c(1) by (intro for_each_chain) (auto simp: dlist_def)
qed

section \<open>Registries\<close>

text \<open>
  What the two registries rest on: an ordered collection of handles to which a handle is
  added at the end and from which any handle can be removed.
\<close>

locale registry =
  fixes add :: "'h \<Rightarrow> 's \<Rightarrow> 's"
    and del :: "'h \<Rightarrow> 's \<Rightarrow> 's"
    and entries :: "'s \<Rightarrow> 'h list \<Rightarrow> bool"
    and usable :: "'h \<Rightarrow> bool"
  assumes entries_distinct: "entries s xs \<Longrightarrow> distinct xs"
    and add_law: "entries s xs \<Longrightarrow> x \<notin> set xs \<Longrightarrow> usable x \<Longrightarrow> entries (add x s) (xs @ [x])"
    and del_law: "entries s (xs @ x # ys) \<Longrightarrow> entries (del x s) (xs @ ys)"
begin

lemma del_remove: "entries s xs \<Longrightarrow> x \<in> set xs \<Longrightarrow> entries (del x s) (remove1 x xs)"
proof -
  assume e: "entries s xs" "x \<in> set xs"
  then obtain us vs where "xs = us @ x # vs" "x \<notin> set us" by (metis split_list_first)
  then show ?thesis using e(1) del_law by (simp add: remove1_append)
qed

lemma add_all:
  "entries s xs \<Longrightarrow> distinct (xs @ ys) \<Longrightarrow> \<forall>y\<in>set ys. usable y \<Longrightarrow> entries (fold add ys s) (xs @ ys)"
proof (induction ys arbitrary: s xs)
  case (Cons y ys)
  have "entries (fold add ys (add y s)) ((xs @ [y]) @ ys)"
    using Cons.prems by (intro Cons.IH add_law) auto
  then show ?case by simp
qed simp

lemma add_del: "entries s xs \<Longrightarrow> x \<notin> set xs \<Longrightarrow> usable x \<Longrightarrow> entries (del x (add x s)) xs"
  using del_law [of "add x s" xs x "[]"] add_law [of s xs x] by simp

end

interpretation dl: registry "\<lambda>x. list_add_tail x h" list_del "\<lambda>l. dlist l h" "\<lambda>x. x \<noteq> h"
  by unfold_locales (use dlist_add_tail dlist_del in \<open>auto simp: dlist_def\<close>)

section \<open>Property\<close>

text \<open>
  C31: the list macros implement a list: adding a node that is not in it appends it,
  deleting a node of it removes that node only, and the loop visits exactly the nodes,
  in order, however the links lie in memory.
\<close>

theorem list_head_refines_list:
  assumes "dlist l h xs"
  shows "(x \<notin> set (h # xs) \<longrightarrow> dlist (list_add_tail x h l) h (xs @ [x]) \<and> dlist (list_add x h l) h (x # xs))
    \<and> (x \<in> set xs \<longrightarrow> dlist (list_del x l) h (remove1 x xs))
    \<and> list_for_each (length xs) l h (\<lambda>n ns. (True, ns @ [n])) (next_of l h) [] = Some xs"
proof -
  have e: "each (\<lambda>n ns. (True, ns @ [n])) ys ns = ns @ ys" for ys ns :: "nat list"
    by (induction ys arbitrary: ns) auto
  have "list_for_each (length xs) l h (\<lambda>n ns. (True, ns @ [n])) (next_of l h) [] = Some xs"
    unfolding for_each_dlist [OF assms order.refl] e by simp
  then show ?thesis
    using dlist_add_tail [OF assms] dlist_add [OF assms] dl.del_remove [OF assms] by blast
qed

theorem list_head_refines_list_witness:
  "\<exists>l. dlist l 7 [20, 48] \<and> dlist (list_add_tail 76 7 l) 7 [20, 48, 76] \<and> dlist (list_del 20 l) 7 [48]"
proof -
  let ?l = "list_add_tail 48 7 (list_add_tail 20 7 (INIT_LIST_HEAD 7 \<lparr>next_of = \<lambda>_. 0, prev_of = \<lambda>_. 0\<rparr>))"
  have "dlist ?l 7 [20, 48]"
    by (simp add: dlist_def list_add_tail_def INIT_LIST_HEAD_def Let_def)
  with list_head_refines_list [OF this, of 76] list_head_refines_list [OF this, of 20]
  show ?thesis by (intro exI [of _ ?l]) simp
qed

end
