(* ===== verification/Reg_Pool.thy ===== *)
theory Reg_Pool
  imports Os_Mem List_Head
begin

text \<open>
  What the registries of the CAN dispatcher and of the log share: descriptors that come from
  a partition and are linked into a list while they are registered. \<open>reg_ok m l h us\<close>: the
  list from \<open>h\<close> holds the descriptors \<open>us\<close> and every block of the partition is either
  registered or free. The first two words of a registered block are its links; they are kept
  in the store of \<open>List_Head\<close>, the free list of the partition in the partition's memory.
\<close>

definition reg_ok :: "os_mem \<Rightarrow> links \<Rightarrow> nat \<Rightarrow> nat list \<Rightarrow> bool" where
  "reg_ok m l h us \<longleftrightarrow> mem_ok m \<and> dlist l h us \<and> h \<notin> set (mem_blocks m)
     \<and> set us \<inter> set (mem_free m) = {} \<and> set us \<union> set (mem_free m) = set (mem_blocks m)"

lemma reg_ok_distinct: "reg_ok m l h us \<Longrightarrow> distinct us"
  by (auto simp: reg_ok_def dest: dlist_distinct)

text \<open>Every block is counted once: there is room as long as not all are registered.\<close>

lemma reg_ok_count:
  assumes "reg_ok m l h us" shows "length us + OSMemNFree m = card (set (mem_blocks m))"
proof -
  have "distinct (us @ mem_free m)"
    using assms reg_ok_distinct [OF assms] by (auto simp: reg_ok_def mem_ok_def)
  then have "card (set (us @ mem_free m)) = length us + OSMemNFree m"
    by (metis distinct_card length_append length_mem_free)
  then show ?thesis using assms by (simp add: reg_ok_def)
qed

lemma reg_init:
  assumes "OSMemCreate parts addr nblks blksize m0 = (Some m, r)"
    and "0 < nblks" "4 \<le> blksize" "0 < addr" "addr + nblks * blksize \<le> 2 ^ 32"
    and "dlist l h []" "h < addr \<or> addr + nblks * blksize \<le> h"
  shows "reg_ok m l h []" "card (set (mem_blocks m)) = nblks"
proof -
  note c = OSMemCreate_ok [OF assms(1-5)]
  have a: "OSMemAddr m = addr" using assms(1) by (auto simp: OSMemCreate_def split: if_splits)
  have "h \<notin> set (mem_blocks m)"
    using assms(3,7) mem_blocks_bounds [of h m] by (auto simp: c a)
  then show "reg_ok m l h []" using c assms(6) by (simp add: reg_ok_def)
  have "distinct (mem_blocks m)" using c(1,2) by (simp add: mem_ok_def)
  then show "card (set (mem_blocks m)) = nblks" by (simp add: distinct_card c(3))
qed

text \<open>Registering: a fresh block, appended to the list; or nothing when all are in use.\<close>

lemma reg_full:
  assumes "reg_ok m l h us" "length us = card (set (mem_blocks m))"
  shows "OSMemGet m = ((0, OS_ERR_MEM_NO_FREE_BLKS), m)"
  using reg_ok_count [OF assms(1)] assms(2) by (intro OSMemGet_none) (metis add_cancel_left_right length_0_conv length_mem_free)

lemma reg_add:
  assumes "reg_ok m l h us" "length us < card (set (mem_blocks m))"
  obtains p m' where "OSMemGet m = ((p, OS_ERR_NONE), m')" "p \<noteq> 0" "p \<notin> set us"
    "reg_ok m' (list_add_tail p h l) h (us @ [p])" "mem_blocks m' = mem_blocks m"
proof -
  have ok: "mem_ok m" using assms(1) by (simp add: reg_ok_def)
  have "mem_free m \<noteq> []" using reg_ok_count [OF assms(1)] assms(2) by (metis add_cancel_left_right length_mem_free list.size(3) less_irrefl)
  then obtain p fs where p: "mem_free m = p # fs" by (cases "mem_free m") auto
  obtain m' where m': "OSMemGet m = ((p, OS_ERR_NONE), m')" "mem_ok m'" "mem_free m' = fs" "mem_blocks m' = mem_blocks m"
    by (rule OSMemGet_some [OF ok p])
  have pb: "p \<in> set (mem_blocks m)" "p \<notin> set us" "p \<noteq> h" "p \<notin> set fs"
    using assms(1) p by (auto simp: reg_ok_def mem_ok_def)
  have "dlist (list_add_tail p h l) h (us @ [p])"
    using assms(1) pb by (intro dl.add_law) (auto simp: reg_ok_def)
  then have "reg_ok m' (list_add_tail p h l) h (us @ [p])"
    using assms(1) p pb m' by (auto simp: reg_ok_def)
  moreover have "p \<noteq> 0" using mem_ok_block(1) [OF ok pb(1)] by simp
  ultimately show thesis using that m' pb by blast
qed

text \<open>Unregistering gives the block back.\<close>

lemma reg_del:
  assumes "reg_ok m l h us" "p \<in> set us"
  obtains m' where "OSMemPut p m = (OS_ERR_NONE, m')" "reg_ok m' (list_del p l) h (remove1 p us)"
    "mem_blocks m' = mem_blocks m"
proof -
  have ok: "mem_ok m" "p \<in> set (mem_blocks m)" "p \<notin> set (mem_free m)"
    using assms by (auto simp: reg_ok_def)
  obtain m' where m': "OSMemPut p m = (OS_ERR_NONE, m')" "mem_ok m'" "mem_free m' = p # mem_free m"
    "mem_blocks m' = mem_blocks m"
    by (rule OSMemPut_some [OF ok])
  have d: "distinct us" using assms(1) by (rule reg_ok_distinct)
  have dl: "dlist (list_del p l) h (remove1 p us)"
    using assms by (intro dl.del_remove) (auto simp: reg_ok_def)
  have r: "set us = insert p (set (remove1 p us))" "p \<notin> set (remove1 p us)"
    using assms(2) by (auto simp: set_remove1_eq [OF d])
  have u: "set us \<inter> set (mem_free m) = {}" "set us \<union> set (mem_free m) = set (mem_blocks m)"
    "h \<notin> set (mem_blocks m)"
    using assms(1) by (simp_all add: reg_ok_def)
  have "set (remove1 p us) \<inter> set (mem_free m') = {}" using u(1) r unfolding m'(3) by auto
  moreover have "set (remove1 p us) \<union> set (mem_free m') = set (mem_blocks m')"
    using u(2) r unfolding m'(3,4) by auto
  ultimately have "reg_ok m' (list_del p l) h (remove1 p us)"
    using m'(2,4) dl u(3) unfolding reg_ok_def by simp
  then show thesis using that m' by blast
qed

end
