(* ===== verification/Fifo.thy ===== *)
theory Fifo
  imports Prelude "HOL-Library.Sublist"
begin

text \<open>
  The contract of the receive buffers that interrupt handlers fill (CAN, UART, and the
  circular buffers of the console and of the log): a buffer of bounded capacity whose
  \<open>put\<close> never fails and drops the oldest elements when there is no room, and whose
  \<open>get\<close> takes the oldest element. The components provide it by interpretation.
\<close>

text \<open>The last \<open>n\<close> elements of a list.\<close>

definition keep_last :: "nat \<Rightarrow> 'a list \<Rightarrow> 'a list" where
  "keep_last n xs = drop (length xs - n) xs"

lemma length_keep_last [simp]: "length (keep_last n xs) = min n (length xs)"
  by (simp add: keep_last_def)

lemma keep_last_id [simp]: "length xs \<le> n \<Longrightarrow> keep_last n xs = xs"
  by (simp add: keep_last_def)

lemma keep_last_0 [simp]: "keep_last 0 xs = []"
  by (simp add: keep_last_def)

lemma keep_last_keep_last: "n \<le> m \<Longrightarrow> keep_last n (keep_last m xs) = keep_last n xs"
  unfolding keep_last_def drop_drop by (rule arg_cong [where f = "\<lambda>k. drop k xs"]) simp

lemma keep_last_append: "keep_last n (xs @ ys) = keep_last (n - length ys) xs @ keep_last n ys"
  by (cases "length ys \<le> n") (simp_all add: keep_last_def)

lemma keep_last_keep_last_append: "n \<le> m \<Longrightarrow> keep_last n (keep_last m xs @ ys) = keep_last n (xs @ ys)"
  by (simp add: keep_last_append keep_last_keep_last)

lemma keep_last_append2: "n \<le> length ys \<Longrightarrow> keep_last n (xs @ ys) = keep_last n ys"
  by (simp add: keep_last_def)

lemma keep_last_snoc_full: "length xs = n \<Longrightarrow> 0 < n \<Longrightarrow> keep_last n (xs @ [x]) = tl xs @ [x]"
  by (cases xs) (simp_all add: keep_last_def)

lemma subseq_drop: "subseq (drop n xs) xs"
  by (simp add: suffix_drop suffix_imp_subseq)

lemma subseq_keep_last: "subseq (keep_last n xs) xs"
  by (simp add: keep_last_def subseq_drop)

text \<open>An interleaving of the interrupt handler's and the reader's calls.\<close>

datatype 'a fifo_op = FPut 'a | FGet

fun fifo_puts :: "'a fifo_op list \<Rightarrow> 'a list" where
  "fifo_puts [] = []"
| "fifo_puts (FPut x # ops) = x # fifo_puts ops"
| "fifo_puts (FGet # ops) = fifo_puts ops"

text \<open>
  A run over an interleaving: what the reader got, and the last state. \<open>fifo_peak\<close> is
  the largest number of elements an unbounded buffer would hold at any point.
\<close>

fun fifo_run :: "('a \<Rightarrow> 's \<Rightarrow> 's) \<Rightarrow> ('s \<Rightarrow> 'a option \<times> 's) \<Rightarrow> 's \<Rightarrow> 'a fifo_op list \<Rightarrow> 'a list \<times> 's" where
  "fifo_run put get s [] = ([], s)"
| "fifo_run put get s (FPut x # ops) = fifo_run put get (put x s) ops"
| "fifo_run put get s (FGet # ops) =
     (case get s of
        (None, s') \<Rightarrow> fifo_run put get s' ops
      | (Some x, s') \<Rightarrow> (case fifo_run put get s' ops of (xs, s'') \<Rightarrow> (x # xs, s'')))"

fun fifo_peak :: "nat \<Rightarrow> 'a fifo_op list \<Rightarrow> nat" where
  "fifo_peak n [] = n"
| "fifo_peak n (FPut x # ops) = fifo_peak (Suc n) ops"
| "fifo_peak n (FGet # ops) = max n (fifo_peak (n - 1) ops)"

lemma fifo_peak_ge: "n \<le> fifo_peak n ops"
  by (induction n ops rule: fifo_peak.induct) auto

locale lossy_fifo =
  fixes put :: "'a \<Rightarrow> 's \<Rightarrow> 's"
    and get :: "'s \<Rightarrow> 'a option \<times> 's"
    and msgs :: "'s \<Rightarrow> 'a list"
    and cap :: "'s \<Rightarrow> nat"
    and ok :: "'s \<Rightarrow> bool"
  assumes put_ok: "ok s \<Longrightarrow> ok (put x s) \<and> cap (put x s) = cap s"
    and put_msgs: "ok s \<Longrightarrow> msgs (put x s) = keep_last (cap s) (msgs s @ [x])"
    and get_none: "ok s \<Longrightarrow> msgs s = [] \<Longrightarrow> get s = (None, s)"
    and get_some: "ok s \<Longrightarrow> msgs s = x # xs \<Longrightarrow>
      \<exists>s'. get s = (Some x, s') \<and> ok s' \<and> msgs s' = xs \<and> cap s' = cap s"
    and cap_bound: "ok s \<Longrightarrow> length (msgs s) \<le> cap s"
begin

lemma puts_msgs:
  "ok s \<Longrightarrow> ok (fold put xs s) \<and> cap (fold put xs s) = cap s
     \<and> msgs (fold put xs s) = keep_last (cap s) (msgs s @ xs)"
proof (induction xs arbitrary: s)
  case Nil
  then show ?case using cap_bound by simp
next
  case (Cons x xs)
  from Cons.IH [of "put x s"] put_ok [OF Cons.prems] put_msgs [OF Cons.prems] show ?case
    by (simp add: keep_last_keep_last_append)
qed

text \<open>
  Whatever the interleaving, what the reader got followed by what is left is a
  subsequence of what was there and what arrived: the order is kept and nothing is
  duplicated or invented.
\<close>

lemma run_subseq:
  "ok s \<Longrightarrow> fifo_run put get s ops = (xs, s') \<Longrightarrow>
     subseq (xs @ msgs s') (msgs s @ fifo_puts ops) \<and> ok s'"
proof (induction ops arbitrary: s xs)
  case Nil
  then show ?case by simp
next
  case (Cons a ops)
  show ?case
  proof (cases a)
    case (FPut x)
    from Cons.IH [of "put x s" xs] Cons.prems FPut put_ok [OF Cons.prems(1)]
    have "subseq (xs @ msgs s') (msgs (put x s) @ fifo_puts ops)" "ok s'" by auto
    moreover have "subseq (msgs (put x s) @ fifo_puts ops) ((msgs s @ [x]) @ fifo_puts ops)"
      unfolding put_msgs [OF Cons.prems(1)]
      by (rule list_emb_append_mono [OF subseq_keep_last subseq_order.order_refl])
    ultimately show ?thesis using FPut by (auto intro: subseq_order.trans)
  next
    case FGet
    show ?thesis
    proof (cases "msgs s")
      case Nil
      with Cons.IH [of s xs] Cons.prems FGet get_none [OF Cons.prems(1) Nil] show ?thesis by simp
    next
      case (Cons y ys)
      obtain s1 where s1: "get s = (Some y, s1)" "ok s1" "msgs s1 = ys"
        using get_some [OF \<open>ok s\<close> Cons] by auto
      obtain xs1 where x: "fifo_run put get s1 ops = (xs1, s')" "xs = y # xs1"
        using \<open>fifo_run put get s (a # ops) = (xs, s')\<close> FGet s1(1) by (auto split: prod.splits)
      show ?thesis using Cons.IH [OF s1(2) x(1)] x(2) s1(3) FGet Cons by simp
    qed
  qed
qed

text \<open>When the reader keeps up with the arrivals, nothing is lost.\<close>

lemma run_lossless:
  "ok s \<Longrightarrow> fifo_run put get s ops = (xs, s') \<Longrightarrow> fifo_peak (length (msgs s)) ops \<le> cap s \<Longrightarrow>
     xs @ msgs s' = msgs s @ fifo_puts ops"
proof (induction ops arbitrary: s xs)
  case Nil
  then show ?case by simp
next
  case (Cons a ops)
  show ?case
  proof (cases a)
    case (FPut x)
    have room: "length (msgs s) < cap s"
      using Cons.prems(3) FPut fifo_peak_ge [of "Suc (length (msgs s))" ops] by simp
    then have m: "msgs (put x s) = msgs s @ [x]" using put_msgs [OF Cons.prems(1)] by simp
    show ?thesis
      using Cons.IH [of "put x s" xs] Cons.prems FPut put_ok [OF Cons.prems(1)] m by simp
  next
    case FGet
    show ?thesis
    proof (cases "msgs s")
      case Nil
      with Cons.IH [of s xs] Cons.prems FGet get_none [OF Cons.prems(1) Nil] show ?thesis by simp
    next
      case (Cons y ys)
      obtain s1 where s1: "get s = (Some y, s1)" "ok s1" "msgs s1 = ys" "cap s1 = cap s"
        using get_some [OF \<open>ok s\<close> Cons] by auto
      obtain xs1 where x: "fifo_run put get s1 ops = (xs1, s')" "xs = y # xs1"
        using \<open>fifo_run put get s (a # ops) = (xs, s')\<close> FGet s1(1) by (auto split: prod.splits)
      show ?thesis
        using Cons.IH [OF s1(2) x(1)] x(2) s1(3,4) FGet Cons
          \<open>fifo_peak (length (msgs s)) (a # ops) \<le> cap s\<close> by simp
    qed
  qed
qed

end

end
