(* ===== verification/Can_Rx.thy ===== *)
theory Can_Rx
  imports Fifo
begin

text \<open>
  The CAN driver (\<open>usr/bsp/src/bsp_can.c\<close>): the ring of 128 frames that the receive
  interrupt of CAN2 fills and \<open>bsp_CanReceive\<close> empties, the transmission with its bounded
  wait, and the values \<open>bsp_InitCan\<close> programs. The reads of the controller (the frame
  the hardware delivers, the transmit status of each poll) are arguments.
\<close>

section \<open>Frames and the receive ring\<close>

record can_msg =
  StdId :: u32
  ExtId :: u32
  IDE :: u8
  RTR :: u8
  DLC :: u8
  Data :: bytes

record can_rx_msg = can_msg +
  FMI :: u8

datatype can_port = CAN1 | CAN2

abbreviation (input) CAN_BUFF_SIZE :: nat where "CAN_BUFF_SIZE \<equiv> 128"

record can_buf =
  ucRxdataWrite :: u8
  ucRxdataRead :: u8
  ucCanRxDatacount :: u8
  sCanReceiveBuf :: "can_rx_msg list"

definition can_zero_msg :: can_rx_msg where
  "can_zero_msg = \<lparr>StdId = 0, ExtId = 0, IDE = 0, RTR = 0, DLC = 0, Data = replicate 8 0, FMI = 0\<rparr>"

definition can_buf_zero :: can_buf where
  "can_buf_zero = \<lparr>ucRxdataWrite = 0, ucRxdataRead = 0, ucCanRxDatacount = 0,
     sCanReceiveBuf = replicate CAN_BUFF_SIZE can_zero_msg\<rparr>"

text \<open>
  The interrupt stores the frame before it looks at the count: when the ring is full the
  oldest frame is overwritten and the read index skips it.
\<close>

definition Can2_RX_ISR :: "can_rx_msg \<Rightarrow> can_buf \<Rightarrow> can_buf" where
  "Can2_RX_ISR frame b =
     (let b1 = b\<lparr>sCanReceiveBuf := (sCanReceiveBuf b)[unat (ucRxdataWrite b) := frame],
                 ucRxdataWrite := (ucRxdataWrite b + 1) AND 127\<rparr>
      in if ucCanRxDatacount b1 = 128
         then b1\<lparr>ucRxdataRead := (ucRxdataRead b1 + 1) AND 127\<rparr>
         else b1\<lparr>ucCanRxDatacount := ucCanRxDatacount b1 + 1\<rparr>)"

text \<open>
  \<open>bsp_CanReceive\<close> copies every field but \<open>FMI\<close>, which keeps the caller's value. The
  receive interrupt is off from the copy to the end, and the test before it reads a count
  that the interrupt can only raise.
\<close>

definition bsp_CanReceive :: "can_port \<Rightarrow> can_rx_msg \<Rightarrow> can_buf \<Rightarrow> int \<times> can_rx_msg \<times> can_buf" where
  "bsp_CanReceive port rx b =
     (if port = CAN2 then
        if ucCanRxDatacount b = 0 then (-1, rx, b)
        else
          let slot = sCanReceiveBuf b ! unat (ucRxdataRead b)
          in (0, rx\<lparr>StdId := StdId slot, ExtId := ExtId slot, IDE := IDE slot, RTR := RTR slot,
                    DLC := DLC slot, Data := Data slot\<rparr>,
              b\<lparr>ucRxdataRead := (ucRxdataRead b + 1) AND 127,
                ucCanRxDatacount := ucCanRxDatacount b - 1\<rparr>)
      else (-1, rx, b))"

definition Can1_RX_ISR :: "can_buf \<Rightarrow> can_buf" where
  "Can1_RX_ISR b = b"

text \<open>
  \<open>bsp_CanSend\<close>: \<open>tx\<close> is the transmit mailbox the frame gets, \<open>None\<close> when all are taken,
  and \<open>txok k\<close> what its \<open>k\<close>-th poll reports: without a mailbox the frame is not sent and every
  poll reports a failure. The result is the state, the frame if it was sent and the number of 5 ms
  delays. The null-pointer guard is \<open>None\<close>.
\<close>

type_synonym can_mailbox = "(nat \<Rightarrow> bool) option"

function can_wait_txok :: "(nat \<Rightarrow> bool) \<Rightarrow> nat \<Rightarrow> int \<times> nat" where
  "can_wait_txok txok i =
     (if txok i then (0, i) else if i * 5 > 50 then (-1, i) else can_wait_txok txok (Suc i))"
  by auto
termination by (relation "measure (\<lambda>(_, i). 12 - i)") auto

declare can_wait_txok.simps [simp del]

definition bsp_CanSend :: "can_mailbox \<Rightarrow> 'm option \<Rightarrow> int \<times> 'm list \<times> nat" where
  "bsp_CanSend tx msg =
     (case msg of
        None \<Rightarrow> (-1, [], 0)
      | Some m \<Rightarrow> (case tx of
          None \<Rightarrow> (case can_wait_txok (\<lambda>_. False) 0 of (st, delays) \<Rightarrow> (st, [], delays))
        | Some txok \<Rightarrow> (case can_wait_txok txok 0 of (st, delays) \<Rightarrow> (st, [m], delays))))"

section \<open>Initialisation\<close>

text \<open>The values written to the controller, and the pins of the port.\<close>

record can_config =
  cc_rx_pin :: nat
  cc_tx_pin :: nat
  cc_irq_sub_priority :: nat
  CAN_SJW :: nat
  CAN_BS1 :: nat
  CAN_BS2 :: nat
  CAN_Prescaler :: u16
  CAN_FilterNumber :: nat
  CAN_FilterId :: u32
  CAN_FilterMaskId :: u32

definition bsp_InitCan :: "can_port \<Rightarrow> u16 \<Rightarrow> can_buf \<Rightarrow> int \<times> can_config option \<times> can_buf" where
  "bsp_InitCan port baud b =
     (if baud = 0 then (-1, None, can_buf_zero)
      else
        let cfg = \<lparr>cc_rx_pin = (if port = CAN2 then 12 else 0),
                   cc_tx_pin = (if port = CAN2 then 13 else 1),
                   cc_irq_sub_priority = (if port = CAN2 then 2 else 3),
                   CAN_SJW = 1, CAN_BS1 = 14, CAN_BS2 = 6, CAN_Prescaler = 2000 div baud,
                   CAN_FilterNumber = 14, CAN_FilterId = 0, CAN_FilterMaskId = 0\<rparr>
        in (0, Some cfg, can_buf_zero))"

definition can_bit_rate_khz :: "can_config \<Rightarrow> nat" where
  "can_bit_rate_khz c = 42000 div (unat (CAN_Prescaler c) * (CAN_SJW c + CAN_BS1 c + CAN_BS2 c))"

lemma bsp_InitCan_bit_rate:
  assumes "0 < n" "n * unat baud = 2000"
  shows "\<exists>c. bsp_InitCan port baud b = (0, Some c, can_buf_zero) \<and> can_bit_rate_khz c = unat baud"
proof -
  have q: "2000 div unat baud = n"
    using assms by (metis nonzero_mult_div_cancel_right mult_0_right zero_neq_numeral)
  have "baud \<noteq> 0" using assms by (cases "baud = 0") auto
  moreover have "unat (2000 div baud :: u16) = n"
    using q by (simp add: unat_div)
  ultimately show ?thesis
    using assms(1) by (simp add: bsp_InitCan_def can_bit_rate_khz_def flip: assms(2))
qed

section \<open>Invariant and abstraction\<close>

definition can_ok :: "can_buf \<Rightarrow> bool" where
  "can_ok b \<longleftrightarrow> length (sCanReceiveBuf b) = 128 \<and> unat (ucRxdataRead b) < 128
     \<and> unat (ucCanRxDatacount b) \<le> 128
     \<and> unat (ucRxdataWrite b) = (unat (ucRxdataRead b) + unat (ucCanRxDatacount b)) mod 128"

definition can_frames :: "can_buf \<Rightarrow> can_rx_msg list" where
  "can_frames b = ring_take (unat (ucRxdataRead b)) (unat (ucCanRxDatacount b)) (sCanReceiveBuf b)"

lemma can_idx_next: "unat (w :: u8) < 128 \<Longrightarrow> unat ((w + 1) AND 127) = Suc (unat w) mod 128"
proof -
  assume w: "unat w < 128"
  have "(127 :: u8) = mask 7" by (simp add: mask_eq_exp_minus_1)
  then have "(w + 1) AND 127 = take_bit 7 (w + 1)" by (simp add: take_bit_eq_mask)
  moreover have "unat (take_bit 7 (w + 1)) = take_bit 7 (unat (w + 1))"
    by (rule unsigned_take_bit_eq)
  moreover have "unat (w + 1) = Suc (unat w)" using w by (simp add: unat_word_ariths)
  ultimately show ?thesis by (simp only: take_bit_eq_mod) simp
qed

lemma length_can_frames [simp]: "length (can_frames b) = unat (ucCanRxDatacount b)"
  by (simp add: can_frames_def)

lemma can_count_0: "can_frames b = [] \<longleftrightarrow> ucCanRxDatacount b = 0"
  by (metis length_can_frames length_0_conv unat_eq_zero)

lemma can_count_full: "(c :: u8) = 128 \<longleftrightarrow> unat c = 128"
  by unat_arith

lemma can_buf_zero_ok: "can_ok can_buf_zero \<and> can_frames can_buf_zero = []"
  by (simp add: can_ok_def can_frames_def can_buf_zero_def)

lemma Can2_RX_ISR_ok:
  assumes "can_ok b" shows "can_ok (Can2_RX_ISR f b)"
proof (cases "ucCanRxDatacount b = 128")
  case True
  then have "unat (ucCanRxDatacount b) = 128" by simp
  with assms True show ?thesis
    by (simp add: can_ok_def Can2_RX_ISR_def Let_def can_idx_next mod_simps)
next
  case False
  then have "unat (ucCanRxDatacount b) \<noteq> 128" by (simp add: can_count_full)
  with assms have c: "unat (ucCanRxDatacount b) < 128" by (simp add: can_ok_def)
  then have "unat (ucCanRxDatacount b + 1) = Suc (unat (ucCanRxDatacount b))"
    by (simp add: unat_word_ariths)
  with assms False c show ?thesis
    by (simp add: can_ok_def Can2_RX_ISR_def Let_def can_idx_next mod_simps)
qed

lemma Can2_RX_ISR_frames:
  assumes "can_ok b" shows "can_frames (Can2_RX_ISR f b) = keep_last 128 (can_frames b @ [f])"
proof (cases "ucCanRxDatacount b = 128")
  case True
  then have c: "unat (ucCanRxDatacount b) = 128" by simp
  with assms have w: "unat (ucRxdataWrite b) = unat (ucRxdataRead b)" by (simp add: can_ok_def)
  have "can_frames (Can2_RX_ISR f b) = tl (can_frames b) @ [f]"
    using assms True c w ring_take_full_overwrite [of "unat (ucRxdataRead b)" "sCanReceiveBuf b" f]
    by (simp add: can_ok_def Can2_RX_ISR_def Let_def can_frames_def can_idx_next)
  then show ?thesis using c by (simp add: keep_last_snoc_full)
next
  case False
  then have "unat (ucCanRxDatacount b) \<noteq> 128" by (simp add: can_count_full)
  with assms have c: "unat (ucCanRxDatacount b) < 128" by (simp add: can_ok_def)
  then have "unat (ucCanRxDatacount b + 1) = Suc (unat (ucCanRxDatacount b))"
    by (simp add: unat_word_ariths)
  with assms False c ring_take_snoc [of "unat (ucCanRxDatacount b)" "sCanReceiveBuf b" "unat (ucRxdataRead b)" f]
  show ?thesis by (simp add: can_ok_def Can2_RX_ISR_def Let_def can_frames_def)
qed

lemma bsp_CanReceive_empty: "can_frames b = [] \<Longrightarrow> bsp_CanReceive CAN2 rx b = (-1, rx, b)"
  by (simp add: bsp_CanReceive_def can_count_0)

text \<open>The copy without the filter index: what a client reads of a frame.\<close>

definition can_copy :: "can_rx_msg \<Rightarrow> can_rx_msg \<Rightarrow> can_rx_msg" where
  "can_copy rx f = f\<lparr>FMI := FMI rx\<rparr>"

lemma bsp_CanReceive_frame:
  assumes "can_ok b" "can_frames b = f # fs"
  obtains b' where "bsp_CanReceive CAN2 rx b = (0, can_copy rx f, b')" "can_ok b'" "can_frames b' = fs"
proof -
  have nz: "ucCanRxDatacount b \<noteq> 0" using assms(2) can_count_0 by force
  then obtain k where k: "unat (ucCanRxDatacount b) = Suc k"
    by (metis not0_implies_Suc unat_eq_zero)
  then have d: "unat (ucCanRxDatacount b - 1) = k"
    using nz by (simp add: unat_minus_one)
  let ?b = "b\<lparr>ucRxdataRead := (ucRxdataRead b + 1) AND 127, ucCanRxDatacount := ucCanRxDatacount b - 1\<rparr>"
  have "can_frames b = sCanReceiveBuf b ! unat (ucRxdataRead b) # can_frames ?b"
    using assms(1) k d ring_take_Cons [of "unat (ucRxdataRead b)" "sCanReceiveBuf b" k]
    by (simp add: can_frames_def can_ok_def can_idx_next)
  then have f: "f = sCanReceiveBuf b ! unat (ucRxdataRead b)" "fs = can_frames ?b"
    using assms(2) by auto
  have "can_ok ?b"
    using assms(1) k d by (simp add: can_ok_def can_idx_next mod_simps)
  with f nz show thesis
    by (intro that [of ?b]) (simp_all add: bsp_CanReceive_def can_copy_def Let_def)
qed

text \<open>
  The receive side as a buffer of frames, for whatever filter index the controller
  reports: the interrupt puts, the driver's client gets.
\<close>

definition can_arrive :: "u8 \<Rightarrow> can_msg \<Rightarrow> can_buf \<Rightarrow> can_buf" where
  "can_arrive fmi m b = Can2_RX_ISR (can_msg.extend m (can_rx_msg.fields fmi)) b"

definition can_get :: "can_rx_msg \<Rightarrow> can_buf \<Rightarrow> can_msg option \<times> can_buf" where
  "can_get rx b =
     (case bsp_CanReceive CAN2 rx b of
        (r, m, b') \<Rightarrow> (if r = 0 then Some (can_msg.truncate m) else None, b'))"

definition can_msgs :: "can_buf \<Rightarrow> can_msg list" where
  "can_msgs b = map can_msg.truncate (can_frames b)"

lemma map_keep_last: "map f (keep_last n xs) = keep_last n (map f xs)"
  by (simp add: keep_last_def drop_map)

lemma can_truncate_extend [simp]: "can_msg.truncate (can_msg.extend m x) = (m :: can_msg)"
  by (simp add: can_msg.defs)

lemma can_truncate_copy [simp]: "can_msg.truncate (can_copy rx f) = can_msg.truncate f"
  by (simp add: can_msg.defs can_copy_def)

interpretation canrx: lossy_fifo "can_arrive fmi" "can_get rx" can_msgs "\<lambda>_. 128" can_ok
proof
  fix b :: can_buf and m ms
  assume ok: "can_ok b"
  show "can_ok (can_arrive fmi m b) \<and> (128::nat) = 128"
    using Can2_RX_ISR_ok [OF ok] by (simp add: can_arrive_def)
  show "can_msgs (can_arrive fmi m b) = keep_last 128 (can_msgs b @ [m])"
    using Can2_RX_ISR_frames [OF ok] by (simp add: can_arrive_def can_msgs_def map_keep_last)
  show "can_get rx b = (None, b)" if "can_msgs b = []"
    using that bsp_CanReceive_empty [of b rx] by (simp add: can_msgs_def can_get_def)
  show "\<exists>b'. can_get rx b = (Some m, b') \<and> can_ok b' \<and> can_msgs b' = ms \<and> (128::nat) = 128"
    if msgs: "can_msgs b = m # ms"
  proof -
    obtain f fs where f: "can_frames b = f # fs" "m = can_msg.truncate f" "ms = map can_msg.truncate fs"
      using msgs by (cases "can_frames b") (simp_all add: can_msgs_def)
    obtain b' where "bsp_CanReceive CAN2 rx b = (0, can_copy rx f, b')" "can_ok b'" "can_frames b' = fs"
      by (rule bsp_CanReceive_frame [OF ok f(1)])
    then show ?thesis by (simp add: can_get_def can_msgs_def f)
  qed
  show "length (can_msgs b) \<le> 128"
    using ok by (simp add: can_msgs_def can_ok_def)
qed

section \<open>Transmission\<close>

lemma can_wait_txok_sent:
  "txok k \<Longrightarrow> (\<And>j. i \<le> j \<Longrightarrow> j < k \<Longrightarrow> \<not> txok j) \<Longrightarrow> i \<le> k \<Longrightarrow> k \<le> 11 \<Longrightarrow> can_wait_txok txok i = (0, k)"
proof (induction txok i rule: can_wait_txok.induct)
  case (1 txok i)
  show ?case
  proof (cases "i = k")
    case True
    then show ?thesis using 1 by (simp add: can_wait_txok.simps)
  next
    case False
    then show ?thesis using 1 by (subst can_wait_txok.simps) auto
  qed
qed

lemma can_wait_txok_timeout:
  "(\<And>j. i \<le> j \<Longrightarrow> j \<le> 11 \<Longrightarrow> \<not> txok j) \<Longrightarrow> i \<le> 11 \<Longrightarrow> can_wait_txok txok i = (-1, 11)"
proof (induction txok i rule: can_wait_txok.induct)
  case (1 txok i)
  show ?case
  proof (cases "i = 11")
    case True
    then show ?thesis using 1(2) [of 11] by (simp add: can_wait_txok.simps)
  next
    case False
    then show ?thesis using 1 by (subst can_wait_txok.simps) auto
  qed
qed

section \<open>Properties\<close>

text \<open>
  C29: however the receive interrupt and the driver's client interleave, the client gets
  frames in arrival order, without duplicates or inventions; and as long as never more
  than 128 frames are waiting, it misses none.
\<close>

theorem can_receive_order:
  assumes "can_ok b" "fifo_run (can_arrive fmi) (can_get rx) b ops = (got, b')"
  shows "subseq (got @ can_msgs b') (can_msgs b @ fifo_puts ops)
    \<and> (fifo_peak (length (can_msgs b)) ops \<le> 128 \<longrightarrow> got @ can_msgs b' = can_msgs b @ fifo_puts ops)"
  using canrx.run_subseq [OF assms] canrx.run_lossless [OF assms] by blast

definition demo_frame :: "u32 \<Rightarrow> can_msg" where
  "demo_frame i = \<lparr>StdId = i, ExtId = 0, IDE = 0, RTR = 0, DLC = 8, Data = replicate 8 0\<rparr>"

theorem can_receive_order_witness:
  "\<exists>got b'. fifo_run (can_arrive 0) (can_get can_zero_msg) can_buf_zero
      [FPut (demo_frame 1), FPut (demo_frame 2), FGet, FPut (demo_frame 3)] = (got, b')
    \<and> got @ can_msgs b' = [demo_frame 1, demo_frame 2, demo_frame 3]"
proof -
  let ?ops = "[FPut (demo_frame 1), FPut (demo_frame 2), FGet, FPut (demo_frame 3)]"
  obtain got b' where r: "fifo_run (can_arrive 0) (can_get can_zero_msg) can_buf_zero ?ops = (got, b')"
    by (cases "fifo_run (can_arrive 0) (can_get can_zero_msg) can_buf_zero ?ops")
  have z: "can_ok can_buf_zero" "can_msgs can_buf_zero = []"
    using can_buf_zero_ok by (auto simp: can_msgs_def)
  have e: "got @ can_msgs b' = fifo_puts ?ops" using can_receive_order [OF z(1) r] z(2) by simp
  show ?thesis by (intro exI conjI, rule r) (simp add: e)
qed

text \<open>
  \<open>bsp_CanSend\<close> always returns. It reports success exactly when one of the first
  twelve polls of the mailbox does, with one 5 ms delay per failed poll before it, and
  gives up after eleven delays otherwise; so it does when no mailbox is free, and then the
  frame has not been sent.
\<close>

theorem bsp_CanSend_bounded:
  "bsp_CanSend (Some txok) (Some m) =
     (if \<exists>k\<le>11. txok k then (0, [m], LEAST k. txok k) else (-1, [m], 11))
   \<and> bsp_CanSend None (Some m) = (-1, [], 11)"
proof
  have "can_wait_txok (\<lambda>_. False) 0 = (-1, 11)" by (intro can_wait_txok_timeout) auto
  then show "bsp_CanSend None (Some m) = (-1, [], 11)" by (simp add: bsp_CanSend_def)
  show "bsp_CanSend (Some txok) (Some m) =
     (if \<exists>k\<le>11. txok k then (0, [m], LEAST k. txok k) else (-1, [m], 11))"
proof (cases "\<exists>k\<le>11. txok k")
  case True
  then obtain k where k: "k \<le> 11" "txok k" by blast
  let ?l = "LEAST k. txok k"
  have l: "txok ?l" "?l \<le> k" using k(2) by (rule LeastI, rule Least_le)
  have n: "\<not> txok j" if "0 \<le> j" "j < ?l" for j using that(2) by (rule not_less_Least)
  have "?l \<le> 11" using l(2) k(1) by linarith
  from can_wait_txok_sent [where txok = txok and k = ?l and i = 0, OF l(1) n le0 this] have "can_wait_txok txok 0 = (0, ?l)" .
  then show ?thesis using True by (simp add: bsp_CanSend_def)
next
  case False
  then have "can_wait_txok txok 0 = (-1, 11)" by (intro can_wait_txok_timeout) auto
  then show ?thesis using False by (simp add: bsp_CanSend_def)
qed
qed

theorem bsp_CanSend_bounded_witness: "bsp_CanSend (Some (\<lambda>k. k = 12)) (Some ()) = (-1, [()], 11)"
  using bsp_CanSend_bounded [of "\<lambda>k. k = 12" "()"] by simp

end
