(* ===== verification/Can_Dispatcher.thy ===== *)
theory Can_Dispatcher
  imports Reg_Pool Can_Rx
begin

text \<open>
  The CAN dispatcher (\<open>usr/application/can_dispatcher.c\<close>): its registry of at most three
  users, the task that takes the received frames and offers each to the users in turn, and
  the transmission. A message processor is a function pointer; \<open>call\<close> says what calling one
  does to the rest of the system, of type \<open>'s\<close>.
\<close>

section \<open>State and registration\<close>

abbreviation (input) CANDISPATCHER_MAX_USERNUM :: nat where "CANDISPATCHER_MAX_USERNUM \<equiv> 3"

text \<open>The fields of \<open>can_user_t\<close> behind its list node; the size is that of the whole.\<close>

record 'p can_user =
  cu_name :: bytes
  msg_processor :: 'p

abbreviation (input) sizeof_can_user :: nat where "sizeof_can_user \<equiv> 28"

record 'p can_disp =
  disp_port :: can_port
  usermem :: "os_mem option"
  userlist_head :: nat
  user_links :: links
  user_at :: "nat \<Rightarrow> 'p can_user"

text \<open>
  \<open>parts\<close>: the partition control blocks the kernel has left; \<open>pool\<close>, \<open>m0\<close>: where
  \<open>usermem_pool\<close> lies and what is in it; \<open>mutex_ok\<close>: whether the kernel has an event
  control block for the mutex. A failing \<open>OSMemCreate\<close> goes unnoticed.
\<close>

definition can_dispatcher_init ::
  "nat \<Rightarrow> nat \<Rightarrow> memory \<Rightarrow> bool \<Rightarrow> can_port \<Rightarrow> u16 \<Rightarrow> can_buf \<Rightarrow> 'p can_disp \<Rightarrow> int \<times> can_buf \<times> 'p can_disp" where
  "can_dispatcher_init parts pool m0 mutex_ok canport baudrate_k b s =
     (let b' = snd (snd (bsp_InitCan canport baudrate_k b));
          s' = s\<lparr>disp_port := canport,
                 usermem := fst (OSMemCreate parts pool CANDISPATCHER_MAX_USERNUM sizeof_can_user m0)\<rparr>
      in (if mutex_ok then 0 else -1, b', s'))"

definition user_name :: "bytes option \<Rightarrow> bytes \<Rightarrow> bytes" where
  "user_name name old =
     (case name of
        None \<Rightarrow> splice 0 [0] old
      | Some n \<Rightarrow> if length n > 15 then (splice 0 (take 15 n) old)[15 := 0] else splice 0 (n @ [0]) old)"

definition can_dispatcher_register_user ::
  "bytes option \<Rightarrow> 'p \<Rightarrow> 'p can_disp \<Rightarrow> (nat \<times> 'p can_disp) outcome" where
  "can_dispatcher_register_user name proc s =
     (case usermem s of
        None \<Rightarrow> Fault
      | Some m \<Rightarrow>
          (case OSMemGet m of
             ((newuser, e), m') \<Rightarrow>
               if newuser = 0 then Ret (0, s\<lparr>usermem := Some m'\<rparr>)
               else
                 let u = \<lparr>cu_name = user_name name (cu_name (user_at s newuser)), msg_processor = proc\<rparr>
                 in Ret (newuser, s\<lparr>usermem := Some m',
                                   user_at := (user_at s)(newuser := u),
                                   user_links := list_add_tail newuser (userlist_head s) (user_links s)\<rparr>)))"

section \<open>Dispatching\<close>

text \<open>
  The body of the loop over the users: only \<open>-ENOTSUP\<close> passes the frame on. \<open>n\<close> bounds the
  number of users visited.
\<close>

definition offer ::
  "('p \<Rightarrow> nat \<Rightarrow> can_rx_msg \<Rightarrow> 's \<Rightarrow> int \<times> 's) \<Rightarrow> (nat \<Rightarrow> 'p can_user) \<Rightarrow> can_rx_msg \<Rightarrow> nat \<Rightarrow> 's \<Rightarrow> bool \<times> 's" where
  "offer call users frame user st =
     (case call (msg_processor (users user)) user frame st of
        (ret, st') \<Rightarrow>
          if ret = 0 then (False, st')
          else if ret = - perr_code ENOTSUP then (True, st')
          else (False, st'))"

definition can_task_round ::
  "('p \<Rightarrow> nat \<Rightarrow> can_rx_msg \<Rightarrow> 's \<Rightarrow> int \<times> 's) \<Rightarrow> nat \<Rightarrow> 'p can_disp \<Rightarrow> can_rx_msg \<times> can_buf \<times> 's
     \<Rightarrow> (bool \<times> can_rx_msg \<times> can_buf \<times> 's) option" where
  "can_task_round call n s w =
     (case w of
        (rxmsg, b, st) \<Rightarrow>
          (case bsp_CanReceive (disp_port s) rxmsg b of
             (ret, rxmsg', b') \<Rightarrow>
               if ret = 0 then
                 (case list_for_each n (user_links s) (userlist_head s) (offer call (user_at s) rxmsg')
                         (next_of (user_links s) (userlist_head s)) st of
                    None \<Rightarrow> None
                  | Some st' \<Rightarrow> Some (False, rxmsg', b', st'))
               else Some (True, rxmsg', b', st)))"

text \<open>The error of the transmission is dropped: the caller always gets 0.\<close>

definition can_dispatcher_send_msg ::
  "can_mailbox \<Rightarrow> 'm \<Rightarrow> int \<times> 'm list \<times> nat" where
  "can_dispatcher_send_msg tx msg =
     (case bsp_CanSend tx (Some msg) of (st, sent, delays) \<Rightarrow> (0, sent, delays))"

text \<open>
  The task and the receive interrupt: \<open>FPut m\<close> is the arrival of a frame, \<open>FGet\<close> one round
  of the task.
\<close>

primrec can_task_run ::
  "('p \<Rightarrow> nat \<Rightarrow> can_rx_msg \<Rightarrow> 's \<Rightarrow> int \<times> 's) \<Rightarrow> nat \<Rightarrow> 'p can_disp \<Rightarrow> u8 \<Rightarrow> can_msg fifo_op list
     \<Rightarrow> can_rx_msg \<times> can_buf \<times> 's \<Rightarrow> (can_rx_msg \<times> can_buf \<times> 's) option" where
  "can_task_run call n s fmi [] w = Some w"
| "can_task_run call n s fmi (ev # evs) w =
     (case ev of
        FPut m \<Rightarrow> can_task_run call n s fmi evs (fst w, can_arrive fmi m (fst (snd w)), snd (snd w))
      | FGet \<Rightarrow>
          (case can_task_round call n s w of
             None \<Rightarrow> None
           | Some (dly, w') \<Rightarrow> can_task_run call n s fmi evs w'))"

section \<open>Registration keeps the registry\<close>

definition disp_ok :: "'p can_disp \<Rightarrow> nat list \<Rightarrow> bool" where
  "disp_ok s us \<longleftrightarrow> (\<exists>m. usermem s = Some m \<and> reg_ok m (user_links s) (userlist_head s) us
     \<and> card (set (mem_blocks m)) = 3) \<and> (\<forall>p. length (cu_name (user_at s p)) = 16)"

definition c_string :: "bytes \<Rightarrow> bytes" where
  "c_string bs = takeWhile (\<lambda>c. c \<noteq> 0) bs"

lemma c_string_zero: "0 \<notin> set n \<Longrightarrow> c_string (n @ 0 # r) = n"
  by (induction n) (auto simp: c_string_def)

lemma length_user_name: "length old = 16 \<Longrightarrow> length (user_name name old) = 16"
  by (cases name) (auto simp: user_name_def)

lemma user_name_string:
  assumes "length old = 16" "0 \<notin> set n" shows "c_string (user_name (Some n) old) = take 15 n"
proof (cases "length n > 15")
  case True
  obtain x where "drop 15 old = [x]"
    using assms(1) length_Suc_conv [of "drop 15 old" 0] by auto
  then have "(splice 0 (take 15 n) old)[15 := 0] = take 15 n @ [0]"
    using assms(1) True by (simp add: splice_def list_update_append)
  then show ?thesis
    using True assms(2) c_string_zero [of "take 15 n" "[]"] set_take_subset [of 15 n]
    by (auto simp: user_name_def)
next
  case False
  then show ?thesis
    using assms(2) c_string_zero [of n "drop (Suc (length n)) old"] by (simp add: user_name_def splice_def)
qed

lemma can_dispatcher_init_ok:
  assumes "can_dispatcher_init parts pool m0 mutex_ok port baud b s = (r, b', s')"
    and "0 < parts" "0 < pool" "pool + 84 \<le> 2 ^ 32" "dlist (user_links s) (userlist_head s) []"
    and "userlist_head s < pool \<or> pool + 84 \<le> userlist_head s" "\<forall>p. length (cu_name (user_at s p)) = 16"
  shows "disp_ok s' [] \<and> b' = can_buf_zero \<and> disp_port s' = port"
proof -
  obtain m r' where m: "OSMemCreate parts pool 3 28 m0 = (Some m, r')"
    using assms(2) by (auto simp: OSMemCreate_def)
  have "reg_ok m (user_links s) (userlist_head s) []" "card (set (mem_blocks m)) = 3"
    using reg_init [OF m _ _ assms(3) _ assms(5)] assms(4,6) by simp_all
  then show ?thesis
    using assms(1,7) m by (auto simp: can_dispatcher_init_def disp_ok_def bsp_InitCan_def Let_def split: if_splits)
qed

lemma register_full:
  assumes "disp_ok s us" "length us = 3"
  shows "can_dispatcher_register_user name proc s = Ret (0, s)"
proof -
  obtain m where m: "usermem s = Some m" "reg_ok m (user_links s) (userlist_head s) us"
    "card (set (mem_blocks m)) = 3"
    using assms(1) by (auto simp: disp_ok_def)
  have "OSMemGet m = ((0, OS_ERR_MEM_NO_FREE_BLKS), m)"
    using m(2,3) assms(2) by (intro reg_full) simp_all
  moreover have "s\<lparr>usermem := Some m\<rparr> = s" using m(1) by simp
  ultimately show ?thesis
    using m(1) by (simp add: can_dispatcher_register_user_def)
qed

lemma register_room:
  assumes "disp_ok s us" "length us < 3"
  obtains p s' where "can_dispatcher_register_user name proc s = Ret (p, s')" "p \<noteq> 0" "p \<notin> set us"
    "disp_ok s' (us @ [p])" "user_at s' = (user_at s)(p := \<lparr>cu_name = user_name name (cu_name (user_at s p)), msg_processor = proc\<rparr>)"
    "disp_port s' = disp_port s"
proof -
  obtain m where m: "usermem s = Some m" "reg_ok m (user_links s) (userlist_head s) us"
    "card (set (mem_blocks m)) = 3" "\<forall>p. length (cu_name (user_at s p)) = 16"
    using assms(1) by (auto simp: disp_ok_def)
  have l: "length us < card (set (mem_blocks m))" using assms(2) m(3) by simp
  obtain p m' where p: "OSMemGet m = ((p, OS_ERR_NONE), m')" "p \<noteq> 0" "p \<notin> set us"
    "reg_ok m' (list_add_tail p (userlist_head s) (user_links s)) (userlist_head s) (us @ [p])"
    "mem_blocks m' = mem_blocks m"
    by (rule reg_add [OF m(2) l])
  let ?u = "\<lparr>cu_name = user_name name (cu_name (user_at s p)), msg_processor = proc\<rparr>"
  let ?s = "s\<lparr>usermem := Some m', user_at := (user_at s)(p := ?u),
    user_links := list_add_tail p (userlist_head s) (user_links s)\<rparr>"
  have "disp_ok ?s (us @ [p])"
    using p(4,5) m(3,4) length_user_name by (simp add: disp_ok_def)
  then show thesis
    using that [of p ?s] p m(1) by (simp add: can_dispatcher_register_user_def Let_def)
qed

section \<open>What the task does with the frames\<close>

text \<open>
  The service a frame should get, said without the loop and its body: the users are called in turn
  up to and with the first whose answer is not \<open>-ENOTSUP\<close>.
\<close>

primrec serve ::
  "('p \<Rightarrow> nat \<Rightarrow> can_rx_msg \<Rightarrow> 's \<Rightarrow> int \<times> 's) \<Rightarrow> (nat \<Rightarrow> 'p can_user) \<Rightarrow> nat list \<Rightarrow> can_rx_msg \<Rightarrow> 's \<Rightarrow> 's" where
  "serve call users [] frame st = st"
| "serve call users (u # us) frame st =
     (let answer = call (msg_processor (users u)) u frame st
      in if fst answer = - perr_code ENOTSUP then serve call users us frame (snd answer) else snd answer)"

lemma each_offer: "each (offer call users frame) us st = serve call users us frame st"
  by (induction us arbitrary: st) (auto simp: offer_def Let_def split: prod.split)

lemma serve_owner:
  assumes "\<forall>v\<in>set us1. call (msg_processor (users v)) v frame st = (- perr_code ENOTSUP, st)"
    and "call (msg_processor (users u)) u frame st = (ret, st')" "ret \<noteq> - perr_code ENOTSUP"
  shows "serve call users (us1 @ u # us2) frame st = st'"
  using assms by (induction us1) (simp_all del: perr_code.simps)

definition can_stamp :: "u8 \<Rightarrow> can_msg \<Rightarrow> can_rx_msg" where
  "can_stamp fmi m = can_msg.extend m (can_rx_msg.fields fmi)"

lemma can_copy_stamp: "can_copy rx f = can_stamp (FMI rx) (can_msg.truncate f)"
  by (simp add: can_copy_def can_stamp_def can_msg.defs can_rx_msg.defs)

lemma can_stamp_simps [simp]: "FMI (can_stamp fmi m) = fmi" "can_msg.truncate (can_stamp fmi m) = m"
  by (simp_all add: can_stamp_def can_msg.defs can_rx_msg.defs)

text \<open>A round is a read of the receive buffer and the service of what it gives.\<close>

lemma can_task_round_get:
  assumes "can_ok b" "dlist (user_links s) (userlist_head s) us" "length us \<le> n" "disp_port s = CAN2"
  obtains dly rx' where
    "can_task_round call n s (rx, b, st) = Some (dly, rx', snd (can_get rx b),
       case fst (can_get rx b) of None \<Rightarrow> st | Some m \<Rightarrow> serve call (user_at s) us (can_stamp (FMI rx) m) st)"
    "FMI rx' = FMI rx" "dly \<longleftrightarrow> fst (can_get rx b) = None"
proof (cases "can_frames b")
  case Nil
  then show thesis
    using that bsp_CanReceive_empty [of b rx] assms(4) by (simp add: can_task_round_def can_get_def)
next
  case (Cons f fs)
  obtain b' where b': "bsp_CanReceive CAN2 rx b = (0, can_copy rx f, b')" "can_ok b'" "can_frames b' = fs"
    by (rule bsp_CanReceive_frame [OF assms(1) Cons])
  show thesis
    using that [of False] b' assms(4)
    by (simp add: can_task_round_def can_get_def for_each_dlist [OF assms(2,3)] each_offer can_copy_stamp)
qed

lemma can_get_rx: "can_get rx b = can_get rx' b"
  by (simp add: can_get_def bsp_CanReceive_def Let_def can_msg.defs)

lemma can_get_ok: "can_ok b \<Longrightarrow> can_ok (snd (can_get rx b))"
proof (cases "can_frames b")
  case (Cons f fs)
  assume ok: "can_ok b"
  show ?thesis by (rule bsp_CanReceive_frame [OF ok Cons, of rx]) (simp add: can_get_def)
qed (simp add: can_get_def bsp_CanReceive_empty)

text \<open>The run of the task is the run of the receive buffer, followed by the services in order.\<close>

lemma can_task_run_fifo:
  assumes "dlist (user_links s) (userlist_head s) us" "length us \<le> n" "disp_port s = CAN2"
    and "can_ok b" "fifo_run (can_arrive fmi) (can_get rx0) b evs = (got, b')"
  shows "\<exists>rx'. can_task_run call n s fmi evs (rx, b, st)
      = Some (rx', b', fold (\<lambda>m. serve call (user_at s) us (can_stamp (FMI rx) m)) got st)"
  using assms(4,5)
proof (induction evs arbitrary: b rx st got)
  case Nil
  then show ?case by simp
next
  case (Cons ev evs)
  show ?case
  proof (cases ev)
    case (FPut m)
    have "can_ok (can_arrive fmi m b)" using canrx.put_ok [OF Cons.prems(1)] by simp
    from Cons.IH [OF this] Cons.prems(2) FPut show ?thesis by simp
  next
    case FGet
    obtain dly rx' where r: "can_task_round call n s (rx, b, st) = Some (dly, rx', snd (can_get rx b),
       case fst (can_get rx b) of None \<Rightarrow> st | Some m \<Rightarrow> serve call (user_at s) us (can_stamp (FMI rx) m) st)"
      and f: "FMI rx' = FMI rx"
      by (rule can_task_round_get [OF Cons.prems(1) assms(1-3)])
    have g: "can_get rx b = can_get rx0 b" by (rule can_get_rx)
    have ok: "can_ok (snd (can_get rx0 b))" by (rule can_get_ok [OF Cons.prems(1)])
    obtain o1 b1 where ob: "can_get rx0 b = (o1, b1)" by (cases "can_get rx0 b")
    obtain got1 where got1: "fifo_run (can_arrive fmi) (can_get rx0) b1 evs = (got1, b')"
      "got = (case o1 of None \<Rightarrow> got1 | Some m \<Rightarrow> m # got1)"
      using Cons.prems(2) FGet ob by (auto split: option.splits prod.splits)
    show ?thesis
      using Cons.IH [OF ok [unfolded ob snd_conv] got1(1), of rx'] r f g ob FGet got1(2)
      by (auto split: option.splits)
  qed
qed

section \<open>Properties\<close>

text \<open>
  C19: the dispatcher and the receive interrupt, however they interleave: every frame the task
  takes is given to the users in the order of their registration, to each exactly when all before it
  answered \<open>-ENOTSUP\<close>, and to nobody else; the frames are served in arrival order, and none is missed as long as never
  more than 128 are waiting.
\<close>

theorem can_task_serves_in_order:
  assumes "dlist (user_links s) (userlist_head s) us" "length us \<le> n" "disp_port s = CAN2" "can_ok b"
  shows "\<exists>rx' b' got. can_task_run call n s fmi evs (rx, b, st)
      = Some (rx', b', fold (\<lambda>m. serve call (user_at s) us (can_stamp (FMI rx) m)) got st)
    \<and> subseq (got @ can_msgs b') (can_msgs b @ fifo_puts evs)
    \<and> (fifo_peak (length (can_msgs b)) evs \<le> 128 \<longrightarrow> got @ can_msgs b' = can_msgs b @ fifo_puts evs)"
proof -
  obtain got b' where r: "fifo_run (can_arrive fmi) (can_get rx) b evs = (got, b')"
    by (cases "fifo_run (can_arrive fmi) (can_get rx) b evs")
  show ?thesis
    using can_task_run_fifo [OF assms r, of call rx st] canrx.run_subseq [OF assms(4) r]
      canrx.run_lossless [OF assms(4) r] by auto
qed

text \<open>A dispatcher with three users that own one identifier each and note what they get.\<close>

definition demo_call :: "u32 \<Rightarrow> nat \<Rightarrow> can_rx_msg \<Rightarrow> (nat \<times> u32) list \<Rightarrow> int \<times> (nat \<times> u32) list" where
  "demo_call ident user m st =
     (if StdId m = ident then (0, st @ [(user, StdId m)]) else (- perr_code ENOTSUP, st))"

definition demo_disp :: "u32 can_disp" where
  "demo_disp = \<lparr>disp_port = CAN2, usermem = fst (OSMemCreate 1 1000 3 28 (\<lambda>_. 0)), userlist_head = 500,
     user_links = INIT_LIST_HEAD 500 \<lparr>next_of = \<lambda>_. 0, prev_of = \<lambda>_. 0\<rparr>,
     user_at = \<lambda>_. \<lparr>cu_name = replicate 16 0, msg_processor = 0\<rparr>\<rparr>"

definition demo_disp2 :: "u32 can_disp" where
  "demo_disp2 = demo_disp\<lparr>user_links := list_add_tail 1028 500 (list_add_tail 1000 500 (user_links demo_disp)),
     user_at := (user_at demo_disp)(1000 := \<lparr>cu_name = replicate 16 0, msg_processor = 0x10\<rparr>,
       1028 := \<lparr>cu_name = replicate 16 0, msg_processor = 0x20\<rparr>)\<rparr>"

lemma demo_disp_ok: "disp_ok demo_disp []"
proof -
  obtain m r where m: "OSMemCreate 1 1000 3 28 (\<lambda>_. 0) = (Some m, r)" by (simp add: OSMemCreate_def)
  have "reg_ok m (user_links demo_disp) 500 []" "card (set (mem_blocks m)) = 3"
    using reg_init [OF m, of "user_links demo_disp" 500] dlist_init [of 500] by (simp_all add: demo_disp_def)
  then show ?thesis using m by (simp add: disp_ok_def demo_disp_def)
qed

text \<open>The services of the run below: each frame reaches its owner, behind a user that passes it on; the foreign one nobody.\<close>

lemma demo_disp2_services:
  "fold (\<lambda>m. serve demo_call (user_at demo_disp2) [1000, 1028] (can_stamp 0 m))
      [demo_frame 0x20, demo_frame 0x33, demo_frame 0x10] [] = [(1028, 0x20), (1000, 0x10)]"
  by (simp add: demo_call_def demo_disp2_def can_stamp_def can_msg.defs can_rx_msg.defs demo_frame_def)

theorem can_task_serves_in_order_witness:
  "\<exists>rx' b' got. can_task_run demo_call 3 demo_disp2 0
      [FPut (demo_frame 0x20), FPut (demo_frame 0x33), FGet, FPut (demo_frame 0x10), FGet, FGet]
      (can_zero_msg, can_buf_zero, [])
    = Some (rx', b', fold (\<lambda>m. serve demo_call (user_at demo_disp2) [1000, 1028] (can_stamp 0 m)) got [])
    \<and> fold (\<lambda>m. serve demo_call (user_at demo_disp2) [1000, 1028] (can_stamp 0 m)) (got @ can_msgs b') [] = [(1028, 0x20), (1000, 0x10)]
    \<and> got @ can_msgs b' = [demo_frame 0x20, demo_frame 0x33, demo_frame 0x10]"
proof -
  let ?evs = "[FPut (demo_frame 0x20), FPut (demo_frame 0x33), FGet, FPut (demo_frame 0x10), FGet, FGet]"
  have d: "dlist (user_links demo_disp2) (userlist_head demo_disp2) [1000, 1028]"
    by (simp add: dlist_def demo_disp2_def demo_disp_def list_add_tail_def INIT_LIST_HEAD_def Let_def)
  have z: "can_ok can_buf_zero" "can_msgs can_buf_zero = []"
    using can_buf_zero_ok by (auto simp: can_msgs_def)
  have n: "length [1000, 1028 :: nat] \<le> 3" and p: "disp_port demo_disp2 = CAN2" and i: "FMI can_zero_msg = 0"
    and k: "fifo_peak (length (can_msgs can_buf_zero)) ?evs \<le> 128"
    by (simp_all add: demo_disp2_def demo_disp_def can_zero_msg_def z)
  show ?thesis
    using can_task_serves_in_order [OF d n p z(1), of demo_call 0 ?evs can_zero_msg "[]"] k
      demo_disp2_services
    unfolding i z(2) fifo_puts.simps append_Nil by metis
qed

text \<open>
  the registry takes three users: as long as fewer are registered, a registration
  returns a new handle, appends the user and keeps the others, with at most 15 characters of
  its name; a fourth one gets 0 and changes nothing.
\<close>

theorem can_register_user:
  assumes "disp_ok s us" "0 \<notin> set name"
  shows "if length us < 3
    then \<exists>p s'. can_dispatcher_register_user (Some name) proc s = Ret (p, s') \<and> p \<noteq> 0 \<and> p \<notin> set us
      \<and> disp_ok s' (us @ [p]) \<and> msg_processor (user_at s' p) = proc
      \<and> c_string (cu_name (user_at s' p)) = take 15 name \<and> (\<forall>u\<in>set us. user_at s' u = user_at s u)
    else can_dispatcher_register_user (Some name) proc s = Ret (0, s)"
proof (cases "length us < 3")
  case True
  obtain p s' where "can_dispatcher_register_user (Some name) proc s = Ret (p, s')" "p \<noteq> 0" "p \<notin> set us"
    "disp_ok s' (us @ [p])"
    "user_at s' = (user_at s)(p := \<lparr>cu_name = user_name (Some name) (cu_name (user_at s p)), msg_processor = proc\<rparr>)"
    by (rule register_room [OF assms(1) True, of "Some name" proc]) blast
  moreover have "length (cu_name (user_at s p)) = 16" using assms(1) by (simp add: disp_ok_def)
  ultimately show ?thesis using True assms(2) by (auto simp: user_name_string)
next
  case False
  moreover have "length us \<le> 3" using assms(1) reg_ok_count by (fastforce simp: disp_ok_def)
  ultimately show ?thesis using register_full [OF assms(1)] by simp
qed

theorem can_register_user_witness:
  "\<exists>p s'. can_dispatcher_register_user (Some (replicate 20 65)) 7 demo_disp = Ret (p, s')
    \<and> c_string (cu_name (user_at s' p)) = replicate 15 65"
  using can_register_user [OF demo_disp_ok, of "replicate 20 65" 7] by auto

text \<open>
  a frame no transmit mailbox is free for is not sent, and one
  that the controller never confirms is given up after eleven delays, yet
  the dispatcher reports success to its caller, as it does for one that went through.
\<close>

theorem can_send_msg_hides_timeout:
  "fst (can_dispatcher_send_msg tx msg) = 0
    \<and> bsp_CanSend None (Some msg) = (-1, [], 11)
    \<and> ((\<forall>k\<le>11. \<not> txok k) \<longrightarrow> bsp_CanSend (Some txok) (Some msg) = (-1, [msg], 11))"
proof -
  have "\<forall>k\<le>11. \<not> txok k \<Longrightarrow> can_wait_txok txok 0 = (-1, 11)" "can_wait_txok (\<lambda>_. False) 0 = (-1, 11)"
    by (intro can_wait_txok_timeout; simp)+
  then show ?thesis by (simp add: can_dispatcher_send_msg_def bsp_CanSend_def split: prod.split)
qed

theorem can_send_msg_hides_timeout_witness:
  "fst (can_dispatcher_send_msg None ()) = 0 \<and> bsp_CanSend (Some (\<lambda>_. False)) (Some ()) = (-1, [()], 11)"
  using can_send_msg_hides_timeout [of None "()" "\<lambda>_. False"] by simp

end
