(* ===== verification/Circ_Buf.thy ===== *)
theory Circ_Buf
  imports Fifo
begin

text \<open>
  The circular byte buffers of the console and of the log: the index macros of
  \<open>usr/include/common/circ_buf.h\<close> and the two copies of \<open>write_circbuf\<close> and
  \<open>read_circbuf\<close> (\<open>usr/application/console.c\<close>, \<open>usr/common/log_print.c\<close>), which copy in at
  most two passes. The size is a power of two and a buffer holds one byte less. Indices are
  C \<open>int\<close>s that stay far below their bounds; \<open>AND\<close> of a negative difference is the
  two's complement one.
\<close>

section \<open>The buffer and its operations\<close>

record circ_buf =
  cbuf :: bytes
  head :: int
  tail :: int

definition CIRC_CNT :: "int \<Rightarrow> int \<Rightarrow> int \<Rightarrow> int" where
  "CIRC_CNT h t sz = (h - t) AND (sz - 1)"

definition CIRC_SPACE :: "int \<Rightarrow> int \<Rightarrow> int \<Rightarrow> int" where
  "CIRC_SPACE h t sz = CIRC_CNT t (h + 1) sz"

definition CIRC_CNT_TO_END :: "int \<Rightarrow> int \<Rightarrow> int \<Rightarrow> int" where
  "CIRC_CNT_TO_END h t sz =
     (let end = sz - t; n = (h + end) AND (sz - 1) in if n < end then n else end)"

definition CIRC_SPACE_TO_END :: "int \<Rightarrow> int \<Rightarrow> int \<Rightarrow> int" where
  "CIRC_SPACE_TO_END h t sz =
     (let end = sz - 1 - h; n = (end + t) AND (sz - 1) in if n \<le> end then n else end + 1)"

text \<open>The copying loop, with the number of passes left; \<open>cnt\<close> bytes are already copied.\<close>

primrec write_passes :: "nat \<Rightarrow> nat \<Rightarrow> bytes \<Rightarrow> nat \<Rightarrow> circ_buf \<Rightarrow> nat \<times> circ_buf" where
  "write_passes 0 sz bs cnt b = (cnt, b)"
| "write_passes (Suc i) sz bs cnt b =
     (let space = sz - nat (head b);
          cplen = (if space \<le> length bs - cnt then space else length bs - cnt);
          b1 = b\<lparr>cbuf := splice (nat (head b)) (take cplen (drop cnt bs)) (cbuf b),
                 head := (head b + int cplen) AND (int sz - 1)\<rparr>;
          cnt1 = cnt + cplen
      in if cnt1 = length bs then (cnt1, b1) else write_passes i sz bs cnt1 b1)"

declare write_passes.simps [simp del]

definition write_circbuf :: "nat \<Rightarrow> bytes \<Rightarrow> circ_buf \<Rightarrow> nat \<times> circ_buf" where
  "write_circbuf sz bs b =
     (let space = nat (CIRC_SPACE (head b) (tail b) (int sz));
          cover_len = (if space < length bs then length bs - space else 0)
      in case write_passes 2 sz bs 0 b of
           (cnt, b1) \<Rightarrow>
             (cnt, if cover_len > 0 then b1\<lparr>tail := (tail b1 + int cover_len) AND (int sz - 1)\<rparr> else b1))"

text \<open>The log's copy also tells whether the buffer is more than a third full.\<close>

definition log_write_circbuf :: "nat \<Rightarrow> bytes \<Rightarrow> circ_buf \<Rightarrow> bool \<times> nat \<times> circ_buf" where
  "log_write_circbuf sz bs b =
     (case write_circbuf sz bs b of
        (cnt, b') \<Rightarrow> (CIRC_CNT (head b') (tail b') (int sz) > int (sz div 3), cnt, b'))"

primrec read_passes :: "nat \<Rightarrow> nat \<Rightarrow> nat \<Rightarrow> bytes \<Rightarrow> circ_buf \<Rightarrow> bytes \<times> circ_buf" where
  "read_passes 0 sz rdlen got b = (got, b)"
| "read_passes (Suc i) sz rdlen got b =
     (let num = nat (CIRC_CNT_TO_END (head b) (tail b) (int sz));
          cplen = (if rdlen - length got \<le> num then rdlen - length got else num);
          got1 = got @ take cplen (drop (nat (tail b)) (cbuf b));
          b1 = b\<lparr>tail := (tail b + int cplen) AND (int sz - 1)\<rparr>
      in if length got1 = rdlen then (got1, b1) else read_passes i sz rdlen got1 b1)"

declare read_passes.simps [simp del]

definition read_circbuf :: "nat \<Rightarrow> nat \<Rightarrow> circ_buf \<Rightarrow> bytes \<times> circ_buf" where
  "read_circbuf sz len b =
     (let num = nat (CIRC_CNT (head b) (tail b) (int sz));
          rdlen = (if len \<le> num then len else num)
      in read_passes 2 sz rdlen [] b)"

section \<open>Invariant and abstraction\<close>

definition circ_ok :: "nat \<Rightarrow> circ_buf \<Rightarrow> bool" where
  "circ_ok sz b \<longleftrightarrow> (\<exists>k. sz = 2 ^ k) \<and> 1 < sz \<and> length (cbuf b) = sz
     \<and> 0 \<le> head b \<and> head b < int sz \<and> 0 \<le> tail b \<and> tail b < int sz"

definition circ_cnt :: "nat \<Rightarrow> circ_buf \<Rightarrow> nat" where
  "circ_cnt sz b = nat ((head b - tail b) mod int sz)"

definition circ_msgs :: "nat \<Rightarrow> circ_buf \<Rightarrow> bytes" where
  "circ_msgs sz b = ring_take (nat (tail b)) (circ_cnt sz b) (cbuf b)"

text \<open>The last \<open>sz\<close> bytes written: the whole ring from the head on.\<close>

definition circ_hist :: "circ_buf \<Rightarrow> bytes" where
  "circ_hist b = ring_take (nat (head b)) (length (cbuf b)) (cbuf b)"

lemma length_circ_msgs [simp]: "length (circ_msgs sz b) = circ_cnt sz b"
  by (simp add: circ_msgs_def)

lemma and_size: "(x :: int) AND (int (2 ^ k) - 1) = x mod int (2 ^ k)"
  by (simp flip: take_bit_eq_mod mask_eq_exp_minus_1 add: take_bit_eq_mask)

lemma circ_and: "circ_ok sz b \<Longrightarrow> x AND (int sz - 1) = x mod int sz"
  unfolding circ_ok_def by (metis and_size)

lemma circ_cnt_less: "circ_ok sz b \<Longrightarrow> circ_cnt sz b < sz"
  by (simp add: circ_cnt_def circ_ok_def nat_less_iff)

lemma circ_space: "circ_ok sz b \<Longrightarrow> nat (CIRC_SPACE (head b) (tail b) (int sz)) = sz - 1 - circ_cnt sz b"
proof -
  assume ok: "circ_ok sz b"
  then have n: "0 < int sz" by (simp add: circ_ok_def)
  let ?d = "(head b - tail b) mod int sz"
  have d: "0 \<le> ?d" "?d < int sz" using n by auto
  have "(tail b - (head b + 1)) mod int sz = (int sz - 1 - ?d) mod int sz"
    by (simp add: mod_simps algebra_simps)
  also have "\<dots> = int sz - 1 - ?d" using d by (intro mod_pos_pos_trivial) auto
  finally show ?thesis
    using d by (simp add: CIRC_SPACE_def CIRC_CNT_def circ_and [OF ok] circ_cnt_def)
qed

text \<open>The head is the tail plus the count.\<close>

lemma circ_head: "circ_ok sz b \<Longrightarrow> nat (head b) = (nat (tail b) + circ_cnt sz b) mod sz"
proof -
  assume ok: "circ_ok sz b"
  then have n: "0 < int sz" by (simp add: circ_ok_def)
  have "int ((nat (tail b) + circ_cnt sz b) mod sz) = (tail b + (head b - tail b) mod int sz) mod int sz"
    using ok n by (simp add: circ_cnt_def circ_ok_def of_nat_mod)
  also have "\<dots> = head b" using ok by (simp add: mod_simps circ_ok_def)
  finally show ?thesis by simp
qed

text \<open>Writing byte by byte, the reference for the block copies.\<close>

definition put_byte :: "u8 \<Rightarrow> bytes \<times> nat \<Rightarrow> bytes \<times> nat" where
  "put_byte x s = ((fst s)[snd s := x], Suc (snd s) mod length (fst s))"

definition circ_put :: "bytes \<Rightarrow> circ_buf \<Rightarrow> circ_buf" where
  "circ_put xs b =
     (let s = fold put_byte xs (cbuf b, nat (head b)) in b\<lparr>cbuf := fst s, head := int (snd s)\<rparr>)"

lemma put_byte_inv:
  "h < length xs \<Longrightarrow> length (fst (fold put_byte ys (xs, h))) = length xs
     \<and> snd (fold put_byte ys (xs, h)) = (h + length ys) mod length xs"
proof (induction ys arbitrary: xs h)
  case (Cons y ys)
  have "Suc h mod length xs < length xs" using Cons.prems by (intro mod_less_divisor) linarith
  with Cons.IH [of "Suc h mod length xs" "xs[h := y]"] show ?case
    by (simp add: put_byte_def mod_simps)
qed simp

lemma put_byte_splice:
  "h + length ys \<le> length xs \<Longrightarrow> h < length xs \<Longrightarrow> fst (fold put_byte ys (xs, h)) = splice h ys xs"
proof (induction ys arbitrary: xs h)
  case (Cons y ys)
  show ?case
  proof (cases "ys = []")
    case True
    then show ?thesis using Cons.prems by (simp add: put_byte_def splice_def upd_conv_take_nth_drop)
  next
    case False
    then have "Suc h < length xs" using Cons.prems by (cases ys) auto
    then show ?thesis
      using Cons.IH [of "Suc h" "xs[h := y]"] Cons.prems
      by (simp add: put_byte_def splice_def take_Suc_conv_app_nth)
  qed
qed simp

lemma circ_put_simps [simp]: "tail (circ_put xs b) = tail b"
  by (simp add: circ_put_def Let_def)

lemma circ_put_append: "0 \<le> head b \<Longrightarrow> circ_put (xs @ ys) b = circ_put ys (circ_put xs b)"
  by (simp add: circ_put_def Let_def)

lemma circ_put_head: "circ_ok sz b \<Longrightarrow> head (circ_put xs b) = (head b + int (length xs)) mod int sz"
  using put_byte_inv [of "nat (head b)" "cbuf b" xs]
  by (simp add: circ_put_def circ_ok_def Let_def of_nat_mod nat_less_iff)

lemma circ_put_ok: "circ_ok sz b \<Longrightarrow> circ_ok sz (circ_put xs b)"
  using put_byte_inv [of "nat (head b)" "cbuf b" xs] circ_put_head [of sz b xs]
  by (auto simp: circ_put_def circ_ok_def Let_def nat_less_iff)

lemma circ_pass:
  assumes "circ_ok sz b" "nat (head b) + length xs \<le> sz"
  shows "b\<lparr>cbuf := splice (nat (head b)) xs (cbuf b), head := (head b + int (length xs)) AND (int sz - 1)\<rparr>
    = circ_put xs b"
proof -
  have "nat (head b) < length (cbuf b)" using assms(1) by (auto simp: circ_ok_def nat_less_iff)
  with assms put_byte_splice [of "nat (head b)" xs "cbuf b"] circ_put_head [OF assms(1), of xs]
  show ?thesis by (simp add: circ_and [OF assms(1)] circ_put_def Let_def circ_ok_def)
qed

lemma circ_put_hist:
  "circ_ok sz b \<Longrightarrow> circ_hist (circ_put xs b) = keep_last sz (circ_hist b @ xs)"
proof (induction xs arbitrary: b)
  case Nil
  then show ?case by (simp add: circ_put_def circ_hist_def circ_ok_def)
next
  case (Cons x xs)
  have ok: "circ_ok sz b" by fact
  then have n: "nat (head b) < length (cbuf b)" "length (cbuf b) = sz" "0 < sz"
    by (auto simp: circ_ok_def nat_less_iff)
  have "circ_hist (circ_put [x] b) = tl (circ_hist b) @ [x]"
    using n ring_take_full_overwrite [of "nat (head b)" "cbuf b" x]
    by (simp add: circ_put_def circ_hist_def put_byte_def)
  also have "\<dots> = keep_last sz (circ_hist b @ [x])"
    using n by (subst keep_last_snoc_full) (simp_all add: circ_hist_def)
  finally have h: "circ_hist (circ_put [x] b) = keep_last sz (circ_hist b @ [x])" .
  have "circ_put (x # xs) b = circ_put xs (circ_put [x] b)"
    using ok circ_put_append [of b "[x]" xs] by (simp add: circ_ok_def)
  then show ?case
    using Cons.IH [OF circ_put_ok [OF ok, of "[x]"]] h by (simp add: keep_last_keep_last_append)
qed

text \<open>What is in the buffer is the end of the history.\<close>

lemma circ_msgs_hist: "circ_ok sz b \<Longrightarrow> circ_msgs sz b = keep_last (circ_cnt sz b) (circ_hist b)"
proof -
  assume ok: "circ_ok sz b"
  let ?c = "circ_cnt sz b"
  have c: "?c < sz" "length (cbuf b) = sz" using circ_cnt_less [OF ok] ok by (auto simp: circ_ok_def)
  show ?thesis
  proof (rule nth_equalityI)
    show "length (circ_msgs sz b) = length (keep_last ?c (circ_hist b))"
      using c by (simp add: circ_hist_def)
    fix i assume "i < length (circ_msgs sz b)"
    then have i: "i < ?c" by simp
    have "(nat (head b) + (sz - ?c + i)) mod sz = (nat (tail b) + (?c + (sz - ?c)) + i) mod sz"
      unfolding circ_head [OF ok] mod_add_left_eq by (simp only: ac_simps)
    also have "\<dots> = (nat (tail b) + i + sz) mod sz" using c by (simp add: ac_simps)
    also have "\<dots> = (nat (tail b) + i) mod sz" by simp
    finally show "circ_msgs sz b ! i = keep_last ?c (circ_hist b) ! i"
      using i c by (simp add: circ_msgs_def circ_hist_def keep_last_def ring_take_nth)
  qed
qed

lemma keep_last_idem_min: "keep_last a (keep_last b xs) = keep_last (min a b) xs"
  by (cases "a \<le> b") (simp_all add: keep_last_keep_last min_def)

section \<open>The operations on the contents\<close>

text \<open>The loop copies as much as two passes reach: up to the end and one full round.\<close>

lemma write_pass:
  assumes ok: "circ_ok sz b" and c: "c = min (sz - nat (head b)) (length bs - cnt)"
  shows "write_passes (Suc i) sz bs cnt b =
    (if cnt + c = length bs then (cnt + c, circ_put (take c (drop cnt bs)) b)
     else write_passes i sz bs (cnt + c) (circ_put (take c (drop cnt bs)) b))"
proof -
  have "nat (head b) < sz" using ok by (auto simp: circ_ok_def nat_less_iff)
  then have "nat (head b) + min (sz - nat (head b)) k \<le> sz" for k by linarith
  then have "nat (head b) + length (take c (drop cnt bs)) \<le> sz" "length (take c (drop cnt bs)) = c"
    using c by simp_all
  note circ_pass [OF ok this(1), unfolded this(2)]
  moreover have "(if sz - nat (head b) \<le> length bs - cnt then sz - nat (head b) else length bs - cnt) = c"
    using c by (simp add: min_def)
  ultimately show ?thesis by (simp only: write_passes.simps Let_def)
qed

lemma write_passes_2:
  assumes ok: "circ_ok sz b"
  shows "write_passes (Suc (Suc 0)) sz bs 0 b =
    (min (length bs) (2 * sz - nat (head b)), circ_put (take (2 * sz - nat (head b)) bs) b)"
proof (cases "length bs \<le> sz - nat (head b)")
  case True
  then have c: "length bs = min (sz - nat (head b)) (length bs - 0)" by simp
  have "length bs \<le> 2 * sz - nat (head b)" using True by linarith
  then show ?thesis unfolding write_pass [OF ok c] by simp
next
  case False
  let ?r = "sz - nat (head b)"
  let ?b = "circ_put (take ?r bs) b" and ?c = "min sz (length bs - ?r)"
  have h: "nat (head b) < sz" "0 \<le> head b" using ok by (auto simp: circ_ok_def nat_less_iff)
  have c: "?r = min (sz - nat (head b)) (length bs - 0)" using False by simp
  have hb: "head ?b = 0" using circ_put_head [OF ok, of "take ?r bs"] False h by simp
  then have c2: "?c = min (sz - nat (head ?b)) (length bs - ?r)" by simp
  have sz2: "2 * sz - nat (head b) = ?r + sz" using h by linarith
  have "take ?c (drop ?r bs) = take sz (drop ?r bs)"
    by (cases "sz \<le> length bs - ?r") (simp_all add: min_def)
  then have "circ_put (take ?c (drop ?r bs)) ?b = circ_put (take (?r + sz) bs) b"
    using circ_put_append [OF h(2), of "take ?r bs" "take sz (drop ?r bs)"] by (simp only: take_add)
  then have "write_passes (Suc 0) sz bs ?r ?b = (?r + ?c, circ_put (take (?r + sz) bs) b)"
    unfolding write_pass [OF circ_put_ok [OF ok] c2] by (simp only: write_passes.simps if_cancel)
  moreover have "?r + ?c = min (length bs) (?r + sz)" using False by linarith
  moreover have "?r \<noteq> length bs" using False by linarith
  ultimately show ?thesis unfolding write_pass [OF ok c] sz2 by simp
qed

lemma write_passes_two:
  "circ_ok sz b \<Longrightarrow> write_passes 2 sz bs 0 b =
    (min (length bs) (2 * sz - nat (head b)), circ_put (take (2 * sz - nat (head b)) bs) b)"
  using write_passes_2 by (simp only: numeral_2_eq_2)

text \<open>
  The contract of the write: the bytes that two passes reach are appended, the oldest
  make room for them, and the result tells how many were copied.
\<close>

lemma write_circbuf_ok: "circ_ok sz b \<Longrightarrow> circ_ok sz (snd (write_circbuf sz bs b))"
proof -
  assume ok: "circ_ok sz b"
  have put: "circ_ok sz (circ_put xs b)" for xs by (rule circ_put_ok [OF ok])
  have t: "circ_ok sz b1 \<Longrightarrow> circ_ok sz (b1\<lparr>tail := x AND (int sz - 1)\<rparr>)" for b1 :: circ_buf and x
    by (frule circ_and) (auto simp: circ_ok_def)
  show ?thesis
    unfolding write_circbuf_def write_passes_two [OF ok] Let_def prod.case snd_conv
    using put t by simp
qed

lemma write_circbuf_count:
  "circ_ok sz b \<Longrightarrow> fst (write_circbuf sz bs b) = min (length bs) (2 * sz - nat (head b))"
  unfolding write_circbuf_def by (simp add: write_passes_two Let_def)

lemma write_circbuf_msgs:
  assumes ok: "circ_ok sz b" and len: "length bs \<le> 2 * sz - nat (head b)"
  shows "circ_msgs sz (snd (write_circbuf sz bs b)) = keep_last (sz - 1) (circ_msgs sz b @ bs)"
proof -
  define b' where "b' = snd (write_circbuf sz bs b)"
  define cover where "cover = length bs - (sz - 1 - circ_cnt sz b)"
  let ?n = "length bs" and ?d = "circ_cnt sz b"
  have ok': "circ_ok sz b'" unfolding b'_def by (rule write_circbuf_ok [OF ok])
  have d: "?d < sz" "0 < sz" using circ_cnt_less [OF ok] by auto
  have dd: "(head b - tail b) mod int sz = int ?d" using ok by (simp add: circ_cnt_def circ_ok_def)
  have b': "b' = (circ_put bs b)\<lparr>tail := (tail b + int cover) mod int sz\<rparr>"
  proof -
    have "tail b = tail b mod int sz" using ok by (simp add: circ_ok_def)
    moreover have "(circ_put bs b)\<lparr>tail := tail b\<rparr> = circ_put bs b" by (simp add: circ_put_def Let_def)
    ultimately show ?thesis
      unfolding b'_def cover_def write_circbuf_def write_passes_two [OF ok] circ_space [OF ok]
      using len by (auto simp: Let_def circ_and [OF ok])
  qed
  have "(head b' - tail b') mod int sz = ((head b - tail b) mod int sz + int ?n - int cover) mod int sz"
  proof -
    have "(head b' - tail b') mod int sz = (head b + int ?n - (tail b + int cover)) mod int sz"
      using circ_put_head [OF ok, of bs] by (simp add: b' mod_diff_eq)
    also have "\<dots> = ((head b - tail b) + (int ?n - int cover)) mod int sz" by (simp add: algebra_simps)
    also have "\<dots> = ((head b - tail b) mod int sz + (int ?n - int cover)) mod int sz"
      by (rule mod_add_left_eq [symmetric])
    finally show ?thesis by (simp add: algebra_simps)
  qed
  also have "\<dots> = int (min (sz - 1) (?d + ?n)) mod int sz"
    using d by (simp add: dd cover_def)
  finally have cnt: "circ_cnt sz b' = min (sz - 1) (?d + ?n)"
    using d by (simp add: circ_cnt_def nat_mod_distrib)
  have hist: "circ_hist b' = keep_last sz (circ_hist b @ bs)"
    using circ_put_hist [OF ok, of bs] by (simp add: b' circ_hist_def)
  have "circ_msgs sz b' = keep_last (min (sz - 1) (?d + ?n)) (circ_hist b @ bs)"
    unfolding circ_msgs_hist [OF ok'] hist cnt using d by (simp add: keep_last_keep_last)
  also have "\<dots> = keep_last (sz - 1) (keep_last ?d (circ_hist b) @ bs)"
    by (auto simp: keep_last_append keep_last_idem_min min_def)
  finally show ?thesis unfolding b'_def circ_msgs_hist [OF ok] .
qed

text \<open>The contract of the read: it takes the oldest bytes, at most \<open>len\<close> of them.\<close>

lemma ring_take_linear: "i + k \<le> length xs \<Longrightarrow> ring_take i k xs = take k (drop i xs)"
  by (rule nth_equalityI) (auto simp: ring_take_nth)

lemma take_ring_take: "k \<le> n \<Longrightarrow> take k (ring_take i n xs) = ring_take i k xs"
  by (rule nth_equalityI) (auto simp: ring_take_nth)

lemma drop_ring_take: "drop k (ring_take i n xs) = ring_take (i + k) (n - k) xs"
  by (rule nth_equalityI) (auto simp: ring_take_nth add.assoc)

lemma circ_skip:
  assumes ok: "circ_ok sz b" and c: "c \<le> circ_cnt sz b"
  defines "b1 \<equiv> b\<lparr>tail := (tail b + int c) AND (int sz - 1)\<rparr>"
  shows "circ_ok sz b1" "circ_msgs sz b1 = drop c (circ_msgs sz b)" "head b1 = head b"
    "nat (tail b1) = (nat (tail b) + c) mod sz"
proof -
  have n: "0 < int sz" "length (cbuf b) = sz" using ok by (auto simp: circ_ok_def)
  show "circ_ok sz b1" using ok n by (auto simp: b1_def circ_and [OF ok]) (simp add: circ_ok_def)
  have "0 \<le> tail b" using ok by (simp add: circ_ok_def)
  then have "(tail b + int c) mod int sz = int ((nat (tail b) + c) mod sz)" by (simp add: of_nat_mod)
  then show t: "nat (tail b1) = (nat (tail b) + c) mod sz"
    by (simp add: b1_def circ_and [OF ok])
  show "head b1 = head b" by (simp add: b1_def)
  have d: "(head b - tail b) mod int sz = int (circ_cnt sz b)" using n by (simp add: circ_cnt_def)
  have "(head b - (tail b + int c) mod int sz) mod int sz = ((head b - tail b) mod int sz - int c) mod int sz"
    by (simp add: mod_simps algebra_simps)
  also have "\<dots> = int (circ_cnt sz b - c)"
    using c circ_cnt_less [OF ok] by (simp add: d of_nat_diff)
  finally have "circ_cnt sz b1 = circ_cnt sz b - c"
    unfolding circ_cnt_def [of sz b1] by (simp add: b1_def circ_and [OF ok])
  then have "circ_msgs sz b1 = ring_take ((nat (tail b) + c) mod length (cbuf b)) (circ_cnt sz b - c) (cbuf b)"
    using t n by (simp add: circ_msgs_def b1_def)
  then show "circ_msgs sz b1 = drop c (circ_msgs sz b)"
    by (simp add: ring_take_mod circ_msgs_def drop_ring_take)
qed

lemma circ_cnt_to_end:
  assumes ok: "circ_ok sz b"
  shows "nat (CIRC_CNT_TO_END (head b) (tail b) (int sz)) = min (circ_cnt sz b) (sz - nat (tail b))"
proof -
  have "(head b + (int sz - tail b)) mod int sz = (head b - tail b) mod int sz"
    by (metis add_diff_eq mod_add_self2 diff_add_eq)
  moreover obtain d where "(head b - tail b) mod int sz = int d"
    using ok by (metis circ_cnt_def circ_ok_def nat_0_le pos_mod_sign of_nat_0_less_iff gr_implies_not0 neq0_conv)
  moreover obtain t where "tail b = int t" using ok by (metis circ_ok_def nonneg_int_cases)
  moreover have "tail b < int sz" using ok by (simp add: circ_ok_def)
  ultimately show ?thesis
    by (auto simp: CIRC_CNT_TO_END_def Let_def circ_and [OF ok] circ_cnt_def min_def)
qed

lemma read_pass:
  assumes ok: "circ_ok sz b" and c: "c = min (rdlen - length got) (min (circ_cnt sz b) (sz - nat (tail b)))"
  defines "b1 \<equiv> b\<lparr>tail := (tail b + int c) AND (int sz - 1)\<rparr>"
  shows "read_passes (Suc i) sz rdlen got b =
    (if length got + c = rdlen then (got @ take c (circ_msgs sz b), b1)
     else read_passes i sz rdlen (got @ take c (circ_msgs sz b)) b1)"
proof -
  have "nat (tail b) < sz" "length (cbuf b) = sz" using ok by (auto simp: circ_ok_def nat_less_iff)
  then have le: "nat (tail b) + c \<le> length (cbuf b)" "c \<le> circ_cnt sz b"
    using c by linarith+
  then have "take c (circ_msgs sz b) = take c (drop (nat (tail b)) (cbuf b))"
    by (simp add: circ_msgs_def take_ring_take ring_take_linear)
  moreover have "length (take c (drop (nat (tail b)) (cbuf b))) = c" using le by simp
  moreover have "(if rdlen - length got \<le> nat (CIRC_CNT_TO_END (head b) (tail b) (int sz))
      then rdlen - length got else nat (CIRC_CNT_TO_END (head b) (tail b) (int sz))) = c"
    unfolding circ_cnt_to_end [OF ok] c by (simp only: min_def)
  ultimately show ?thesis unfolding b1_def
    by (simp only: read_passes.simps Let_def length_append)
qed

lemma read_circbuf_msgs:
  assumes ok: "circ_ok sz b"
  obtains b' where "read_circbuf sz len b = (take len (circ_msgs sz b), b')" "circ_ok sz b'"
    "circ_msgs sz b' = drop len (circ_msgs sz b)" "head b' = head b"
proof -
  define r where "r = min len (circ_cnt sz b)"
  have num: "nat (CIRC_CNT (head b) (tail b) (int sz)) = circ_cnt sz b"
    by (simp add: CIRC_CNT_def circ_cnt_def circ_and [OF ok])
  have rd: "read_circbuf sz len b = read_passes (Suc (Suc 0)) sz r [] b"
    unfolding read_circbuf_def num by (simp add: Let_def r_def min_def numeral_2_eq_2)
  have tk: "take len (circ_msgs sz b) = take r (circ_msgs sz b)" "drop len (circ_msgs sz b) = drop r (circ_msgs sz b)"
    by (auto simp: r_def min_def)
  define c where "c = min (r - length ([] :: bytes)) (min (circ_cnt sz b) (sz - nat (tail b)))"
  define b1 where "b1 = b\<lparr>tail := (tail b + int c) AND (int sz - 1)\<rparr>"
  have cc: "c \<le> circ_cnt sz b" by (simp add: c_def)
  note s1 = circ_skip [OF ok cc, folded b1_def]
  note p1 = read_pass [OF ok c_def, folded b1_def]
  show thesis
  proof (cases "c = r")
    case True
    then show thesis using p1 s1 rd tk that by simp
  next
    case False
    have t: "nat (tail b) < sz" using ok by (auto simp: circ_ok_def nat_less_iff)
    have ceq: "c = sz - nat (tail b)" "c < r" "r \<le> circ_cnt sz b"
      using False unfolding c_def r_def list.size by linarith+
    then have t1: "nat (tail b1) = 0" using s1(4) t by simp
    let ?got = "take c (circ_msgs sz b)"
    have lg: "length ?got = c" using cc by simp
    have cnt1: "circ_cnt sz b1 = circ_cnt sz b - c"
      using s1(2) by (metis length_circ_msgs length_drop)
    have c2: "r - c = min (r - length ?got) (min (circ_cnt sz b1) (sz - nat (tail b1)))"
      unfolding lg cnt1 t1 using ceq circ_cnt_less [OF ok] by linarith
    have cc2: "r - c \<le> circ_cnt sz b1" unfolding cnt1 using ceq(3) by (rule diff_le_mono)
    note s2 = circ_skip [OF s1(1) cc2]
    have "read_passes (Suc 0) sz r ?got b1
      = (?got @ take (r - c) (circ_msgs sz b1), b1\<lparr>tail := (tail b1 + int (r - c)) AND (int sz - 1)\<rparr>)"
      unfolding read_pass [OF s1(1) c2] using lg ceq by simp
    moreover have "?got @ take (r - c) (circ_msgs sz b1) = take r (circ_msgs sz b)"
      unfolding s1(2) using ceq by (metis le_add_diff_inverse less_imp_le_nat take_add)
    moreover have "drop (r - c) (circ_msgs sz b1) = drop r (circ_msgs sz b)"
      unfolding s1(2) using ceq by simp
    ultimately show thesis
      using that p1 rd tk s2 s1(3) False by simp
  qed
qed

section \<open>The buffer of the UDP console as a receive buffer\<close>

definition udp_put :: "u8 \<Rightarrow> circ_buf \<Rightarrow> circ_buf" where
  "udp_put ch b = snd (write_circbuf 64 [ch] b)"

definition udp_get_char :: "circ_buf \<Rightarrow> u8 option \<times> circ_buf" where
  "udp_get_char b = (case read_circbuf 64 1 b of (bs, b') \<Rightarrow> (case bs of [] \<Rightarrow> None | c # _ \<Rightarrow> Some c, b'))"

lemma circ_room: "circ_ok sz b \<Longrightarrow> sz < 2 * sz - nat (head b)"
proof -
  assume ok: "circ_ok sz b"
  have "nat (head b) < sz" using ok unfolding circ_ok_def by linarith
  then show ?thesis by linarith
qed

interpretation udprx: lossy_fifo udp_put udp_get_char "circ_msgs 64" "\<lambda>_. 63" "circ_ok 64"
proof
  fix b x xs
  assume ok: "circ_ok 64 b"
  show "circ_ok 64 (udp_put x b) \<and> (63::nat) = 63"
    using write_circbuf_ok [OF ok] by (simp add: udp_put_def)
  show "circ_msgs 64 (udp_put x b) = keep_last 63 (circ_msgs 64 b @ [x])"
    using write_circbuf_msgs [OF ok, of "[x]"] circ_room [OF ok] by (simp add: udp_put_def)
  show "udp_get_char b = (None, b)" if "circ_msgs 64 b = []"
  proof -
    have c: "circ_cnt 64 b = 0" using that by (metis length_circ_msgs list.size(3))
    then have n: "nat (CIRC_CNT (head b) (tail b) (int 64)) = 0"
      by (simp add: CIRC_CNT_def circ_and [OF ok, simplified] circ_cnt_def)
    have "tail b AND (int 64 - 1) = tail b" using circ_and [OF ok, of "tail b"] ok by (simp add: circ_ok_def)
    then have "read_circbuf 64 1 b = ([], b)"
      unfolding read_circbuf_def n by (simp add: Let_def numeral_2_eq_2 read_passes.simps)
    then show ?thesis by (simp add: udp_get_char_def)
  qed
  show "\<exists>b'. udp_get_char b = (Some x, b') \<and> circ_ok 64 b' \<and> circ_msgs 64 b' = xs \<and> (63::nat) = 63"
    if msgs: "circ_msgs 64 b = x # xs"
    by (rule read_circbuf_msgs [OF ok, of 1]) (use msgs in \<open>simp add: udp_get_char_def\<close>)
  show "length (circ_msgs 64 b) \<le> 63" using circ_cnt_less [OF ok] by simp
qed

section \<open>Properties\<close>

text \<open>
  C20: writing a block of at most the size of the buffer appends it, the oldest bytes
  making room; reading then takes the oldest bytes. In particular what was written into
  an empty buffer and fits is read back unchanged.
\<close>

theorem circbuf_write_read:
  assumes "circ_ok sz b" "length bs \<le> sz"
  shows "\<exists>b1 b2. write_circbuf sz bs b = (length bs, b1) \<and> circ_ok sz b1
    \<and> circ_msgs sz b1 = keep_last (sz - 1) (circ_msgs sz b @ bs)
    \<and> read_circbuf sz len b1 = (take len (keep_last (sz - 1) (circ_msgs sz b @ bs)), b2)
    \<and> circ_msgs sz b2 = drop len (keep_last (sz - 1) (circ_msgs sz b @ bs))"
proof -
  obtain n b1 where w: "write_circbuf sz bs b = (n, b1)" by (cases "write_circbuf sz bs b")
  have l: "length bs \<le> 2 * sz - nat (head b)" using assms(2) circ_room [OF assms(1)] by linarith
  have b1: "circ_ok sz b1" "circ_msgs sz b1 = keep_last (sz - 1) (circ_msgs sz b @ bs)" "n = length bs"
    using write_circbuf_ok [OF assms(1), of bs] write_circbuf_msgs [OF assms(1) l]
      write_circbuf_count [OF assms(1), of bs] l w by auto
  obtain b2 where "read_circbuf sz len b1 = (take len (circ_msgs sz b1), b2)"
    "circ_msgs sz b2 = drop len (circ_msgs sz b1)"
    by (rule read_circbuf_msgs [OF b1(1)])
  then show ?thesis using w b1 by auto
qed

definition demo_circ :: circ_buf where
  "demo_circ = \<lparr>cbuf = replicate 8 0, head = 6, tail = 6\<rparr>"

lemma demo_circ_ok: "circ_ok 8 demo_circ" "circ_msgs 8 demo_circ = []"
proof -
  have "\<exists>k. (8 :: nat) = 2 ^ k" by (rule exI [of _ 3]) simp
  then show "circ_ok 8 demo_circ" unfolding circ_ok_def demo_circ_def by simp
  show "circ_msgs 8 demo_circ = []" by (simp add: circ_msgs_def circ_cnt_def demo_circ_def)
qed

theorem circbuf_write_read_witness:
  "\<exists>b1 b2. write_circbuf 8 [1, 2, 3, 4, 5] demo_circ = (5, b1) \<and> read_circbuf 8 3 b1 = ([1, 2, 3], b2)
    \<and> circ_msgs 8 b2 = [4, 5]"
  using circbuf_write_read [OF demo_circ_ok(1), of "[1, 2, 3, 4, 5]" 3] demo_circ_ok(2) by auto

text \<open>
  no write, however long, leaves the buffer's memory or its indices out of range, and
  it copies at most up to the end and one full round; the caller of a longer one learns
  that from the count.
\<close>

theorem write_circbuf_safe:
  assumes "circ_ok sz b"
  shows "circ_ok sz (snd (write_circbuf sz bs b))
    \<and> fst (write_circbuf sz bs b) = min (length bs) (2 * sz - nat (head b))"
  using write_circbuf_ok [OF assms] write_circbuf_count [OF assms] by blast

theorem write_circbuf_safe_witness: "fst (write_circbuf 8 (replicate 20 1) demo_circ) = 10"
  using write_circbuf_safe [OF demo_circ_ok(1), of "replicate 20 1"] by (simp add: demo_circ_def)

text \<open>
  the UDP console's byte buffer delivers the characters of the datagrams in order and
  loses none as long as at most 63 are waiting.
\<close>

theorem udp_console_order:
  assumes "circ_ok 64 b" "fifo_run udp_put udp_get_char b ops = (got, b')"
  shows "subseq (got @ circ_msgs 64 b') (circ_msgs 64 b @ fifo_puts ops)
    \<and> (fifo_peak (length (circ_msgs 64 b)) ops \<le> 63 \<longrightarrow> got @ circ_msgs 64 b' = circ_msgs 64 b @ fifo_puts ops)"
  using udprx.run_subseq [OF assms] udprx.run_lossless [OF assms] by blast

theorem udp_console_order_witness:
  "\<exists>got b'. fifo_run udp_put udp_get_char \<lparr>cbuf = replicate 64 0, head = 0, tail = 0\<rparr> [FPut 1, FGet, FPut 2] = (got, b')
    \<and> got @ circ_msgs 64 b' = [1, 2]"
proof -
  let ?b = "\<lparr>cbuf = replicate 64 0, head = 0, tail = 0\<rparr>"
  have "\<exists>k. (64 :: nat) = 2 ^ k" by (rule exI [of _ 6]) simp
  then have ok: "circ_ok 64 ?b" unfolding circ_ok_def by simp
  have e: "circ_msgs 64 ?b = []" by (simp add: circ_msgs_def circ_cnt_def)
  obtain got b' where r: "fifo_run udp_put udp_get_char ?b [FPut 1, FGet, FPut 2] = (got, b')"
    by (cases "fifo_run udp_put udp_get_char ?b [FPut 1, FGet, FPut 2]")
  have e': "got @ circ_msgs 64 b' = [1, 2]" using udp_console_order [OF ok r] e by simp
  show ?thesis by (intro exI conjI, rule r, rule e')
qed

end
