(* ===== verification/Log_Print.thy ===== *)
theory Log_Print
  imports Reg_Pool Circ_Buf
begin

text \<open>
  The log service (\<open>usr/common/log_print.c\<close>): producers write formatted text into a
  circular buffer of 2048 bytes; the log task drains it in pieces of at most 128 bytes to the
  log file and to every registered output callback. The two mutexes make each access to the
  buffer and to the callback list one step. \<open>vsprintf\<close> is the text it produces, FatFs the
  answer of \<open>f_open\<close> and the bytes appended to the file.
\<close>

section \<open>State\<close>

abbreviation (input) LOG_BUFFER_SIZE :: nat where "LOG_BUFFER_SIZE \<equiv> 2048"
abbreviation (input) MAX_CALLBACK_NUM :: nat where "MAX_CALLBACK_NUM \<equiv> 4"
abbreviation (input) MAX_PRINT_LENGTH :: nat where "MAX_PRINT_LENGTH \<equiv> 512"
abbreviation (input) sizeof_outputcb_desc :: nat where "sizeof_outputcb_desc \<equiv> 16"

text \<open>A callback is a function pointer, \<open>None\<close> when null, and its parameter.\<close>

record 'f outputcb_desc =
  cb_func :: "'f option"
  cb_param :: u32

record 'f log_state =
  log_inited :: bool
  log_buffer :: circ_buf
  log_signal :: bool
  cbmem :: os_mem
  callback_head :: nat
  callback_links :: links
  desc_at :: "nat \<Rightarrow> 'f outputcb_desc"
  log_file :: bytes
  uart_out :: bytes

text \<open>What reaches the outside: one call of a callback, with the bytes it gets.\<close>

type_synonym 'f sink_call = "'f \<times> u32 \<times> bytes"

section \<open>Registration\<close>

text \<open>
  \<open>res\<close> tells which of the kernel objects can be created: the mutex, the list lock (twice),
  the flag group, the partition and the task. Objects made before a failure stay made.
\<close>

definition log_init :: "bool list \<Rightarrow> nat \<Rightarrow> nat \<Rightarrow> memory \<Rightarrow> 'f log_state \<Rightarrow> (perr + unit) \<times> 'f log_state" where
  "log_init res parts pool m0 s =
     (if \<not> res ! 0 then (Inl ENOMEM, s)
      else if \<not> res ! 1 then (Inl ENOMEM, s)
      else if \<not> res ! 2 then (Inl ENOMEM, s)
      else if \<not> res ! 3 then (Inl ENOMEM, s)
      else case OSMemCreate parts pool MAX_CALLBACK_NUM sizeof_outputcb_desc m0 of
             (None, _) \<Rightarrow> (Inl ENOMEM, s\<lparr>log_signal := False\<rparr>)
           | (Some m, _) \<Rightarrow>
               let s1 = s\<lparr>log_signal := False, cbmem := m\<rparr>
               in if \<not> res ! 4 then (Inl ENOMEM, s1) else (Inr (), s1\<lparr>log_inited := True\<rparr>))"

definition log_register_outputcb :: "'f option \<Rightarrow> u32 \<Rightarrow> 'f log_state \<Rightarrow> nat \<times> 'f log_state" where
  "log_register_outputcb func param s =
     (if func = None then (0, s)
      else case OSMemGet (cbmem s) of
             ((cbdesc, e), m') \<Rightarrow>
               if cbdesc = 0 then (0, s\<lparr>cbmem := m'\<rparr>)
               else (cbdesc, s\<lparr>cbmem := m', desc_at := (desc_at s)(cbdesc := \<lparr>cb_func = func, cb_param = param\<rparr>),
                      callback_links := list_add_tail cbdesc (callback_head s) (callback_links s)\<rparr>))"

definition log_unregister_outputcb :: "nat \<Rightarrow> 'f log_state \<Rightarrow> int \<times> 'f log_state" where
  "log_unregister_outputcb handle s =
     (let s1 = s\<lparr>callback_links := list_del handle (callback_links s)\<rparr>
      in (0, s1\<lparr>cbmem := snd (OSMemPut handle (cbmem s1))\<rparr>))"

section \<open>Producers\<close>

text \<open>
  \<open>log_put\<close> looks at the last byte of the text, so an empty text reads the byte before it:
  \<open>Fault\<close>. Before the service runs the text goes to the UART.
\<close>

definition log_put :: "bytes \<Rightarrow> 'f log_state \<Rightarrow> (nat \<times> 'f log_state) outcome" where
  "log_put str s =
     (if \<not> log_inited s then Ret (length str, s\<lparr>uart_out := uart_out s @ str\<rparr>)
      else
        case log_write_circbuf LOG_BUFFER_SIZE str (log_buffer s) of
          (flush, cnt, b') \<Rightarrow>
            let s1 = s\<lparr>log_buffer := b', log_signal := log_signal s \<or> flush\<rparr>
            in if str = [] then Fault
               else if last str = 13 \<or> last str = 10 then Ret (length str, s1\<lparr>log_signal := True\<rparr>)
               else Ret (length str, s1))"

text \<open>\<open>log_printf\<close> formats into a fixed buffer; a longer text, with its terminator, overruns it.\<close>

definition log_printf :: "bytes \<Rightarrow> 'f log_state \<Rightarrow> (nat \<times> 'f log_state) outcome" where
  "log_printf formatted s =
     (if MAX_PRINT_LENGTH < length formatted + 1 then Fault else log_put formatted s)"

definition flush_tmr_callback :: "'f log_state \<Rightarrow> 'f log_state" where
  "flush_tmr_callback s = s\<lparr>log_signal := True\<rparr>"

section \<open>The log task\<close>

definition write_log_file :: "bool \<Rightarrow> bytes \<Rightarrow> 'f log_state \<Rightarrow> (perr + unit) \<times> 'f log_state" where
  "write_log_file open_ok data s =
     (if open_ok then (Inr (), s\<lparr>log_file := log_file s @ data\<rparr>) else (Inl ENODEV, s))"

definition call_sink :: "(nat \<Rightarrow> 'f outputcb_desc) \<Rightarrow> bytes \<Rightarrow> nat \<Rightarrow> 'f sink_call list \<Rightarrow> bool \<times> 'f sink_call list" where
  "call_sink descs data node calls =
     (case cb_func (descs node) of
        None \<Rightarrow> (True, calls)
      | Some f \<Rightarrow> (True, calls @ [(f, cb_param (descs node), data)]))"

text \<open>\<open>n\<close> bounds the walk over the callbacks.\<close>

definition out_put :: "nat \<Rightarrow> bool \<Rightarrow> bytes \<Rightarrow> 'f log_state \<times> 'f sink_call list \<Rightarrow> ('f log_state \<times> 'f sink_call list) option" where
  "out_put n open_ok data w =
     (case w of
        (s, calls) \<Rightarrow>
          let s1 = snd (write_log_file open_ok data s)
          in case list_for_each n (callback_links s1) (callback_head s1) (call_sink (desc_at s1) data)
                    (next_of (callback_links s1) (callback_head s1)) calls of
               None \<Rightarrow> None
             | Some calls' \<Rightarrow> Some (s1, calls'))"

text \<open>The inner loop of the task with the number of rounds it may take.\<close>

primrec log_drain :: "nat \<Rightarrow> nat \<Rightarrow> bool \<Rightarrow> 'f log_state \<times> 'f sink_call list \<Rightarrow> ('f log_state \<times> 'f sink_call list) option" where
  "log_drain 0 n open_ok w = None"
| "log_drain (Suc k) n open_ok w =
     (case w of
        (s, calls) \<Rightarrow>
          (case read_circbuf LOG_BUFFER_SIZE 128 (log_buffer s) of
             (bs, b') \<Rightarrow>
               if 0 < length bs then
                 (case out_put n open_ok bs (s\<lparr>log_buffer := b'\<rparr>, calls) of
                    None \<Rightarrow> None
                  | Some w' \<Rightarrow> log_drain k n open_ok w')
               else Some (s\<lparr>log_buffer := b'\<rparr>, calls)))"

text \<open>One round of the task: it waits for the signal, consumes it and drains the buffer.\<close>

definition log_task :: "nat \<Rightarrow> nat \<Rightarrow> bool \<Rightarrow> 'f log_state \<Rightarrow> ('f log_state \<times> 'f sink_call list) option outcome" where
  "log_task k n open_ok s =
     (if log_signal s then Ret (log_drain k n open_ok (s\<lparr>log_signal := False\<rparr>, [])) else Hang)"

section \<open>Invariant\<close>

definition log_ok :: "'f log_state \<Rightarrow> nat list \<Rightarrow> bool" where
  "log_ok s cbs \<longleftrightarrow> circ_ok LOG_BUFFER_SIZE (log_buffer s)
     \<and> reg_ok (cbmem s) (callback_links s) (callback_head s) cbs
     \<and> card (set (mem_blocks (cbmem s))) = MAX_CALLBACK_NUM
     \<and> (\<forall>p\<in>set cbs. cb_func (desc_at s p) \<noteq> None)"

definition log_text :: "'f log_state \<Rightarrow> bytes" where
  "log_text s = circ_msgs LOG_BUFFER_SIZE (log_buffer s)"

lemma log_register_ok:
  assumes "log_ok s cbs"
  obtains p s' where "length cbs < 4" "log_register_outputcb (Some f) param s = (p, s')" "p \<noteq> 0" "p \<notin> set cbs"
      "log_ok s' (cbs @ [p])" "desc_at s' = (desc_at s)(p := \<lparr>cb_func = Some f, cb_param = param\<rparr>)" "log_buffer s' = log_buffer s"
  | "length cbs = 4" "log_register_outputcb (Some f) param s = (0, s)"
proof (cases "length cbs < 4")
  case True
  have r: "reg_ok (cbmem s) (callback_links s) (callback_head s) cbs" "length cbs < card (set (mem_blocks (cbmem s)))"
    using assms True by (auto simp: log_ok_def)
  obtain p m' where p: "OSMemGet (cbmem s) = ((p, OS_ERR_NONE), m')" "p \<noteq> 0" "p \<notin> set cbs"
    "reg_ok m' (list_add_tail p (callback_head s) (callback_links s)) (callback_head s) (cbs @ [p])"
    "mem_blocks m' = mem_blocks (cbmem s)"
    by (rule reg_add [OF r])
  let ?s = "s\<lparr>cbmem := m', desc_at := (desc_at s)(p := \<lparr>cb_func = Some f, cb_param = param\<rparr>),
      callback_links := list_add_tail p (callback_head s) (callback_links s)\<rparr>"
  have "log_ok ?s (cbs @ [p])" using assms p by (auto simp: log_ok_def)
  then show thesis using that(1) [of p ?s] True p by (simp add: log_register_outputcb_def)
next
  case False
  have r: "reg_ok (cbmem s) (callback_links s) (callback_head s) cbs" "card (set (mem_blocks (cbmem s))) = 4"
    using assms by (auto simp: log_ok_def)
  have l: "length cbs = 4" using False reg_ok_count [OF r(1)] r(2) by linarith
  have "OSMemGet (cbmem s) = ((0, OS_ERR_MEM_NO_FREE_BLKS), cbmem s)"
    by (rule reg_full [OF r(1)]) (simp add: l r(2))
  then show thesis using that(2) l by (simp add: log_register_outputcb_def)
qed

lemma log_unregister_ok:
  assumes "log_ok s cbs" "p \<in> set cbs"
  obtains s' where "log_unregister_outputcb p s = (0, s')" "log_ok s' (remove1 p cbs)" "desc_at s' = desc_at s"
proof -
  have r: "reg_ok (cbmem s) (callback_links s) (callback_head s) cbs" using assms(1) by (simp add: log_ok_def)
  obtain m' where m': "OSMemPut p (cbmem s) = (OS_ERR_NONE, m')"
    "reg_ok m' (list_del p (callback_links s)) (callback_head s) (remove1 p cbs)" "mem_blocks m' = mem_blocks (cbmem s)"
    by (rule reg_del [OF r assms(2)])
  let ?s = "s\<lparr>callback_links := list_del p (callback_links s), cbmem := m'\<rparr>"
  have "log_ok ?s (remove1 p cbs)"
    using assms(1) m' set_remove1_subset [of p cbs] by (auto simp: log_ok_def)
  then show thesis using that [of ?s] m' by (simp add: log_unregister_outputcb_def Let_def)
qed

lemma log_put_ok:
  assumes "log_ok s cbs" "log_inited s" "str \<noteq> []" "length str \<le> 2048"
  obtains s' where "log_put str s = Ret (length str, s')" "log_ok s' cbs" "log_inited s'"
    "log_text s' = keep_last 2047 (log_text s @ str)"
    "last str = 10 \<or> last str = 13 \<or> log_signal s \<longrightarrow> log_signal s'"
    "cbmem s' = cbmem s" "callback_links s' = callback_links s" "desc_at s' = desc_at s" "log_file s' = log_file s"
proof -
  have ok: "circ_ok 2048 (log_buffer s)" using assms(1) by (simp add: log_ok_def)
  obtain cnt b' where w: "write_circbuf 2048 str (log_buffer s) = (cnt, b')" by (cases "write_circbuf 2048 str (log_buffer s)")
  have l: "length str \<le> 2 * 2048 - nat (head (log_buffer s))" using assms(4) circ_room [OF ok] by linarith
  have b': "circ_ok 2048 b'" "circ_msgs 2048 b' = keep_last 2047 (circ_msgs 2048 (log_buffer s) @ str)"
    using write_circbuf_ok [OF ok, of str] write_circbuf_msgs [OF ok l] w by auto
  define s' where "s' = s\<lparr>log_buffer := b', log_signal := log_signal s \<or> fst (log_write_circbuf 2048 str (log_buffer s))
      \<or> last str = 13 \<or> last str = 10\<rparr>"
  have "log_put str s = Ret (length str, s')"
    using assms(2,3) w by (auto simp: log_put_def log_write_circbuf_def s'_def Let_def)
  moreover have "log_ok s' cbs" using assms(1) b' by (simp add: log_ok_def s'_def)
  moreover have "log_text s' = keep_last 2047 (log_text s @ str)" using b' by (simp add: log_text_def s'_def)
  ultimately show thesis using that [of s'] assms(2) by (simp add: s'_def)
qed

section \<open>Draining\<close>

definition sinks :: "'f log_state \<Rightarrow> nat list \<Rightarrow> bytes \<Rightarrow> 'f sink_call list" where
  "sinks s cbs bs = map (\<lambda>p. (the (cb_func (desc_at s p)), cb_param (desc_at s p), bs)) cbs"

lemma each_call_sink:
  "\<forall>p\<in>set cbs. cb_func (descs p) \<noteq> None \<Longrightarrow>
     each (call_sink descs bs) cbs calls
       = calls @ map (\<lambda>p. (the (cb_func (descs p)), cb_param (descs p), bs)) cbs"
  by (induction cbs arbitrary: calls) (auto simp: call_sink_def)

lemma out_put_ok:
  assumes "log_ok s cbs" "length cbs \<le> n"
  shows "out_put n op bs (s, calls)
    = Some (if op then s\<lparr>log_file := log_file s @ bs\<rparr> else s, calls @ sinks s cbs bs)"
proof -
  have "dlist (callback_links s) (callback_head s) cbs" "\<forall>p\<in>set cbs. cb_func (desc_at s p) \<noteq> None"
    using assms(1) by (simp_all add: log_ok_def reg_ok_def)
  then show ?thesis
    using assms(2) by (simp add: out_put_def write_log_file_def Let_def for_each_dlist each_call_sink sinks_def)
qed

fun chunks :: "nat \<Rightarrow> 'a list \<Rightarrow> 'a list list" where
  "chunks k [] = []"
| "chunks k (x # xs) = (if k = 0 then [] else take k (x # xs) # chunks k (drop k (x # xs)))"

lemma concat_chunks: "0 < k \<Longrightarrow> concat (chunks k xs) = xs"
  by (induction k xs rule: chunks.induct) (simp_all del: take_Suc_Cons drop_Suc_Cons)

lemma chunks_size: "0 < k \<Longrightarrow> c \<in> set (chunks k xs) \<Longrightarrow> 0 < length c \<and> length c \<le> k"
  by (induction k xs rule: chunks.induct) auto

lemma chunks_step: "0 < k \<Longrightarrow> xs \<noteq> [] \<Longrightarrow> chunks k xs = take k xs # chunks k (drop k xs)"
  by (cases xs) auto

lemma log_drain_ok:
  assumes "log_ok s cbs" "length cbs \<le> n" "length (log_text s) < k"
  shows "\<exists>s'. log_drain k n op (s, calls)
      = Some (s', calls @ concat (map (sinks s cbs) (chunks 128 (log_text s))))
    \<and> log_ok s' cbs \<and> log_text s' = [] \<and> desc_at s' = desc_at s \<and> log_signal s' = log_signal s
    \<and> log_file s' = log_file s @ (if op then log_text s else [])"
  using assms
proof (induction k arbitrary: s calls)
  case 0
  then show ?case by simp
next
  case (Suc k)
  have ok: "circ_ok 2048 (log_buffer s)" using Suc.prems(1) by (simp add: log_ok_def)
  obtain b' where b': "read_circbuf 2048 128 (log_buffer s) = (take 128 (circ_msgs 2048 (log_buffer s)), b')"
    "circ_ok 2048 b'" "circ_msgs 2048 b' = drop 128 (circ_msgs 2048 (log_buffer s))"
    by (rule read_circbuf_msgs [OF ok])
  let ?t = "log_text s"
  show ?case
  proof (cases "?t = []")
    case True
    then show ?thesis using b' Suc.prems(1) by (simp add: log_text_def log_ok_def)
  next
    case False
    let ?s1 = "s\<lparr>log_buffer := b'\<rparr>"
    let ?s2 = "if op then ?s1\<lparr>log_file := log_file ?s1 @ take 128 ?t\<rparr> else ?s1"
    have ok1: "log_ok ?s1 cbs" using Suc.prems(1) b'(2) by (simp add: log_ok_def)
    have o: "out_put n op (take 128 ?t) (?s1, calls) = Some (?s2, calls @ sinks s cbs (take 128 ?t))"
      using out_put_ok [OF ok1 Suc.prems(2), of op "take 128 ?t" calls] by (simp add: sinks_def)
    have ok2: "log_ok ?s2 cbs" using ok1 by (simp add: log_ok_def)
    have t2: "log_text ?s2 = drop 128 ?t" using b'(3) by (simp add: log_text_def)
    have "length (log_text ?s2) < k" unfolding t2 using Suc.prems(3) False by (cases ?t) auto
    from Suc.IH [OF ok2 Suc.prems(2) this, of "calls @ sinks s cbs (take 128 ?t)"]
    obtain s' where s': "log_drain k n op (?s2, calls @ sinks s cbs (take 128 ?t))
        = Some (s', (calls @ sinks s cbs (take 128 ?t)) @ concat (map (sinks ?s2 cbs) (chunks 128 (drop 128 ?t))))"
      "log_ok s' cbs" "log_text s' = []" "desc_at s' = desc_at ?s2" "log_signal s' = log_signal ?s2"
      "log_file s' = log_file ?s2 @ (if op then drop 128 ?t else [])"
      unfolding t2 by blast
    have sk: "sinks ?s2 cbs = sinks s cbs" by (auto simp: sinks_def fun_eq_iff)
    have d: "log_drain (Suc k) n op (s, calls) = log_drain k n op (?s2, calls @ sinks s cbs (take 128 ?t))"
      using b'(1) o False by (simp add: log_text_def)
    show ?thesis
      using s' False unfolding d sk by (auto simp: chunks_step [of 128 ?t])
  qed
qed

section \<open>Properties\<close>

text \<open>
  C32: from a line printed to the sinks: when a text that ends a line is printed and the log
  task then runs, the task empties the buffer, and every registered callback, in the order of
  registration and with its own parameter, gets the same pieces of at most 128 bytes, whose
  concatenation is the newest 2047 bytes of what was waiting and the text; the log file, if it
  opens, gets the same bytes once.
\<close>

theorem log_line_reaches_sinks:
  assumes "log_ok s cbs" "log_inited s" "str \<noteq> []" "length str < 512" "last str = 10 \<or> last str = 13" "length cbs \<le> n"
  shows "\<exists>s1 s2 pieces. log_printf str s = Ret (length str, s1)
    \<and> log_task 2048 n op s1 = Ret (Some (s2, concat (map (sinks s cbs) pieces)))
    \<and> concat pieces = keep_last 2047 (log_text s @ str) \<and> (\<forall>p\<in>set pieces. length p \<le> 128)
    \<and> log_ok s2 cbs \<and> log_text s2 = [] \<and> \<not> log_signal s2
    \<and> (op \<longrightarrow> log_file s2 = log_file s @ keep_last 2047 (log_text s @ str))"
proof -
  have l: "length str \<le> 2048" using assms(4) by simp
  obtain s1 where s1: "log_put str s = Ret (length str, s1)" "log_ok s1 cbs" "log_inited s1"
    "log_text s1 = keep_last 2047 (log_text s @ str)" "last str = 10 \<or> last str = 13 \<or> log_signal s \<longrightarrow> log_signal s1"
    "cbmem s1 = cbmem s" "callback_links s1 = callback_links s" "desc_at s1 = desc_at s" "log_file s1 = log_file s"
    by (rule log_put_ok [OF assms(1-3) l]) (rule that; assumption)
  have sig: "log_signal s1" using s1(5) assms(5) by blast
  let ?s = "s1\<lparr>log_signal := False\<rparr>"
  have ok: "log_ok ?s cbs" using s1(2) by (simp add: log_ok_def)
  have t: "log_text ?s = keep_last 2047 (log_text s @ str)" using s1(4) by (simp add: log_text_def)
  have lt: "length (log_text ?s) < 2048" by (simp add: t)
  obtain s2 where s2: "log_drain 2048 n op (?s, []) = Some (s2, concat (map (sinks ?s cbs) (chunks 128 (log_text ?s))))"
    "log_ok s2 cbs" "log_text s2 = []" "log_signal s2 = log_signal ?s"
    "log_file s2 = log_file ?s @ (if op then log_text ?s else [])"
    using log_drain_ok [OF ok assms(6) lt, of op "[]"] by auto
  have sk: "sinks ?s cbs = sinks s cbs" using s1(8) by (auto simp: sinks_def fun_eq_iff)
  have "log_printf str s = Ret (length str, s1)" using s1(1) assms(4) by (simp add: log_printf_def)
  then show ?thesis
    using s2 sig s1(9) chunks_size [of 128] concat_chunks [of 128] unfolding sk t log_task_def
    by (intro exI [of _ s1] exI [of _ s2] exI [of _ "chunks 128 (keep_last 2047 (log_text s @ str))"]) auto
qed

definition demo_log :: "nat log_state" where
  "demo_log = \<lparr>log_inited = True, log_buffer = \<lparr>cbuf = replicate 2048 0, head = 0, tail = 0\<rparr>, log_signal = False,
     cbmem = the (fst (OSMemCreate 1 1000 4 16 (\<lambda>_. 0))), callback_head = 500,
     callback_links = INIT_LIST_HEAD 500 \<lparr>next_of = \<lambda>_. 0, prev_of = \<lambda>_. 0\<rparr>,
     desc_at = \<lambda>_. \<lparr>cb_func = None, cb_param = 0\<rparr>, log_file = [], uart_out = []\<rparr>"

lemma demo_log_ok: "log_ok demo_log []" "log_text demo_log = []"
proof -
  obtain m r where m: "OSMemCreate 1 1000 4 16 (\<lambda>_. 0) = (Some m, r)" by (simp add: OSMemCreate_def)
  have "reg_ok m (callback_links demo_log) 500 []" "card (set (mem_blocks m)) = 4"
    using reg_init [OF m, of "callback_links demo_log" 500] dlist_init [of 500] by (simp_all add: demo_log_def)
  moreover have "\<exists>k. (2048 :: nat) = 2 ^ k" by (rule exI [of _ 11]) simp
  then have "circ_ok 2048 (log_buffer demo_log)" unfolding circ_ok_def demo_log_def by simp
  ultimately show "log_ok demo_log []" using m by (simp add: log_ok_def demo_log_def)
  show "log_text demo_log = []" by (simp add: log_text_def circ_msgs_def circ_cnt_def demo_log_def)
qed

theorem log_line_reaches_sinks_witness:
  "\<exists>s0 p s1 s2 pieces. log_register_outputcb (Some 5) 9 demo_log = (p, s0)
    \<and> log_printf [72, 105, 10] s0 = Ret (3, s1)
    \<and> log_task 2048 4 True s1 = Ret (Some (s2, concat (map (sinks s0 [p]) pieces)))
    \<and> concat pieces = [72, 105, 10] \<and> log_file s2 = [72, 105, 10]"
proof (rule log_register_ok [OF demo_log_ok(1), where f = 5 and param = 9])
  fix p s0
  assume s0: "log_register_outputcb (Some 5) 9 demo_log = (p, s0)" "log_ok s0 ([] @ [p])" "log_buffer s0 = log_buffer demo_log"
  then have o: "log_ok s0 [p]" by simp
  have e: "log_inited s0" "log_text s0 = []" "log_file s0 = []"
    using s0(1,3) demo_log_ok(2)
    by (auto simp: log_register_outputcb_def log_text_def demo_log_def split: prod.splits if_splits)
  show ?thesis
    using log_line_reaches_sinks [OF o e(1), of "[72, 105, 10]" 4 True] s0(1) e(2,3) by force
qed simp

text \<open>
  the callback registry has four places: a registration is refused with 0 when they are
  taken and otherwise returns a new handle, and unregistering a handle gives the place back
  and leaves the other callbacks in their order.
\<close>

theorem log_callbacks_registry:
  assumes "log_ok s cbs"
  shows "(length cbs = 4 \<longrightarrow> log_register_outputcb (Some f) param s = (0, s))
    \<and> (length cbs < 4 \<longrightarrow> (\<exists>p s' s''. log_register_outputcb (Some f) param s = (p, s') \<and> p \<noteq> 0
        \<and> log_ok s' (cbs @ [p]) \<and> log_unregister_outputcb p s' = (0, s'') \<and> log_ok s'' cbs))
    \<and> (\<forall>p\<in>set cbs. \<exists>s'. log_unregister_outputcb p s = (0, s') \<and> log_ok s' (remove1 p cbs))"
proof (intro conjI ballI impI)
  show "\<exists>s'. log_unregister_outputcb p s = (0, s') \<and> log_ok s' (remove1 p cbs)" if p: "p \<in> set cbs" for p
    by (rule log_unregister_ok [OF assms p]) blast
  show "log_register_outputcb (Some f) param s = (0, s)" if l: "length cbs = 4"
    by (rule log_register_ok [OF assms, of f param]) (use l in auto)
  show "\<exists>p s' s''. log_register_outputcb (Some f) param s = (p, s') \<and> p \<noteq> 0
        \<and> log_ok s' (cbs @ [p]) \<and> log_unregister_outputcb p s' = (0, s'') \<and> log_ok s'' cbs" if l: "length cbs < 4"
  proof (rule log_register_ok [OF assms, of f param])
    fix p s'
    assume r: "log_register_outputcb (Some f) param s = (p, s')" "p \<noteq> 0" "p \<notin> set cbs" "log_ok s' (cbs @ [p])"
    have "p \<in> set (cbs @ [p])" by simp
    from r(4) this obtain s'' where "log_unregister_outputcb p s' = (0, s'')" "log_ok s'' (remove1 p (cbs @ [p]))"
      by (rule log_unregister_ok)
    with r show ?thesis by (auto simp: remove1_append)
  qed (use l in simp)
qed

theorem log_callbacks_registry_witness:
  "\<exists>p s' s''. log_register_outputcb (Some 5) 9 demo_log = (p, s') \<and> p \<noteq> 0
    \<and> log_unregister_outputcb p s' = (0, s'') \<and> log_ok s'' []"
  using log_callbacks_registry [OF demo_log_ok(1), of 5 9] by auto

text \<open>
  printing an empty text is outside the service's contract: \<open>log_put\<close> then reads the byte
  before the text; so is a text of 512 characters or more, which overruns the format buffer.
\<close>

theorem log_printf_faults:
  assumes "log_inited s"
  shows "log_printf [] s = Fault \<and> (512 \<le> length str \<longrightarrow> log_printf str s = Fault)"
  using assms by (simp add: log_printf_def log_put_def split: prod.split)

theorem log_printf_faults_witness: "log_printf [] demo_log = Fault \<and> log_printf (replicate 600 65) demo_log = Fault"
  using log_printf_faults [of demo_log "replicate 600 65"] by (simp add: demo_log_def)

end
