(* ===== verification/Float_Facts.thy ===== *)
theory Float_Facts
  imports Floats
begin

text \<open>
  What the control code relies on of the floating-point arithmetic: below the overflow
  threshold the exponent search always ends, rounding is monotone, and a number with at most
  24 significant bits is its own rounding. Comparisons and clamps of rounded results follow
  from their values at the bounds.
\<close>

lemma find_exp_up:
  "2 ^ (p - 1) \<le> m \<Longrightarrow> m < 2 ^ (p + n) \<Longrightarrow> 0 < p \<Longrightarrow> find_exp n p emin m e = (m', e') \<Longrightarrow>
     m' * pow2 e' = m * pow2 e \<and> 2 ^ (p - 1) \<le> m' \<and> m' < 2 ^ p \<and> e \<le> e'"
proof (induction n p emin m e rule: find_exp.induct)
  case (1 p emin m e)
  then show ?case by simp
next
  case (2 n p emin m e)
  have p2: "2 ^ p = 2 * (2 ^ (p - 1) :: rat)" using 2(5) by (simp flip: power_Suc)
  show ?case
  proof (cases "2 ^ p \<le> m")
    case True
    have "m / 2 * pow2 (e + 1) = m * pow2 e" by (simp add: pow2_Suc)
    with 2(1) [OF True] True 2 p2 show ?thesis by simp
  next
    case False
    then show ?thesis using 2 by auto
  qed
qed

lemma find_exp_down:
  "m < 2 ^ p \<Longrightarrow> 0 < p \<Longrightarrow> emin \<le> e \<Longrightarrow> e - emin \<le> int n \<Longrightarrow> find_exp n p emin m e = (m', e') \<Longrightarrow>
     m' * pow2 e' = m * pow2 e \<and> m' < 2 ^ p \<and> emin \<le> e' \<and> (2 ^ (p - 1) \<le> m' \<or> e' = emin)"
proof (induction n p emin m e rule: find_exp.induct)
  case (1 p emin m e)
  then show ?case by simp
next
  case (2 n p emin m e)
  have p2: "2 ^ p = 2 * (2 ^ (p - 1) :: rat)" using 2(4) by (simp flip: power_Suc)
  have m: "\<not> 2 ^ p \<le> m" using 2(3) by simp
  show ?case
  proof (cases "m < 2 ^ (p - 1) \<and> emin < e")
    case True
    have "m * 2 * pow2 (e - 1) = m * pow2 e" using pow2_Suc [of "e - 1"] by simp
    with 2(2) [OF m True] True m 2 p2 show ?thesis by simp
  next
    case False
    then show ?thesis using 2 m by auto
  qed
qed

text \<open>A format: precision, least exponent, steps of the search.\<close>

definition fmt_ok :: "nat \<Rightarrow> nat \<Rightarrow> int \<Rightarrow> bool" where
  "fmt_ok n p emin \<longleftrightarrow> 0 < p \<and> emin \<le> 0 \<and> - emin \<le> int n"

lemma fmt32: "fmt_ok 200 24 (- 149)" and fmt64: "fmt_ok 1200 53 (- 1074)"
  by (simp_all add: fmt_ok_def)

lemma find_exp_result:
  assumes "fmt_ok n p emin" "\<bar>x\<bar> < 2 ^ (p + n)"
  obtains m e where "find_exp n p emin \<bar>x\<bar> 0 = (m, e)" "m * pow2 e = \<bar>x\<bar>" "0 \<le> m" "m < 2 ^ p"
    "emin \<le> e" "2 ^ (p - 1) \<le> m \<or> e = emin"
proof -
  obtain m e where r: "find_exp n p emin \<bar>x\<bar> 0 = (m, e)" by (cases "find_exp n p emin \<bar>x\<bar> 0")
  have f: "0 < p" "emin \<le> 0" "- emin \<le> int n" using assms(1) by (auto simp: fmt_ok_def)
  have p0: "pow2 0 = 1" by (simp add: pow2_def)
  have *: "m * pow2 e = \<bar>x\<bar> \<and> m < 2 ^ p \<and> emin \<le> e \<and> (2 ^ (p - 1) \<le> m \<or> e = emin)"
  proof (cases "2 ^ (p - 1) \<le> \<bar>x\<bar>")
    case True
    from find_exp_up [OF True assms(2) f(1) r] f p0 show ?thesis by auto
  next
    case False
    have "(2 :: rat) ^ (p - 1) \<le> 2 ^ p" by (rule power_increasing) auto
    then have "\<bar>x\<bar> < 2 ^ p" using False by linarith
    from find_exp_down [OF this f(1,2) _ r] f p0 show ?thesis by auto
  qed
  then have "0 \<le> m * pow2 e" by simp
  then have "0 \<le> m" using pow2_pos [of e] by (simp add: zero_le_mult_iff)
  then show thesis using that r * by blast
qed

lemma pow2_mono: "a \<le> b \<Longrightarrow> pow2 a \<le> pow2 b"
proof -
  assume "a \<le> b"
  then obtain k where "b = a + int k" by (metis zle_iff_zadd)
  then have "pow2 b = 2 ^ k * pow2 a" by (simp add: pow2_add)
  moreover have "1 * pow2 a \<le> 2 ^ k * pow2 a" using pow2_pos [of a] by (intro mult_right_mono) auto
  ultimately show ?thesis by simp
qed

lemma fround_mono_nonneg:
  assumes f: "fmt_ok n p emin" and "0 \<le> x" "x \<le> y" "y < 2 ^ (p + n)"
  shows "fround n p emin x \<le> fround n p emin y"
proof (cases "x = 0")
  case True
  then show ?thesis using assms by (simp add: fround_nonneg)
next
  case False
  then have pos: "0 < x" "0 < y" using assms by auto
  have p: "0 < p" using f by (simp add: fmt_ok_def)
  have "\<bar>x\<bar> < 2 ^ (p + n)" "\<bar>y\<bar> < 2 ^ (p + n)" using assms pos by auto
  obtain mx ex where x: "find_exp n p emin \<bar>x\<bar> 0 = (mx, ex)" "mx * pow2 ex = x" "0 \<le> mx" "mx < 2 ^ p"
    "emin \<le> ex" "2 ^ (p - 1) \<le> mx \<or> ex = emin"
    by (rule find_exp_result [OF f \<open>\<bar>x\<bar> < _\<close>]) (use pos in simp)
  obtain my ey where y: "find_exp n p emin \<bar>y\<bar> 0 = (my, ey)" "my * pow2 ey = y" "0 \<le> my" "my < 2 ^ p"
    "emin \<le> ey" "2 ^ (p - 1) \<le> my \<or> ey = emin"
    by (rule find_exp_result [OF f \<open>\<bar>y\<bar> < _\<close>]) (use pos in simp)
  have fx: "fround n p emin x = of_int (round_even mx) * pow2 ex"
    and fy: "fround n p emin y = of_int (round_even my) * pow2 ey"
    using x(1) y(1) pos by (simp_all add: fround_def)
  have p2: "2 ^ p = 2 * (2 ^ (p - 1) :: rat)" using p by (simp flip: power_Suc)
  consider "ex = ey" | "ex < ey" | "ey < ex" by linarith
  then show ?thesis
  proof cases
    case 1
    then have "mx \<le> my" using assms(3) x(2) y(2) pow2_pos [of ey] by (metis mult_le_cancel_right_pos)
    then have "(of_int (round_even mx) :: rat) \<le> of_int (round_even my)" by (simp add: round_even_mono)
    then show ?thesis unfolding fx fy 1 using pow2_pos [of ey] by (intro mult_right_mono) auto
  next
    case 2
    then have "2 ^ (p - 1) \<le> my" using x(5) y(6) by auto
    then have "round_even (of_int (2 ^ (p - 1))) \<le> round_even my" by (intro round_even_mono) simp
    then have ry: "(2 :: rat) ^ (p - 1) \<le> of_int (round_even my)"
      by (metis of_int_le_iff of_int_numeral of_int_power round_even_int)
    have "round_even mx \<le> round_even (of_int (2 ^ p))" using x(4) by (intro round_even_mono) simp
    then have rx: "(of_int (round_even mx) :: rat) \<le> 2 ^ p"
      by (metis of_int_le_iff of_int_numeral of_int_power round_even_int)
    have "of_int (round_even mx) * pow2 ex \<le> 2 ^ p * pow2 ex"
      using rx pow2_pos [of ex] by (intro mult_right_mono) auto
    also have "\<dots> = 2 ^ (p - 1) * pow2 (ex + 1)" by (simp add: p2 pow2_Suc)
    also have "\<dots> \<le> 2 ^ (p - 1) * pow2 ey" using 2 by (intro mult_left_mono pow2_mono) auto
    also have "\<dots> \<le> of_int (round_even my) * pow2 ey"
      using ry pow2_pos [of ey] by (intro mult_right_mono) auto
    finally show ?thesis unfolding fx fy .
  next
    case 3
    then have "2 ^ (p - 1) \<le> mx" using y(5) x(6) by auto
    have "y < 2 ^ p * pow2 ey" using y(2,4) pow2_pos [of ey] by (metis mult_less_cancel_right_pos)
    also have "\<dots> = 2 ^ (p - 1) * pow2 (ey + 1)" by (simp add: p2 pow2_Suc)
    also have "\<dots> \<le> 2 ^ (p - 1) * pow2 ex" using 3 by (intro mult_left_mono pow2_mono) auto
    also have "\<dots> \<le> mx * pow2 ex" using \<open>2 ^ (p - 1) \<le> mx\<close> pow2_pos [of ex] by (intro mult_right_mono) auto
    finally show ?thesis using assms(3) x(2) by simp
  qed
qed

lemma fround_mono:
  assumes f: "fmt_ok n p emin" and "x \<le> y" "\<bar>x\<bar> < 2 ^ (p + n)" "\<bar>y\<bar> < 2 ^ (p + n)"
  shows "fround n p emin x \<le> fround n p emin y"
proof -
  consider "0 \<le> x" | "x < 0" "0 \<le> y" | "y < 0" by linarith
  then show ?thesis
  proof cases
    case 1
    then show ?thesis using fround_mono_nonneg [OF f 1 assms(2)] assms(4) by simp
  next
    case 2
    then have "fround n p emin x \<le> 0" using fround_nonneg [of "- x" n p emin] fround_minus [of n p emin x] by simp
    also have "0 \<le> fround n p emin y" using 2 by (simp add: fround_nonneg)
    finally show ?thesis .
  next
    case 3
    then have "fround n p emin (- y) \<le> fround n p emin (- x)"
      using assms by (intro fround_mono_nonneg [OF f]) auto
    then show ?thesis by (simp add: fround_minus)
  qed
qed

text \<open>A number whose significand fits is not changed.\<close>

lemma fround_exact:
  assumes f: "fmt_ok n p emin" and x: "x = of_int k * pow2 e0" "\<bar>k\<bar> \<le> 2 ^ p" "emin \<le> e0" "\<bar>x\<bar> < 2 ^ (p + n)"
  shows "fround n p emin x = x"
proof (cases "x = 0")
  case False
  have p: "0 < p" using f by (simp add: fmt_ok_def)
  obtain m e where r: "find_exp n p emin \<bar>x\<bar> 0 = (m, e)" "m * pow2 e = \<bar>x\<bar>" "0 \<le> m" "m < 2 ^ p"
    "emin \<le> e" "2 ^ (p - 1) \<le> m \<or> e = emin"
    by (rule find_exp_result [OF f x(4)])
  have ax: "\<bar>x\<bar> = of_int \<bar>k\<bar> * pow2 e0" using x(1) pow2_pos [of e0] by (simp add: abs_mult)
  have "\<exists>i. m = of_int i"
  proof (cases "e \<le> e0")
    case True
    then obtain j where "e0 = e + int j" by (metis zle_iff_zadd)
    then have "m * pow2 e = of_int (\<bar>k\<bar> * 2 ^ j) * pow2 e" using r(2) ax by (simp add: pow2_add)
    then have "m = of_int (\<bar>k\<bar> * 2 ^ j)" using pow2_pos [of e] by simp
    then show ?thesis by blast
  next
    case False
    then obtain j where j: "e = e0 + int (Suc j)" by (metis not_le zless_iff_Suc_zadd)
    then have m: "2 ^ (p - 1) \<le> m" using r(6) x(3) by auto
    have "m * 2 ^ Suc j * pow2 e0 = of_int \<bar>k\<bar> * pow2 e0" using r(2) ax unfolding j pow2_add by (simp only: mult.assoc)
    then have mk: "m * 2 ^ Suc j = of_int \<bar>k\<bar>" using pow2_pos [of e0] by simp
    have "(1 :: rat) \<le> 2 ^ j" by simp
    then have "m * 1 \<le> m * 2 ^ j" using r(3) by (intro mult_left_mono) auto
    then have "2 * m \<le> of_int \<bar>k\<bar>" using mk by simp
    also have "of_int \<bar>k\<bar> \<le> (of_int (2 ^ p) :: rat)" using x(2) by (simp only: of_int_le_iff)
    also have "(of_int (2 ^ p) :: rat) = 2 * 2 ^ (p - 1)" using p by (simp flip: power_Suc)
    finally have "m = 2 ^ (p - 1)" using m by simp
    then show ?thesis by (intro exI [of _ "2 ^ (p - 1)"]) simp
  qed
  then obtain i where i: "m = of_int i" by blast
  have "fround n p emin x = sgn x * (m * pow2 e)" using r(1) i by (simp add: fround_def)
  also have "\<dots> = x" using r(2) by (simp add: sgn_mult_abs)
  finally show ?thesis .
qed simp

lemma fl32_mono: "x \<le> y \<Longrightarrow> \<bar>x\<bar> \<le> 2 ^ 200 \<Longrightarrow> \<bar>y\<bar> \<le> 2 ^ 200 \<Longrightarrow> fl32 x \<le> fl32 y"
  unfolding fl32_def by (rule fround_mono [OF fmt32]) simp_all

lemma fl64_mono: "x \<le> y \<Longrightarrow> \<bar>x\<bar> \<le> 2 ^ 1200 \<Longrightarrow> \<bar>y\<bar> \<le> 2 ^ 1200 \<Longrightarrow> fl64 x \<le> fl64 y"
  unfolding fl64_def by (rule fround_mono [OF fmt64]) simp_all

lemma fl64_exact: "x = of_int k * pow2 e \<Longrightarrow> \<bar>k\<bar> \<le> 2 ^ 53 \<Longrightarrow> - 1074 \<le> e \<Longrightarrow> \<bar>x\<bar> \<le> 2 ^ 1200 \<Longrightarrow> fl64 x = x"
  unfolding fl64_def by (rule fround_exact [OF fmt64]) simp_all

lemma fl32_of_int: "\<bar>k\<bar> \<le> 2 ^ 24 \<Longrightarrow> fl32 (of_int k) = of_int k"
proof -
  assume k: "\<bar>k\<bar> \<le> 2 ^ 24"
  then have "\<bar>of_int k :: rat\<bar> \<le> of_int (2 ^ 24)" unfolding of_int_abs [symmetric] by (simp only: of_int_le_iff)
  then show ?thesis
    unfolding fl32_def using k by (intro fround_exact [OF fmt32, of _ k 0]) (simp_all add: pow2_def)
qed

lemma fl64_of_int: "\<bar>k\<bar> \<le> 2 ^ 53 \<Longrightarrow> fl64 (of_int k) = of_int k"
proof -
  assume k: "\<bar>k\<bar> \<le> 2 ^ 53"
  then have "\<bar>of_int k :: rat\<bar> \<le> of_int (2 ^ 53)" unfolding of_int_abs [symmetric] by (simp only: of_int_le_iff)
  then show ?thesis
    unfolding fl64_def using k by (intro fround_exact [OF fmt64, of _ k 0]) (simp_all add: pow2_def)
qed

lemma fl32_dyadic:
  assumes "x * 2 ^ j = of_int k" "\<bar>k\<bar> \<le> 2 ^ 24" "j \<le> 149" shows "fl32 x = x"
proof -
  have x: "x = of_int k * pow2 (- int j)" using assms(1) by (cases "j = 0") (simp_all add: pow2_def field_simps)
  have "\<bar>of_int k :: rat\<bar> \<le> of_int (2 ^ 24)" using assms(2) unfolding of_int_abs [symmetric] by (simp only: of_int_le_iff)
  moreover have "\<bar>x\<bar> * 1 \<le> \<bar>x\<bar> * 2 ^ j" by (intro mult_left_mono) auto
  then have "\<bar>x\<bar> \<le> \<bar>of_int k\<bar>" by (simp flip: assms(1) add: abs_mult)
  ultimately have "\<bar>x\<bar> < 2 ^ (24 + 200)" by simp
  then show ?thesis unfolding fl32_def using assms(2,3) by (intro fround_exact [OF fmt32 x]) simp_all
qed

lemma fl32_numeral [simp]: "fl32 (numeral k) = numeral k" if "(numeral k :: int) \<le> 2 ^ 24"
  using fl32_of_int [of "numeral k"] that by simp

lemma fl32_minus: "fl32 (- x) = - fl32 x"
  by (simp add: fl32_def fround_minus)

lemma fl32_nonneg: "0 \<le> x \<Longrightarrow> 0 \<le> fl32 x"
  by (simp add: fl32_def fround_nonneg)

text \<open>Between two numbers of the format the rounding stays between them.\<close>

lemma fl32_between_int:
  assumes "of_int a \<le> x" "x \<le> of_int b" "\<bar>a\<bar> \<le> 2 ^ 24" "\<bar>b\<bar> \<le> 2 ^ 24"
  shows "of_int a \<le> fl32 x" "fl32 x \<le> of_int b"
proof -
  have "\<bar>of_int a :: rat\<bar> \<le> of_int (2 ^ 24)" "\<bar>of_int b :: rat\<bar> \<le> of_int (2 ^ 24)"
    using assms(3,4) unfolding of_int_abs [symmetric] by (simp_all only: of_int_le_iff)
  then have l: "\<bar>of_int a :: rat\<bar> \<le> 2 ^ 200" "\<bar>of_int b :: rat\<bar> \<le> 2 ^ 200" "\<bar>x\<bar> \<le> 2 ^ 200"
    using assms(1,2) by (auto simp: abs_if split: if_splits)
  from fl32_mono [OF assms(1) l(1,3)] show "of_int a \<le> fl32 x" by (simp add: fl32_of_int [OF assms(3)])
  from fl32_mono [OF assms(2) l(3,2)] show "fl32 x \<le> of_int b" by (simp add: fl32_of_int [OF assms(4)])
qed

lemma fl32_le_int: "x \<le> numeral k \<Longrightarrow> (numeral k :: int) \<le> 2 ^ 24 \<Longrightarrow> fl32 x \<le> numeral k"
proof (cases "0 \<le> x")
  case False
  then have "fl32 x \<le> 0" using fl32_nonneg [of "- x"] by (simp add: fl32_minus)
  also have "0 \<le> (numeral k :: rat)" by simp
  finally show ?thesis .
qed (use fl32_between_int [of 0 x "numeral k"] in simp)

lemma fl64_between_int:
  assumes "of_int a \<le> x" "x \<le> of_int b" "\<bar>a\<bar> \<le> 2 ^ 53" "\<bar>b\<bar> \<le> 2 ^ 53"
  shows "of_int a \<le> fl64 x" "fl64 x \<le> of_int b"
proof -
  have "\<bar>of_int a :: rat\<bar> \<le> of_int (2 ^ 53)" "\<bar>of_int b :: rat\<bar> \<le> of_int (2 ^ 53)"
    using assms(3,4) unfolding of_int_abs [symmetric] by (simp_all only: of_int_le_iff)
  then have l: "\<bar>of_int a :: rat\<bar> \<le> 2 ^ 1200" "\<bar>of_int b :: rat\<bar> \<le> 2 ^ 1200" "\<bar>x\<bar> \<le> 2 ^ 1200"
    using assms(1,2) by (auto simp: abs_if split: if_splits)
  from fl64_mono [OF assms(1) l(1,3)] show "of_int a \<le> fl64 x" by (simp add: fl64_of_int [OF assms(3)])
  from fl64_mono [OF assms(2) l(3,2)] show "fl64 x \<le> of_int b" by (simp add: fl64_of_int [OF assms(4)])
qed

text \<open>Below \<open>2 ^ k\<close> a rounding errs by at most half a unit of that binade.\<close>

lemma fround_error_le:
  assumes f: "fmt_ok n p emin" and x: "\<bar>x\<bar> < 2 ^ k" and k: "k \<le> p + n" "emin + int p \<le> int k"
  shows "\<bar>fround n p emin x - x\<bar> \<le> pow2 (int k - int p) / 2"
proof -
  have p: "0 < p" using f by (simp add: fmt_ok_def)
  have "(2 :: rat) ^ k \<le> 2 ^ (p + n)" using k(1) by (intro power_increasing) auto
  then have x': "\<bar>x\<bar> < 2 ^ (p + n)" using x by linarith
  obtain m e where r: "find_exp n p emin \<bar>x\<bar> 0 = (m, e)" "m * pow2 e = \<bar>x\<bar>" "0 \<le> m" "m < 2 ^ p"
    "emin \<le> e" "2 ^ (p - 1) \<le> m \<or> e = emin"
    by (rule find_exp_result [OF f x'])
  have e: "e \<le> int k - int p"
  proof (cases "e = emin")
    case False
    then have m: "2 ^ (p - 1) \<le> m" using r(6) by simp
    show ?thesis
    proof (rule ccontr)
      assume "\<not> e \<le> int k - int p"
      then have "pow2 (int k) \<le> pow2 (e + int (p - 1))" using p by (intro pow2_mono) auto
      also have "\<dots> = 2 ^ (p - 1) * pow2 e" by (rule pow2_add)
      also have "\<dots> \<le> m * pow2 e" using m pow2_pos [of e] by (intro mult_right_mono) auto
      finally show False using x r(2) by (simp add: pow2_def)
    qed
  qed (use k in simp)
  have "fround n p emin x - x = sgn x * (of_int (round_even m) * pow2 e) - sgn x * \<bar>x\<bar>"
    using r(1) by (simp add: fround_def sgn_mult_abs mult.assoc)
  also have "\<dots> = sgn x * ((of_int (round_even m) - m) * pow2 e)"
    unfolding r(2) [symmetric] by (simp add: algebra_simps)
  finally have "\<bar>fround n p emin x - x\<bar> \<le> \<bar>(of_int (round_even m) - m) * pow2 e\<bar>"
    by (simp add: abs_mult sgn_if)
  also have "\<dots> = \<bar>of_int (round_even m) - m\<bar> * pow2 e" using pow2_pos [of e] by (simp add: abs_mult)
  also have "\<dots> \<le> 1 / 2 * pow2 e" using round_even_error [of m] pow2_pos [of e] by (intro mult_right_mono) auto
  also have "\<dots> \<le> 1 / 2 * pow2 (int k - int p)" using pow2_mono [OF e] by (intro mult_left_mono) auto
  finally show ?thesis by simp
qed

lemma fl32_error: "\<bar>x\<bar> < 2 ^ k \<Longrightarrow> k \<le> 224 \<Longrightarrow> \<bar>fl32 x - x\<bar> \<le> pow2 (int k - 24) / 2"
  unfolding fl32_def using fround_error_le [OF fmt32, of x k] by simp

lemma fl64_error: "\<bar>x\<bar> < 2 ^ k \<Longrightarrow> k \<le> 1253 \<Longrightarrow> \<bar>fl64 x - x\<bar> \<le> pow2 (int k - 53) / 2"
  unfolding fl64_def using fround_error_le [OF fmt64, of x k] by simp

lemma fl32_near: "\<bar>x\<bar> < 8192 \<Longrightarrow> \<bar>fl32 x - x\<bar> \<le> 1 / 4096"
  using fl32_error [of x 13] by (simp add: pow2_def)

lemma fl64_near: "\<bar>x\<bar> < 8192 \<Longrightarrow> \<bar>fl64 x - x\<bar> \<le> 1 / 1000000000"
  using fl64_error [of x 13] by (simp add: pow2_def)

text \<open>The result of a rounding is a number of the format: rounding it again changes nothing.\<close>

lemma fround_idem:
  assumes f: "fmt_ok n p emin" and "\<bar>x\<bar> < 2 ^ (p + n - 1)" "0 < n"
  shows "fround n p emin (fround n p emin x) = fround n p emin x"
proof -
  have p: "0 < p" using f by (simp add: fmt_ok_def)
  have "(2 :: rat) ^ (p + n - 1) \<le> 2 ^ (p + n)" by (intro power_increasing) auto
  then have x: "\<bar>x\<bar> < 2 ^ (p + n)" using assms(2) by linarith
  obtain m e where r: "find_exp n p emin \<bar>x\<bar> 0 = (m, e)" "m * pow2 e = \<bar>x\<bar>" "0 \<le> m" "m < 2 ^ p"
    "emin \<le> e" "2 ^ (p - 1) \<le> m \<or> e = emin"
    by (rule find_exp_result [OF f x])
  have rx: "fround n p emin x = sgn x * of_int (round_even m) * pow2 e" using r(1) by (simp add: fround_def)
  obtain s where s: "sgn x = of_int s" "\<bar>s\<bar> \<le> 1"
    by (cases "x = 0"; cases "0 < x") (auto intro: that [of 0] that [of 1] that [of "- 1"])
  have i: "fround n p emin x = of_int (s * round_even m) * pow2 e" using rx s by simp
  have b: "0 \<le> round_even m" "round_even m \<le> 2 ^ p"
  proof -
    show "0 \<le> round_even m" using r(3) by (rule round_even_nonneg)
    have "round_even m \<le> round_even (of_int (2 ^ p))" using r(4) by (intro round_even_mono) simp
    then show "round_even m \<le> 2 ^ p" by (simp only: round_even_int)
  qed
  have "\<bar>s * round_even m\<bar> \<le> 1 * 2 ^ p" unfolding abs_mult using s(2) b by (intro mult_mono) auto
  moreover have "\<bar>fround n p emin x\<bar> < 2 ^ (p + n)"
  proof -
    have "fround n p emin \<bar>x\<bar> \<le> fround n p emin (2 ^ (p + n - 1))"
      using assms(2) x by (intro fround_mono [OF f]) (auto simp: \<open>0 < n\<close> p)
    also have "\<dots> = 2 ^ (p + n - 1)"
      using f by (intro fround_exact [OF f, of _ 1 "int (p + n - 1)"]) (auto simp: pow2_def fmt_ok_def p nat_diff_distrib assms(3))
    also have "\<dots> < (2 :: rat) ^ (p + n)" using p by (intro power_strict_increasing) auto
    finally have "fround n p emin \<bar>x\<bar> < 2 ^ (p + n)" .
    moreover have "\<bar>fround n p emin x\<bar> = fround n p emin \<bar>x\<bar>"
      using fround_nonneg [of "\<bar>x\<bar>" n p emin] by (cases "0 \<le> x") (auto simp: fround_minus)
    ultimately show ?thesis by simp
  qed
  ultimately show ?thesis using i r(5) by (intro fround_exact [OF f i]) auto
qed

lemma fl32_idem: "\<bar>x\<bar> \<le> 2 ^ 200 \<Longrightarrow> fl32 (fl32 x) = fl32 x"
proof -
  assume x: "\<bar>x\<bar> \<le> 2 ^ 200"
  have "(2 :: rat) ^ 200 < 2 ^ (24 + 200 - 1)" by (intro power_strict_increasing) auto
  with x have "\<bar>x\<bar> < 2 ^ (24 + 200 - 1)" by linarith
  then show ?thesis unfolding fl32_def by (intro fround_idem [OF fmt32]) simp_all
qed

text \<open>The value of a rounding, from its significand and exponent.\<close>

lemma round_even_near:
  assumes "\<bar>x - of_int k\<bar> < 1 / 2" shows "round_even x = k"
proof -
  have "\<lfloor>x\<rfloor> = k \<or> \<lfloor>x\<rfloor> = k - 1" using assms by linarith
  then show ?thesis
  proof
    assume f: "\<lfloor>x\<rfloor> = k"
    then show ?thesis using assms by (simp add: round_even_def Let_def abs_if split: if_splits)
  next
    assume f: "\<lfloor>x\<rfloor> = k - 1"
    then have "1 / 2 < x - of_int (k - 1)" using assms by (simp add: abs_if split: if_splits)
    then show ?thesis using f by (simp add: round_even_def Let_def)
  qed
qed

lemma fl32_value:
  assumes "0 < x" "2 ^ 23 * pow2 e \<le> x" "x < 2 ^ 24 * pow2 e" "\<bar>x - of_int k * pow2 e\<bar> < pow2 e / 2"
    and "- 149 \<le> e" "e \<le> 149"
  shows "fl32 x = of_int k * pow2 e"
proof -
  have p: "0 < pow2 e" by (rule pow2_pos)
  have m: "\<bar>x\<bar> = x / pow2 e * pow2 e" using assms(1) p by simp
  have "2 ^ (24 - 1) \<le> x / pow2 e" "x / pow2 e < 2 ^ 24" using assms(2,3) p by (simp_all add: field_simps)
  then have "fround 200 24 (- 149) x = sgn x * of_int (round_even (x / pow2 e)) * pow2 e"
    using assms(5,6) by (intro fround_normal [OF m]) auto
  moreover have "x / pow2 e - of_int k = (x - of_int k * pow2 e) / pow2 e" using p by (simp add: field_simps)
  then have "\<bar>x / pow2 e - of_int k\<bar> = \<bar>x - of_int k * pow2 e\<bar> / pow2 e" using p by (simp add: abs_divide)
  then have "\<bar>x / pow2 e - of_int k\<bar> < 1 / 2" using assms(4) p by (simp add: field_simps)
  then have "round_even (x / pow2 e) = k" by (rule round_even_near)
  ultimately show ?thesis using assms(1) by (simp add: fl32_def)
qed

lemma fl32_tenth: "fl32 (1 / 10) = 13421773 / 134217728"
  using fl32_value [of "1 / 10" "- 27" 13421773] by (simp add: pow2_def)

end
