(* ===== verification/Mc_Tools.thy ===== *)
theory Mc_Tools
  imports Float_Facts Agv_Types
begin

text \<open>
  The helpers of the motion controller (\<open>motion_ctrl/MCTools.c\<close>, \<open>angle.c\<close>,
  \<open>DataBank.c\<close>): the limits on the wheel speeds, the ramp, the heading and the deviations
  taken from the two-dimensional code, the unwrapped angle. \<open>nav\<close> holds the globals of
  \<open>Navigation.c\<close> and \<open>MCTools.c\<close> and those of \<open>motion_ctrl.c\<close> that both touch; the
  components that own more extend it.
\<close>

section \<open>Globals\<close>

record nav =
  Motionstyle :: motion_state
  twoD_YP :: rat
  twoD_XP :: rat
  twoD_Angle :: rat
  twoD_TagCode :: u32
  twoD_TagCodeOld :: u32
  NewTag :: u16
  AGV_Head_Dir :: u16
  GS_DEV :: rat
  GS_DevFB :: rat
  GS_Angle :: rat
  twoDAngleConver :: rat
  twoDMissingCnt :: u16

abbreviation (input) X_FORWARD :: u16 where "X_FORWARD \<equiv> 0"
abbreviation (input) Y_FORWARD :: u16 where "Y_FORWARD \<equiv> 1"
abbreviation (input) X_BACKWARD :: u16 where "X_BACKWARD \<equiv> 2"
abbreviation (input) Y_BACKWARD :: u16 where "Y_BACKWARD \<equiv> 3"

text \<open>The constants of \<open>DataBank.c\<close>, and \<open>pi\<close> as \<open>mc_config.h\<close> writes it.\<close>

abbreviation (input) fAccUp :: rat where "fAccUp \<equiv> 1000"
abbreviation (input) fAccDn :: rat where "fAccDn \<equiv> 1000"
abbreviation (input) wAccUp :: rat where "wAccUp \<equiv> 200"
abbreviation (input) wAccDn :: rat where "wAccDn \<equiv> 200"
abbreviation (input) twoD_Distance :: rat where "twoD_Distance \<equiv> 550"
abbreviation (input) sStopDistance :: rat where "sStopDistance \<equiv> 7"

definition PI :: rat where "PI = fl64 3.14159265358979323846"

abbreviation (input) VEHICLERADIUS :: rat where "VEHICLERADIUS \<equiv> 170"

section \<open>Wheel speeds\<close>

definition LIMIT :: "rat \<Rightarrow> rat \<Rightarrow> rat" where
  "LIMIT x lmt = (if x > lmt then lmt else if x > - lmt then x else - lmt)"

text \<open>\<open>abs\<close> of the C library takes an \<open>int\<close>: its argument is truncated first.\<close>

definition iabs :: "rat \<Rightarrow> rat" where
  "iabs x = of_int \<bar>ftrunc x\<bar>"

definition VControl :: "rat \<Rightarrow> rat \<Rightarrow> rat \<times> rat" where
  "VControl fLinearVel fDiffVel =
     (let d1 = LIMIT fDiffVel 35;
          d2 = (if iabs d1 > iabs fLinearVel
                then fl32 (if d1 > 0 then iabs fLinearVel else - iabs fLinearVel) else d1);
          l = fadd fLinearVel d2;
          r = fsub fLinearVel d2
      in (LIMIT l 2500, LIMIT r 2500))"

text \<open>The products mix \<open>float\<close> and the \<open>double\<close> constants: they are \<open>double\<close> until stored.\<close>

definition WControl :: "rat \<Rightarrow> rat \<Rightarrow> rat \<times> rat" where
  "WControl wCurVel wRadio =
     (let rad = LIMIT wRadio 90;
          l = fl32 (dmul (fl64 (- 1 * ddiv (dmul wCurVel PI) 180)) (dsub rad VEHICLERADIUS));
          r = fl32 (dmul (ddiv (dmul wCurVel PI) 180) (dadd rad VEHICLERADIUS))
      in (LIMIT l 650, LIMIT r 650))"

definition FApproach :: "rat \<Rightarrow> rat \<Rightarrow> rat \<Rightarrow> u16 \<times> rat" where
  "FApproach pFrom fTo fStep =
     (if fadd pFrom fStep < fTo then (0, fadd pFrom fStep)
      else if fsub pFrom fStep > fTo then (0, fsub pFrom fStep)
      else if pFrom \<noteq> fTo then (0, fTo)
      else (1, pFrom))"

section \<open>Heading and deviations\<close>

definition UpdateAgvHeadDirToNew :: "'a nav_scheme \<Rightarrow> 'a nav_scheme" where
  "UpdateAgvHeadDirToNew s =
     (let a = twoD_Angle s
      in if a < fl32 45.0001 \<or> a > fl32 315.0001 \<and> a < fl32 360.1 then s\<lparr>AGV_Head_Dir := X_FORWARD\<rparr>
         else if a > fl32 45.0001 \<and> a < fl32 135.0001 then s\<lparr>AGV_Head_Dir := Y_BACKWARD\<rparr>
         else if a > fl32 135.0001 \<and> a < fl32 225.0001 then s\<lparr>AGV_Head_Dir := X_BACKWARD\<rparr>
         else if a > fl32 225.0001 \<and> a < fl32 315.0001 then s\<lparr>AGV_Head_Dir := Y_FORWARD\<rparr>
         else s)"

definition Get_TwoDDev :: "'a nav_scheme \<Rightarrow> 'a nav_scheme" where
  "Get_TwoDDev s =
     (if AGV_Head_Dir s = X_FORWARD then
        s\<lparr>GS_DEV := twoD_YP s, GS_DevFB := twoD_XP s,
          GS_Angle := (if twoD_Angle s > 180 then fsub 360 (twoD_Angle s) else - twoD_Angle s)\<rparr>
      else if AGV_Head_Dir s = X_BACKWARD then
        s\<lparr>GS_DEV := - twoD_YP s, GS_DevFB := - twoD_XP s, GS_Angle := fsub 180 (twoD_Angle s)\<rparr>
      else if AGV_Head_Dir s = Y_FORWARD then
        s\<lparr>GS_DEV := - twoD_XP s, GS_DevFB := twoD_YP s, GS_Angle := fsub 270 (twoD_Angle s)\<rparr>
      else if AGV_Head_Dir s = Y_BACKWARD then
        s\<lparr>GS_DEV := twoD_XP s, GS_DevFB := - twoD_YP s, GS_Angle := fsub 90 (twoD_Angle s)\<rparr>
      else s)"

section \<open>Conversions\<close>

text \<open>A conversion to \<open>int16\<close> outside its range is undefined; here it is the truncation modulo \<open>2 ^ 16\<close>.\<close>

definition floatToInt16 :: "rat \<Rightarrow> 16 word" where
  "floatToInt16 d =
     (if d > 0 then of_int (ftrunc (fdiv (fadd (fmul d 10) 5) 10))
      else if d < 0 then of_int (ftrunc (fdiv (fsub (fmul d 10) 5) 10))
      else 0)"

definition swapUint32 :: "u32 \<Rightarrow> u32" where
  "swapUint32 v =
     push_bit 24 (v AND 0x000000FF) OR push_bit 8 (v AND 0x0000FF00)
       OR drop_bit 8 (v AND 0x00FF0000) OR drop_bit 24 (v AND 0xFF000000)"

section \<open>The unwrapped angle\<close>

record ext_angle =
  angleMeasuredOld :: rat
  angleReal :: rat
  count :: int

definition ExtendAngleInit :: "rat \<Rightarrow> ext_angle" where
  "ExtendAngleInit angleMeasured = \<lparr>angleMeasuredOld = angleMeasured, angleReal = angleMeasured, count = 0\<rparr>"

definition ExtendAngleExecute :: "rat \<Rightarrow> ext_angle \<Rightarrow> rat \<times> ext_angle" where
  "ExtendAngleExecute angleMeasured s =
     (let deltaAngle = fsub angleMeasured (angleMeasuredOld s);
          c = (if \<bar>deltaAngle\<bar> > 180 then if deltaAngle > 0 then count s - 1 else count s + 1 else count s);
          r = fadd (fl32 (of_int (c * 360))) angleMeasured
      in (r, \<lparr>angleMeasuredOld = angleMeasured, angleReal = r, count = c\<rparr>))"

section \<open>Properties\<close>

lemma LIMIT_bounds: "0 \<le> m \<Longrightarrow> - m \<le> LIMIT x m \<and> LIMIT x m \<le> m"
  by (auto simp: LIMIT_def)

lemma LIMIT_id: "\<bar>x\<bar> < m \<Longrightarrow> LIMIT x m = x"
  by (auto simp: LIMIT_def)

lemma ftrunc_bounds: "0 \<le> x \<Longrightarrow> 0 \<le> ftrunc x \<and> of_int (ftrunc x) \<le> x \<and> x < of_int (ftrunc x) + 1"
  by (simp add: ftrunc_def) linarith

lemma ftrunc_minus: "ftrunc (- x) = - ftrunc x"
  by (cases "x = 0") (auto simp: ftrunc_def)

lemma iabs_bounds: "iabs x \<le> \<bar>x\<bar> \<and> \<bar>x\<bar> < iabs x + 1"
proof (cases "0 \<le> x")
  case True
  then show ?thesis using ftrunc_bounds [of x] by (simp add: iabs_def)
next
  case False
  then show ?thesis using ftrunc_bounds [of "- x"] by (simp add: iabs_def ftrunc_minus)
qed

lemma VControl_diff:
  assumes "0 \<le> lin" "lin \<le> 2500"
  obtains d2 where "VControl lin d = (LIMIT (fadd lin d2) 2500, LIMIT (fsub lin d2) 2500)"
    "- 35 \<le> d2" "d2 \<le> 35" "\<bar>d2\<bar> < lin + 1" "d = 0 \<Longrightarrow> d2 = 0"
proof -
  let ?d1 = "LIMIT d 35"
  let ?d2 = "if iabs ?d1 > iabs lin then fl32 (if ?d1 > 0 then iabs lin else - iabs lin) else ?d1"
  have d1: "- 35 \<le> ?d1" "?d1 \<le> 35" using LIMIT_bounds [of 35 d] by auto
  have lin: "iabs lin \<le> lin" "lin < iabs lin + 1" using iabs_bounds [of lin] assms(1) by auto
  have i1: "iabs ?d1 \<le> \<bar>?d1\<bar>" "\<bar>?d1\<bar> < iabs ?d1 + 1" using iabs_bounds [of ?d1] by auto
  have b: "- 35 \<le> ?d2 \<and> ?d2 \<le> 35 \<and> \<bar>?d2\<bar> < lin + 1 \<and> (d = 0 \<longrightarrow> ?d2 = 0)"
  proof (cases "iabs ?d1 > iabs lin")
    case True
    obtain k where k: "iabs lin = of_int k" "0 \<le> k"
      by (rule that [of "\<bar>ftrunc lin\<bar>"]) (simp_all add: iabs_def)
    have "(of_int k :: rat) \<le> of_int 2500" using lin(1) assms(2) k(1) by simp
    then have "k \<le> 2500" by (simp only: of_int_le_iff)
    then have f: "fl32 (iabs lin) = iabs lin" using fl32_of_int [of k] k by simp
    have "iabs lin \<le> 35" using True i1(1) d1 by (auto simp: abs_if split: if_splits)
    moreover have "d \<noteq> 0" using True k by (auto simp: LIMIT_def iabs_def ftrunc_def)
    moreover have "0 \<le> iabs lin" by (simp add: iabs_def)
    ultimately show ?thesis using True f lin by (auto simp: fl32_minus)
  next
    case False
    then have "\<bar>?d1\<bar> < lin + 1" using i1 lin by linarith
    then show ?thesis using False d1 by (auto simp: LIMIT_def)
  qed
  show thesis by (rule that [of ?d2]) (use b in \<open>simp_all add: VControl_def Let_def\<close>)
qed

text \<open>
  \<open>VControl\<close> keeps both wheels within 2500 mm/s; when the vehicle drives forward the
  correction slows a wheel down but turns it backwards by at most 1 mm/s, and both wheels get
  exactly the linear speed when there is no correction.
\<close>

theorem VControl_bounds:
  assumes "0 \<le> lin" "lin \<le> 2500" "VControl lin d = (l, r)"
  shows "- 1 \<le> l \<and> l \<le> 2500 \<and> - 1 \<le> r \<and> r \<le> 2500
    \<and> (d = 0 \<longrightarrow> l = fl32 lin \<and> r = fl32 lin)"
proof -
  obtain d2 where v: "VControl lin d = (LIMIT (fadd lin d2) 2500, LIMIT (fsub lin d2) 2500)"
    and d2: "- 35 \<le> d2" "d2 \<le> 35" "\<bar>d2\<bar> < lin + 1" "d = 0 \<Longrightarrow> d2 = 0"
    by (rule VControl_diff [OF assms(1,2)]) (rule that; assumption)
  have i: "of_int (- 1) \<le> lin + d2" "lin + d2 \<le> of_int 2535" "of_int (- 1) \<le> lin - d2" "lin - d2 \<le> of_int 2535"
    using d2 assms(2) by (auto simp: abs_if split: if_splits)
  have "- 1 \<le> fadd lin d2" "- 1 \<le> fsub lin d2"
    using fl32_between_int(1) [OF i(1,2)] fl32_between_int(1) [OF i(3,4)] by (simp_all add: fadd_def fsub_def)
  moreover have "fl32 lin \<le> 2500" "0 \<le> fl32 lin"
    using fl32_between_int [of 0 lin 2500] assms(1,2) by simp_all
  ultimately show ?thesis
    using assms(3) v d2(4) LIMIT_bounds [of 2500 "fadd lin d2"] LIMIT_bounds [of 2500 "fsub lin d2"]
    by (auto simp: LIMIT_def fadd_def fsub_def)
qed

theorem VControl_bounds_witness: "snd (VControl 300 50) \<le> 2500 \<and> - 1 \<le> snd (VControl 300 50)"
proof -
  obtain l r where v: "VControl 300 50 = (l, r)" by (cases "VControl 300 50")
  show ?thesis using VControl_bounds [OF _ _ v] v by simp
qed

text \<open>One call of the ramp: the target is reached, or the distance shrinks by almost the step.\<close>

lemma FApproach_step:
  assumes "\<bar>v\<bar> \<le> 8191" "\<bar>t\<bar> \<le> 8191" "1 \<le> st" "st \<le> 4096" "snd (FApproach v t st) = w"
  shows "w = t \<or> \<bar>t - w\<bar> \<le> \<bar>t - v\<bar> - (st - 1 / 2) \<and> \<bar>w\<bar> \<le> 8191"
proof -
  have e: "\<bar>fadd v st - (v + st)\<bar> \<le> 1 / 2" "\<bar>fsub v st - (v - st)\<bar> \<le> 1 / 2"
  proof -
    have "\<bar>v + st\<bar> < 2 ^ 14" "\<bar>v - st\<bar> < 2 ^ 14" using assms(1,3,4) by (auto simp: abs_if split: if_splits)
    moreover have "pow2 (int 14 - 24) / 2 \<le> 1 / 2" by (simp add: pow2_def)
    ultimately show "\<bar>fadd v st - (v + st)\<bar> \<le> 1 / 2" "\<bar>fsub v st - (v - st)\<bar> \<le> 1 / 2"
      using fl32_error [of "v + st" 14] fl32_error [of "v - st" 14] unfolding fadd_def fsub_def by simp_all
  qed
  consider "fadd v st < t" "w = fadd v st" | "fsub v st > t" "w = fsub v st" | "w = t"
    using assms(5) by (auto simp: FApproach_def split: if_splits)
  then show ?thesis
  proof cases
    case 1
    then have "v + st - 1 / 2 \<le> w" "w < t" using e(1) by (auto simp: abs_if split: if_splits)
    then show ?thesis using assms(1-3) by (auto simp: abs_if split: if_splits)
  next
    case 2
    then have "w \<le> v - st + 1 / 2" "t < w" using e(2) by (auto simp: abs_if split: if_splits)
    then show ?thesis using assms(1-3) by (auto simp: abs_if split: if_splits)
  qed simp
qed

lemma FApproach_done: "0 < st \<Longrightarrow> \<bar>t\<bar> \<le> 8191 \<Longrightarrow> 1 \<le> st \<Longrightarrow> st \<le> 4096 \<Longrightarrow> FApproach t t st = (1, t)"
proof -
  assume a: "\<bar>t\<bar> \<le> 8191" "1 \<le> st" "st \<le> 4096"
  have "\<bar>t + st\<bar> < 2 ^ 14" "\<bar>t - st\<bar> < 2 ^ 14" using a by (auto simp: abs_if split: if_splits)
  moreover have "pow2 (int 14 - 24) / 2 \<le> 1 / 2" by (simp add: pow2_def)
  ultimately have "\<bar>fadd t st - (t + st)\<bar> \<le> 1 / 2" "\<bar>fsub t st - (t - st)\<bar> \<le> 1 / 2"
    using fl32_error [of "t + st" 14] fl32_error [of "t - st" 14] unfolding fadd_def fsub_def by simp_all
  then have "\<not> fadd t st < t" "\<not> fsub t st > t" using a(2) by (auto simp: abs_if split: if_splits)
  then show ?thesis by (simp add: FApproach_def)
qed

text \<open>
  the ramp reaches its target and reports it: with a step \<open>st\<close>, after as many calls as
  the distance takes at \<open>st - 1/2\<close> per call, and one more, the value is the target and the
  next call returns 1, whatever the rounding of the additions. A vehicle at 2500 mm/s braking
  with the step of the controller, 20 mm/s, is at rest within 130 calls.
\<close>

theorem FApproach_reaches:
  assumes "\<bar>v\<bar> \<le> 8191" "\<bar>t\<bar> \<le> 8191" "1 \<le> st" "st \<le> 4096" "\<bar>t - v\<bar> \<le> of_nat n * (st - 1 / 2)"
  shows "((\<lambda>x. snd (FApproach x t st)) ^^ Suc n) v = t \<and> FApproach t t st = (1, t)"
proof -
  have d: "FApproach t t st = (1, t)" using FApproach_done assms(2-4) by simp
  have stay: "((\<lambda>x. snd (FApproach x t st)) ^^ k) t = t" for k by (induction k) (simp_all add: d)
  have "((\<lambda>x. snd (FApproach x t st)) ^^ Suc n) v = t"
    using assms(1,5)
  proof (induction n arbitrary: v)
    case 0
    then have "v = t" by simp
    then show ?case using d by simp
  next
    case (Suc n)
    let ?w = "snd (FApproach v t st)"
    have e: "((\<lambda>x. snd (FApproach x t st)) ^^ Suc (Suc n)) v = ((\<lambda>x. snd (FApproach x t st)) ^^ Suc n) ?w"
      by (simp only: funpow_Suc_right o_apply)
    from FApproach_step [OF Suc.prems(1) assms(2-4) refl]
    show ?case
    proof
      assume "?w = t"
      then show ?thesis using e stay [of "Suc n"] by simp
    next
      assume w: "\<bar>t - ?w\<bar> \<le> \<bar>t - v\<bar> - (st - 1 / 2) \<and> \<bar>?w\<bar> \<le> 8191"
      moreover have "of_nat (Suc n) * (st - 1 / 2) = of_nat n * (st - 1 / 2) + (st - 1 / 2)" by (simp add: algebra_simps)
      ultimately have "\<bar>t - ?w\<bar> \<le> of_nat n * (st - 1 / 2)" using Suc.prems(2) by linarith
      then show ?thesis using Suc.IH [of ?w] w e by simp
    qed
  qed
  then show ?thesis using d by blast
qed

theorem FApproach_reaches_witness: "((\<lambda>x. snd (FApproach x 0 20)) ^^ 130) 2500 = 0"
  using FApproach_reaches [of 2500 0 20 129] by simp

text \<open>A tag angle of \<open>n\<close> tenths of a degree, as \<open>Navigation.c\<close> computes it from the scanner's frame.\<close>

definition tag_angle :: "nat \<Rightarrow> rat" where
  "tag_angle n = fmul (of_nat n) (fl32 0.1)"

lemma heading_limits:
  "fl32 45.0001 = 11796506 / 262144" "fl32 135.0001 = 8847367 / 65536" "fl32 225.0001 = 14745607 / 65536"
  "fl32 315.0001 = 10321923 / 32768" "fl32 360.1 = 11799757 / 32768"
  using fl32_value [of "450001 / 10000" "- 18" 11796506] fl32_value [of "1350001 / 10000" "- 16" 8847367]
    fl32_value [of "2250001 / 10000" "- 16" 14745607] fl32_value [of "3150001 / 10000" "- 15" 10321923]
    fl32_value [of "3601 / 10" "- 15" 11799757]
  by (simp_all add: pow2_def)

lemma tag_angle_error: "n \<le> 3600 \<Longrightarrow> \<bar>tag_angle n - of_nat n / 10\<bar> \<le> 1 / 20000"
proof -
  assume n: "n \<le> 3600"
  let ?x = "of_nat n * (13421773 / 134217728) :: rat"
  have n': "(of_nat n :: rat) \<le> 3600" using n by (metis of_nat_le_iff of_nat_numeral)
  have "\<bar>?x\<bar> < 2 ^ 9" using n' by simp
  from fl32_error [OF this] have "\<bar>tag_angle n - ?x\<bar> \<le> 1 / 65536"
    by (simp add: tag_angle_def fmul_def fl32_tenth pow2_def)
  moreover have "\<bar>?x - of_nat n / 10\<bar> \<le> 1 / 100000" using n' by (simp add: abs_if)
  ultimately show ?thesis by linarith
qed

text \<open>
  for every reading of the scanner from 0 to 360 degrees the heading becomes that of the
  quadrant the angle lies in, and the angle deviation computed next is at most 45 degrees
  (up to a thousandth), so that the vehicle never corrects towards the wrong quadrant.
\<close>

theorem heading_quadrant:
  assumes "n \<le> 3600" "twoD_Angle s = tag_angle n"
  shows "AGV_Head_Dir (UpdateAgvHeadDirToNew s) =
      (if n \<le> 450 \<or> 3150 < n then X_FORWARD else if n \<le> 1350 then Y_BACKWARD
       else if n \<le> 2250 then X_BACKWARD else Y_FORWARD)
    \<and> \<bar>GS_Angle (Get_TwoDDev (UpdateAgvHeadDirToNew s))\<bar> \<le> 45 + 1 / 1000"
proof -
  let ?a = "tag_angle n" and ?n = "of_nat n :: rat"
  have e: "?n / 10 - 1 / 20000 \<le> ?a" "?a \<le> ?n / 10 + 1 / 20000"
    using tag_angle_error [OF assms(1)] by linarith+
  have n: "0 \<le> ?n" "?n \<le> 3600" using assms(1) by (simp, metis of_nat_le_iff of_nat_numeral)
  have sub: "\<bar>fsub c ?a - (c - ?a)\<bar> \<le> 1 / 65536" if "0 \<le> c" "c \<le> 360" for c
  proof -
    have "\<bar>c - ?a\<bar> < 2 ^ 9" using e n that by (simp add: abs_if)
    from fl32_error [OF this] show ?thesis by (simp add: fsub_def pow2_def)
  qed
  note lim = heading_limits
  consider "n \<le> 450" | "450 < n" "n \<le> 1350" | "1350 < n" "n \<le> 2250" | "2250 < n" "n \<le> 3150" | "3150 < n"
    by linarith
  then show ?thesis
  proof cases
    case 1
    then have b: "?n \<le> 450" by (metis of_nat_le_iff of_nat_numeral)
    then have "AGV_Head_Dir (UpdateAgvHeadDirToNew s) = 0" "UpdateAgvHeadDirToNew s = s\<lparr>AGV_Head_Dir := 0\<rparr>"
      using e lim assms(2) by (simp_all add: UpdateAgvHeadDirToNew_def)
    then show ?thesis using 1 b e n assms(2) by (simp add: Get_TwoDDev_def abs_if)
  next
    case 2
    then have b: "451 \<le> ?n" "?n \<le> 1350" by simp_all
    then have "UpdateAgvHeadDirToNew s = s\<lparr>AGV_Head_Dir := 3\<rparr>"
      using e lim assms(2) by (simp add: UpdateAgvHeadDirToNew_def)
    moreover from this have "GS_Angle (Get_TwoDDev (UpdateAgvHeadDirToNew s)) = fsub 90 ?a"
      using assms(2) by (simp add: Get_TwoDDev_def)
    moreover have "\<bar>fsub 90 ?a\<bar> \<le> 45 + 1 / 1000" using sub [of 90] b e by linarith
    ultimately show ?thesis using 2 by simp
  next
    case 3
    then have b: "1351 \<le> ?n" "?n \<le> 2250" by simp_all
    then have "UpdateAgvHeadDirToNew s = s\<lparr>AGV_Head_Dir := 2\<rparr>"
      using e lim assms(2) by (simp add: UpdateAgvHeadDirToNew_def)
    moreover from this have "GS_Angle (Get_TwoDDev (UpdateAgvHeadDirToNew s)) = fsub 180 ?a"
      using assms(2) by (simp add: Get_TwoDDev_def)
    moreover have "\<bar>fsub 180 ?a\<bar> \<le> 45 + 1 / 1000" using sub [of 180] b e by linarith
    ultimately show ?thesis using 3 by simp
  next
    case 4
    then have b: "2251 \<le> ?n" "?n \<le> 3150" by simp_all
    then have "UpdateAgvHeadDirToNew s = s\<lparr>AGV_Head_Dir := 1\<rparr>"
      using e lim assms(2) by (simp add: UpdateAgvHeadDirToNew_def)
    moreover from this have "GS_Angle (Get_TwoDDev (UpdateAgvHeadDirToNew s)) = fsub 270 ?a"
      using assms(2) by (simp add: Get_TwoDDev_def)
    moreover have "\<bar>fsub 270 ?a\<bar> \<le> 45 + 1 / 1000" using sub [of 270] b e by linarith
    ultimately show ?thesis using 4 by simp
  next
    case 5
    then have b: "3151 \<le> ?n" by simp
    then have "UpdateAgvHeadDirToNew s = s\<lparr>AGV_Head_Dir := 0\<rparr>"
      using e n lim assms(2) by (simp add: UpdateAgvHeadDirToNew_def)
    moreover have "?a > 180" using b e by linarith
    ultimately have "GS_Angle (Get_TwoDDev (UpdateAgvHeadDirToNew s)) = fsub 360 ?a"
      using assms(2) by (simp add: Get_TwoDDev_def)
    moreover have "\<bar>fsub 360 ?a\<bar> \<le> 45 + 1 / 1000" using sub [of 360] b e n by linarith
    ultimately show ?thesis using 5 \<open>UpdateAgvHeadDirToNew s = _\<close> by simp
  qed
qed

definition demo_nav :: nav where
  "demo_nav = \<lparr>Motionstyle = MOTIONSTATE_GOSTRAIGHT, twoD_YP = 3, twoD_XP = 10, twoD_Angle = tag_angle 900,
     twoD_TagCode = 0, twoD_TagCodeOld = 0, NewTag = 0, AGV_Head_Dir = 0, GS_DEV = 0, GS_DevFB = 0, GS_Angle = 0,
     twoDAngleConver = 0, twoDMissingCnt = 0\<rparr>"

theorem heading_quadrant_witness:
  "AGV_Head_Dir (UpdateAgvHeadDirToNew demo_nav) = Y_BACKWARD
    \<and> \<bar>GS_Angle (Get_TwoDDev (UpdateAgvHeadDirToNew demo_nav))\<bar> \<le> 45 + 1 / 1000"
  using heading_quadrant [of 900 demo_nav] by (simp add: demo_nav_def)

text \<open>
  the unwrapped angle follows the measured one: when two measurements in the range of the
  scanner differ by at most 180 degrees or wrap around, the extended angle changes by at most
  180 degrees (up to a hundredth), for up to a hundred turns in either direction.
\<close>

theorem ExtendAngle_continuous:
  assumes "0 \<le> angleMeasuredOld s" "angleMeasuredOld s \<le> 360" "0 \<le> x" "x \<le> 360" "\<bar>count s\<bar> \<le> 100"
    and "angleReal s = fadd (fl32 (of_int (count s * 360))) (angleMeasuredOld s)"
    and "ExtendAngleExecute x s = (r, s')"
  shows "\<bar>r - angleReal s\<bar> \<le> 180 + 1 / 100 \<and> angleReal s' = r
    \<and> r = fadd (fl32 (of_int (count s' * 360))) (angleMeasuredOld s')"
proof -
  let ?o = "angleMeasuredOld s" and ?d = "fsub x (angleMeasuredOld s)"
  have "\<bar>x - ?o\<bar> < 2 ^ 9" using assms(1-4) by (simp add: abs_if)
  from fl32_error [OF this] have d: "\<bar>?d - (x - ?o)\<bar> \<le> 1 / 65536" by (simp add: fsub_def pow2_def)
  have add: "\<bar>fadd (fl32 (of_int (c * 360))) y - (of_int c * 360 + y)\<bar> \<le> 1 / 256"
    if "\<bar>c\<bar> \<le> 101" "0 \<le> y" "y \<le> 360" for c :: int and y :: rat
  proof -
    have "fl32 (of_int (c * 360)) = of_int (c * 360)" using that(1) by (intro fl32_of_int) (simp add: abs_mult)
    moreover have "\<bar>of_int c :: rat\<bar> \<le> of_int 101" using that(1) unfolding of_int_abs [symmetric] by (simp only: of_int_le_iff)
    then have "\<bar>of_int c * 360 + y\<bar> < 2 ^ 16" using that(2,3) by (simp add: abs_if split: if_splits)
    from fl32_error [OF this] have "\<bar>fl32 (of_int c * 360 + y) - (of_int c * 360 + y)\<bar> \<le> 1 / 256"
      by (simp add: pow2_def)
    ultimately show ?thesis by (simp add: fadd_def)
  qed
  define c where "c = (if \<bar>?d\<bar> > 180 then if ?d > 0 then count s - 1 else count s + 1 else count s)"
  have r: "r = fadd (fl32 (of_int (c * 360))) x" "s' = \<lparr>angleMeasuredOld = x, angleReal = r, count = c\<rparr>"
    using assms(7) by (auto simp: ExtendAngleExecute_def Let_def c_def)
  have cb: "\<bar>c\<bar> \<le> 101" using assms(5) by (auto simp: c_def)
  have "\<bar>r - (of_int c * 360 + x)\<bar> \<le> 1 / 256" unfolding r(1) using add [OF cb assms(3,4)] .
  moreover have "\<bar>angleReal s - (of_int (count s) * 360 + ?o)\<bar> \<le> 1 / 256"
    unfolding assms(6) using add [of "count s" ?o] assms(1,2,5) by simp
  moreover have "\<bar>(of_int c * 360 + x) - (of_int (count s) * 360 + ?o)\<bar> \<le> 180 + 1 / 65536"
    using d assms(1-4) by (auto simp: c_def abs_if split: if_splits)
  ultimately have "\<bar>r - angleReal s\<bar> \<le> 180 + 1 / 100" by (simp add: abs_if split: if_splits)
  then show ?thesis using r by simp
qed

theorem ExtendAngle_continuous_witness:
  "\<bar>fst (ExtendAngleExecute 359 (ExtendAngleInit 1)) - 1\<bar> \<le> 180 + 1 / 100"
proof -
  obtain r s' where r: "ExtendAngleExecute 359 (ExtendAngleInit 1) = (r, s')"
    by (cases "ExtendAngleExecute 359 (ExtendAngleInit 1)")
  have "fl32 1 = 1" using fl32_of_int [of 1] by simp
  then have "\<bar>r - angleReal (ExtendAngleInit 1)\<bar> \<le> 180 + 1 / 100 \<and> angleReal s' = r
      \<and> r = fadd (fl32 (of_int (count s' * 360))) (angleMeasuredOld s')"
    by (intro ExtendAngle_continuous [OF _ _ _ _ _ _ r]) (simp_all add: ExtendAngleInit_def fadd_def)
  from conjunct1 [OF this] show ?thesis unfolding r fst_conv by (simp add: ExtendAngleInit_def)
qed

text \<open>
  \<open>swapUint32\<close> is the change of byte order: its result read as little-endian bytes is the
  argument read as big-endian bytes, so applying it twice is the identity.
\<close>

theorem swapUint32_byte_order: "swapUint32 v = of_be32 (le32 v) \<and> swapUint32 (swapUint32 v) = v"
proof -
  have m: "(0x000000FF :: u32) = mask 8" "(0x0000FF00 :: u32) = push_bit 8 (mask 8)"
    "(0x00FF0000 :: u32) = push_bit 16 (mask 8)" "(0xFF000000 :: u32) = push_bit 24 (mask 8)"
    by (simp_all add: mask_eq_exp_minus_1 push_bit_eq_mult)
  have "swapUint32 w = of_be32 (le32 w)" for w
    unfolding swapUint32_def m le32_def
    by (rule bit_word_eqI)
      (auto simp: bit_word_of bit_byte_of bit_or_iff bit_and_iff bit_push_bit_iff bit_drop_bit_eq bit_mask_iff
        dest: bit_imp_le_length)
  then show ?thesis by (simp add: le32_def byte_of_word word_of_bytes del: One_nat_def)
qed

text \<open>
  the conversion of a speed or length to \<open>int16\<close> gives back every integer of the range.
\<close>

theorem floatToInt16_int:
  assumes "\<bar>k\<bar> \<le> 32767" shows "floatToInt16 (of_int k) = of_int k"
proof -
  have tr: "ftrunc (fdiv (fadd (fmul (of_int k) 10) 5) 10) = k" if "0 \<le> k" "k \<le> 32767" for k :: int
  proof -
    have "fmul (of_int k) 10 = of_int (k * 10)" unfolding fmul_def using fl32_of_int [of "k * 10"] that by simp
    then have "fadd (fmul (of_int k) 10) 5 = of_int (k * 10 + 5)"
      unfolding fadd_def using fl32_of_int [of "k * 10 + 5"] that by simp
    moreover have "fl32 (of_int (k * 10 + 5) / 10) = of_int (k * 10 + 5) / 10"
      using that by (intro fl32_dyadic [of _ 1 "2 * k + 1"]) auto
    ultimately have "fdiv (fadd (fmul (of_int k) 10) 5) 10 = of_int k + 1 / 2" by (simp add: fdiv_def)
    then show ?thesis using that by (simp add: ftrunc_def) linarith
  qed
  have mul: "fmul (- x) 10 = - fmul x 10" for x using fl32_minus [of "x * 10"] by (simp add: fmul_def)
  have add: "fadd (- x) 5 = - fsub x 5" for x using fl32_minus [of "x - 5"] by (simp add: fsub_def fadd_def)
  have div: "fdiv (- x) 10 = - fdiv x 10" for x using fl32_minus [of "x / 10"] by (simp add: fdiv_def)
  consider "k = 0" | "0 < k" | "k < 0" by linarith
  then show ?thesis
  proof cases
    case 2
    then show ?thesis using tr [of k] assms by (simp add: floatToInt16_def)
  next
    case 3
    then show ?thesis using tr [of "- k"] assms by (simp add: floatToInt16_def mul add div ftrunc_minus)
  qed (simp add: floatToInt16_def)
qed

theorem floatToInt16_int_witness: "floatToInt16 (of_int (- 1234)) = of_int (- 1234)"
  using floatToInt16_int [of "- 1234"] by simp

end
