(* ===== verification/Navigation.thy ===== *)
theory Navigation
  imports Mc_Tools Can_Dispatcher Tools
begin

text \<open>
  The two-dimensional code scanner (\<open>usr/application/Navigation.c\<close>): the CAN messages it
  sends, the globals of the navigation they update, the arrival event of a new tag, switching
  the scanner on and off, and the calibration at start. The event goes to
  \<open>motionctrl_event_callback\<close>, an argument here; the record is extended by the component
  that implements it. The memory behind the 16-bit heading, which \<open>HTONL_COPY\<close> reads too,
  is the argument \<open>pad\<close>.
\<close>

section \<open>State\<close>

record navi = nav +
  navi_x :: rat
  navi_y :: rat
  navi_angle :: rat
  navi_tag :: u32
  navi_warn :: u16
  detY0 :: rat
  detTheta0 :: rat

abbreviation (input) SCANNER_CANID :: u32 where "SCANNER_CANID \<equiv> 8"
abbreviation (input) CAN_Id_Standard :: u8 where "CAN_Id_Standard \<equiv> 0"
abbreviation (input) CAN_RTR_Data :: u8 where "CAN_RTR_Data \<equiv> 0"

section \<open>Operations\<close>

text \<open>A variable of two or four bytes that \<open>reverse_copy\<close> fills from a place of the frame.\<close>

definition frame_u32 :: "nat \<Rightarrow> bytes \<Rightarrow> u32" where
  "frame_u32 i ds = of_le32 (reverse_copy (drop i ds) [0, 0, 0, 0] 4)"

definition frame_u16 :: "nat \<Rightarrow> bytes \<Rightarrow> u16" where
  "frame_u16 i ds =
     (let bs = reverse_copy (drop i ds) [0, 0] 2 in ucast (bs ! 0) OR push_bit 8 (ucast (bs ! 1)))"

text \<open>The products with \<open>0.1f\<close>: an \<open>int32_t\<close> is rounded to a \<open>float\<close> first.\<close>

definition tenth_i32 :: "u32 \<Rightarrow> rat" where
  "tenth_i32 v = fmul (fl32 (of_int (sint v))) (fl32 0.1)"

definition tenth_u16 :: "u16 \<Rightarrow> rat" where
  "tenth_u16 v = fmul (fl32 (of_nat (unat v))) (fl32 0.1)"

text \<open>The bytes of \<open>buf\<close> in the arrival event: the tag, and the four bytes from the heading on.\<close>

definition arrival_params :: "u16 \<Rightarrow> 'a navi_scheme \<Rightarrow> bytes" where
  "arrival_params pad s =
     HTONL_COPY (le32 (twoD_TagCode s)) [0, 0, 0, 0]
     @ HTONL_COPY (le32 (ucast (AGV_Head_Dir s) OR push_bit 16 (ucast pad))) [0, 0, 0, 0]"

definition CanMessageProcess ::
  "(u32 \<Rightarrow> u32 \<Rightarrow> bytes \<Rightarrow> 'a navi_scheme \<Rightarrow> 'a navi_scheme) \<Rightarrow> u16 \<Rightarrow> can_rx_msg
     \<Rightarrow> 'a navi_scheme \<Rightarrow> int \<times> 'a navi_scheme" where
  "CanMessageProcess evt pad rx s =
     (if IDE rx \<noteq> CAN_Id_Standard then (- perr_code ENOTSUP, s)
      else if StdId rx = 0x180 OR SCANNER_CANID then
        let temp32 = frame_u32 0 (Data rx);
            s1 = s\<lparr>navi_y := tenth_i32 temp32\<rparr>
        in (0, if temp32 \<noteq> 0 then s1\<lparr>twoD_YP := navi_y s1\<rparr> else s1)
      else if StdId rx = 0x280 OR SCANNER_CANID then
        let temp32 = frame_u32 0 (Data rx);
            temp16 = frame_u16 4 (Data rx);
            s1 = s\<lparr>navi_x := tenth_i32 temp32, navi_angle := tenth_u16 temp16\<rparr>;
            s2 = (if temp32 \<noteq> 0 \<or> temp16 \<noteq> 0
                  then s1\<lparr>twoD_XP := navi_x s1, twoD_Angle := navi_angle s1,
                          twoDAngleConver := fsub 360 (navi_angle s1)\<rparr>
                  else s1)
        in (0, s2\<lparr>twoDMissingCnt := 0\<rparr>)
      else if StdId rx = 0x380 OR SCANNER_CANID then
        if drop_bit 3 (Data rx ! 0) AND 1 = 1 then
          let s1 = s\<lparr>navi_warn := frame_u16 2 (Data rx), navi_tag := frame_u32 4 (Data rx)\<rparr>;
              s2 = s1\<lparr>twoD_YP := navi_y s1, twoD_XP := navi_x s1, twoD_Angle := navi_angle s1,
                      twoDAngleConver := fsub 360 (navi_angle s1), twoD_TagCode := navi_tag s1\<rparr>
          in if twoD_TagCode s2 \<noteq> twoD_TagCodeOld s2 then
               let s3 = UpdateAgvHeadDirToNew s2;
                   s4 = (if twoD_TagCodeOld s3 \<noteq> 0
                         then evt EVENT_POINT_ARRIVAL 8 (arrival_params pad s3) s3 else s3)
               in (0, s4\<lparr>twoD_TagCodeOld := twoD_TagCode s4, NewTag := 1\<rparr>)
             else (0, s2)
        else (0, s)
      else if StdId rx = 0x480 OR SCANNER_CANID \<or> StdId rx = 0x580 OR SCANNER_CANID then (0, s)
      else (- perr_code ENOTSUP, s))"

text \<open>The frame that switches the scanner: six of its data bytes are not initialised, as is \<open>ExtId\<close>.\<close>

definition NavigationOnOff :: "can_mailbox \<Rightarrow> can_msg \<Rightarrow> bool \<Rightarrow> int \<times> can_msg list \<times> nat" where
  "NavigationOnOff txok garbage on =
     (let txmsg = garbage\<lparr>StdId := 0, IDE := CAN_Id_Standard, RTR := CAN_RTR_Data, DLC := 2,
                          Data := (Data garbage)[0 := (if on then 1 else 2), 1 := 8]\<rparr>
      in case can_dispatcher_send_msg txok txmsg of (r, sent, delays) \<Rightarrow> (0, sent, delays))"

definition NavigationInit :: "'p \<Rightarrow> 'p can_disp \<Rightarrow> (int \<times> nat \<times> 'p can_disp) outcome" where
  "NavigationInit proc d =
     obind (can_dispatcher_register_user (Some [110, 97, 118, 105]) proc d) (\<lambda>(canUser, d'). Ret (0, canUser, d'))"

definition Calibrate :: "'a navi_scheme \<Rightarrow> 'a navi_scheme" where
  "Calibrate s =
     (let s1 = Get_TwoDDev (UpdateAgvHeadDirToNew s)
      in s1\<lparr>detY0 := - GS_DEV s1, detTheta0 := - GS_Angle s1\<rparr>)"

section \<open>Facts\<close>

lemma list4_cases: "length xs = 4 \<Longrightarrow> \<exists>a b c d. xs = [a, b, c, d]"
  by (auto simp: numeral_eq_Suc length_Suc_conv)

lemma frame_u32_be: "i + 4 \<le> length ds \<Longrightarrow> frame_u32 i ds = of_be32 (take 4 (drop i ds))"
proof -
  assume "i + 4 \<le> length ds"
  then have l: "length (take 4 (drop i ds)) = 4" by simp
  then obtain a b c d where "take 4 (drop i ds) = [a, b, c, d]"
    by (metis (no_types) list4_cases)
  moreover have "reverse_copy (drop i ds) [0, 0, 0, 0] 4 = rev (take 4 (drop i ds))"
    using l by (simp add: reverse_copy_spec)
  ultimately show ?thesis by (simp add: frame_u32_def)
qed

text \<open>The heading as a function of the angle: only its field changes.\<close>

definition head_dir :: "rat \<Rightarrow> u16 \<Rightarrow> u16" where
  "head_dir a d =
     (if a < fl32 45.0001 \<or> a > fl32 315.0001 \<and> a < fl32 360.1 then X_FORWARD
      else if a > fl32 45.0001 \<and> a < fl32 135.0001 then Y_BACKWARD
      else if a > fl32 135.0001 \<and> a < fl32 225.0001 then X_BACKWARD
      else if a > fl32 225.0001 \<and> a < fl32 315.0001 then Y_FORWARD else d)"

lemma UpdateAgvHeadDirToNew_eq: "UpdateAgvHeadDirToNew s = s\<lparr>AGV_Head_Dir := head_dir (twoD_Angle s) (AGV_Head_Dir s)\<rparr>"
  by (simp add: UpdateAgvHeadDirToNew_def head_dir_def Let_def)

text \<open>The tags a sequence of frames carries, and the arrivals they amount to.\<close>

definition tag_of :: "can_rx_msg \<Rightarrow> u32 option" where
  "tag_of rx =
     (if IDE rx = CAN_Id_Standard \<and> StdId rx = 0x388 \<and> bit (Data rx ! 0) 3
      then Some (of_be32 (take 4 (drop 4 (Data rx)))) else None)"

fun arrivals :: "u32 \<Rightarrow> u32 list \<Rightarrow> u32 list" where
  "arrivals old [] = []"
| "arrivals old (t # ts) =
     (if t = old then arrivals old ts else if old = 0 then arrivals t ts else t # arrivals t ts)"

text \<open>A listener that records the events.\<close>

record navi_log = navi +
  evts :: "(u32 \<times> u32) list"

definition navi_log_evt :: "u32 \<Rightarrow> u32 \<Rightarrow> bytes \<Rightarrow> navi_log \<Rightarrow> navi_log" where
  "navi_log_evt e len ps s = s\<lparr>evts := evts s @ [(e, of_be32 ps)]\<rparr>"

definition navi_run :: "u16 \<Rightarrow> can_rx_msg list \<Rightarrow> navi_log \<Rightarrow> navi_log" where
  "navi_run pad rxs s = fold (\<lambda>rx s. snd (CanMessageProcess navi_log_evt pad rx s)) rxs s"

lemma tag_bit: "(drop_bit 3 (x :: u8) AND 1 = 1) \<longleftrightarrow> bit x 3"
  by (simp add: and_one_eq bit_iff_odd_drop_bit odd_iff_mod_2_eq_one)

lemma of_be32_arrival: "of_be32 (arrival_params pad s) = twoD_TagCode s"
  by (simp add: arrival_params_def HTONL_COPY_be32)

lemma CanMessageProcess_tag:
  assumes "length (Data rx) = 8"
  shows "case tag_of rx of
      None \<Rightarrow> twoD_TagCodeOld (snd (CanMessageProcess navi_log_evt pad rx s)) = twoD_TagCodeOld s
        \<and> evts (snd (CanMessageProcess navi_log_evt pad rx s)) = evts s
    | Some t \<Rightarrow> twoD_TagCodeOld (snd (CanMessageProcess navi_log_evt pad rx s)) = t
        \<and> evts (snd (CanMessageProcess navi_log_evt pad rx s))
          = evts s @ (if t = twoD_TagCodeOld s \<or> twoD_TagCodeOld s = 0 then [] else [(EVENT_POINT_ARRIVAL, t)])"
proof (cases "tag_of rx")
  case None
  then show ?thesis
    by (auto simp: CanMessageProcess_def tag_of_def Let_def tag_bit split: if_splits)
next
  case (Some t)
  then have "IDE rx = 0" "StdId rx = 0x388" "bit (Data rx ! 0) 3" and t: "t = frame_u32 4 (Data rx)"
    using assms by (auto simp: tag_of_def frame_u32_be split: if_splits)
  then show ?thesis
    using Some by (simp add: CanMessageProcess_def Let_def tag_bit navi_log_evt_def of_be32_arrival UpdateAgvHeadDirToNew_eq)
qed

section \<open>Properties\<close>

text \<open>
  C9: each tag the vehicle comes to is reported once, in the order of arrival, and only tags
  are: over any sequence of scanner frames, mixed with any other frames, the arrival events
  are the changes of the tag code, except the first tag after power-up, which only tells the
  vehicle where it stands.
\<close>

theorem tags_reported_once:
  assumes "\<forall>rx \<in> set rxs. length (Data rx) = 8"
  shows "evts (navi_run pad rxs s)
    = evts s @ map (Pair EVENT_POINT_ARRIVAL) (arrivals (twoD_TagCodeOld s) (List.map_filter tag_of rxs))"
  using assms
proof (induction rxs arbitrary: s)
  case Nil
  then show ?case by (simp add: navi_run_def List.map_filter_def)
next
  case (Cons rx rxs)
  let ?s = "snd (CanMessageProcess navi_log_evt pad rx s)"
  have r: "navi_run pad (rx # rxs) s = navi_run pad rxs ?s" by (simp add: navi_run_def)
  have "evts (navi_run pad rxs ?s)
      = evts ?s @ map (Pair EVENT_POINT_ARRIVAL) (arrivals (twoD_TagCodeOld ?s) (List.map_filter tag_of rxs))"
    using Cons by simp
  then show ?case
    using CanMessageProcess_tag [of rx pad s] Cons.prems
    by (cases "tag_of rx") (auto simp: r map_filter_simps)
qed

definition demo_frame :: "u32 \<Rightarrow> bytes \<Rightarrow> can_rx_msg" where
  "demo_frame sid ds = \<lparr>StdId = sid, ExtId = 0, IDE = 0, RTR = 0, DLC = 8, Data = ds, FMI = 0\<rparr>"

definition demo_navi :: navi where
  "demo_navi = nav.extend demo_nav
     \<lparr>navi_x = 0, navi_y = 0, navi_angle = 0, navi_tag = 0, navi_warn = 0, detY0 = 0, detTheta0 = 0\<rparr>"

definition demo_navi_log :: navi_log where
  "demo_navi_log = navi.extend demo_navi \<lparr>evts = []\<rparr>"

theorem tags_reported_once_witness:
  "map snd (evts (navi_run 0 [demo_frame 0x388 [8, 0, 0, 0, 0, 0, 0, 5], demo_frame 0x388 [8, 0, 0, 0, 0, 0, 0, 6],
      demo_frame 0x288 [0, 0, 0, 0, 0, 0, 0, 0], demo_frame 0x388 [8, 0, 0, 0, 0, 0, 0, 6]] demo_navi_log)) = [6]"
  by (subst tags_reported_once)
    (simp_all add: demo_frame_def demo_navi_log_def demo_navi_def demo_nav_def nav.defs navi.defs tag_of_def
      List.map_filter_def word_of_def bit_numeral_rec comp_def)

text \<open>
  after a frame with a new tag the globals the motion controller reads belong together:
  the tag is that of the frame, position and angle are those of the last measuring frames
  (zero readings included), the new-tag flag is set and the tag is remembered. A frame with
  the tag it already stands on refreshes them and raises no flag.
\<close>

theorem tag_latches_position:
  assumes "tag_of rx = Some t" "length (Data rx) = 8" "CanMessageProcess navi_log_evt pad rx s = (r, s')"
  shows "r = 0 \<and> twoD_TagCode s' = t \<and> twoD_TagCodeOld s' = t
    \<and> twoD_XP s' = navi_x s \<and> twoD_YP s' = navi_y s \<and> twoD_Angle s' = navi_angle s
    \<and> NewTag s' = (if t = twoD_TagCodeOld s then NewTag s else 1)
    \<and> AGV_Head_Dir s' = (if t = twoD_TagCodeOld s then AGV_Head_Dir s
        else head_dir (navi_angle s) (AGV_Head_Dir s))"
proof -
  have "IDE rx = 0" "StdId rx = 0x388" "bit (Data rx ! 0) 3" and t: "t = frame_u32 4 (Data rx)"
    using assms(1,2) by (auto simp: tag_of_def frame_u32_be split: if_splits)
  then show ?thesis
    using assms(3)
    by (cases "twoD_TagCodeOld s = t"; cases "twoD_TagCodeOld s = 0")
      (auto simp: CanMessageProcess_def Let_def tag_bit navi_log_evt_def UpdateAgvHeadDirToNew_eq)
qed

theorem tag_latches_position_witness:
  "NewTag (snd (CanMessageProcess navi_log_evt 0 (demo_frame 0x388 [8, 0, 0, 0, 0, 0, 0, 5]) demo_navi_log)) = 1"
proof -
  let ?rx = "demo_frame 0x388 [8, 0, 0, 0, 0, 0, 0, 5]"
  obtain r s' where r: "CanMessageProcess navi_log_evt 0 ?rx demo_navi_log = (r, s')" by (cases "CanMessageProcess navi_log_evt 0 ?rx demo_navi_log")
  have "tag_of ?rx = Some 5" by (simp add: tag_of_def demo_frame_def bit_numeral_rec word_of_def)
  moreover have "length (Data ?rx) = 8" "twoD_TagCodeOld demo_navi_log = 0"
    by (simp_all add: demo_frame_def demo_navi_log_def demo_navi_def demo_nav_def nav.defs navi.defs)
  ultimately show ?thesis using tag_latches_position [OF _ _ r, of 5] r by simp
qed

end
