(* ===== verification/Motors.thy ===== *)
theory Motors
  imports Mc_Tools Tools
begin

text \<open>
  The motors (\<open>usr/application/motors.c\<close>): the pulse generators of the two wheels, the
  direction outputs, and the state machine of the dumper with the angle it computes from the
  time it has been moving. The outputs are the state of the pulse generators and of the output
  pins; the in-position sensor of the dumper and the clock are arguments. The module is built
  with the MOONS drives: 3200 steps per turn.
\<close>

section \<open>State\<close>

datatype dumper_state_t = DUMPER_STATE_HORIZONTAL | DUMPER_STATE_MOVINGUP | DUMPER_STATE_TOP | DUMPER_STATE_MOVINGDOWN

record dumper =
  state :: dumper_state_t
  position :: rat
  w :: rat
  tm :: u32

text \<open>A pulse generator that runs, with its frequency, or is stopped.\<close>

datatype pwm = PwmStopped | PwmRunning u32

record motors =
  left_pps :: u32
  right_pps :: u32
  pwm_left :: pwm
  pwm_right :: pwm
  pwm_unload :: pwm
  dir_left :: int
  dir_right :: int
  dir_dumper :: int
  motors_detach :: int
  motors_powerup :: int
  dumper_st :: dumper

abbreviation (input) MOVE_FOREWARD_L :: int where "MOVE_FOREWARD_L \<equiv> 0"
abbreviation (input) MOVE_ROLLBACK_L :: int where "MOVE_ROLLBACK_L \<equiv> 1"
abbreviation (input) MOVE_FOREWARD_R :: int where "MOVE_FOREWARD_R \<equiv> 1"
abbreviation (input) MOVE_ROLLBACK_R :: int where "MOVE_ROLLBACK_R \<equiv> 0"
abbreviation (input) DUMPER_MOTOR_DIR_UP :: int where "DUMPER_MOTOR_DIR_UP \<equiv> 1"
abbreviation (input) DUMPER_MOTOR_DIR_DOWN :: int where "DUMPER_MOTOR_DIR_DOWN \<equiv> 0"
abbreviation (input) SERVO_MODE :: rat where "SERVO_MODE \<equiv> 3200"

section \<open>Wheels\<close>

definition WHEEL_PERIMETER :: rat where
  "WHEEL_PERIMETER = dmul (dmul 2 PI) 45"

text \<open>The conversions are computed in \<open>float\<close> times, then \<open>double\<close> divided.\<close>

definition VEL_TO_PPS :: "rat \<Rightarrow> rat" where
  "VEL_TO_PPS v = ddiv (fmul v SERVO_MODE) WHEEL_PERIMETER"

definition motor_ctrl :: "u32 \<Rightarrow> pwm \<Rightarrow> pwm" where
  "motor_ctrl pps p = (if pps = 0 then PwmStopped else PwmRunning pps)"

definition DriveWithPluse :: "u32 \<Rightarrow> u32 \<Rightarrow> motors \<Rightarrow> motors" where
  "DriveWithPluse pps_l pps_r m =
     m\<lparr>pwm_left := motor_ctrl pps_l (pwm_left m), pwm_right := motor_ctrl pps_r (pwm_right m)\<rparr>"

text \<open>A negative speed is outside the range of the conversion to \<open>uint32_t\<close>; it is taken modulo \<open>2 ^ 32\<close> here.\<close>

definition to_pps :: "rat \<Rightarrow> u32" where
  "to_pps v = of_int (ftrunc (dadd (VEL_TO_PPS v) (1 / 2)))"

definition Drive :: "rat \<Rightarrow> rat \<Rightarrow> motors \<Rightarrow> motors" where
  "Drive vel_l vel_r m =
     (let l = to_pps vel_l; r = to_pps vel_r
      in if l = left_pps m \<and> r = right_pps m then m
         else m\<lparr>left_pps := l, right_pps := r,
                pwm_left := motor_ctrl l (pwm_left m), pwm_right := motor_ctrl r (pwm_right m)\<rparr>)"

definition motor_set_direction :: "int \<Rightarrow> int \<Rightarrow> motors \<Rightarrow> motors" where
  "motor_set_direction left right m = m\<lparr>dir_left := left, dir_right := right\<rparr>"

text \<open>\<open>fb\<close> is the level of the feedback input (0: powered).\<close>

definition motors_power_onoff :: "bool \<Rightarrow> bool \<Rightarrow> motors \<Rightarrow> int \<times> motors" where
  "motors_power_onoff on fb m =
     ((if fb then 0 else 1), m\<lparr>motors_powerup := (if on then 0 else 1)\<rparr>)"

text \<open>The second component is the charging output, which \<open>bms_charge\<close> drives later.\<close>

definition motors_init :: "motors \<times> bool \<Rightarrow> motors \<times> bool" where
  "motors_init mc = ((fst mc)\<lparr>motors_powerup := 1, motors_detach := 0\<rparr>, False)"

section \<open>The dumper\<close>

definition DUMPER_W_PPS :: "rat \<Rightarrow> u32" where
  "DUMPER_W_PPS x = of_int (ftrunc (ddiv (fmul (fmul x SERVO_MODE) 30) 360))"

definition is_dumper_homing :: "bool \<Rightarrow> bool" where
  "is_dumper_homing inposition \<longleftrightarrow> inposition"

definition moved_angle :: "u32 \<Rightarrow> dumper \<Rightarrow> rat" where
  "moved_angle now d =
     fmul (fdiv (fl32 (of_nat (unat (TIME_DIFFERENCE now (tm d))))) 1000) (w d)"

definition dumper_angle :: "u32 \<Rightarrow> motors \<Rightarrow> rat" where
  "dumper_angle now m =
     (let d = dumper_st m
      in if state d = DUMPER_STATE_MOVINGUP then fadd (position d) (moved_angle now d)
         else if state d = DUMPER_STATE_MOVINGDOWN then fsub (position d) (moved_angle now d)
         else position d)"

text \<open>\<open>dumper_stop\<close> keeps the moved angle in a \<open>uint32_t\<close>: its fraction is dropped.\<close>

definition dumper_stop :: "u32 \<Rightarrow> bool \<Rightarrow> motors \<Rightarrow> motors" where
  "dumper_stop now inposition m =
     (let d = dumper_st m;
          roll = of_nat (unat (of_int (ftrunc (moved_angle now d)) :: u32));
          d1 = (if state d = DUMPER_STATE_MOVINGDOWN then
                  if is_dumper_homing inposition
                  then d\<lparr>position := 0, state := DUMPER_STATE_HORIZONTAL\<rparr>
                  else d\<lparr>position := fsub (position d) (fl32 roll), state := DUMPER_STATE_TOP\<rparr>
                else if state d = DUMPER_STATE_MOVINGUP
                then d\<lparr>position := fadd (position d) (fl32 roll), state := DUMPER_STATE_TOP\<rparr>
                else d)
      in m\<lparr>pwm_unload := PwmStopped, dumper_st := d1\<lparr>tm := 0\<rparr>\<rparr>)"

definition dumper_up :: "u32 \<Rightarrow> rat \<Rightarrow> motors \<Rightarrow> int \<times> motors" where
  "dumper_up now x m =
     (0, m\<lparr>dir_dumper := DUMPER_MOTOR_DIR_UP,
           pwm_unload := PwmRunning (DUMPER_W_PPS x),
           dumper_st := (dumper_st m)\<lparr>w := x, state := DUMPER_STATE_MOVINGUP, tm := now\<rparr>\<rparr>)"

definition dumper_down :: "u32 \<Rightarrow> bool \<Rightarrow> rat \<Rightarrow> motors \<Rightarrow> int \<times> motors" where
  "dumper_down now inposition x m =
     (if state (dumper_st m) = DUMPER_STATE_MOVINGDOWN then (- perr_code EBUSY, m)
      else if is_dumper_homing inposition
      then (- perr_code EFAULT, m\<lparr>dumper_st := (dumper_st m)\<lparr>state := DUMPER_STATE_HORIZONTAL\<rparr>\<rparr>)
      else (0, m\<lparr>dir_dumper := DUMPER_MOTOR_DIR_DOWN,
                 pwm_unload := PwmRunning (DUMPER_W_PPS x),
                 dumper_st := (dumper_st m)\<lparr>w := x, state := DUMPER_STATE_MOVINGDOWN, tm := now\<rparr>\<rparr>))"

definition dumper_get_state :: "motors \<Rightarrow> dumper_state_t" where
  "dumper_get_state m = state (dumper_st m)"

definition dumper_set_direction :: "int \<Rightarrow> motors \<Rightarrow> motors" where
  "dumper_set_direction dir m = m\<lparr>dir_dumper := dir\<rparr>"

definition dumper_drive_with_pluse :: "int \<Rightarrow> motors \<Rightarrow> motors" where
  "dumper_drive_with_pluse pps m = m\<lparr>pwm_unload := motor_ctrl (of_int pps) (pwm_unload m)\<rparr>"

section \<open>The unloading task\<close>

text \<open>
  \<open>reverseTask\<close> of \<open>motion_ctrl/rAGVControl.c\<close>, called once per control cycle: it starts the
  dumper on request, stops it at 60 degrees, holds it up for 800 ms, and brings it down again.
  \<open>evt\<close> is \<open>motionctrl_event_callback\<close>; \<open>now1\<close> and \<open>now2\<close> are the readings of the clock in
  a call, \<open>inpos\<close> the sensor, which keeps its level during one.
\<close>

abbreviation (input) DEFAULT_DUMPER_REVERSE_ANGLE :: rat where "DEFAULT_DUMPER_REVERSE_ANGLE \<equiv> 60"
abbreviation (input) DEFAULT_DUMPER_W :: rat where "DEFAULT_DUMPER_W \<equiv> 50"
abbreviation (input) DEFAULT_DUMPER_HOLDTIME_MS :: u32 where "DEFAULT_DUMPER_HOLDTIME_MS \<equiv> 800"

record unload =
  nReverseFlag :: bool
  holdtm :: u32
  reverseMode :: dumper_state_t

definition reverseTask ::
  "(u32 \<Rightarrow> bytes \<Rightarrow> 'w \<Rightarrow> 'w) \<Rightarrow> u32 \<Rightarrow> u32 \<Rightarrow> bool \<Rightarrow> unload \<times> motors \<times> 'w \<Rightarrow> unload \<times> motors \<times> 'w" where
  "reverseTask evt now1 now2 inpos umw =
     (case umw of
        (u0, m, ws) \<Rightarrow>
          let u = u0\<lparr>reverseMode := dumper_get_state m\<rparr>
          in case reverseMode u of
               DUMPER_STATE_HORIZONTAL \<Rightarrow>
                 if nReverseFlag u
                 then (u\<lparr>holdtm := 0, nReverseFlag := False\<rparr>, snd (dumper_up now1 DEFAULT_DUMPER_W m), ws)
                 else (u, m, ws)
             | DUMPER_STATE_TOP \<Rightarrow>
                 if holdtm u = 0 then (u\<lparr>holdtm := now1\<rparr>, m, ws)
                 else if TIME_DIFFERENCE now1 (holdtm u) > DEFAULT_DUMPER_HOLDTIME_MS
                 then let (err, m1) = dumper_down now2 inpos DEFAULT_DUMPER_W m;
                          m2 = (if err = - perr_code EFAULT then dumper_stop now2 inpos m1 else m1)
                      in (u\<lparr>holdtm := 0\<rparr>, m2, evt EVENT_ACTION_OVER [ucast ACTION_UNLOAD] ws)
                 else (u, m, ws)
             | DUMPER_STATE_MOVINGUP \<Rightarrow>
                 if dumper_angle now1 m \<ge> DEFAULT_DUMPER_REVERSE_ANGLE
                 then (u, dumper_stop now2 inpos m, ws) else (u, m, ws)
             | DUMPER_STATE_MOVINGDOWN \<Rightarrow>
                 if is_dumper_homing inpos then (u, dumper_stop now2 inpos m, ws) else (u, m, ws))"

section \<open>The unloading cycle\<close>

text \<open>The moves a call can make.\<close>

inductive dumper_step :: "dumper_state_t \<Rightarrow> dumper_state_t \<Rightarrow> bool" where
  stay: "dumper_step s s"
| start: "dumper_step DUMPER_STATE_HORIZONTAL DUMPER_STATE_MOVINGUP"
| up: "dumper_step DUMPER_STATE_MOVINGUP DUMPER_STATE_TOP"
| down: "dumper_step DUMPER_STATE_TOP DUMPER_STATE_MOVINGDOWN"
| already_down: "dumper_step DUMPER_STATE_TOP DUMPER_STATE_HORIZONTAL"
| home: "dumper_step DUMPER_STATE_MOVINGDOWN DUMPER_STATE_HORIZONTAL"

inductive_simps dumper_step_from [simp]:
  "dumper_step DUMPER_STATE_HORIZONTAL s" "dumper_step DUMPER_STATE_MOVINGUP s"
  "dumper_step DUMPER_STATE_TOP s" "dumper_step DUMPER_STATE_MOVINGDOWN s"

text \<open>The loading area is up, or on its way up: an unloading is in progress.\<close>

definition unloading :: "motors \<Rightarrow> bool" where
  "unloading m \<longleftrightarrow> state (dumper_st m) = DUMPER_STATE_MOVINGUP \<or> state (dumper_st m) = DUMPER_STATE_TOP"

text \<open>The inputs of a call: whether a request came before it, the clock, the sensor.\<close>

type_synonym unload_input = "bool \<times> u32 \<times> u32 \<times> bool"

definition unload_over :: "u32 \<Rightarrow> bytes \<Rightarrow> nat \<Rightarrow> nat" where
  "unload_over e ps n = (if e = EVENT_ACTION_OVER \<and> ps = [9] then Suc n else n)"

fun unload_run :: "unload_input list \<Rightarrow> unload \<times> motors \<times> nat \<Rightarrow> nat \<times> unload \<times> motors \<times> nat" where
  "unload_run [] umw = (0, umw)"
| "unload_run ((req, now1, now2, inpos) # ins) (u, m, n) =
     (let u1 = (if req then u\<lparr>nReverseFlag := True\<rparr> else u);
          started = (if dumper_get_state m = DUMPER_STATE_HORIZONTAL \<and> nReverseFlag u1 then 1 else 0)
      in case unload_run ins (reverseTask unload_over now1 now2 inpos (u1, m, n)) of
           (k, umw) \<Rightarrow> (started + k, umw))"

lemma reverseTask_step:
  assumes "reverseTask unload_over now1 now2 inpos (u, m, n) = (u', m', n')"
  shows "dumper_step (state (dumper_st m)) (state (dumper_st m'))
    \<and> n' + (if unloading m' then 1 else 0) = n + (if unloading m then 1 else 0)
        + (if dumper_get_state m = DUMPER_STATE_HORIZONTAL \<and> nReverseFlag u then 1 else 0)"
proof (cases "state (dumper_st m)")
  case DUMPER_STATE_TOP
  then show ?thesis using assms
    by (auto simp: reverseTask_def dumper_get_state_def dumper_down_def dumper_stop_def unloading_def Let_def
        unload_over_def is_dumper_homing_def split: if_splits)
qed (use assms in \<open>auto simp: reverseTask_def dumper_get_state_def dumper_up_def dumper_stop_def unloading_def
      Let_def is_dumper_homing_def split: if_splits\<close>)

section \<open>Properties\<close>

text \<open>
  C18: every unloading that is started is reported over exactly once, when the dumper leaves
  the top: over any run of the task, whatever the requests, the clock and the sensor do, the
  reports and the unloading in progress, if any, add up to the unloadings started.
\<close>

theorem unload_reported_once:
  assumes "unload_run ins (u, m, n) = (started, u', m', n')"
  shows "n' + (if unloading m' then 1 else 0) = n + (if unloading m then 1 else 0) + started"
  using assms
proof (induction ins "(u, m, n)" arbitrary: u m n started rule: unload_run.induct)
  case 1
  then show ?case by simp
next
  case (2 req now1 now2 inpos ins u m n)
  let ?u = "if req then u\<lparr>nReverseFlag := True\<rparr> else u"
  obtain u1 m1 n1 where r: "reverseTask unload_over now1 now2 inpos (?u, m, n) = (u1, m1, n1)"
    by (metis prod_cases3)
  obtain k where k: "unload_run ins (u1, m1, n1) = (k, u', m', n')"
    "started = (if dumper_get_state m = DUMPER_STATE_HORIZONTAL \<and> nReverseFlag ?u then 1 else 0) + k"
    using 2(2) r by (auto simp: Let_def split: prod.splits)
  have "n' + (if unloading m' then 1 else 0) = n1 + (if unloading m1 then 1 else 0) + k"
    using 2(1) [OF refl refl, of u1 m1 n1 k] r k(1) by simp
  then show ?case using reverseTask_step [OF r] k(2) by simp
qed

definition demo_motors :: motors where
  "demo_motors = \<lparr>left_pps = 0, right_pps = 0, pwm_left = PwmStopped, pwm_right = PwmStopped, pwm_unload = PwmStopped,
     dir_left = 0, dir_right = 0, dir_dumper = 0, motors_detach = 0, motors_powerup = 1,
     dumper_st = \<lparr>state = DUMPER_STATE_HORIZONTAL, position = 0, w = 0, tm = 0\<rparr>\<rparr>"

definition demo_unload :: unload where
  "demo_unload = \<lparr>nReverseFlag = False, holdtm = 0, reverseMode = DUMPER_STATE_HORIZONTAL\<rparr>"

theorem unload_reported_once_witness:
  "\<exists>k u' m' n'. unload_run [(True, 10, 10, True), (False, 2000, 2000, False)] (demo_unload, demo_motors, 0) = (k, u', m', n')
    \<and> n' + (if unloading m' then 1 else 0) = k"
proof -
  obtain k u' m' n' where r: "unload_run [(True, 10, 10, True), (False, 2000, 2000, False)] (demo_unload, demo_motors, 0)
      = (k, u', m', n')" by (metis prod_cases4)
  have "\<not> unloading demo_motors" by (simp add: unloading_def demo_motors_def)
  then have "n' + (if unloading m' then 1 else 0) = k" using unload_reported_once [OF r] by simp
  then show ?thesis using r by blast
qed

text \<open>The bounds of the angle computed while the dumper rises at 50 degrees per second.\<close>

lemma fl32_six_fifths: "fl32 (6 / 5) = 10066330 / 8388608"
  using fl32_value [of "6 / 5" "- 23" 10066330] by (simp add: pow2_def)

lemma fl32_two_powers: "fl32 (2 ^ 32) = 2 ^ 32" "fl32 (2 ^ 40) = 2 ^ 40"
  unfolding fl32_def by (rule fround_exact [OF fmt32, of _ 1 32], simp_all add: pow2_def)
    (rule fround_exact [OF fmt32, of _ 1 40], simp_all add: pow2_def)

lemma unat_lt2p32: "unat (x :: u32) < 2 ^ 32"
  using unsigned_less [of x, where 'a = nat] by simp

lemma moved_angle_high:
  assumes "1200 \<le> unat (TIME_DIFFERENCE now (tm d))" "w d = 50"
  shows "60 \<le> moved_angle now d" "moved_angle now d \<le> 2 ^ 40"
proof -
  let ?t = "of_nat (unat (TIME_DIFFERENCE now (tm d))) :: rat"
  have "of_nat 1200 \<le> ?t" using assms(1) by (simp only: of_nat_le_iff)
  then have t: "1200 \<le> ?t" by simp
  have "unat (TIME_DIFFERENCE now (tm d)) \<le> 2 ^ 32"
    using unat_lt2p32 by (rule less_imp_le)
  then have "?t \<le> of_nat (2 ^ 32)" by (simp only: of_nat_le_iff)
  then have t2: "?t \<le> 2 ^ 32" by simp
  have f: "1200 \<le> fl32 ?t" "fl32 ?t \<le> 2 ^ 32"
    using fl32_mono [of 1200 ?t] fl32_mono [of ?t "2 ^ 32"] t t2 by (simp_all add: fl32_two_powers [simplified])
  have "fl32 (6 / 5) \<le> fl32 (fl32 ?t / 1000)" using f by (intro fl32_mono) auto
  then have d: "6 / 5 \<le> fdiv (fl32 ?t) 1000" by (simp add: fdiv_def fl32_six_fifths)
  have "fl32 (fl32 ?t / 1000) \<le> fl32 (2 ^ 32)" using f by (intro fl32_mono) auto
  then have d2: "fdiv (fl32 ?t) 1000 \<le> 2 ^ 32" by (simp add: fdiv_def fl32_two_powers [simplified])
  have "fl32 60 \<le> fl32 (fdiv (fl32 ?t) 1000 * 50)" using d d2 by (intro fl32_mono) auto
  then show "60 \<le> moved_angle now d" using assms(2) by (simp add: moved_angle_def fmul_def)
  have "fl32 (fdiv (fl32 ?t) 1000 * 50) \<le> fl32 (2 ^ 40)" using d d2 by (intro fl32_mono) auto
  then show "moved_angle now d \<le> 2 ^ 40" using assms(2) by (simp add: moved_angle_def fmul_def fl32_two_powers [simplified])
qed

text \<open>
  C33: the dumper does not keep rising: started from the horizontal, the first call that comes
  at least 1.2 seconds later, across a wrap-around of the clock too, switches its motor off
  and leaves it at the top.
\<close>

theorem dumper_stops_rising:
  assumes "dumper_st m = \<lparr>state = DUMPER_STATE_MOVINGUP, position = 0, w = 50, tm = t0\<rparr>"
    and "1200 \<le> unat (TIME_DIFFERENCE now1 t0)"
    and "reverseTask evt now1 now2 inpos (u, m, ws) = (u', m', ws')"
  shows "state (dumper_st m') = DUMPER_STATE_TOP \<and> pwm_unload m' = PwmStopped \<and> ws' = ws"
proof -
  have "60 \<le> moved_angle now1 (dumper_st m)" "moved_angle now1 (dumper_st m) \<le> 2 ^ 40"
    using assms(1,2) by (intro moved_angle_high; simp)+
  then have "fl32 60 \<le> fl32 (moved_angle now1 (dumper_st m))" by (intro fl32_mono) auto
  then have "60 \<le> dumper_angle now1 m" using assms(1) by (simp add: dumper_angle_def Let_def fadd_def)
  then show ?thesis using assms(1,3)
    by (auto simp: reverseTask_def dumper_get_state_def dumper_stop_def Let_def)
qed

theorem dumper_stops_rising_witness:
  "\<exists>u' m' n'. reverseTask unload_over 200 200 False (demo_unload, snd (dumper_up 4294966000 50 demo_motors), 0) = (u', m', n')
    \<and> pwm_unload m' = PwmStopped"
proof -
  let ?m = "snd (dumper_up 4294966000 50 demo_motors)"
  obtain u' m' n' where r: "reverseTask unload_over 200 200 False (demo_unload, ?m, 0) = (u', m', n')"
    by (metis prod_cases3)
  have "dumper_st ?m = \<lparr>state = DUMPER_STATE_MOVINGUP, position = 0, w = 50, tm = 4294966000\<rparr>"
    by (simp add: dumper_up_def demo_motors_def)
  moreover have "1200 \<le> unat (TIME_DIFFERENCE 200 4294966000)" by code_simp
  ultimately show ?thesis using dumper_stops_rising [OF _ _ r] r by blast
qed

lemma Drive_cached: "left_pps (Drive l r m) = to_pps l \<and> right_pps (Drive l r m) = to_pps r"
  by (simp add: Drive_def Let_def)

lemma Drive_unchanged: "left_pps m = to_pps l \<Longrightarrow> right_pps m = to_pps r \<Longrightarrow> Drive l r m = m"
  by (simp add: Drive_def)

text \<open>
  a stop request is lost after the wheels were driven with raw pulses: \<open>DriveWithPluse\<close>
  leaves the speeds \<open>Drive\<close> compares with, so that, once \<open>Drive\<close> has stopped the vehicle
  and pulses have set the wheels in motion, another \<open>Drive(0, 0)\<close> changes nothing.
\<close>

theorem drive_keeps_pulses:
  assumes "l \<noteq> 0" "r \<noteq> 0"
  shows "Drive 0 0 (DriveWithPluse l r (Drive 0 0 m)) = DriveWithPluse l r (Drive 0 0 m)
    \<and> pwm_left (Drive 0 0 (DriveWithPluse l r (Drive 0 0 m))) = PwmRunning l
    \<and> pwm_right (Drive 0 0 (DriveWithPluse l r (Drive 0 0 m))) = PwmRunning r"
proof -
  have "Drive 0 0 (DriveWithPluse l r (Drive 0 0 m)) = DriveWithPluse l r (Drive 0 0 m)"
    using Drive_cached [of 0 0 m] by (intro Drive_unchanged) (simp_all add: DriveWithPluse_def)
  then show ?thesis using assms by (simp add: DriveWithPluse_def motor_ctrl_def)
qed

theorem drive_keeps_pulses_witness:
  "pwm_left (Drive 0 0 (DriveWithPluse 500 500 (Drive 0 0 demo_motors))) = PwmRunning 500"
  by (rule drive_keeps_pulses [of 500 500 demo_motors, THEN conjunct2, THEN conjunct1]) simp_all

end
