(* ===== verification/Encoder.thy ===== *)
theory Encoder
  imports Prelude
begin

text \<open>
  The wheel encoders: the counting timers of \<open>usr/bsp/src/bsp_encoder.c\<close> as two 16-bit
  counters that the pulses move up and down, and the driver above them
  (\<open>usr/application/encoder.c\<close>). A handle is the index of the device, \<open>None\<close> the null
  pointer.
\<close>

section \<open>Timers\<close>

text \<open>\<open>bsp_EncoderGetPulseNum\<close> and \<open>bsp_EncoderSetZero\<close> use TIM3 for encoder 1 and TIM4 for encoder 2; no other is opened.\<close>

record enc_hw =
  TIM3_CNT :: u16
  TIM4_CNT :: u16

definition tim_cnt :: "u8 \<Rightarrow> enc_hw \<Rightarrow> u16" where
  "tim_cnt n h = (if n = 1 then TIM3_CNT h else TIM4_CNT h)"

definition tim_set :: "u8 \<Rightarrow> u16 \<Rightarrow> enc_hw \<Rightarrow> enc_hw" where
  "tim_set n v h = (if n = 1 then h\<lparr>TIM3_CNT := v\<rparr> else h\<lparr>TIM4_CNT := v\<rparr>)"

definition bsp_EncoderGetPulseNum :: "u8 \<Rightarrow> enc_hw \<Rightarrow> u16" where
  "bsp_EncoderGetPulseNum n h = tim_cnt n h"

definition bsp_EncoderSetZero :: "u8 \<Rightarrow> enc_hw \<Rightarrow> u16 \<times> enc_hw" where
  "bsp_EncoderSetZero n h = (tim_cnt n h, tim_set n 0 h)"

section \<open>The driver\<close>

record encoder =
  port :: u8
  enc_count :: int
  lastval :: u32

record enc_state =
  encoders :: "nat \<Rightarrow> encoder"
  hw :: enc_hw

definition get_encoder_from_port :: "u8 \<Rightarrow> nat option" where
  "get_encoder_from_port p = (if p = 1 then Some 0 else if p = 2 then Some 1 else None)"

definition open_encoder :: "u8 \<Rightarrow> enc_state \<Rightarrow> nat option \<times> enc_state" where
  "open_encoder p s =
     (case get_encoder_from_port p of
        None \<Rightarrow> (None, s)
      | Some d \<Rightarrow>
          (Some d, s\<lparr>encoders := (encoders s)(d := \<lparr>port = p, enc_count = 0, lastval = 0\<rparr>),
                     hw := tim_set p 0 (hw s)\<rparr>))"

definition get_encoder_count :: "nat \<Rightarrow> enc_state \<Rightarrow> int" where
  "get_encoder_count d s =
     (let dev = encoders s d in sint (bsp_EncoderGetPulseNum (port dev) (hw s)) + enc_count dev)"

definition get_count_and_clear :: "nat \<Rightarrow> enc_state \<Rightarrow> int \<times> enc_state" where
  "get_count_and_clear d s =
     (let dev = encoders s d;
          cnt = bsp_EncoderGetPulseNum (port dev) (hw s);
          h = snd (bsp_EncoderSetZero (port dev) (hw s));
          c = sint cnt + enc_count dev
      in (c, s\<lparr>encoders := (encoders s)(d := dev\<lparr>enc_count := 0, lastval := 0\<rparr>), hw := h\<rparr>))"

definition clear_encoder :: "nat \<Rightarrow> enc_state \<Rightarrow> int \<times> enc_state" where
  "clear_encoder d s =
     (let dev = encoders s d
      in (0, s\<lparr>encoders := (encoders s)(d := dev\<lparr>enc_count := 0, lastval := 0\<rparr>),
              hw := snd (bsp_EncoderSetZero (port dev) (hw s))\<rparr>))"

definition close_encoder :: "nat \<Rightarrow> enc_state \<Rightarrow> int \<times> enc_state" where
  "close_encoder d s = clear_encoder d s"

section \<open>Pulses and readings\<close>

text \<open>The wheel turns by \<open>k\<close> pulses, forwards or backwards; the 16-bit counter wraps.\<close>

definition enc_pulses :: "nat \<Rightarrow> int \<Rightarrow> enc_state \<Rightarrow> enc_state" where
  "enc_pulses d k s =
     (let p = port (encoders s d) in s\<lparr>hw := tim_set p (tim_cnt p (hw s) + of_int k) (hw s)\<rparr>)"

datatype enc_op = Pulses int | Read_clear

fun enc_run :: "nat \<Rightarrow> enc_op list \<Rightarrow> enc_state \<Rightarrow> int list \<times> enc_state" where
  "enc_run d [] s = ([], s)"
| "enc_run d (Pulses k # ops) s = enc_run d ops (enc_pulses d k s)"
| "enc_run d (Read_clear # ops) s =
     (case get_count_and_clear d s of (c, s1) \<Rightarrow> (case enc_run d ops s1 of (cs, s2) \<Rightarrow> (c # cs, s2)))"

text \<open>No interval between two readings may move the wheel out of the range of the counter.\<close>

fun enc_in_range :: "int \<Rightarrow> enc_op list \<Rightarrow> bool" where
  "enc_in_range acc [] \<longleftrightarrow> - (2 ^ 15) \<le> acc \<and> acc < 2 ^ 15"
| "enc_in_range acc (Pulses k # ops) \<longleftrightarrow> enc_in_range (acc + k) ops"
| "enc_in_range acc (Read_clear # ops) \<longleftrightarrow> - (2 ^ 15) \<le> acc \<and> acc < 2 ^ 15 \<and> enc_in_range 0 ops"

fun enc_total :: "enc_op list \<Rightarrow> int" where
  "enc_total [] = 0"
| "enc_total (Pulses k # ops) = k + enc_total ops"
| "enc_total (Read_clear # ops) = enc_total ops"

lemma tim_cnt_set [simp]: "tim_cnt n (tim_set n v h) = v"
  by (simp add: tim_cnt_def tim_set_def)

lemma tim_other [simp]: "(n = 1) \<noteq> (m = 1) \<Longrightarrow> tim_cnt n (tim_set m v h) = tim_cnt n h"
  by (auto simp: tim_cnt_def tim_set_def)

lemma sint_of_int_u16: "- (2 ^ 15) \<le> k \<Longrightarrow> k < 2 ^ 15 \<Longrightarrow> sint (of_int k :: u16) = k"
  by (simp add: signed_of_int signed_take_bit_int_eq_self)

lemma enc_run_total:
  "enc_in_range acc ops \<Longrightarrow> tim_cnt (port (encoders s d)) (hw s) = of_int acc \<Longrightarrow> enc_count (encoders s d) = 0 \<Longrightarrow>
     enc_run d ops s = (cs, s') \<Longrightarrow> sum_list cs + get_encoder_count d s' = acc + enc_total ops"
proof (induction d ops s arbitrary: acc cs rule: enc_run.induct)
  case (1 d s)
  then show ?case by (simp add: get_encoder_count_def bsp_EncoderGetPulseNum_def sint_of_int_u16)
next
  case (2 d k ops s)
  have "tim_cnt (port (encoders (enc_pulses d k s) d)) (hw (enc_pulses d k s)) = of_int (acc + k)"
    "enc_count (encoders (enc_pulses d k s) d) = 0"
    using 2(3,4) by (simp_all add: enc_pulses_def Let_def)
  from 2(1) [OF _ this] 2(2,5) show ?case by simp
next
  case (3 d ops s)
  obtain c s1 where c: "get_count_and_clear d s = (c, s1)" by (cases "get_count_and_clear d s")
  obtain cs1 where cs: "enc_run d ops s1 = (cs1, s')" "cs = c # cs1"
    using 3(5) c by (auto split: prod.splits)
  have "c = acc" "tim_cnt (port (encoders s1 d)) (hw s1) = of_int 0" "enc_count (encoders s1 d) = 0"
    using c 3(2-4) by (auto simp: get_count_and_clear_def bsp_EncoderGetPulseNum_def bsp_EncoderSetZero_def Let_def sint_of_int_u16)
  with 3(1) [OF c [symmetric], of 0 cs1] 3(2) cs show ?case by simp
qed

section \<open>Properties\<close>

text \<open>
  no pulse is lost or counted twice: from a freshly opened encoder, however turning and
  reading interleave, the readings and what is still in the counter add up to the pulses that
  came in, as long as no interval between two readings exceeds the range of the counter.
\<close>

theorem encoder_counts_every_pulse:
  assumes "open_encoder p s = (Some d, s1)" "enc_in_range 0 ops" "enc_run d ops s1 = (cs, s')"
  shows "sum_list cs + get_encoder_count d s' = enc_total ops"
proof -
  have "tim_cnt (port (encoders s1 d)) (hw s1) = of_int 0" "enc_count (encoders s1 d) = 0"
    using assms(1) by (auto simp: open_encoder_def split: option.splits)
  from enc_run_total [OF assms(2) this assms(3)] show ?thesis by simp
qed

definition demo_enc :: enc_state where
  "demo_enc = \<lparr>encoders = \<lambda>_. \<lparr>port = 0, enc_count = 0, lastval = 0\<rparr>, hw = \<lparr>TIM3_CNT = 9, TIM4_CNT = 9\<rparr>\<rparr>"

theorem encoder_counts_every_pulse_witness:
  "\<exists>s1 cs s'. open_encoder 2 demo_enc = (Some 1, s1)
    \<and> enc_run 1 [Pulses 100, Read_clear, Pulses (- 30), Read_clear, Pulses 5] s1 = (cs, s')
    \<and> sum_list cs + get_encoder_count 1 s' = 75"
proof -
  let ?ops = "[Pulses 100, Read_clear, Pulses (- 30), Read_clear, Pulses 5]"
  obtain s1 where s1: "open_encoder 2 demo_enc = (Some 1, s1)" by (simp add: open_encoder_def get_encoder_from_port_def)
  obtain cs s' where r: "enc_run 1 ?ops s1 = (cs, s')" by (cases "enc_run 1 ?ops s1")
  have "sum_list cs + get_encoder_count 1 s' = 75"
    using encoder_counts_every_pulse [OF s1 _ r] by simp
  then show ?thesis using s1 r by blast
qed

end
