(* ===== verification/Motion_Cmd.thy ===== *)
theory Motion_Cmd
  imports Navigation Motors Encoder
begin

text \<open>
  The commands of the motion controller (\<open>usr/application/motion_ctrl.c\<close>), with the trapezoid
  plans of \<open>motion_ctrl/VPlan.c\<close> and the start of a rotation of \<open>motion_ctrl/Rotating.c\<close>: which
  commands are accepted in which state, the path and the turn they set up, and the motion
  state that is reported. \<open>sqrt\<close> of the C library is the argument \<open>sqrtd\<close>. The pause of
  500 ms before a start changes nothing here.
\<close>

section \<open>State\<close>

record rotating =
  PxDesired :: rat
  PyDesired :: rat
  PthetaDesired :: rat
  PxFreeze :: rat
  PyFreeze :: rat
  PthetaFreeze :: rat
  para_a :: rat
  para_b :: rat

text \<open>The globals of \<open>motion_ctrl.c\<close> and those it sets up for the control cycle.\<close>

record motion = navi +
  mc_motors :: motors
  mc_unload :: unload
  mc_enc :: enc_state
  encoder_l :: nat
  encoder_r :: nat
  typeOfAction :: u32
  iPath :: u16
  vPath :: rat
  fCurVel :: rat
  fCurVelL :: rat
  fCurVelR :: rat
  fDiffVel :: rat
  sRemain :: rat
  ethCommBreakFlag :: u16
  angleRemain :: rat
  angleProcess :: rat
  AGV_Dir_Dest :: u16
  wCurrent :: rat
  wCycle :: rat
  turnWholeCycleCnt :: u16
  twoDAngleDest :: rat
  twoDAngleNew :: rat
  fTargetVel :: rat
  wTarget :: rat
  angleVDown :: rat
  mc_ext :: ext_angle
  mc_rot :: rotating

definition angleVDnRatio :: rat where "angleVDnRatio = fl32 0.12"

section \<open>Speed plans\<close>

definition VPlan :: "(rat \<Rightarrow> rat) \<Rightarrow> rat \<Rightarrow> rat \<Rightarrow> rat \<Rightarrow> rat \<Rightarrow> rat \<Rightarrow> 'a motion_scheme \<Rightarrow> 'a motion_scheme" where
  "VPlan sqrtd sTotal accUp accDown vCurrent VPath s =
     (let s10 = fdiv (fmul (fsub VPath vCurrent) (fsub VPath vCurrent)) (fmul 2 accUp);
          s11 = fdiv (fmul vCurrent (fsub VPath vCurrent)) accUp;
          s3 = fdiv (fmul VPath VPath) (fmul 2 accDown)
      in if sTotal > 0 then
           if fadd (fadd s10 s11) s3 < sTotal then s\<lparr>fTargetVel := VPath\<rparr>
           else s\<lparr>fTargetVel := fl32 (sqrtd (fdiv (fadd (fmul (fmul (fmul 2 sTotal) accUp) accDown)
                                                       (fmul (fmul accDown vCurrent) vCurrent)) (fadd accUp accDown)))\<rparr>
         else s)"

definition CyclePlan :: "(rat \<Rightarrow> rat) \<Rightarrow> rat \<Rightarrow> rat \<Rightarrow> rat \<Rightarrow> rat \<Rightarrow> rat \<Rightarrow> 'a motion_scheme \<Rightarrow> 'a motion_scheme" where
  "CyclePlan sqrtd Angle accUp accDn wCur wAngle s =
     (let angle_10 = fdiv (fmul (fsub wAngle wCur) (fsub wAngle wCur)) (fmul 2 accUp);
          angle_11 = fdiv (fmul wCur (fsub wAngle wCur)) accUp;
          angle_3 = fdiv (fmul wAngle wAngle) (fmul 2 accDn)
      in if fadd (fadd angle_10 angle_11) angle_3 < Angle then s\<lparr>wTarget := wAngle\<rparr>
         else s\<lparr>wTarget := fl32 (sqrtd (fdiv (fadd (fmul (fmul (fmul 2 Angle) accUp) accDn)
                                                  (fmul (fmul accDn wCur) wCur)) (fadd accUp accDn)))\<rparr>)"

definition ANGLE_TO_RADIAN :: "rat \<Rightarrow> rat" where
  "ANGLE_TO_RADIAN angle = ddiv (dmul angle PI) 180"

definition RotateInit :: "rat \<Rightarrow> rat \<Rightarrow> rat \<Rightarrow> rat \<Rightarrow> rotating \<Rightarrow> rotating" where
  "RotateInit pX0 pY0 pTheta0 pThetaEnd r =
     r\<lparr>PxDesired := 0, PyDesired := 0, PthetaDesired := fl32 (ANGLE_TO_RADIAN pThetaEnd),
       PxFreeze := pX0, PyFreeze := pY0, PthetaFreeze := fl32 (ANGLE_TO_RADIAN pTheta0)\<rparr>"

section \<open>Commands\<close>

text \<open>What every command that starts from rest does first.\<close>

definition start_wheels :: "int \<Rightarrow> int \<Rightarrow> 'a motion_scheme \<Rightarrow> 'a motion_scheme" where
  "start_wheels left right s =
     (let e1 = snd (clear_encoder (encoder_l s) (mc_enc s));
          e2 = snd (clear_encoder (encoder_r s) e1)
      in s\<lparr>mc_motors := motor_set_direction left right (mc_motors s), mc_enc := e2\<rparr>)"

text \<open>
  The path of a straight move: \<open>sPath\<close> is a \<open>Uint16\<close>, so the length is taken modulo \<open>2 ^ 16\<close>
  millimetres, and the conversion of the number of sections back to \<open>Uint16\<close> truncates.
\<close>

definition add_path :: "u32 \<Rightarrow> motion_state \<Rightarrow> bytes \<Rightarrow> 'a motion_scheme \<Rightarrow> 'a motion_scheme" where
  "add_path cmd style param s =
     (let sPath = (ucast (of_be32 param) :: u16)
      in s\<lparr>typeOfAction := cmd, Motionstyle := style,
           sRemain := fadd (sRemain s) (of_nat (unat sPath)),
           iPath := of_int (ftrunc (fadd (of_nat (unat (iPath s))) (fdiv (of_nat (unat sPath)) twoD_Distance))),
           vPath := fdiv (fl32 (of_nat (unat (of_be32 (drop 4 param))))) 10\<rparr>)"

text \<open>The plan of a turn by \<open>angle\<close> tenths of a degree.\<close>

definition plan_turn :: "(rat \<Rightarrow> rat) \<Rightarrow> rat \<Rightarrow> bytes \<Rightarrow> 'a motion_scheme \<Rightarrow> 'a motion_scheme" where
  "plan_turn sqrtd twoDDest param s =
     (let s1 = s\<lparr>angleProcess := 0,
                 wCycle := fdiv (of_nat (unat (of_be32 (drop 4 param) AND 0xFFFF))) 10\<rparr>;
          s2 = CyclePlan sqrtd (angleRemain s1) wAccUp wAccDn (wCurrent s1) (wCycle s1) s1
      in s2\<lparr>angleVDown := fadd (fdiv (fmul (fmul 0.5 (wTarget s2)) (wTarget s2)) wAccDn) (fmul angleVDnRatio (wTarget s2)),
            twoDAngleDest := twoDDest,
            mc_ext := ExtendAngleInit (twoDAngleConver s2),
            mc_rot := RotateInit (twoD_XP s2) (twoD_YP s2) (twoDAngleConver s2) twoDDest (mc_rot s2)\<rparr>)"

definition motionctrl_cmd :: "(rat \<Rightarrow> rat) \<Rightarrow> u32 \<Rightarrow> bytes \<Rightarrow> 'a motion_scheme \<Rightarrow> int \<times> 'a motion_scheme" where
  "motionctrl_cmd sqrtd cmd param s =
     (let dumperst = dumper_get_state (mc_motors s); angle = of_be32 param
      in if dumperst = DUMPER_STATE_MOVINGUP \<or> dumperst = DUMPER_STATE_TOP then (- perr_code EBUSY, s)
         else if cmd = ACTION_GOSTRAIGHT then
           if cmd = typeOfAction s \<or> cmd \<noteq> typeOfAction s \<and> Motionstyle s = MOTIONSTATE_ONSTOPING then
             (0, add_path cmd MOTIONSTATE_GOSTRAIGHT param
                   (if Motionstyle s = MOTIONSTATE_ONSTOPING then start_wheels MOVE_FOREWARD_L MOVE_FOREWARD_R s else s))
           else (- perr_code EBUSY, s)
         else if cmd = ACTION_GOBACKWARD then
           if Motionstyle s = MOTIONSTATE_ONSTOPING then
             (0, add_path cmd MOTIONSTATE_GOBACKWARD param (start_wheels MOVE_ROLLBACK_L MOVE_ROLLBACK_R s))
           else (- perr_code EBUSY, s)
         else if cmd = ACTION_UNLOAD then
           if Motionstyle s = MOTIONSTATE_ONSTOPING
           then (0, s\<lparr>mc_unload := (mc_unload s)\<lparr>nReverseFlag := True\<rparr>\<rparr>)
           else (- perr_code EBUSY, s)
         else if cmd = ACTION_TRUNLEFT then
           if Motionstyle s = MOTIONSTATE_ONSTOPING then
             let s1 = Get_TwoDDev ((start_wheels MOVE_ROLLBACK_L MOVE_FOREWARD_R s)
                        \<lparr>typeOfAction := cmd, Motionstyle := MOTIONSTATE_TRUNLEFT\<rparr>);
                 s2 = s1\<lparr>angleRemain := fsub (fdiv (fl32 (of_nat (unat angle))) 10) (GS_Angle s1),
                         AGV_Dir_Dest := ucast ((angle div 900 + ucast (AGV_Head_Dir s1)) mod 4),
                         turnWholeCycleCnt := ucast (angle div 3600)\<rparr>
             in (0, plan_turn sqrtd (fadd (twoDAngleConver s2) (angleRemain s2)) param s2)
           else (- perr_code EBUSY, s)
         else if cmd = ACTION_TRUNRIGHT then
           if Motionstyle s = MOTIONSTATE_ONSTOPING then
             let s1 = Get_TwoDDev ((start_wheels MOVE_FOREWARD_L MOVE_ROLLBACK_R s)
                        \<lparr>typeOfAction := cmd, Motionstyle := MOTIONSTATE_TRUNRIGHT\<rparr>);
                 s2 = s1\<lparr>angleRemain := fadd (fdiv (fl32 (of_nat (unat angle))) 10) (GS_Angle s1),
                         AGV_Dir_Dest := ucast ((4 + ucast (AGV_Head_Dir s1) - angle div 900) mod 4),
                         turnWholeCycleCnt := ucast (drop_bit 16 angle div 3600)\<rparr>
             in (0, plan_turn sqrtd (fsub (twoDAngleConver s2) (angleRemain s2)) param s2)
           else (- perr_code EBUSY, s)
         else if cmd = ACTION_CHARGE \<or> cmd = ACTION_STOP_CHARGE then (0, s\<lparr>typeOfAction := cmd\<rparr>)
         else (- perr_code ENOTSUP, s))"

text \<open>
  The reported state: the deviations are tenths of a millimetre converted to \<open>uint32_t\<close>;
  a negative one is taken modulo \<open>2 ^ 32\<close> (the conversion is undefined in C).
\<close>

definition f_to_u32 :: "rat \<Rightarrow> u32" where
  "f_to_u32 x = of_int (ftrunc x)"

definition get_motion_state :: "'a motion_scheme \<Rightarrow> motion_info" where
  "get_motion_state s =
     \<lparr>mi_point = twoD_TagCode s, mi_x_deviation = f_to_u32 (fmul (twoD_XP s) 10),
      mi_y_deviation = f_to_u32 (fmul (twoD_YP s) 10), mi_direction = ucast (AGV_Head_Dir s),
      mi_dir_deviation = f_to_u32 (GS_Angle s), mi_speed = f_to_u32 (fmul (fCurVel s) 10),
      mi_state = Motionstyle s, mi_action = typeOfAction s\<rparr>"

definition motionctrl_run :: "'a motion_scheme \<Rightarrow> 'a motion_scheme" where
  "motionctrl_run s =
     (case open_encoder 1 (mc_enc s) of
        (l, e1) \<Rightarrow> case open_encoder 2 e1 of
          (r, e2) \<Rightarrow> s\<lparr>mc_enc := e2, encoder_l := the l, encoder_r := the r\<rparr>)"

definition InitAgvHeadDir :: "'a motion_scheme \<Rightarrow> 'a motion_scheme" where
  "InitAgvHeadDir s = Get_TwoDDev (UpdateAgvHeadDirToNew (s\<lparr>NewTag := 0\<rparr>))"

section \<open>Properties\<close>

text \<open>A move is under way, or the loading area is up.\<close>

definition motion_busy :: "'a motion_scheme \<Rightarrow> bool" where
  "motion_busy s \<longleftrightarrow> Motionstyle s \<noteq> MOTIONSTATE_ONSTOPING \<or> unloading (mc_motors s)"

text \<open>
  C4: the motion controller never starts a movement over another one: while the vehicle
  moves or the loading area is up, every command to move, turn or unload is refused as
  busy and changes nothing, but one: going straight may be extended while it is the
  current action and the loading area is down, and then only adds to the path.
\<close>

theorem motion_cmd_exclusive:
  assumes "motion_busy s" "cmd \<in> {ACTION_GOSTRAIGHT, ACTION_GOBACKWARD, ACTION_UNLOAD, ACTION_TRUNLEFT, ACTION_TRUNRIGHT}"
    and "motionctrl_cmd sqrtd cmd param s = (r, s')"
  shows "(r = - perr_code EBUSY \<and> s' = s)
    \<or> (cmd = ACTION_GOSTRAIGHT \<and> typeOfAction s = ACTION_GOSTRAIGHT \<and> \<not> unloading (mc_motors s)
        \<and> r = 0 \<and> s' = add_path cmd MOTIONSTATE_GOSTRAIGHT param s \<and> mc_motors s' = mc_motors s)"
  using assms
  by (auto simp: motionctrl_cmd_def motion_busy_def unloading_def dumper_get_state_def add_path_def Let_def split: if_splits)

definition demo_motion :: motion where
  "demo_motion = navi.extend demo_navi
     \<lparr>mc_motors = demo_motors, mc_unload = demo_unload, mc_enc = demo_enc, encoder_l = 0, encoder_r = 1,
      typeOfAction = ACTION_STOP, iPath = 0, vPath = 0, fCurVel = 0, fCurVelL = 0, fCurVelR = 0, fDiffVel = 0, sRemain = 0,
      ethCommBreakFlag = 0, angleRemain = 0, angleProcess = 0, AGV_Dir_Dest = 0, wCurrent = 0, wCycle = 0,
      turnWholeCycleCnt = 0, twoDAngleDest = 0, twoDAngleNew = 0, fTargetVel = 0, wTarget = 0, angleVDown = 0,
      mc_ext = ExtendAngleInit 0, mc_rot = \<lparr>PxDesired = 0, PyDesired = 0, PthetaDesired = 0, PxFreeze = 0, PyFreeze = 0,
        PthetaFreeze = 0, para_a = 0, para_b = 0\<rparr>\<rparr>"

theorem motion_cmd_exclusive_witness:
  "fst (motionctrl_cmd (\<lambda>x. x) ACTION_TRUNLEFT [0, 0, 3, 132, 0, 0, 0, 100] demo_motion) = - perr_code EBUSY"
proof -
  obtain r s' where r: "motionctrl_cmd (\<lambda>x. x) ACTION_TRUNLEFT [0, 0, 3, 132, 0, 0, 0, 100] demo_motion = (r, s')" by fastforce
  have "motion_busy demo_motion"
    by (simp add: motion_busy_def demo_motion_def demo_navi_def demo_nav_def nav.defs navi.defs motion.defs)
  from motion_cmd_exclusive [OF this _ r] show ?thesis using r by simp
qed

text \<open>
  the motion controller knows no stop: whatever the vehicle is doing, the command is
  refused and everything stays as it was, so the vehicle runs on.
\<close>

theorem stop_not_supported:
  "motionctrl_cmd sqrtd ACTION_STOP param s
    = ((if unloading (mc_motors s) then - perr_code EBUSY else - perr_code ENOTSUP), s)"
  by (simp add: motionctrl_cmd_def Let_def unloading_def dumper_get_state_def)

lemma AGV_Dir_Dest_plan [simp]:
  "AGV_Dir_Dest (plan_turn f d p s) = AGV_Dir_Dest s" "turnWholeCycleCnt (plan_turn f d p s) = turnWholeCycleCnt s"
  by (simp_all add: plan_turn_def CyclePlan_def Let_def)

lemma AGV_Head_Dir_dev [simp]: "AGV_Head_Dir (Get_TwoDDev s) = AGV_Head_Dir s"
  by (simp add: Get_TwoDDev_def)

lemma start_wheels_head [simp]: "AGV_Head_Dir (start_wheels l r s) = AGV_Head_Dir s"
  by (simp add: start_wheels_def Let_def)

text \<open>
  C34: a turn by \<open>n\<close> quarters that is accepted aims at the right heading: a left turn at \<open>n\<close>
  quarters further in the order of the headings, a right turn at as many back, whatever the
  heading is; and a full turn to the left is remembered as one whole cycle, a full turn to
  the right is not, so that it counts as already done.
\<close>

theorem turn_heading:
  assumes "\<not> motion_busy s" "AGV_Head_Dir s < 4" "n \<le> 4" "of_be32 param = of_nat (900 * n)"
    and "motionctrl_cmd sqrtd ACTION_TRUNLEFT param s = (r, sl)"
    and "motionctrl_cmd sqrtd ACTION_TRUNRIGHT param s = (r', sr)"
  shows "r = 0 \<and> r' = 0
    \<and> unat (AGV_Dir_Dest sl) = (unat (AGV_Head_Dir s) + n) mod 4
    \<and> (unat (AGV_Dir_Dest sr) + n) mod 4 = unat (AGV_Head_Dir s)
    \<and> (n = 4 \<longrightarrow> turnWholeCycleCnt sl = 1 \<and> turnWholeCycleCnt sr = 0)"
proof -
  have "unat (AGV_Head_Dir s) < 4" using assms(2) by (simp add: word_less_nat_alt)
  then have "unat (AGV_Head_Dir s) \<in> {0, 1, 2, 3}" by auto
  then have h: "AGV_Head_Dir s \<in> of_nat ` {0, 1, 2, 3}" by (rule image_eqI [rotated]) simp
  have n: "n \<in> {0, 1, 2, 3, 4}" using assms(3) by auto
  have busy: "Motionstyle s = MOTIONSTATE_ONSTOPING" "\<not> unloading (mc_motors s)" using assms(1) by (auto simp: motion_busy_def)
  have d: "r = 0 \<and> r' = 0" "AGV_Dir_Dest sl = ucast ((of_be32 param div 900 + ucast (AGV_Head_Dir s)) mod 4)"
    "AGV_Dir_Dest sr = ucast ((4 + ucast (AGV_Head_Dir s) - of_be32 param div 900) mod 4)"
    "turnWholeCycleCnt sl = ucast (of_be32 param div 3600)" "turnWholeCycleCnt sr = ucast (drop_bit 16 (of_be32 param) div 3600)"
    using assms(5,6) busy by (auto simp: motionctrl_cmd_def unloading_def dumper_get_state_def Let_def)
  have b: "of_be32 param = of_nat (900 * n)" by (rule assms(4))
  show ?thesis unfolding d(2-5) b using d(1) h n by auto
qed

theorem turn_heading_witness:
  "AGV_Dir_Dest (snd (motionctrl_cmd (\<lambda>x. x) ACTION_TRUNLEFT [0, 0, 7, 8, 0, 0, 0, 100] (demo_motion\<lparr>Motionstyle := MOTIONSTATE_ONSTOPING\<rparr>))) = 2"
proof -
  let ?s = "demo_motion\<lparr>Motionstyle := MOTIONSTATE_ONSTOPING\<rparr>" and ?p = "[0, 0, 7, 8, 0, 0, 0, 100] :: bytes"
  obtain r sl where l: "motionctrl_cmd (\<lambda>x. x) ACTION_TRUNLEFT ?p ?s = (r, sl)" by fastforce
  obtain r' sr where r: "motionctrl_cmd (\<lambda>x. x) ACTION_TRUNRIGHT ?p ?s = (r', sr)" by fastforce
  have "\<not> motion_busy ?s" "AGV_Head_Dir ?s = 0" "of_be32 ?p = of_nat (900 * 2)"
    by (simp_all add: motion_busy_def unloading_def demo_motors_def demo_motion_def demo_navi_def demo_nav_def
        nav.defs navi.defs motion.defs word_of_def)
  then have "unat (AGV_Dir_Dest sl) = 2" using turn_heading [OF _ _ _ _ l r, of 2] by simp
  moreover have "of_nat (unat (AGV_Dir_Dest sl)) = AGV_Dir_Dest sl" by simp
  ultimately show ?thesis using l by simp
qed

end
