(* ===== verification/Bms.thy ===== *)
theory Bms
  imports Can_Rx Tools Float_Facts Agv_Types
begin

text \<open>
  The battery management (\<open>usr/application/bms.c\<close>): the frames of the battery, the query it
  answers to, and the supervision of the link. \<open>evt\<close> stands for
  \<open>motionctrl_event_callback\<close>, which changes the rest of the system, of type \<open>'w\<close>; the
  time of each reading of the clock is an argument. A tick is a millisecond.
\<close>

section \<open>State and operations\<close>

abbreviation (input) MS_TO_TICKS :: "u32 \<Rightarrow> u32" where "MS_TO_TICKS ms \<equiv> ms * 1000 div 1000"

record battery_info =
  bat_state :: int
  voltage :: rat
  current :: rat
  power :: u8
  temperature :: rat

text \<open>\<open>bms_error\<close> has one bit in use.\<close>

abbreviation (input) BMSERR_POWER_UPDATE_OUTOFTM :: u32 where "BMSERR_POWER_UPDATE_OUTOFTM \<equiv> 2"

record bms =
  s_battery_info :: battery_info
  bms_can_user :: nat
  power_update_time :: u32
  power_query_time :: u32
  bms_error :: u32
  charge_output :: bool
  bms_sent :: "can_msg list"

definition bms_init :: "nat \<Rightarrow> bms \<Rightarrow> bms" where
  "bms_init user s =
     s\<lparr>s_battery_info := \<lparr>bat_state = 0, voltage = 0, current = 0, power = 0, temperature = 0\<rparr>,
       bms_can_user := user\<rparr>"

definition bms_run :: "u32 \<Rightarrow> bool \<Rightarrow> bms \<Rightarrow> (perr + unit) \<times> bms" where
  "bms_run now task_ok s =
     (let s1 = s\<lparr>power_update_time := now\<rparr> in if task_ok then (Inr (), s1) else (Inl ENOMEM, s1))"

definition bms_get_battery_info :: "bms \<Rightarrow> battery_info" where
  "bms_get_battery_info s = s_battery_info s"

definition bms_can_msg_process ::
  "(u32 \<Rightarrow> bytes \<Rightarrow> 'w \<Rightarrow> 'w) \<Rightarrow> u32 \<Rightarrow> can_rx_msg \<Rightarrow> bms \<times> 'w \<Rightarrow> int \<times> bms \<times> 'w" where
  "bms_can_msg_process evt now msg sw =
     (case sw of
        (s, w) \<Rightarrow>
          if IDE msg \<noteq> 0 \<or> RTR msg \<noteq> 0 \<or> StdId msg \<noteq> 0x10 then (- perr_code ENOTSUP, s, w)
          else
            let s1 = s\<lparr>power_update_time := now\<rparr>;
                (s2, w2) = (if bms_error s1 AND BMSERR_POWER_UPDATE_OUTOFTM \<noteq> 0
                            then (s1\<lparr>bms_error := bms_error s1 AND NOT BMSERR_POWER_UPDATE_OUTOFTM\<rparr>,
                                  evt EVENT_ERROR_RECOVERY [ucast BMS_COM_OUTOFTM] w)
                            else (s1, w));
                d = (\<lambda>i. Data msg ! i);
                tmp1 = push_bit 8 (ucast (d 0)) OR ucast (d 1) :: u16;
                tmp2 = push_bit 8 (ucast (d 2)) OR ucast (d 3) :: u16;
                info = \<lparr>bat_state = int (unat (d 6)),
                        voltage = fl32 (ddiv (of_nat (unat tmp1)) 10),
                        current = fl32 (ddiv (of_nat (unat tmp2)) 10),
                        power = d 4,
                        temperature = fl32 (of_int (int (unat (d 5)) - 40))\<rparr>
            in (0, s2\<lparr>s_battery_info := info\<rparr>, w2))"

text \<open>\<open>ext\<close> is what is in the uninitialised extended identifier of the frame.\<close>

definition bms_query_frame :: "u32 \<Rightarrow> can_msg" where
  "bms_query_frame ext =
     \<lparr>StdId = 0x16, ExtId = ext, IDE = 0, RTR = 0, DLC = 8, Data = [0x16, 0xBB, 0, 0, 0, 0, 0, 0x7E]\<rparr>"

definition query_battery_info_tmrcb ::
  "(u32 \<Rightarrow> bytes \<Rightarrow> 'w \<Rightarrow> 'w) \<Rightarrow> u32 \<Rightarrow> u32 \<Rightarrow> u32 \<Rightarrow> bms \<times> 'w \<Rightarrow> bms \<times> 'w" where
  "query_battery_info_tmrcb evt now now2 ext sw =
     (case sw of
        (s, w) \<Rightarrow>
          let (s1, w1) =
            (if bms_error s AND BMSERR_POWER_UPDATE_OUTOFTM = 0
                \<and> TIME_DIFFERENCE now (power_update_time s) > MS_TO_TICKS (30 * 1000)
             then (s\<lparr>bms_error := bms_error s OR BMSERR_POWER_UPDATE_OUTOFTM\<rparr>,
                   evt EVENT_ERROR [ucast BMS_COM_OUTOFTM] w)
             else (s, w))
          in (s1\<lparr>bms_sent := bms_sent s1 @ [bms_query_frame ext], power_query_time := now2\<rparr>, w1))"

definition bms_query :: "(u32 \<Rightarrow> bytes \<Rightarrow> 'w \<Rightarrow> 'w) \<Rightarrow> u32 \<Rightarrow> u32 \<Rightarrow> u32 \<Rightarrow> bms \<times> 'w \<Rightarrow> bms \<times> 'w" where
  "bms_query = query_battery_info_tmrcb"

text \<open>Charging switches the output (0 is on) and queries the battery.\<close>

definition bms_charge ::
  "(u32 \<Rightarrow> bytes \<Rightarrow> 'w \<Rightarrow> 'w) \<Rightarrow> u32 \<Rightarrow> u32 \<Rightarrow> u32 \<Rightarrow> bool \<Rightarrow> bms \<times> 'w \<Rightarrow> bms \<times> 'w" where
  "bms_charge evt now now2 ext on sw =
     (case sw of (s, w) \<Rightarrow> query_battery_info_tmrcb evt now now2 ext (s\<lparr>charge_output := on\<rparr>, w))"

section \<open>The supervision of the link\<close>

datatype bms_op = BmsFrame u32 can_rx_msg | BmsQuery u32 u32 u32

primrec bms_run_ops :: "(u32 \<Rightarrow> bytes \<Rightarrow> 'w \<Rightarrow> 'w) \<Rightarrow> bms_op list \<Rightarrow> bms \<times> 'w \<Rightarrow> bms \<times> 'w" where
  "bms_run_ops evt [] sw = sw"
| "bms_run_ops evt (p # ps) sw =
     bms_run_ops evt ps
       (case p of
          BmsFrame now msg \<Rightarrow> snd (bms_can_msg_process evt now msg sw)
        | BmsQuery now now2 ext \<Rightarrow> query_battery_info_tmrcb evt now now2 ext sw)"

text \<open>The events as they are raised; the link is lost while the bit is set.\<close>

definition log_evt :: "u32 \<Rightarrow> bytes \<Rightarrow> (u32 \<times> bytes) list \<Rightarrow> (u32 \<times> bytes) list" where
  "log_evt e ps w = w @ [(e, ps)]"

definition bms_lost :: "bms \<Rightarrow> bool" where
  "bms_lost s \<longleftrightarrow> bms_error s = 2"

definition bms_ok :: "bms \<Rightarrow> bool" where
  "bms_ok s \<longleftrightarrow> bms_error s = 0 \<or> bms_error s = 2"

text \<open>Alternating error and recovery, the first one depending on whether the link is lost before it.\<close>

fun bms_alternate :: "bool \<Rightarrow> (u32 \<times> bytes) list \<Rightarrow> bool \<Rightarrow> bool" where
  "bms_alternate lost [] lost' \<longleftrightarrow> lost = lost'"
| "bms_alternate lost (e # es) lost' \<longleftrightarrow>
     e = (if lost then EVENT_ERROR_RECOVERY else EVENT_ERROR, [7]) \<and> bms_alternate (\<not> lost) es lost'"

lemma bms_alternate_append:
  "bms_alternate a es b \<Longrightarrow> bms_alternate b fs c \<Longrightarrow> bms_alternate a (es @ fs) c"
  by (induction a es b rule: bms_alternate.induct) auto

lemma bms_step:
  assumes "bms_ok s"
    and "(s', w') = (case p of BmsFrame now msg \<Rightarrow> snd (bms_can_msg_process log_evt now msg (s, w))
        | BmsQuery now now2 ext \<Rightarrow> query_battery_info_tmrcb log_evt now now2 ext (s, w))"
  shows "\<exists>es. w' = w @ es \<and> bms_alternate (bms_lost s) es (bms_lost s') \<and> bms_ok s'"
proof (cases p)
  case (BmsFrame now msg)
  have "(NOT 2 AND 2 :: u32) = 0" by simp
  then show ?thesis using assms BmsFrame
    by (auto simp: bms_can_msg_process_def Let_def bms_ok_def bms_lost_def log_evt_def split: if_splits prod.splits)
next
  case (BmsQuery now now2 ext)
  then show ?thesis using assms
    by (auto simp: query_battery_info_tmrcb_def Let_def bms_ok_def bms_lost_def log_evt_def split: if_splits)
qed

section \<open>Properties\<close>

text \<open>
  the supervision reports each outage once: over any sequence of frames and queries the
  events raised are alternately the error and its recovery, starting with the one that fits
  the state, whatever the clock does; and a query more than 30 seconds after the last frame,
  across the wrap-around of the clock too, raises the error if it is not pending.
\<close>

theorem bms_link_events:
  assumes "bms_ok s" "bms_run_ops log_evt ps (s, w) = (s', w')"
  shows "(\<exists>es. w' = w @ es \<and> bms_alternate (bms_lost s) es (bms_lost s')) \<and> bms_ok s'
    \<and> (30000 < TIME_DIFFERENCE now (power_update_time s') \<longrightarrow>
         bms_lost (fst (query_battery_info_tmrcb log_evt now now2 ext (s', w'))))"
proof -
  have "(\<exists>es. w' = w @ es \<and> bms_alternate (bms_lost s) es (bms_lost s')) \<and> bms_ok s'"
    using assms
  proof (induction ps arbitrary: s w)
    case Nil
    then show ?case by simp
  next
    case (Cons p ps)
    obtain s1 w1 where s1: "(s1, w1) = (case p of BmsFrame now msg \<Rightarrow> snd (bms_can_msg_process log_evt now msg (s, w))
        | BmsQuery now now2 ext \<Rightarrow> query_battery_info_tmrcb log_evt now now2 ext (s, w))"
      by (metis prod.exhaust)
    obtain es where es: "w1 = w @ es" "bms_alternate (bms_lost s) es (bms_lost s1)" "bms_ok s1"
      using bms_step [OF Cons.prems(1) s1] by blast
    have "bms_run_ops log_evt ps (s1, w1) = (s', w')" using Cons.prems(2) by (simp flip: s1)
    from Cons.IH [OF es(3) this] obtain fs where "w' = w1 @ fs" "bms_alternate (bms_lost s1) fs (bms_lost s')" "bms_ok s'"
      by blast
    with es bms_alternate_append [OF es(2)] show ?case by auto
  qed
  moreover have "bms_lost (fst (query_battery_info_tmrcb log_evt now now2 ext (s', w')))"
    if "bms_ok s'" "30000 < TIME_DIFFERENCE now (power_update_time s')"
    using that by (auto simp: query_battery_info_tmrcb_def Let_def bms_ok_def bms_lost_def)
  ultimately show ?thesis by blast
qed

definition demo_bms :: bms where
  "demo_bms = bms_init 1000 \<lparr>s_battery_info = \<lparr>bat_state = 0, voltage = 0, current = 0, power = 0, temperature = 0\<rparr>,
     bms_can_user = 0, power_update_time = 0xFFFFFF00, power_query_time = 0, bms_error = 0, charge_output = False, bms_sent = []\<rparr>"

theorem bms_link_events_witness:
  "\<exists>s' w' es. bms_run_ops log_evt [BmsQuery 5 5 0, BmsQuery 31000 31000 0] (demo_bms, []) = (s', w')
    \<and> w' = [] @ es \<and> bms_alternate False es (bms_lost s')"
proof -
  have ok: "bms_ok demo_bms" "\<not> bms_lost demo_bms" by (simp_all add: bms_ok_def bms_lost_def demo_bms_def bms_init_def)
  obtain s' w' where r: "bms_run_ops log_evt [BmsQuery 5 5 0, BmsQuery 31000 31000 0] (demo_bms, []) = (s', w')"
    by (cases "bms_run_ops log_evt [BmsQuery 5 5 0, BmsQuery 31000 31000 0] (demo_bms, [])")
  show ?thesis using bms_link_events [OF ok(1) r] ok(2) r by auto
qed

end
