(* ===== verification/Sliding_Filter.thy ===== *)
theory Sliding_Filter
  imports Float_Facts
begin

text \<open>
  The moving average that corrects the calibration (\<open>usr/common/sliding_filter.c\<close>): the
  window is a buffer that is shifted by one when it is full, the output the mean of the
  values in it, accumulated in \<open>double\<close> and returned as \<open>float\<close>.
\<close>

record sliding_filter =
  sf_size :: nat
  sf_cnt :: nat
  sf_buffer :: "rat list"

definition sliding_filter_init :: "sliding_filter \<Rightarrow> rat list \<Rightarrow> sliding_filter" where
  "sliding_filter_init f buffer =
     f\<lparr>sf_cnt := 0, sf_buffer := replicate (sf_size f) 0 @ drop (sf_size f) buffer\<rparr>"

text \<open>The loop that shifts the window: \<open>buffer[i] = buffer[i + 1]\<close> for the indices given.\<close>

primrec shift_window :: "nat list \<Rightarrow> rat list \<Rightarrow> rat list" where
  "shift_window [] b = b"
| "shift_window (i # is) b = shift_window is (b[i := b ! (i + 1)])"

definition sliding_filter_input :: "rat \<Rightarrow> sliding_filter \<Rightarrow> sliding_filter" where
  "sliding_filter_input x f =
     (let f1 = (if sf_cnt f = sf_size f
                then f\<lparr>sf_buffer := shift_window [0..<sf_cnt f - 1] (sf_buffer f), sf_cnt := sf_cnt f - 1\<rparr>
                else f)
      in f1\<lparr>sf_buffer := (sf_buffer f1)[sf_cnt f1 := x], sf_cnt := sf_cnt f1 + 1\<rparr>)"

definition sliding_filter_output :: "sliding_filter \<Rightarrow> rat" where
  "sliding_filter_output f =
     fl32 (fold (\<lambda>x tmp. dadd tmp (ddiv x (of_nat (sf_cnt f)))) (take (sf_cnt f) (sf_buffer f)) 0)"

section \<open>The window\<close>

definition sf_ok :: "sliding_filter \<Rightarrow> bool" where
  "sf_ok f \<longleftrightarrow> length (sf_buffer f) = sf_size f \<and> sf_cnt f \<le> sf_size f \<and> 0 < sf_size f"

definition window :: "sliding_filter \<Rightarrow> rat list" where
  "window f = take (sf_cnt f) (sf_buffer f)"

lemma length_shift_window [simp]: "length (shift_window is b) = length b"
  by (induction "is" arbitrary: b) simp_all

lemma shift_window_nth:
  "k < length b \<Longrightarrow> i < length b \<Longrightarrow>
     shift_window [j..<k] b ! i = (if j \<le> i \<and> i < k then b ! Suc i else b ! i)"
proof (induction "k - j" arbitrary: j b)
  case 0
  then show ?case by simp
next
  case (Suc n)
  then have jk: "j < k" by simp
  then have "shift_window [j..<k] b ! i = shift_window [Suc j..<k] (b[j := b ! (j + 1)]) ! i"
    by (simp add: upt_conv_Cons)
  also have "\<dots> = (if Suc j \<le> i \<and> i < k then b[j := b ! (j + 1)] ! Suc i else b[j := b ! (j + 1)] ! i)"
    using Suc by simp
  also have "\<dots> = (if j \<le> i \<and> i < k then b ! Suc i else b ! i)"
    using jk Suc.prems by (auto simp: nth_list_update)
  finally show ?case .
qed

lemma shift_window_tl: "b \<noteq> [] \<Longrightarrow> shift_window [0..<length b - 1] b = tl b @ [last b]"
  by (rule nth_equalityI) (auto simp: shift_window_nth nth_append nth_tl last_conv_nth, metis Suc_pred length_greater_0_conv less_antisym)

lemma window_input:
  assumes "sf_ok f"
  shows "sf_ok (sliding_filter_input x f)"
    and "window (sliding_filter_input x f) = (if sf_cnt f = sf_size f then tl (window f) else window f) @ [x]"
proof -
  have l: "length (sf_buffer f) = sf_size f" "sf_cnt f \<le> sf_size f" "0 < sf_size f" "sf_buffer f \<noteq> []"
    using assms by (auto simp: sf_ok_def)
  have sh: "shift_window [0..<sf_size f - 1] (sf_buffer f) = tl (sf_buffer f) @ [last (sf_buffer f)]"
    using shift_window_tl [OF l(4)] l(1) by simp
  have up: "(tl b @ [y])[length b - 1 := x] = tl b @ [x]" for b :: "rat list" and y
    by (simp add: list_update_append)
  show "sf_ok (sliding_filter_input x f)"
    using l by (auto simp: sliding_filter_input_def sf_ok_def Let_def)
  show "window (sliding_filter_input x f) = (if sf_cnt f = sf_size f then tl (window f) else window f) @ [x]"
  proof (cases "sf_cnt f = sf_size f")
    case True
    then show ?thesis using l sh up [of "sf_buffer f" "last (sf_buffer f)"]
      by (simp add: sliding_filter_input_def window_def Let_def)
  next
    case False
    then show ?thesis using l
      by (simp add: sliding_filter_input_def window_def Let_def take_Suc_conv_app_nth)
  qed
qed

lemma window_init: "0 < sf_size f \<Longrightarrow> length buffer = sf_size f \<Longrightarrow>
    sf_ok (sliding_filter_init f buffer) \<and> window (sliding_filter_init f buffer) = []"
  by (simp add: sliding_filter_init_def sf_ok_def window_def)

definition keep_last :: "nat \<Rightarrow> 'a list \<Rightarrow> 'a list" where
  "keep_last n xs = drop (length xs - n) xs"

lemma sliding_filter_inputs:
  assumes "sf_ok f" "window f = keep_last (sf_size f) ys"
  shows "sf_ok (fold sliding_filter_input xs f)
    \<and> window (fold sliding_filter_input xs f) = keep_last (sf_size f) (ys @ xs)"
  using assms
proof (induction xs arbitrary: f ys)
  case Nil
  then show ?case by simp
next
  case (Cons x xs)
  have c: "sf_cnt f = length (window f)" using Cons.prems(1) by (simp add: sf_ok_def window_def)
  have s: "sf_size (sliding_filter_input x f) = sf_size f" by (simp add: sliding_filter_input_def Let_def)
  have "0 < sf_size f" using Cons.prems(1) by (simp add: sf_ok_def)
  then have "window (sliding_filter_input x f) = keep_last (sf_size f) (ys @ [x])"
    using window_input(2) [OF Cons.prems(1), of x] Cons.prems(2) c
    by (auto simp: keep_last_def Suc_diff_le tl_drop drop_Suc)
  then show ?case
    using Cons.IH [of "sliding_filter_input x f" "ys @ [x]"] window_input(1) [OF Cons.prems(1)] s by simp
qed

text \<open>The accumulation: each term costs at most \<open>2 ^ (- 46)\<close>.\<close>

lemma mean_fold:
  assumes "\<forall>x \<in> set xs. \<bar>x\<bar> \<le> 32" "1 \<le> n" "n \<le> 1000" "k + length xs \<le> n"
    and "\<bar>tmp - s\<bar> \<le> of_nat k / 2 ^ 46" "\<bar>s\<bar> \<le> 32 * of_nat k / of_nat n"
  shows "\<bar>fold (\<lambda>x tmp. dadd tmp (ddiv x (of_nat n))) xs tmp - (s + sum_list xs / of_nat n)\<bar>
    \<le> of_nat (k + length xs) / 2 ^ 46"
  using assms
proof (induction xs arbitrary: k tmp s)
  case Nil
  then show ?case by simp
next
  case (Cons x xs)
  let ?n = "of_nat n :: rat" and ?k = "of_nat k :: rat"
  have "of_nat 1 \<le> ?n" "?n \<le> of_nat 1000" "of_nat (k + 1) \<le> ?n"
    using Cons.prems(2-4) by (simp_all only: of_nat_le_iff) simp
  then have n: "1 \<le> ?n" "?n \<le> 1000" "?k + 1 \<le> ?n" by (simp_all add: add.commute)
  have x: "\<bar>x / ?n\<bar> \<le> 32 / ?n" using Cons.prems(1) n(1) by (simp add: divide_right_mono)
  moreover have "32 / ?n \<le> 32" using n(1) by (simp add: divide_le_eq)
  ultimately have x1: "\<bar>x / ?n\<bar> \<le> 32" by linarith
  have d: "\<bar>ddiv x ?n - x / ?n\<bar> \<le> 1 / 2 ^ 48"
    using fl64_error [of "x / ?n" 6] x1 by (simp add: ddiv_def pow2_def)
  have "32 * ?k / ?n \<le> 32" using n by (simp add: divide_le_eq)
  then have s: "\<bar>s\<bar> \<le> 32" using Cons.prems(6) by linarith
  have "?k / 2 ^ 46 \<le> 1" using n by simp
  then have ts: "\<bar>tmp - s\<bar> \<le> 1" using Cons.prems(5) by linarith
  have "(1::rat) / 2 ^ 48 \<le> 1" by simp
  then have dn: "\<bar>ddiv x ?n - x / ?n\<bar> \<le> 1" using d by linarith
  have "\<bar>tmp + ddiv x ?n\<bar> < 128" using ts s dn x1 by linarith
  then have "\<bar>tmp + ddiv x ?n\<bar> < 2 ^ 7" by simp
  then have a: "\<bar>dadd tmp (ddiv x ?n) - (tmp + ddiv x ?n)\<bar> \<le> 1 / 2 ^ 47"
    using fl64_error [of "tmp + ddiv x ?n" 7] by (simp add: dadd_def pow2_def)
  have "\<bar>dadd tmp (ddiv x ?n) - (s + x / ?n)\<bar> \<le> ?k / 2 ^ 46 + 1 / 2 ^ 46"
  proof -
    have "(1::rat) / 2 ^ 47 + 1 / 2 ^ 48 \<le> 1 / 2 ^ 46" by simp
    then show ?thesis using a d Cons.prems(5) by linarith
  qed
  then have t: "\<bar>dadd tmp (ddiv x ?n) - (s + x / ?n)\<bar> \<le> of_nat (Suc k) / 2 ^ 46" by (simp add: add_divide_distrib)
  have "\<bar>s + x / ?n\<bar> \<le> 32 * ?k / ?n + 32 / ?n" using Cons.prems(6) x by linarith
  then have b: "\<bar>s + x / ?n\<bar> \<le> 32 * of_nat (Suc k) / ?n" by (simp add: add_divide_distrib)
  show ?case
    using Cons.IH [OF _ Cons.prems(2,3) _ t b] Cons.prems(1,4) by (simp add: add_divide_distrib add.assoc)
qed

lemma sum_list_abs_bound: "\<forall>x \<in> set xs. \<bar>x\<bar> \<le> (c::rat) \<Longrightarrow> \<bar>sum_list xs\<bar> \<le> c * of_nat (length xs)"
  by (induction xs) (auto simp: algebra_simps intro: order_trans [OF abs_triangle_ineq] add_mono)

section \<open>Properties\<close>

text \<open>
  the filter is the mean of the last values: after any inputs of at most 32 in absolute
  value, the window holds the last eight of them in order (all of them as long as there are
  fewer), and the output is their mean up to a hundred-thousandth.
\<close>

theorem sliding_filter_mean:
  assumes "sf_ok f" "window f = []" "sf_size f = 8" "xs \<noteq> []" "\<forall>x \<in> set xs. \<bar>x\<bar> \<le> 32"
  shows "window (fold sliding_filter_input xs f) = keep_last 8 xs
    \<and> \<bar>sliding_filter_output (fold sliding_filter_input xs f)
        - sum_list (keep_last 8 xs) / of_nat (length (keep_last 8 xs))\<bar> \<le> 1 / 100000"
proof -
  let ?f = "fold sliding_filter_input xs f" and ?w = "keep_last 8 xs"
  have w: "sf_ok ?f" "window ?f = ?w"
    using sliding_filter_inputs [of f "[]" xs] assms(1-3) by (simp_all add: keep_last_def)
  then have c: "sf_cnt ?f = length ?w" by (metis window_def sf_ok_def length_take min_absorb2)
  have l: "1 \<le> length ?w" "length ?w \<le> 8" using assms(4) by (cases xs; simp add: keep_last_def)+
  have b: "\<forall>x \<in> set ?w. \<bar>x\<bar> \<le> 32" using assms(5) by (auto simp: keep_last_def dest: in_set_dropD)
  let ?n = "of_nat (length ?w) :: rat"
  define m where "m = sum_list ?w / ?n"
  define t where "t = fold (\<lambda>x tmp. dadd tmp (ddiv x ?n)) ?w 0"
  have "\<bar>t - (0 + m)\<bar> \<le> of_nat (0 + length ?w) / 2 ^ 46"
    unfolding m_def t_def using mean_fold [OF b l(1), of 0 0 0] l(2) by simp
  moreover have "?n \<le> of_nat 8" using l(2) by (simp only: of_nat_le_iff)
  ultimately have t: "\<bar>t - m\<bar> \<le> 8 / 2 ^ 46" by simp
  have "\<bar>m\<bar> \<le> (32 * ?n) / ?n" unfolding m_def abs_divide abs_of_nat using sum_list_abs_bound [OF b]
    by (intro divide_right_mono) simp_all
  moreover have "0 < ?n" using l(1) by linarith
  ultimately have m: "\<bar>m\<bar> \<le> 32" by simp
  moreover have "(8::rat) / 2 ^ 46 \<le> 1" by simp
  ultimately have "\<bar>t\<bar> < 64" using t by linarith
  then have "\<bar>t\<bar> < 2 ^ 6" by simp
  then have "\<bar>fl32 t - t\<bar> \<le> 1 / 2 ^ 19" using fl32_error [of t 6] by (simp add: pow2_def)
  moreover have "(8::rat) / 2 ^ 46 + 1 / 2 ^ 19 \<le> 1 / 100000" by simp
  ultimately have "\<bar>fl32 t - m\<bar> \<le> 1 / 100000" using t by linarith
  then show ?thesis using w c unfolding sliding_filter_output_def m_def t_def by (simp add: window_def)
qed

definition demo_filter :: sliding_filter where
  "demo_filter = sliding_filter_init \<lparr>sf_size = 8, sf_cnt = 0, sf_buffer = []\<rparr> (replicate 8 0)"

theorem sliding_filter_mean_witness:
  "\<bar>sliding_filter_output (fold sliding_filter_input [20, 1, 2, 3, 4, 5, 6, 7, 8] demo_filter) - 36 / 8\<bar> \<le> 1 / 100000"
  using sliding_filter_mean [of demo_filter "[20, 1, 2, 3, 4, 5, 6, 7, 8]"]
    window_init [of "\<lparr>sf_size = 8, sf_cnt = 0, sf_buffer = []\<rparr>" "replicate 8 0"]
  by (simp add: demo_filter_def keep_last_def sliding_filter_init_def)

end
