(* ===== verification/Agv.thy ===== *)
theory Agv
  imports Motion_Cmd Bms Sliding_Filter Os_Mem
begin

text \<open>
  The vehicle's coordinator (\<open>usr/application/agv.c\<close>): events of the motion controller go
  through a queue of blocks to the task \<open>agv\<close>, which issues the next buffered command and
  keeps the work state; commands of the server are executed at once or buffered; the tags
  of the route are locked in a queue and checked at each arrival. All of it works on one
  state, which extends that of the motion controller. \<open>agv_env\<close> holds what a call takes
  from outside: the square root, two readings of the clock and the uninitialised word of a
  battery query. A read outside the parameters or a write outside the pool is \<open>Fault\<close>; the
  restart of the processor is a call that does not return.
\<close>

section \<open>State\<close>

record agv_world = motion +
  agvstat :: agv_status
  agv_bms :: bms
  dety_filter :: sliding_filter
  mtevtQ :: "nat os_q"
  evtmem :: os_mem
  mtcmdQ :: "nat os_q"
  cmdmem :: os_mem
  wpQ :: "u32 os_q"
  evt_seq :: u32
  task_seq :: u32
  last_ponit :: u32

type_synonym agv_env = "(rat \<Rightarrow> rat) \<times> u32 \<times> u32 \<times> u32"

abbreviation (input) MAX_MOTION_EVENT_NUM :: nat where "MAX_MOTION_EVENT_NUM \<equiv> 16"
abbreviation (input) MAX_MOTION_EVENT_LEN :: nat where "MAX_MOTION_EVENT_LEN \<equiv> 32"
abbreviation (input) MAX_MOTION_CMD_NUM :: nat where "MAX_MOTION_CMD_NUM \<equiv> 8"
abbreviation (input) MAX_MOTION_CMD_LEN :: nat where "MAX_MOTION_CMD_LEN \<equiv> 512"
abbreviation (input) MAX_WAYPOINT_NUM :: nat where "MAX_WAYPOINT_NUM \<equiv> 64"

section \<open>Locked points\<close>

definition lock_point :: "u32 \<Rightarrow> 'a agv_world_scheme \<Rightarrow> int \<times> 'a agv_world_scheme" where
  "lock_point point s =
     (case OSQPost point (wpQ s) of
        (err, q) \<Rightarrow> ((if err \<noteq> OS_ERR_NONE then - perr_code ENOMEM else 0), s\<lparr>wpQ := q\<rparr>))"

definition check_and_release_point :: "u32 \<Rightarrow> 'a agv_world_scheme \<Rightarrow> int \<times> 'a agv_world_scheme" where
  "check_and_release_point point s =
     (case OSQAccept (wpQ s) of
        ((expect_point, err), q) \<Rightarrow>
          if expect_point = 0 then (- perr_code ENOMEM, s\<lparr>wpQ := q\<rparr>)
          else if expect_point = point \<or> expect_point = NOT 0 then (0, s\<lparr>wpQ := q\<rparr>)
          else (- 1, s\<lparr>wpQ := snd (OSQPostFront expect_point q)\<rparr>))"

section \<open>Events of the motion controller\<close>

text \<open>The end of \<open>motionctrl_event_callback\<close>: the event goes into a block and its address into the queue.\<close>

definition post_event :: "u32 \<Rightarrow> u32 \<Rightarrow> bytes \<Rightarrow> 'a agv_world_scheme \<Rightarrow> 'a agv_world_scheme outcome" where
  "post_event evt len params s =
     (case OSMemGet (evtmem s) of
        ((buf, err), m) \<Rightarrow>
          if buf = 0 then Ret (s\<lparr>evtmem := m\<rparr>)
          else
            let n = (if len > of_nat (MAX_MOTION_EVENT_LEN - 2) then MAX_MOTION_EVENT_LEN - 2 else unat len)
            in if length params < n then Fault
               else obind (blk_write buf 0 ([ucast (evt_seq s), ucast evt, of_nat n] @ take n params) m) (\<lambda>m1.
                 case OSQPost buf (mtevtQ s) of
                   (e, q) \<Rightarrow>
                     Ret (s\<lparr>evt_seq := evt_seq s + 1, mtevtQ := q,
                            evtmem := (if e \<noteq> OS_ERR_NONE then snd (OSMemPut buf m1) else m1)\<rparr>)))"

text \<open>An error reported by the callback itself: neither of its two filters applies to it.\<close>

definition error_callback :: "u32 \<Rightarrow> 'a agv_world_scheme \<Rightarrow> 'a agv_world_scheme outcome" where
  "error_callback err s = post_event EVENT_ERROR 1 [ucast err] s"

definition arrival_filter :: "'a agv_world_scheme \<Rightarrow> 'a agv_world_scheme outcome" where
  "arrival_filter s =
     (case check_and_release_point (twoD_TagCode s) s of
        (r, s1) \<Rightarrow>
          obind (if r \<noteq> 0 then error_callback WAY_POINT_ERROR s1 else Ret s1) (\<lambda>s2.
            Ret (if Motionstyle s2 = MOTIONSTATE_GOSTRAIGHT then
                   let s3 = Get_TwoDDev (UpdateAgvHeadDirToNew s2)
                   in if \<bar>GS_DEV s3\<bar> < 30 \<and> \<bar>GS_Angle s3\<bar> < 2
                      then s3\<lparr>dety_filter := sliding_filter_input (GS_DEV s3) (dety_filter s3)\<rparr> else s3
                 else s2)))"

definition over_filter :: "'a agv_world_scheme \<Rightarrow> 'a agv_world_scheme" where
  "over_filter s =
     (let det = sliding_filter_output (dety_filter s)
      in if \<bar>det\<bar> > 2
         then s\<lparr>detY0 := fl32 (dadd (detY0 s) (ddiv (dmul det 0.5) 1000)),
                dety_filter := sliding_filter_init (dety_filter s) (sf_buffer (dety_filter s))\<rparr>
         else s)"

definition motionctrl_event_callback :: "u32 \<Rightarrow> u32 \<Rightarrow> bytes \<Rightarrow> 'a agv_world_scheme \<Rightarrow> 'a agv_world_scheme outcome" where
  "motionctrl_event_callback evt len params s =
     obind (if evt = EVENT_POINT_ARRIVAL \<and> (Motionstyle s = MOTIONSTATE_GOSTRAIGHT \<or> Motionstyle s = MOTIONSTATE_GOBACKWARD)
            then arrival_filter s else Ret s) (\<lambda>s1.
       if evt = EVENT_ACTION_OVER \<and> params = [] then Fault
       else
         let s2 = (if evt = EVENT_ACTION_OVER \<and> ucast (params ! 0) = motion_state_code MOTIONSTATE_GOSTRAIGHT
                   then over_filter s1 else s1)
         in post_event evt len params s2)"

section \<open>Commands\<close>

text \<open>The tags of a straight move are locked one by one; a tag of 0 stands for any point.\<close>

definition any_point :: "u32 \<Rightarrow> u32" where
  "any_point p = (if p = 0 then NOT 0 else p)"

primrec lock_points :: "nat list \<Rightarrow> u32 \<Rightarrow> bytes \<Rightarrow> 'a agv_world_scheme \<Rightarrow> (u32 \<times> 'a agv_world_scheme) outcome" where
  "lock_points [] point params s = Ret (point, s)"
| "lock_points (i # is) point params s =
     (if length params < 12 + i * 4 + 4 then Fault
      else let p = any_point (of_be32 (drop (12 + i * 4) params))
           in lock_points is p params (snd (lock_point p s)))"

definition charge_command :: "agv_env \<Rightarrow> u32 \<Rightarrow> 'a agv_world_scheme \<Rightarrow> 'a agv_world_scheme outcome" where
  "charge_command env cmd s =
     (case env of
        (sqrtd, now, now2, ext) \<Rightarrow>
          (case bms_charge (\<lambda>e ps ow. obind ow (motionctrl_event_callback e (of_nat (length ps)) ps)) now now2 ext
                  (cmd = ACTION_CHARGE) (agv_bms s, Ret s) of
             (b, ow) \<Rightarrow> obind ow (\<lambda>s1. motionctrl_event_callback EVENT_ACTION_OVER 1 [ucast cmd] (s1\<lparr>agv_bms := b\<rparr>))))"

definition issue_command :: "agv_env \<Rightarrow> u32 \<Rightarrow> bytes \<Rightarrow> 'a agv_world_scheme \<Rightarrow> (int \<times> 'a agv_world_scheme) outcome" where
  "issue_command env cmd params s =
     (if cmd = ACTION_CHARGE \<or> cmd = ACTION_STOP_CHARGE then
        obind (charge_command env cmd s) (\<lambda>s1. Ret (0, s1))
      else if cmd = ACTION_SYS_RESET then Hang
      else
        let straight = (cmd = ACTION_GOSTRAIGHT \<or> cmd = ACTION_GOBACKWARD);
            start = any_point (of_be32 (drop 8 params))
        in if straight \<and> length params < 12 then Fault
           else if straight \<and> last_ponit s \<noteq> 0
             \<and> start \<noteq> last_ponit s \<and> start \<noteq> NOT 0 \<and> last_ponit s \<noteq> NOT 0
           then Ret (- perr_code EINVAL, s)
           else
             case motionctrl_cmd (fst env) cmd params s of
               (ret, s1) \<Rightarrow>
                 if ret \<noteq> 0 then Ret (ret, s1)
                 else if straight then
                   obind (lock_points [0..<nat (sint (of_be32 params) div 550)] start params s1) (\<lambda>(point, s2).
                     Ret (0, s2\<lparr>last_ponit := point\<rparr>))
                 else Ret (0, s1))"

text \<open>Buffering a command: the length is kept in one byte, and the queue holds as many as the pool.\<close>

definition set_work_state :: "work_state \<Rightarrow> 'a agv_world_scheme \<Rightarrow> 'a agv_world_scheme" where
  "set_work_state ws s = s\<lparr>agvstat := (agvstat s)\<lparr>work_state := ws\<rparr>\<rparr>"

definition buffer_cmd :: "u32 \<Rightarrow> u32 \<Rightarrow> bytes \<Rightarrow> 'a agv_world_scheme \<Rightarrow> (int \<times> 'a agv_world_scheme) outcome" where
  "buffer_cmd action paramlen params s =
     (case OSMemGet (cmdmem s) of
        ((p, err), m) \<Rightarrow>
          if p = 0 then Ret (- perr_code ENOMEM, s\<lparr>cmdmem := m\<rparr>)
          else
            let len = (ucast (if paramlen > of_nat (MAX_MOTION_CMD_LEN - 2) then of_nat (MAX_MOTION_CMD_LEN - 2) else paramlen) :: u8)
            in if length params < unat len then Fault
               else obind (blk_write p 0 ([ucast action, len] @ take (unat len) params) m) (\<lambda>m1.
                 Ret (0, s\<lparr>cmdmem := m1,
                           mtcmdQ := snd (if action = ACTION_STOP then OSQPostFront p (mtcmdQ s) else OSQPost p (mtcmdQ s))\<rparr>)))"

definition process_action_cmd :: "agv_env \<Rightarrow> u32 \<Rightarrow> u32 \<Rightarrow> bytes \<Rightarrow> 'a agv_world_scheme \<Rightarrow> (int \<times> 'a agv_world_scheme) outcome" where
  "process_action_cmd env action paramlen params s =
     obind (if action = ACTION_STOP then issue_command env action params s
            else if OSQQuery_OSNMsgs (mtcmdQ s) = 0 then issue_command env action params s
            else Ret (- perr_code EBUSY, s)) (\<lambda>(ret, s1).
       if ret = - perr_code EBUSY then buffer_cmd action paramlen params s1
       else if ret = - perr_code EINVAL then obind (error_callback WAY_POINT_ERROR s1) (\<lambda>s2. Ret (0, s2))
       else Ret (0,
         if action = ACTION_STOP then set_work_state AGV_WKSTATE_STOP s1
         else if action = ACTION_CHARGE then set_work_state AGV_WKSTATE_CHARGING s1
         else if action = ACTION_STOP_CHARGE then set_work_state AGV_WKSTATE_READY s1
         else if action = ACTION_GOSTRAIGHT \<or> action = ACTION_TRUNLEFT \<or> action = ACTION_TRUNRIGHT
         then set_work_state AGV_WKSTATE_MOVING s1 else s1))"

definition agvcp_event_process :: "agv_env \<Rightarrow> u32 \<Rightarrow> u32 \<Rightarrow> bytes \<Rightarrow> 'a agv_world_scheme \<Rightarrow> (int \<times> 'a agv_world_scheme) outcome" where
  "agvcp_event_process env action paramlen params s =
     (if action = AGVCPEVT_CONNECTION_RECOVERY \<or> action = AGVCPEVT_CONNECTION_LOST then Ret (0, s)
      else obind (process_action_cmd env action paramlen params s) (\<lambda>(r, s1). Ret (0, s1)))"

definition agv_read_param :: "u32 \<Rightarrow> 'a agv_world_scheme \<Rightarrow> rat \<times> 'a agv_world_scheme" where
  "agv_read_param i s = (0, s)"

definition agv_write_param :: "u32 \<Rightarrow> rat \<Rightarrow> 'a agv_world_scheme \<Rightarrow> 'a agv_world_scheme" where
  "agv_write_param i v s = s"

definition agv_get_status :: "'a agv_world_scheme \<Rightarrow> agv_status \<times> 'a agv_world_scheme" where
  "agv_get_status s =
     (let st = (agvstat s)\<lparr>battery := ucast (power (bms_get_battery_info (agv_bms s)))\<rparr>
      in (st, s\<lparr>agvstat := st\<rparr>))"

section \<open>The task\<close>

text \<open>The command at the front of the queue is issued; \<open>d\<close> is its block.\<close>

definition issue_buffered :: "agv_env \<Rightarrow> nat \<Rightarrow> bytes \<Rightarrow> 'a agv_world_scheme \<Rightarrow> (int \<times> 'a agv_world_scheme) outcome" where
  "issue_buffered env p d s =
     obind (issue_command env (ucast (d ! 0)) (drop 2 d) s) (\<lambda>(ret, s1).
       obind (if ret = - perr_code EINVAL
              then obind (error_callback WAY_POINT_ERROR s1) (\<lambda>s2. Ret (ret, s2))
              else Ret (int (unat (d ! 0)), s1)) (\<lambda>(ret2, s2).
         Ret (ret2, s2\<lparr>cmdmem := snd (OSMemPut p (cmdmem s2))\<rparr>)))"

definition issue_next_cmd :: "agv_env \<Rightarrow> u32 \<Rightarrow> 'a agv_world_scheme \<Rightarrow> (int \<times> 'a agv_world_scheme) outcome" where
  "issue_next_cmd env evt s =
     (if evt = EVENT_ACTION_OVER \<or> evt = EVENT_POINT_ARRIVAL then
        case OSQAccept (mtcmdQ s) of
          ((p, err), q) \<Rightarrow>
            let s1 = s\<lparr>mtcmdQ := q\<rparr>
            in if p = 0 then Ret (0, s1)
               else obind (blk_read p 0 MAX_MOTION_CMD_LEN (cmdmem s1)) (\<lambda>d.
                 if evt = EVENT_ACTION_OVER \<or> ucast (d ! 0) = ACTION_STOP \<or> ucast (d ! 0) = ACTION_GOSTRAIGHT
                 then issue_buffered env p d s1
                 else Ret (0, s1\<lparr>mtcmdQ := snd (OSQPostFront p (mtcmdQ s1))\<rparr>))
      else Ret (0, s))"

text \<open>
  The result tells whether the event is passed on to \<open>agvcp_notify_event\<close>, which comes last.
  \<open>error\<close> is shifted by the first parameter; the errors of \<open>agv.h\<close> are below 32.
\<close>

definition process_motionctrl_event :: "agv_env \<Rightarrow> u32 \<Rightarrow> bytes \<Rightarrow> 'a agv_world_scheme \<Rightarrow> (bool \<times> 'a agv_world_scheme) outcome" where
  "process_motionctrl_event env evt param s =
     (if evt = EVENT_ACTION_OVER \<or> evt = EVENT_POINT_ARRIVAL then
        let s1 = s\<lparr>agvstat := (agvstat s)\<lparr>mtstate := get_motion_state s\<rparr>\<rparr>
        in obind (issue_next_cmd env evt s1) (\<lambda>(ret, s2).
             Ret (True,
               if ret = 0 \<and> evt = EVENT_ACTION_OVER \<or> ret = 7 then set_work_state AGV_WKSTATE_READY s2
               else if ret = 8 then set_work_state AGV_WKSTATE_STOP s2
               else if ret = 6 then set_work_state AGV_WKSTATE_CHARGING s2
               else set_work_state AGV_WKSTATE_MOVING s2))
      else if evt = EVENT_ERROR then
        let bitmask = push_bit (unat (param ! 0)) 1;
            st = (agvstat s)\<lparr>mtstate := get_motion_state s, work_state := AGV_WKSTATE_ERROR\<rparr>
        in if agv_error st AND bitmask \<noteq> 0 then Ret (False, s\<lparr>agvstat := st\<rparr>)
           else Ret (True, s\<lparr>agvstat := st\<lparr>agv_error := agv_error st OR bitmask\<rparr>\<rparr>)
      else if evt = EVENT_ERROR_RECOVERY then
        let bitmask = push_bit (unat (param ! 0)) 1;
            st = (agvstat s)\<lparr>mtstate := get_motion_state s, agv_error := agv_error (agvstat s) AND NOT bitmask\<rparr>
        in Ret (True, s\<lparr>agvstat := (if agv_error st = 0 then st\<lparr>work_state := AGV_WKSTATE_READY\<rparr> else st)\<rparr>)
      else Ret (True, s))"

text \<open>
  A round of \<open>agv_task\<close> after \<open>OSQPend\<close> returned the block \<open>data\<close> (0 after the time-out). The
  first component is what \<open>agvcp_notify_event\<close> is called with; the block is freed after that
  call, which does not touch the pool.
\<close>

definition agv_task_body :: "agv_env \<Rightarrow> nat \<Rightarrow> 'a agv_world_scheme \<Rightarrow> ((u32 \<times> bytes) option \<times> 'a agv_world_scheme) outcome" where
  "agv_task_body env p s =
     (if p = 0 then Ret (None, s)
      else obind (blk_read p 0 MAX_MOTION_EVENT_LEN (evtmem s)) (\<lambda>d.
        let evt = ucast (d ! 1); s1 = s\<lparr>task_seq := ucast (d ! 0)\<rparr>
        in obind (process_motionctrl_event env evt (drop 3 d) s1) (\<lambda>(notify, s2).
             Ret (if notify then Some (evt, drop 3 d) else None, s2\<lparr>evtmem := snd (OSMemPut p (evtmem s2))\<rparr>))))"

text \<open>The wait of 20 ticks: a message is there, or the task waits and is resumed.\<close>

definition agv_task_pend :: "nat \<Rightarrow> 'a agv_world_scheme \<Rightarrow> nat option \<times> 'a agv_world_scheme" where
  "agv_task_pend prio s =
     (case OSQPend prio (mtevtQ s) of (r, q) \<Rightarrow> (map_option fst r, s\<lparr>mtevtQ := q\<rparr>))"

definition agv_task_resume :: "nat \<Rightarrow> 'a agv_world_scheme \<Rightarrow> nat \<times> 'a agv_world_scheme" where
  "agv_task_resume prio s =
     (case OSQPend_resume prio (mtevtQ s) of ((p, err), q) \<Rightarrow> (p, s\<lparr>mtevtQ := q\<rparr>))"

section \<open>Initialisation\<close>

text \<open>
  \<open>ecbs\<close>, \<open>qs\<close> and \<open>parts\<close> are the kernel's free control blocks, the other arguments the
  static arrays.
\<close>

definition agv_init ::
  "nat \<Rightarrow> nat \<Rightarrow> nat \<Rightarrow> nat \<Rightarrow> nat \<Rightarrow> memory \<Rightarrow> 'a agv_world_scheme \<Rightarrow> int \<times> 'a agv_world_scheme" where
  "agv_init ecbs qs parts evtpool cmdpool m0 s =
     (case OSQCreate ecbs qs (replicate MAX_MOTION_EVENT_NUM 0) of
        (None, _) \<Rightarrow> (- perr_code ENOMEM, s)
      | (Some q1, e1, n1) \<Rightarrow>
      case OSMemCreate parts evtpool MAX_MOTION_EVENT_NUM MAX_MOTION_EVENT_LEN m0 of
        (None, _) \<Rightarrow> (- perr_code ENOMEM, s\<lparr>mtevtQ := q1\<rparr>)
      | (Some m1, p1) \<Rightarrow>
      case OSQCreate e1 n1 (replicate MAX_MOTION_CMD_NUM 0) of
        (None, _) \<Rightarrow> (- perr_code ENOMEM, s\<lparr>mtevtQ := q1, evtmem := m1\<rparr>)
      | (Some q2, e2, n2) \<Rightarrow>
      case OSMemCreate p1 cmdpool MAX_MOTION_CMD_NUM MAX_MOTION_CMD_LEN m0 of
        (None, _) \<Rightarrow> (- perr_code ENOMEM, s\<lparr>mtevtQ := q1, evtmem := m1, mtcmdQ := q2\<rparr>)
      | (Some m2, p2) \<Rightarrow>
      case OSQCreate e2 n2 (replicate MAX_WAYPOINT_NUM 0) of
        (None, _) \<Rightarrow> (- perr_code ENOMEM, s\<lparr>mtevtQ := q1, evtmem := m1, mtcmdQ := q2, cmdmem := m2\<rparr>)
      | (Some q3, e3, n3) \<Rightarrow>
      (0, s\<lparr>mtevtQ := q1, evtmem := m1, mtcmdQ := q2, cmdmem := m2, wpQ := q3,
            evt_seq := 1, task_seq := 0, last_ponit := NOT 0,
            dety_filter := sliding_filter_init \<lparr>sf_size = 8, sf_cnt = 0, sf_buffer = replicate 8 0\<rparr> (replicate 8 0),
            agvstat := \<lparr>mtstate = \<lparr>mi_point = 0, mi_x_deviation = 0, mi_y_deviation = 0, mi_direction = 0,
                mi_dir_deviation = 0, mi_speed = 0, mi_state = MOTIONSTATE_ONSTOPING, mi_action = ACTION_STOP\<rparr>,
              battery = 100, work_state = AGV_WKSTATE_READY, agv_error = 0\<rparr>\<rparr>))"

definition agv_run :: "'a agv_world_scheme \<Rightarrow> 'a agv_world_scheme" where
  "agv_run s =
     (let s1 = motionctrl_run s
      in s1\<lparr>agvstat := \<lparr>mtstate = get_motion_state s1, battery = 0, work_state = AGV_WKSTATE_READY, agv_error = 0\<rparr>\<rparr>)"

end
