(* ===== verification/Agv_Facts.thy ===== *)
theory Agv_Facts
  imports Agv
begin

text \<open>
  What the coordinator guarantees: the queue of locked points is the list of the route, the
  pending errors are a set, events and commands go through their queues of blocks in order
  and unchanged, and which commands do not take effect.
\<close>

section \<open>The state after the initialisation\<close>

definition cmd_ok :: "'a agv_world_scheme \<Rightarrow> bool" where
  "cmd_ok s \<longleftrightarrow> mbox_ok (mtcmdQ s) (cmdmem s) \<and> OSMemBlkSize (cmdmem s) = 512"

definition evt_ok :: "'a agv_world_scheme \<Rightarrow> bool" where
  "evt_ok s \<longleftrightarrow> mbox_ok (mtevtQ s) (evtmem s) \<and> OSMemBlkSize (evtmem s) = 32"

definition buffered_cmds :: "'a agv_world_scheme \<Rightarrow> bytes list" where
  "buffered_cmds s = mbox_data (mtcmdQ s) (cmdmem s)"

definition queued_evts :: "'a agv_world_scheme \<Rightarrow> bytes list" where
  "queued_evts s = mbox_data (mtevtQ s) (evtmem s)"

lemma agv_init_ok:
  assumes "agv_init ecbs qs parts evtpool cmdpool m0 s = (0, s')"
    and "0 < evtpool" "evtpool + 512 \<le> 2 ^ 32" "0 < cmdpool" "cmdpool + 4096 \<le> 2 ^ 32"
  shows "evt_ok s' \<and> queued_evts s' = [] \<and> cmd_ok s' \<and> buffered_cmds s' = []
    \<and> osq_quiet (wpQ s') \<and> osq_msgs (wpQ s') = [] \<and> OSQSize (wpQ s') = 64
    \<and> length (mem_free (evtmem s')) = 16 \<and> length (mem_free (cmdmem s')) = 8"
proof -
  obtain q1 e1 n1 m1 p1 q2 e2 n2 m2 p2 q3 r3
    where c: "OSQCreate ecbs qs (replicate 16 (0 :: nat)) = (Some q1, e1, n1)"
      "OSMemCreate parts evtpool 16 32 m0 = (Some m1, p1)"
      "OSQCreate e1 n1 (replicate 8 (0 :: nat)) = (Some q2, e2, n2)"
      "OSMemCreate p1 cmdpool 8 512 m0 = (Some m2, p2)"
      "OSQCreate e2 n2 (replicate 64 (0 :: u32)) = (Some q3, r3)"
    and s': "mtevtQ s' = q1" "evtmem s' = m1" "mtcmdQ s' = q2" "cmdmem s' = m2" "wpQ s' = q3"
    using assms(1) by (auto simp: agv_init_def split: option.splits prod.splits)
  have "mbox_ok q1 m1 \<and> mbox_data q1 m1 = [] \<and> OSMemBlkSize m1 = 32"
    using mbox_create [OF c(1,2)] assms(2,3) by simp
  moreover have "mbox_ok q2 m2 \<and> mbox_data q2 m2 = [] \<and> OSMemBlkSize m2 = 512"
    using mbox_create [OF c(3,4)] assms(4,5) by simp
  moreover have "osq_quiet q3 \<and> osq_msgs q3 = [] \<and> OSQSize q3 = 64"
    using OSQCreate_ok [of e2 n2 "replicate 64 (0 :: u32)"] c(5) by (simp del: replicate.simps)
  moreover have "OSMemNFree m1 = 16" "OSMemNFree m2 = 8"
    using c(2,4) by (auto simp: OSMemCreate_def split: if_splits)
  ultimately show ?thesis
    by (simp add: s' evt_ok_def cmd_ok_def queued_evts_def buffered_cmds_def)
qed

text \<open>A coordinator as it starts, for the examples.\<close>

definition demo_base :: agv_world where
  "demo_base = motion.extend demo_motion
     \<lparr>agvstat = \<lparr>mtstate = get_motion_state demo_motion, battery = 0, work_state = AGV_WKSTATE_READY, agv_error = 0\<rparr>,
      agv_bms = demo_bms, dety_filter = demo_filter, mtevtQ = \<lparr>OSQTbl = [], OSQIn = 0, OSQOut = 0, OSQSize = 0,
        OSQEntries = 0, OSEventTbl = [], OSTCBMsg = []\<rparr>, evtmem = demo_mem, mtcmdQ = \<lparr>OSQTbl = [], OSQIn = 0,
        OSQOut = 0, OSQSize = 0, OSQEntries = 0, OSEventTbl = [], OSTCBMsg = []\<rparr>, cmdmem = demo_mem,
      wpQ = \<lparr>OSQTbl = [], OSQIn = 0, OSQOut = 0, OSQSize = 0, OSQEntries = 0, OSEventTbl = [], OSTCBMsg = []\<rparr>,
      evt_seq = 1, task_seq = 0, last_ponit = NOT 0\<rparr>"

definition demo_agv :: agv_world where
  "demo_agv = snd (agv_init 3 3 2 1000 2000 (\<lambda>_. 0) demo_base)"

lemma demo_agv_init: "agv_init 3 3 2 1000 2000 (\<lambda>_. 0) demo_base = (0, demo_agv)"
  by (simp add: demo_agv_def agv_init_def OSQCreate_def OSMemCreate_def)

lemmas demo_agv_ok = agv_init_ok [OF demo_agv_init, simplified]

lemma demo_agv_motion:
  "Motionstyle demo_agv = MOTIONSTATE_GOSTRAIGHT" "typeOfAction demo_agv = ACTION_STOP"
  "mc_motors demo_agv = demo_motors" "last_ponit demo_agv = NOT 0"
  by (simp_all add: demo_agv_def agv_init_def OSQCreate_def OSMemCreate_def demo_base_def demo_motion_def demo_navi_def
      demo_nav_def nav.defs navi.defs motion.defs)

section \<open>The route\<close>

text \<open>The route as a list: a point that is expected is passed, any other tag is an error and the route waits.\<close>

fun route_results :: "u32 list \<Rightarrow> u32 list \<Rightarrow> int list" where
  "route_results ps [] = []"
| "route_results [] (t # ts) = - perr_code ENOMEM # route_results [] ts"
| "route_results (p # ps) (t # ts) =
     (if p = t \<or> p = NOT 0 then 0 # route_results ps ts else - 1 # route_results (p # ps) ts)"

fun check_points :: "u32 list \<Rightarrow> 'a agv_world_scheme \<Rightarrow> int list" where
  "check_points [] s = []"
| "check_points (t # ts) s =
     (case check_and_release_point t s of (r, s1) \<Rightarrow> r # check_points ts s1)"

definition lock_all :: "u32 list \<Rightarrow> 'a agv_world_scheme \<Rightarrow> 'a agv_world_scheme" where
  "lock_all ps s = fold (\<lambda>p s. snd (lock_point p s)) ps s"

lemma lock_all_queue:
  "osq_quiet (wpQ s) \<Longrightarrow> length (osq_msgs (wpQ s)) + length ps \<le> OSQSize (wpQ s) \<Longrightarrow>
     osq_quiet (wpQ (lock_all ps s)) \<and> osq_msgs (wpQ (lock_all ps s)) = osq_msgs (wpQ s) @ ps
     \<and> OSQSize (wpQ (lock_all ps s)) = OSQSize (wpQ s)"
proof (induction ps arbitrary: s)
  case Nil
  then show ?case by (simp add: lock_all_def)
next
  case (Cons p ps)
  then have "length (osq_msgs (wpQ s)) < OSQSize (wpQ s)" by simp
  then obtain q' where q: "OSQPost p (wpQ s) = (OS_ERR_NONE, q')" "osq_quiet q'"
    "osq_msgs q' = osq_msgs (wpQ s) @ [p]" "OSQSize q' = OSQSize (wpQ s)"
    by (rule OSQPost_room [OF Cons.prems(1)])
  have "lock_all (p # ps) s = lock_all ps (s\<lparr>wpQ := q'\<rparr>)" using q(1) by (simp add: lock_all_def lock_point_def)
  then show ?case using Cons.IH [of "s\<lparr>wpQ := q'\<rparr>"] q Cons.prems(2)
    by (simp add: arg_cong [OF q(3), of length, simplified])
qed

lemma check_points_route:
  "osq_quiet (wpQ s) \<Longrightarrow> 0 \<notin> set (osq_msgs (wpQ s)) \<Longrightarrow> length (osq_msgs (wpQ s)) \<le> OSQSize (wpQ s) \<Longrightarrow>
     check_points ts s = route_results (osq_msgs (wpQ s)) ts"
proof (induction ts arbitrary: s)
  case Nil
  then show ?case by simp
next
  case (Cons t ts)
  show ?case
  proof (cases "osq_msgs (wpQ s)")
    case Nil
    then have "OSQAccept (wpQ s) = ((0, OS_ERR_Q_EMPTY), wpQ s)" by (rule OSQAccept_empty)
    then show ?thesis using Cons.IH [of s] Cons.prems Nil by (simp add: check_and_release_point_def)
  next
    case queue: (Cons p ps)
    obtain q' where q: "OSQAccept (wpQ s) = ((p, OS_ERR_NONE), q')" "osq_quiet q'" "osq_msgs q' = ps"
      "OSQSize q' = OSQSize (wpQ s)"
      using OSQAccept_msg [OF Cons.prems(1) queue] by blast
    have p: "p \<noteq> 0" "0 \<notin> set ps" using Cons.prems(2) queue by auto
    have l: "length ps < OSQSize q'" using Cons.prems(3) queue q(4) by (simp del: length_osq_msgs)
    then obtain q2 where q2: "OSQPostFront p q' = (OS_ERR_NONE, q2)" "osq_quiet q2" "osq_msgs q2 = p # ps"
      "OSQSize q2 = OSQSize q'"
      using OSQPostFront_room [OF q(2)] q(3) by metis
    show ?thesis
    proof (cases "p = t \<or> p = NOT 0")
      case True
      then have "check_points (t # ts) s = 0 # check_points ts (s\<lparr>wpQ := q'\<rparr>)"
        using q(1) p(1) by (auto simp: check_and_release_point_def)
      also have "check_points ts (s\<lparr>wpQ := q'\<rparr>) = route_results ps ts"
        using Cons.IH [of "s\<lparr>wpQ := q'\<rparr>"] q p l by (simp del: length_osq_msgs)
      finally show ?thesis using True queue by auto
    next
      case False
      then have "check_points (t # ts) s = - 1 # check_points ts (s\<lparr>wpQ := q2\<rparr>)"
        using q(1) q2(1) p(1) by (simp add: check_and_release_point_def)
      also have "check_points ts (s\<lparr>wpQ := q2\<rparr>) = route_results (p # ps) ts"
        using Cons.IH [of "s\<lparr>wpQ := q2\<rparr>"] q2 p l by (simp del: length_osq_msgs)
      finally show ?thesis using False queue by auto
    qed
  qed
qed

lemma route_results_self: "route_results ps ps = replicate (length ps) 0"
  by (induction ps) auto

text \<open>
  C3: the tags of a route are checked in order: after the points of a route of at most 64
  have been locked, whatever tags the vehicle then comes to, the results of the checks are
  those of the route as a list: each expected tag releases its point, any other tag is an
  error and leaves the route as it is, an arrival after the end is an error; and the
  vehicle that follows the route passes every check.
\<close>

theorem route_checked_in_order:
  assumes "osq_quiet (wpQ s)" "osq_msgs (wpQ s) = []" "0 \<notin> set ps" "length ps \<le> OSQSize (wpQ s)"
  shows "check_points ts (lock_all ps s) = route_results ps ts
    \<and> check_points ps (lock_all ps s) = replicate (length ps) 0"
proof -
  have q: "osq_quiet (wpQ (lock_all ps s))" "osq_msgs (wpQ (lock_all ps s)) = ps"
    "OSQSize (wpQ (lock_all ps s)) = OSQSize (wpQ s)"
    using lock_all_queue [OF assms(1), of ps] assms(2,4) by (simp_all del: length_osq_msgs)
  then have "check_points us (lock_all ps s) = route_results ps us" for us
    using check_points_route [OF q(1), of us] assms(3,4) by (simp del: length_osq_msgs)
  then show ?thesis by (simp add: route_results_self)
qed

theorem route_checked_in_order_witness:
  "check_points [5, 7, 6] (lock_all [5, 6] demo_agv) = [0, - 1, 0]"
  using route_checked_in_order [of demo_agv "[5, 6]" "[5, 7, 6]"] demo_agv_ok by simp

section \<open>Pending errors\<close>

definition errs :: "'a agv_world_scheme \<Rightarrow> nat set" where
  "errs s = {k. bit (agv_error (agvstat s)) k}"

lemma and_push_bit_1: "(x :: u32) AND push_bit k 1 \<noteq> 0 \<longleftrightarrow> k < 32 \<and> bit x k"
proof
  assume "x AND push_bit k 1 \<noteq> 0"
  then obtain n where "bit (x AND push_bit k 1) n" by (metis bit_eqI bit_0_eq bot_apply bot_bool_def)
  then show "k < 32 \<and> bit x k" by (auto simp: bit_simps dest: bit_imp_le_length)
next
  assume "k < 32 \<and> bit x k"
  then have "bit (x AND push_bit k 1) k" by (simp add: bit_simps)
  then show "x AND push_bit k 1 \<noteq> 0" by auto
qed

lemma errs_update: "errs (s\<lparr>agvstat := st\<rparr>) = {n. bit (agv_error st) n}"
  by (simp add: errs_def)

lemma u32_bits_empty: "{n. bit (x :: u32) n} = {} \<longleftrightarrow> x = 0"
  by (metis (mono_tags, lifting) bit_eqI bit_0_eq bot_apply bot_bool_def empty_Collect_eq)

lemma u32_bits_or: "k < 32 \<Longrightarrow> {n. bit ((x :: u32) OR 2 ^ k) n} = insert k {n. bit x n}"
  by (auto simp: bit_simps)

lemma u32_bits_and_not: "k < 32 \<Longrightarrow> {n. bit ((x :: u32) AND NOT (2 ^ k)) n} = {n. bit x n} - {k}"
  by (auto simp: bit_simps dest: bit_imp_le_length)

text \<open>
  C17: the errors that are pending are a set: a report of error \<open>k\<close> puts it in, sets the work
  state to error, and is passed on to the server only when it was not pending; a recovery
  takes it out, and the vehicle is ready again exactly when no error is left.
\<close>

theorem errors_are_a_set:
  assumes "k < 32"
  shows "(\<exists>s'. process_motionctrl_event env EVENT_ERROR (of_nat k # ps) s = Ret (k \<notin> errs s, s')
        \<and> errs s' = insert k (errs s) \<and> work_state (agvstat s') = AGV_WKSTATE_ERROR)
    \<and> (\<exists>s'. process_motionctrl_event env EVENT_ERROR_RECOVERY (of_nat k # ps) s = Ret (True, s')
        \<and> errs s' = errs s - {k}
        \<and> work_state (agvstat s') = (if errs s' = {} then AGV_WKSTATE_READY else work_state (agvstat s)))"
proof -
  have k: "unat (of_nat k :: u8) = k" using assms by (simp add: unat_of_nat take_bit_nat_eq_self)
  let ?x = "agv_error (agvstat s)"
  have "?x AND push_bit k 1 \<noteq> 0 \<longleftrightarrow> k \<in> errs s"
    using assms and_push_bit_1 [of ?x k] by (simp add: errs_def)
  moreover have "k \<in> errs s \<Longrightarrow> insert k (errs s) = errs s" by auto
  ultimately have "\<exists>s'. process_motionctrl_event env EVENT_ERROR (of_nat k # ps) s = Ret (k \<notin> errs s, s')
        \<and> errs s' = insert k (errs s) \<and> work_state (agvstat s') = AGV_WKSTATE_ERROR"
    by (auto simp: process_motionctrl_event_def Let_def k errs_def u32_bits_or [OF assms])
  moreover have "\<exists>s'. process_motionctrl_event env EVENT_ERROR_RECOVERY (of_nat k # ps) s = Ret (True, s')
        \<and> errs s' = errs s - {k}
        \<and> work_state (agvstat s') = (if errs s' = {} then AGV_WKSTATE_READY else work_state (agvstat s))"
  proof -
    have e: "{n. bit (?x AND NOT (2 ^ k)) n} = errs s - {k}" using u32_bits_and_not [OF assms] by (simp add: errs_def)
    then have "?x AND NOT (2 ^ k) = 0 \<longleftrightarrow> errs s - {k} = {}" using u32_bits_empty by metis
    moreover have "(\<forall>n. \<not> bit (?x AND NOT (2 ^ k)) n) \<longleftrightarrow> errs s - {k} = {}" using e by blast
    ultimately show ?thesis
      by (cases "errs s - {k} = {}") (simp_all add: process_motionctrl_event_def Let_def k errs_update e)
  qed
  ultimately show ?thesis by blast
qed

theorem errors_are_a_set_witness:
  "\<exists>s'. process_motionctrl_event (\<lambda>x. x, 0, 0, 0) EVENT_ERROR [7] demo_agv = Ret (7 \<notin> errs demo_agv, s') \<and> 7 \<in> errs s'"
  using errors_are_a_set [of 7 "(\<lambda>x. x, 0, 0, 0)" "[]" demo_agv] by auto

section \<open>Buffered commands\<close>

lemma buffer_cmd_deposit:
  assumes "cmd_ok s" "mem_free (cmdmem s) \<noteq> []" "action \<noteq> ACTION_STOP" "paramlen \<le> 255" "unat paramlen \<le> length params"
  obtains s' d where "buffer_cmd action paramlen params s = Ret (0, s')" "cmd_ok s'"
    "buffered_cmds s' = buffered_cmds s @ [d]"
    "take (2 + unat paramlen) d = [ucast action, ucast paramlen] @ take (unat paramlen) params"
    "s' = s\<lparr>cmdmem := cmdmem s', mtcmdQ := mtcmdQ s'\<rparr>"
proof -
  obtain p fs where fs: "mem_free (cmdmem s) = p # fs" using assms(2) by (cases "mem_free (cmdmem s)") auto
  have own: "mbox.owned (mtcmdQ s) (cmdmem s) []" "OSMemBlkSize (cmdmem s) = 512"
    using assms(1) by (simp_all add: cmd_ok_def mbox_ok_def)
  obtain m1 where m1: "OSMemGet (cmdmem s) = ((p, OS_ERR_NONE), m1)" "mbox.owned (mtcmdQ s) m1 [p]" "p \<noteq> 0"
    "OSMemBlkSize m1 = 512" "OSMemPool m1 = OSMemPool (cmdmem s)"
    using mbox_get [OF own(1) fs] own(2) by metis
  have pl: "unat paramlen \<le> 255" using assms(4) by (simp add: word_le_nat_alt)
  let ?bs = "[ucast action, ucast paramlen] @ take (unat paramlen) params"
  have "length ?bs \<le> OSMemBlkSize m1" using pl assms(5) m1(4) by simp
  from mbox_deposit [OF m1(2) this] obtain m2 q' where m2: "blk_write p 0 ?bs m1 = Ret m2"
    "OSQPost p (mtcmdQ s) = (OS_ERR_NONE, q')" "mbox.owned q' m2 []" "OSMemBlkSize m2 = OSMemBlkSize m1"
    "mbox_data q' m2 = mbox_data (mtcmdQ s) m1 @ [?bs @ drop (length ?bs) (mem_read p (OSMemBlkSize m1) (OSMemPool m1))]"
    by blast
  have len: "unat (ucast paramlen :: u8) = unat paramlen"
    using pl by (simp add: unsigned_ucast_eq take_bit_nat_eq_self)
  have "\<not> of_nat (MAX_MOTION_CMD_LEN - 2) < paramlen" using assms(4) by (simp add: word_less_nat_alt word_le_nat_alt)
  then have r: "buffer_cmd action paramlen params s = Ret (0, s\<lparr>cmdmem := m2, mtcmdQ := q'\<rparr>)"
    using m1(1,3) m2(1,2) assms(3,5) len by (simp add: buffer_cmd_def Let_def)
  have "mbox_data (mtcmdQ s) m1 = buffered_cmds s"
    using m1(4,5) own(2) by (simp add: mbox_data_def buffered_cmds_def)
  then show thesis
    using that [OF r] m2(3-5) m1(4) assms(5) by (simp add: cmd_ok_def mbox_ok_def buffered_cmds_def)
qed

text \<open>
  C7: commands that come while others are buffered wait for their turn: a command other than
  stop, with parameters of at most 255 bytes, is appended to the buffered ones with its
  parameters unchanged as long as a block is free, and does not touch the vehicle.
\<close>

theorem command_waits_its_turn:
  assumes "cmd_ok s" "buffered_cmds s \<noteq> []" "mem_free (cmdmem s) \<noteq> []" "action \<noteq> ACTION_STOP"
    and "paramlen \<le> 255" "unat paramlen \<le> length params"
    and "process_action_cmd env action paramlen params s = Ret (r, s')"
  shows "r = 0 \<and> cmd_ok s' \<and> s' = s\<lparr>cmdmem := cmdmem s', mtcmdQ := mtcmdQ s'\<rparr>
    \<and> (\<exists>d. buffered_cmds s' = buffered_cmds s @ [d]
          \<and> take (2 + unat paramlen) d = [ucast action, ucast paramlen] @ take (unat paramlen) params)"
proof -
  have "OSQQuery_OSNMsgs (mtcmdQ s) \<noteq> 0"
    using assms(2) by (metis OSQQuery_OSNMsgs_def buffered_cmds_def length_0_conv length_mbox_data)
  moreover obtain s1 d where "buffer_cmd action paramlen params s = Ret (0, s1)" "cmd_ok s1"
    "buffered_cmds s1 = buffered_cmds s @ [d]"
    "take (2 + unat paramlen) d = [ucast action, ucast paramlen] @ take (unat paramlen) params"
    "s1 = s\<lparr>cmdmem := cmdmem s1, mtcmdQ := mtcmdQ s1\<rparr>"
    by (rule buffer_cmd_deposit [OF assms(1,3-6)])
  ultimately show ?thesis using assms(4,7) by (auto simp: process_action_cmd_def)
qed

text \<open>No operation but the buffering itself and the task touches the queue of commands.\<close>

lemma post_event_frame:
  "post_event evt len params s = Ret s' \<Longrightarrow> mtcmdQ s' = mtcmdQ s \<and> cmdmem s' = cmdmem s"
  by (auto simp: post_event_def Let_def case_prod_unfold split: if_splits)

lemma post_event_eq:
  "post_event evt len params s = Ret s' \<Longrightarrow> \<exists>a b c. s' = s\<lparr>evt_seq := a, mtevtQ := b, evtmem := c\<rparr>"
  by (intro exI [of _ "evt_seq s'"] exI [of _ "mtevtQ s'"] exI [of _ "evtmem s'"])
    (auto simp: post_event_def Let_def case_prod_unfold split: if_splits)

lemma check_and_release_frame [simp]:
  "mtcmdQ (snd (check_and_release_point t s)) = mtcmdQ s" "cmdmem (snd (check_and_release_point t s)) = cmdmem s"
  by (simp_all add: check_and_release_point_def case_prod_unfold)

lemma head_dev_frame [simp]:
  "mtcmdQ (Get_TwoDDev s) = mtcmdQ s" "cmdmem (Get_TwoDDev s) = cmdmem s"
  "mtcmdQ (UpdateAgvHeadDirToNew s) = mtcmdQ s" "cmdmem (UpdateAgvHeadDirToNew s) = cmdmem s"
  by (simp_all add: Get_TwoDDev_def UpdateAgvHeadDirToNew_eq)

lemma arrival_filter_frame: "arrival_filter s = Ret s' \<Longrightarrow> mtcmdQ s' = mtcmdQ s \<and> cmdmem s' = cmdmem s"
  by (auto simp: arrival_filter_def error_callback_def Let_def case_prod_unfold split: if_splits
      dest!: post_event_frame)

lemma callback_frame:
  "motionctrl_event_callback evt len params s = Ret s' \<Longrightarrow> mtcmdQ s' = mtcmdQ s \<and> cmdmem s' = cmdmem s"
  by (auto simp: motionctrl_event_callback_def over_filter_def Let_def split: if_splits
      dest!: post_event_frame arrival_filter_frame)

lemma charge_frame: "charge_command env cmd s = Ret s' \<Longrightarrow> mtcmdQ s' = mtcmdQ s \<and> cmdmem s' = cmdmem s"
  by (auto simp: charge_command_def bms_charge_def query_battery_info_tmrcb_def Let_def case_prod_unfold split: if_splits
      dest!: callback_frame)

lemma lock_points_frame:
  "lock_points is p params s = Ret (q, s') \<Longrightarrow> mtcmdQ s' = mtcmdQ s \<and> cmdmem s' = cmdmem s"
proof (induction "is" arbitrary: p s)
  case (Cons i js)
  have "mtcmdQ (snd (lock_point x s)) = mtcmdQ s" "cmdmem (snd (lock_point x s)) = cmdmem s" for x
    by (simp_all add: lock_point_def split: prod.splits)
  then show ?case using Cons by (auto simp: Let_def split: if_splits)
qed simp

lemma motionctrl_cmd_frame [simp]:
  "mtcmdQ (snd (motionctrl_cmd f cmd params s)) = mtcmdQ s" "cmdmem (snd (motionctrl_cmd f cmd params s)) = cmdmem s"
  by (simp_all add: motionctrl_cmd_def start_wheels_def add_path_def plan_turn_def CyclePlan_def Let_def)

lemma motionctrl_cmd_frame_eq:
  "motionctrl_cmd f cmd params s = (r, s') \<Longrightarrow> mtcmdQ s' = mtcmdQ s \<and> cmdmem s' = cmdmem s"
  using motionctrl_cmd_frame [of f cmd params s] by simp

lemma issue_command_frame:
  "issue_command env cmd params s = Ret (r, s') \<Longrightarrow> mtcmdQ s' = mtcmdQ s \<and> cmdmem s' = cmdmem s"
  by (auto simp: issue_command_def Let_def case_prod_unfold split: if_splits
      dest!: charge_frame lock_points_frame motionctrl_cmd_frame_eq)

text \<open>Taking the oldest command out, issuing it and freeing its block.\<close>

lemma take_command:
  assumes "cmd_ok s" "buffered_cmds s = d # ds"
  obtains p q where "OSQAccept (mtcmdQ s) = ((p, OS_ERR_NONE), q)" "p \<noteq> 0"
    "blk_read p 0 512 (cmdmem s) = Ret d"
    "mbox.owned q (cmdmem s) [p]" "mbox_data q (cmdmem s) = ds"
proof -
  have own: "mbox.owned (mtcmdQ s) (cmdmem s) []" "OSMemBlkSize (cmdmem s) = 512"
    using assms(1) by (simp_all add: cmd_ok_def mbox_ok_def)
  obtain p q where pq: "OSQAccept (mtcmdQ s) = ((p, OS_ERR_NONE), q)" "p \<noteq> 0" "mbox.owned q (cmdmem s) [p]"
    "d = mem_read p (OSMemBlkSize (cmdmem s)) (OSMemPool (cmdmem s))" "mbox_data q (cmdmem s) = ds"
    and rd: "\<forall>off n. off + n \<le> OSMemBlkSize (cmdmem s) \<longrightarrow> blk_read p off n (cmdmem s) = Ret (take n (drop off d))"
    using mbox_accept [OF own(1), of d ds] assms(2) unfolding buffered_cmds_def by metis
  have "length d = 512" using pq(4) own(2) by simp
  then have "blk_read p 0 512 (cmdmem s) = Ret d" using rd own(2) by simp
  then show thesis using that pq by blast
qed

lemma oldest_issued:
  assumes "cmd_ok s" "buffered_cmds s = d # ds" "issue_next_cmd env EVENT_ACTION_OVER s = Ret (r, s')"
  shows "cmd_ok s' \<and> buffered_cmds s' = ds
    \<and> (\<exists>q r1 s1. issue_command env (ucast (d ! 0)) (drop 2 d) (s\<lparr>mtcmdQ := q\<rparr>) = Ret (r1, s1)
          \<and> (r1 \<noteq> - perr_code EINVAL \<longrightarrow> r = int (unat (d ! 0)) \<and> s' = s1\<lparr>cmdmem := cmdmem s'\<rparr>))"
proof -
  obtain p q where p: "OSQAccept (mtcmdQ s) = ((p, OS_ERR_NONE), q)" "p \<noteq> 0"
    "blk_read p 0 512 (cmdmem s) = Ret d" "mbox.owned q (cmdmem s) [p]" "mbox_data q (cmdmem s) = ds"
    by (rule take_command [OF assms(1,2)])
  have "issue_buffered env p d (s\<lparr>mtcmdQ := q\<rparr>) = Ret (r, s')"
    using assms(3) p(1-3) by (simp add: issue_next_cmd_def Let_def)
  then obtain r1 s1 where i: "issue_command env (ucast (d ! 0)) (drop 2 d) (s\<lparr>mtcmdQ := q\<rparr>) = Ret (r1, s1)"
    and e: "obind (if r1 = - perr_code EINVAL
              then obind (error_callback WAY_POINT_ERROR s1) (\<lambda>s2. Ret (r1, s2))
              else Ret (int (unat (d ! 0)), s1)) (\<lambda>(ret2, s2). Ret (ret2, s2\<lparr>cmdmem := snd (OSMemPut p (cmdmem s2))\<rparr>))
          = Ret (r, s')"
    by (auto simp: issue_buffered_def simp del: perr_code.simps)
  from issue_command_frame [OF i] have f: "mtcmdQ s1 = q" "cmdmem s1 = cmdmem s" by simp_all
  have g: "mtcmdQ s' = q \<and> cmdmem s' = snd (OSMemPut p (cmdmem s))
      \<and> (r1 \<noteq> - perr_code EINVAL \<longrightarrow> r = int (unat (d ! 0)) \<and> s' = s1\<lparr>cmdmem := cmdmem s'\<rparr>)"
    using e f by (auto simp: error_callback_def split: if_splits dest!: post_event_frame)
  have "mbox.owned q (snd (OSMemPut p (cmdmem s))) []" "mbox_data q (snd (OSMemPut p (cmdmem s))) = ds"
    "OSMemBlkSize (snd (OSMemPut p (cmdmem s))) = 512"
    using mbox_put [OF p(4)] p(5) assms(1) by (simp_all add: cmd_ok_def)
  then have "cmd_ok s' \<and> buffered_cmds s' = ds" using g by (simp add: cmd_ok_def mbox_ok_def buffered_cmds_def)
  with g i show ?thesis by blast
qed

text \<open>
  C5: when an action is over the oldest buffered command is issued, with the parameters it
  was buffered with, and leaves the queue; its block is free again and the others keep their
  order. The state it is issued in differs from the present one in the queue only.
\<close>

theorem next_command_issued:
  assumes "cmd_ok s" "buffered_cmds s = d # ds" "issue_next_cmd env EVENT_ACTION_OVER s = Ret (r, s')"
  shows "cmd_ok s' \<and> buffered_cmds s' = ds
    \<and> (\<exists>q r1 s1. issue_command env (ucast (d ! 0)) (drop 2 d) (s\<lparr>mtcmdQ := q\<rparr>) = Ret (r1, s1)
          \<and> (r1 \<noteq> - perr_code EINVAL \<longrightarrow> r = int (unat (d ! 0)) \<and> s' = s1\<lparr>cmdmem := cmdmem s'\<rparr>))"
  using assms by (rule oldest_issued)

text \<open>Examples: one buffered command, in a vehicle that refuses it.\<close>

lemma one_buffered:
  assumes "cmd_ok s" "buffered_cmds s = []" "OSMemNFree (cmdmem s) = 8" "action \<noteq> ACTION_STOP"
  obtains s1 d where "cmd_ok s1" "buffered_cmds s1 = [d]" "d ! 0 = ucast action" "OSMemNFree (cmdmem s1) = 7"
    "s1 = s\<lparr>cmdmem := cmdmem s1, mtcmdQ := mtcmdQ s1\<rparr>"
proof -
  have "mem_free (cmdmem s) \<noteq> []" using assms(3) by (metis length_mem_free list.size(3) zero_neq_numeral)
  then obtain s1 d where s1: "buffer_cmd action 0 [] s = Ret (0, s1)" "cmd_ok s1" "buffered_cmds s1 = [d]"
    "take 2 d = [ucast action, 0]" "s1 = s\<lparr>cmdmem := cmdmem s1, mtcmdQ := mtcmdQ s1\<rparr>"
    using buffer_cmd_deposit [of s action 0 "[]"] assms(1,2,4) by auto
  have "d ! 0 = take 2 d ! 0" by simp
  then have "d ! 0 = ucast action" using s1(4) by simp
  moreover have "OSMemNFree (cmdmem s1) = 7"
    using s1(1) assms(3)
    by (auto simp: buffer_cmd_def OSMemGet_def blk_write_def Let_def case_prod_unfold split: if_splits)
  ultimately show thesis using that s1 by blast
qed

lemma issue_refused:
  assumes "cmd_ok s" "buffered_cmds s = d # ds" "evt = EVENT_ACTION_OVER \<or> evt = EVENT_POINT_ARRIVAL \<and> d ! 0 = 1"
    and "\<forall>q. issue_command env (ucast (d ! 0)) (drop 2 d) (s\<lparr>mtcmdQ := q\<rparr>) = Ret (- perr_code EBUSY, s\<lparr>mtcmdQ := q\<rparr>)"
  shows "\<exists>s'. issue_next_cmd env evt s = Ret (int (unat (d ! 0)), s')"
proof -
  obtain p q where "OSQAccept (mtcmdQ s) = ((p, OS_ERR_NONE), q)" "p \<noteq> 0" "blk_read p 0 512 (cmdmem s) = Ret d"
    by (rule take_command [OF assms(1,2)])
  then show ?thesis using assms(3,4) by (auto simp: issue_next_cmd_def issue_buffered_def Let_def)
qed

lemma demo_busy: "cmd_ok demo_agv" "buffered_cmds demo_agv = []" "OSMemNFree (cmdmem demo_agv) = 8"
  using demo_agv_ok by (simp_all flip: length_mem_free)

theorem command_waits_its_turn_witness:
  "\<exists>(s :: agv_world) s' d. cmd_ok s \<and> buffered_cmds s \<noteq> [] \<and> process_action_cmd (\<lambda>x. x, 0, 0, 0) ACTION_UNLOAD 0 [] s = Ret (0, s')
    \<and> buffered_cmds s' = buffered_cmds s @ [d]"
proof -
  obtain s d where s: "cmd_ok s" "buffered_cmds s = [d]" "d ! 0 = ucast ACTION_UNLOAD" "OSMemNFree (cmdmem s) = 7"
    "s = demo_agv\<lparr>cmdmem := cmdmem s, mtcmdQ := mtcmdQ s\<rparr>"
    by (rule one_buffered [OF demo_busy, of ACTION_UNLOAD]) simp
  have f: "mem_free (cmdmem s) \<noteq> []" using s(4) by (metis length_mem_free list.size(3) zero_neq_numeral)
  obtain s' e where s': "buffer_cmd ACTION_UNLOAD 0 [] s = Ret (0, s')"
    using buffer_cmd_deposit [OF s(1) f, of ACTION_UNLOAD 0 "[]"] by auto
  have "OSQQuery_OSNMsgs (mtcmdQ s) \<noteq> 0"
    using s(2) by (metis OSQQuery_OSNMsgs_def buffered_cmds_def length_0_conv length_mbox_data list.discI)
  then have "process_action_cmd (\<lambda>x. x, 0, 0, 0) ACTION_UNLOAD 0 [] s = Ret (0, s')"
    using s' by (simp add: process_action_cmd_def)
  from command_waits_its_turn [OF s(1) _ f _ _ _ this] s(2)
  have "\<exists>e. buffered_cmds s' = buffered_cmds s @ [e]" by auto
  with \<open>process_action_cmd _ _ _ _ s = _\<close> s(1,2) show ?thesis by fastforce
qed

theorem next_command_issued_witness:
  "\<exists>(s :: agv_world) s' r d. cmd_ok s \<and> buffered_cmds s = [d] \<and> issue_next_cmd (\<lambda>x. x, 0, 0, 0) EVENT_ACTION_OVER s = Ret (r, s')
    \<and> buffered_cmds s' = []"
proof -
  obtain s d where s: "cmd_ok s" "buffered_cmds s = [d]" "d ! 0 = ucast ACTION_UNLOAD"
    "s = demo_agv\<lparr>cmdmem := cmdmem s, mtcmdQ := mtcmdQ s\<rparr>"
    by (rule one_buffered [OF demo_busy, of ACTION_UNLOAD]) simp
  have "Motionstyle s = MOTIONSTATE_GOSTRAIGHT" "mc_motors s = demo_motors"
    by (subst s(4), simp add: demo_agv_motion)+
  then have "issue_command (\<lambda>x. x, 0, 0, 0) (ucast (d ! 0)) (drop 2 d) (s\<lparr>mtcmdQ := q\<rparr>)
      = Ret (- perr_code EBUSY, s\<lparr>mtcmdQ := q\<rparr>)" for q
    using s(3) by (simp add: issue_command_def motionctrl_cmd_def dumper_get_state_def demo_motors_def Let_def)
  then obtain s' r where i: "issue_next_cmd (\<lambda>x. x, 0, 0, 0) EVENT_ACTION_OVER s = Ret (r, s')"
    using issue_refused [OF s(1,2), of EVENT_ACTION_OVER "(\<lambda>x. x, 0, 0, 0)"] by auto
  then have "buffered_cmds s' = []" using next_command_issued [OF s(1,2) i] by blast
  with s(1,2) i show ?thesis by (intro exI conjI) assumption+
qed

section \<open>Events\<close>

lemma post_event_deposit:
  assumes "evt_ok s" "0 < OSMemNFree (evtmem s)" "length params \<le> 28"
  obtains s' d where "post_event evt (of_nat (length params)) params s = Ret s'" "evt_ok s'"
    "queued_evts s' = queued_evts s @ [d]"
    "take (Suc (Suc (Suc (length params)))) d = [ucast (evt_seq s), ucast evt, of_nat (length params)] @ params"
    "evt_seq s' = evt_seq s + 1" "OSMemNFree (evtmem s') = OSMemNFree (evtmem s) - 1"
proof -
  obtain p fs where fs: "mem_free (evtmem s) = p # fs"
    using assms(2) by (metis length_mem_free length_greater_0_conv neq_Nil_conv)
  have own: "mbox.owned (mtevtQ s) (evtmem s) []" "OSMemBlkSize (evtmem s) = 32"
    using assms(1) by (simp_all add: evt_ok_def mbox_ok_def)
  obtain m1 where m1: "OSMemGet (evtmem s) = ((p, OS_ERR_NONE), m1)" "mbox.owned (mtevtQ s) m1 [p]" "p \<noteq> 0"
    "OSMemBlkSize m1 = 32" "OSMemPool m1 = OSMemPool (evtmem s)" "mem_free m1 = fs"
    using mbox_get [OF own(1) fs] own(2) by metis
  let ?bs = "[ucast (evt_seq s), ucast evt, of_nat (length params)] @ params"
  have "length ?bs \<le> OSMemBlkSize m1" using assms(3) m1(4) by simp
  from mbox_deposit [OF m1(2) this] obtain m2 q' where m2: "blk_write p 0 ?bs m1 = Ret m2"
    "OSQPost p (mtevtQ s) = (OS_ERR_NONE, q')" "mbox.owned q' m2 []" "OSMemBlkSize m2 = OSMemBlkSize m1"
    "mbox_data q' m2 = mbox_data (mtevtQ s) m1 @ [?bs @ drop (length ?bs) (mem_read p (OSMemBlkSize m1) (OSMemPool m1))]"
    by blast
  have n: "unat (of_nat (length params) :: u32) = length params" using assms(3) by (intro unat_of_nat_u32) simp
  then have "\<not> 30 < (of_nat (length params) :: u32)" using assms(3) by (simp add: word_less_nat_alt)
  then have r: "post_event evt (of_nat (length params)) params s
      = Ret (s\<lparr>evt_seq := evt_seq s + 1, mtevtQ := q', evtmem := m2\<rparr>)"
    using m1(1,3) m2(1,2) n by (simp add: post_event_def Let_def)
  have "mbox_data (mtevtQ s) m1 = queued_evts s"
    using m1(4,5) own(2) by (simp add: mbox_data_def queued_evts_def)
  moreover have "OSMemNFree m1 = OSMemNFree (evtmem s) - 1" using m1(1) assms(2) by (auto simp: OSMemGet_def)
  then have "OSMemNFree m2 = OSMemNFree (evtmem s) - 1" using m2(1) by (auto simp: blk_write_def split: if_splits)
  ultimately show thesis
    using that [OF r] m2(3-5) m1(4) by (simp add: evt_ok_def mbox_ok_def queued_evts_def)
qed

fun post_all :: "(u32 \<times> bytes) list \<Rightarrow> 'a agv_world_scheme \<Rightarrow> 'a agv_world_scheme outcome" where
  "post_all [] s = Ret s"
| "post_all ((e, ps) # es) s = obind (post_event e (of_nat (length ps)) ps s) (post_all es)"

text \<open>
  no event of the motion controller is lost while the task is busy, up to the number of
  free blocks: the events posted are queued in order, each with the next sequence number,
  its code and its parameters.
\<close>

theorem events_queued_in_order:
  assumes "evt_ok s" "length es \<le> OSMemNFree (evtmem s)" "\<forall>(e, ps) \<in> set es. length ps \<le> 28"
  shows "\<exists>s' ds. post_all es s = Ret s' \<and> evt_ok s' \<and> queued_evts s' = queued_evts s @ ds
    \<and> map (\<lambda>d. d ! 0) ds = map (\<lambda>i. ucast (evt_seq s + of_nat i)) [0..<length es]
    \<and> list_all2 (\<lambda>(e, ps) d. take (2 + length ps) (drop 1 d) = [ucast e, of_nat (length ps)] @ ps) es ds"
  using assms
proof (induction es arbitrary: s)
  case Nil
  then show ?case by simp
next
  case (Cons ev es)
  obtain e ps where ev: "ev = (e, ps)" by fastforce
  obtain s1 d where s1: "post_event e (of_nat (length ps)) ps s = Ret s1" "evt_ok s1"
    "queued_evts s1 = queued_evts s @ [d]"
    "take (Suc (Suc (Suc (length ps)))) d = [ucast (evt_seq s), ucast e, of_nat (length ps)] @ ps"
    "evt_seq s1 = evt_seq s + 1" "OSMemNFree (evtmem s1) = OSMemNFree (evtmem s) - 1"
  proof -
    have "0 < OSMemNFree (evtmem s)" "length ps \<le> 28" using Cons.prems(2,3) ev by auto
    from post_event_deposit [OF Cons.prems(1) this, of e] that show thesis by blast
  qed
  obtain x r where d: "d = x # r" using s1(4) by (cases d) auto
  have "length es \<le> OSMemNFree (evtmem s1)" "\<forall>(e, ps) \<in> set es. length ps \<le> 28"
    using Cons.prems(2,3) s1(6) by auto
  from Cons.IH [OF s1(2) this] obtain s' ds where IH: "post_all es s1 = Ret s'" "evt_ok s'"
    "queued_evts s' = queued_evts s1 @ ds"
    "map (\<lambda>d. d ! 0) ds = map (\<lambda>i. ucast (evt_seq s1 + of_nat i)) [0..<length es]"
    "list_all2 (\<lambda>(e, ps) d. take (2 + length ps) (drop 1 d) = [ucast e, of_nat (length ps)] @ ps) es ds"
    by blast
  have m: "map (\<lambda>d. d ! 0) (d # ds) = map (\<lambda>i. ucast (evt_seq s + of_nat i)) [0..<length (ev # es)]"
    using IH(4) s1(4,5) d by (simp add: upt_conv_Cons map_Suc_upt [symmetric] algebra_simps del: upt_Suc)
  have l: "list_all2 (\<lambda>(e, ps) d. take (2 + length ps) (drop 1 d) = [ucast e, of_nat (length ps)] @ ps) (ev # es) (d # ds)"
    using IH(5) s1(4) d ev by simp
  have "post_all (ev # es) s = Ret s'" "queued_evts s' = queued_evts s @ d # ds" using s1(1,3) IH(1,3) ev by simp_all
  with IH(2) m l show ?case by blast
qed

theorem events_queued_in_order_witness:
  "\<exists>s' ds. post_all [(EVENT_POINT_ARRIVAL, [0, 0, 0, 5, 0, 0, 0, 1]), (EVENT_ACTION_OVER, [1])] demo_agv = Ret s'
    \<and> queued_evts s' = queued_evts demo_agv @ ds \<and> length ds = 2"
proof -
  have "OSMemNFree (evtmem demo_agv) = 16" using demo_agv_ok by (simp flip: length_mem_free)
  then show ?thesis
    using events_queued_in_order [of demo_agv "[(EVENT_POINT_ARRIVAL, [0, 0, 0, 5, 0, 0, 0, 1]), (EVENT_ACTION_OVER, [1])]"]
      demo_agv_ok by (fastforce dest: list_all2_lengthD)
qed

section \<open>Commands that do not take effect\<close>

text \<open>
  stop does not stop: the command leaves the vehicle as it is, with its path, its speed
  and its buffered commands, and only the work state says that it has stopped.
\<close>

theorem stop_only_reported:
  assumes "\<not> unloading (mc_motors s)"
  shows "process_action_cmd env ACTION_STOP paramlen params s = Ret (0, set_work_state AGV_WKSTATE_STOP s)"
  using assms by (simp add: process_action_cmd_def issue_command_def stop_not_supported Let_def)

theorem stop_only_reported_witness:
  "process_action_cmd (\<lambda>x. x, 0, 0, 0) ACTION_STOP 0 [] demo_agv = Ret (0, set_work_state AGV_WKSTATE_STOP demo_agv)
    \<and> Motionstyle demo_agv = MOTIONSTATE_GOSTRAIGHT"
  using stop_only_reported [of demo_agv] by (simp add: demo_agv_motion unloading_def demo_motors_def)

text \<open>
  a buffered command to go straight is lost while the vehicle goes backward: at the next
  tag it is taken out of the queue and refused by the motion controller, and nothing of it
  remains but the state \<open>moving\<close> or a way point error.
\<close>

theorem queued_straight_lost:
  assumes "cmd_ok s" "buffered_cmds s = d # ds" "d ! 0 = 1"
    and "Motionstyle s = MOTIONSTATE_GOBACKWARD" "typeOfAction s = ACTION_GOBACKWARD"
    and "process_motionctrl_event env EVENT_POINT_ARRIVAL ps s = Ret (b, s')"
  shows "buffered_cmds s' = ds \<and> Motionstyle s' = Motionstyle s \<and> typeOfAction s' = typeOfAction s
    \<and> sRemain s' = sRemain s \<and> iPath s' = iPath s \<and> wpQ s' = wpQ s"
proof -
  obtain p q where p: "OSQAccept (mtcmdQ s) = ((p, OS_ERR_NONE), q)" "p \<noteq> 0"
    "blk_read p 0 512 (cmdmem s) = Ret d" "mbox.owned q (cmdmem s) [p]" "mbox_data q (cmdmem s) = ds"
    by (rule take_command [OF assms(1,2)])
  have d: "length d = 512" using p(3) by (auto simp: blk_read_def split: if_splits)
  let ?s = "s\<lparr>agvstat := (agvstat s)\<lparr>mtstate := get_motion_state s\<rparr>, mtcmdQ := q\<rparr>"
  obtain r s2 where i: "issue_buffered env p d ?s = Ret (r, s2)"
    and s': "\<exists>ws. s' = set_work_state ws s2"
    using assms(3,6) p(1-3) by (auto simp: process_motionctrl_event_def issue_next_cmd_def Let_def split: if_splits)
  have c: "issue_command env (ucast (d ! 0)) (drop 2 d) ?s = Ret (r1, s1) \<Longrightarrow> s1 = ?s" for r1 s1
    using d assms(3-5)
    by (auto simp: issue_command_def motionctrl_cmd_def Let_def split: if_splits)
  obtain r1 s1 where "issue_command env (ucast (d ! 0)) (drop 2 d) ?s = Ret (r1, s1)"
    and e: "obind (if r1 = - perr_code EINVAL
              then obind (error_callback WAY_POINT_ERROR s1) (\<lambda>s2. Ret (r1, s2))
              else Ret (int (unat (d ! 0)), s1)) (\<lambda>(ret2, s2). Ret (ret2, s2\<lparr>cmdmem := snd (OSMemPut p (cmdmem s2))\<rparr>)) = Ret (r, s2)"
    using i by (auto simp: issue_buffered_def simp del: perr_code.simps)
  with c have s1: "s1 = ?s" by blast
  obtain A B C where "s2 = ?s\<lparr>evt_seq := A, mtevtQ := B, evtmem := C, cmdmem := snd (OSMemPut p (cmdmem s))\<rparr>"
  proof (cases "r1 = - perr_code EINVAL")
    case True
    then obtain s3 where s3: "error_callback WAY_POINT_ERROR ?s = Ret s3" "s2 = s3\<lparr>cmdmem := snd (OSMemPut p (cmdmem s3))\<rparr>"
      using e s1 by auto
    obtain A B C where "s3 = ?s\<lparr>evt_seq := A, mtevtQ := B, evtmem := C\<rparr>"
      using post_event_eq s3(1) unfolding error_callback_def by blast
    then show ?thesis using that [where A = A and B = B and C = C] s3(2) by simp
  next
    case False
    then show ?thesis using e s1 that [where A = "evt_seq s" and B = "mtevtQ s" and C = "evtmem s"] by simp
  qed
  then have "mtcmdQ s2 = q \<and> cmdmem s2 = snd (OSMemPut p (cmdmem s)) \<and> Motionstyle s2 = Motionstyle s
      \<and> typeOfAction s2 = typeOfAction s \<and> sRemain s2 = sRemain s \<and> iPath s2 = iPath s \<and> wpQ s2 = wpQ s" by simp
  moreover have "mbox_data q (snd (OSMemPut p (cmdmem s))) = ds"
    using mbox_put(2) [OF p(4)] p(5) by simp
  ultimately show ?thesis using s' by (auto simp: set_work_state_def buffered_cmds_def)
qed

lemma lock_points_fault:
  "i \<in> set is \<Longrightarrow> length params < 12 + i * 4 + 4 \<Longrightarrow> lock_points is p params s = Fault"
  by (induction "is" arbitrary: p s) (auto simp: Let_def)

text \<open>
  C36: the tags of a straight move are read as far as its length says, not as far as the
  command goes: when the length needs more tags than the parameters hold, an accepted
  command reads outside them.
\<close>

theorem route_length_overread:
  assumes "cmd = ACTION_GOSTRAIGHT \<or> cmd = ACTION_GOBACKWARD" "12 \<le> length params"
    and "length params < 12 + 4 * nat (sint (of_be32 params) div 550)"
    and "last_ponit s = NOT 0" "fst (motionctrl_cmd (fst env) cmd params s) = 0"
  shows "issue_command env cmd params s = Fault"
proof -
  let ?n = "nat (sint (of_be32 params) div 550)"
  obtain s1 where m: "motionctrl_cmd (fst env) cmd params s = (0, s1)" using assms(5) by (metis prod.collapse)
  have n: "0 < ?n" using assms(2,3) by simp
  then have "lock_points [0..<?n] (any_point (of_be32 (drop 8 params))) params s1 = Fault"
    using assms(3) by (intro lock_points_fault [of "?n - 1"]) auto
  then show ?thesis using assms(1,2,4) m by (auto simp: issue_command_def Let_def)
qed

theorem route_length_overread_witness:
  "issue_command (\<lambda>x. x, 0, 0, 0) ACTION_GOSTRAIGHT ([0, 0, 8, 152] @ replicate 12 0)
     (demo_agv\<lparr>Motionstyle := MOTIONSTATE_ONSTOPING\<rparr>) = Fault"
  by (rule route_length_overread)
    (simp_all add: demo_agv_motion motionctrl_cmd_def demo_motors_def dumper_get_state_def word_of_def Let_def)

theorem queued_straight_lost_witness:
  "\<exists>(s :: agv_world) s' b d. cmd_ok s \<and> buffered_cmds s = [d] \<and> d ! 0 = 1
    \<and> process_motionctrl_event (\<lambda>x. x, 0, 0, 0) EVENT_POINT_ARRIVAL [] s = Ret (b, s') \<and> buffered_cmds s' = []"
proof -
  let ?b = "demo_agv\<lparr>Motionstyle := MOTIONSTATE_GOBACKWARD, typeOfAction := ACTION_GOBACKWARD\<rparr>"
  have "cmd_ok ?b" "buffered_cmds ?b = []" "OSMemNFree (cmdmem ?b) = 8"
    using demo_busy by (simp_all add: cmd_ok_def buffered_cmds_def)
  then obtain s d where s: "cmd_ok s" "buffered_cmds s = [d]" "d ! 0 = ucast ACTION_GOSTRAIGHT"
    "s = ?b\<lparr>cmdmem := cmdmem s, mtcmdQ := mtcmdQ s\<rparr>"
    by (rule one_buffered [of ?b ACTION_GOSTRAIGHT]) simp
  have m: "Motionstyle s = MOTIONSTATE_GOBACKWARD" "typeOfAction s = ACTION_GOBACKWARD" "mc_motors s = demo_motors"
    "last_ponit s = NOT 0"
    by (subst s(4), simp add: demo_agv_motion)+
  let ?s = "s\<lparr>agvstat := (agvstat s)\<lparr>mtstate := get_motion_state s\<rparr>\<rparr>"
  obtain p q where "blk_read p 0 512 (cmdmem s) = Ret d" by (rule take_command [OF s(1,2)])
  then have d: "length d = 512" by (auto simp: blk_read_def split: if_splits)
  then have "issue_command (\<lambda>x. x, 0, 0, 0) (ucast (d ! 0)) (drop 2 d) (?s\<lparr>mtcmdQ := q\<rparr>)
      = Ret (- perr_code EBUSY, ?s\<lparr>mtcmdQ := q\<rparr>)" for q
    using s(3) m by (simp add: issue_command_def motionctrl_cmd_def dumper_get_state_def demo_motors_def Let_def)
  moreover have "cmd_ok ?s" "buffered_cmds ?s = [d]" using s(1,2) by (simp_all add: cmd_ok_def buffered_cmds_def)
  ultimately obtain s2 r where "issue_next_cmd (\<lambda>x. x, 0, 0, 0) EVENT_POINT_ARRIVAL ?s = Ret (r, s2)"
    using issue_refused [of ?s d "[]" EVENT_POINT_ARRIVAL "(\<lambda>x. x, 0, 0, 0)"] s(3) by auto
  then obtain b s' where "process_motionctrl_event (\<lambda>x. x, 0, 0, 0) EVENT_POINT_ARRIVAL [] s = Ret (b, s')"
    by (auto simp: process_motionctrl_event_def Let_def)
  moreover from this have "buffered_cmds s' = []" using queued_straight_lost [OF s(1,2) _ m(1,2)] s(3) by simp
  moreover have "d ! 0 = 1" using s(3) by simp
  ultimately show ?thesis using s(1,2) by (intro exI conjI) assumption+
qed

end
