(* ===== verification/Uart_Rx.thy ===== *)
theory Uart_Rx
  imports Fifo
begin

text \<open>
  The UART driver (\<open>usr/bsp/src/bsp_uart.c\<close>): the descriptor of one port with its two
  byte rings, the interrupt handler for the three interrupt causes, the polled
  transmission and the non-blocking read. What the controller reports (a received byte,
  the transmit flags) is an argument of the handler, and what it is given to send a result.
\<close>

section \<open>The port and its operations\<close>

record uart =
  pTxBuf :: bytes
  pRxBuf :: bytes
  usTxBufSize :: u16
  usRxBufSize :: u16
  usTxWrite :: u16
  usTxRead :: u16
  usTxCount :: u16
  ucTxState :: u8
  usRxWrite :: u16
  usRxRead :: u16
  usRxCount :: u16
  TXEIE :: bool
  TCIE :: bool

text \<open>\<open>++i >= size\<close> wraps to 0.\<close>

definition uart_next :: "u16 \<Rightarrow> u16 \<Rightarrow> u16" where
  "uart_next sz i = (if sz \<le> i + 1 then 0 else i + 1)"

definition uart_rxne :: "u8 \<Rightarrow> uart \<Rightarrow> uart" where
  "uart_rxne ch u =
     (let u1 = u\<lparr>pRxBuf := (pRxBuf u)[unat (usRxWrite u) := ch],
                 usRxWrite := uart_next (usRxBufSize u) (usRxWrite u)\<rparr>;
          u2 = (if usRxCount u1 < usRxBufSize u1 then u1\<lparr>usRxCount := usRxCount u1 + 1\<rparr>
                else u1\<lparr>usRxRead := usRxRead u1 + 1\<rparr>)
      in if usRxBufSize u2 \<le> usRxRead u2 then u2\<lparr>usRxRead := 0\<rparr> else u2)"

definition uart_send_next :: "uart \<Rightarrow> bytes \<times> uart" where
  "uart_send_next u =
     ([pTxBuf u ! unat (usTxRead u)],
      u\<lparr>usTxRead := uart_next (usTxBufSize u) (usTxRead u), usTxCount := usTxCount u - 1\<rparr>)"

definition UartIRQ :: "u8 option \<Rightarrow> bool \<Rightarrow> bool \<Rightarrow> uart \<Rightarrow> bytes \<times> uart" where
  "UartIRQ rxne txe tc u =
     (let u1 = (case rxne of Some ch \<Rightarrow> uart_rxne ch u | None \<Rightarrow> u)
      in if txe then
           if usTxCount u1 = 0 then ([], u1\<lparr>TXEIE := False, TCIE := True, ucTxState := 1\<rparr>)
           else uart_send_next u1
         else if tc then
           if usTxCount u1 = 0 then ([], u1\<lparr>TCIE := False\<rparr>)
           else uart_send_next u1
         else ([], u1))"

definition UartVarInit :: "uart \<Rightarrow> uart" where
  "UartVarInit u = u\<lparr>usTxBufSize := 512, usRxBufSize := 512, usTxWrite := 0, usTxRead := 0,
     usRxWrite := 0, usRxRead := 0, usRxCount := 0, usTxCount := 0\<rparr>"

text \<open>The polled send writes every byte and returns their number.\<close>

fun uart_poll_send :: "bytes \<Rightarrow> nat \<Rightarrow> nat \<Rightarrow> bytes" where
  "uart_poll_send buf i 0 = []"
| "uart_poll_send buf i (Suc n) = buf ! i # uart_poll_send buf (Suc i) n"

definition bsp_UartSend :: "bytes \<Rightarrow> u16 \<Rightarrow> int \<times> bytes" where
  "bsp_UartSend buf len = (int (unat len), uart_poll_send buf 0 (unat len))"

datatype uart_port = USART1 | USART2 | USART_other

record uart_dev =
  g_tUart1 :: uart
  g_tUart2 :: uart

definition ComToUart :: "uart_port \<Rightarrow> uart_dev \<Rightarrow> uart option" where
  "ComToUart p d =
     (case p of USART1 \<Rightarrow> Some (g_tUart1 d) | USART2 \<Rightarrow> Some (g_tUart2 d) | USART_other \<Rightarrow> None)"

definition put_uart :: "uart_port \<Rightarrow> uart \<Rightarrow> uart_dev \<Rightarrow> uart_dev" where
  "put_uart p u d =
     (case p of USART1 \<Rightarrow> d\<lparr>g_tUart1 := u\<rparr> | USART2 \<Rightarrow> d\<lparr>g_tUart2 := u\<rparr> | USART_other \<Rightarrow> d)"

text \<open>
  The two loops of the read: the first keeps the count and takes it off at the end, the
  second takes one off per byte.
\<close>

fun uart_copy_all :: "nat \<Rightarrow> uart \<Rightarrow> bytes \<times> uart" where
  "uart_copy_all 0 u = ([], u)"
| "uart_copy_all (Suc n) u =
     (case uart_copy_all n (u\<lparr>usRxRead := uart_next (usRxBufSize u) (usRxRead u)\<rparr>) of
        (bs, u') \<Rightarrow> (pRxBuf u ! unat (usRxRead u) # bs, u'))"

fun uart_copy_some :: "nat \<Rightarrow> uart \<Rightarrow> bytes \<times> uart" where
  "uart_copy_some 0 u = ([], u)"
| "uart_copy_some (Suc n) u =
     (case uart_copy_some n (u\<lparr>usRxRead := uart_next (usRxBufSize u) (usRxRead u),
                               usRxCount := usRxCount u - 1\<rparr>) of
        (bs, u') \<Rightarrow> (pRxBuf u ! unat (usRxRead u) # bs, u'))"

definition uart_receive :: "u16 \<Rightarrow> uart \<Rightarrow> bytes \<times> uart" where
  "uart_receive len u =
     (if usRxCount u = 0 then ([], u)
      else if usRxCount u < len then
        (case uart_copy_all (unat (usRxCount u)) u of
           (bs, u') \<Rightarrow> (bs, u'\<lparr>usRxCount := usRxCount u' - of_nat (length bs)\<rparr>))
      else uart_copy_some (unat len) u)"

definition bsp_UartReceive :: "uart_port \<Rightarrow> u16 \<Rightarrow> uart_dev \<Rightarrow> int \<times> bytes \<times> uart_dev" where
  "bsp_UartReceive p len d =
     (case ComToUart p d of
        None \<Rightarrow> (-1, [], d)
      | Some u \<Rightarrow> (case uart_receive len u of (bs, u') \<Rightarrow> (int (length bs), bs, put_uart p u' d)))"

text \<open>These two do not test the port: a null descriptor is dereferenced.\<close>

definition bsp_UartRxNum :: "uart_port \<Rightarrow> uart_dev \<Rightarrow> u16 outcome" where
  "bsp_UartRxNum p d = (case ComToUart p d of None \<Rightarrow> Fault | Some u \<Rightarrow> Ret (usRxCount u))"

definition bsp_UartClearRx :: "uart_port \<Rightarrow> uart_dev \<Rightarrow> uart_dev outcome" where
  "bsp_UartClearRx p d =
     (case ComToUart p d of
        None \<Rightarrow> Fault
      | Some u \<Rightarrow> Ret (put_uart p (u\<lparr>usRxCount := 0, usRxWrite := 0, usRxRead := 0\<rparr>) d))"

section \<open>Invariant and abstraction\<close>

definition uart_ok :: "uart \<Rightarrow> bool" where
  "uart_ok u \<longleftrightarrow> length (pRxBuf u) = unat (usRxBufSize u) \<and> 0 < unat (usRxBufSize u)
     \<and> unat (usRxBufSize u) < 2 ^ 15 \<and> unat (usRxRead u) < unat (usRxBufSize u)
     \<and> unat (usRxCount u) \<le> unat (usRxBufSize u)
     \<and> unat (usRxWrite u) = (unat (usRxRead u) + unat (usRxCount u)) mod unat (usRxBufSize u)"

definition uart_msgs :: "uart \<Rightarrow> bytes" where
  "uart_msgs u = ring_take (unat (usRxRead u)) (unat (usRxCount u)) (pRxBuf u)"

lemma length_uart_msgs [simp]: "length (uart_msgs u) = unat (usRxCount u)"
  by (simp add: uart_msgs_def)

lemma uart_msgs_empty: "uart_msgs u = [] \<longleftrightarrow> usRxCount u = 0"
  by (metis length_uart_msgs length_0_conv unat_eq_zero)

lemma unat_Suc16: "unat (w :: u16) < n \<Longrightarrow> n < 2 ^ 16 \<Longrightarrow> unat (w + 1) = Suc (unat w)"
  by (simp add: unat_word_ariths)

lemma uart_next_mod:
  assumes "unat i < unat sz" "unat sz < 2 ^ 15"
  shows "unat (uart_next sz i) = Suc (unat i) mod unat sz"
proof -
  have s: "unat (i + 1) = Suc (unat i)" using assms by (intro unat_Suc16) auto
  show ?thesis using assms s by (auto simp: uart_next_def word_le_nat_alt mod_Suc)
qed

lemma UartVarInit_ok:
  "length (pRxBuf u) = 512 \<Longrightarrow> uart_ok (UartVarInit u) \<and> uart_msgs (UartVarInit u) = []"
  by (simp add: UartVarInit_def uart_ok_def uart_msgs_def)

lemma uart_rxne_room:
  assumes "uart_ok u" "usRxCount u < usRxBufSize u"
  shows "uart_ok (uart_rxne ch u) \<and> uart_msgs (uart_rxne ch u) = uart_msgs u @ [ch]
    \<and> usRxBufSize (uart_rxne ch u) = usRxBufSize u"
proof -
  have c: "unat (usRxCount u) < unat (usRxBufSize u)" using assms(2) by (simp add: word_less_nat_alt)
  have c1: "unat (usRxCount u + 1) = Suc (unat (usRxCount u))"
    using c assms(1) by (intro unat_Suc16) (auto simp: uart_ok_def)
  have w: "unat (usRxWrite u) < unat (usRxBufSize u)" "\<not> usRxBufSize u \<le> usRxRead u"
    using assms(1) by (auto simp: uart_ok_def word_le_nat_alt)
  have n: "unat (uart_next (usRxBufSize u) (usRxWrite u)) = Suc (unat (usRxWrite u)) mod unat (usRxBufSize u)"
    using w assms(1) by (intro uart_next_mod) (auto simp: uart_ok_def)
  show ?thesis
    using assms c c1 w n ring_take_snoc [of "unat (usRxCount u)" "pRxBuf u" "unat (usRxRead u)" ch]
    by (simp add: uart_rxne_def Let_def uart_ok_def uart_msgs_def mod_simps)
qed

lemma uart_rxne_full:
  assumes "uart_ok u" "\<not> usRxCount u < usRxBufSize u"
  shows "uart_ok (uart_rxne ch u) \<and> uart_msgs (uart_rxne ch u) = tl (uart_msgs u) @ [ch]
    \<and> usRxBufSize (uart_rxne ch u) = usRxBufSize u"
proof -
  let ?n = "unat (usRxBufSize u)"
  have c: "unat (usRxCount u) = ?n" "usRxCount u = usRxBufSize u"
    using assms by (auto simp: uart_ok_def word_less_nat_alt word_unat_eq_iff)
  have w: "unat (usRxWrite u) = unat (usRxRead u)" "unat (usRxRead u) < ?n"
    using assms(1) c by (auto simp: uart_ok_def)
  have n: "unat (uart_next (usRxBufSize u) (usRxWrite u)) = Suc (unat (usRxRead u)) mod ?n"
    using w assms(1) by (subst uart_next_mod) (auto simp: uart_ok_def)
  have n': "unat (uart_next (usRxBufSize u) (usRxRead u)) = Suc (unat (usRxRead u)) mod ?n"
    using w assms(1) by (subst uart_next_mod) (auto simp: uart_ok_def)
  have "uart_rxne ch u = u\<lparr>pRxBuf := (pRxBuf u)[unat (usRxRead u) := ch],
      usRxWrite := uart_next (usRxBufSize u) (usRxWrite u),
      usRxRead := uart_next (usRxBufSize u) (usRxRead u)\<rparr>"
    using c w by (simp add: uart_rxne_def Let_def uart_next_def)
  then show ?thesis
    using assms c w n n' ring_take_full_overwrite [of "unat (usRxRead u)" "pRxBuf u" ch]
    by (simp add: uart_ok_def uart_msgs_def)
qed

lemma uart_rxne_fifo:
  assumes "uart_ok u"
  shows "uart_ok (uart_rxne ch u)"
    and "uart_msgs (uart_rxne ch u) = keep_last (unat (usRxBufSize u)) (uart_msgs u @ [ch])"
    and "usRxBufSize (uart_rxne ch u) = usRxBufSize u"
proof -
  have "uart_ok (uart_rxne ch u)
    \<and> uart_msgs (uart_rxne ch u) = keep_last (unat (usRxBufSize u)) (uart_msgs u @ [ch])
    \<and> usRxBufSize (uart_rxne ch u) = usRxBufSize u"
  proof (cases "usRxCount u < usRxBufSize u")
    case True
    then have "length (uart_msgs u @ [ch]) \<le> unat (usRxBufSize u)" by (simp add: word_less_nat_alt)
    with uart_rxne_room [OF assms True, of ch] show ?thesis by simp
  next
    case False
    then have "length (uart_msgs u) = unat (usRxBufSize u)"
      using assms by (auto simp: uart_ok_def word_less_nat_alt)
    moreover have "0 < unat (usRxBufSize u)" using assms by (simp add: uart_ok_def)
    ultimately show ?thesis using uart_rxne_full [OF assms False, of ch]
      by (simp add: keep_last_snoc_full)
  qed
  then show "uart_ok (uart_rxne ch u)"
    "uart_msgs (uart_rxne ch u) = keep_last (unat (usRxBufSize u)) (uart_msgs u @ [ch])"
    "usRxBufSize (uart_rxne ch u) = usRxBufSize u" by auto
qed

text \<open>Reading: one step of the loop takes the oldest byte.\<close>

lemma uart_read_step:
  assumes "uart_ok u" "usRxCount u \<noteq> 0"
  defines "u1 \<equiv> u\<lparr>usRxRead := uart_next (usRxBufSize u) (usRxRead u), usRxCount := usRxCount u - 1\<rparr>"
  shows "uart_msgs u = pRxBuf u ! unat (usRxRead u) # uart_msgs u1" and "uart_ok u1"
    and "unat (usRxCount u1) = unat (usRxCount u) - 1"
proof -
  obtain k where k: "unat (usRxCount u) = Suc k"
    using assms(2) by (metis not0_implies_Suc unat_eq_zero)
  have d: "unat (usRxCount u - 1) = k" using k assms(2) by (simp add: unat_minus_one)
  have n: "unat (uart_next (usRxBufSize u) (usRxRead u)) = Suc (unat (usRxRead u)) mod unat (usRxBufSize u)"
    using assms(1) by (intro uart_next_mod) (auto simp: uart_ok_def)
  show "uart_msgs u = pRxBuf u ! unat (usRxRead u) # uart_msgs u1"
    using assms(1) k d n ring_take_Cons [of "unat (usRxRead u)" "pRxBuf u" k]
    by (simp add: u1_def uart_msgs_def uart_ok_def)
  show "uart_ok u1"
    using assms(1) k d n by (simp add: u1_def uart_ok_def mod_simps)
  show "unat (usRxCount u1) = unat (usRxCount u) - 1"
    using k d by (simp add: u1_def)
qed

lemma uart_copy_some_msgs:
  "uart_ok u \<Longrightarrow> n \<le> unat (usRxCount u) \<Longrightarrow>
     \<exists>u'. uart_copy_some n u = (take n (uart_msgs u), u') \<and> uart_ok u'
       \<and> uart_msgs u' = drop n (uart_msgs u) \<and> usRxBufSize u' = usRxBufSize u"
proof (induction n u rule: uart_copy_some.induct)
  case (1 u)
  then show ?case by simp
next
  case (2 n u)
  have nz: "usRxCount u \<noteq> 0" using 2(3) by auto
  note r = uart_read_step [OF 2(2) nz]
  have "n \<le> unat (usRxCount u) - 1" using 2(3) by simp
  then show ?case using 2(1) [OF r(2)] r by (auto simp: r(1))
qed

text \<open>The first loop is the second one with the count taken off at the end.\<close>

lemma uart_copy_all_some:
  "uart_copy_all n u =
     (case uart_copy_some n u of (bs, u') \<Rightarrow> (bs, u'\<lparr>usRxCount := usRxCount u\<rparr>))"
proof (induction n arbitrary: u)
  case 0
  then show ?case by simp
next
  case (Suc n)
  have adj: "uart_copy_some n (w\<lparr>usRxCount := c\<rparr>) = (case uart_copy_some n w of (bs, w') \<Rightarrow>
      (bs, w'\<lparr>usRxCount := c - of_nat n\<rparr>))" for w c
    by (induction n arbitrary: w c) (auto split: prod.splits simp: algebra_simps)
  show ?case
    using adj [of "usRxCount u - 1" "u\<lparr>usRxRead := uart_next (usRxBufSize u) (usRxRead u)\<rparr>"]
    by (auto simp: Suc split: prod.splits)
qed

lemma uart_copy_some_count: "uart_copy_some n u = (bs, u') \<Longrightarrow> usRxCount u' = usRxCount u - of_nat n \<and> length bs = n"
proof (induction n arbitrary: u bs)
  case (Suc n)
  then show ?case
    by (auto split: prod.splits dest!: Suc.IH simp: algebra_simps)
qed simp

lemma uart_receive_some:
  "uart_receive len u = uart_copy_some (min (unat len) (unat (usRxCount u))) u"
proof -
  obtain bs u' where s: "uart_copy_some (unat (usRxCount u)) u = (bs, u')"
    by (cases "uart_copy_some (unat (usRxCount u)) u")
  then show ?thesis
    using uart_copy_some_count [OF s]
    by (auto simp: uart_receive_def uart_copy_all_some word_less_nat_alt min_def)
qed

lemma uart_receive_msgs:
  assumes "uart_ok u"
  obtains u' where "uart_receive len u = (take (unat len) (uart_msgs u), u')" "uart_ok u'"
    "uart_msgs u' = drop (unat len) (uart_msgs u)" "usRxBufSize u' = usRxBufSize u"
proof -
  let ?n = "min (unat len) (unat (usRxCount u))"
  have tk: "take ?n (uart_msgs u) = take (unat len) (uart_msgs u)"
    "drop ?n (uart_msgs u) = drop (unat len) (uart_msgs u)"
    by (auto simp: min_def)
  show thesis
    using uart_copy_some_msgs [OF assms, of ?n] tk that by (auto simp: uart_receive_some)
qed

section \<open>The port as a receive buffer\<close>

text \<open>The transmit half of the handler does not touch the receive ring.\<close>

lemma UartIRQ_rx:
  "uart_ok (snd (UartIRQ (Some ch) txe tc u)) = uart_ok (uart_rxne ch u)"
  "uart_msgs (snd (UartIRQ (Some ch) txe tc u)) = uart_msgs (uart_rxne ch u)"
  "usRxBufSize (snd (UartIRQ (Some ch) txe tc u)) = usRxBufSize (uart_rxne ch u)"
  by (auto simp: UartIRQ_def Let_def uart_send_next_def uart_ok_def uart_msgs_def)

definition uart_isr :: "bool \<Rightarrow> bool \<Rightarrow> u8 \<Rightarrow> uart \<Rightarrow> uart" where
  "uart_isr txe tc ch u = snd (UartIRQ (Some ch) txe tc u)"

definition uart_get :: "uart \<Rightarrow> u8 option \<times> uart" where
  "uart_get u = (case uart_receive 1 u of (bs, u') \<Rightarrow> (case bs of [] \<Rightarrow> None | b # _ \<Rightarrow> Some b, u'))"

interpretation uartrx: lossy_fifo "uart_isr txe tc" uart_get uart_msgs "\<lambda>u. unat (usRxBufSize u)" uart_ok
proof
  fix u x xs
  assume ok: "uart_ok u"
  show "uart_ok (uart_isr txe tc x u) \<and> unat (usRxBufSize (uart_isr txe tc x u)) = unat (usRxBufSize u)"
    "uart_msgs (uart_isr txe tc x u) = keep_last (unat (usRxBufSize u)) (uart_msgs u @ [x])"
    using uart_rxne_fifo [OF ok, of x] by (simp_all add: uart_isr_def UartIRQ_rx)
  show "uart_get u = (None, u)" if "uart_msgs u = []"
    using that by (simp add: uart_msgs_empty uart_get_def uart_receive_def)
  show "\<exists>u'. uart_get u = (Some x, u') \<and> uart_ok u' \<and> uart_msgs u' = xs
      \<and> unat (usRxBufSize u') = unat (usRxBufSize u)" if msgs: "uart_msgs u = x # xs"
    by (rule uart_receive_msgs [OF ok, of 1]) (use msgs in \<open>simp add: uart_get_def\<close>)
  show "length (uart_msgs u) \<le> unat (usRxBufSize u)"
    using ok by (simp add: uart_ok_def)
qed

text \<open>The polled send puts the bytes of the caller on the line in order.\<close>

lemma uart_poll_send_take: "i + n \<le> length buf \<Longrightarrow> uart_poll_send buf i n = take n (drop i buf)"
  by (induction n arbitrary: i) (simp_all add: Cons_nth_drop_Suc [symmetric])

lemma bsp_UartSend_take:
  "unat len \<le> length buf \<Longrightarrow> bsp_UartSend buf len = (int (unat len), take (unat len) buf)"
  by (simp add: bsp_UartSend_def uart_poll_send_take)

section \<open>Properties\<close>

text \<open>
  whatever the transmit side of the interrupt does, the bytes a reader takes from a
  port one by one are the received ones in order, and none is lost as long as the ring
  is not overrun.
\<close>

theorem uart_receive_order:
  assumes "uart_ok u" "fifo_run (uart_isr txe tc) uart_get u ops = (got, u')"
  shows "subseq (got @ uart_msgs u') (uart_msgs u @ fifo_puts ops)
    \<and> (fifo_peak (length (uart_msgs u)) ops \<le> unat (usRxBufSize u)
        \<longrightarrow> got @ uart_msgs u' = uart_msgs u @ fifo_puts ops)"
  using uartrx.run_subseq [OF assms] uartrx.run_lossless [OF assms] by blast

definition demo_uart :: uart where
  "demo_uart = \<lparr>pTxBuf = replicate 4 0, pRxBuf = replicate 4 0, usTxBufSize = 4, usRxBufSize = 4,
     usTxWrite = 0, usTxRead = 0, usTxCount = 0, ucTxState = 0, usRxWrite = 3, usRxRead = 3,
     usRxCount = 0, TXEIE = False, TCIE = False\<rparr>"

lemma demo_uart_ok: "uart_ok demo_uart" "uart_msgs demo_uart = []"
  by (simp_all add: demo_uart_def uart_ok_def uart_msgs_def)

theorem uart_receive_order_witness:
  "\<exists>got u'. fifo_run (uart_isr True False) uart_get demo_uart [FPut 65, FPut 66, FGet, FPut 67] = (got, u')
    \<and> got @ uart_msgs u' = [65, 66, 67]"
proof -
  obtain got u' where r: "fifo_run (uart_isr True False) uart_get demo_uart [FPut 65, FPut 66, FGet, FPut 67] = (got, u')"
    by (cases "fifo_run (uart_isr True False) uart_get demo_uart [FPut 65, FPut 66, FGet, FPut 67]")
  have e: "got @ uart_msgs u' = [65, 66, 67]"
    using uart_receive_order [OF demo_uart_ok(1) r] demo_uart_ok(2) by (simp add: demo_uart_def)
  show ?thesis by (intro exI conjI, rule r, rule e)
qed

text \<open>
  \<open>bsp_UartReceive\<close> returns as many of the oldest bytes as are asked for and there
  are, and leaves exactly the others; an unknown port is refused.
\<close>

theorem bsp_UartReceive_takes:
  assumes "uart_ok (g_tUart1 d)"
  shows "\<exists>d'. bsp_UartReceive USART1 len d
      = (int (min (unat len) (length (uart_msgs (g_tUart1 d)))), take (unat len) (uart_msgs (g_tUart1 d)), d')
    \<and> uart_msgs (g_tUart1 d') = drop (unat len) (uart_msgs (g_tUart1 d)) \<and> g_tUart2 d' = g_tUart2 d
    \<and> uart_ok (g_tUart1 d') \<and> bsp_UartReceive USART_other len d = (-1, [], d)"
proof -
  obtain u' where "uart_receive len (g_tUart1 d) = (take (unat len) (uart_msgs (g_tUart1 d)), u')" "uart_ok u'"
    "uart_msgs u' = drop (unat len) (uart_msgs (g_tUart1 d))"
    by (rule uart_receive_msgs [OF assms])
  then show ?thesis
    by (simp add: bsp_UartReceive_def ComToUart_def put_uart_def min.commute)
qed

theorem bsp_UartReceive_takes_witness:
  "\<exists>d'. bsp_UartReceive USART1 10 \<lparr>g_tUart1 = uart_rxne 7 demo_uart, g_tUart2 = demo_uart\<rparr> = (1, [7], d')"
proof -
  have "uart_ok (uart_rxne 7 demo_uart)" "uart_msgs (uart_rxne 7 demo_uart) = [7]"
    using uart_rxne_fifo [OF demo_uart_ok(1), of 7] demo_uart_ok(2) by (simp_all add: demo_uart_def)
  with bsp_UartReceive_takes [of "\<lparr>g_tUart1 = uart_rxne 7 demo_uart, g_tUart2 = demo_uart\<rparr>" 10]
  show ?thesis by auto
qed

end
