(* ===== verification/Fuzzy.thy ===== *)
theory Fuzzy
  imports Mc_Tools
begin

text \<open>
  The fuzzy controller of the path tracking (\<open>motion_ctrl/fuzzyhuo.c\<close>): lateral and angular
  deviation are scaled to the universe of seven triangular sets each, 49 rules give the
  strengths of seven output sets, and their weighted mean is the speed difference of the
  wheels. The globals are the state; the arithmetic is that of \<open>float\<close>, or \<open>double\<close> where a
  \<open>double\<close> constant or \<open>fabs\<close> takes part.
\<close>

section \<open>State and tables\<close>

record fuzzy =
  rule_strengths :: "rat list"
  fuzzy_inputs :: "rat list list"
  fuzzy_outputs :: "rat list"
  in_univ_fac :: rat
  in_univ_fact :: rat
  out_univ_fac :: rat
  crisp_outputs :: "rat list"

definition inmem_points :: "rat list list" where
  "inmem_points =
     [[- 6, - 6, - 6, - 4], [- 6, - 4, - 4, - 2], [- 4, - 2, - 2, 0], [- 2, 0, 0, 2],
      [0, 2, 2, 4], [2, 4, 4, 6], [4, 6, 6, 6]]"

definition outmem_points :: "rat list list" where
  "outmem_points = [[- 6, 0, 0, 0], [- 4, 0, 0, 0], [- 2, 0, 0, 0], [0, 0, 0, 0], [2, 0, 0, 0], [4, 0, 0, 0], [6, 0, 0, 0]]"

text \<open>Two antecedents and the consequent: \<open>val & 0x07\<close> is the input, \<open>(val & 0x38) >> 3\<close> the set.\<close>

definition Rules :: "(nat \<times> nat \<times> nat) list" where
  "Rules =
     [(0x00, 0x01, 0xb0), (0x00, 0x09, 0xb0), (0x00, 0x11, 0xb0), (0x00, 0x19, 0xb0), (0x00, 0x21, 0xa8),
      (0x00, 0x29, 0xa8), (0x00, 0x31, 0x98), (0x08, 0x01, 0xb0), (0x08, 0x09, 0xa8), (0x08, 0x11, 0xa8),
      (0x08, 0x19, 0xa8), (0x08, 0x21, 0x98), (0x08, 0x29, 0x90), (0x08, 0x31, 0x90), (0x10, 0x01, 0xb0),
      (0x10, 0x09, 0xa8), (0x10, 0x11, 0xa8), (0x10, 0x19, 0xa0), (0x10, 0x21, 0x98), (0x10, 0x29, 0x88),
      (0x10, 0x31, 0x80), (0x18, 0x01, 0xb0), (0x18, 0x09, 0xa8), (0x18, 0x11, 0xa0), (0x18, 0x19, 0x98),
      (0x18, 0x21, 0x90), (0x18, 0x29, 0x90), (0x18, 0x31, 0x80), (0x20, 0x01, 0xb0), (0x20, 0x09, 0xa8),
      (0x20, 0x11, 0x98), (0x20, 0x19, 0x90), (0x20, 0x21, 0x88), (0x20, 0x29, 0x88), (0x20, 0x31, 0x80),
      (0x28, 0x01, 0xa0), (0x28, 0x09, 0xa0), (0x28, 0x11, 0x98), (0x28, 0x19, 0x88), (0x28, 0x21, 0x88),
      (0x28, 0x29, 0x88), (0x28, 0x31, 0x80), (0x30, 0x01, 0x98), (0x30, 0x09, 0x88), (0x30, 0x11, 0x88),
      (0x30, 0x19, 0x80), (0x30, 0x21, 0x80), (0x30, 0x29, 0x80), (0x30, 0x31, 0x80)]"

definition val_index :: "nat \<Rightarrow> nat" where
  "val_index v = v mod 8"

definition val_set :: "nat \<Rightarrow> nat" where
  "val_set v = v div 8 mod 8"

section \<open>Operations\<close>

definition get_membership_value :: "nat \<Rightarrow> rat \<Rightarrow> rat" where
  "get_membership_value mf x =
     (let p = (\<lambda>i. inmem_points ! mf ! i)
      in if x < p 0 then 0
         else if x > p 3 then 0
         else if x \<le> p 1 then if p 0 = p 1 then 1 else fdiv (fsub x (p 0)) (fsub (p 1) (p 0))
         else if x \<ge> p 2 then if p 2 = p 3 then 1 else fdiv (fsub (p 3) x) (fsub (p 3) (p 2))
         else 1)"

definition fuzzify_input :: "nat \<Rightarrow> rat \<Rightarrow> fuzzy \<Rightarrow> fuzzy" where
  "fuzzify_input in_index x f =
     fold (\<lambda>i f. f\<lparr>fuzzy_inputs := (fuzzy_inputs f)[in_index := (fuzzy_inputs f ! in_index)[i := get_membership_value i x]]\<rparr>)
       [0..<7] f"

definition MINFZ :: "rat \<Rightarrow> rat \<Rightarrow> rat" where "MINFZ a b = (if a < b then a else b)"
definition MAXFZ :: "rat \<Rightarrow> rat \<Rightarrow> rat" where "MAXFZ a b = (if a > b then a else b)"

definition eval_rule :: "nat \<Rightarrow> fuzzy \<Rightarrow> fuzzy" where
  "eval_rule rule_index f =
     (case Rules ! rule_index of
        (a0, a1, c) \<Rightarrow>
          let s0 = MINFZ 1 (fuzzy_inputs f ! val_index a0 ! val_set a0);
              s1 = MINFZ s0 (fuzzy_inputs f ! val_index a1 ! val_set a1)
          in f\<lparr>rule_strengths := (rule_strengths f)[rule_index := s1],
               fuzzy_outputs := (fuzzy_outputs f)[val_set c := MAXFZ (fuzzy_outputs f ! val_set c) s1]\<rparr>)"

text \<open>The loop of the mean: sum, product, and the outputs are cleared on the way.\<close>

definition defuzz_step :: "nat \<Rightarrow> rat \<times> rat \<times> fuzzy \<Rightarrow> rat \<times> rat \<times> fuzzy" where
  "defuzz_step i spf =
     (case spf of
        (summ, product, f) \<Rightarrow>
          let temp1 = fuzzy_outputs f ! i; temp2 = outmem_points ! i ! 0
          in (fadd summ temp1, fadd product (fmul temp1 temp2), f\<lparr>fuzzy_outputs := (fuzzy_outputs f)[i := 0]\<rparr>))"

definition defuzzify_output :: "nat \<Rightarrow> fuzzy \<Rightarrow> rat \<times> fuzzy" where
  "defuzzify_output out_index f =
     (case fold defuzz_step [0..<7] (0, 0, f) of
        (summ, product, f1) \<Rightarrow>
          let f2 = (if summ > 0 then f1\<lparr>crisp_outputs := (crisp_outputs f1)[out_index := fdiv product summ]\<rparr> else f1)
          in (crisp_outputs f2 ! out_index, f2))"

definition choose_universe :: "rat \<Rightarrow> rat \<Rightarrow> fuzzy \<Rightarrow> fuzzy" where
  "choose_universe c0 c1 f =
     (if \<bar>c0\<bar> \<le> 5 \<and> \<bar>c1\<bar> \<le> 0.25 then f\<lparr>in_univ_fac := 0.5, in_univ_fact := 0.5, out_univ_fac := 0.5\<rparr>
      else if \<bar>c0\<bar> > 10 then
        let a = fl32 (ddiv \<bar>c0\<bar> 10) in f\<lparr>in_univ_fac := a, in_univ_fact := a, out_univ_fac := LIMIT a 3\<rparr>
      else if \<bar>c1\<bar> > 1 then
        let a = fl32 (ddiv \<bar>c1\<bar> 1) in f\<lparr>in_univ_fact := a, in_univ_fac := a, out_univ_fac := LIMIT a 3\<rparr>
      else f\<lparr>in_univ_fac := 1, in_univ_fact := 1, out_univ_fac := 1\<rparr>)"

definition scale_input :: "rat \<Rightarrow> rat \<Rightarrow> rat" where
  "scale_input x lmt = fl32 (ddiv (dmul (LIMIT x lmt) 6) lmt)"

definition fuzzy_step :: "rat \<Rightarrow> rat \<Rightarrow> fuzzy \<Rightarrow> rat \<times> fuzzy" where
  "fuzzy_step c0 c1 f =
     (let f1 = choose_universe c0 c1 f;
          x0 = scale_input c0 (dmul 10 (in_univ_fac f1));
          x1 = scale_input c1 (dmul 1 (in_univ_fact f1));
          f2 = fuzzify_input 1 x1 (fuzzify_input 0 x0 f1);
          f3 = fold eval_rule [0..<49] f2
      in case defuzzify_output 0 f3 of
           (d, f4) \<Rightarrow> (fl32 (dmul (dmul (ddiv d 6) 10) (out_univ_fac f4)), f4))"

section \<open>Memberships\<close>

lemma inmem_at:
  "inmem_points ! 0 = [- 6, - 6, - 6, - 4]" "inmem_points ! 1 = [- 6, - 4, - 4, - 2]" "inmem_points ! 2 = [- 4, - 2, - 2, 0]"
  "inmem_points ! 3 = [- 2, 0, 0, 2]" "inmem_points ! 4 = [0, 2, 2, 4]" "inmem_points ! 5 = [2, 4, 4, 6]"
  "inmem_points ! 6 = [4, 6, 6, 6]"
  by (simp_all add: inmem_points_def)

text \<open>Half of a rounded distance.\<close>

lemma half_dist:
  assumes "0 \<le> d" "d \<le> 2" shows "0 \<le> fdiv (fl32 d) 2" "fdiv (fl32 d) 2 \<le> 1" "1 \<le> d \<Longrightarrow> 1 / 2 \<le> fdiv (fl32 d) 2"
proof -
  have d: "0 \<le> fl32 d" "fl32 d \<le> 2" using fl32_between_int [of 0 d 2] assms by simp_all
  then show "0 \<le> fdiv (fl32 d) 2" "fdiv (fl32 d) 2 \<le> 1"
    using fl32_between_int [of 0 "fl32 d / 2" 1] by (simp_all add: fdiv_def)
  assume "1 \<le> d"
  then have "1 \<le> fl32 d" using fl32_between_int [of 1 d 2] assms by simp
  then have "fl32 (1 / 2) \<le> fl32 (fl32 d / 2)" using d by (intro fl32_mono) auto
  moreover have "fl32 (1 / 2) = 1 / 2" by (rule fl32_dyadic [of _ 1 1]) simp_all
  ultimately show "1 / 2 \<le> fdiv (fl32 d) 2" by (simp add: fdiv_def)
qed

lemma membership_range: "mf < 7 \<Longrightarrow> 0 \<le> get_membership_value mf x \<and> get_membership_value mf x \<le> 1"
proof -
  assume "mf < 7"
  then have "mf \<in> {0, 1, 2, 3, 4, 5, 6}" by auto
  moreover have fs: "fsub a b = fl32 (a - b)" for a b by (simp add: fsub_def)
  ultimately show ?thesis
    by (elim insertE emptyE)
      (auto simp: get_membership_value_def Let_def inmem_at [simplified] fs half_dist [simplified])
qed

lemma membership_half: "- 6 \<le> x \<Longrightarrow> x \<le> 6 \<Longrightarrow> \<exists>mf<7. 1 / 2 \<le> get_membership_value mf x"
proof -
  assume x: "- 6 \<le> x" "x \<le> 6"
  have fs: "fsub a b = fl32 (a - b)" for a b by (simp add: fsub_def)
  note d = get_membership_value_def Let_def inmem_at [simplified] fs half_dist [simplified]
  consider "x \<le> - 5" | "- 5 \<le> x" "x \<le> - 3" | "- 3 \<le> x" "x \<le> - 1" | "- 1 \<le> x" "x \<le> 1"
    | "1 \<le> x" "x \<le> 3" | "3 \<le> x" "x \<le> 5" | "5 \<le> x" by linarith
  then show ?thesis
  proof cases
    case 1 then show ?thesis using x by (intro exI [of _ 0]) (auto simp: d)
  next
    case 2 then show ?thesis using x by (intro exI [of _ 1]) (auto simp: d)
  next
    case 3 then show ?thesis using x by (intro exI [of _ 2]) (auto simp: d)
  next
    case 4 then show ?thesis using x by (intro exI [of _ 3]) (auto simp: d)
  next
    case 5 then show ?thesis using x by (intro exI [of _ 4]) (auto simp: d)
  next
    case 6 then show ?thesis using x by (intro exI [of _ 5]) (auto simp: d)
  next
    case 7 then show ?thesis using x by (intro exI [of _ 6]) (auto simp: d)
  qed
qed

section \<open>The rules\<close>

text \<open>
  A state between two steps: arrays of the declared lengths, the outputs cleared. After the
  inputs were fuzzified, the memberships \<open>ms0\<close> and \<open>ms1\<close> are the first seven entries of
  the two rows.
\<close>

definition fuzzy_ok :: "fuzzy \<Rightarrow> bool" where
  "fuzzy_ok f \<longleftrightarrow> length (fuzzy_inputs f) = 2 \<and> length (fuzzy_inputs f ! 0) = 8 \<and> length (fuzzy_inputs f ! 1) = 8
     \<and> fuzzy_outputs f = replicate 8 0 \<and> length (rule_strengths f) = 49 \<and> length (crisp_outputs f) = 1"

lemma fuzzify_fold:
  "n \<le> 8 \<Longrightarrow> k < length (fuzzy_inputs f) \<Longrightarrow> length (fuzzy_inputs f ! k) = 8 \<Longrightarrow>
     fold (\<lambda>i f. f\<lparr>fuzzy_inputs := (fuzzy_inputs f)[k := (fuzzy_inputs f ! k)[i := g i]]\<rparr>) [0..<n] f
     = f\<lparr>fuzzy_inputs := (fuzzy_inputs f)[k := map g [0..<n] @ drop n (fuzzy_inputs f ! k)]\<rparr>"
proof (induction n)
  case 0
  then show ?case by simp
next
  case (Suc n)
  then have "drop n (fuzzy_inputs f ! k) = fuzzy_inputs f ! k ! n # drop (Suc n) (fuzzy_inputs f ! k)"
    by (simp add: Cons_nth_drop_Suc)
  then show ?case using Suc by (simp add: list_update_append)
qed

lemma fuzzify_input_eq:
  "k < length (fuzzy_inputs f) \<Longrightarrow> length (fuzzy_inputs f ! k) = 8 \<Longrightarrow>
     fuzzify_input k x f = f\<lparr>fuzzy_inputs := (fuzzy_inputs f)[k := map (\<lambda>i. get_membership_value i x) [0..<7] @ drop 7 (fuzzy_inputs f ! k)]\<rparr>"
  unfolding fuzzify_input_def by (rule fuzzify_fold) simp_all

text \<open>What is known of the outputs while the rules are evaluated.\<close>

definition rule_strength :: "(nat \<Rightarrow> rat) \<Rightarrow> (nat \<Rightarrow> rat) \<Rightarrow> nat \<Rightarrow> rat" where
  "rule_strength m0 m1 i = MINFZ (MINFZ 1 (m0 (i div 7))) (m1 (i mod 7))"

lemma Rules_at:
  "i < 49 \<Longrightarrow> case Rules ! i of (a0, a1, c) \<Rightarrow> val_index a0 = 0 \<and> val_set a0 = i div 7 \<and> val_index a1 = 1
     \<and> val_set a1 = i mod 7 \<and> val_set c < 7"
proof -
  have "\<forall>i \<in> set [0..<49]. case Rules ! i of (a0, a1, c) \<Rightarrow> val_index a0 = 0 \<and> val_set a0 = i div 7 \<and> val_index a1 = 1
     \<and> val_set a1 = i mod 7 \<and> val_set c < 7" by code_simp
  then show "i < 49 \<Longrightarrow> ?thesis" by simp
qed

definition con_set :: "nat \<Rightarrow> nat" where
  "con_set i = val_set (snd (snd (Rules ! i)))"

lemma con_set_less: "i < 49 \<Longrightarrow> con_set i < 7"
  using Rules_at [of i] by (auto simp: con_set_def split: prod.splits)

text \<open>The outputs after the first \<open>n\<close> rules: each the largest strength of the rules for its set.\<close>

fun out_after :: "(nat \<Rightarrow> rat) \<Rightarrow> (nat \<Rightarrow> rat) \<Rightarrow> nat \<Rightarrow> rat list" where
  "out_after m0 m1 0 = replicate 8 0"
| "out_after m0 m1 (Suc n) =
     (out_after m0 m1 n)[con_set n := MAXFZ (out_after m0 m1 n ! con_set n) (rule_strength m0 m1 n)]"

lemma length_out_after [simp]: "length (out_after m0 m1 n) = 8"
  by (induction n) simp_all

lemma eval_rules_eq:
  assumes "fuzzy_inputs f = [map m0 [0..<7] @ r0, map m1 [0..<7] @ r1]" "fuzzy_outputs f = replicate 8 0"
    and "length (rule_strengths f) = 49"
  shows "n \<le> 49 \<Longrightarrow> fold eval_rule [0..<n] f
    = f\<lparr>rule_strengths := map (rule_strength m0 m1) [0..<n] @ drop n (rule_strengths f), fuzzy_outputs := out_after m0 m1 n\<rparr>"
proof (induction n)
  case 0
  then show ?case using assms by simp
next
  case (Suc n)
  let ?f = "f\<lparr>rule_strengths := map (rule_strength m0 m1) [0..<n] @ drop n (rule_strengths f), fuzzy_outputs := out_after m0 m1 n\<rparr>"
  obtain a0 a1 c where r: "Rules ! n = (a0, a1, c)" by (cases "Rules ! n")
  have i: "val_index a0 = 0" "val_set a0 = n div 7" "val_index a1 = 1" "val_set a1 = n mod 7" "con_set n = val_set c"
    using Rules_at [of n] Suc.prems r by (simp_all add: con_set_def)
  have b: "n div 7 < 7" "n mod 7 < 7" using Suc.prems by auto
  have "drop n (rule_strengths f) = rule_strengths f ! n # drop (Suc n) (rule_strengths f)"
    using Suc.prems assms(3) by (simp add: Cons_nth_drop_Suc)
  then have "eval_rule n ?f = f\<lparr>rule_strengths := map (rule_strength m0 m1) [0..<Suc n] @ drop (Suc n) (rule_strengths f),
      fuzzy_outputs := out_after m0 m1 (Suc n)\<rparr>"
    using assms(1) b by (simp add: eval_rule_def r i Let_def nth_append rule_strength_def list_update_append)
  then show ?case using Suc by simp
qed

lemma out_after_range:
  assumes "\<forall>i<7. 0 \<le> m0 i \<and> m0 i \<le> 1" "\<forall>i<7. 0 \<le> m1 i \<and> m1 i \<le> 1"
  shows "n \<le> 49 \<Longrightarrow> j < 8 \<Longrightarrow> 0 \<le> out_after m0 m1 n ! j \<and> out_after m0 m1 n ! j \<le> 1"
proof (induction n)
  case (Suc n)
  have "n div 7 < 7" "n mod 7 < 7" using Suc.prems by auto
  then have "0 \<le> rule_strength m0 m1 n \<and> rule_strength m0 m1 n \<le> 1"
    using assms by (auto simp: rule_strength_def MINFZ_def)
  then show ?case using Suc con_set_less [of n] by (auto simp: nth_list_update MAXFZ_def)
qed simp

lemma out_after_mono: "n \<le> k \<Longrightarrow> k \<le> 49 \<Longrightarrow> j < 8 \<Longrightarrow> out_after m0 m1 n ! j \<le> out_after m0 m1 k ! j"
proof (induction k)
  case (Suc k)
  then show ?case using con_set_less [of k]
    by (cases "n = Suc k") (auto simp: nth_list_update MAXFZ_def le_Suc_eq)
qed simp

lemma out_after_fires:
  assumes "i < 49" "h \<le> 1" "h \<le> m0 (i div 7)" "h \<le> m1 (i mod 7)"
  shows "h \<le> out_after m0 m1 49 ! con_set i"
proof -
  have "h \<le> out_after m0 m1 (Suc i) ! con_set i"
    using assms con_set_less [of i] by (auto simp: rule_strength_def MINFZ_def MAXFZ_def)
  also have "\<dots> \<le> out_after m0 m1 49 ! con_set i"
    using assms(1) con_set_less [of i] by (intro out_after_mono) auto
  finally show ?thesis .
qed

section \<open>The inputs on their universe\<close>

lemma univ_factor:
  assumes "1 \<le> x" "x \<le> 1000" "d = 1 \<or> d = 10" "d \<le> x"
  shows "1 \<le> fl32 (ddiv x d)" "fl32 (ddiv x d) \<le> 1000"
proof -
  have q: "1 \<le> x / d" "x / d \<le> 1000" using assms by (auto simp: field_simps)
  have "fl64 1 \<le> fl64 (x / d)" "fl64 (x / d) \<le> fl64 1000" using q by (auto intro!: fl64_mono)
  moreover have "fl64 1 = 1" "fl64 1000 = 1000" using fl64_of_int [of 1] fl64_of_int [of 1000] by simp_all
  ultimately have "1 \<le> ddiv x d" "ddiv x d \<le> 1000" by (simp_all add: ddiv_def)
  then show "1 \<le> fl32 (ddiv x d)" "fl32 (ddiv x d) \<le> 1000"
    using fl32_between_int [of 1 "ddiv x d" 1000] by simp_all
qed

lemma universe_bounds:
  assumes "\<bar>c0\<bar> \<le> 1000" "\<bar>c1\<bar> \<le> 1000"
  shows "1 / 2 \<le> in_univ_fac (choose_universe c0 c1 f) \<and> in_univ_fac (choose_universe c0 c1 f) \<le> 1000
    \<and> 1 / 2 \<le> in_univ_fact (choose_universe c0 c1 f) \<and> in_univ_fact (choose_universe c0 c1 f) \<le> 1000
    \<and> \<bar>out_univ_fac (choose_universe c0 c1 f)\<bar> \<le> 3"
proof -
  have l: "\<bar>LIMIT a 3\<bar> \<le> 3" for a using LIMIT_bounds [of 3 a] by (simp add: abs_le_iff)
  show ?thesis
    using univ_factor [of "\<bar>c0\<bar>" 10] univ_factor [of "\<bar>c1\<bar>" 1] assms l by (auto simp: choose_universe_def Let_def)
qed

lemma fl32_six: "fl32 (6 + 1 / 2 ^ 30) = 6"
  using fl32_value [of "6 + 1 / 2 ^ 30" "- 21" 12582912] by (simp add: pow2_def)

lemma scale_input_range:
  assumes "1 / 2 \<le> L" "L \<le> 10001" shows "- 6 \<le> scale_input x L \<and> scale_input x L \<le> 6"
proof -
  define y where "y = LIMIT x L"
  have y: "- L \<le> y" "y \<le> L" using LIMIT_bounds [of L x] assms by (simp_all add: y_def)
  define z where "z = dmul y 6"
  have y6: "\<bar>y * 6\<bar> < 2 ^ 16" using y assms by simp
  have z: "\<bar>z - y * 6\<bar> \<le> 1 / 2 ^ 38"
    using fl64_error [OF y6] by (simp add: z_def dmul_def pow2_def)
  have L: "0 < L" using assms by linarith
  have "\<bar>z\<bar> \<le> 6 * L + 1 / 2 ^ 38" using z y by linarith
  also have "\<dots> \<le> (6 + 1 / 2 ^ 37) * L"
  proof -
    have "(1 / 2 ^ 37) * (1 / 2) \<le> 1 / 2 ^ 37 * L" using assms by (intro mult_left_mono) auto
    then show ?thesis by (simp add: algebra_simps)
  qed
  finally have q: "\<bar>z / L\<bar> \<le> 6 + 1 / 2 ^ 37" using L by (simp add: abs_divide divide_le_eq)
  moreover have "(6 :: rat) + 1 / 2 ^ 37 < 2 ^ 3" by simp
  ultimately have "\<bar>z / L\<bar> < 2 ^ 3" by (rule le_less_trans)
  then have "\<bar>ddiv z L - z / L\<bar> \<le> 1 / 2 ^ 51" using fl64_error [of "z / L" 3] by (simp add: ddiv_def pow2_def)
  moreover have "(6 :: rat) + 1 / 2 ^ 37 + 1 / 2 ^ 51 \<le> 6 + 1 / 2 ^ 30" by simp
  ultimately have d: "\<bar>ddiv z L\<bar> \<le> 6 + 1 / 2 ^ 30" using q by linarith
  then have d': "- (6 + 1 / 2 ^ 30) \<le> ddiv z L" "ddiv z L \<le> 6 + 1 / 2 ^ 30" by linarith+
  have "fl32 (ddiv z L) \<le> fl32 (6 + 1 / 2 ^ 30)" using d by (intro fl32_mono d') auto
  moreover have "fl32 (- (6 + 1 / 2 ^ 30)) \<le> fl32 (ddiv z L)" using d by (intro fl32_mono d') auto
  ultimately show ?thesis
    unfolding scale_input_def y_def [symmetric] z_def [symmetric] fl32_minus fl32_six by simp
qed

section \<open>The mean of the outputs\<close>

lemma outmem_bound: "i < 7 \<Longrightarrow> \<bar>outmem_points ! i ! 0\<bar> \<le> 6"
proof -
  assume "i < 7"
  then have "i \<in> {0, 1, 2, 3, 4, 5, 6}" by auto
  then show ?thesis by (elim insertE emptyE) (simp_all add: outmem_points_def)
qed

lemma fl64_half: "fl64 (1 / 2) = 1 / 2"
  unfolding fl64_def by (intro fround_exact [OF fmt64, of _ 1 "- 1"]) (simp_all add: pow2_def)

lemma defuzz_fold:
  assumes "length (fuzzy_outputs f) = 8" "\<forall>i<7. 0 \<le> fuzzy_outputs f ! i \<and> fuzzy_outputs f ! i \<le> 1"
  shows "n \<le> 7 \<Longrightarrow> \<exists>s p. fold defuzz_step [0..<n] (0, 0, f) = (s, p, f\<lparr>fuzzy_outputs := replicate n 0 @ drop n (fuzzy_outputs f)\<rparr>)
    \<and> \<bar>s - (\<Sum>i<n. fuzzy_outputs f ! i)\<bar> \<le> of_nat n / 2 ^ 21
    \<and> \<bar>p - (\<Sum>i<n. fuzzy_outputs f ! i * outmem_points ! i ! 0)\<bar> \<le> of_nat n / 2 ^ 18"
proof (induction n)
  case 0
  then show ?case by simp
next
  case (Suc n)
  let ?o = "fuzzy_outputs f" and ?pt = "\<lambda>i. outmem_points ! i ! 0"
  define S where "S = (\<Sum>i<n. ?o ! i)"
  define P where "P = (\<Sum>i<n. ?o ! i * ?pt i)"
  obtain s p where sp: "fold defuzz_step [0..<n] (0, 0, f) = (s, p, f\<lparr>fuzzy_outputs := replicate n 0 @ drop n ?o\<rparr>)"
    "\<bar>s - S\<bar> \<le> of_nat n / 2 ^ 21" "\<bar>p - P\<bar> \<le> of_nat n / 2 ^ 18"
    using Suc unfolding S_def P_def by auto
  have o: "0 \<le> ?o ! n" "?o ! n \<le> 1" using assms(2) Suc.prems by simp_all
  note pt = outmem_bound
  have n: "of_nat n \<le> (6 :: rat)" using Suc.prems by simp
  have "\<bar>S\<bar> \<le> of_nat n"
    unfolding S_def using assms(2) Suc.prems sum_bounded_above [of "{..<n}" "\<lambda>i. ?o ! i" 1] sum_nonneg [of "{..<n}" "\<lambda>i. ?o ! i"]
    by simp
  moreover have e1: "of_nat n / 2 ^ 21 \<le> (1 :: rat)" "of_nat n / 2 ^ 18 \<le> (1 :: rat)" using n by simp_all
  ultimately have "\<bar>s + ?o ! n\<bar> < 16" using sp(2) n o by linarith
  then have "\<bar>s + ?o ! n\<bar> < 2 ^ 4" by simp
  then have s: "\<bar>fadd s (?o ! n) - (s + ?o ! n)\<bar> \<le> 1 / 2 ^ 21" using fl32_error [of "s + ?o ! n" 4] by (simp add: fadd_def pow2_def)
  have m: "\<bar>?o ! i * ?pt i\<bar> \<le> 6" if "i < 7" for i
    using mult_mono [of "\<bar>?o ! i\<bar>" 1 "\<bar>?pt i\<bar>" 6] pt [OF that] assms(2) that by (simp add: abs_mult)
  have "\<bar>P\<bar> \<le> (\<Sum>i<n. \<bar>?o ! i * ?pt i\<bar>)" unfolding P_def by (rule sum_abs)
  also have "\<dots> \<le> of_nat (card {..<n}) * 6" using m Suc.prems by (intro sum_bounded_above) auto
  finally have P: "\<bar>P\<bar> \<le> 36" using n by simp
  have mn: "\<bar>?o ! n * ?pt n\<bar> \<le> 6" using m Suc.prems by simp
  then have "\<bar>?o ! n * ?pt n\<bar> < 2 ^ 3" by simp
  then have e: "\<bar>fmul (?o ! n) (?pt n) - ?o ! n * ?pt n\<bar> \<le> 1 / 2 ^ 22"
    using fl32_error [of "?o ! n * ?pt n" 3] by (simp add: fmul_def pow2_def)
  have "(1 :: rat) / 2 ^ 22 \<le> 1" by simp
  then have "\<bar>p + fmul (?o ! n) (?pt n)\<bar> < 64" using sp(3) e1(2) P e mn by linarith
  then have "\<bar>p + fmul (?o ! n) (?pt n)\<bar> < 2 ^ 6" by simp
  then have "\<bar>fadd p (fmul (?o ! n) (?pt n)) - (p + fmul (?o ! n) (?pt n))\<bar> \<le> 1 / 2 ^ 19"
    using fl32_error [of "p + fmul (?o ! n) (?pt n)" 6] by (simp add: fadd_def pow2_def)
  moreover have "(1::rat) / 2 ^ 19 + 1 / 2 ^ 22 \<le> 1 / 2 ^ 18" by simp
  ultimately have p: "\<bar>fadd p (fmul (?o ! n) (?pt n)) - (p + ?o ! n * ?pt n)\<bar> \<le> 1 / 2 ^ 18" using e by linarith
  have d: "drop n ?o = ?o ! n # drop (Suc n) ?o" using assms(1) Suc.prems by (simp add: Cons_nth_drop_Suc)
  have r: "replicate (Suc n) (0 :: rat) @ xs = replicate n 0 @ 0 # xs" for xs
    using replicate_append_same [of n "0 :: rat"] by (simp del: replicate_append_same flip: append_Cons replicate_append_same)
  have "fold defuzz_step [0..<Suc n] (0, 0, f)
    = (fadd s (?o ! n), fadd p (fmul (?o ! n) (?pt n)), f\<lparr>fuzzy_outputs := replicate (Suc n) 0 @ drop (Suc n) ?o\<rparr>)"
    by (simp add: sp(1) defuzz_step_def Let_def d nth_append list_update_append r del: replicate.simps)
  moreover have "\<bar>fadd s (?o ! n) - (S + ?o ! n)\<bar> \<le> of_nat n / 2 ^ 21 + 1 / 2 ^ 21" using s sp(2) by linarith
  moreover have "\<bar>fadd p (fmul (?o ! n) (?pt n)) - (P + ?o ! n * ?pt n)\<bar> \<le> of_nat n / 2 ^ 18 + 1 / 2 ^ 18" using p sp(3) by linarith
  ultimately show ?case by (simp add: S_def P_def add_divide_distrib algebra_simps)
qed

lemma crisp_bound:
  assumes "\<bar>s - S\<bar> \<le> 7 / 2 ^ 21" "\<bar>p - P\<bar> \<le> 7 / 2 ^ 18" "\<bar>P\<bar> \<le> 6 * S" "1 / 2 \<le> S"
  shows "0 < s" "\<bar>fdiv p s\<bar> \<le> 601 / 100"
proof -
  have c: "(7::rat) / 2 ^ 21 \<le> 1 / 100000" "(7::rat) / 2 ^ 18 \<le> 1 / 10000" by simp_all
  then have s: "S - 1 / 100000 \<le> s" "0 < s" using assms by linarith+
  then show "0 < s" by simp
  have "\<bar>p\<bar> \<le> 6 * S + 1 / 10000" using assms(2,3) c(2) by linarith
  then have "\<bar>p\<bar> \<le> 3001 / 500 * s" using s(1) assms(4) by simp
  then have q: "\<bar>p / s\<bar> \<le> 3001 / 500" using s(2) by (simp add: abs_divide pos_divide_le_eq)
  then have "\<bar>p / s\<bar> < 8" by linarith
  then have "\<bar>p / s\<bar> < 2 ^ 3" by simp
  then have "\<bar>fdiv p s - p / s\<bar> \<le> 1 / 2 ^ 22" using fl32_error [of "p / s" 3] by (simp add: fdiv_def pow2_def)
  moreover have "(1::rat) / 2 ^ 22 \<le> 1 / 1000" by simp
  ultimately show "\<bar>fdiv p s\<bar> \<le> 601 / 100" using q by linarith
qed

lemma scale_output:
  assumes "\<bar>d\<bar> \<le> 601 / 100" "\<bar>u\<bar> \<le> 3" shows "\<bar>fl32 (dmul (dmul (ddiv d 6) 10) u)\<bar> \<le> 31"
proof -
  have e: "\<bar>fl64 x - x\<bar> \<le> 1 / 1000" if "\<bar>x\<bar> < 32" for x
  proof -
    have "\<bar>x\<bar> < 2 ^ 5" using that by simp
    from fl64_error [OF this] have "\<bar>fl64 x - x\<bar> \<le> 1 / 2 ^ 49" by (simp add: pow2_def)
    moreover have "(1::rat) / 2 ^ 49 \<le> 1 / 1000" by simp
    ultimately show ?thesis by linarith
  qed
  have "\<bar>d / 6\<bar> \<le> 501 / 500" using assms(1) by simp
  then have a: "\<bar>ddiv d 6\<bar> \<le> 1003 / 1000" unfolding ddiv_def using e [of "d / 6"] by linarith
  then have "\<bar>ddiv d 6 * 10\<bar> \<le> 1003 / 100" by simp
  then have b: "\<bar>dmul (ddiv d 6) 10\<bar> \<le> 251 / 25" unfolding dmul_def using e [of "ddiv d 6 * 10"] by linarith
  have "\<bar>dmul (ddiv d 6) 10 * u\<bar> \<le> 251 / 25 * 3" unfolding abs_mult using b assms(2) by (intro mult_mono) auto
  then have "\<bar>dmul (dmul (ddiv d 6) 10) u\<bar> \<le> 31"
    unfolding dmul_def [of _ u] using e [of "dmul (ddiv d 6) 10 * u"] by linarith
  then show ?thesis using fl32_between_int [of "- 31" "dmul (dmul (ddiv d 6) 10) u" 31] by (simp add: abs_le_iff)
qed

section \<open>One step of the controller\<close>

text \<open>The value and the state of a step, in terms of the scaled inputs alone.\<close>

definition step_outputs :: "rat \<Rightarrow> rat \<Rightarrow> fuzzy \<Rightarrow> rat list" where
  "step_outputs c0 c1 f =
     out_after (\<lambda>i. get_membership_value i (scale_input c0 (dmul 10 (in_univ_fac (choose_universe c0 c1 f)))))
               (\<lambda>i. get_membership_value i (scale_input c1 (dmul 1 (in_univ_fact (choose_universe c0 c1 f))))) 49"

lemma choose_universe_frame:
  "fuzzy_inputs (choose_universe c0 c1 f) = fuzzy_inputs f" "fuzzy_outputs (choose_universe c0 c1 f) = fuzzy_outputs f"
  "rule_strengths (choose_universe c0 c1 f) = rule_strengths f" "crisp_outputs (choose_universe c0 c1 f) = crisp_outputs f"
  "in_univ_fac (choose_universe c0 c1 f) = in_univ_fac (choose_universe c0 c1 g)"
  "in_univ_fact (choose_universe c0 c1 f) = in_univ_fact (choose_universe c0 c1 g)"
  "out_univ_fac (choose_universe c0 c1 f) = out_univ_fac (choose_universe c0 c1 g)"
  by (auto simp: choose_universe_def Let_def)

lemma after_rules:
  assumes "fuzzy_ok f" and "f1 = choose_universe c0 c1 f"
  shows "\<exists>rs ins. length rs = 49 \<and> length ins = 2 \<and> length (ins ! 0) = 8 \<and> length (ins ! 1) = 8
    \<and> fold eval_rule [0..<49] (fuzzify_input 1 (scale_input c1 (dmul 1 (in_univ_fact f1)))
        (fuzzify_input 0 (scale_input c0 (dmul 10 (in_univ_fac f1))) f1))
      = f1\<lparr>fuzzy_inputs := ins, rule_strengths := rs, fuzzy_outputs := step_outputs c0 c1 f\<rparr>"
proof -
  let ?x0 = "scale_input c0 (dmul 10 (in_univ_fac f1))" and ?x1 = "scale_input c1 (dmul 1 (in_univ_fact f1))"
  have ok: "length (fuzzy_inputs f1) = 2" "length (fuzzy_inputs f1 ! 0) = 8" "length (fuzzy_inputs f1 ! 1) = 8"
    "fuzzy_outputs f1 = replicate 8 0" "length (rule_strengths f1) = 49"
    using assms by (simp_all add: fuzzy_ok_def choose_universe_frame)
  obtain a b where ab: "fuzzy_inputs f1 = [a, b]" "length a = 8" "length b = 8"
    using ok(1-3) by (auto simp: length_Suc_conv numeral_2_eq_2)
  let ?ins = "[map (\<lambda>i. get_membership_value i ?x0) [0..<7] @ drop 7 a, map (\<lambda>i. get_membership_value i ?x1) [0..<7] @ drop 7 b]"
  have "fuzzify_input 1 ?x1 (fuzzify_input 0 ?x0 f1) = f1\<lparr>fuzzy_inputs := ?ins\<rparr>"
    using ab by (simp add: fuzzify_input_eq)
  moreover have "fold eval_rule [0..<49] (f1\<lparr>fuzzy_inputs := ?ins\<rparr>)
      = f1\<lparr>fuzzy_inputs := ?ins, rule_strengths := map (rule_strength (\<lambda>i. get_membership_value i ?x0) (\<lambda>i. get_membership_value i ?x1)) [0..<49],
          fuzzy_outputs := step_outputs c0 c1 f\<rparr>"
    using eval_rules_eq [of "f1\<lparr>fuzzy_inputs := ?ins\<rparr>" "\<lambda>i. get_membership_value i ?x0" _ "\<lambda>i. get_membership_value i ?x1" _ 49] ok
    by (simp add: step_outputs_def assms(2) del: upt_Suc upt_rec_numeral)
  ultimately show ?thesis
    using ab by (intro exI [of _ ?ins] exI [of _ "map _ [0..<49]"]) (auto simp del: upt_rec_numeral)
qed

lemma step_outputs_facts:
  assumes "\<bar>c0\<bar> \<le> 1000" "\<bar>c1\<bar> \<le> 1000"
  shows "\<forall>i<7. 0 \<le> step_outputs c0 c1 f ! i \<and> step_outputs c0 c1 f ! i \<le> 1"
    and "1 / 2 \<le> (\<Sum>i<7. step_outputs c0 c1 f ! i)"
proof -
  let ?c = "choose_universe c0 c1 f"
  define x0 where "x0 = scale_input c0 (dmul 10 (in_univ_fac ?c))"
  define x1 where "x1 = scale_input c1 (dmul 1 (in_univ_fact ?c))"
  note u = universe_bounds [OF assms, of f]
  have "\<bar>dmul 10 (in_univ_fac ?c) - 10 * in_univ_fac ?c\<bar> \<le> 1 / 2 ^ 40"
    using fl64_error [of "10 * in_univ_fac ?c" 14] u by (simp add: dmul_def pow2_def)
  moreover have "(1::rat) / 2 ^ 40 \<le> 1" by simp
  ultimately have L0: "1 / 2 \<le> dmul 10 (in_univ_fac ?c)" "dmul 10 (in_univ_fac ?c) \<le> 10001" using u by linarith+
  have "\<bar>dmul 1 (in_univ_fact ?c) - in_univ_fact ?c\<bar> \<le> 1 / 2 ^ 44"
    using fl64_error [of "in_univ_fact ?c" 10] u by (simp add: dmul_def pow2_def)
  moreover have "(1::rat) / 2 ^ 44 \<le> 1" by simp
  moreover have "1 / 2 \<le> dmul 1 (in_univ_fact ?c)"
    using fl64_mono [of "1 / 2" "in_univ_fact ?c"] u fl64_half by (simp add: dmul_def)
  ultimately have L1: "1 / 2 \<le> dmul 1 (in_univ_fact ?c)" "dmul 1 (in_univ_fact ?c) \<le> 10001" using u by linarith+
  have r: "\<forall>i<7. 0 \<le> get_membership_value i x \<and> get_membership_value i x \<le> 1" for x using membership_range by blast
  show range: "\<forall>i<7. 0 \<le> step_outputs c0 c1 f ! i \<and> step_outputs c0 c1 f ! i \<le> 1"
    unfolding step_outputs_def using out_after_range [OF r r] by simp
  obtain i where i: "i < 7" "1 / 2 \<le> get_membership_value i x0" using membership_half [of x0] scale_input_range [OF L0] x0_def by auto
  obtain j where j: "j < 7" "1 / 2 \<le> get_membership_value j x1" using membership_half [of x1] scale_input_range [OF L1] x1_def by auto
  have k: "7 * i + j < 49" "(7 * i + j) div 7 = i" "(7 * i + j) mod 7 = j" using i(1) j(1) by auto
  have "1 / 2 \<le> step_outputs c0 c1 f ! con_set (7 * i + j)"
    unfolding step_outputs_def x0_def [symmetric] x1_def [symmetric]
    using i j by (intro out_after_fires k(1)) (simp_all add: k)
  also have "\<dots> \<le> (\<Sum>i<7. step_outputs c0 c1 f ! i)"
    using range con_set_less [OF k(1)] by (intro member_le_sum) auto
  finally show "1 / 2 \<le> (\<Sum>i<7. step_outputs c0 c1 f ! i)" .
qed

lemma weighted_bound:
  assumes "\<forall>i<7. 0 \<le> o' ! i" shows "\<bar>\<Sum>i<7. o' ! i * outmem_points ! i ! 0\<bar> \<le> 6 * (\<Sum>i<7. o' ! i)"
proof -
  have "\<bar>\<Sum>i<7. o' ! i * outmem_points ! i ! 0\<bar> \<le> (\<Sum>i<7. \<bar>o' ! i * outmem_points ! i ! 0\<bar>)" by (rule sum_abs)
  also have "\<dots> \<le> (\<Sum>i<7. 6 * o' ! i)"
  proof (rule sum_mono)
    fix i :: nat assume "i \<in> {..<7}"
    moreover from this have "\<bar>outmem_points ! i ! 0\<bar> \<le> 6" by (auto intro: outmem_bound)
    then have "\<bar>o' ! i\<bar> * \<bar>outmem_points ! i ! 0\<bar> \<le> \<bar>o' ! i\<bar> * 6" by (intro mult_left_mono) auto
    ultimately show "\<bar>o' ! i * outmem_points ! i ! 0\<bar> \<le> 6 * o' ! i" using assms by (simp add: abs_mult)
  qed
  finally show ?thesis by (simp add: sum_distrib_left)
qed

lemma out_after_last: "n \<le> 49 \<Longrightarrow> out_after m0 m1 n ! 7 = 0"
  using con_set_less by (induction n) (auto simp: nth_list_update_neq less_imp_neq)

text \<open>The sums depend on the outputs alone.\<close>

lemma defuzz_indep:
  "fuzzy_outputs f = fuzzy_outputs g \<Longrightarrow>
     fst (fold defuzz_step is (s, p, f)) = fst (fold defuzz_step is (s, p, g))
     \<and> fst (snd (fold defuzz_step is (s, p, f))) = fst (snd (fold defuzz_step is (s, p, g)))"
  by (induction "is" arbitrary: s p f g) (simp_all add: defuzz_step_def Let_def)

lemma fuzzy_step_eq:
  assumes "fuzzy_ok f" "\<bar>c0\<bar> \<le> 1000" "\<bar>c1\<bar> \<le> 1000"
  obtains s p f1 f' where "fuzzy_step c0 c1 f = (fl32 (dmul (dmul (ddiv (fdiv p s) 6) 10) (out_univ_fac (choose_universe c0 c1 f))), f')"
    "fuzzy_ok f'" "\<bar>fdiv p s\<bar> \<le> 601 / 100"
    "fuzzy_outputs f1 = step_outputs c0 c1 f" "s = fst (fold defuzz_step [0..<7] (0, 0, f1))" "p = fst (snd (fold defuzz_step [0..<7] (0, 0, f1)))"
proof -
  let ?c = "choose_universe c0 c1 f" and ?O = "step_outputs c0 c1 f"
  obtain rs ins where r: "length rs = 49" "length ins = 2" "length (ins ! 0) = 8" "length (ins ! 1) = 8"
    "fold eval_rule [0..<49] (fuzzify_input 1 (scale_input c1 (dmul 1 (in_univ_fact ?c)))
        (fuzzify_input 0 (scale_input c0 (dmul 10 (in_univ_fac ?c))) ?c))
      = ?c\<lparr>fuzzy_inputs := ins, rule_strengths := rs, fuzzy_outputs := ?O\<rparr>"
    using after_rules [OF assms(1) refl, of c1 c0] by blast
  define f1 where "f1 = ?c\<lparr>fuzzy_inputs := ins, rule_strengths := rs, fuzzy_outputs := ?O\<rparr>"
  have f1: "fuzzy_outputs f1 = ?O" "out_univ_fac f1 = out_univ_fac ?c" "crisp_outputs f1 = crisp_outputs f"
    "fuzzy_inputs f1 = ins" "rule_strengths f1 = rs" by (simp_all add: f1_def choose_universe_frame)
  have lO: "length ?O = 8" "?O ! 7 = 0" by (simp_all add: step_outputs_def out_after_last)
  then have O7: "drop 7 ?O = [0]" by (simp add: Cons_nth_drop_Suc [symmetric])
  obtain s p where sp: "fold defuzz_step [0..<7] (0, 0, f1) = (s, p, f1\<lparr>fuzzy_outputs := replicate 7 0 @ drop 7 ?O\<rparr>)"
    "\<bar>s - (\<Sum>i<7. ?O ! i)\<bar> \<le> 7 / 2 ^ 21" "\<bar>p - (\<Sum>i<7. ?O ! i * outmem_points ! i ! 0)\<bar> \<le> 7 / 2 ^ 18"
    using defuzz_fold [of f1 7] step_outputs_facts(1) [OF assms(2,3), of f] lO f1(1) by auto
  note b = crisp_bound [OF sp(2,3) weighted_bound step_outputs_facts(2) [OF assms(2,3)]]
  have s: "0 < s" and q: "\<bar>fdiv p s\<bar> \<le> 601 / 100" using b step_outputs_facts(1) [OF assms(2,3), of f] by auto
  let ?f' = "f1\<lparr>fuzzy_outputs := replicate 8 0, crisp_outputs := (crisp_outputs f1)[0 := fdiv p s]\<rparr>"
  have z: "replicate 7 0 @ [0] = replicate 8 (0 :: rat)" by (simp add: numeral_eq_Suc)
  have "length (crisp_outputs f) = 1" using assms(1) by (simp add: fuzzy_ok_def)
  then have x: "fuzzy_step c0 c1 f = (fl32 (dmul (dmul (ddiv (fdiv p s) 6) 10) (out_univ_fac ?c)), ?f')" "fuzzy_ok ?f'"
    unfolding fuzzy_step_def Let_def r(5) f1_def [symmetric] defuzzify_output_def sp(1)
    using s f1 r(1-4) by (simp_all add: O7 z fuzzy_ok_def del: upt_rec_numeral)
  show thesis by (rule that [OF x q f1(1)]) (simp_all only: sp(1) fst_conv snd_conv)
qed

text \<open>
  C38: whatever state the controller is left in by earlier steps, a step for deviations of at
  most 1000 (mm, degrees) yields a speed difference of at most 31 mm/s that depends on these
  deviations alone, and it leaves the output sets cleared for the next step: some rule always
  fires, so the mean is never the stale value of an earlier step.
\<close>
theorem fuzzy_step_bounded:
  assumes "fuzzy_ok f" "fuzzy_ok g" "\<bar>c0\<bar> \<le> 1000" "\<bar>c1\<bar> \<le> 1000"
  shows "\<bar>fst (fuzzy_step c0 c1 f)\<bar> \<le> 31 \<and> fst (fuzzy_step c0 c1 g) = fst (fuzzy_step c0 c1 f)
    \<and> fuzzy_ok (snd (fuzzy_step c0 c1 f))"
proof -
  let ?u = "out_univ_fac (choose_universe c0 c1 f)"
  have u: "\<bar>?u\<bar> \<le> 3" using universe_bounds [OF assms(3,4)] by simp
  have same: "step_outputs c0 c1 g = step_outputs c0 c1 f" "out_univ_fac (choose_universe c0 c1 g) = ?u"
    by (simp_all only: step_outputs_def choose_universe_frame(5-7) [of c0 c1 g f])
  obtain s p f1 f' where f: "fuzzy_step c0 c1 f = (fl32 (dmul (dmul (ddiv (fdiv p s) 6) 10) ?u), f')" "fuzzy_ok f'"
    "\<bar>fdiv p s\<bar> \<le> 601 / 100" "fuzzy_outputs f1 = step_outputs c0 c1 f"
    "s = fst (fold defuzz_step [0..<7] (0, 0, f1))" "p = fst (snd (fold defuzz_step [0..<7] (0, 0, f1)))"
    by (rule fuzzy_step_eq [OF assms(1,3,4)]) (rule that; assumption)
  obtain s' p' g1 g' where g: "fuzzy_step c0 c1 g = (fl32 (dmul (dmul (ddiv (fdiv p' s') 6) 10) ?u), g')"
    "fuzzy_outputs g1 = step_outputs c0 c1 f"
    "s' = fst (fold defuzz_step [0..<7] (0, 0, g1))" "p' = fst (snd (fold defuzz_step [0..<7] (0, 0, g1)))"
    by (rule fuzzy_step_eq [OF assms(2,3,4), unfolded same]) (rule that; assumption)
  have "s' = s" "p' = p" using f(4-6) g(2-4) defuzz_indep [of g1 f1] by simp_all
  then show ?thesis using f(1-3) g(1) scale_output [OF f(3) u] by simp
qed

definition demo_fuzzy :: "rat \<Rightarrow> fuzzy" where
  "demo_fuzzy c = \<lparr>rule_strengths = replicate 49 0, fuzzy_inputs = [replicate 8 c, replicate 8 0], fuzzy_outputs = replicate 8 0,
     in_univ_fac = 1, in_univ_fact = 1, out_univ_fac = 1, crisp_outputs = [c]\<rparr>"

theorem fuzzy_step_bounded_witness:
  "\<bar>fst (fuzzy_step 7 2 (demo_fuzzy 0))\<bar> \<le> 31 \<and> fst (fuzzy_step 7 2 (demo_fuzzy 3)) = fst (fuzzy_step 7 2 (demo_fuzzy 0))"
  using fuzzy_step_bounded [of "demo_fuzzy 0" "demo_fuzzy 3" 7 2] by (simp add: fuzzy_ok_def demo_fuzzy_def)

end
