(* ===== verification/Tshape_Vplan.thy ===== *)
theory Tshape_Vplan
  imports Mc_Tools
begin

text \<open>
  The speed planner of the control cycle (\<open>motion_ctrl/TshapeVplan.c\<close>): from the remaining
  way, the measured speed and the wanted end speed it computes the speed of the next cycle
  along a trapezoid. \<open>sqrt\<close> of the C library is the argument \<open>sqrtd\<close>. Arithmetic is that of
  \<open>float\<close>, or of \<open>double\<close> where one of the macros' constants takes part; a quotient by zero is
  0 here, so the model speaks of positive accelerations.
\<close>

definition DELTA_T :: rat where "DELTA_T = dmul 20 (fl64 0.001)"
abbreviation (input) EmergencyAccRatio :: rat where "EmergencyAccRatio \<equiv> 1.5"
definition PathError :: rat where "PathError = fl64 0.003"
definition NUM_ERROR :: rat where "NUM_ERROR = fl64 (1 / 1000000)"

definition maximumAB :: "rat \<Rightarrow> rat \<Rightarrow> rat" where "maximumAB a b = (if a > b then a else b)"
definition minimumAB :: "rat \<Rightarrow> rat \<Rightarrow> rat" where "minimumAB a b = (if a < b then a else b)"

text \<open>The deceleration that still reaches the end speed on a way that is too short for the normal one.\<close>

definition forced_dec :: "rat \<Rightarrow> rat \<Rightarrow> rat \<Rightarrow> rat \<Rightarrow> rat" where
  "forced_dec aB_dec EmergencyAcc L_cri pathLength =
     (let d = fl32 (dmul aB_dec (ddiv L_cri (maximumAB pathLength NUM_ERROR)))
      in if d > EmergencyAcc then EmergencyAcc else d)"

text \<open>The three times of the trapezoid, and the deceleration that is executed.\<close>

definition plan_times :: "(rat \<Rightarrow> rat) \<Rightarrow> rat \<Rightarrow> rat \<Rightarrow> rat \<Rightarrow> rat \<Rightarrow> rat \<Rightarrow> rat \<Rightarrow> rat \<Rightarrow> rat \<times> rat \<times> rat \<times> rat" where
  "plan_times sqrtd pathLength aB_acc aB_dec EmergencyAcc Vs Ve Vmax =
     (let L_acc = fdiv (fsub (fmul Vmax Vmax) (fmul Vs Vs)) (fmul 2 aB_acc);
          L_dec = fdiv (fsub (fmul Vmax Vmax) (fmul Ve Ve)) (fmul 2 aB_dec);
          L_cri = (if Vs > Ve then fdiv (fsub (fmul Vs Vs) (fmul Ve Ve)) (fmul 2 aB_dec)
                   else fdiv (fsub (fmul Ve Ve) (fmul Vs Vs)) (fmul 2 aB_acc))
      in if pathLength \<ge> fadd L_acc L_dec then
           (fdiv (fsub Vmax Vs) aB_acc, fdiv (fsub (fsub pathLength L_acc) L_dec) Vmax, fdiv (fsub Vmax Ve) aB_dec, aB_dec)
         else if pathLength < fadd L_acc L_dec \<and> pathLength > dadd L_cri PathError then
           let Vpeak = fl32 (sqrtd (fdiv (fadd (fadd (fmul (fmul (fmul 2 aB_acc) aB_dec) pathLength) (fmul (fmul aB_dec Vs) Vs))
                                              (fmul (fmul aB_acc Ve) Ve)) (fadd aB_acc aB_dec)))
           in (fdiv (fsub Vpeak Vs) aB_acc, 0, fdiv (fsub Vpeak Ve) aB_dec, aB_dec)
         else if pathLength \<le> dadd L_cri PathError then
           if Ve > Vs then (fdiv (fsub Ve Vs) aB_acc, 0, 0, aB_dec)
           else if Ve < dsub Vs NUM_ERROR then
             (0, 0, fdiv (fsub Vs Ve) aB_dec,
              if pathLength \<ge> L_cri then aB_dec else forced_dec aB_dec EmergencyAcc L_cri pathLength)
           else (0, 0, 0, aB_dec)
         else (0, 0, 0, aB_dec))"

text \<open>The speed of the next cycle on such a trapezoid.\<close>

definition plan_speed :: "rat \<Rightarrow> rat \<Rightarrow> rat \<Rightarrow> rat \<Rightarrow> rat \<Rightarrow> rat \<Rightarrow> rat \<Rightarrow> rat" where
  "plan_speed Ttotal T1 T2 Vs Ve aB_acc aB_dec_Execute =
     (if Ttotal > DELTA_T then
        if T1 > DELTA_T then fl32 (dadd Vs (dmul aB_acc DELTA_T))
        else if T1 < 0 then fl32 (dadd Vs (dmul aB_dec_Execute (maximumAB T1 (- DELTA_T))))
        else let res_t = fl32 (dsub (dsub DELTA_T T1) T2)
             in if res_t < 0 then fadd Vs (fmul aB_acc T1)
                else maximumAB (fl32 (dsub Vs (dmul aB_dec_Execute (minimumAB DELTA_T res_t)))) Ve
      else maximumAB (fl32 (dsub Vs (dmul aB_dec_Execute DELTA_T))) Ve)"

text \<open>The result is the total time, and the speed stored through \<open>vShapeTarget\<close>.\<close>

definition SmoothVelocityPlanning ::
  "(rat \<Rightarrow> rat) \<Rightarrow> rat \<Rightarrow> rat \<Rightarrow> rat \<Rightarrow> rat \<Rightarrow> rat \<Rightarrow> rat \<Rightarrow> rat \<times> rat" where
  "SmoothVelocityPlanning sqrtd pathLength aB_acc aB_dec Vcurr Vend Vmax =
     (let EmergencyAcc = fl32 (dmul EmergencyAccRatio aB_dec); Vs = Vcurr; Ve = Vend
      in if pathLength < 0 then
           (fadd (fadd 0 0) (fdiv (fsub Vs Ve) EmergencyAcc), maximumAB (fl32 (dsub Vs (dmul EmergencyAcc DELTA_T))) Ve)
         else if Vs > dadd Vmax (dmul aB_dec DELTA_T) then
           let L_cri = fdiv (fsub (fmul Vs Vs) (fmul Ve Ve)) (fmul 2 aB_dec);
               dec = (if pathLength \<ge> L_cri then aB_dec else forced_dec aB_dec EmergencyAcc L_cri pathLength)
           in (fadd (fadd 0 0) (fdiv (fsub Vs Ve) dec), maximumAB (fl32 (dsub Vs (dmul dec DELTA_T))) Ve)
         else
           case plan_times sqrtd pathLength aB_acc aB_dec EmergencyAcc Vs Ve Vmax of
             (T1, T2, T3, dec) \<Rightarrow>
               let Ttotal = fadd (fadd T1 T2) T3
               in (Ttotal, plan_speed Ttotal T1 T2 Vs Ve aB_acc dec))"

section \<open>Limits of the planned speed\<close>

lemma DELTA_T_near: "1 / 50 - 1 / 10000000 \<le> DELTA_T" "DELTA_T \<le> 1 / 50 + 1 / 10000000" "0 < DELTA_T"
proof -
  have a: "\<bar>fl64 (1 / 1000) - 1 / 1000\<bar> \<le> 1 / 1000000000" by (rule fl64_near) simp
  then have "\<bar>20 * fl64 (1 / 1000)\<bar> < 8192" by linarith
  from fl64_near [OF this] have "\<bar>dmul 20 (fl64 (1 / 1000)) - 20 * fl64 (1 / 1000)\<bar> \<le> 1 / 1000000000" by (simp add: dmul_def)
  moreover have "DELTA_T = dmul 20 (fl64 (1 / 1000))" by (simp add: DELTA_T_def)
  ultimately show "1 / 50 - 1 / 10000000 \<le> DELTA_T" "DELTA_T \<le> 1 / 50 + 1 / 10000000" using a by linarith+
  then show "0 < DELTA_T" by linarith
qed

text \<open>A speed after a time \<open>t\<close> of an acceleration \<open>a\<close>.\<close>

lemma speed_after:
  assumes "0 \<le> v" "v \<le> 4000" "\<bar>a\<bar> \<le> 1501" "\<bar>t\<bar> \<le> 1 / 49"
  shows "\<bar>fl32 (dadd v (dmul a t)) - (v + a * t)\<bar> \<le> 1 / 1000"
    and "\<bar>fl32 (dsub v (dmul a t)) - (v - a * t)\<bar> \<le> 1 / 1000"
    and "\<bar>fadd v (fmul a t) - (v + a * t)\<bar> \<le> 1 / 1000"
proof -
  have "\<bar>a * t\<bar> \<le> 1501 * (1 / 49)" unfolding abs_mult using assms by (intro mult_mono) auto
  then have p: "\<bar>a * t\<bar> \<le> 31" by simp
  then have m: "\<bar>dmul a t - a * t\<bar> \<le> 1 / 1000000000" "\<bar>fmul a t - a * t\<bar> \<le> 1 / 4096"
    using fl64_near [of "a * t"] fl32_near [of "a * t"] by (simp_all add: dmul_def fmul_def)
  have d: "\<bar>v + dmul a t\<bar> < 8192" "\<bar>v - dmul a t\<bar> < 8192" "\<bar>v + fmul a t\<bar> < 8192" using m p assms(1,2) by linarith+
  then have e: "\<bar>dadd v (dmul a t) - (v + dmul a t)\<bar> \<le> 1 / 1000000000" "\<bar>dsub v (dmul a t) - (v - dmul a t)\<bar> \<le> 1 / 1000000000"
    "\<bar>fadd v (fmul a t) - (v + fmul a t)\<bar> \<le> 1 / 4096"
    using fl64_near [OF d(1)] fl64_near [OF d(2)] fl32_near [OF d(3)] by (simp_all add: dadd_def dsub_def fadd_def)
  have f: "\<bar>dadd v (dmul a t)\<bar> < 8192" "\<bar>dsub v (dmul a t)\<bar> < 8192" using e m p assms(1,2) by linarith+
  show "\<bar>fl32 (dadd v (dmul a t)) - (v + a * t)\<bar> \<le> 1 / 1000" using fl32_near [OF f(1)] e m by linarith
  show "\<bar>fl32 (dsub v (dmul a t)) - (v - a * t)\<bar> \<le> 1 / 1000" using fl32_near [OF f(2)] e m by linarith
  show "\<bar>fadd v (fmul a t) - (v + a * t)\<bar> \<le> 1 / 1000" using e m by linarith
qed

lemma dt_product:
  assumes "0 \<le> a" "a \<le> 1501" "0 \<le> t" "t \<le> DELTA_T" shows "0 \<le> a * t" "a * t \<le> a / 50 + 1 / 1000"
proof -
  show "0 \<le> a * t" using assms by simp
  have "a * t \<le> a * DELTA_T" using assms by (intro mult_left_mono) auto
  also have "\<dots> \<le> a * (1 / 50 + 1 / 10000000)" using assms(1) DELTA_T_near(2) by (intro mult_left_mono)
  also have "\<dots> \<le> a / 50 + 1 / 1000" using assms by (simp add: algebra_simps)
  finally show "a * t \<le> a / 50 + 1 / 1000" .
qed

lemma plan_speed_limits:
  assumes "0 \<le> Vs" "Vs \<le> 4000" "0 \<le> acc" "acc \<le> 1000" "0 \<le> dec" "dec \<le> 1501"
  shows "Vs - dec / 50 - 1 / 100 \<le> plan_speed T T1 T2 Vs Ve acc dec"
    and "plan_speed T T1 T2 Vs Ve acc dec \<le> max Ve (Vs + acc / 50 + 1 / 100)"
proof -
  have dt: "0 \<le> DELTA_T" "DELTA_T \<le> 1 / 49" using DELTA_T_near by linarith+
  define A where "A = acc * DELTA_T"
  define D where "D = dec * DELTA_T"
  have A: "0 \<le> A" "A \<le> acc / 50 + 1 / 1000" and D: "0 \<le> D" "D \<le> dec / 50 + 1 / 1000"
    using dt_product [of acc DELTA_T] dt_product [of dec DELTA_T] assms dt by (simp_all add: A_def D_def)
  have up: "\<bar>fl32 (dadd Vs (dmul acc DELTA_T)) - (Vs + A)\<bar> \<le> 1 / 1000"
    unfolding A_def using assms dt by (intro speed_after(1)) auto
  have down: "\<bar>fl32 (dsub Vs (dmul dec DELTA_T)) - (Vs - D)\<bar> \<le> 1 / 1000"
    unfolding D_def using assms dt by (intro speed_after(2)) auto
  have neg: "Vs - D - 1 / 1000 \<le> fl32 (dadd Vs (dmul dec (maximumAB T1 (- DELTA_T)))) \<and>
      fl32 (dadd Vs (dmul dec (maximumAB T1 (- DELTA_T)))) \<le> Vs + 1 / 1000" if "T1 < 0"
  proof -
    define t where "t = maximumAB T1 (- DELTA_T)"
    have t: "- DELTA_T \<le> t" "t \<le> 0" using that dt by (auto simp: t_def maximumAB_def)
    have "\<bar>fl32 (dadd Vs (dmul dec t)) - (Vs + dec * t)\<bar> \<le> 1 / 1000" using assms dt t by (intro speed_after(1)) auto
    moreover have "dec * (- t) \<le> D" unfolding D_def using assms t by (intro mult_left_mono) auto
    moreover have "0 \<le> dec * (- t)" using assms t by (intro mult_nonneg_nonneg) auto
    moreover have "dec * (- t) = - (dec * t)" by simp
    ultimately show ?thesis unfolding t_def [symmetric] by (intro conjI) linarith+
  qed
  have short: "Vs - 1 / 1000 \<le> fadd Vs (fmul acc T1) \<and> fadd Vs (fmul acc T1) \<le> Vs + A + 1 / 1000" if "\<not> T1 < 0" "\<not> T1 > DELTA_T"
  proof -
    have "\<bar>fadd Vs (fmul acc T1) - (Vs + acc * T1)\<bar> \<le> 1 / 1000" using assms dt that by (intro speed_after(3)) auto
    moreover have "acc * T1 \<le> A" "0 \<le> acc * T1" unfolding A_def using assms that by (auto intro: mult_left_mono)
    ultimately show ?thesis by (intro conjI) linarith+
  qed
  have brake: "Vs - D - 1 / 1000 \<le> fl32 (dsub Vs (dmul dec (minimumAB DELTA_T r))) \<and>
      fl32 (dsub Vs (dmul dec (minimumAB DELTA_T r))) \<le> Vs + 1 / 1000" if "\<not> r < 0" for r
  proof -
    define t where "t = minimumAB DELTA_T r"
    have t: "t \<le> DELTA_T" "0 \<le> t" using that dt by (auto simp: t_def minimumAB_def)
    have "\<bar>fl32 (dsub Vs (dmul dec t)) - (Vs - dec * t)\<bar> \<le> 1 / 1000" using assms dt t by (intro speed_after(2)) auto
    moreover have "dec * t \<le> D" unfolding D_def using assms t by (intro mult_left_mono) auto
    moreover have "0 \<le> dec * t" using assms t by (intro mult_nonneg_nonneg) auto
    ultimately show ?thesis unfolding t_def [symmetric] by (intro conjI) linarith+
  qed
  define R where "R = fl32 (dsub (dsub DELTA_T T1) T2)"
  have brake': "Vs - D - 1 / 1000 \<le> fl32 (dsub Vs (dmul dec (minimumAB DELTA_T R)))"
     "fl32 (dsub Vs (dmul dec (minimumAB DELTA_T R))) \<le> Vs + 1 / 1000" if "\<not> R < 0" using brake [OF that] by simp_all
  have up': "Vs + A - 1 / 1000 \<le> fl32 (dadd Vs (dmul acc DELTA_T))" "fl32 (dadd Vs (dmul acc DELTA_T)) \<le> Vs + A + 1 / 1000"
    and down': "Vs - D - 1 / 1000 \<le> fl32 (dsub Vs (dmul dec DELTA_T))" "fl32 (dsub Vs (dmul dec DELTA_T)) \<le> Vs - D + 1 / 1000"
    using up down by linarith+
  show "Vs - dec / 50 - 1 / 100 \<le> plan_speed T T1 T2 Vs Ve acc dec"
    using up' down' neg short brake' A D assms(5) by (auto simp: plan_speed_def Let_def R_def [symmetric] maximumAB_def)
  show "plan_speed T T1 T2 Vs Ve acc dec \<le> max Ve (Vs + acc / 50 + 1 / 100)"
    using up' down' neg short brake' A D assms(3) by (auto simp: plan_speed_def Let_def R_def [symmetric] maximumAB_def le_max_iff_disj)
qed

lemma emergency_dec:
  assumes "1 \<le> dec" "dec \<le> 1000"
  shows "dec \<le> fl32 (dmul EmergencyAccRatio dec)" "fl32 (dmul EmergencyAccRatio dec) \<le> 3 / 2 * dec + 1 / 1000"
proof -
  have "\<bar>3 / 2 * dec\<bar> < 8192" using assms by simp
  from fl64_near [OF this] have m: "\<bar>dmul EmergencyAccRatio dec - 3 / 2 * dec\<bar> \<le> 1 / 1000000000" by (simp add: dmul_def)
  then have "\<bar>dmul EmergencyAccRatio dec\<bar> < 8192" using assms by linarith
  from fl32_near [OF this] m assms
  show "dec \<le> fl32 (dmul EmergencyAccRatio dec)" "fl32 (dmul EmergencyAccRatio dec) \<le> 3 / 2 * dec + 1 / 1000" by linarith+
qed

lemma forced_dec_range:
  assumes "0 \<le> dec" "0 \<le> L" "0 \<le> path" "0 \<le> E"
  shows "0 \<le> forced_dec dec E L path" "forced_dec dec E L path \<le> E"
proof -
  have "0 \<le> NUM_ERROR" unfolding NUM_ERROR_def fl64_def by (rule fround_nonneg) simp
  then have "0 \<le> maximumAB path NUM_ERROR" using assms(3) by (simp add: maximumAB_def)
  then have "0 \<le> ddiv L (maximumAB path NUM_ERROR)" using assms(2) by (simp add: ddiv_def fl64_def fround_nonneg)
  then have "0 \<le> fl32 (dmul dec (ddiv L (maximumAB path NUM_ERROR)))"
    using assms(1) by (simp add: dmul_def fl64_def fround_nonneg fl32_nonneg)
  then show "0 \<le> forced_dec dec E L path" "forced_dec dec E L path \<le> E"
    using assms(4) by (auto simp: forced_dec_def Let_def)
qed

lemma brake_way_nonneg:
  assumes "0 \<le> b" "b \<le> a" "a \<le> 4000" "0 < c" shows "0 \<le> fdiv (fsub (fmul a a) (fmul b b)) (fmul 2 c)"
proof -
  have "b * b \<le> a * a" "a * a \<le> 4000 * 4000" using assms by (intro mult_mono; linarith)+
  moreover have "0 \<le> b * b" using assms by simp
  ultimately have "fmul b b \<le> fmul a a" unfolding fmul_def by (intro fl32_mono) (simp_all add: abs_if)
  then have "0 \<le> fsub (fmul a a) (fmul b b)" by (simp add: fsub_def fl32_nonneg)
  moreover have "0 \<le> fmul 2 c" using assms(4) by (simp add: fmul_def fl32_nonneg)
  ultimately show ?thesis by (simp add: fdiv_def fl32_nonneg)
qed

lemma plan_times_dec:
  assumes "0 \<le> Ve" "0 \<le> Vs" "Vs \<le> 4000" "0 < dec" "dec \<le> E" "0 \<le> path"
  shows "case plan_times sqrtd path acc dec E Vs Ve Vmax of (T1, T2, T3, d) \<Rightarrow> 0 \<le> d \<and> d \<le> E"
proof -
  have n: "\<bar>NUM_ERROR - 1 / 1000000\<bar> \<le> 1 / 1000000000" unfolding NUM_ERROR_def by (rule fl64_near) simp
  then have "\<bar>Vs - NUM_ERROR\<bar> < 8192" using assms by linarith
  from fl64_near [OF this] n have "dsub Vs NUM_ERROR < Vs" unfolding dsub_def by linarith
  then have "0 \<le> fdiv (fsub (fmul Vs Vs) (fmul Ve Ve)) (fmul 2 dec)" if "Ve < dsub Vs NUM_ERROR"
    using assms that by (intro brake_way_nonneg) auto
  then show ?thesis using assms forced_dec_range [OF _ _ assms(6), of dec _ E] \<open>dsub Vs NUM_ERROR < Vs\<close>
    by (auto simp: plan_times_def Let_def)
qed

lemma planned_speed:
  fixes path :: rat and sqrtd :: "rat \<Rightarrow> rat"
  assumes "0 \<le> Vs" "Vs \<le> 4000" "0 \<le> Ve" "Ve \<le> Vmax" "Vmax \<le> 4000" "0 \<le> acc" "acc \<le> 1000" "1 \<le> dec" "dec \<le> 1000"
  defines "v \<equiv> snd (SmoothVelocityPlanning sqrtd path acc dec Vs Ve Vmax)"
  shows "Vs - 3 / 100 * dec - 1 / 50 \<le> v" "v \<le> max Ve (Vs + acc / 50 + 1 / 100)" "path < 0 \<Longrightarrow> Ve \<le> v"
proof -
  define E where "E = fl32 (dmul EmergencyAccRatio dec)"
  have E: "dec \<le> E" "E \<le> 3 / 2 * dec + 1 / 1000" unfolding E_def using emergency_dec assms by blast+
  have dt: "0 \<le> DELTA_T" "DELTA_T \<le> 1 / 49" using DELTA_T_near by linarith+
  have brake: "Vs - d / 50 - 1 / 100 \<le> maximumAB (fl32 (dsub Vs (dmul d DELTA_T))) Ve \<and>
      maximumAB (fl32 (dsub Vs (dmul d DELTA_T))) Ve \<le> max Ve (Vs + acc / 50 + 1 / 100)" if "0 \<le> d" "d \<le> E" for d
  proof -
    have d: "0 \<le> d * DELTA_T" "d * DELTA_T \<le> d / 50 + 1 / 1000" using dt_product [of d DELTA_T] dt that E assms by auto
    have "\<bar>fl32 (dsub Vs (dmul d DELTA_T)) - (Vs - d * DELTA_T)\<bar> \<le> 1 / 1000" using assms that E dt by (intro speed_after(2)) auto
    with d have "Vs - d / 50 - 1 / 100 \<le> fl32 (dsub Vs (dmul d DELTA_T))" "fl32 (dsub Vs (dmul d DELTA_T)) \<le> Vs + 1 / 100" by linarith+
    then show ?thesis using assms(6) by (auto simp: maximumAB_def le_max_iff_disj)
  qed
  have D: "Vs - 3 / 100 * dec - 1 / 50 \<le> Vs - d / 50 - 1 / 100" if "d \<le> E" for d using E that by simp
  note lim = order_trans [OF D]
  show neg: "path < 0 \<Longrightarrow> Ve \<le> v" by (simp add: v_def SmoothVelocityPlanning_def Let_def maximumAB_def)
  consider (neg) "path < 0" | (fast) "0 \<le> path" "Vs > dadd Vmax (dmul dec DELTA_T)" | (plan) "0 \<le> path" "\<not> Vs > dadd Vmax (dmul dec DELTA_T)"
    by linarith
  then have "Vs - 3 / 100 * dec - 1 / 50 \<le> v \<and> v \<le> max Ve (Vs + acc / 50 + 1 / 100)"
  proof cases
    case neg
    then have "v = maximumAB (fl32 (dsub Vs (dmul E DELTA_T))) Ve" by (simp add: v_def SmoothVelocityPlanning_def Let_def E_def)
    then show ?thesis using brake [of E] E(1) assms(8) lim [of E] by auto
  next
    case fast
    define L where "L = fdiv (fsub (fmul Vs Vs) (fmul Ve Ve)) (fmul 2 dec)"
    have DD: "0 \<le> dec * DELTA_T" "dec * DELTA_T \<le> 21" "1 / 51 \<le> dec * DELTA_T"
      using dt_product [of dec DELTA_T] dt assms mult_mono [of 1 dec "1 / 51" DELTA_T] DELTA_T_near(1) by auto
    then have m: "\<bar>dmul dec DELTA_T - dec * DELTA_T\<bar> \<le> 1 / 1000000000" unfolding dmul_def by (intro fl64_near) linarith
    then have "\<bar>Vmax + dmul dec DELTA_T\<bar> < 8192" using assms DD by linarith
    from fl64_near [OF this] have "Vmax < dadd Vmax (dmul dec DELTA_T)" using m DD unfolding dadd_def by linarith
    then have "0 \<le> L" unfolding L_def using fast assms by (intro brake_way_nonneg) auto
    define d where "d = (if path \<ge> L then dec else forced_dec dec E L path)"
    have d: "0 \<le> d" "d \<le> E" using forced_dec_range [of dec L path E] \<open>0 \<le> L\<close> fast(1) E assms by (auto simp: d_def)
    have "v = maximumAB (fl32 (dsub Vs (dmul d DELTA_T))) Ve"
      using fast by (simp add: v_def SmoothVelocityPlanning_def Let_def E_def L_def d_def)
    then show ?thesis using brake [OF d] lim [OF d(2)] by auto
  next
    case plan
    obtain T1 T2 T3 d where t: "plan_times sqrtd path acc dec E Vs Ve Vmax = (T1, T2, T3, d)" by (metis prod_cases4)
    then have d: "0 \<le> d" "d \<le> E" using plan_times_dec [of Ve Vs dec E path sqrtd acc Vmax] assms E plan by auto
    have v: "v = plan_speed (fadd (fadd T1 T2) T3) T1 T2 Vs Ve acc d"
      using plan t by (simp add: v_def SmoothVelocityPlanning_def Let_def E_def)
    have "d \<le> 1501" using d E assms by linarith
    note l = plan_speed_limits [OF assms(1,2,6,7) d(1) this]
    show ?thesis unfolding v using l lim [OF d(2) l(1)] by (intro conjI)
  qed
  then show "Vs - 3 / 100 * dec - 1 / 50 \<le> v" "v \<le> max Ve (Vs + acc / 50 + 1 / 100)" by auto
qed

section \<open>The end speed is kept\<close>

text \<open>
  What is used of \<open>sqrt\<close>: it is correctly rounded, so no number of the format below the root
  of the argument is above its result, and the result is not above the argument plus one.
\<close>

definition sqrt_ok :: "(rat \<Rightarrow> rat) \<Rightarrow> bool" where
  "sqrt_ok sqrtd \<longleftrightarrow> (\<forall>y x. 0 \<le> y \<and> fl32 y = y \<and> y * y \<le> x \<longrightarrow> y \<le> sqrtd x) \<and> (\<forall>x\<ge>0. sqrtd x \<le> 1 + x)"

lemma plan_speed_ge:
  assumes "0 \<le> Vs" "Vs \<le> 4000" "0 \<le> acc" "acc \<le> 1000" "0 \<le> dec" "dec \<le> 1501" "0 \<le> T1" "T1 > DELTA_T \<or> T2 = 0"
  shows "plan_speed T T1 T2 Vs Ve acc dec \<ge> Ve \<or> plan_speed T T1 T2 Vs Ve acc dec \<ge> Vs + acc / 51 - 1 / 1000"
proof -
  have dt: "0 \<le> DELTA_T" "DELTA_T \<le> 1 / 49" "1 / 51 \<le> DELTA_T" using DELTA_T_near by linarith+
  have "\<bar>fl32 (dadd Vs (dmul acc DELTA_T)) - (Vs + acc * DELTA_T)\<bar> \<le> 1 / 1000"
    using assms dt by (intro speed_after(1)) auto
  moreover have "acc * (1 / 51) \<le> acc * DELTA_T" using assms dt by (intro mult_left_mono) auto
  ultimately have up: "fl32 (dadd Vs (dmul acc DELTA_T)) \<ge> Vs + acc / 51 - 1 / 1000" by linarith
  have "0 \<le> fl32 (dsub (dsub DELTA_T T1) 0)" if "\<not> T1 > DELTA_T"
    using that by (simp add: dsub_def fl64_def fround_nonneg fl32_nonneg)
  then show ?thesis using up assms(7,8)
    by (auto simp: plan_speed_def Let_def maximumAB_def)
qed

lemma fl32_err:
  "\<bar>x\<bar> < 256 \<Longrightarrow> \<bar>fl32 x - x\<bar> \<le> 1 / 131072" "\<bar>x\<bar> < 65536 \<Longrightarrow> \<bar>fl32 x - x\<bar> \<le> 1 / 512"
  "\<bar>x\<bar> < 131072 \<Longrightarrow> \<bar>fl32 x - x\<bar> \<le> 1 / 256" "\<bar>x\<bar> < 262144 \<Longrightarrow> \<bar>fl32 x - x\<bar> \<le> 1 / 128"
  "\<bar>x\<bar> < 33554432 \<Longrightarrow> \<bar>fl32 x - x\<bar> \<le> 1" "\<bar>x\<bar> < 134217728 \<Longrightarrow> \<bar>fl32 x - x\<bar> \<le> 4"
  using fl32_error [of x 8] fl32_error [of x 16] fl32_error [of x 17] fl32_error [of x 18] fl32_error [of x 25] fl32_error [of x 27]
  by (simp_all add: pow2_def)

text \<open>The way to brake from one speed to the other, at 200 per second squared.\<close>

definition brake_way :: "rat \<Rightarrow> rat" where
  "brake_way Vs = (if Vs > 1 then fdiv (fsub (fmul Vs Vs) (fmul 1 1)) (fmul 2 200) else fdiv (fsub (fmul 1 1) (fmul Vs Vs)) (fmul 2 200))"

lemma fmul_consts: "fmul 1 1 = 1" "fmul 2 200 = 400" "fmul 400 200 = 80000" "fmul 200 1 = 200" "fadd 200 200 = 400"
  using fl32_of_int [of 1] by (simp_all add: fmul_def fadd_def)

lemma brake_way_ge:
  assumes "0 \<le> Vs" "Vs \<le> 300" shows "\<bar>Vs * Vs - 1\<bar> / 400 - 1 / 10000 \<le> brake_way Vs" "brake_way Vs \<le> 250" "- 1 \<le> brake_way Vs"
proof -
  have vv: "0 \<le> Vs * Vs" "Vs * Vs \<le> 300 * 300" using assms mult_mono [of Vs 300 Vs 300] by simp_all
  then have m: "\<bar>fmul Vs Vs - Vs * Vs\<bar> \<le> 1 / 256" unfolding fmul_def by (intro fl32_err(3)) simp
  have b: "\<bar>fmul Vs Vs - 1\<bar> < 131072" using m vv by linarith
  define d where "d = (if Vs > 1 then fsub (fmul Vs Vs) 1 else fsub 1 (fmul Vs Vs))"
  have "\<bar>1 - fmul Vs Vs\<bar> < 131072" using b by (simp add: abs_minus_commute)
  note e = fl32_err(3) [OF b] fl32_err(3) [OF this]
  have s: "Vs > 1 \<Longrightarrow> \<bar>Vs * Vs - 1\<bar> = Vs * Vs - 1" "\<not> Vs > 1 \<Longrightarrow> \<bar>Vs * Vs - 1\<bar> = 1 - Vs * Vs"
    using mult_mono [of 1 Vs 1 Vs] mult_mono [of Vs 1 Vs 1] assms by auto
  have d: "\<bar>d - \<bar>Vs * Vs - 1\<bar>\<bar> \<le> 1 / 256 + 1 / 256"
  proof (cases "Vs > 1")
    case True
    have "\<bar>fsub (fmul Vs Vs) 1 - (fmul Vs Vs - 1)\<bar> \<le> 1 / 256" using e(1) by (simp add: fsub_def)
    moreover have "d = fsub (fmul Vs Vs) 1" using True by (simp add: d_def)
    ultimately show ?thesis using m s(1) [OF True] by linarith
  next
    case False
    have "\<bar>fsub 1 (fmul Vs Vs) - (1 - fmul Vs Vs)\<bar> \<le> 1 / 256" using e(2) by (simp add: fsub_def)
    moreover have "d = fsub 1 (fmul Vs Vs)" using False by (simp add: d_def)
    ultimately show ?thesis using m s(2) [OF False] by linarith
  qed
  have bw: "brake_way Vs = fl32 (d / 400)" by (simp add: brake_way_def d_def fmul_consts fdiv_def)
  have "\<bar>Vs * Vs - 1\<bar> \<le> 90000" using vv by linarith
  moreover have c: "(1::rat) / 256 + 1 / 256 \<le> 1 / 100" by simp
  ultimately have "\<bar>d\<bar> \<le> 90001" using d by linarith
  then have "\<bar>d / 400\<bar> < 256" by simp
  from fl32_err(1) [OF this] have f: "\<bar>brake_way Vs - d / 400\<bar> \<le> 1 / 100000" unfolding bw by (rule order_trans) simp
  have "d \<ge> \<bar>Vs * Vs - 1\<bar> - 1 / 100" using d c by linarith
  then have "d / 400 \<ge> (\<bar>Vs * Vs - 1\<bar> - 1 / 100) / 400" by (rule divide_right_mono) simp
  then have "\<bar>Vs * Vs - 1\<bar> / 400 - 1 / 40000 \<le> d / 400" by (simp add: diff_divide_distrib)
  then show g: "\<bar>Vs * Vs - 1\<bar> / 400 - 1 / 10000 \<le> brake_way Vs" using f by linarith
  have "0 \<le> \<bar>Vs * Vs - 1\<bar> / 400" by simp
  then show "- 1 \<le> brake_way Vs" using g by linarith
  have "d / 400 \<le> 90001 / 400" using \<open>\<bar>d\<bar> \<le> 90001\<close> by (intro divide_right_mono) auto
  then show "brake_way Vs \<le> 250" using f by linarith
qed

text \<open>The peak of a trapezoid that still leaves room is not below the current speed.\<close>

definition peak_square :: "rat \<Rightarrow> rat \<Rightarrow> rat" where
  "peak_square p Vs = fdiv (fadd (fadd (fmul (fmul (fmul 2 200) 200) p) (fmul (fmul 200 Vs) Vs)) (fmul (fmul 200 1) 1)) (fadd 200 200)"

lemma peak_square_ge:
  assumes "0 \<le> Vs" "Vs \<le> 300" "0 \<le> p" "p \<le> 1000" "brake_way Vs + 1 / 400 \<le> p"
  shows "Vs * Vs \<le> peak_square p Vs" "peak_square p Vs \<le> 1000000"
proof -
  have vv: "0 \<le> Vs * Vs" "Vs * Vs \<le> 300 * 300" using assms mult_mono [of Vs 300 Vs 300] by simp_all
  define A where "A = fmul 80000 p"
  define B1 where "B1 = fmul 200 Vs"
  define B where "B = fmul B1 Vs"
  have "\<bar>80000 * p\<bar> < 134217728" using assms by simp
  from fl32_err(6) [OF this] have A: "\<bar>A - 80000 * p\<bar> \<le> 4" by (simp add: A_def fmul_def)
  have "\<bar>200 * Vs\<bar> < 65536" using assms by simp
  from fl32_err(2) [OF this] have B1: "\<bar>B1 - 200 * Vs\<bar> \<le> 1 / 512" by (simp add: B1_def fmul_def)
  have "\<bar>(B1 - 200 * Vs) * Vs\<bar> \<le> 1 / 512 * 300" unfolding abs_mult using B1 assms by (intro mult_mono) auto
  moreover have "(B1 - 200 * Vs) * Vs = B1 * Vs - 200 * (Vs * Vs)" by (simp add: algebra_simps)
  ultimately have B2: "\<bar>B1 * Vs - 200 * (Vs * Vs)\<bar> \<le> 1" by simp
  then have "\<bar>B1 * Vs\<bar> < 33554432" using vv by linarith
  from fl32_err(5) [OF this] B2 have B: "\<bar>B - 200 * (Vs * Vs)\<bar> \<le> 2" unfolding B_def fmul_def by linarith
  have l: "\<bar>A + B\<bar> < 134217728" using A B assms(3,4) vv by linarith
  from fl32_err(6) [OF l] have S1: "\<bar>fadd A B - (A + B)\<bar> \<le> 4" by (simp add: fadd_def)
  have "\<bar>fadd A B + 200\<bar> < 134217728" using S1 A B assms(3,4) vv by linarith
  from fl32_err(6) [OF this] have S2: "\<bar>fadd (fadd A B) 200 - (fadd A B + 200)\<bar> \<le> 4" by (simp add: fadd_def)
  have X: "peak_square p Vs = fl32 (fadd (fadd A B) 200 / 400)"
    by (simp add: peak_square_def fmul_consts A_def B_def B1_def fdiv_def)
  have ub: "fadd (fadd A B) 200 \<le> 98000300" "0 \<le> fadd (fadd A B) 200 + 100" using S1 S2 A B assms(3,4) vv by linarith+
  then have "\<bar>fadd (fadd A B) 200 / 400\<bar> < 262144" by simp
  from fl32_err(4) [OF this] have e: "\<bar>peak_square p Vs - fadd (fadd A B) 200 / 400\<bar> \<le> 1 / 128" by (simp add: X)
  show "peak_square p Vs \<le> 1000000" using e ub by linarith
  have "80000 * p \<ge> 200 * \<bar>Vs * Vs - 1\<bar> + 190"
    using brake_way_ge(1) [OF assms(1,2)] assms(5) by (simp add: field_simps)
  moreover have a: "Vs * Vs - 1 \<le> \<bar>Vs * Vs - 1\<bar>" by (rule abs_ge_self)
  ultimately have "80000 * p \<ge> 200 * (Vs * Vs) - 10" by simp
  then have "fadd (fadd A B) 200 \<ge> 400 * (Vs * Vs) + 100" using S1 S2 A B by linarith
  then show "Vs * Vs \<le> peak_square p Vs" using e by linarith
qed

lemma fround_mono_gen:
  assumes "0 \<le> y" "y \<le> x" "x \<le> 10000000" "fl32 y = y" shows "y \<le> fl32 x"
  using fl32_mono [of y x] assms by simp

text \<open>
  The plan of a turn, towards 1 degree per second: as long as the wheels do not turn backwards
  the planned speed is never below the end speed.
\<close>

lemma turn_plan_ge:
  assumes q: "sqrt_ok sqrtd" and "0 \<le> Vs" "Vs \<le> 300" "fl32 Vs = Vs" "p \<le> 1000"
  shows "1 \<le> snd (SmoothVelocityPlanning sqrtd p 200 200 Vs 1 360)"
proof (cases "p < 0")
  case True
  then show ?thesis using planned_speed(3) [of Vs 1 360 200 200 p sqrtd] assms by simp
next
  case p: False
  have dt: "1 / 51 \<le> DELTA_T" "DELTA_T \<le> 1 / 49" using DELTA_T_near by linarith+
  have "\<bar>dmul 200 DELTA_T - 200 * DELTA_T\<bar> \<le> 1 / 1000000000" unfolding dmul_def using dt by (intro fl64_near) linarith
  then have "0 \<le> dmul 200 DELTA_T" "dmul 200 DELTA_T \<le> 5" using dt by linarith+
  then have "360 - 1 \<le> dadd 360 (dmul 200 DELTA_T)" using fl64_near [of "360 + dmul 200 DELTA_T"] unfolding dadd_def by linarith
  then have plan: "\<not> Vs > dadd 360 (dmul 200 DELTA_T)" using assms(3) by linarith
  define E where "E = fl32 (dmul EmergencyAccRatio 200)"
  have E: "200 \<le> E" "E \<le> 1501" using emergency_dec [of 200] by (simp_all add: E_def)
  obtain T1 T2 T3 d where t: "plan_times sqrtd p 200 200 E Vs 1 360 = (T1, T2, T3, d)" by (metis prod_cases4)
  then have d: "0 \<le> d" "d \<le> E" using plan_times_dec [of 1 Vs 200 E p sqrtd 200 360] assms E p by auto
  have v: "snd (SmoothVelocityPlanning sqrtd p 200 200 Vs 1 360) = plan_speed (fadd (fadd T1 T2) T3) T1 T2 Vs 1 200 d"
    using plan p t by (simp add: SmoothVelocityPlanning_def Let_def E_def)
  have T1: "0 \<le> T1 \<and> (T1 > DELTA_T \<or> T2 = 0)"
  proof -
    have "(60 :: rat) \<le> fsub 360 Vs" unfolding fsub_def using assms by (intro fround_mono_gen) auto
    then have "0 \<le> fdiv (fsub 360 Vs) 200" "fl32 (1 / 4) \<le> fdiv (fsub 360 Vs) 200" if "fsub 360 Vs \<le> 360"
      using that fl32_mono [of "1 / 4" "fsub 360 Vs / 200"] by (simp_all add: fdiv_def fl32_nonneg)
    moreover have "fsub 360 Vs \<le> 360" unfolding fsub_def using fl32_mono [of "360 - Vs" 360] assms by simp
    moreover have "fl32 (1 / 4) = 1 / 4" by (rule fl32_dyadic [of _ 2 1]) simp_all
    ultimately have long: "0 \<le> fdiv (fsub 360 Vs) 200" "fdiv (fsub 360 Vs) 200 > DELTA_T" using dt by linarith+
    have peak: "0 \<le> fdiv (fsub (fl32 (sqrtd (peak_square p Vs))) Vs) 200" if "p > dadd (brake_way Vs) PathError"
    proof -
      have b: "0 \<le> brake_way Vs + 1" "brake_way Vs \<le> 250" using brake_way_ge(2,3) [OF assms(2,3)] by simp_all
      have "\<bar>PathError - 3 / 1000\<bar> \<le> 1 / 1000000000" using fl64_near [of "3 / 1000"] by (simp add: PathError_def)
      moreover from this have "\<bar>dadd (brake_way Vs) PathError - (brake_way Vs + PathError)\<bar> \<le> 1 / 1000000000"
        unfolding dadd_def using b by (intro fl64_near) linarith
      ultimately have bw: "brake_way Vs + 1 / 400 \<le> p" using that by linarith
      note ps = peak_square_ge [OF assms(2,3) _ assms(5) bw]
      have "0 \<le> Vs * Vs" by simp
      then have x: "Vs * Vs \<le> peak_square p Vs" "peak_square p Vs \<le> 1000000" "0 \<le> peak_square p Vs" using ps p by linarith+
      then have "Vs \<le> sqrtd (peak_square p Vs)" "sqrtd (peak_square p Vs) \<le> 1000001" using q assms(2,4) unfolding sqrt_ok_def by force+
      then have "Vs \<le> fl32 (sqrtd (peak_square p Vs))" using assms(2,4) by (intro fround_mono_gen) auto
      then have "0 \<le> fsub (fl32 (sqrtd (peak_square p Vs))) Vs" by (simp add: fsub_def fl32_nonneg)
      then show ?thesis by (simp add: fdiv_def fl32_nonneg)
    qed
    have "0 \<le> fdiv (fsub 1 Vs) 200" if "1 > Vs" using that by (simp add: fsub_def fdiv_def fl32_nonneg)
    then show ?thesis using t long peak
      by (auto simp: plan_times_def Let_def brake_way_def peak_square_def split: if_splits)
  qed
  from plan_speed_ge [where Ve = 1 and T = "fadd (fadd T1 T2) T3" and Vs = Vs and acc = 200 and dec = d and ?T1.0 = T1 and ?T2.0 = T2] T1 d E assms(2,3) v show ?thesis by auto
qed

section \<open>Properties\<close>

text \<open>
  C37: the planned speed keeps the limits of the vehicle, whatever \<open>sqrt\<close> computes and whatever
  way is left: in one cycle it rises by no more than the acceleration allows (or goes up to
  the end speed at once), it falls by no more than the emergency deceleration allows, and
  past the end of the way it never falls below the end speed.
\<close>

theorem planned_speed_limits:
  assumes "0 \<le> Vs" "Vs \<le> 4000" "0 \<le> Ve" "Ve \<le> Vmax" "Vmax \<le> 4000" "0 \<le> acc" "acc \<le> 1000" "1 \<le> dec" "dec \<le> 1000"
    and "SmoothVelocityPlanning sqrtd path acc dec Vs Ve Vmax = (t, v)"
  shows "Vs - 3 / 2 * dec / 50 - 1 / 50 \<le> v \<and> v \<le> max Ve (Vs + acc / 50 + 1 / 100) \<and> (path < 0 \<longrightarrow> Ve \<le> v)"
  using planned_speed [where path = path and sqrtd = sqrtd, OF assms(1-9)] assms(10) by auto

theorem planned_speed_limits_witness:
  "snd (SmoothVelocityPlanning (\<lambda>x. x) 500 1000 1000 300 40 1000) \<le> 321"
proof -
  obtain t v where "SmoothVelocityPlanning (\<lambda>x. x) 500 1000 1000 300 40 1000 = (t, v)" by fastforce
  then show ?thesis using planned_speed_limits [of 300 40 1000 1000 1000 "\<lambda>x. x" 500 t v] by simp
qed

end
