(* ===== verification/Tracing.thy ===== *)
theory Tracing
  imports Motion_Cmd Fuzzy Tshape_Vplan
begin

text \<open>
  The position estimates of the control cycle: the path tracking controller
  (\<open>motion_ctrl/Tracingzq.c\<close>), the dead reckoning while the scanner is lost
  (\<open>motion_ctrl/MotionEstimate.c\<close>) and the radius of a rotation (\<open>motion_ctrl/Rotating.c\<close>).
  \<open>sin\<close> and \<open>cos\<close> of the C library are arguments. A quotient by zero is 0 here; the hardware
  continues with an infinity or a NaN.
\<close>

section \<open>State and constants\<close>

record tracing =
  Px :: rat
  Py :: rat
  Ptheta :: rat
  glide_buff :: "rat list"
  tr_fuzzy :: fuzzy

record estimate =
  PxOld :: rat
  PyOld :: rat
  PthetaOld :: rat

record POSE =
  pose_x :: rat
  pose_y :: rat
  pose_theta :: rat

definition ENCODERCNT_TO_LENGTH :: "rat \<Rightarrow> rat" where
  "ENCODERCNT_TO_LENGTH cnt = ddiv (dmul cnt WHEEL_PERIMETER) 4000"

definition LENGTH_TO_ENCODERCNT :: "rat \<Rightarrow> rat" where
  "LENGTH_TO_ENCODERCNT l = ddiv (dmul l 4000) WHEEL_PERIMETER"

definition LEGHTH_TO_ANGLE :: "rat \<Rightarrow> rat" where
  "LEGHTH_TO_ANGLE l = ddiv (dmul l 180) (dmul PI VEHICLERADIUS)"

text \<open>\<open>dT\<close> and \<open>B\<close> are \<open>double\<close>, \<open>deltaT\<close> is \<open>float\<close>, \<open>AXLE_LENGTH\<close> is \<open>double\<close>.\<close>

definition dT :: rat where "dT = dmul 20 (fl64 0.001)"
definition deltaT :: rat where "deltaT = fmul 20 (fl32 0.001)"
definition B_axle :: rat where "B_axle = ddiv (dmul VEHICLERADIUS 2) 1000"
definition AXLE_LENGTH :: rat where "AXLE_LENGTH = dmul VEHICLERADIUS 2"
definition M_PINEW :: rat where "M_PINEW = fl64 3.1415926"

section \<open>Path tracking\<close>

definition pInitzq :: "rat \<Rightarrow> rat \<Rightarrow> rat \<Rightarrow> rat \<Rightarrow> tracing \<Rightarrow> tracing" where
  "pInitzq det_y det_th pY0 pTheta0 r = r\<lparr>Px := 0, Py := fadd pY0 det_y, Ptheta := fadd pTheta0 det_th\<rparr>"

abbreviation (input) FILTER_N :: nat where "FILTER_N \<equiv> 1"

definition GlideFilter :: "rat \<Rightarrow> tracing \<Rightarrow> rat \<times> tracing" where
  "GlideFilter input r =
     (case fold (\<lambda>i (filter_sum, buf). let buf1 = buf[i := buf ! (i + 1)] in (dadd filter_sum (buf1 ! i), buf1))
             [0..<FILTER_N - 1] (input, glide_buff r) of
        (filter_sum, buf) \<Rightarrow> (fl32 (ddiv filter_sum (of_nat FILTER_N)), r\<lparr>glide_buff := buf\<rparr>))"

definition GlideReset :: "tracing \<Rightarrow> tracing" where
  "GlideReset r = r\<lparr>glide_buff := replicate FILTER_N 0\<rparr>"

text \<open>A step of the kinematics: the displacement along an axis whose direction cosine is \<open>trig\<close>.\<close>

definition simpson :: "rat \<Rightarrow> rat \<Rightarrow> rat \<Rightarrow> rat \<Rightarrow> rat" where
  "simpson p k1 k2 k4 = fl32 (dadd p (dmul (ddiv 1 6) (fadd (fadd k1 (fmul 4 k2)) k4)))"

definition CalcPzq :: "(rat \<Rightarrow> rat) \<Rightarrow> (rat \<Rightarrow> rat) \<Rightarrow> int \<Rightarrow> int \<Rightarrow> tracing \<Rightarrow> rat \<times> tracing" where
  "CalcPzq sind cosd coderVL coderVR r =
     (let deltaSL = fl32 (ddiv (ENCODERCNT_TO_LENGTH (of_int \<bar>coderVL\<bar>)) 1000);
          deltaSR = fl32 (ddiv (ENCODERCNT_TO_LENGTH (of_int \<bar>coderVR\<bar>)) 1000);
          vL = fl32 (ddiv deltaSL dT); vR = fl32 (ddiv deltaSR dT);
          v = fl32 (dmul 0.5 (fadd vL vR));
          wMeasure = fl32 (ddiv (fsub vR vL) B_axle);
          th = Ptheta r;
          ksit = fl32 (dmul dT wMeasure);
          k1x = fl32 (dmul (dmul dT (cosd th)) v);
          k1y = fl32 (dmul (dmul dT (sind th)) v);
          k2x = fl32 (dmul (dmul dT (cosd (dadd th (dmul 0.5 ksit)))) v);
          k2y = fl32 (dmul (dmul dT (sind (dadd th (dmul 0.5 ksit)))) v);
          k4x = fl32 (dmul (dmul dT (cosd (fadd th ksit))) v);
          k4y = fl32 (dmul (dmul dT (sind (fadd th ksit))) v);
          r1 = r\<lparr>Px := simpson (Px r) k1x k2x k4x, Py := simpson (Py r) k1y k2y k4y, Ptheta := fadd th ksit\<rparr>;
          in0 = fmul (Py r1) 1000;
          in1 = fl32 (dmul (Ptheta r1) (fl64 57.29578))
      in case fuzzy_step in0 in1 (tr_fuzzy r1) of
           (out0, fz) \<Rightarrow> (case GlideFilter out0 (r1\<lparr>tr_fuzzy := fz\<rparr>) of
             (out1, r2) \<Rightarrow> (fl32 (dmul (- 1) out1), r2)))"

section \<open>Dead reckoning\<close>

definition MotionEstimateSet :: "rat \<Rightarrow> rat \<Rightarrow> rat \<Rightarrow> estimate \<Rightarrow> estimate" where
  "MotionEstimateSet pX0 pY0 pTheta0 e = e\<lparr>PxOld := pX0, PyOld := pY0, PthetaOld := fl32 (dmul pTheta0 (fl64 0.0174533))\<rparr>"

definition MotionEstimate :: "(rat \<Rightarrow> rat) \<Rightarrow> (rat \<Rightarrow> rat) \<Rightarrow> rat \<Rightarrow> int \<Rightarrow> int \<Rightarrow> estimate \<Rightarrow> POSE \<times> estimate" where
  "MotionEstimate sind cosd theta coderVL coderVR e =
     (let deltaSL = fl32 (ENCODERCNT_TO_LENGTH (of_int coderVL));
          deltaSR = fl32 (ENCODERCNT_TO_LENGTH (of_int coderVR));
          vL = fdiv deltaSL deltaT; vR = fdiv deltaSR deltaT;
          vMeasure = fl32 (dmul 0.5 (fadd vL vR));
          wMeasure = fl32 (ddiv (fsub vR vL) AXLE_LENGTH);
          ksit = fmul deltaT wMeasure;
          k1x = fl32 (dmul (dmul deltaT (cosd theta)) vMeasure);
          k1y = fl32 (dmul (dmul deltaT (sind theta)) vMeasure);
          k2x = fl32 (dmul (dmul deltaT (cosd (dadd theta (dmul 0.5 ksit)))) vMeasure);
          k2y = fl32 (dmul (dmul deltaT (sind (dadd theta (dmul 0.5 ksit)))) vMeasure);
          k4x = fl32 (dmul (dmul deltaT (cosd (fadd theta ksit))) vMeasure);
          k4y = fl32 (dmul (dmul deltaT (sind (fadd theta ksit))) vMeasure);
          x = simpson (PxOld e) k1x k2x k4x;
          y = simpson (PyOld e) k1y k2y k4y;
          t = fadd (PthetaOld e) ksit
      in (\<lparr>pose_x = x, pose_y = y, pose_theta = t\<rparr>, e\<lparr>PxOld := x, PyOld := y, PthetaOld := t\<rparr>))"

section \<open>The radius of a rotation\<close>

definition lowBound :: "rat \<Rightarrow> rat" where
  "lowBound fValue =
     (if fValue > 0 \<and> fValue < NUM_ERROR then fl32 NUM_ERROR
      else if fValue < 0 \<and> fValue > - NUM_ERROR then fl32 (- NUM_ERROR)
      else fValue)"

definition theta_end :: "rotating \<Rightarrow> rat" where
  "theta_end r =
     (if \<bar>fsub (PthetaFreeze r) (PthetaDesired r)\<bar> > M_PINEW then
        if PthetaFreeze r > PthetaDesired r then fl32 (dsub (PthetaFreeze r) M_PINEW)
        else fl32 (dadd (PthetaFreeze r) M_PINEW)
      else PthetaDesired r)"

text \<open>The line of radius over angle that leads to the wanted place; the offset of the camera is 0.\<close>

definition fit_radius :: "(rat \<Rightarrow> rat) \<Rightarrow> (rat \<Rightarrow> rat) \<Rightarrow> rat \<Rightarrow> rotating \<Rightarrow> rotating" where
  "fit_radius sind cosd PthetaEnd r =
     (let cosE = fl32 (cosd PthetaEnd); sinE = fl32 (sind PthetaEnd);
          cosF = fl32 (cosd (PthetaFreeze r)); sinF = fl32 (sind (PthetaFreeze r));
          deltaX_CCD = fl32 (dsub 0 (dmul (cosd (PthetaDesired r)) 0));
          deltaY_CCD = fl32 (dsub 0 (dmul (sind (PthetaDesired r)) 0));
          deltaX = fadd (fsub (PxDesired r) (PxFreeze r)) deltaX_CCD;
          deltaY = fadd (fsub (PyDesired r) (PyFreeze r)) deltaY_CCD;
          Kxa = lowBound (fsub (fadd (fsub cosE cosF) (fmul PthetaEnd sinE)) (fmul (PthetaFreeze r) sinF));
          Kxb = lowBound (fsub sinE sinF);
          Kya = lowBound (fsub (fsub sinE sinF) (fsub (fmul PthetaEnd cosE) (fmul (PthetaFreeze r) cosF)));
          Kyb = lowBound (fsub cosE cosF)
      in r\<lparr>para_a := fdiv (fadd (fdiv deltaY Kyb) (fdiv deltaX Kxb)) (fadd (fdiv Kya Kyb) (fdiv Kxa Kxb)),
           para_b := fdiv (fsub (fdiv deltaX Kxa) (fdiv deltaY Kya)) (fadd (fdiv Kxb Kxa) (fdiv Kyb Kya))\<rparr>)"

definition CalcRotateP :: "(rat \<Rightarrow> rat) \<Rightarrow> (rat \<Rightarrow> rat) \<Rightarrow> rat \<Rightarrow> rat \<Rightarrow> rat \<Rightarrow> rotating \<Rightarrow> rat \<times> rotating" where
  "CalcRotateP sind cosd Px0 Py0 Ptheta0 r =
     (let th = fl32 (ANGLE_TO_RADIAN Ptheta0);
          e = theta_end r;
          r1 = (if \<bar>fsub (PthetaFreeze r) e\<bar> > fl64 0.3491 then fit_radius sind cosd e r else r);
          r2 = r1\<lparr>PxFreeze := Px0, PyFreeze := Py0, PthetaFreeze := th\<rparr>
      in (fadd (fmul (para_a r2) th) (para_b r2), r2))"

end
