(* ===== verification/Agv_Run.thy ===== *)
theory Agv_Run
  imports Tracing
begin

text \<open>
  The control cycle (\<open>motion_ctrl/rAGVControl.c\<close>), run every 20 ms by \<open>agv_motion_ctrl\<close>
  (\<open>reverseMotionControl.c\<close>): the working modes, the straight move, the turns, the errors and
  the suspended state. \<open>evt\<close> is \<open>motionctrl_event_callback\<close>, the record \<open>libm\<close> holds the
  functions of the C library, the wheel pulses come in through the encoder timers. The level of
  the power feedback input only decides a result that no caller here uses, so it is \<open>False\<close>.
\<close>

section \<open>State\<close>

record libm =
  m_sqrt :: "rat \<Rightarrow> rat"
  m_sin :: "rat \<Rightarrow> rat"
  m_cos :: "rat \<Rightarrow> rat"

record cycle = motion +
  nAgvWorkMode :: u16
  nEvent :: u32
  OutOfTrack :: u16
  GSMissing :: u16
  twoD_Progress :: rat
  RealTwoDProgress :: rat
  rotateR :: rat
  s_max_vel :: rat
  encoder_errcnt_l :: int
  encoder_errcnt_r :: int
  cy_trace :: tracing
  cy_est :: estimate

abbreviation (input) AGV_MODE_STANDBY :: u16 where "AGV_MODE_STANDBY \<equiv> 0"
abbreviation (input) AGV_MODE_RUNNING :: u16 where "AGV_MODE_RUNNING \<equiv> 1"
abbreviation (input) AGV_MODE_SUSPENDED :: u16 where "AGV_MODE_SUSPENDED \<equiv> 2"
abbreviation (input) AGV_MODE_OP :: u16 where "AGV_MODE_OP \<equiv> 3"
abbreviation (input) NO_EVENT :: u32 where "NO_EVENT \<equiv> 0"
abbreviation (input) CONTROL_RESUMABLE_STOP_EVENT :: u32 where "CONTROL_RESUMABLE_STOP_EVENT \<equiv> 5"
abbreviation (input) fOpenVel :: rat where "fOpenVel \<equiv> 40"
abbreviation (input) wOpenVel :: rat where "wOpenVel \<equiv> 1"

definition angleStopDistance :: rat where "angleStopDistance = fl32 0.8"
definition fVelDec :: rat where "fVelDec = fmul (fdiv 20 1000) fAccDn"
definition wCurInc :: rat where "wCurInc = fmul (fdiv 20 1000) wAccUp"

text \<open>The two inputs of the servos are wired off: \<open>MCTools.c\<close> returns a constant.\<close>

definition ServoLeftInvaild :: u16 where "ServoLeftInvaild = 0"
definition ServoRightInvalid :: u16 where "ServoRightInvalid = 0"

type_synonym 's event_cb = "u32 \<Rightarrow> bytes \<Rightarrow> 's \<Rightarrow> 's"

definition error_event :: "'s event_cb \<Rightarrow> u32 \<Rightarrow> 's \<Rightarrow> 's" where
  "error_event evt error s = evt EVENT_ERROR [ucast error] s"

definition drive :: "rat \<Rightarrow> rat \<Rightarrow> 'a cycle_scheme \<Rightarrow> 'a cycle_scheme" where
  "drive l r s = s\<lparr>mc_motors := Drive l r (mc_motors s)\<rparr>"

definition set_power :: "bool \<Rightarrow> 'a cycle_scheme \<Rightarrow> 'a cycle_scheme" where
  "set_power on s = s\<lparr>mc_motors := snd (motors_power_onoff on False (mc_motors s))\<rparr>"

definition init_trace :: "'a cycle_scheme \<Rightarrow> 'a cycle_scheme" where
  "init_trace s =
     s\<lparr>cy_trace := pInitzq (detY0 s) (detTheta0 s) (fl32 (dmul (GS_DEV s) (fl64 0.001))) (fl32 (ANGLE_TO_RADIAN (GS_Angle s)))
                    (cy_trace s)\<rparr>"

section \<open>Standby and the encoders\<close>

definition AGV_Standby :: "'a cycle_scheme \<Rightarrow> 'a cycle_scheme" where
  "AGV_Standby s =
     s\<lparr>nAgvWorkMode := AGV_MODE_RUNNING, wCurrent := 0, fCurVel := 0, fCurVelL := 0, fCurVelR := 0, fTargetVel := 0,
       twoD_Progress := 0, RealTwoDProgress := 0\<rparr>"

definition expect_cnt :: "rat \<Rightarrow> int" where
  "expect_cnt v = ftrunc (ddiv (dmul (LENGTH_TO_ENCODERCNT v) 20) 1000)"

text \<open>A count far from the expected one is replaced by it, and counted.\<close>

definition check_count :: "int \<Rightarrow> int \<Rightarrow> int \<Rightarrow> int \<times> int" where
  "check_count expect delta errcnt =
     (if \<bar>\<bar>expect\<bar> - \<bar>delta\<bar>\<bar> > 30 \<and> (\<bar>expect\<bar> > 2 * \<bar>delta\<bar> \<or> \<bar>delta\<bar> > 2 * \<bar>expect\<bar>) then (expect, errcnt + 1)
      else (delta, if errcnt > 0 then errcnt - 1 else errcnt))"

definition read_encoders :: "'a cycle_scheme event_cb \<Rightarrow> 'a cycle_scheme \<Rightarrow> int \<times> int \<times> 'a cycle_scheme" where
  "read_encoders evt s =
     (case get_count_and_clear (encoder_l s) (mc_enc s) of
        (dl, e1) \<Rightarrow> case get_count_and_clear (encoder_r s) e1 of
          (dr, e2) \<Rightarrow>
            let s1 = s\<lparr>mc_enc := e2\<rparr>
            in if Motionstyle s1 = MOTIONSTATE_ONSTOPING then (dl, dr, s1)
               else case check_count (expect_cnt (fCurVelL s1)) dl (encoder_errcnt_l s1) of
                 (dl', cl) \<Rightarrow> case check_count (expect_cnt (fCurVelR s1)) dr (encoder_errcnt_r s1) of
                   (dr', cr) \<Rightarrow>
                     let s2 = s1\<lparr>encoder_errcnt_l := cl, encoder_errcnt_r := cr\<rparr>;
                         s3 = (if cl > 5 then error_event evt ENCODER_L_ERROR s2 else s2);
                         s4 = (if cr > 5 then error_event evt ENCODER_R_ERROR s3 else s3)
                     in (dl', dr', s4))"

section \<open>The straight move\<close>

definition mean_way :: "int \<Rightarrow> int \<Rightarrow> rat" where
  "mean_way dl dr = ENCODERCNT_TO_LENGTH (fmul (fl32 (of_int (\<bar>dl\<bar> + \<bar>dr\<bar>))) 0.5)"

definition moving_straight :: "'a cycle_scheme \<Rightarrow> bool" where
  "moving_straight s \<longleftrightarrow> Motionstyle s = MOTIONSTATE_GOSTRAIGHT \<or> Motionstyle s = MOTIONSTATE_GOBACKWARD"

text \<open>Way, deviations and the planned speed.\<close>

definition straight_plan :: "libm \<Rightarrow> int \<Rightarrow> int \<Rightarrow> 'a cycle_scheme \<Rightarrow> 'a cycle_scheme" where
  "straight_plan lm dl dr s =
     (let way = fl32 (mean_way dl dr);
          s1 = s\<lparr>RealTwoDProgress := fadd (RealTwoDProgress s) way, sRemain := fsub (sRemain s) way\<rparr>;
          s2 = Get_TwoDDev (UpdateAgvHeadDirToNew s1);
          s3 = (if Motionstyle s2 = MOTIONSTATE_GOBACKWARD
                then s2\<lparr>GS_DevFB := - GS_DevFB s2, GS_DEV := - GS_DEV s2\<rparr> else s2);
          s4 = s3\<lparr>twoD_Progress := fadd (twoD_Progress s3) way\<rparr>;
          fActVel = fl32 (ddiv (dmul way 1000) 20);
          s5 = (if fActVel > s_max_vel s4 then s4\<lparr>s_max_vel := fActVel\<rparr> else s4);
          s_Open = fl32 (ddiv (dmul (s_max_vel s5) 70) 1000)
      in s5\<lparr>fTargetVel := snd (SmoothVelocityPlanning (m_sqrt lm) (fsub (sRemain s5) s_Open) fAccUp fAccDn fActVel fOpenVel (vPath s5))\<rparr>)"

text \<open>What a new tag, or its absence, says of the way.\<close>

definition straight_tag :: "'a cycle_scheme \<Rightarrow> 'a cycle_scheme" where
  "straight_tag s =
     (if fCurVel s < fl32 0.01 then init_trace s
      else if NewTag s \<noteq> 0 then
        let s1 = s\<lparr>RealTwoDProgress := GS_DevFB s, twoD_Progress := GS_DevFB s\<rparr>
        in if sRemain s1 < 300 then
             let s2 = s1\<lparr>sRemain := - GS_DevFB s1\<rparr>
             in if \<bar>sRemain s2\<bar> < sStopDistance \<or> GS_DevFB s2 > fl32 0.0001 then s2\<lparr>fTargetVel := 0\<rparr> else s2
           else
             let s2 = s1\<lparr>iPath := iPath s1 - 1\<rparr>;
                 s3 = s2\<lparr>sRemain := fsub (fmul twoD_Distance (of_nat (unat (iPath s2)))) (GS_DevFB s2)\<rparr>
             in (init_trace s3)\<lparr>NewTag := 0\<rparr>
      else if RealTwoDProgress s > dadd twoD_Distance (ddiv twoD_Distance 2) then s\<lparr>twoD_TagCodeOld := 0, OutOfTrack := 1\<rparr>
      else if twoD_Progress s > fmul twoD_Distance 3 then set_power False s
      else s)"

text \<open>The end of the move, or the speeds of the wheels.\<close>

definition straight_over :: "'a cycle_scheme event_cb \<Rightarrow> 'a cycle_scheme \<Rightarrow> 'a cycle_scheme" where
  "straight_over evt s =
     (let s1 = (drive 0 0 s)\<lparr>fCurVelL := 0, fCurVelR := 0, NewTag := 0, iPath := 0\<rparr>;
          action = (if Motionstyle s1 = MOTIONSTATE_GOSTRAIGHT then ACTION_GOSTRAIGHT else ACTION_GOBACKWARD);
          s2 = (evt EVENT_ACTION_OVER [ucast action] s1);
          s3 = s2\<lparr>s_max_vel := 0, RealTwoDProgress := 0\<rparr>;
          s4 = s3\<lparr>mc_enc := snd (clear_encoder (encoder_r s3) (snd (clear_encoder (encoder_l s3) (mc_enc s3))))\<rparr>;
          s5 = (if Motionstyle s4 = MOTIONSTATE_GOBACKWARD then s4\<lparr>cy_trace := GlideReset (cy_trace s4)\<rparr> else s4)
      in s5\<lparr>Motionstyle := MOTIONSTATE_ONSTOPING\<rparr>)"

definition wheel_speeds :: "rat \<times> rat \<Rightarrow> 'a cycle_scheme \<Rightarrow> 'a cycle_scheme" where
  "wheel_speeds lr s = s\<lparr>fCurVelL := fst lr, fCurVelR := snd lr\<rparr>"

definition straight_steer :: "libm \<Rightarrow> int \<Rightarrow> int \<Rightarrow> 'a cycle_scheme \<Rightarrow> 'a cycle_scheme" where
  "straight_steer lm dl dr s =
     (let back = (Motionstyle s = MOTIONSTATE_GOBACKWARD);
          s1 = (if nEvent s = OUT_OF_TRACK_EVENT \<or> nEvent s = GS_COMM_BREAK_EVENT then s\<lparr>fDiffVel := 0\<rparr>
                else case (if back then CalcPzq (m_sin lm) (m_cos lm) dr dl (cy_trace s)
                           else CalcPzq (m_sin lm) (m_cos lm) dl dr (cy_trace s)) of
                  (d, t) \<Rightarrow> s\<lparr>fDiffVel := d, cy_trace := t\<rparr>);
          s2 = (if fCurVel s1 \<le> dadd fOpenVel (fl64 0.01) then s1\<lparr>fDiffVel := 0\<rparr> else s1);
          s3 = wheel_speeds (VControl (fCurVel s2) (fDiffVel s2)) s2
      in if back then drive (fCurVelR s3) (fCurVelL s3) s3 else drive (fCurVelL s3) (fCurVelR s3) s3)"

definition go_straight :: "'a cycle_scheme event_cb \<Rightarrow> libm \<Rightarrow> int \<Rightarrow> int \<Rightarrow> 'a cycle_scheme \<Rightarrow> 'a cycle_scheme" where
  "go_straight evt lm dl dr s =
     (let s1 = straight_tag (straight_plan lm dl dr s);
          s2 = s1\<lparr>fCurVel := fTargetVel s1\<rparr>
      in if fCurVel s2 < fl32 0.01 then straight_over evt s2 else straight_steer lm dl dr s2)"

section \<open>The turns\<close>

definition minusL :: "u16 \<Rightarrow> u16 \<Rightarrow> int" where
  "minusL src dest = (if dest \<ge> src then int (unat dest) - int (unat src) else int (unat dest) + 4 - int (unat src))"

definition minusR :: "u16 \<Rightarrow> u16 \<Rightarrow> int" where
  "minusR src dest = (if dest > src then 4 + int (unat src) - int (unat dest) else int (unat src) - int (unat dest))"

text \<open>While it turns, the scanner may not stay silent for more than a hundred cycles.\<close>

definition watch_scanner :: "'a cycle_scheme \<Rightarrow> 'a cycle_scheme" where
  "watch_scanner s =
     (if wCurrent s > 1 then
        let s1 = s\<lparr>twoDMissingCnt := twoDMissingCnt s + 1\<rparr>
        in if twoDMissingCnt s1 > 100 then s1\<lparr>GSMissing := 1, twoD_TagCodeOld := 0\<rparr> else s1
      else s)"

definition whole_cycle :: "'a cycle_scheme \<Rightarrow> 'a cycle_scheme" where
  "whole_cycle s =
     (if turnWholeCycleCnt s = 1 \<and> AGV_Head_Dir s = AGV_Dir_Dest s then s\<lparr>angleRemain := fadd (angleRemain s) 360\<rparr>
      else s\<lparr>turnWholeCycleCnt := 0\<rparr>)"

definition turn_over :: "'a cycle_scheme event_cb \<Rightarrow> u32 \<Rightarrow> 'a cycle_scheme \<Rightarrow> 'a cycle_scheme" where
  "turn_over evt action s =
     (let s1 = drive 0 0 (s\<lparr>Motionstyle := MOTIONSTATE_ONSTOPING, fCurVelL := 0, fCurVelR := 0\<rparr>)
      in evt EVENT_ACTION_OVER [ucast action]
           (s1\<lparr>cy_trace := GlideReset (cy_trace s1), angleRemain := 0, angleProcess := 0\<rparr>))"

definition turn_wheels :: "libm \<Rightarrow> 'a cycle_scheme \<Rightarrow> 'a cycle_scheme" where
  "turn_wheels lm s =
     (case CalcRotateP (m_sin lm) (m_cos lm) (twoD_XP s) (twoD_YP s) (twoDAngleNew s) (mc_rot s) of
        (rad, rot) \<Rightarrow>
          let s1 = s\<lparr>rotateR := rad, mc_rot := rot\<rparr>;
              s2 = wheel_speeds (WControl (wCurrent s1) (rotateR s1)) s1
          in drive (fCurVelL s2) (fCurVelR s2) s2)"

text \<open>The pose of the turn: dead reckoning once the scanner is lost.\<close>

definition turn_pose_left :: "libm \<Rightarrow> int \<Rightarrow> int \<Rightarrow> 'a cycle_scheme \<Rightarrow> 'a cycle_scheme" where
  "turn_pose_left lm dl dr s =
     (if GSMissing s = 1 then
        case MotionEstimate (m_sin lm) (m_cos lm) (PthetaFreeze (mc_rot s)) dl dr (cy_est s) of
          (p, e) \<Rightarrow> s\<lparr>cy_est := e, twoD_XP := pose_x p, twoD_YP := pose_y p, twoDAngleNew := pose_theta p\<rparr>
      else
        case ExtendAngleExecute (twoDAngleConver s) (mc_ext s) of
          (a, x) \<Rightarrow> s\<lparr>mc_ext := x, twoDAngleNew := a, cy_est := MotionEstimateSet (twoD_XP s) (twoD_YP s) a (cy_est s)\<rparr>)"

definition turn_speed_left :: "libm \<Rightarrow> int \<Rightarrow> int \<Rightarrow> 'a cycle_scheme \<Rightarrow> rat" where
  "turn_speed_left lm dl dr s =
     (if angleRemain s < angleStopDistance then wOpenVel
      else
        let wActVel = fl32 (ddiv (ddiv (ENCODERCNT_TO_LENGTH (of_int (dr - dl))) deltaT) AXLE_LENGTH)
        in snd (SmoothVelocityPlanning (m_sqrt lm) (fsub (angleRemain s) angleStopDistance) wAccUp wAccDn wActVel wOpenVel 360))"

definition turn_left :: "'a cycle_scheme event_cb \<Rightarrow> libm \<Rightarrow> int \<Rightarrow> int \<Rightarrow> 'a cycle_scheme \<Rightarrow> 'a cycle_scheme" where
  "turn_left evt lm dl dr s =
     (let s1 = Get_TwoDDev (UpdateAgvHeadDirToNew (watch_scanner s));
          s2 = s1\<lparr>angleProcess := fl32 (dadd (angleProcess s1) (LEGHTH_TO_ANGLE (mean_way dl dr))),
                  angleRemain := fsub (fmul (of_int (minusL (AGV_Head_Dir s1) (AGV_Dir_Dest s1))) 90) (GS_Angle s1)\<rparr>;
          s3 = whole_cycle s2;
          s4 = s3\<lparr>wCurrent := turn_speed_left lm dl dr s3\<rparr>;
          s5 = (if wCurrent s4 < fl32 0.01 then turn_over evt ACTION_TRUNLEFT s4 else s4)
      in turn_wheels lm (turn_pose_left lm dl dr s5))"

definition turn_speed_right :: "libm \<Rightarrow> 'a cycle_scheme \<Rightarrow> 'a cycle_scheme" where
  "turn_speed_right lm s =
     (let s1 = (if angleRemain s < angleVDown s then if wTarget s > 5 then s\<lparr>wTarget := 5\<rparr> else s
                else CyclePlan (m_sqrt lm) (angleRemain s) wAccUp wAccDn (wCurrent s) (wCycle s) s);
          s2 = (if angleRemain s1 < angleStopDistance then s1\<lparr>wTarget := 0, angleProcess := 0\<rparr> else s1)
      in s2\<lparr>wCurrent := snd (FApproach (wCurrent s2) (wTarget s2) wCurInc)\<rparr>)"

definition turn_right :: "'a cycle_scheme event_cb \<Rightarrow> libm \<Rightarrow> int \<Rightarrow> int \<Rightarrow> 'a cycle_scheme \<Rightarrow> 'a cycle_scheme" where
  "turn_right evt lm dl dr s =
     (let s1 = Get_TwoDDev (UpdateAgvHeadDirToNew (watch_scanner s));
          s2 = s1\<lparr>angleProcess := fl32 (dsub (angleProcess s1) (LEGHTH_TO_ANGLE (mean_way dl dr))),
                  angleRemain := fadd (fmul (of_int (minusR (AGV_Head_Dir s1) (AGV_Dir_Dest s1))) 90) (GS_Angle s1)\<rparr>;
          s3 = turn_speed_right lm (whole_cycle s2);
          s4 = (if \<bar>wCurrent s3\<bar> < fl32 0.01 then turn_over evt ACTION_TRUNRIGHT s3 else s3)
      in case ExtendAngleExecute (twoDAngleConver s4) (mc_ext s4) of
           (a, x) \<Rightarrow> turn_wheels lm (s4\<lparr>mc_ext := x, twoDAngleNew := a\<rparr>))"

section \<open>Errors while running\<close>

text \<open>The event of the cycle, and what it sets going: nothing but the event, or the current move.\<close>

definition run_no_event :: "'a cycle_scheme event_cb \<Rightarrow> libm \<Rightarrow> int \<Rightarrow> int \<Rightarrow> 'a cycle_scheme \<Rightarrow> 'a cycle_scheme" where
  "run_no_event evt lm dl dr s =
     (if ethCommBreakFlag s = 1 then s\<lparr>nEvent := CONTROL_RESUMABLE_STOP_EVENT\<rparr>
      else if OutOfTrack s = 1 then error_event evt OUT_OF_TRACK_EVENT (s\<lparr>nEvent := OUT_OF_TRACK_EVENT\<rparr>)
      else if GSMissing s = 1 then error_event evt GS_COMM_BREAK_EVENT (s\<lparr>nEvent := GS_COMM_BREAK_EVENT\<rparr>)
      else if ServoLeftInvaild \<noteq> 0 then s\<lparr>nEvent := SERVOL_INVALID_EVENT\<rparr>
      else if ServoRightInvalid \<noteq> 0 then s\<lparr>nEvent := SERVOR_INVALID_EVENT\<rparr>
      else if moving_straight s then go_straight evt lm dl dr s
      else if Motionstyle s = MOTIONSTATE_TRUNLEFT then turn_left evt lm dl dr s
      else if Motionstyle s = MOTIONSTATE_TRUNRIGHT then turn_right evt lm dl dr s
      else s)"

text \<open>The straight move while an error is on: the vehicle brakes and keeps tracking.\<close>

definition event_tag :: "'a cycle_scheme \<Rightarrow> 'a cycle_scheme" where
  "event_tag s =
     (if NewTag s \<noteq> 0 then
        let s1 = s\<lparr>RealTwoDProgress := GS_DevFB s, twoD_Progress := GS_DevFB s\<rparr>
        in if sRemain s1 < 300 then s1\<lparr>sRemain := GS_DevFB s1\<rparr>
           else
             let s2 = s1\<lparr>iPath := iPath s1 - 1\<rparr>;
                 s3 = s2\<lparr>sRemain := fsub (fmul twoD_Distance (of_nat (unat (iPath s2)))) (GS_DevFB s2)\<rparr>
             in (init_trace s3)\<lparr>NewTag := 0\<rparr>
      else s)"

definition event_brake :: "'a cycle_scheme \<Rightarrow> 'a cycle_scheme" where
  "event_brake s =
     (case FApproach (fCurVel s) 0 fVelDec of
        (r, v) \<Rightarrow>
          let s1 = s\<lparr>fCurVel := v\<rparr>
          in if r \<noteq> 0 then
               if nEvent s1 = OUT_OF_TRACK_EVENT
               then s1\<lparr>twoD_Progress := 0, RealTwoDProgress := 0, sRemain := 0, iPath := 0, fCurVelL := 0, fCurVelR := 0\<rparr>
               else if nEvent s1 = CONTROL_RESUMABLE_STOP_EVENT then s1\<lparr>nAgvWorkMode := AGV_MODE_SUSPENDED\<rparr>
               else s1
             else s1)"

definition event_straight :: "libm \<Rightarrow> int \<Rightarrow> int \<Rightarrow> 'a cycle_scheme \<Rightarrow> 'a cycle_scheme" where
  "event_straight lm dl dr s =
     (let s1 = Get_TwoDDev (UpdateAgvHeadDirToNew s);
          s2 = s1\<lparr>twoD_Progress := fadd (twoD_Progress s1) (fl32 (mean_way dl dr))\<rparr>;
          s3 = event_brake (event_tag s2);
          s4 = (if fCurVel s3 < fl32 0.01 then (drive 0 0 (s3\<lparr>fCurVelL := 0, fCurVelR := 0\<rparr>))\<lparr>Motionstyle := MOTIONSTATE_ONSTOPING\<rparr>
                else case CalcPzq (m_sin lm) (m_cos lm) dl dr (cy_trace s3) of
                  (d, t) \<Rightarrow>
                    let s5 = s3\<lparr>fDiffVel := d, cy_trace := t\<rparr>;
                        s6 = wheel_speeds (VControl (fCurVel s5) (fDiffVel s5)) s5
                    in drive (fCurVelL s6) (fCurVelR s6) s6)
      in if nEvent s4 = CONTROL_RESUMABLE_STOP_EVENT \<and> ethCommBreakFlag s4 = 0
         then s4\<lparr>nAgvWorkMode := AGV_MODE_RUNNING, nEvent := NO_EVENT\<rparr> else s4)"

definition is_turning :: "'a cycle_scheme \<Rightarrow> bool" where
  "is_turning s \<longleftrightarrow> Motionstyle s = MOTIONSTATE_TRUNLEFT \<or> Motionstyle s = MOTIONSTATE_TRUNRIGHT"

definition run_event :: "libm \<Rightarrow> int \<Rightarrow> int \<Rightarrow> 'a cycle_scheme \<Rightarrow> 'a cycle_scheme" where
  "run_event lm dl dr s =
     (let s1 = (if nEvent s = SERVOL_INVALID_EVENT \<or> nEvent s = SERVOR_INVALID_EVENT
                then s\<lparr>sRemain := 0, angleRemain := 0, fCurVelL := 0, fCurVelR := 0, Motionstyle := MOTIONSTATE_ONSTOPING,
                       nAgvWorkMode := AGV_MODE_SUSPENDED\<rparr> else s);
          s2 = (if nEvent s1 = GS_COMM_BREAK_EVENT \<and> is_turning s1
                then s1\<lparr>angleRemain := 0, fCurVelL := 0, fCurVelR := 0, nAgvWorkMode := AGV_MODE_SUSPENDED,
                        Motionstyle := MOTIONSTATE_ONSTOPING\<rparr> else s1)
      in if moving_straight s2 then event_straight lm dl dr s2
         else if Motionstyle s2 = MOTIONSTATE_ONSTOPING then s2\<lparr>nAgvWorkMode := AGV_MODE_SUSPENDED\<rparr>
         else s2)"

definition AGV_Running :: "'a cycle_scheme event_cb \<Rightarrow> libm \<Rightarrow> 'a cycle_scheme \<Rightarrow> 'a cycle_scheme" where
  "AGV_Running evt lm s =
     (case read_encoders evt s of
        (dl, dr, s1) \<Rightarrow>
          let s2 = (if nEvent s1 = NO_EVENT then run_no_event evt lm dl dr s1 else s1)
          in if nEvent s2 \<noteq> NO_EVENT then run_event lm dl dr s2 else s2)"

section \<open>The suspended state and the modes\<close>

definition resume :: "'a cycle_scheme \<Rightarrow> 'a cycle_scheme" where
  "resume s =
     set_power True
       (s\<lparr>nAgvWorkMode := AGV_MODE_RUNNING, fCurVel := 0, fDiffVel := 0, wCurrent := 0, fCurVelL := 0, fCurVelR := 0,
          nEvent := NO_EVENT\<rparr>)"

definition AGV_SuspendRun :: "'a cycle_scheme \<Rightarrow> 'a cycle_scheme" where
  "AGV_SuspendRun s =
     (let s1 = set_power False (drive 0 0 s)
      in if nEvent s1 = OUT_OF_TRACK_EVENT then
           if OutOfTrack s1 = 0 then resume (s1\<lparr>iPath := 0, NewTag := 0\<rparr>) else s1
         else if nEvent s1 = GS_COMM_BREAK_EVENT then
           if GSMissing s1 = 0 then (resume (s1\<lparr>iPath := 0, NewTag := 0\<rparr>))\<lparr>twoDMissingCnt := 0\<rparr> else s1
         else if nEvent s1 = CONTROL_RESUMABLE_STOP_EVENT then if ethCommBreakFlag s1 = 0 then resume s1 else s1
         else if nEvent s1 = SERVOL_INVALID_EVENT then
           if ServoLeftInvaild = 0 then resume (s1\<lparr>iPath := 0\<rparr>) else s1
         else if nEvent s1 = SERVOR_INVALID_EVENT then
           if ServoRightInvalid = 0 then resume (s1\<lparr>iPath := 0\<rparr>) else s1
         else s1)"

definition AGV_Run :: "'a cycle_scheme event_cb \<Rightarrow> libm \<Rightarrow> 'a cycle_scheme \<Rightarrow> 'a cycle_scheme" where
  "AGV_Run evt lm s =
     (if nAgvWorkMode s = AGV_MODE_STANDBY then AGV_Standby s
      else if nAgvWorkMode s = AGV_MODE_RUNNING then AGV_Running evt lm s
      else if nAgvWorkMode s = AGV_MODE_OP then s
      else if nAgvWorkMode s = AGV_MODE_SUSPENDED then AGV_SuspendRun s
      else s)"

text \<open>A round of the loop of \<open>agv_motion_ctrl\<close>; the delay to the next cycle changes nothing.\<close>

definition motion_ctrl_round ::
  "'a cycle_scheme event_cb \<Rightarrow> libm \<Rightarrow> u32 \<Rightarrow> u32 \<Rightarrow> bool \<Rightarrow> 'a cycle_scheme \<Rightarrow> 'a cycle_scheme" where
  "motion_ctrl_round evt lm now1 now2 inpos s =
     (let s1 = AGV_Run evt lm s
      in case reverseTask evt now1 now2 inpos (mc_unload s1, mc_motors s1, s1) of
           (u, m, s2) \<Rightarrow> s2\<lparr>mc_unload := u, mc_motors := m\<rparr>)"

end
