(* ===== verification/Cycle_Reports.thy ===== *)
theory Cycle_Reports
  imports Agv_Run Float_Facts
begin

text \<open>
  What a control cycle reports through the callback it is given, whoever the callback
  belongs to. The locale \<open>event_reports\<close> is the contract: the callback leaves the control state alone
  and appends the report to what its owner has received, as long as there is room. It is
  interpreted for a record of the reports in \<open>Agv_Run_Facts\<close> and for the coordinator in \<open>Vehicle\<close>.
\<close>

section \<open>What the steps of a cycle leave alone\<close>

lemma heading_keeps [simp]:
  fixes s :: "'a cycle_scheme"
  shows "nAgvWorkMode (UpdateAgvHeadDirToNew s) = nAgvWorkMode s" "nEvent (UpdateAgvHeadDirToNew s) = nEvent s"
    "OutOfTrack (UpdateAgvHeadDirToNew s) = OutOfTrack s" "GSMissing (UpdateAgvHeadDirToNew s) = GSMissing s"
    "Motionstyle (UpdateAgvHeadDirToNew s) = Motionstyle s" "fCurVel (UpdateAgvHeadDirToNew s) = fCurVel s"
    "cycle.more (UpdateAgvHeadDirToNew s) = cycle.more s" "ethCommBreakFlag (UpdateAgvHeadDirToNew s) = ethCommBreakFlag s"
    "fCurVelL (UpdateAgvHeadDirToNew s) = fCurVelL s" "fCurVelR (UpdateAgvHeadDirToNew s) = fCurVelR s"
    "mc_motors (UpdateAgvHeadDirToNew s) = mc_motors s" "wCurrent (UpdateAgvHeadDirToNew s) = wCurrent s"
  by (simp_all add: UpdateAgvHeadDirToNew_def Let_def)

lemma deviation_keeps [simp]:
  fixes s :: "'a cycle_scheme"
  shows "nAgvWorkMode (Get_TwoDDev s) = nAgvWorkMode s" "nEvent (Get_TwoDDev s) = nEvent s"
    "OutOfTrack (Get_TwoDDev s) = OutOfTrack s" "GSMissing (Get_TwoDDev s) = GSMissing s"
    "Motionstyle (Get_TwoDDev s) = Motionstyle s" "fCurVel (Get_TwoDDev s) = fCurVel s"
    "cycle.more (Get_TwoDDev s) = cycle.more s" "ethCommBreakFlag (Get_TwoDDev s) = ethCommBreakFlag s"
    "fCurVelL (Get_TwoDDev s) = fCurVelL s" "fCurVelR (Get_TwoDDev s) = fCurVelR s"
    "mc_motors (Get_TwoDDev s) = mc_motors s" "wCurrent (Get_TwoDDev s) = wCurrent s"
  by (simp_all add: Get_TwoDDev_def)

lemma drive_keeps [simp]:
  "nAgvWorkMode (drive l r s) = nAgvWorkMode s" "nEvent (drive l r s) = nEvent s" "OutOfTrack (drive l r s) = OutOfTrack s"
  "GSMissing (drive l r s) = GSMissing s" "Motionstyle (drive l r s) = Motionstyle s" "fCurVel (drive l r s) = fCurVel s"
  "cycle.more (drive l r s) = cycle.more s" "fCurVelL (drive l r s) = fCurVelL s" "fCurVelR (drive l r s) = fCurVelR s"
  "ethCommBreakFlag (drive l r s) = ethCommBreakFlag s"
  by (simp_all add: drive_def)

lemma wheel_speeds_keeps [simp]:
  "nAgvWorkMode (wheel_speeds v s) = nAgvWorkMode s" "nEvent (wheel_speeds v s) = nEvent s" "OutOfTrack (wheel_speeds v s) = OutOfTrack s"
  "GSMissing (wheel_speeds v s) = GSMissing s" "Motionstyle (wheel_speeds v s) = Motionstyle s" "fCurVel (wheel_speeds v s) = fCurVel s"
  "cycle.more (wheel_speeds v s) = cycle.more s" "ethCommBreakFlag (wheel_speeds v s) = ethCommBreakFlag s"
  "fCurVelL (wheel_speeds v s) = fst v" "fCurVelR (wheel_speeds v s) = snd v"
  by (simp_all add: wheel_speeds_def)

lemma set_power_keeps [simp]:
  "nAgvWorkMode (set_power on s) = nAgvWorkMode s" "nEvent (set_power on s) = nEvent s" "OutOfTrack (set_power on s) = OutOfTrack s"
  "GSMissing (set_power on s) = GSMissing s" "Motionstyle (set_power on s) = Motionstyle s" "fCurVel (set_power on s) = fCurVel s"
  "cycle.more (set_power on s) = cycle.more s" "ethCommBreakFlag (set_power on s) = ethCommBreakFlag s"
  "fCurVelL (set_power on s) = fCurVelL s" "fCurVelR (set_power on s) = fCurVelR s"
  "motors_powerup (mc_motors (set_power on s)) = (if on then 0 else 1)"
  by (simp_all add: set_power_def motors_power_onoff_def)

lemma init_trace_keeps [simp]:
  "nAgvWorkMode (init_trace s) = nAgvWorkMode s" "nEvent (init_trace s) = nEvent s" "OutOfTrack (init_trace s) = OutOfTrack s"
  "GSMissing (init_trace s) = GSMissing s" "Motionstyle (init_trace s) = Motionstyle s" "fCurVel (init_trace s) = fCurVel s"
  "cycle.more (init_trace s) = cycle.more s" "ethCommBreakFlag (init_trace s) = ethCommBreakFlag s"
  "fCurVelL (init_trace s) = fCurVelL s" "fCurVelR (init_trace s) = fCurVelR s"
  by (simp_all add: init_trace_def)

lemma straight_plan_keeps [simp]:
  "nAgvWorkMode (straight_plan lm dl dr s) = nAgvWorkMode s" "nEvent (straight_plan lm dl dr s) = nEvent s"
  "OutOfTrack (straight_plan lm dl dr s) = OutOfTrack s" "GSMissing (straight_plan lm dl dr s) = GSMissing s"
  "Motionstyle (straight_plan lm dl dr s) = Motionstyle s" "fCurVel (straight_plan lm dl dr s) = fCurVel s"
  "cycle.more (straight_plan lm dl dr s) = cycle.more s" "fCurVelL (straight_plan lm dl dr s) = fCurVelL s"
  "fCurVelR (straight_plan lm dl dr s) = fCurVelR s"
  by (simp_all add: straight_plan_def Let_def)

lemma straight_tag_keeps [simp]:
  "nAgvWorkMode (straight_tag s) = nAgvWorkMode s" "nEvent (straight_tag s) = nEvent s"
  "GSMissing (straight_tag s) = GSMissing s"
  "Motionstyle (straight_tag s) = Motionstyle s" "fCurVel (straight_tag s) = fCurVel s"
  "cycle.more (straight_tag s) = cycle.more s" "fCurVelL (straight_tag s) = fCurVelL s"
  "fCurVelR (straight_tag s) = fCurVelR s"
  by (simp_all add: straight_tag_def Let_def)

lemma straight_steer_keeps [simp]:
  "nAgvWorkMode (straight_steer lm dl dr s) = nAgvWorkMode s" "nEvent (straight_steer lm dl dr s) = nEvent s"
  "OutOfTrack (straight_steer lm dl dr s) = OutOfTrack s" "GSMissing (straight_steer lm dl dr s) = GSMissing s"
  "Motionstyle (straight_steer lm dl dr s) = Motionstyle s" "fCurVel (straight_steer lm dl dr s) = fCurVel s"
  "cycle.more (straight_steer lm dl dr s) = cycle.more s"
  by (simp_all add: straight_steer_def Let_def case_prod_unfold)

lemma turn_keeps [simp]:
  "nEvent (watch_scanner s) = nEvent s" "Motionstyle (watch_scanner s) = Motionstyle s" "cycle.more (watch_scanner s) = cycle.more s"
  "nAgvWorkMode (watch_scanner s) = nAgvWorkMode s" "OutOfTrack (watch_scanner s) = OutOfTrack s"
  "nEvent (whole_cycle s) = nEvent s" "Motionstyle (whole_cycle s) = Motionstyle s" "cycle.more (whole_cycle s) = cycle.more s"
  "nAgvWorkMode (whole_cycle s) = nAgvWorkMode s"
  "nEvent (turn_wheels lm s) = nEvent s" "Motionstyle (turn_wheels lm s) = Motionstyle s" "cycle.more (turn_wheels lm s) = cycle.more s"
  "nAgvWorkMode (turn_wheels lm s) = nAgvWorkMode s"
  "nEvent (turn_pose_left lm dl dr s) = nEvent s" "Motionstyle (turn_pose_left lm dl dr s) = Motionstyle s"
  "cycle.more (turn_pose_left lm dl dr s) = cycle.more s" "nAgvWorkMode (turn_pose_left lm dl dr s) = nAgvWorkMode s"
  "nEvent (turn_speed_right lm s) = nEvent s" "Motionstyle (turn_speed_right lm s) = Motionstyle s"
  "cycle.more (turn_speed_right lm s) = cycle.more s" "nAgvWorkMode (turn_speed_right lm s) = nAgvWorkMode s"
  by (simp_all add: watch_scanner_def whole_cycle_def turn_wheels_def turn_pose_left_def turn_speed_right_def CyclePlan_def
      Let_def case_prod_unfold)

section \<open>The reports\<close>

fun over_of :: "motion_state \<Rightarrow> u32" where
  "over_of MOTIONSTATE_GOSTRAIGHT = ACTION_GOSTRAIGHT"
| "over_of MOTIONSTATE_GOBACKWARD = ACTION_GOBACKWARD"
| "over_of MOTIONSTATE_TRUNLEFT = ACTION_TRUNLEFT"
| "over_of MOTIONSTATE_TRUNRIGHT = ACTION_TRUNRIGHT"
| "over_of MOTIONSTATE_UNLOADING = ACTION_UNLOAD"
| "over_of MOTIONSTATE_ONSTOPING = ACTION_STOP"

definition overs :: "(u32 \<times> bytes) list \<Rightarrow> bytes list" where
  "overs l = map snd (filter (\<lambda>e. fst e = EVENT_ACTION_OVER) l)"

lemma overs_append [simp]: "overs (a @ b) = overs a @ overs b"
  by (simp add: overs_def)

lemma overs_simps [simp]: "overs [] = []" "overs ((e, ps) # l) = (if e = EVENT_ACTION_OVER then ps # overs l else overs l)"
  by (simp_all add: overs_def)

lemma event_keeps [simp]:
  "cycle.more (event_tag s) = cycle.more s" "cycle.more (event_brake s) = cycle.more s" "cycle.more (event_straight lm dl dr s) = cycle.more s"
  "cycle.more (run_event lm dl dr s) = cycle.more s"
proof -
  show t: "cycle.more (event_tag s) = cycle.more s" for s :: "'a cycle_scheme" by (simp add: event_tag_def Let_def)
  show b: "cycle.more (event_brake s) = cycle.more s" for s :: "'a cycle_scheme" by (simp add: event_brake_def Let_def case_prod_unfold)
  show e: "cycle.more (event_straight lm dl dr s) = cycle.more s" for s :: "'a cycle_scheme"
    by (simp add: event_straight_def Let_def case_prod_unfold t b)
  show "cycle.more (run_event lm dl dr s) = cycle.more s" for s :: "'a cycle_scheme" by (simp add: run_event_def Let_def e)
qed

lemma event_nEvent:
  "nEvent (event_tag s) = nEvent s" "nEvent (event_brake s) = nEvent s"
  "ethCommBreakFlag (event_tag s) = ethCommBreakFlag s" "ethCommBreakFlag (event_brake s) = ethCommBreakFlag s"
  by (simp_all add: event_tag_def event_brake_def Let_def case_prod_unfold)

lemma run_event_nEvent:
  "nEvent (run_event lm dl dr s) \<noteq> NO_EVENT \<or> nEvent s = NO_EVENT \<or> nEvent s = CONTROL_RESUMABLE_STOP_EVENT \<and> ethCommBreakFlag s = 0"
  by (auto simp: run_event_def event_straight_def event_nEvent Let_def case_prod_unfold)

locale event_reports =
  fixes evt :: "'a cycle_scheme event_cb" and obs :: "'a \<Rightarrow> (u32 \<times> bytes) list" and room :: "nat \<Rightarrow> 'a \<Rightarrow> bool"
  assumes evt_keeps [simp]: "nAgvWorkMode (evt e ps s) = nAgvWorkMode s" "nEvent (evt e ps s) = nEvent s"
      "OutOfTrack (evt e ps s) = OutOfTrack s" "GSMissing (evt e ps s) = GSMissing s" "Motionstyle (evt e ps s) = Motionstyle s"
      "fCurVel (evt e ps s) = fCurVel s" "ethCommBreakFlag (evt e ps s) = ethCommBreakFlag s"
      "fCurVelL (evt e ps s) = fCurVelL s" "fCurVelR (evt e ps s) = fCurVelR s"
    and evt_obs: "e = EVENT_ACTION_OVER \<or> e = EVENT_ERROR \<Longrightarrow> length ps = 1 \<Longrightarrow> room (Suc n) (cycle.more s) \<Longrightarrow>
      room n (cycle.more (evt e ps s)) \<and> obs (cycle.more (evt e ps s)) = obs (cycle.more s) @ [(e, ps)]"
    and room_less: "room (Suc n) c \<Longrightarrow> room n c"
begin

lemma error_event_obs:
  "room (Suc n) (cycle.more s) \<Longrightarrow> room n (cycle.more (error_event evt e s))
     \<and> obs (cycle.more (error_event evt e s)) = obs (cycle.more s) @ [(EVENT_ERROR, [ucast e])]"
  using evt_obs by (simp add: error_event_def)

lemma error_event_keeps [simp]:
  "nAgvWorkMode (error_event evt e s) = nAgvWorkMode s" "nEvent (error_event evt e s) = nEvent s"
  "OutOfTrack (error_event evt e s) = OutOfTrack s" "GSMissing (error_event evt e s) = GSMissing s"
  "Motionstyle (error_event evt e s) = Motionstyle s" "fCurVel (error_event evt e s) = fCurVel s"
  "ethCommBreakFlag (error_event evt e s) = ethCommBreakFlag s" "fCurVelL (error_event evt e s) = fCurVelL s"
  "fCurVelR (error_event evt e s) = fCurVelR s"
  by (simp_all add: error_event_def)

text \<open>Reading the encoders reports at most their two errors, and none while few readings were wrong.\<close>

lemma read_encoders_reports:
  assumes "read_encoders evt s = (dl, dr, s')" "room (Suc (Suc n)) (cycle.more s)"
  shows "nAgvWorkMode s' = nAgvWorkMode s \<and> nEvent s' = nEvent s \<and> OutOfTrack s' = OutOfTrack s \<and> GSMissing s' = GSMissing s
    \<and> Motionstyle s' = Motionstyle s \<and> fCurVel s' = fCurVel s \<and> ethCommBreakFlag s' = ethCommBreakFlag s
    \<and> fCurVelL s' = fCurVelL s \<and> fCurVelR s' = fCurVelR s \<and> room n (cycle.more s')
    \<and> (\<exists>es. obs (cycle.more s') = obs (cycle.more s) @ es
          \<and> set es \<subseteq> {(EVENT_ERROR, [ucast ENCODER_L_ERROR]), (EVENT_ERROR, [ucast ENCODER_R_ERROR])}
          \<and> (encoder_errcnt_l s \<le> 4 \<and> encoder_errcnt_r s \<le> 4 \<longrightarrow> es = []))"
proof -
  obtain dl0 e1 where 1: "get_count_and_clear (encoder_l s) (mc_enc s) = (dl0, e1)" by fastforce
  obtain dr0 e2 where 2: "get_count_and_clear (encoder_r s) e1 = (dr0, e2)" by fastforce
  show ?thesis
  proof (cases "Motionstyle s = MOTIONSTATE_ONSTOPING")
    case True
    then have "s' = s\<lparr>mc_enc := e2\<rparr>" using assms(1) 1 2 by (simp add: read_encoders_def Let_def)
    then show ?thesis using assms(2) room_less by auto
  next
    case False
    obtain l cl where l: "check_count (expect_cnt (fCurVelL s)) dl0 (encoder_errcnt_l s) = (l, cl)" by fastforce
    obtain r cr where r: "check_count (expect_cnt (fCurVelR s)) dr0 (encoder_errcnt_r s) = (r, cr)" by fastforce
    define s2 where "s2 = s\<lparr>mc_enc := e2, encoder_errcnt_l := cl, encoder_errcnt_r := cr\<rparr>"
    define s3 where "s3 = (if cl > 5 then error_event evt ENCODER_L_ERROR s2 else s2)"
    have s': "s' = (if cr > 5 then error_event evt ENCODER_R_ERROR s3 else s3)"
      using assms(1) 1 2 False l r by (auto simp: read_encoders_def s2_def s3_def Let_def)
    have "encoder_errcnt_l s \<le> 4 \<longrightarrow> cl \<le> 5" "encoder_errcnt_r s \<le> 4 \<longrightarrow> cr \<le> 5"
      using l r by (auto simp: check_count_def split: if_splits)
    moreover have "cycle.more s2 = cycle.more s" by (simp add: s2_def)
    then have 3: "room (Suc n) (cycle.more s3) \<and> obs (cycle.more s3) = obs (cycle.more s)
        @ (if cl > 5 then [(EVENT_ERROR, [ucast ENCODER_L_ERROR])] else [])"
      using error_event_obs [of "Suc n" s2] assms(2) room_less by (auto simp: s3_def)
    then have "room n (cycle.more s') \<and> obs (cycle.more s') = obs (cycle.more s3)
        @ (if cr > 5 then [(EVENT_ERROR, [ucast ENCODER_R_ERROR])] else [])"
      using error_event_obs [of n s3] room_less by (auto simp: s')
    ultimately show ?thesis using 3 by (auto simp: s' s3_def s2_def)
  qed
qed

text \<open>The end of a move is reported when it is set to rest, with its name.\<close>

lemma over_obs:
  "room (Suc n) (cycle.more s) \<Longrightarrow> room n (cycle.more (evt EVENT_ACTION_OVER [a] s))"
  "room (Suc n) (cycle.more s) \<Longrightarrow> obs (cycle.more (evt EVENT_ACTION_OVER [a] s)) = obs (cycle.more s) @ [(EVENT_ACTION_OVER, [a])]"
  using evt_obs [of EVENT_ACTION_OVER "[a]" n s] by simp_all

lemma straight_over_reports:
  assumes "moving_straight s" "room (Suc n) (cycle.more s)"
  shows "nEvent (straight_over evt s) = nEvent s" "nAgvWorkMode (straight_over evt s) = nAgvWorkMode s"
    "Motionstyle (straight_over evt s) = MOTIONSTATE_ONSTOPING" "room n (cycle.more (straight_over evt s))"
    "obs (cycle.more (straight_over evt s)) = obs (cycle.more s) @ [(EVENT_ACTION_OVER, [ucast (over_of (Motionstyle s))])]"
  using assms(1) by (auto simp: straight_over_def moving_straight_def Let_def over_obs [where n = n] assms(2))

lemma turn_over_reports:
  assumes "room (Suc n) (cycle.more s)"
  shows "nEvent (turn_over evt a s) = nEvent s" "nAgvWorkMode (turn_over evt a s) = nAgvWorkMode s"
    "Motionstyle (turn_over evt a s) = MOTIONSTATE_ONSTOPING" "room n (cycle.more (turn_over evt a s))"
    "obs (cycle.more (turn_over evt a s)) = obs (cycle.more s) @ [(EVENT_ACTION_OVER, [ucast a])]"
  by (simp_all add: turn_over_def Let_def over_obs [where n = n] assms)

lemma go_straight_reports:
  assumes "moving_straight s" "room (Suc n) (cycle.more s)"
  shows "nEvent (go_straight evt lm dl dr s) = nEvent s \<and> nAgvWorkMode (go_straight evt lm dl dr s) = nAgvWorkMode s
    \<and> room n (cycle.more (go_straight evt lm dl dr s))
    \<and> obs (cycle.more (go_straight evt lm dl dr s)) = obs (cycle.more s)
      @ (if Motionstyle (go_straight evt lm dl dr s) = MOTIONSTATE_ONSTOPING then [(EVENT_ACTION_OVER, [ucast (over_of (Motionstyle s))])] else [])"
proof -
  define t where "t = straight_tag (straight_plan lm dl dr s)"
  let ?t = "t\<lparr>fCurVel := fTargetVel t\<rparr>"
  have t: "nEvent ?t = nEvent s" "nAgvWorkMode ?t = nAgvWorkMode s" "Motionstyle ?t = Motionstyle s" "cycle.more ?t = cycle.more s"
    by (simp_all add: t_def)
  have m: "moving_straight ?t" "room (Suc n) (cycle.more ?t)" using assms t by (simp_all add: moving_straight_def)
  have g: "go_straight evt lm dl dr s = (if fCurVel ?t < fl32 0.01 then straight_over evt ?t else straight_steer lm dl dr ?t)"
    by (simp add: go_straight_def t_def Let_def)
  have "Motionstyle s \<noteq> MOTIONSTATE_ONSTOPING" using assms(1) by (auto simp: moving_straight_def)
  then show ?thesis unfolding g using straight_over_reports [OF m] t assms(2) room_less by simp
qed

lemma turn_left_reports:
  assumes "Motionstyle s = MOTIONSTATE_TRUNLEFT" "room (Suc n) (cycle.more s)"
  shows "nEvent (turn_left evt lm dl dr s) = nEvent s \<and> nAgvWorkMode (turn_left evt lm dl dr s) = nAgvWorkMode s
    \<and> room n (cycle.more (turn_left evt lm dl dr s))
    \<and> obs (cycle.more (turn_left evt lm dl dr s)) = obs (cycle.more s)
      @ (if Motionstyle (turn_left evt lm dl dr s) = MOTIONSTATE_ONSTOPING then [(EVENT_ACTION_OVER, [ucast (over_of (Motionstyle s))])] else [])"
  using assms room_less by (simp add: turn_left_def turn_over_reports [where n = n] Let_def)

lemma turn_right_reports:
  assumes "Motionstyle s = MOTIONSTATE_TRUNRIGHT" "room (Suc n) (cycle.more s)"
  shows "nEvent (turn_right evt lm dl dr s) = nEvent s \<and> nAgvWorkMode (turn_right evt lm dl dr s) = nAgvWorkMode s
    \<and> room n (cycle.more (turn_right evt lm dl dr s))
    \<and> obs (cycle.more (turn_right evt lm dl dr s)) = obs (cycle.more s)
      @ (if Motionstyle (turn_right evt lm dl dr s) = MOTIONSTATE_ONSTOPING then [(EVENT_ACTION_OVER, [ucast (over_of (Motionstyle s))])] else [])"
  using assms room_less by (simp add: turn_right_def turn_over_reports [where n = n] Let_def case_prod_unfold)

text \<open>The reports of one cycle: errors, and at its end the end of the move, if it ended without one.\<close>

lemma run_no_event_reports:
  assumes "nEvent s = NO_EVENT" "room (Suc n) (cycle.more s)" and s2: "s2 = run_no_event evt lm dl dr s"
  shows "\<exists>es. obs (cycle.more s2) = obs (cycle.more s) @ es
      @ (if nEvent s2 = NO_EVENT \<and> Motionstyle s \<noteq> MOTIONSTATE_ONSTOPING \<and> Motionstyle s2 = MOTIONSTATE_ONSTOPING
         then [(EVENT_ACTION_OVER, [ucast (over_of (Motionstyle s))])] else [])
      \<and> (\<forall>e\<in>set es. fst e = EVENT_ERROR) \<and> (nEvent s2 = NO_EVENT \<longrightarrow> es = [])"
    "room n (cycle.more s2)" "nEvent s2 = CONTROL_RESUMABLE_STOP_EVENT \<Longrightarrow> ethCommBreakFlag s2 = 1"
proof -
  note d = run_no_event_def ServoLeftInvaild_def ServoRightInvalid_def
  let ?over = "if nEvent s2 = NO_EVENT \<and> Motionstyle s \<noteq> MOTIONSTATE_ONSTOPING \<and> Motionstyle s2 = MOTIONSTATE_ONSTOPING
         then [(EVENT_ACTION_OVER, [ucast (over_of (Motionstyle s))])] else [] :: (u32 \<times> bytes) list"
  let ?goal = "(\<exists>es. obs (cycle.more s2) = obs (cycle.more s) @ es @ ?over \<and> (\<forall>e\<in>set es. fst e = EVENT_ERROR)
      \<and> (nEvent s2 = NO_EVENT \<longrightarrow> es = []))
      \<and> room n (cycle.more s2) \<and> (nEvent s2 = CONTROL_RESUMABLE_STOP_EVENT \<longrightarrow> ethCommBreakFlag s2 = 1)"
  consider "ethCommBreakFlag s = 1"
    | e where "s2 = error_event evt e (s\<lparr>nEvent := e\<rparr>)" "e = OUT_OF_TRACK_EVENT \<or> e = GS_COMM_BREAK_EVENT"
    | "moving_straight s" "s2 = go_straight evt lm dl dr s"
    | "Motionstyle s = MOTIONSTATE_TRUNLEFT" "s2 = turn_left evt lm dl dr s"
    | "Motionstyle s = MOTIONSTATE_TRUNRIGHT" "s2 = turn_right evt lm dl dr s"
    | "s2 = s"
  proof (cases "ethCommBreakFlag s = 1 \<or> OutOfTrack s = 1 \<or> GSMissing s = 1")
    case True
    then show thesis using that(1) that(2) by (cases "ethCommBreakFlag s = 1"; cases "OutOfTrack s = 1") (simp_all add: s2 d)
  next
    case False
    then show thesis using that(3-6)
      by (cases "moving_straight s"; cases "Motionstyle s") (simp_all add: s2 d moving_straight_def)
  qed
  then have ?goal
  proof cases
    case 1
    then have s2': "s2 = s\<lparr>nEvent := CONTROL_RESUMABLE_STOP_EVENT\<rparr>" by (simp add: s2 d)
    show ?thesis using 1 assms(2) room_less by (simp add: s2')
  next
    case (2 e)
    have "room (Suc n) (cycle.more (s\<lparr>nEvent := e\<rparr>))" using assms(2) by simp
    from error_event_obs [OF this, of e] 2 show ?thesis by (intro conjI exI [of _ "[(EVENT_ERROR, [ucast e])]"]) auto
  next
    case 3
    have "Motionstyle s \<noteq> MOTIONSTATE_ONSTOPING" using 3(1) by (auto simp: moving_straight_def)
    then show ?thesis using go_straight_reports [OF 3(1) assms(2), of lm dl dr] assms(1) 3(2) by simp
  next
    case 4
    then show ?thesis using turn_left_reports [OF 4(1) assms(2), of lm dl dr] assms(1) by simp
  next
    case 5
    then show ?thesis using turn_right_reports [OF 5(1) assms(2), of lm dl dr] assms(1) by simp
  next
    case 6
    then show ?thesis using assms(1,2) room_less by simp
  qed
  then show "\<exists>es. obs (cycle.more s2) = obs (cycle.more s) @ es @ ?over \<and> (\<forall>e\<in>set es. fst e = EVENT_ERROR)
      \<and> (nEvent s2 = NO_EVENT \<longrightarrow> es = [])"
    "room n (cycle.more s2)" "nEvent s2 = CONTROL_RESUMABLE_STOP_EVENT \<Longrightarrow> ethCommBreakFlag s2 = 1" by blast+
qed

lemma running_reports:
  assumes "AGV_Running evt lm s = s'" "room (Suc (Suc (Suc n))) (cycle.more s)"
  shows "\<exists>es. obs (cycle.more s') = obs (cycle.more s) @ es
    @ (if nEvent s = NO_EVENT \<and> nEvent s' = NO_EVENT \<and> Motionstyle s \<noteq> MOTIONSTATE_ONSTOPING \<and> Motionstyle s' = MOTIONSTATE_ONSTOPING
       then [(EVENT_ACTION_OVER, [ucast (over_of (Motionstyle s))])] else [])
    \<and> (\<forall>e\<in>set es. fst e = EVENT_ERROR)
    \<and> (nEvent s' = NO_EVENT \<and> encoder_errcnt_l s \<le> 4 \<and> encoder_errcnt_r s \<le> 4 \<longrightarrow> es = [])"
    "room n (cycle.more s')"
proof -
  obtain dl dr s1 where r: "read_encoders evt s = (dl, dr, s1)" by (metis prod_cases3)
  note k0 = read_encoders_reports [OF r assms(2)]
  then obtain es1 where es1: "obs (cycle.more s1) = obs (cycle.more s) @ es1"
    "set es1 \<subseteq> {(EVENT_ERROR, [ucast ENCODER_L_ERROR]), (EVENT_ERROR, [ucast ENCODER_R_ERROR])}"
    "encoder_errcnt_l s \<le> 4 \<and> encoder_errcnt_r s \<le> 4 \<longrightarrow> es1 = []" by blast
  have errs: "\<forall>e\<in>set es1. fst e = EVENT_ERROR" using es1(2) by auto
  have keep: "nEvent s1 = nEvent s" "Motionstyle s1 = Motionstyle s" "room (Suc n) (cycle.more s1)" using k0 by blast+
  note k = keep es1(1) errs es1(3)
  let ?over = "if nEvent s = NO_EVENT \<and> nEvent s' = NO_EVENT \<and> Motionstyle s \<noteq> MOTIONSTATE_ONSTOPING \<and> Motionstyle s' = MOTIONSTATE_ONSTOPING
       then [(EVENT_ACTION_OVER, [ucast (over_of (Motionstyle s))])] else [] :: (u32 \<times> bytes) list"
  have "(\<exists>es. obs (cycle.more s') = obs (cycle.more s) @ es @ ?over \<and> (\<forall>e\<in>set es. fst e = EVENT_ERROR)
      \<and> (nEvent s' = NO_EVENT \<and> encoder_errcnt_l s \<le> 4 \<and> encoder_errcnt_r s \<le> 4 \<longrightarrow> es = [])) \<and> room n (cycle.more s')"
  proof (cases "nEvent s = NO_EVENT")
    case False
    then have "s' = run_event lm dl dr s1" using assms(1) r k(1) by (simp add: AGV_Running_def)
    then show ?thesis using k False room_less by auto
  next
    case True
    define s2 where "s2 = run_no_event evt lm dl dr s1"
    have s': "s' = (if nEvent s2 \<noteq> NO_EVENT then run_event lm dl dr s2 else s2)"
      using assms(1) r k(1) True by (auto simp: AGV_Running_def s2_def Let_def)
    have n: "nEvent s1 = NO_EVENT" using k(1) True by simp
    from run_no_event_reports [OF n k(3) s2_def]
    obtain es2 where l: "obs (cycle.more s2) = obs (cycle.more s1) @ es2
        @ (if nEvent s2 = NO_EVENT \<and> Motionstyle s1 \<noteq> MOTIONSTATE_ONSTOPING \<and> Motionstyle s2 = MOTIONSTATE_ONSTOPING
           then [(EVENT_ACTION_OVER, [ucast (over_of (Motionstyle s1))])] else [])"
      "\<forall>e\<in>set es2. fst e = EVENT_ERROR" "nEvent s2 = NO_EVENT \<longrightarrow> es2 = []" "room n (cycle.more s2)"
      "nEvent s2 = CONTROL_RESUMABLE_STOP_EVENT \<longrightarrow> ethCommBreakFlag s2 = 1" by blast
    show ?thesis
    proof (cases "nEvent s2 = NO_EVENT")
      case e: True
      then have "s' = s2" using s' by simp
      then show ?thesis using l k True e by (intro conjI exI [of _ "es1 @ es2"]) auto
    next
      case e: False
      then have s': "s' = run_event lm dl dr s2" using s' by simp
      have "nEvent s' \<noteq> NO_EVENT" using run_event_nEvent [of lm dl dr s2] l(5) e s' by auto
      then show ?thesis using l k e s' by (intro conjI exI [of _ "es1 @ es2"]) auto
    qed
  qed
  then show "\<exists>es. obs (cycle.more s') = obs (cycle.more s) @ es @ ?over \<and> (\<forall>e\<in>set es. fst e = EVENT_ERROR)
      \<and> (nEvent s' = NO_EVENT \<and> encoder_errcnt_l s \<le> 4 \<and> encoder_errcnt_r s \<le> 4 \<longrightarrow> es = [])" "room n (cycle.more s')" by blast+
qed

end

end
