(* ===== verification/Agv_Run_Facts.thy ===== *)
theory Agv_Run_Facts
  imports Cycle_Reports
begin

text \<open>
  Properties of the control cycle: when a move ends and what is reported, how an error stops
  the vehicle, and the limits of the wheel speeds.
\<close>

section \<open>The reports of a cycle\<close>

text \<open>A callback that keeps the reports, in order.\<close>

type_synonym report_cycle = "(u32 \<times> bytes) list cycle_scheme"

definition evt_log :: "report_cycle event_cb" where
  "evt_log e ps s = cycle.more_update (\<lambda>l. l @ [(e, ps)]) s"

lemma evt_log_keeps [simp]:
  "nAgvWorkMode (evt_log e ps s) = nAgvWorkMode s" "nEvent (evt_log e ps s) = nEvent s" "OutOfTrack (evt_log e ps s) = OutOfTrack s"
  "GSMissing (evt_log e ps s) = GSMissing s" "Motionstyle (evt_log e ps s) = Motionstyle s" "fCurVel (evt_log e ps s) = fCurVel s"
  "ethCommBreakFlag (evt_log e ps s) = ethCommBreakFlag s" "fCurVelL (evt_log e ps s) = fCurVelL s" "fCurVelR (evt_log e ps s) = fCurVelR s"
  "cycle.more (evt_log e ps s) = cycle.more s @ [(e, ps)]"
  by (simp_all add: evt_log_def)

interpretation log: event_reports evt_log "\<lambda>l. l" "\<lambda>_ _. True"
  by unfold_locales auto

lemma error_event_log [simp]:
  "error_event evt_log e s = evt_log EVENT_ERROR [ucast e] s"
  by (simp add: error_event_def)

lemma errors_no_overs: "\<forall>e\<in>set es. fst e = EVENT_ERROR \<Longrightarrow> overs es = []"
  by (auto simp: overs_def)

lemma read_encoders_keeps:
  assumes "read_encoders evt_log s = (dl, dr, s')"
  shows "nAgvWorkMode s' = nAgvWorkMode s \<and> nEvent s' = nEvent s \<and> OutOfTrack s' = OutOfTrack s \<and> GSMissing s' = GSMissing s
    \<and> Motionstyle s' = Motionstyle s \<and> fCurVel s' = fCurVel s \<and> ethCommBreakFlag s' = ethCommBreakFlag s
    \<and> fCurVelL s' = fCurVelL s \<and> fCurVelR s' = fCurVelR s
    \<and> overs (cycle.more s') = overs (cycle.more s)
    \<and> count_list (cycle.more s') (EVENT_ERROR, [ucast OUT_OF_TRACK_EVENT]) = count_list (cycle.more s) (EVENT_ERROR, [ucast OUT_OF_TRACK_EVENT])"
proof -
  note k = log.read_encoders_reports [OF assms TrueI]
  then obtain es where es: "cycle.more s' = cycle.more s @ es"
    "set es \<subseteq> {(EVENT_ERROR, [ucast ENCODER_L_ERROR]), (EVENT_ERROR, [ucast ENCODER_R_ERROR])}" by blast
  have "overs es = []" using es(2) by (intro errors_no_overs) auto
  moreover have "count_list es (EVENT_ERROR, [ucast OUT_OF_TRACK_EVENT]) = 0"
    unfolding count_list_0_iff using es(2) by auto
  ultimately show ?thesis using k es(1) by simp
qed

section \<open>Braking after an error\<close>

lemma fVelDec_near: "19 \<le> fVelDec" "fVelDec \<le> 21"
proof -
  have "\<bar>fdiv 20 1000 - 1 / 50\<bar> \<le> 1 / 4096" using fl32_near [of "1 / 50"] by (simp add: fdiv_def)
  then have "\<bar>fdiv 20 1000 * fAccDn - 20\<bar> \<le> 1 / 4" by linarith
  moreover from this have "\<bar>fdiv 20 1000 * fAccDn\<bar> < 8192" by linarith
  ultimately show "19 \<le> fVelDec" "fVelDec \<le> 21"
    using fl32_near [of "fdiv 20 1000 * fAccDn"] unfolding fVelDec_def fmul_def by linarith+
qed

text \<open>Between two cycles the environment may change whatever it likes but what decides how the cycle goes on.\<close>

definition undisturbed :: "(report_cycle \<Rightarrow> report_cycle) \<Rightarrow> bool" where
  "undisturbed g \<longleftrightarrow> (\<forall>s. nAgvWorkMode (g s) = nAgvWorkMode s \<and> nEvent (g s) = nEvent s \<and> OutOfTrack (g s) = OutOfTrack s
     \<and> Motionstyle (g s) = Motionstyle s \<and> fCurVel (g s) = fCurVel s \<and> ethCommBreakFlag (g s) = ethCommBreakFlag s
     \<and> cycle.more (g s) = cycle.more s)"

definition run_cycles :: "libm \<Rightarrow> (report_cycle \<Rightarrow> report_cycle) list \<Rightarrow> report_cycle \<Rightarrow> report_cycle" where
  "run_cycles lm gs s = fold (\<lambda>g s. AGV_Run evt_log lm (g s)) gs s"

lemma run_cycles_simps [simp]:
  "run_cycles lm [] s = s" "run_cycles lm (g # gs) s = run_cycles lm gs (AGV_Run evt_log lm (g s))"
  by (simp_all add: run_cycles_def)

abbreviation (input) track_errors :: "report_cycle \<Rightarrow> nat" where
  "track_errors s \<equiv> count_list (cycle.more s) (EVENT_ERROR, [ucast OUT_OF_TRACK_EVENT])"

definition off_track :: "u16 \<Rightarrow> report_cycle \<Rightarrow> bool" where
  "off_track mode s \<longleftrightarrow> nAgvWorkMode s = mode \<and> nEvent s = OUT_OF_TRACK_EVENT \<and> OutOfTrack s = 1"

lemma off_track_undisturbed:
  "undisturbed g \<Longrightarrow> off_track m (g s) = off_track m s \<and> moving_straight (g s) = moving_straight s
     \<and> Motionstyle (g s) = Motionstyle s \<and> fCurVel (g s) = fCurVel s \<and> cycle.more (g s) = cycle.more s"
  by (simp add: undisturbed_def off_track_def moving_straight_def)

lemma suspended_step:
  assumes "off_track AGV_MODE_SUSPENDED s"
  shows "off_track AGV_MODE_SUSPENDED (AGV_Run evt_log lm s) \<and> motors_powerup (mc_motors (AGV_Run evt_log lm s)) = 1
    \<and> cycle.more (AGV_Run evt_log lm s) = cycle.more s"
  using assms by (simp add: off_track_def AGV_Run_def AGV_SuspendRun_def Let_def)

lemma suspended_run:
  "off_track AGV_MODE_SUSPENDED s \<Longrightarrow> \<forall>g \<in> set gs. undisturbed g \<Longrightarrow>
     off_track AGV_MODE_SUSPENDED (run_cycles lm gs s) \<and> cycle.more (run_cycles lm gs s) = cycle.more s
     \<and> (gs \<noteq> [] \<longrightarrow> motors_powerup (mc_motors (run_cycles lm gs s)) = 1)"
proof (induction gs arbitrary: s)
  case (Cons g gs)
  then have "off_track AGV_MODE_SUSPENDED (g s)" "cycle.more (g s) = cycle.more s" using off_track_undisturbed by auto
  note st = suspended_step [OF this(1), of lm] this(2)
  show ?case using Cons.IH [of "AGV_Run evt_log lm (g s)"] Cons.prems(2) st by (cases gs) auto
qed simp

lemma event_cycle:
  assumes "off_track AGV_MODE_RUNNING s" "AGV_Run evt_log lm s = s'"
  obtains dl dr s1 where "s' = run_event lm dl dr s1" "off_track AGV_MODE_RUNNING s1" "Motionstyle s1 = Motionstyle s" "fCurVel s1 = fCurVel s"
    "overs (cycle.more s1) = overs (cycle.more s)" "track_errors s1 = track_errors s"
proof -
  obtain dl dr s1 where r: "read_encoders evt_log s = (dl, dr, s1)" by (metis prod_cases3)
  note k = read_encoders_keeps [OF r]
  have "s' = run_event lm dl dr s1" using assms r k by (auto simp: AGV_Run_def AGV_Running_def off_track_def)
  moreover have "off_track AGV_MODE_RUNNING s1" using assms(1) k by (simp add: off_track_def)
  ultimately show thesis using that k by simp
qed

lemma event_straight_keeps:
  "nEvent s = OUT_OF_TRACK_EVENT \<Longrightarrow> nEvent (event_straight lm dl dr s) = OUT_OF_TRACK_EVENT
     \<and> nAgvWorkMode (event_straight lm dl dr s) = nAgvWorkMode s \<and> OutOfTrack (event_straight lm dl dr s) = OutOfTrack s
     \<and> fCurVel (event_straight lm dl dr s) = snd (FApproach (fCurVel s) 0 fVelDec)
     \<and> Motionstyle (event_straight lm dl dr s)
         = (if snd (FApproach (fCurVel s) 0 fVelDec) < fl32 0.01 then MOTIONSTATE_ONSTOPING else Motionstyle s)"
  by (simp add: event_straight_def event_tag_def event_brake_def Let_def case_prod_unfold)

lemma halted_step:
  assumes "off_track AGV_MODE_RUNNING s" "Motionstyle s = MOTIONSTATE_ONSTOPING" "AGV_Run evt_log lm s = s'"
  shows "off_track AGV_MODE_SUSPENDED s'" "overs (cycle.more s') = overs (cycle.more s)" "track_errors s' = track_errors s"
proof -
  obtain dl dr s1 where r: "s' = run_event lm dl dr s1" "off_track AGV_MODE_RUNNING s1" "Motionstyle s1 = Motionstyle s"
    "fCurVel s1 = fCurVel s" "overs (cycle.more s1) = overs (cycle.more s)" "track_errors s1 = track_errors s"
    by (rule event_cycle [OF assms(1,3)]) (rule that; assumption)
  then have "s' = s1\<lparr>nAgvWorkMode := AGV_MODE_SUSPENDED\<rparr>" using assms(2)
    by (simp add: run_event_def off_track_def moving_straight_def is_turning_def)
  then show "off_track AGV_MODE_SUSPENDED s'" "overs (cycle.more s') = overs (cycle.more s)" "track_errors s' = track_errors s"
    using r by (simp_all add: off_track_def)
qed

lemma braking_step:
  assumes "off_track AGV_MODE_RUNNING s" "moving_straight s" "AGV_Run evt_log lm s = s'"
  shows "off_track AGV_MODE_RUNNING s'" "overs (cycle.more s') = overs (cycle.more s)" "track_errors s' = track_errors s"
    "fCurVel s' = snd (FApproach (fCurVel s) 0 fVelDec)"
    "Motionstyle s' = (if fCurVel s' < fl32 0.01 then MOTIONSTATE_ONSTOPING else Motionstyle s)"
proof -
  obtain dl dr s1 where r: "s' = run_event lm dl dr s1" "off_track AGV_MODE_RUNNING s1" "Motionstyle s1 = Motionstyle s"
    "fCurVel s1 = fCurVel s" "overs (cycle.more s1) = overs (cycle.more s)" "track_errors s1 = track_errors s"
    by (rule event_cycle [OF assms(1,3)]) (rule that; assumption)
  then have "s' = event_straight lm dl dr s1" using assms(2)
    by (auto simp: run_event_def off_track_def moving_straight_def is_turning_def Let_def)
  then show "off_track AGV_MODE_RUNNING s'" "overs (cycle.more s') = overs (cycle.more s)" "track_errors s' = track_errors s"
    "fCurVel s' = snd (FApproach (fCurVel s) 0 fVelDec)"
    "Motionstyle s' = (if fCurVel s' < fl32 0.01 then MOTIONSTATE_ONSTOPING else Motionstyle s)"
    using r event_straight_keeps [of s1 lm dl dr] by (simp_all add: off_track_def)
qed

lemma halted_run:
  assumes "off_track AGV_MODE_RUNNING s" "Motionstyle s = MOTIONSTATE_ONSTOPING" "\<forall>g \<in> set gs. undisturbed g" "2 \<le> length gs"
  shows "off_track AGV_MODE_SUSPENDED (run_cycles lm gs s) \<and> motors_powerup (mc_motors (run_cycles lm gs s)) = 1
    \<and> overs (cycle.more (run_cycles lm gs s)) = overs (cycle.more s) \<and> track_errors (run_cycles lm gs s) = track_errors s"
proof -
  obtain g gs' where gs: "gs = g # gs'" "gs' \<noteq> []" using assms(4) by (cases gs; cases "tl gs") auto
  have g: "undisturbed g" using assms(3) gs by simp
  have s: "off_track AGV_MODE_RUNNING (g s)" "Motionstyle (g s) = MOTIONSTATE_ONSTOPING" "cycle.more (g s) = cycle.more s"
    using off_track_undisturbed [OF g] assms(1,2) by auto
  note h = halted_step [OF s(1,2) refl, of lm]
  show ?thesis using suspended_run [OF h(1), of gs' lm] assms(3) gs h s(3) by simp
qed

lemma braking_run:
  assumes "off_track AGV_MODE_RUNNING s" "moving_straight s" "\<bar>fCurVel s\<bar> \<le> 8191" "\<bar>fCurVel s\<bar> \<le> of_nat k * (37 / 2)"
    "\<forall>g \<in> set gs. undisturbed g" "k + 3 \<le> length gs"
  shows "off_track AGV_MODE_SUSPENDED (run_cycles lm gs s) \<and> motors_powerup (mc_motors (run_cycles lm gs s)) = 1
    \<and> overs (cycle.more (run_cycles lm gs s)) = overs (cycle.more s) \<and> track_errors (run_cycles lm gs s) = track_errors s"
  using assms
proof (induction k arbitrary: s gs)
  case 0
  then have v: "fCurVel s = 0" by simp
  obtain g gs' where gs: "gs = g # gs'" "2 \<le> length gs'" using 0(6) by (cases gs) auto
  have g: "undisturbed g" using 0(5) gs by simp
  note u = off_track_undisturbed [OF g, of AGV_MODE_RUNNING s]
  have "FApproach 0 0 fVelDec = (1, 0)" using FApproach_done fVelDec_near by simp
  moreover have "0 < fl32 (1 / 100)" using fl32_near [of "1 / 100"] by linarith
  ultimately show ?case
    using braking_step [of "g s", OF _ _ refl, of lm] u 0 v gs halted_run [of "AGV_Run evt_log lm (g s)" gs' lm] by simp
next
  case (Suc k)
  obtain g gs' where gs: "gs = g # gs'" "k + 3 \<le> length gs'" using Suc(7) by (cases gs) auto
  have g: "undisturbed g" using Suc(6) gs by simp
  note u = off_track_undisturbed [OF g, of AGV_MODE_RUNNING s]
  define s' where "s' = AGV_Run evt_log lm (g s)"
  have b: "off_track AGV_MODE_RUNNING s'" "overs (cycle.more s') = overs (cycle.more s)" "track_errors s' = track_errors s"
    "fCurVel s' = snd (FApproach (fCurVel s) 0 fVelDec)"
    "Motionstyle s' = (if fCurVel s' < fl32 0.01 then MOTIONSTATE_ONSTOPING else Motionstyle s)"
    using braking_step [of "g s", OF _ _ refl, of lm] u Suc.prems(1,2) unfolding s'_def by simp_all
  show ?case
  proof (cases "fCurVel s' < fl32 0.01")
    case True
    then show ?thesis using halted_run [of s' gs' lm] b gs Suc.prems(5) s'_def by simp
  next
    case False
    have "fCurVel s' = 0 \<or> \<bar>0 - fCurVel s'\<bar> \<le> \<bar>0 - fCurVel s\<bar> - (fVelDec - 1 / 2) \<and> \<bar>fCurVel s'\<bar> \<le> 8191"
      using FApproach_step [of "fCurVel s" 0 fVelDec] Suc.prems(3) fVelDec_near b(4) by simp
    then have "\<bar>fCurVel s'\<bar> \<le> 8191" "\<bar>fCurVel s'\<bar> \<le> of_nat k * (37 / 2)"
      using Suc.prems(4) fVelDec_near(1) by (auto simp: algebra_simps)
    then show ?thesis using Suc.IH [of s' gs'] b gs False Suc.prems(2,5) s'_def by (simp add: moving_straight_def)
  qed
qed

lemma first_error_cycle:
  assumes "nAgvWorkMode s = AGV_MODE_RUNNING" "nEvent s = NO_EVENT" "OutOfTrack s = 1" "ethCommBreakFlag s \<noteq> 1"
    "moving_straight s" "AGV_Run evt_log lm s = s'"
  shows "off_track AGV_MODE_RUNNING s'" "overs (cycle.more s') = overs (cycle.more s)" "track_errors s' = Suc (track_errors s)"
    "fCurVel s' = snd (FApproach (fCurVel s) 0 fVelDec)"
    "Motionstyle s' = (if fCurVel s' < fl32 0.01 then MOTIONSTATE_ONSTOPING else Motionstyle s)"
proof -
  obtain dl dr s1 where r: "read_encoders evt_log s = (dl, dr, s1)" by (metis prod_cases3)
  note k = read_encoders_keeps [OF r]
  define s2 where "s2 = evt_log EVENT_ERROR [ucast OUT_OF_TRACK_EVENT] (s1\<lparr>nEvent := OUT_OF_TRACK_EVENT\<rparr>)"
  have "s' = run_event lm dl dr s2"
    using assms r k by (auto simp: AGV_Run_def AGV_Running_def run_no_event_def s2_def Let_def)
  then have e: "s' = event_straight lm dl dr s2" using assms(5) k
    by (auto simp: s2_def run_event_def moving_straight_def is_turning_def Let_def)
  have "nEvent s2 = OUT_OF_TRACK_EVENT" by (simp add: s2_def)
  from event_straight_keeps [OF this, of lm dl dr] e k assms
  show "off_track AGV_MODE_RUNNING s'" "overs (cycle.more s') = overs (cycle.more s)" "track_errors s' = Suc (track_errors s)"
    "fCurVel s' = snd (FApproach (fCurVel s) 0 fVelDec)"
    "Motionstyle s' = (if fCurVel s' < fl32 0.01 then MOTIONSTATE_ONSTOPING else Motionstyle s)"
    by (simp_all add: off_track_def s2_def)
qed

section \<open>The speed of a left turn\<close>

lemma PI_bounds: "3 \<le> PI" "PI \<le> 4"
  using fl64_between_int [of 3 "314159265358979323846 / 10 ^ 20" 4] by (simp_all add: PI_def)

lemma wheel_perimeter_bounds: "0 \<le> WHEEL_PERIMETER" "WHEEL_PERIMETER \<le> 400"
proof -
  have a: "\<bar>dmul 2 PI - 2 * PI\<bar> \<le> 1 / 1000000000" unfolding dmul_def using PI_bounds by (intro fl64_near) linarith
  then have "\<bar>dmul 2 PI * 45\<bar> < 8192" using PI_bounds by linarith
  from fl64_near [OF this] a PI_bounds show "0 \<le> WHEEL_PERIMETER" "WHEEL_PERIMETER \<le> 400"
    unfolding WHEEL_PERIMETER_def dmul_def [of "dmul 2 PI"] by linarith+
qed

lemma deltaT_bounds: "1 / 51 \<le> deltaT" "deltaT \<le> 1 / 49"
proof -
  have "\<bar>fl32 (1 / 1000) - 1 / 1000\<bar> \<le> 1 / 2 ^ 25" using fl32_error [of "1 / 1000" 0] by (simp add: pow2_def)
  moreover have "(1 :: rat) / 2 ^ 25 \<le> 1 / 2000000" by simp
  ultimately have b: "\<bar>20 * fl32 (1 / 1000) - 1 / 50\<bar> \<le> 1 / 100000" by linarith
  then have "\<bar>20 * fl32 (1 / 1000)\<bar> < 1" by linarith
  then have "\<bar>20 * fl32 (1 / 1000)\<bar> < 2 ^ 0" by simp
  from fl32_error [OF this] have "\<bar>fmul 20 (fl32 (1 / 1000)) - 20 * fl32 (1 / 1000)\<bar> \<le> 1 / 2 ^ 25" by (simp add: fmul_def pow2_def)
  moreover have "(1 :: rat) / 2 ^ 25 \<le> 1 / 100000" by simp
  moreover have "deltaT = fmul 20 (fl32 (1 / 1000))" by (simp add: deltaT_def)
  ultimately show "1 / 51 \<le> deltaT" "deltaT \<le> 1 / 49" using b by linarith+
qed

text \<open>The measured turning speed: the wheels of a left turn are 20000 pulses apart at most.\<close>

lemma act_vel_bounds:
  assumes "0 \<le> k" "k \<le> 20000"
  defines "va \<equiv> fl32 (ddiv (ddiv (ENCODERCNT_TO_LENGTH (of_int k)) deltaT) AXLE_LENGTH)"
  shows "0 \<le> va" "va \<le> 300" "fl32 va = va"
proof -
  have k: "0 \<le> (of_int k :: rat)" "of_int k \<le> (of_int 20000 :: rat)" using assms by (simp_all only: of_int_0_le_iff of_int_le_iff)
  define x1 where "x1 = dmul (of_int k) WHEEL_PERIMETER"
  have "of_int k * WHEEL_PERIMETER \<le> 20000 * 400" "0 \<le> of_int k * WHEEL_PERIMETER"
    using mult_mono [OF k(2) wheel_perimeter_bounds(2)] k(1) wheel_perimeter_bounds(1) by simp_all
  then have x1: "0 \<le> x1" "x1 \<le> 8000000"
    using fl64_between_int [of 0 "of_int k * WHEEL_PERIMETER" 8000000] by (simp_all add: x1_def dmul_def)
  define x2 where "x2 = ddiv x1 4000"
  have x2: "0 \<le> x2" "x2 \<le> 2000"
    using fl64_between_int [of 0 "x1 / 4000" 2000] x1 by (simp_all add: x2_def ddiv_def)
  define x3 where "x3 = ddiv x2 deltaT"
  have "x2 / deltaT \<le> 2000 / (1 / 51)" "0 \<le> x2 / deltaT"
    using x2 deltaT_bounds frac_le [of 2000 x2 "1 / 51" deltaT] by (simp_all add: divide_nonneg_nonneg)
  then have x3: "0 \<le> x3" "x3 \<le> 102000"
    using fl64_between_int [of 0 "x2 / deltaT" 102000] by (simp_all add: x3_def ddiv_def)
  define x4 where "x4 = ddiv x3 340"
  have x4: "0 \<le> x4" "x4 \<le> 300"
    using fl64_between_int [of 0 "x3 / 340" 300] x3 by (simp_all add: x4_def ddiv_def)
  have "AXLE_LENGTH = 340" using fl64_of_int [of 340] by (simp add: AXLE_LENGTH_def dmul_def)
  then have va: "va = fl32 x4" by (simp add: va_def x4_def x3_def x2_def x1_def ENCODERCNT_TO_LENGTH_def)
  show "0 \<le> va" "va \<le> 300" using fl32_between_int [of 0 x4 300] x4 by (simp_all add: va)
  show "fl32 va = va" unfolding va using x4 by (intro fl32_idem) simp
qed

text \<open>The headings and angles a turn starts from.\<close>

lemma read_encoders_nav:
  assumes "read_encoders evt_log s = (dl, dr, s')"
  shows "AGV_Head_Dir s' = AGV_Head_Dir s \<and> AGV_Dir_Dest s' = AGV_Dir_Dest s \<and> twoD_Angle s' = twoD_Angle s"
  using assms by (auto simp: read_encoders_def evt_log_def Let_def split: prod.splits if_splits)

lemma heading_range: "AGV_Head_Dir s < 4 \<Longrightarrow> AGV_Head_Dir (UpdateAgvHeadDirToNew s) < 4"
  by (simp add: UpdateAgvHeadDirToNew_def Let_def)

lemma minusL_range: "src < 4 \<Longrightarrow> dest < 4 \<Longrightarrow> 0 \<le> minusL src dest \<and> minusL src dest \<le> 3"
proof -
  assume "src < 4" "dest < 4"
  then have "unat src < 4" "unat dest < 4" by (simp_all add: word_less_nat_alt)
  moreover have "(dest \<ge> src) = (unat dest \<ge> unat src)" by (rule word_le_nat_alt)
  moreover define a d where "a = unat src" and "d = unat dest"
  ultimately show ?thesis unfolding minusL_def a_def [symmetric] d_def [symmetric] by auto
qed

lemma UpdateAgvHeadDirToNew_keep_angle:
  fixes s :: "'a cycle_scheme"
  shows "twoD_Angle (UpdateAgvHeadDirToNew s) = twoD_Angle s" "AGV_Dir_Dest (UpdateAgvHeadDirToNew s) = AGV_Dir_Dest s"
  by (simp_all add: UpdateAgvHeadDirToNew_def Let_def)

lemma Get_TwoDDev_keep:
  fixes s :: "'a cycle_scheme"
  shows "AGV_Head_Dir (Get_TwoDDev s) = AGV_Head_Dir s" "AGV_Dir_Dest (Get_TwoDDev s) = AGV_Dir_Dest s"
  by (simp_all add: Get_TwoDDev_def)

lemma turn_wCurrent: "wCurrent (turn_wheels lm s) = wCurrent s" "wCurrent (turn_pose_left lm dl dr s) = wCurrent s"
  by (simp_all add: turn_wheels_def turn_pose_left_def drive_def wheel_speeds_def Let_def case_prod_unfold)

lemma GS_Angle_range:
  assumes "0 \<le> twoD_Angle s" "twoD_Angle s \<le> 360" "AGV_Head_Dir s < 4"
  shows "- 360 \<le> GS_Angle (Get_TwoDDev s)"
proof -
  have f: "- 360 \<le> fsub (of_int n) (twoD_Angle s)" if "0 \<le> n" "n \<le> 360" for n
  proof -
    have "(of_int n :: rat) \<ge> of_int 0" "(of_int n :: rat) \<le> of_int 360" using that by (simp_all only: of_int_le_iff)
    then show ?thesis using fl32_between_int [of "- 360" "of_int n - twoD_Angle s" 360] assms(1,2) by (simp add: fsub_def)
  qed
  have "unat (AGV_Head_Dir s) < 4" using assms(3) by (simp add: word_less_nat_alt)
  then have "unat (AGV_Head_Dir s) \<in> {0, 1, 2, 3}" by auto
  then have "AGV_Head_Dir s \<in> of_nat ` {0, 1, 2, 3}" by (rule image_eqI [rotated]) simp
  then show ?thesis using f [of 360] f [of 180] f [of 270] f [of 90] assms(1,2) by (auto simp: Get_TwoDDev_def)
qed

lemma turn_speed_left_ge:
  fixes s :: "'a cycle_scheme"
  assumes "sqrt_ok (m_sqrt lm)" "dl \<le> dr" "dr - dl \<le> 20000" "angleRemain s \<le> 1000"
  shows "1 \<le> turn_speed_left lm dl dr s"
proof (cases "angleRemain s < angleStopDistance")
  case False
  have "\<bar>fl32 (4 / 5) - 4 / 5\<bar> \<le> 1 / 4096" by (rule fl32_near) simp
  then have a: "0 \<le> angleStopDistance" by (simp add: angleStopDistance_def fl32_nonneg)
  have p: "fsub (angleRemain s) angleStopDistance \<le> 1000"
    using fl32_between_int [of 0 "angleRemain s - angleStopDistance" 1000] a assms(4) False by (simp add: fsub_def)
  have k: "0 \<le> dr - dl" using assms(2) by simp
  show ?thesis using turn_plan_ge [OF assms(1) act_vel_bounds [OF k assms(3)] p] False by (simp add: turn_speed_left_def Let_def)
qed (simp add: turn_speed_left_def)

lemma left_angle_bound:
  fixes s :: "'a cycle_scheme"
  assumes "AGV_Head_Dir s < 4" "AGV_Dir_Dest s < 4" "- 360 \<le> GS_Angle s"
  shows "angleRemain (whole_cycle (s\<lparr>angleProcess := a, angleRemain := fsub (fmul (of_int (minusL (AGV_Head_Dir s) (AGV_Dir_Dest s))) 90) (GS_Angle s)\<rparr>)) \<le> 1000"
proof -
  let ?m = "of_int (minusL (AGV_Head_Dir s) (AGV_Dir_Dest s)) :: rat"
  have "?m \<le> of_int 3" using minusL_range [OF assms(1,2)] by (simp only: of_int_le_iff)
  moreover have "of_int 0 \<le> ?m" using minusL_range [OF assms(1,2)] by (simp only: of_int_le_iff)
  ultimately have "fmul ?m 90 \<le> 270" using fl32_between_int [of 0 "?m * 90" 270] by (simp add: fmul_def)
  then have "fmul ?m 90 - GS_Angle s \<le> 630" using assms(3) by simp
  then have b: "fsub (fmul ?m 90) (GS_Angle s) \<le> 630" unfolding fsub_def by (rule fl32_le_int) simp
  then have "fsub (fmul ?m 90) (GS_Angle s) + 360 \<le> 990" by simp
  then have "fadd (fsub (fmul ?m 90) (GS_Angle s)) 360 \<le> 990" unfolding fadd_def by (rule fl32_le_int) simp
  with b show ?thesis by (auto simp: whole_cycle_def)
qed

section \<open>Properties\<close>

text \<open>
  C16: a control cycle reports the end of an action exactly when it ends it: the event names
  the action of the move that stood in the motion state before, it is raised once, in the
  cycle in which the move stops without an error; a move that an error ends, one that goes
  on, and a cycle at rest raise none.
\<close>

theorem move_over_reported:
  fixes s :: report_cycle
  shows "overs (cycle.more (AGV_Running evt_log lm s)) = overs (cycle.more s)
    @ (if nEvent s = NO_EVENT \<and> nEvent (AGV_Running evt_log lm s) = NO_EVENT
          \<and> Motionstyle s \<noteq> MOTIONSTATE_ONSTOPING \<and> Motionstyle (AGV_Running evt_log lm s) = MOTIONSTATE_ONSTOPING
       then [[ucast (over_of (Motionstyle s))]] else [])"
proof -
  obtain es where "cycle.more (AGV_Running evt_log lm s) = cycle.more s @ es
      @ (if nEvent s = NO_EVENT \<and> nEvent (AGV_Running evt_log lm s) = NO_EVENT
          \<and> Motionstyle s \<noteq> MOTIONSTATE_ONSTOPING \<and> Motionstyle (AGV_Running evt_log lm s) = MOTIONSTATE_ONSTOPING
         then [(EVENT_ACTION_OVER, [ucast (over_of (Motionstyle s))])] else [])" "\<forall>e\<in>set es. fst e = EVENT_ERROR"
    using log.running_reports(1) [OF refl TrueI, of lm s] by blast
  then show ?thesis using errors_no_overs [of es] by simp
qed


text \<open>
  C15: a vehicle that has left its track is brought to a halt and stays there: from a straight
  move at up to 2500 mm/s, whatever the scanner, the wheels and the encoders do meanwhile,
  after 140 cycles (2.8 s) and ever after the motors are switched off, the vehicle is
  suspended, the loss of track has been reported exactly once, and no end of the action.
\<close>

theorem off_track_stops:
  assumes "nAgvWorkMode s = AGV_MODE_RUNNING" "nEvent s = NO_EVENT" "OutOfTrack s = 1" "ethCommBreakFlag s \<noteq> 1"
    "moving_straight s" "\<bar>fCurVel s\<bar> \<le> 2500"
    and "\<forall>g \<in> set gs. undisturbed g" "140 \<le> length gs"
  shows "nAgvWorkMode (run_cycles lm gs s) = AGV_MODE_SUSPENDED \<and> motors_powerup (mc_motors (run_cycles lm gs s)) = 1
    \<and> track_errors (run_cycles lm gs s) = Suc (track_errors s)
    \<and> overs (cycle.more (run_cycles lm gs s)) = overs (cycle.more s)"
proof -
  obtain g gs' where gs: "gs = g # gs'" "139 \<le> length gs'" using assms(8) by (cases gs) auto
  have g: "undisturbed g" and gs': "\<forall>g \<in> set gs'. undisturbed g" using assms(7) gs by simp_all
  have u: "nAgvWorkMode (g s) = AGV_MODE_RUNNING" "nEvent (g s) = NO_EVENT" "OutOfTrack (g s) = 1" "ethCommBreakFlag (g s) \<noteq> 1"
    "moving_straight (g s)" "fCurVel (g s) = fCurVel s" "cycle.more (g s) = cycle.more s" "Motionstyle (g s) = Motionstyle s"
    using g assms(1-5) by (simp_all add: undisturbed_def moving_straight_def)
  define s' where "s' = AGV_Run evt_log lm (g s)"
  note f = first_error_cycle [OF u(1-5) s'_def [symmetric]]
  have "off_track AGV_MODE_SUSPENDED (run_cycles lm gs' s') \<and> motors_powerup (mc_motors (run_cycles lm gs' s')) = 1
    \<and> overs (cycle.more (run_cycles lm gs' s')) = overs (cycle.more s') \<and> track_errors (run_cycles lm gs' s') = track_errors s'"
  proof (cases "fCurVel s' < fl32 0.01")
    case True
    then show ?thesis using halted_run [OF f(1) _ gs'] f(5) gs(2) by simp
  next
    case False
    have "fCurVel s' = 0 \<or> \<bar>0 - fCurVel s'\<bar> \<le> \<bar>0 - fCurVel s\<bar> - (fVelDec - 1 / 2) \<and> \<bar>fCurVel s'\<bar> \<le> 8191"
      using FApproach_step [of "fCurVel s" 0 fVelDec] assms(6) fVelDec_near f(4) u(6) by simp
    then have "\<bar>fCurVel s'\<bar> \<le> 8191" "\<bar>fCurVel s'\<bar> \<le> of_nat 136 * (37 / 2)" using assms(6) fVelDec_near(1) by auto
    then show ?thesis using braking_run [OF f(1) _ _ _ gs', of 136 lm] f(5) gs(2) False u(5) by (simp add: moving_straight_def)
  qed
  moreover have "run_cycles lm gs s = run_cycles lm gs' s'" by (simp add: gs(1) s'_def)
  ultimately show ?thesis using f(2,3) u(7) by (simp add: off_track_def)
qed

definition demo_cycle :: report_cycle where
  "demo_cycle = motion.extend demo_motion
     \<lparr>nAgvWorkMode = AGV_MODE_RUNNING, nEvent = NO_EVENT, OutOfTrack = 0, GSMissing = 0, twoD_Progress = 0, RealTwoDProgress = 0,
      rotateR = 0, s_max_vel = 0, encoder_errcnt_l = 0, encoder_errcnt_r = 0,
      cy_trace = \<lparr>Px = 0, Py = 0, Ptheta = 0, glide_buff = [0], tr_fuzzy = demo_fuzzy 0\<rparr>,
      cy_est = \<lparr>PxOld = 0, PyOld = 0, PthetaOld = 0\<rparr>, \<dots> = []\<rparr>"

definition demo_lost :: report_cycle where
  "demo_lost = demo_cycle\<lparr>OutOfTrack := 1, Motionstyle := MOTIONSTATE_GOSTRAIGHT, fCurVel := 2400, fCurVelL := 2400, fCurVelR := 2400\<rparr>"

definition demo_libm :: libm where
  "demo_libm = \<lparr>m_sqrt = \<lambda>x. x, m_sin = \<lambda>x. x, m_cos = \<lambda>x. 1\<rparr>"

lemma demo_lost_fields:
  "nAgvWorkMode demo_lost = AGV_MODE_RUNNING" "nEvent demo_lost = NO_EVENT" "OutOfTrack demo_lost = 1"
  "ethCommBreakFlag demo_lost = 0" "Motionstyle demo_lost = MOTIONSTATE_GOSTRAIGHT" "fCurVel demo_lost = 2400"
  by (simp_all add: demo_lost_def demo_cycle_def demo_motion_def demo_navi_def demo_nav_def motion.defs navi.defs nav.defs)

theorem off_track_stops_witness:
  "motors_powerup (mc_motors (run_cycles demo_libm (replicate 200 (\<lambda>s. s\<lparr>GS_DEV := 5, NewTag := 1\<rparr>)) demo_lost)) = 1"
proof -
  have "undisturbed (\<lambda>s. s\<lparr>GS_DEV := 5, NewTag := 1\<rparr>)" by (simp add: undisturbed_def)
  then show ?thesis
    using off_track_stops [of demo_lost "replicate 200 (\<lambda>s. s\<lparr>GS_DEV := 5, NewTag := 1\<rparr>)" demo_libm]
    by (simp add: demo_lost_fields moving_straight_def)
qed

text \<open>
  C35: a left turn is never reported over: while no error is on, however close the wanted angle
  is, the speed of the turn is at least the end speed of 1 degree per second, which the cycle
  does not take for the end of the turn (below 0.01); so the vehicle turns on until the
  scanner is lost. The wheels may turn by any measured amount in the sense of the turn.
\<close>

theorem left_turn_never_over:
  fixes s :: report_cycle
  assumes "nAgvWorkMode s = AGV_MODE_RUNNING" "nEvent s = NO_EVENT" "ethCommBreakFlag s \<noteq> 1" "OutOfTrack s \<noteq> 1" "GSMissing s \<noteq> 1"
    and "Motionstyle s = MOTIONSTATE_TRUNLEFT" "AGV_Head_Dir s < 4" "AGV_Dir_Dest s < 4" "0 \<le> twoD_Angle s" "twoD_Angle s \<le> 360"
    and "sqrt_ok (m_sqrt lm)" "read_encoders evt_log s = (dl, dr, s1)" "dl \<le> dr" "dr - dl \<le> 20000"
  shows "Motionstyle (AGV_Run evt_log lm s) = MOTIONSTATE_TRUNLEFT \<and> 1 \<le> wCurrent (AGV_Run evt_log lm s)
    \<and> overs (cycle.more (AGV_Run evt_log lm s)) = overs (cycle.more s)"
proof -
  note k = read_encoders_keeps [OF assms(12)] read_encoders_nav [OF assms(12)]
  define s2 where "s2 = Get_TwoDDev (UpdateAgvHeadDirToNew (watch_scanner s1))"
  define s3 where "s3 = whole_cycle (s2\<lparr>angleProcess := fl32 (dadd (angleProcess s2) (LEGHTH_TO_ANGLE (mean_way dl dr))),
                  angleRemain := fsub (fmul (of_int (minusL (AGV_Head_Dir s2) (AGV_Dir_Dest s2))) 90) (GS_Angle s2)\<rparr>)"
  have w: "AGV_Head_Dir (watch_scanner s1) = AGV_Head_Dir s" "AGV_Dir_Dest (watch_scanner s1) = AGV_Dir_Dest s" "twoD_Angle (watch_scanner s1) = twoD_Angle s"
    using k by (simp_all add: watch_scanner_def Let_def)
  have h: "AGV_Head_Dir s2 < 4" "AGV_Dir_Dest s2 < 4" "- 360 \<le> GS_Angle s2"
    using heading_range [of "watch_scanner s1"] GS_Angle_range [of "UpdateAgvHeadDirToNew (watch_scanner s1)"] w assms(7-10)
    by (simp_all add: s2_def UpdateAgvHeadDirToNew_keep_angle Get_TwoDDev_keep)
  have "angleRemain s3 \<le> 1000" unfolding s3_def by (rule left_angle_bound [OF h])
  then have v: "1 \<le> turn_speed_left lm dl dr s3" using turn_speed_left_ge assms(11,13,14) by blast
  have "fl32 (1 / 100) < 1" using fl32_near [of "1 / 100"] by linarith
  moreover have "nEvent s3 = NO_EVENT" using k assms(2) by (simp add: s3_def s2_def)
  ultimately have "AGV_Run evt_log lm s = turn_wheels lm (turn_pose_left lm dl dr (s3\<lparr>wCurrent := turn_speed_left lm dl dr s3\<rparr>))"
    using assms k v
    by (simp add: AGV_Run_def AGV_Running_def run_no_event_def ServoLeftInvaild_def ServoRightInvalid_def moving_straight_def
        turn_left_def Let_def s2_def [symmetric] s3_def [symmetric])
  moreover have "Motionstyle s3 = MOTIONSTATE_TRUNLEFT" "overs (cycle.more s3) = overs (cycle.more s)"
    using k assms(6) by (simp_all add: s3_def s2_def)
  ultimately show ?thesis using v by (simp add: turn_wCurrent)
qed

text \<open>An estimate of the root from above, in steps of \<open>2 ^ (- 30)\<close>.\<close>

definition sqrt_up :: "rat \<Rightarrow> rat" where
  "sqrt_up x = of_nat (LEAST n. x * 2 ^ 60 \<le> of_nat n * of_nat n) / 2 ^ 30"

lemma sqrt_up_ok: "sqrt_ok sqrt_up"
  unfolding sqrt_ok_def
proof (intro conjI allI impI)
  have ex: "\<exists>n. x * 2 ^ 60 \<le> of_nat n * of_nat n" for x :: rat
  proof -
    obtain m :: nat where "x * 2 ^ 60 \<le> of_nat m" using real_arch_simple by blast
    also have "(of_nat m :: rat) \<le> of_nat (m * m)" by (simp only: of_nat_le_iff) simp
    finally show ?thesis by (intro exI [of _ m]) simp
  qed
  show "y \<le> sqrt_up x" if y: "0 \<le> y \<and> fl32 y = y \<and> y * y \<le> x" for y x
  proof -
    define n where "n = (LEAST n. x * 2 ^ 60 \<le> of_nat n * of_nat n)"
    have n: "x * 2 ^ 60 \<le> of_nat n * of_nat n" unfolding n_def by (rule LeastI_ex [OF ex])
    have "(y * 2 ^ 30) * (y * 2 ^ 30) = y * y * 2 ^ 60" by simp
    also have "\<dots> \<le> x * 2 ^ 60" using y by (intro mult_right_mono) auto
    also note n
    finally have "y * 2 ^ 30 \<le> of_nat n" by (metis power2_eq_square power2_le_imp_le of_nat_0_le_iff)
    then have "y \<le> of_nat n / 2 ^ 30" by (simp add: field_simps)
    then show ?thesis unfolding sqrt_up_def n_def .
  qed
  show "sqrt_up x \<le> 1 + x" if "0 \<le> x" for x
  proof -
    define n where "n = (LEAST n. x * 2 ^ 60 \<le> of_nat n * of_nat n)"
    have u: "sqrt_up x = of_nat n / 2 ^ 30" unfolding sqrt_up_def n_def ..
    show ?thesis
    proof (cases n)
      case 0
      then show ?thesis using that by (simp add: u)
    next
      case (Suc m)
      have "\<not> x * 2 ^ 60 \<le> of_nat m * of_nat m"
        using not_less_Least [of m "\<lambda>n. x * 2 ^ 60 \<le> of_nat n * of_nat n"] Suc by (simp add: n_def)
      define t :: rat where "t = of_nat m / 2 ^ 30"
      have "t * t < x" using \<open>\<not> _\<close> by (simp add: t_def field_simps)
      moreover have "0 \<le> (t - 1) * (t - 1)" by simp
      then have "2 * t \<le> t * t + 1" by (simp add: algebra_simps)
      moreover have "sqrt_up x = t + 1 / 2 ^ 30" using Suc by (simp add: u t_def add_divide_distrib)
      moreover have "(1 :: rat) / 2 ^ 30 \<le> 1 / 2" by simp
      ultimately show ?thesis using that by linarith
    qed
  qed
qed

definition demo_turn :: report_cycle where
  "demo_turn = demo_cycle\<lparr>Motionstyle := MOTIONSTATE_TRUNLEFT, AGV_Dir_Dest := 1, twoD_Angle := 270,
     mc_enc := \<lparr>encoders = \<lambda>d. \<lparr>port = (if d = 0 then 1 else 2), enc_count = 0, lastval = 0\<rparr>, hw = \<lparr>TIM3_CNT = 5, TIM4_CNT = 20\<rparr>\<rparr>\<rparr>"

theorem left_turn_never_over_witness:
  "Motionstyle (AGV_Run evt_log (demo_libm\<lparr>m_sqrt := sqrt_up\<rparr>) demo_turn) = MOTIONSTATE_TRUNLEFT"
proof -
  obtain dl dr s1 where r: "read_encoders evt_log demo_turn = (dl, dr, s1)" by (metis prod_cases3)
  note d = demo_turn_def demo_cycle_def demo_motion_def demo_navi_def demo_nav_def motion.defs navi.defs nav.defs
  have f: "nAgvWorkMode demo_turn = AGV_MODE_RUNNING" "nEvent demo_turn = NO_EVENT" "ethCommBreakFlag demo_turn \<noteq> 1" "OutOfTrack demo_turn \<noteq> 1"
    "GSMissing demo_turn \<noteq> 1" "Motionstyle demo_turn = MOTIONSTATE_TRUNLEFT" "AGV_Head_Dir demo_turn < 4" "AGV_Dir_Dest demo_turn < 4"
    "0 \<le> twoD_Angle demo_turn" "twoD_Angle demo_turn \<le> 360" "fCurVelL demo_turn = 0" "fCurVelR demo_turn = 0"
    "encoder_l demo_turn = 0" "encoder_r demo_turn = 1"
    "mc_enc demo_turn = \<lparr>encoders = \<lambda>d. \<lparr>port = (if d = 0 then 1 else 2), enc_count = 0, lastval = 0\<rparr>, hw = \<lparr>TIM3_CNT = 5, TIM4_CNT = 20\<rparr>\<rparr>"
    by (simp_all add: d)
  have "expect_cnt 0 = 0" by (simp add: expect_cnt_def LENGTH_TO_ENCODERCNT_def dmul_def ddiv_def ftrunc_def)
  then have "dl = 5 \<and> dr = 20"
    using r f by (auto simp: read_encoders_def get_count_and_clear_def bsp_EncoderGetPulseNum_def bsp_EncoderSetZero_def tim_cnt_def tim_set_def
        check_count_def Let_def split: if_splits)
  then show ?thesis using left_turn_never_over [OF f(1-10) _ r, of "demo_libm\<lparr>m_sqrt := sqrt_up\<rparr>"] sqrt_up_ok by simp
qed

end
