(* ===== verification/Cstrings.thy ===== *)
theory Cstrings
  imports Tools Floats
begin

text \<open>
  What the code uses of the C string library, on strings without their final NUL: literals,
  \<open>strchr\<close>, white space at the ends, the conversions \<open>strtol\<close>, \<open>atoi\<close> and \<open>atof\<close>, and
  \<open>strncpy\<close> into an array. \<open>long\<close> has 32 bits and a number out of its range gives the limit.
\<close>

section \<open>Strings and characters\<close>

definition str :: "string \<Rightarrow> bytes" where
  "str s = map of_char s"

text \<open>The string an array holds: the bytes before the first NUL.\<close>

definition cstr :: "bytes \<Rightarrow> bytes" where
  "cstr b = takeWhile (\<lambda>c. c \<noteq> 0) b"

text \<open>The first character, NUL for the empty string.\<close>

definition ch0 :: "bytes \<Rightarrow> u8" where
  "ch0 s = (case s of [] \<Rightarrow> 0 | c # _ \<Rightarrow> c)"

definition strchr :: "bytes \<Rightarrow> u8 \<Rightarrow> nat option" where
  "strchr s c = (if c \<in> set s then Some (length (takeWhile (\<lambda>x. x \<noteq> c) s)) else None)"

definition isspace :: "u8 \<Rightarrow> bool" where
  "isspace c \<longleftrightarrow> c = 32 \<or> (9 \<le> c \<and> c \<le> 13)"

definition isprint :: "u8 \<Rightarrow> bool" where
  "isprint c \<longleftrightarrow> 32 \<le> c \<and> c \<le> 126"

text \<open>\<open>strncpy\<close> pads with NULs and writes no terminator when the source fills the array.\<close>

definition strncpy :: "bytes \<Rightarrow> bytes \<Rightarrow> nat \<Rightarrow> bytes" where
  "strncpy dest src n = take n (src @ replicate n 0) @ drop n dest"

section \<open>Numbers\<close>

definition digit_val :: "u8 \<Rightarrow> nat option" where
  "digit_val c = (if isdigit c then Some (unat c - 48)
     else if 97 \<le> c \<and> c \<le> 102 then Some (unat c - 87)
     else if 65 \<le> c \<and> c \<le> 70 then Some (unat c - 55) else None)"

fun digits_val :: "nat \<Rightarrow> nat \<Rightarrow> bytes \<Rightarrow> nat \<times> bytes" where
  "digits_val base r [] = (r, [])"
| "digits_val base r (c # cs) =
     (case digit_val c of
        Some d \<Rightarrow> if d < base then digits_val base (r * base + d) cs else (r, c # cs)
      | None \<Rightarrow> (r, c # cs))"

definition take_sign :: "bytes \<Rightarrow> bool \<times> bytes" where
  "take_sign s = (if ch0 s = 45 then (True, tl s) else if ch0 s = 43 then (False, tl s) else (False, s))"

definition clamp_long :: "int \<Rightarrow> int" where
  "clamp_long n = max (- 2147483648) (min 2147483647 n)"

text \<open>A prefix \<open>0x\<close> is skipped in base 16 when a digit follows.\<close>

definition strtol :: "bytes \<Rightarrow> nat \<Rightarrow> int" where
  "strtol s base =
     (let (neg, t) = take_sign (dropWhile isspace s);
          t' = (if base = 16 \<and> ch0 t = 48 \<and> toupper (ch0 (tl t)) = 88
                   \<and> digit_val (ch0 (tl (tl t))) \<noteq> None then tl (tl t) else t);
          n = int (fst (digits_val base 0 t'))
      in clamp_long (if neg then - n else n))"

definition atoi :: "bytes \<Rightarrow> int" where
  "atoi s = strtol s 10"

text \<open>
  \<open>atof\<close> of decimal numbers: digits, fraction and exponent, as the exact rational; the caller
  rounds it. Hexadecimal numbers, infinities and NaNs are read as the digits they begin with.
\<close>

definition atof :: "bytes \<Rightarrow> rat" where
  "atof s =
     (let (neg, t) = take_sign (dropWhile isspace s);
          (m, u) = digits_val 10 0 t;
          frac = (if ch0 u = 46 then tl u else []);
          (m', v) = (if ch0 u = 46 then digits_val 10 m frac else (m, u));
          k = length frac - (if ch0 u = 46 then length v else 0);
          (eneg, ex) = take_sign (tl v);
          e = (if toupper (ch0 v) = 69 \<and> isdigit (ch0 ex)
               then (if eneg then - int (fst (digits_val 10 0 ex)) else int (fst (digits_val 10 0 ex))) else 0);
          x = of_nat m' * (if int k \<le> e then 10 ^ nat (e - int k) else 1 / 10 ^ nat (int k - e))
      in (if neg then - x else x))"

text \<open>The decimal digits of a number, as \<open>%d\<close> prints it.\<close>

fun dec_digits :: "nat \<Rightarrow> bytes" where
  "dec_digits n = (if n < 10 then [of_nat (48 + n)] else dec_digits (n div 10) @ [of_nat (48 + n mod 10)])"

declare dec_digits.simps [simp del]

definition print_int :: "int \<Rightarrow> bytes" where
  "print_int n = (if n < 0 then 45 # dec_digits (nat (- n)) else dec_digits (nat n))"

section \<open>Laws\<close>

lemma cstr_id [simp]: "0 \<notin> set s \<Longrightarrow> cstr s = s"
  by (induction s) (auto simp: cstr_def)

lemma cstr_no_nul [simp]: "0 \<notin> set (cstr s)"
  by (auto simp: cstr_def dest: set_takeWhileD)

lemma cstr_append_nul [simp]: "0 \<notin> set s \<Longrightarrow> cstr (s @ 0 # t) = s"
  by (induction s) (auto simp: cstr_def)

lemma ch0_simps [simp]: "ch0 [] = 0" "ch0 (c # s) = c"
  by (simp_all add: ch0_def)

lemma ch0_append: "s \<noteq> [] \<Longrightarrow> ch0 (s @ t) = ch0 s"
  by (cases s) simp_all

lemma strchr_append:
  "strchr (s @ t) c = (case strchr s c of Some i \<Rightarrow> Some i | None \<Rightarrow> map_option (\<lambda>i. length s + i) (strchr t c))"
proof -
  have "takeWhile (\<lambda>x. x \<noteq> c) (s @ t) = s @ takeWhile (\<lambda>x. x \<noteq> c) t" if "c \<notin> set s"
    by (rule takeWhile_append2) (use that in metis)
  moreover have "takeWhile (\<lambda>x. x \<noteq> c) (s @ t) = takeWhile (\<lambda>x. x \<noteq> c) s" if "c \<in> set s"
    by (rule takeWhile_append1) (use that in auto)
  ultimately show ?thesis by (auto simp: strchr_def)
qed

lemma length_strncpy [simp]: "n \<le> length dest \<Longrightarrow> length (strncpy dest src n) = length dest"
  by (simp add: strncpy_def)

text \<open>A string that fits is stored with its terminator; one that fills the array is not terminated.\<close>

lemma strncpy_fits:
  assumes "length src < n" "0 \<notin> set src"
  shows "cstr (strncpy dest src n) = src"
proof -
  obtain k where "n = length src + Suc k" using assms(1) less_imp_Suc_add by auto
  then have "take n (src @ replicate n 0) = src @ 0 # replicate k 0"
    by (simp add: min_def flip: replicate_Suc)
  then show ?thesis using assms(2) by (simp add: strncpy_def)
qed

lemma strncpy_fills:
  assumes "n \<le> length src" "0 \<notin> set src"
  shows "0 \<notin> set (take n (strncpy dest src n))"
  using assms by (auto simp: strncpy_def dest: in_set_takeD)

lemma digit_val_dec [simp]: "n < 10 \<Longrightarrow> digit_val (48 + of_nat n) = Some n"
proof -
  assume "n < 10"
  then have "n \<in> {0, 1, 2, 3, 4, 5, 6, 7, 8, 9}" by auto
  then show ?thesis by (auto simp: digit_val_def isdigit_def)
qed

lemma digits_val_dec: "digits_val 10 r (dec_digits n @ s) = digits_val 10 (r * 10 ^ length (dec_digits n) + n) s"
proof (induction n arbitrary: r s rule: dec_digits.induct)
  case (1 n)
  show ?case
  proof (cases "n < 10")
    case True
    then show ?thesis by (simp add: dec_digits.simps [of n])
  next
    case False
    have "n mod 10 < 10" by simp
    then have "digits_val 10 q ((48 + of_nat (n mod 10)) # s) = digits_val 10 (q * 10 + n mod 10) s" for q
      by (simp del: of_nat_mod)
    moreover have "(r * 10 ^ k + n div 10) * 10 + n mod 10 = r * (10 * 10 ^ k) + n" for k
      by (simp add: algebra_simps)
    ultimately show ?thesis
      using False 1 [of r "(48 + of_nat (n mod 10)) # s"] by (simp add: dec_digits.simps [of n] ac_simps)
  qed
qed

end
