(* ===== verification/Shell.thy ===== *)
theory Shell
  imports Cstrings Circ_Buf
begin

text \<open>
  The line editor of the consoles (\<open>common/lwshell.c\<close>): characters are echoed and collected in
  a buffer of 128 bytes, a line end splits the line into at most eight words and hands them to
  the command interpreter \<open>run\<close>. \<open>out\<close> is the output function of the device; both work on
  the rest of the system, of type \<open>'w\<close>. A read behind the buffer is \<open>Fault\<close>.
\<close>

section \<open>Words of a line\<close>

abbreviation (input) MAX_ARGS :: nat where "MAX_ARGS \<equiv> 8"
abbreviation (input) DATA_SIZE :: nat where "DATA_SIZE \<equiv> 128"

definition IS_SEPARATOR :: "u8 \<Rightarrow> bool" where
  "IS_SEPARATOR c \<longleftrightarrow> c = 32 \<or> c = 9"

definition line_end :: "u8 \<Rightarrow> bool" where
  "line_end c \<longleftrightarrow> c = 10 \<or> c = 13 \<or> c = 0"

text \<open>The inner loops of \<open>split_line\<close>: the first position from \<open>cnt\<close> on where \<open>p\<close> does not hold.\<close>

function scan :: "(u8 \<Rightarrow> bool) \<Rightarrow> bytes \<Rightarrow> nat \<Rightarrow> nat outcome" where
  "scan p d cnt = (if cnt < length d then if p (d ! cnt) then scan p d (cnt + 1) else Ret cnt else Fault)"
  by pat_completeness auto
termination
  by (relation "measure (\<lambda>(_, d, cnt). length d - cnt)") auto

declare scan.simps [simp del]

text \<open>The words still allowed, the buffer, the position and the words found so far.\<close>

primrec split_loop :: "nat \<Rightarrow> bytes \<Rightarrow> nat \<Rightarrow> nat list \<Rightarrow> (bytes \<times> nat list) outcome" where
  "split_loop 0 d cnt args = Ret (d, args)"
| "split_loop (Suc k) d cnt args =
     (if length d \<le> cnt then Fault
      else if line_end (d ! cnt) then Ret (d, args)
      else obind (scan IS_SEPARATOR d cnt) (\<lambda>c1.
        if line_end (d ! c1) then Ret (d, args)
        else obind (scan (\<lambda>c. \<not> IS_SEPARATOR c \<and> \<not> line_end c) d c1) (\<lambda>c2.
          if line_end (d ! c2) then Ret (d, args @ [c1])
          else split_loop k (d[c2 := 0]) (c2 + 1) (args @ [c1]))))"

definition split_line :: "bytes \<Rightarrow> nat \<Rightarrow> (bytes \<times> nat list) outcome" where
  "split_line d max_num = split_loop max_num d 0 []"

text \<open>The strings the pointers of the argument vector point to.\<close>

definition arg_strings :: "bytes \<Rightarrow> nat list \<Rightarrow> bytes list" where
  "arg_strings d args = map (\<lambda>i. cstr (drop i d)) args"

text \<open>The buffer with the words ended, and the rest of the system.\<close>

definition parse_and_exec :: "(bytes list \<Rightarrow> 'w \<Rightarrow> 'w outcome) \<Rightarrow> bytes \<Rightarrow> 'w \<Rightarrow> (bytes \<times> 'w) outcome" where
  "parse_and_exec run d w =
     obind (split_line d MAX_ARGS) (\<lambda>(d', args).
       obind (if length args > 0 then run (arg_strings d' args) w else Ret w) (\<lambda>w'. Ret (d', w')))"

section \<open>The loop of the console\<close>

record 'w console =
  con_data :: bytes
  con_cnt :: nat
  con_damaged :: bool
  con_world :: 'w

definition emit :: "(bytes \<Rightarrow> 'w \<Rightarrow> 'w) \<Rightarrow> bytes \<Rightarrow> 'w console \<Rightarrow> 'w console" where
  "emit out bs c = c\<lparr>con_world := out bs (con_world c)\<rparr>"

definition print_prompt :: "(bytes \<Rightarrow> 'w \<Rightarrow> 'w) \<Rightarrow> 'w console \<Rightarrow> 'w console" where
  "print_prompt out c = emit out [62, 32] c"

definition clear_line :: "'w console \<Rightarrow> 'w console" where
  "clear_line c = c\<lparr>con_data := replicate (con_cnt c) 0 @ drop (con_cnt c) (con_data c), con_cnt := 0\<rparr>"

text \<open>A character that was read.\<close>

definition console_char ::
  "(bytes \<Rightarrow> 'w \<Rightarrow> 'w) \<Rightarrow> (bytes list \<Rightarrow> 'w \<Rightarrow> 'w outcome) \<Rightarrow> u8 \<Rightarrow> 'w console \<Rightarrow> 'w console outcome" where
  "console_char out run ch c =
     (if ch = 8 then
        Ret (if con_cnt c \<ge> 1 then
               let c1 = emit out [8] (emit out [32] (emit out [8] c))
               in c1\<lparr>con_data := (con_data c1)[con_cnt c1 := 0], con_cnt := con_cnt c1 - 1\<rparr>
             else c)
      else if \<not> isprint ch \<and> ch \<noteq> 13 \<and> ch \<noteq> 10 then
        Ret (print_prompt out (emit out [13, 10] (clear_line c)))
      else
        let c1 = emit out [ch] (if ch = 13 then emit out [13, 10] c else c)
        in if length (con_data c1) \<le> con_cnt c1 then Fault
           else
             let c2 = c1\<lparr>con_data := (con_data c1)[con_cnt c1 := ch], con_cnt := con_cnt c1 + 1\<rparr>
             in if ch = 13 \<or> ch = 10 then
                  obind (if \<not> con_damaged c2 \<and> con_cnt c2 > 1 then
                           obind (parse_and_exec run ((con_data c2)[con_cnt c2 - 1 := 0]) (con_world c2)) (\<lambda>(d, w).
                             Ret (c2\<lparr>con_data := d, con_world := w\<rparr>))
                         else Ret (c2\<lparr>con_damaged := False\<rparr>))
                    (\<lambda>c3. Ret (print_prompt out (clear_line c3)))
                else Ret (if con_cnt c2 = DATA_SIZE then c2\<lparr>con_damaged := True, con_cnt := 0\<rparr> else c2))"

text \<open>The results of \<open>readch_func\<close>: a character, nothing yet, or an error that ends the console.\<close>

datatype read_ch = Ch u8 | NoCh | ReadError

fun console_run ::
  "(bytes \<Rightarrow> 'w \<Rightarrow> 'w) \<Rightarrow> (bytes list \<Rightarrow> 'w \<Rightarrow> 'w outcome) \<Rightarrow> read_ch list \<Rightarrow> 'w console \<Rightarrow> 'w console outcome" where
  "console_run out run [] c = Ret c"
| "console_run out run (Ch ch # rs) c = obind (console_char out run ch c) (console_run out run rs)"
| "console_run out run (NoCh # rs) c = console_run out run rs c"
| "console_run out run (ReadError # rs) c = Ret c"

definition console_start :: "(bytes \<Rightarrow> 'w \<Rightarrow> 'w) \<Rightarrow> 'w \<Rightarrow> 'w console" where
  "console_start out w =
     print_prompt out \<lparr>con_data = replicate DATA_SIZE 0, con_cnt = 0, con_damaged = False, con_world = w\<rparr>"

section \<open>The editor the console is to be\<close>

text \<open>A line of words, a flag for a line that was too long, and the system.\<close>

function words :: "bytes \<Rightarrow> bytes list" where
  "words s =
     (let t = dropWhile IS_SEPARATOR s
      in if t = [] then []
         else takeWhile (\<lambda>c. \<not> IS_SEPARATOR c) t # words (dropWhile (\<lambda>c. \<not> IS_SEPARATOR c) t))"
  by pat_completeness auto
termination
proof (relation "measure length")
  fix s t
  assume t: "t = dropWhile IS_SEPARATOR s" "t \<noteq> []"
  then have "\<not> IS_SEPARATOR (hd t)" using hd_dropWhile [of IS_SEPARATOR s] by simp
  then have "length (dropWhile (\<lambda>c. \<not> IS_SEPARATOR c) t) < length t"
    using t(2) length_dropWhile_le [of "\<lambda>c. \<not> IS_SEPARATOR c" "tl t"] by (cases t) auto
  then show "(dropWhile (\<lambda>c. \<not> IS_SEPARATOR c) t, s) \<in> measure length"
    using t(1) length_dropWhile_le [of IS_SEPARATOR s] by simp
qed simp

declare words.simps [simp del]

type_synonym 'w editor = "bytes \<times> bool \<times> 'w"

definition edit_char ::
  "(bytes \<Rightarrow> 'w \<Rightarrow> 'w) \<Rightarrow> (bytes list \<Rightarrow> 'w \<Rightarrow> 'w outcome) \<Rightarrow> u8 \<Rightarrow> 'w editor \<Rightarrow> 'w editor outcome" where
  "edit_char out run ch e =
     (case e of (l, dmg, w) \<Rightarrow>
        if ch = 8 then Ret (butlast l, dmg, if l = [] then w else out [8] (out [32] (out [8] w)))
        else if ch = 13 \<or> ch = 10 then
          let w1 = out [ch] (if ch = 13 then out [13, 10] w else w)
          in obind (if dmg \<or> words l = [] then Ret w1 else run (take 8 (words l)) w1) (\<lambda>w2. Ret ([], False, out [62, 32] w2))
        else if \<not> isprint ch then Ret ([], dmg, out [62, 32] (out [13, 10] w))
        else if length l = 127 then Ret ([], True, out [ch] w) else Ret (l @ [ch], dmg, out [ch] w))"

fun edit_run ::
  "(bytes \<Rightarrow> 'w \<Rightarrow> 'w) \<Rightarrow> (bytes list \<Rightarrow> 'w \<Rightarrow> 'w outcome) \<Rightarrow> read_ch list \<Rightarrow> 'w editor \<Rightarrow> 'w editor outcome" where
  "edit_run out run [] e = Ret e"
| "edit_run out run (Ch ch # rs) e = obind (edit_char out run ch e) (edit_run out run rs)"
| "edit_run out run (NoCh # rs) e = edit_run out run rs e"
| "edit_run out run (ReadError # rs) e = Ret e"

section \<open>The words of the buffer\<close>

lemma words_Nil [simp]: "words [] = []"
  by (subst words.simps) simp

lemma scan_stop:
  "\<forall>x\<in>set a. p x \<Longrightarrow> \<not> p c \<Longrightarrow> scan p (pre @ a @ c # r) (length pre) = Ret (length pre + length a)"
proof (induction a arbitrary: pre)
  case Nil
  then show ?case by (subst scan.simps) simp
next
  case (Cons x a)
  then show ?case using Cons.IH [of "pre @ [x]"] by (subst scan.simps) simp
qed

text \<open>A line without line ends, split into blanks, a word and the rest.\<close>

lemma line_parts:
  obtains b x rest where "s = b @ x @ rest" "\<forall>c\<in>set b. IS_SEPARATOR c" "\<forall>c\<in>set x. \<not> IS_SEPARATOR c"
    "rest = [] \<or> IS_SEPARATOR (hd rest)" "x = [] \<longrightarrow> rest = []" "dropWhile IS_SEPARATOR s = x @ rest"
    "words s = (if x = [] then [] else x # words rest)"
proof -
  let ?t = "dropWhile IS_SEPARATOR s"
  let ?x = "takeWhile (\<lambda>c. \<not> IS_SEPARATOR c) ?t" and ?r = "dropWhile (\<lambda>c. \<not> IS_SEPARATOR c) ?t"
  have x: "?x = [] \<longleftrightarrow> ?t = []" using hd_dropWhile [of IS_SEPARATOR s]
    by (cases ?t) (auto simp del: dropWhile_eq_Nil_conv)
  have "words s = (if ?x = [] then [] else ?x # words ?r)" using x by (subst words.simps) (simp add: Let_def)
  moreover have "s = takeWhile IS_SEPARATOR s @ ?x @ ?r" by simp
  moreover have "?r = [] \<or> IS_SEPARATOR (hd ?r)" using hd_dropWhile [of "\<lambda>c. \<not> IS_SEPARATOR c" ?t] by blast
  moreover have "\<forall>c\<in>set (takeWhile IS_SEPARATOR s). IS_SEPARATOR c" by (blast dest: set_takeWhileD)
  moreover have "\<forall>c\<in>set ?x. \<not> IS_SEPARATOR c" by (blast dest: set_takeWhileD)
  moreover have "?x = [] \<longrightarrow> ?r = []" using x by (cases ?t) (auto simp del: dropWhile_eq_Nil_conv takeWhile_eq_Nil_iff)
  moreover have "?t = ?x @ ?r" by simp
  ultimately show ?thesis using that [of "takeWhile IS_SEPARATOR s" ?x ?r] by blast
qed

lemma split_loop_words:
  assumes "\<forall>c\<in>set s. \<not> line_end c" "length pre = cnt"
  shows "\<exists>d' new. split_loop k (pre @ s @ 0 # rest) cnt args = Ret (d', args @ new)
    \<and> arg_strings d' new = take k (words s) \<and> length d' = length (pre @ s @ 0 # rest)
    \<and> take cnt d' = pre"
  using assms
proof (induction k arbitrary: s pre cnt args)
  case 0
  then show ?case by (simp add: arg_strings_def)
next
  case (Suc k)
  let ?d = "pre @ s @ 0 # rest"
  have sep: "\<not> IS_SEPARATOR 0" "line_end 0" by (simp_all add: IS_SEPARATOR_def line_end_def)
  obtain b x r where s: "s = b @ x @ r" "\<forall>c\<in>set b. IS_SEPARATOR c" "\<forall>c\<in>set x. \<not> IS_SEPARATOR c"
    "r = [] \<or> IS_SEPARATOR (hd r)" "x = [] \<longrightarrow> r = []" "words s = (if x = [] then [] else x # words r)"
    by (rule line_parts [of s]) blast
  show ?case
  proof (cases "s = []")
    case True
    then show ?thesis using Suc.prems sep by (auto simp: arg_strings_def nth_append)
  next
    case False
    have first: "cnt < length ?d" "\<not> line_end (?d ! cnt)"
      using False Suc.prems by (auto simp: nth_append)
    show ?thesis
    proof (cases "x = []")
      case True
      then have "scan IS_SEPARATOR ?d cnt = Ret (cnt + length b)"
        using scan_stop [of b IS_SEPARATOR 0 pre rest] s(1,2,5) sep Suc.prems(2) by simp
      moreover have "?d ! (cnt + length b) = 0" using s(1,5) True Suc.prems(2) by (simp add: nth_append)
      ultimately show ?thesis using first sep s(6) True Suc.prems(2) by (auto simp: arg_strings_def not_le)
    next
      case False
      then obtain x0 xs where x: "x = x0 # xs" by (cases x) auto
      have "scan IS_SEPARATOR (pre @ b @ x0 # xs @ r @ 0 # rest) (length pre) = Ret (length pre + length b)"
        by (rule scan_stop) (use s(2,3) x in auto)
      then have sc1: "scan IS_SEPARATOR ?d cnt = Ret (cnt + length b)" using s(1) x Suc.prems(2) by simp
      have n1: "\<not> line_end (?d ! (cnt + length b))"
        using s(1) x Suc.prems by (simp add: nth_append)
      obtain y ys where y: "r @ 0 # rest = y # ys" "IS_SEPARATOR y \<or> line_end y" "r = [] \<longrightarrow> y = 0" "r \<noteq> [] \<longrightarrow> y = hd r"
        using s(4) sep by (cases r) auto
      have "scan (\<lambda>c. \<not> IS_SEPARATOR c \<and> \<not> line_end c) ((pre @ b) @ x @ y # ys) (length (pre @ b)) = Ret (length (pre @ b) + length x)"
        by (rule scan_stop) (use s(1,3) y(2) Suc.prems(1) in auto)
      then have sc2: "scan (\<lambda>c. \<not> IS_SEPARATOR c \<and> \<not> line_end c) ?d (cnt + length b) = Ret (cnt + length b + length x)"
        using s(1) y(1) Suc.prems(2) by simp
      have dd: "?d = pre @ b @ x @ y # ys" using s(1) y(1) by simp
      then have n2: "?d ! (cnt + length b + length x) = y" using Suc.prems(2) by (simp add: nth_append)
      show ?thesis
      proof (cases "r = []")
        case True
        then have "words r = []" by (subst words.simps) simp
        moreover have "cstr (drop (cnt + length b) ?d) = x"
          using s(1) True Suc.prems by (auto simp: line_end_def)
        ultimately show ?thesis
          using first sc1 n1 sc2 n2 y(3) True sep s(6) False Suc.prems(2) by (auto simp: arg_strings_def not_le)
      next
        case F: False
        then obtain r' where r: "r = y # r'" using y(4) by (cases r) auto
        then have ys: "ys = r' @ 0 # rest" and ny: "\<not> line_end y" using y(1) s(1) Suc.prems(1) by auto
        let ?pre = "pre @ b @ x @ [0]"
        have upd: "?d[cnt + length b + length x := 0] = ?pre @ r' @ 0 # rest"
          unfolding dd using Suc.prems(2) ys by (simp add: list_update_append)
        have words_r: "words r = words r'"
          using r s(4) by (subst (1 2) words.simps) simp
        obtain d' new where IH: "split_loop k (?pre @ r' @ 0 # rest) (cnt + length b + length x + 1) (args @ [cnt + length b])
            = Ret (d', (args @ [cnt + length b]) @ new)" "arg_strings d' new = take k (words r')"
          "length d' = length (?pre @ r' @ 0 # rest)" "take (cnt + length b + length x + 1) d' = ?pre"
          using Suc.IH [of r' ?pre "cnt + length b + length x + 1" "args @ [cnt + length b]"] Suc.prems s(1) r by auto
        have d': "d' = ?pre @ drop (cnt + length b + length x + 1) d'"
          by (metis IH(4) append_take_drop_id)
        have "drop (cnt + length b) d' = x @ 0 # drop (cnt + length b + length x + 1) d'"
          by (subst d') (simp add: Suc.prems(2))
        moreover have "0 \<notin> set x" using s(1) Suc.prems(1) by (auto simp: line_end_def)
        ultimately have w: "cstr (drop (cnt + length b) d') = x" by simp
        have "take cnt d' = pre" by (subst d') (simp add: Suc.prems(2))
        then show ?thesis
          using first sc1 n1 sc2 n2 ny upd IH w words_r s(6) False dd ys r
          by (intro exI [of _ d'] exI [of _ "(cnt + length b) # new"]) (simp add: arg_strings_def not_le)
      qed
    qed
  qed
qed

section \<open>The console is the editor\<close>

definition con_ok :: "'w console \<Rightarrow> bool" where
  "con_ok c \<longleftrightarrow> length (con_data c) = 128 \<and> con_cnt c < 128 \<and> (\<forall>x\<in>set (take (con_cnt c) (con_data c)). \<not> line_end x)"

definition con_editor :: "'w console \<Rightarrow> 'w editor" where
  "con_editor c = (take (con_cnt c) (con_data c), con_damaged c, con_world c)"

lemma con_editor_emit [simp]:
  "con_cnt (emit out bs c) = con_cnt c" "con_data (emit out bs c) = con_data c"
  "con_damaged (emit out bs c) = con_damaged c" "con_world (emit out bs c) = out bs (con_world c)"
  by (simp_all add: emit_def)

lemma clear_line_fields [simp]:
  "con_cnt (clear_line c) = 0" "con_damaged (clear_line c) = con_damaged c" "con_world (clear_line c) = con_world c"
  "con_cnt c \<le> length (con_data c) \<Longrightarrow> length (con_data (clear_line c)) = length (con_data c)"
  by (simp_all add: clear_line_def)

lemma print_prompt_fields [simp]:
  "con_cnt (print_prompt out c) = con_cnt c" "con_data (print_prompt out c) = con_data c"
  "con_damaged (print_prompt out c) = con_damaged c" "con_world (print_prompt out c) = out [62, 32] (con_world c)"
  by (simp_all add: print_prompt_def)

text \<open>The two-way mapping of outcomes.\<close>

definition omap :: "('a \<Rightarrow> 'b) \<Rightarrow> 'a outcome \<Rightarrow> 'b outcome" where
  "omap f m = obind m (\<lambda>x. Ret (f x))"

lemma omap_simps [simp]: "omap f (Ret x) = Ret (f x)" "omap f Fault = Fault" "omap f Hang = Hang"
  by (simp_all add: omap_def)

lemma parse_and_exec_line:
  assumes "\<forall>c\<in>set s. \<not> line_end c" "d = s @ 0 # rest"
  shows "\<exists>d'. length d' = length d \<and> parse_and_exec run d w =
    omap (\<lambda>w'. (d', w')) (if words s = [] then Ret w else run (take 8 (words s)) w)"
proof -
  obtain d' new where l: "split_loop 8 d 0 [] = Ret (d', new)" "arg_strings d' new = take 8 (words s)" "length d' = length d"
    using split_loop_words [OF assms(1), of "[]" 0 8 rest "[]"] assms(2) by auto
  have "new = [] \<longleftrightarrow> words s = []" using arg_cong [OF l(2), of length] by (cases "words s") (auto simp: arg_strings_def)
  then show ?thesis using l by (intro exI [of _ d']) (simp add: parse_and_exec_def split_line_def omap_def)
qed

lemma console_char_edits:
  assumes "con_ok c"
  shows "omap con_editor (console_char out run ch c) = edit_char out run ch (con_editor c)
    \<and> oall con_ok (console_char out run ch c)"
proof -
  let ?l = "take (con_cnt c) (con_data c)"
  have c: "length (con_data c) = 128" "con_cnt c < 128" "\<forall>x\<in>set ?l. \<not> line_end x" using assms by (auto simp: con_ok_def)
  have len: "length ?l = con_cnt c" using c by simp
  have nl: "?l = [] \<longleftrightarrow> con_cnt c = 0" using c(1,2) by auto
  have pr: "isprint x \<Longrightarrow> \<not> line_end x" for x by (auto simp: isprint_def line_end_def)
  have p8: "\<not> isprint 8" "\<not> isprint 13" "\<not> isprint 10" by (simp_all add: isprint_def)
  consider "ch = 8" | "ch \<noteq> 8" "\<not> isprint ch" "ch \<noteq> 13" "ch \<noteq> 10" | "ch = 13 \<or> ch = 10" | "isprint ch" using p8 by blast
  then show ?thesis
  proof cases
    case 1
    have "butlast ?l = take (con_cnt c - 1) (con_data c)" using c by (simp add: butlast_take)
    moreover have "take (con_cnt c - 1) ((con_data c)[con_cnt c := 0]) = take (con_cnt c - 1) (con_data c)"
      by (simp add: take_update_swap list_update_beyond)
    moreover have "set (take (con_cnt c - 1) (con_data c)) \<subseteq> set ?l" by (rule set_take_subset_set_take) simp
    ultimately show ?thesis using 1 c nl
      by (auto simp: console_char_def edit_char_def con_editor_def con_ok_def Let_def)
  next
    case 2
    then show ?thesis using c
      by (auto simp: console_char_def edit_char_def con_editor_def con_ok_def Let_def)
  next
    case 3
    let ?w = "out [ch] (if ch = 13 then out [13, 10] (con_world c) else con_world c)"
    let ?d = "(con_data c)[con_cnt c := 0]"
    have d: "?d = ?l @ 0 # drop (Suc (con_cnt c)) (con_data c)" using c by (simp add: upd_conv_take_nth_drop)
    obtain d' where d': "length d' = 128" "parse_and_exec run ?d ?w =
        omap (\<lambda>w'. (d', w')) (if words ?l = [] then Ret ?w else run (take 8 (words ?l)) ?w)"
      using parse_and_exec_line [OF c(3) d, of run ?w] c(1) by auto
    have w0: "words ?l = []" if "\<not> Suc 0 \<le> con_cnt c" using that by (cases "con_cnt c") simp_all
    have w1: "(if ch = 13 then emit out [13, 10] c else c) = c\<lparr>con_world := if ch = 13 then out [13, 10] (con_world c) else con_world c\<rparr>"
      by (simp add: emit_def)
    show ?thesis
    proof (cases "con_damaged c \<or> con_cnt c = 0")
      case True
      then show ?thesis using 3 c w0 p8
        by (auto simp: console_char_def edit_char_def con_editor_def con_ok_def Let_def w1)
    next
      case False
      then have "Suc 0 \<le> con_cnt c" by simp
      then show ?thesis using False 3 c d' p8
        by (cases "words ?l = []"; cases "run (take 8 (words ?l)) ?w")
          (auto simp: console_char_def edit_char_def con_editor_def con_ok_def Let_def w1 omap_def)
    qed
  next
    case 4
    then have ch: "ch \<noteq> 8" "ch \<noteq> 13" "ch \<noteq> 10" using p8 by auto
    have "take (Suc (con_cnt c)) ((con_data c)[con_cnt c := ch]) = ?l @ [ch]"
      using c by (simp add: take_Suc_conv_app_nth)
    then show ?thesis using 4 ch c pr [OF 4] len
      by (auto simp: console_char_def edit_char_def con_editor_def con_ok_def Let_def)
  qed
qed

lemma omap_obind: "omap f (obind m g) = obind m (\<lambda>x. omap f (g x))"
  by (simp add: omap_def obind_assoc)

lemma obind_omap: "obind (omap f m) g = obind m (\<lambda>x. g (f x))"
  by (simp add: omap_def obind_assoc)

lemma console_run_edits:
  "con_ok c \<Longrightarrow> omap con_editor (console_run out run rs c) = edit_run out run rs (con_editor c)"
proof (induction out run rs c rule: console_run.induct)
  case (2 out run ch rs c)
  have e: "omap con_editor (console_char out run ch c) = edit_char out run ch (con_editor c)"
    "oall con_ok (console_char out run ch c)" using console_char_edits [OF 2(2)] by auto
  have "omap con_editor (console_run out run (Ch ch # rs) c)
      = obind (console_char out run ch c) (\<lambda>c'. edit_run out run rs (con_editor c'))"
    using 2(1) e(2) by (cases "console_char out run ch c") (auto simp: omap_obind)
  also have "\<dots> = edit_run out run (Ch ch # rs) (con_editor c)"
    using e(1) obind_omap [of con_editor "console_char out run ch c" "edit_run out run rs"] by simp
  finally show ?case .
qed simp_all

lemma con_start: "con_ok (console_start out w)" "con_editor (console_start out w) = ([], False, out [62, 32] w)"
  by (simp_all add: console_start_def con_ok_def con_editor_def)

text \<open>
  C24: whatever is typed, the console never leaves its buffer and runs exactly the commands of the
  editor it is to be: a line of printable characters, corrected with backspace and given up with
  any other character, whose words, at most eight, are run in the order of the lines.
\<close>

theorem console_refines_editor:
  "omap con_editor (console_run out run rs (console_start out w)) = edit_run out run rs ([], False, out [62, 32] w)"
  using console_run_edits [OF con_start(1), of out run rs out w] by (simp only: con_start(2))

text \<open>The commands of a run, as the world of a console that only records them.\<close>

definition record_cmd :: "bytes list \<Rightarrow> bytes list list \<Rightarrow> bytes list list outcome" where
  "record_cmd args cmds = Ret (cmds @ [args])"

definition typed :: "bytes \<Rightarrow> bytes list list outcome" where
  "typed s = omap con_world (console_run (\<lambda>_ w. w) record_cmd (map Ch s) (console_start (\<lambda>_ w. w) []))"

lemma edit_run_plain:
  "\<forall>c\<in>set s. isprint c \<Longrightarrow> length l + length s \<le> 127 \<Longrightarrow>
     edit_run (\<lambda>_ w. w) run (map Ch s @ rs) (l, d, w) = edit_run (\<lambda>_ w. w) run rs (l @ s, d, w)"
proof (induction s arbitrary: l)
  case (Cons c s)
  then have "c \<noteq> 8 \<and> c \<noteq> 13 \<and> c \<noteq> 10" by (auto simp: isprint_def)
  then show ?case using Cons by (simp add: edit_char_def)
qed simp

lemma edit_run_line:
  assumes "\<forall>c\<in>set s. isprint c" "length s \<le> 127"
  shows "edit_run (\<lambda>_ w. w) record_cmd (map Ch s @ Ch 13 # rs) ([], d, cmds)
    = edit_run (\<lambda>_ w. w) record_cmd rs ([], False, cmds @ (if d \<or> words s = [] then [] else [take 8 (words s)]))"
  using edit_run_plain [OF assms(1), of "[]" record_cmd "Ch 13 # rs" d cmds] assms(2)
  by (simp add: edit_char_def record_cmd_def)

text \<open>
  a line of 128 characters or more is not run. If it is given up with a control character
  instead of a line end, the next line is not run either, though it is a good one.
\<close>

theorem good_line_swallowed:
  assumes "length s = 128" "\<forall>c\<in>set s. isprint c" "length t \<le> 127" "\<forall>c\<in>set t. isprint c" "words t \<noteq> []"
    "\<not> isprint ch" "ch \<notin> {8, 10, 13}"
  shows "typed (s @ [ch] @ t @ [13]) = Ret [] \<and> typed (t @ [13] @ t @ [13]) = Ret [take 8 (words t), take 8 (words t)]"
proof -
  have t: "typed x = obind (edit_run (\<lambda>_ w. w) record_cmd (map Ch x) ([], False, [])) (\<lambda>e. Ret (snd (snd e)))" for x
  proof -
    have "omap con_world m = omap (\<lambda>e. snd (snd e)) (omap con_editor m)" for m :: "bytes list list console outcome"
      by (cases m) (simp_all add: con_editor_def)
    then show ?thesis using console_run_edits [OF con_start(1), of "\<lambda>_ w. w" record_cmd "map Ch x" "\<lambda>_ w. w" "[]"]
      by (simp add: typed_def con_start(2) omap_def)
  qed
  obtain s0 c0 where s: "s = s0 @ [c0]" "length s0 = 127" using assms(1) by (cases s rule: rev_cases) auto
  have c0: "c0 \<noteq> 8" "c0 \<noteq> 13" "c0 \<noteq> 10" "isprint c0" using assms(2) s by (auto simp: isprint_def)
  have "edit_run (\<lambda>_ w. w) record_cmd (map Ch s0 @ Ch c0 # Ch ch # map Ch t @ Ch 13 # []) ([], False, [])
      = edit_run (\<lambda>_ w. w) record_cmd (map Ch t @ Ch 13 # []) ([], True, [])"
    using edit_run_plain [of s0 "[]" record_cmd "Ch c0 # Ch ch # map Ch t @ Ch 13 # []" False "[]"] s assms(2,6,7) c0
    by (simp add: edit_char_def)
  also have "\<dots> = Ret ([], False, [])" using edit_run_line [OF assms(4,3), of "[]" True "[]"] by simp
  finally have 1: "typed (s @ [ch] @ t @ [13]) = Ret []" using t s by simp
  have "edit_run (\<lambda>_ w. w) record_cmd (map Ch t @ Ch 13 # map Ch t @ Ch 13 # []) ([], False, [])
      = Ret ([], False, [take 8 (words t), take 8 (words t)])"
    using edit_run_line [OF assms(4,3), of "map Ch t @ Ch 13 # []" False "[]"]
      edit_run_line [OF assms(4,3), of "[]" False "[take 8 (words t)]"] assms(5) by simp
  then show ?thesis using 1 t by simp
qed

theorem good_line_swallowed_witness:
  "typed (replicate 128 97 @ [27] @ [104] @ [13]) = Ret [] \<and> typed ([104] @ [13] @ [104] @ [13]) = Ret [[[104]], [[104]]]"
proof -
  have w: "words [104] = [[104]]"
    by (subst words.simps) (simp add: IS_SEPARATOR_def)
  have "isprint 97" "isprint 104" "\<not> isprint 27" by (simp_all add: isprint_def)
  then show ?thesis using good_line_swallowed [of "replicate 128 97" "[104]" 27] w by simp
qed

end
