(* ===== verification/Mini_Ini.thy ===== *)
theory Mini_Ini
  imports Cstrings "HOL-Library.Signed_Division"
begin

text \<open>
  The settings file (\<open>common/minIni/minIni.c\<close>, with the glue to FatFs of
  \<open>minGlue-FatFs.h\<close>): lines of at most 255 characters are read one at a time, a section is
  found by its head, a key by its line, and a change copies the file to a temporary one that
  replaces it. A file system maps names to contents; opening a file for writing
  succeeds or not as the argument \<open>wr\<close> says, and a write into an open file succeeds. The
  position marks that \<open>getkeystring\<close> keeps serve a shortcut this glue does not build.
\<close>

section \<open>Files\<close>

type_synonym ini_fs = "bytes \<Rightarrow> bytes option"

record fil =
  f_text :: bytes
  fptr :: nat

abbreviation (input) INI_BUFFERSIZE :: nat where "INI_BUFFERSIZE \<equiv> 256"

definition INI_LINETERM :: bytes where "INI_LINETERM = [13, 10]"

text \<open>\<open>f_gets\<close> of \<open>fatfs/src/ff.c\<close>: at most \<open>n\<close> characters, up to the end of the line.\<close>

primrec gets_line :: "nat \<Rightarrow> bytes \<Rightarrow> bytes" where
  "gets_line 0 s = []"
| "gets_line (Suc n) s = (case s of [] \<Rightarrow> [] | c # cs \<Rightarrow> c # (if c = 10 then [] else gets_line n cs))"

definition ini_read :: "nat \<Rightarrow> fil \<Rightarrow> bytes option \<times> fil" where
  "ini_read sz f =
     (let l = gets_line (sz - 1) (drop (fptr f) (f_text f))
      in (if l = [] then None else Some (cstr l), f\<lparr>fptr := fptr f + length l\<rparr>))"

lemma gets_line_nil: "gets_line (Suc n) s = [] \<longleftrightarrow> s = []"
  by (cases s) simp_all

lemma length_gets_line: "length (gets_line n s) \<le> length s"
  by (induction n arbitrary: s) (auto split: list.splits)

lemma ini_read_less:
  "ini_read sz f = (Some l, f') \<Longrightarrow> length (f_text f') - fptr f' < length (f_text f) - fptr f"
  using length_gets_line [of "sz - 1" "drop (fptr f) (f_text f)"]
  by (auto simp: ini_read_def Let_def split: if_splits) (metis add_less_same_cancel1 diff_diff_left diff_less
    le_zero_eq length_greater_0_conv linorder_not_less)

section \<open>Strings\<close>

datatype quote_option = QUOTE_NONE | QUOTE_ENQUOTE | QUOTE_DEQUOTE

definition blank :: "u8 \<Rightarrow> bool" where
  "blank c \<longleftrightarrow> 0 < c \<and> c \<le> 32"

definition skipleading :: "bytes \<Rightarrow> bytes" where
  "skipleading s = dropWhile blank s"

text \<open>The position after the last character before \<open>n\<close> that is not blank.\<close>

definition skiptrailing :: "bytes \<Rightarrow> nat \<Rightarrow> nat" where
  "skiptrailing s n = length (dropWhile blank (rev (take n s)))"

definition striptrailing :: "bytes \<Rightarrow> bytes" where
  "striptrailing s = take (skiptrailing s (length s)) s"

text \<open>The loops of \<open>save_strncpy\<close>; \<open>d\<close> counts the characters stored.\<close>

fun enquote_loop :: "nat \<Rightarrow> nat \<Rightarrow> bytes \<Rightarrow> bytes" where
  "enquote_loop maxlen d [] = []"
| "enquote_loop maxlen d (c # cs) =
     (if \<not> d < maxlen - 2 then []
      else if c = 34 then (if maxlen - 3 \<le> d then [] else 92 # c # enquote_loop maxlen (d + 2) cs)
      else c # enquote_loop maxlen (d + 1) cs)"

fun dequote_loop :: "nat \<Rightarrow> nat \<Rightarrow> bytes \<Rightarrow> bytes" where
  "dequote_loop maxlen d (c # c' # cs) =
     (if \<not> d < maxlen - 1 then []
      else if (c = 34 \<or> c = 92) \<and> c' = 34 then c' # dequote_loop maxlen (d + 1) cs
      else c # dequote_loop maxlen (d + 1) (c' # cs))"
| "dequote_loop maxlen d [c] = (if \<not> d < maxlen - 1 then [] else [c])"
| "dequote_loop maxlen d [] = []"

definition save_strncpy :: "bytes \<Rightarrow> nat \<Rightarrow> quote_option \<Rightarrow> bytes" where
  "save_strncpy source maxlen option =
     (if option = QUOTE_DEQUOTE then dequote_loop maxlen 0 source
      else if option = QUOTE_ENQUOTE \<and> \<not> maxlen < 3 then 34 # enquote_loop maxlen 1 source @ [34]
      else take (maxlen - 1) source)"

text \<open>What stands before a comment; quotes protect the characters that begin one.\<close>

fun before_comment :: "bool \<Rightarrow> bytes \<Rightarrow> bytes" where
  "before_comment isstring [] = []"
| "before_comment isstring [c] = (if (c = 59 \<or> c = 35) \<and> \<not> isstring then [] else [c])"
| "before_comment isstring (c # c' # cs) =
     (if (c = 59 \<or> c = 35) \<and> \<not> isstring then []
      else if c = 34 then
        if c' = 34 then c # c' # before_comment isstring cs else c # before_comment (\<not> isstring) (c' # cs)
      else if c = 92 \<and> c' = 34 then c # c' # before_comment isstring cs
      else c # before_comment isstring (c' # cs))"

definition cleanstring :: "bytes \<Rightarrow> bytes \<times> quote_option" where
  "cleanstring s =
     (let t = striptrailing (before_comment False s)
      in if t \<noteq> [] \<and> hd t = 34 \<and> last t = 34 then (butlast (tl t), QUOTE_DEQUOTE) else (t, QUOTE_NONE))"

section \<open>Reading\<close>

text \<open>\<open>ep - sp - 1 == len\<close> and the same characters up to case.\<close>

definition section_match :: "bytes \<Rightarrow> bytes \<Rightarrow> nat \<Rightarrow> bool" where
  "section_match sp section ep \<longleftrightarrow>
     int ep - 1 = int (length section) \<and> strnicmp (tl sp) section (length section) = 0"

definition key_match :: "bytes \<Rightarrow> bytes \<Rightarrow> nat \<Rightarrow> bool" where
  "key_match sp key ep \<longleftrightarrow>
     \<not> (length key = 0 \<or> skiptrailing sp ep \<noteq> length key \<or> strnicmp sp key (length key) \<noteq> 0)"

definition key_sep :: "bytes \<Rightarrow> nat option" where
  "key_sep sp = (case strchr sp 61 of Some e \<Rightarrow> Some e | None \<Rightarrow> strchr sp 58)"

text \<open>The first loop of \<open>getkeystring\<close>; its result is the line of the section, the bracket and the index.\<close>

function find_section :: "bytes \<Rightarrow> int \<Rightarrow> int \<Rightarrow> fil \<Rightarrow> ((bytes \<times> nat \<times> int) \<times> fil) option" where
  "find_section section idxSection idx f =
     (case ini_read INI_BUFFERSIZE f of
        (None, f') \<Rightarrow> None
      | (Some buf, f') \<Rightarrow>
          let sp = skipleading buf
          in if ch0 sp \<noteq> 91 then find_section section idxSection idx f'
             else case strchr sp 93 of
                    None \<Rightarrow> find_section section idxSection idx f'
                  | Some ep \<Rightarrow>
                      if section_match sp section ep then Some ((sp, ep, idx), f')
                      else if idx + 1 \<noteq> idxSection then find_section section idxSection (idx + 1) f'
                      else Some ((sp, ep, idx + 1), f'))"
  by pat_completeness auto
termination
  by (relation "measure (\<lambda>(_, _, _, f). length (f_text f) - fptr f)") (auto dest: ini_read_less [OF sym])

text \<open>The second loop: the line of a key and its separator.\<close>

function find_key :: "bytes \<Rightarrow> int \<Rightarrow> int \<Rightarrow> fil \<Rightarrow> (bytes \<times> nat \<times> int) option" where
  "find_key key idxKey idx f =
     (case ini_read INI_BUFFERSIZE f of
        (None, f') \<Rightarrow> None
      | (Some buf, f') \<Rightarrow>
          let sp = skipleading buf
          in if ch0 sp = 91 then None
             else case key_sep sp of
                    None \<Rightarrow> find_key key idxKey idx f'
                  | Some ep \<Rightarrow>
                      if ch0 sp = 59 \<or> ch0 sp = 35 then find_key key idxKey idx f'
                      else if key_match sp key ep then Some (sp, ep, idx)
                      else if idx + 1 \<noteq> idxKey then find_key key idxKey (idx + 1) f'
                      else Some (sp, ep, idx + 1))"
  by pat_completeness auto
termination
  by (relation "measure (\<lambda>(_, _, _, f). length (f_text f) - fptr f)") (auto dest: ini_read_less [OF sym])

declare find_section.simps [simp del] find_key.simps [simp del]

definition len0 :: "bytes option \<Rightarrow> bytes" where
  "len0 s = (case s of None \<Rightarrow> [] | Some t \<Rightarrow> t)"

definition get_entry :: "bytes option \<Rightarrow> int \<Rightarrow> nat \<Rightarrow> fil \<Rightarrow> bytes option" where
  "get_entry Key idxKey BufferSize f =
     (case find_key (len0 Key) idxKey (-1) f of
        None \<Rightarrow> None
      | Some (sp, ep, idx) \<Rightarrow>
          if 0 \<le> idxKey then
            if idx = idxKey then Some (save_strncpy (striptrailing (take ep sp)) BufferSize QUOTE_NONE) else None
          else let (v, quotes) = cleanstring (skipleading (drop (ep + 1) sp))
               in Some (save_strncpy v BufferSize quotes))"

definition getkeystring :: "fil \<Rightarrow> bytes option \<Rightarrow> bytes option \<Rightarrow> int \<Rightarrow> int \<Rightarrow> nat \<Rightarrow> bytes option" where
  "getkeystring f Section Key idxSection idxKey BufferSize =
     (if length (len0 Section) > 0 \<or> idxSection \<ge> 0 then
        case find_section (len0 Section) idxSection (-1) f of
          None \<Rightarrow> None
        | Some ((sp, ep, idx), f') \<Rightarrow>
            if idxSection \<ge> 0 then
              if idx = idxSection then Some (save_strncpy (drop 1 (take ep sp)) BufferSize QUOTE_NONE) else None
            else get_entry Key idxKey BufferSize f'
      else get_entry Key idxKey BufferSize f)"

definition open_fil :: "bytes \<Rightarrow> fil" where
  "open_fil text = \<lparr>f_text = text, fptr = 0\<rparr>"

text \<open>The result is the string left in the buffer; the functions return its length.\<close>

definition ini_gets :: "bytes option \<Rightarrow> bytes \<Rightarrow> bytes \<Rightarrow> nat \<Rightarrow> bytes \<Rightarrow> ini_fs \<Rightarrow> bytes" where
  "ini_gets Section Key DefValue BufferSize Filename fs =
     (case (case fs Filename of None \<Rightarrow> None
            | Some text \<Rightarrow> getkeystring (open_fil text) Section (Some Key) (-1) (-1) BufferSize) of
        Some v \<Rightarrow> v
      | None \<Rightarrow> save_strncpy DefValue BufferSize QUOTE_NONE)"

definition ini_getl :: "bytes option \<Rightarrow> bytes \<Rightarrow> int \<Rightarrow> bytes \<Rightarrow> ini_fs \<Rightarrow> int" where
  "ini_getl Section Key DefValue Filename fs =
     (let b = ini_gets Section Key [] 64 Filename fs
      in if length b = 0 then DefValue
         else if length b \<ge> 2 \<and> toupper (b ! 1) = 88 then strtol b 16 else strtol b 10)"

text \<open>\<open>INI_REAL\<close> is \<open>float\<close> here.\<close>

definition ini_getf :: "bytes option \<Rightarrow> bytes \<Rightarrow> rat \<Rightarrow> bytes \<Rightarrow> ini_fs \<Rightarrow> rat" where
  "ini_getf Section Key DefValue Filename fs =
     (let b = ini_gets Section Key [] 64 Filename fs
      in if length b = 0 then DefValue else fl32 (fl64 (atof b)))"

definition ini_getbool :: "bytes option \<Rightarrow> bytes \<Rightarrow> int \<Rightarrow> bytes \<Rightarrow> ini_fs \<Rightarrow> int" where
  "ini_getbool Section Key DefValue Filename fs =
     (let c = toupper (ch0 (ini_gets Section Key [] 2 Filename fs))
      in if c = 89 \<or> c = 49 \<or> c = 84 then 1
         else if c = 78 \<or> c = 48 \<or> c = 70 then 0 else DefValue)"

definition ini_getsection :: "nat \<Rightarrow> nat \<Rightarrow> bytes \<Rightarrow> ini_fs \<Rightarrow> bytes" where
  "ini_getsection idx BufferSize Filename fs =
     (case fs Filename of None \<Rightarrow> []
      | Some text \<Rightarrow> len0 (getkeystring (open_fil text) None None (int idx) (-1) BufferSize))"

definition ini_getkey :: "bytes option \<Rightarrow> nat \<Rightarrow> nat \<Rightarrow> bytes \<Rightarrow> ini_fs \<Rightarrow> bytes" where
  "ini_getkey Section idx BufferSize Filename fs =
     (case fs Filename of None \<Rightarrow> []
      | Some text \<Rightarrow> len0 (getkeystring (open_fil text) Section None (-1) (int idx) BufferSize))"

section \<open>Writing\<close>

definition ini_tempname :: "bytes \<Rightarrow> nat \<Rightarrow> bytes" where
  "ini_tempname source maxlength = butlast (save_strncpy source maxlength QUOTE_NONE) @ [126]"

definition check_enquote :: "bytes \<Rightarrow> quote_option" where
  "check_enquote v =
     (if 34 \<in> set v \<or> 59 \<in> set v \<or> 35 \<in> set v \<or> (v \<noteq> [] \<and> last v = 32) then QUOTE_ENQUOTE else QUOTE_NONE)"

text \<open>The text a call writes; \<open>None\<close> is the null pointer.\<close>

definition writesection :: "bytes option \<Rightarrow> bytes" where
  "writesection Section =
     (if len0 Section = [] then []
      else 91 # save_strncpy (len0 Section) (INI_BUFFERSIZE - 4) QUOTE_NONE @ 93 # INI_LINETERM)"

definition writekey :: "bytes \<Rightarrow> bytes \<Rightarrow> bytes" where
  "writekey Key Value =
     (let k = save_strncpy Key (INI_BUFFERSIZE - 3) QUOTE_NONE @ [61]
      in k @ save_strncpy Value (INI_BUFFERSIZE - length k - 2) (check_enquote Value) @ INI_LINETERM)"

text \<open>The copy in progress: the file read, what has been written, and the lines read but not yet copied.\<close>

record ini_copy =
  c_rfp :: fil
  c_out :: bytes
  c_mark :: nat
  c_cache :: nat

text \<open>\<open>cache_flush\<close> reads the cached lines again; when there is nothing left to read it reads for ever.\<close>

function flush_loop :: "nat \<Rightarrow> bytes \<Rightarrow> fil \<Rightarrow> (bytes \<times> fil) option" where
  "flush_loop n buf f =
     (if length buf < n then
        case ini_read (INI_BUFFERSIZE - length buf) f of
          (None, f') \<Rightarrow> None
        | (Some l, f') \<Rightarrow> flush_loop n (buf @ take (n - length buf) l) f'
      else Some (buf, f))"
  by pat_completeness auto
termination
  by (relation "measure (\<lambda>(_, _, f). length (f_text f) - fptr f)") (auto dest: ini_read_less [OF sym])

declare flush_loop.simps [simp del]

definition cache_flush :: "ini_copy \<Rightarrow> (bool \<times> ini_copy) option" where
  "cache_flush c =
     Option.bind (flush_loop (c_cache c) [] ((c_rfp c)\<lparr>fptr := c_mark c\<rparr>)) (\<lambda>(buf, f).
       Some (2 < length buf \<and> drop (length buf - 2) buf = INI_LINETERM,
             c\<lparr>c_rfp := f, c_out := c_out c @ buf, c_mark := fptr f, c_cache := 0\<rparr>))"

definition cache_accum :: "nat \<Rightarrow> ini_copy \<Rightarrow> bool \<times> ini_copy" where
  "cache_accum len c =
     (if INI_BUFFERSIZE \<le> c_cache c + len then (False, c) else (True, c\<lparr>c_cache := c_cache c + len\<rparr>))"

text \<open>A line that was read joins the cache, which is flushed first when it is full.\<close>

definition copy_line :: "nat \<Rightarrow> ini_copy \<Rightarrow> ini_copy option" where
  "copy_line len c =
     (case cache_accum len c of
        (True, c') \<Rightarrow> Some c'
      | (False, _) \<Rightarrow>
          Option.bind (cache_flush c) (\<lambda>(_, c1).
            case ini_read INI_BUFFERSIZE (c_rfp c1) of
              (b, f) \<Rightarrow> Some (snd (cache_accum (length (len0 b)) (c1\<lparr>c_rfp := f\<rparr>)))))"

text \<open>The first loop of \<open>ini_puts\<close>: \<open>False\<close> when the file ends before the section.\<close>

partial_function (option) copy_section :: "bytes \<Rightarrow> bool \<Rightarrow> ini_copy \<Rightarrow> (bool \<times> ini_copy) option" where
  [code]: "copy_section section keyed c =
     (case ini_read INI_BUFFERSIZE (c_rfp c) of
        (None, f) \<Rightarrow> Some (False, c\<lparr>c_rfp := f\<rparr>)
      | (Some buf, f) \<Rightarrow>
          let sp = skipleading buf;
              found = (ch0 sp = 91 \<and> (case strchr sp 93 of None \<Rightarrow> False | Some ep \<Rightarrow> section_match sp section ep));
              c1 = c\<lparr>c_rfp := f\<rparr>
          in Option.bind (if \<not> found \<or> keyed then copy_line (length buf) c1 else Some c1)
               (\<lambda>c2. if found then Some (True, c2) else copy_section section keyed c2))"

text \<open>The second loop: \<open>None\<close> at the end of the file, otherwise whether it stopped at a new section.\<close>

partial_function (option) copy_keys :: "bytes option \<Rightarrow> ini_copy \<Rightarrow> (bool option \<times> ini_copy) option" where
  [code]: "copy_keys Key c =
     (case ini_read INI_BUFFERSIZE (c_rfp c) of
        (None, f) \<Rightarrow> Some (None, c\<lparr>c_rfp := f\<rparr>)
      | (Some buf, f) \<Rightarrow>
          let sp = skipleading buf;
              found = (case key_sep sp of None \<Rightarrow> False | Some ep \<Rightarrow> key_match sp (len0 Key) ep);
              c1 = c\<lparr>c_rfp := f\<rparr>
          in if (Key \<noteq> None \<and> found) \<or> ch0 sp = 91 then Some (Some (ch0 sp = 91), c1)
             else if Key = None then copy_keys Key (c1\<lparr>c_mark := fptr f\<rparr>)
             else Option.bind (copy_line (length buf) c1) (\<lambda>c2. copy_keys Key c2))"

partial_function (option) copy_rest :: "ini_copy \<Rightarrow> ini_copy option" where
  [code]: "copy_rest c =
     (case ini_read INI_BUFFERSIZE (c_rfp c) of
        (None, f) \<Rightarrow> Some (c\<lparr>c_rfp := f\<rparr>)
      | (Some buf, f) \<Rightarrow> Option.bind (copy_line (length buf) (c\<lparr>c_rfp := f\<rparr>)) (\<lambda>c2. copy_rest c2))"

text \<open>What is appended when the entry does not exist: \<open>flag\<close> says the copy ends with a line end.\<close>

definition append_entry :: "bool \<Rightarrow> bytes option \<Rightarrow> bytes option \<Rightarrow> bytes option \<Rightarrow> bytes" where
  "append_entry flag Section Key Value =
     (case (Key, Value) of
        (Some k, Some v) \<Rightarrow> (if flag then [] else INI_LINETERM) @ writesection Section @ writekey k v
      | _ \<Rightarrow> [])"

text \<open>The part of \<open>ini_puts\<close> behind the head of the section: its entries, the new one, the rest of the file.\<close>

definition copy_entry :: "bytes option \<Rightarrow> bytes option \<Rightarrow> ini_copy \<Rightarrow> bytes option" where
  "copy_entry Key Value c2 =
     (let c3 = (if Key = None then
                  let f = snd (ini_read INI_BUFFERSIZE (c_rfp c2)) in c2\<lparr>c_rfp := f, c_mark := fptr f\<rparr>
                else c2)
      in Option.bind (copy_keys Key c3) (\<lambda>(stop, c4).
         Option.bind (cache_flush c4) (\<lambda>(flag, c5).
         case stop of
           None \<Rightarrow> Some (c_out c5 @ append_entry flag None Key Value)
         | Some sec \<Rightarrow>
             let out = c_out c5 @ (case (Key, Value) of (Some k, Some v) \<Rightarrow> writekey k v | _ \<Rightarrow> []);
                 (b, f) = ini_read INI_BUFFERSIZE (c_rfp c5);
                 c6 = c5\<lparr>c_rfp := f, c_out := out\<rparr>;
                 c7 = (if sec then snd (cache_accum (length (len0 b)) c6) else c6\<lparr>c_mark := fptr f\<rparr>)
             in Option.bind (copy_rest c7) (\<lambda>c8.
                Option.bind (cache_flush c8) (\<lambda>(_, c9). Some (c_out c9))))))"

definition copy_file :: "bytes option \<Rightarrow> bytes option \<Rightarrow> bytes option \<Rightarrow> bytes \<Rightarrow> bytes option" where
  "copy_file Section Key Value text =
     (let c0 = \<lparr>c_rfp = open_fil text, c_out = [], c_mark = 0, c_cache = 0\<rparr>
      in Option.bind (if length (len0 Section) > 0 then copy_section (len0 Section) (Key \<noteq> None) c0
                      else Some (True, c0)) (\<lambda>(found, c1).
         Option.bind (cache_flush c1) (\<lambda>(flag, c2).
         if \<not> found then Some (c_out c2 @ append_entry flag Section Key Value) else copy_entry Key Value c2)))"

definition close_rename :: "bytes \<Rightarrow> ini_fs \<Rightarrow> ini_fs" where
  "close_rename filename fs =
     (let fs1 = fs(filename := None); tmp = ini_tempname filename INI_BUFFERSIZE
      in if fs1 tmp = None then fs1 else fs1(tmp := None, filename := fs1 tmp))"

text \<open>\<open>None\<close>: the call does not return.\<close>

definition ini_puts ::
  "bool \<Rightarrow> bytes option \<Rightarrow> bytes option \<Rightarrow> bytes option \<Rightarrow> bytes \<Rightarrow> ini_fs \<Rightarrow> (bool \<times> ini_fs) option" where
  "ini_puts wr Section Key Value Filename fs =
     (case fs Filename of
        None \<Rightarrow>
          (case (Key, Value) of
             (Some k, Some v) \<Rightarrow>
               if \<not> wr then Some (False, fs)
               else Some (True, fs(Filename := Some (writesection Section @ writekey k v)))
           | _ \<Rightarrow> Some (True, fs))
      | Some text \<Rightarrow>
          if Key \<noteq> None \<and> Value \<noteq> None
             \<and> getkeystring (open_fil text) Section Key (-1) (-1) INI_BUFFERSIZE = Some (len0 Value)
          then Some (True, fs)
          else if \<not> wr then Some (False, fs)
          else Option.bind (copy_file Section Key Value text) (\<lambda>out.
                 Some (True, close_rename Filename (fs(ini_tempname Filename INI_BUFFERSIZE := Some out)))))"

text \<open>\<open>strreverse\<close> and \<open>long2str\<close>: the digits come lowest first, also of a negative number.\<close>

function long2str_loop :: "int \<Rightarrow> bytes" where
  "long2str_loop v =
     of_nat (48 + nat \<bar>v smod 10\<bar>) # (if v sdiv 10 \<noteq> 0 then long2str_loop (v sdiv 10) else [])"
  by pat_completeness auto
termination
  by (relation "measure (\<lambda>v. nat \<bar>v\<bar>)") (auto simp: signed_divide_int_def sgn_if split: if_splits)

declare long2str_loop.simps [simp del]

definition long2str :: "int \<Rightarrow> bytes" where
  "long2str value = rev (long2str_loop value @ (if value < 0 then [45] else []))"

definition ini_putl :: "bool \<Rightarrow> bytes option \<Rightarrow> bytes option \<Rightarrow> int \<Rightarrow> bytes \<Rightarrow> ini_fs \<Rightarrow> (bool \<times> ini_fs) option" where
  "ini_putl wr Section Key Value Filename fs = ini_puts wr Section Key (Some (long2str Value)) Filename fs"

end
