(* ===== verification/Mini_Ini_Facts.thy ===== *)
theory Mini_Ini_Facts
  imports Mini_Ini
begin

text \<open>
  What is written to the settings file is read back. A file without NULs is a list of the
  lines \<open>f_gets\<close> delivers; copying moves whole lines, so that a change replaces one line,
  inserts one before the next section, or appends; and a value survives quoting and cleaning.
\<close>

section \<open>Quoting\<close>

definition esc :: "bytes \<Rightarrow> bytes" where
  "esc s = concat (map (\<lambda>c. if c = 34 then [92, 34] else [c]) s)"

fun deq :: "bytes \<Rightarrow> bytes" where
  "deq (c # c' # cs) = (if (c = 34 \<or> c = 92) \<and> c' = 34 then c' # deq cs else c # deq (c' # cs))"
| "deq s = s"

definition stored :: "bytes \<Rightarrow> bytes" where
  "stored v = (if check_enquote v = QUOTE_ENQUOTE then 34 # esc v @ [34] else v)"

lemma esc_simps [simp]: "esc [] = []" "esc (c # s) = (if c = 34 then [92, 34] else [c]) @ esc s"
  by (simp_all add: esc_def)

lemma esc_no_quote: "esc s \<noteq> [] \<Longrightarrow> hd (esc s) \<noteq> 34"
  by (cases s) auto

lemma esc_nil [simp]: "esc s = [] \<longleftrightarrow> s = []"
  by (cases s) auto

lemma set_esc: "set (esc s) \<subseteq> insert 92 (set s)"
  by (induction s) auto

lemma enquote_loop_esc: "d + length (esc s) \<le> maxlen - 2 \<Longrightarrow> enquote_loop maxlen d s = esc s"
  by (induction s arbitrary: d) auto

lemma dequote_loop_deq: "dequote_loop maxlen d s = take (maxlen - 1 - d) (deq s)"
proof (induction s arbitrary: d rule: deq.induct)
  case (1 c c' cs)
  have "maxlen - 1 - d = Suc (maxlen - 1 - (d + 1))" if "d < maxlen - 1" using that by simp
  then show ?case using 1 [of "d + 1"] by auto
qed (auto simp: take_Cons')

lemma deq_esc: "deq (esc s) = s"
proof (induction s)
  case (Cons c s)
  show ?case
  proof (cases "esc s")
    case Nil
    then show ?thesis by simp
  next
    case (Cons x xs)
    then have "x \<noteq> 34" using esc_no_quote [of s] by simp
    then show ?thesis using Cons Cons.IH by auto
  qed
qed simp

lemma before_comment_quoted:
  "before_comment True (esc s @ [34, 13, 10]) = esc s @ [34, 13, 10]"
proof (induction s)
  case (Cons c s)
  show ?case
  proof (cases "esc s")
    case Nil
    then show ?thesis by simp
  next
    case (Cons x xs)
    then have "x \<noteq> 34" using esc_no_quote [of s] by simp
    then show ?thesis using Cons Cons.IH by auto
  qed
qed simp

lemma before_comment_plain:
  "set s \<inter> {34, 35, 59} = {} \<Longrightarrow> before_comment b s = s"
  by (induction b s rule: before_comment.induct) auto

lemma striptrailing_blank:
  assumes "x = [] \<or> \<not> blank (last x)" "\<forall>c\<in>set b. blank c"
  shows "striptrailing (x @ b) = x"
proof -
  have "dropWhile blank (rev x) = rev x"
    using assms(1) by (cases x rule: rev_cases) (auto simp: dropWhile_eq_self_iff)
  moreover have "dropWhile blank (rev b @ rev x) = dropWhile blank (rev x)"
    by (rule dropWhile_append2) (use assms(2) in auto)
  ultimately show ?thesis by (simp add: striptrailing_def skiptrailing_def)
qed

lemma skipleading_id: "s \<noteq> [] \<Longrightarrow> \<not> blank (hd s) \<Longrightarrow> skipleading s = s"
  by (cases s) (simp_all add: skipleading_def)

text \<open>A value can be stored when it is one line and quoting keeps its blanks, if it begins or ends with some.\<close>

definition value_ok :: "bytes \<Rightarrow> bool" where
  "value_ok v \<longleftrightarrow> 0 \<notin> set v \<and> 10 \<notin> set v
     \<and> (check_enquote v = QUOTE_ENQUOTE \<or> v = [] \<or> (\<not> blank (hd v) \<and> \<not> blank (last v)))"

lemma clean_stored:
  assumes "value_ok v"
  shows "\<exists>s q. cleanstring (skipleading (stored v @ [13, 10])) = (s, q) \<and> q \<noteq> QUOTE_ENQUOTE
    \<and> (q = QUOTE_NONE \<and> s = v \<or> q = QUOTE_DEQUOTE \<and> deq s = v)"
proof (cases "check_enquote v = QUOTE_ENQUOTE")
  case True
  then have "v \<noteq> []" by (auto simp: check_enquote_def)
  then obtain x xs where e: "esc v = x # xs" by (metis esc_nil list.exhaust)
  then have x: "x \<noteq> 34" using esc_no_quote [of v] by simp
  have "before_comment False (34 # esc v @ [34, 13, 10]) = (34 # esc v @ [34]) @ [13, 10]"
    using before_comment_quoted [of v] e x by simp
  moreover have "striptrailing ((34 # esc v @ [34]) @ [13, 10]) = 34 # esc v @ [34]"
    by (rule striptrailing_blank) (simp_all add: blank_def)
  moreover have "skipleading (stored v @ [13, 10]) = 34 # esc v @ [34, 13, 10]"
    using True by (simp add: stored_def skipleading_def blank_def)
  ultimately have "cleanstring (skipleading (stored v @ [13, 10])) = (esc v, QUOTE_DEQUOTE)"
    by (simp add: cleanstring_def Let_def butlast_append)
  then show ?thesis using deq_esc by auto
next
  case False
  then have s: "stored v = v" and p: "set v \<inter> {34, 35, 59} = {}"
    by (auto simp: stored_def check_enquote_def split: if_splits)
  show ?thesis
  proof (cases "v = []")
    case True
    then show ?thesis using s by (simp add: skipleading_def blank_def cleanstring_def Let_def striptrailing_def)
  next
    case F: False
    then have b: "\<not> blank (hd v)" "\<not> blank (last v)" using assms False by (auto simp: value_ok_def)
    then have "skipleading (v @ [13, 10]) = v @ [13, 10]" using F by (intro skipleading_id) simp_all
    moreover have "before_comment False (v @ [13, 10]) = v @ [13, 10]"
      by (rule before_comment_plain) (use p in auto)
    moreover have "striptrailing (v @ [13, 10]) = v"
      by (rule striptrailing_blank) (use b in \<open>simp_all add: blank_def\<close>)
    moreover have "hd v \<noteq> 34" using p F by (cases v) auto
    ultimately show ?thesis using s by (simp add: cleanstring_def Let_def)
  qed
qed

text \<open>A result shorter than two buffers is the same for both.\<close>

lemma save_strncpy_short:
  assumes "q \<noteq> QUOTE_ENQUOTE" "length (save_strncpy s m q) < n" "n \<le> m"
  shows "save_strncpy s n q = save_strncpy s m q"
proof -
  have *: "take (n - Suc 0) t = take (m - Suc 0) t" if "min (length t) (m - Suc 0) < n" for t :: bytes
  proof (cases "length t \<le> n - Suc 0")
    case False
    then have "m - Suc 0 < n" using that assms(3) by (simp add: min_def split: if_splits)
    then have "n - Suc 0 = m - Suc 0" using assms(3) by linarith
    then show ?thesis by simp
  qed (use assms(3) in simp)
  show ?thesis
    using assms by (cases q) (auto simp: save_strncpy_def dequote_loop_deq intro!: *)
qed

section \<open>Lines\<close>

definition is_line :: "bytes \<Rightarrow> bool" where
  "is_line l \<longleftrightarrow> l \<noteq> [] \<and> gets_line 255 l = l \<and> 0 \<notin> set l"

definition full_line :: "bytes \<Rightarrow> bool" where
  "full_line l \<longleftrightarrow> last l = 10 \<or> length l = 255"

text \<open>Every line but the last ends the way \<open>f_gets\<close> stops.\<close>

fun lines_ok :: "bytes list \<Rightarrow> bool" where
  "lines_ok [] \<longleftrightarrow> True"
| "lines_ok [l] \<longleftrightarrow> is_line l"
| "lines_ok (l # l' # ls) \<longleftrightarrow> is_line l \<and> full_line l \<and> lines_ok (l' # ls)"

lemma lines_ok_Cons: "lines_ok (l # ls) \<longleftrightarrow> is_line l \<and> (ls = [] \<or> full_line l) \<and> lines_ok ls"
  by (cases ls) auto

lemma lines_ok_append:
  "lines_ok (xs @ ys) \<longleftrightarrow> lines_ok xs \<and> lines_ok ys \<and> (xs = [] \<or> ys = [] \<or> full_line (last xs))"
  by (induction xs) (auto simp: lines_ok_Cons)

lemma gets_line_Nil [simp]: "gets_line n [] = []"
  by (cases n) simp_all

lemma gets_line_stop:
  "gets_line n l = l \<Longrightarrow> l \<noteq> [] \<Longrightarrow> last l = 10 \<or> length l = n \<Longrightarrow> gets_line n (l @ r) = l"
proof (induction n arbitrary: l)
  case (Suc n)
  then obtain c cs where l: "l = c # cs" by (cases l) auto
  show ?case
  proof (cases "c = 10")
    case True
    then show ?thesis using Suc.prems l by simp
  next
    case False
    then have "gets_line n cs = cs" "cs = [] \<longrightarrow> n = 0" "cs \<noteq> [] \<longrightarrow> last cs = 10 \<or> length cs = n"
      using Suc.prems l by auto
    then have "gets_line n (cs @ r) = cs" using Suc.IH [of cs] by (cases "cs = []") auto
    then show ?thesis using False l by simp
  qed
qed simp

lemma gets_line_smaller: "gets_line n l = l \<Longrightarrow> length l \<le> m \<Longrightarrow> gets_line m l = l"
proof (induction n arbitrary: l m)
  case (Suc n)
  then show ?case by (cases m; cases l) (auto split: if_splits)
qed simp

lemma length_gets_line_le: "length (gets_line n s) \<le> n"
  by (induction n arbitrary: s) (auto split: list.splits)

lemma is_line_length: "is_line l \<Longrightarrow> length l \<le> 255"
  using length_gets_line_le [of 255 l] by (simp add: is_line_def)

lemma gets_line_first:
  assumes "lines_ok (l # ls)" "length l \<le> m" "m \<le> 255"
  shows "gets_line m (l @ concat ls) = l"
proof -
  have i: "is_line l" "ls = [] \<or> full_line l" using assms(1) by (auto simp: lines_ok_Cons)
  then have g: "gets_line m l = l" using assms(2) gets_line_smaller by (auto simp: is_line_def)
  show ?thesis
  proof (cases "ls = []")
    case False
    then have "last l = 10 \<or> length l = m" using i assms by (auto simp: full_line_def)
    then show ?thesis using g i by (intro gets_line_stop) (auto simp: is_line_def)
  qed (simp add: g)
qed

text \<open>Every text without NULs is a list of such lines.\<close>

lemma gets_line_decompose:
  "s \<noteq> [] \<Longrightarrow> \<exists>l r. s = l @ r \<and> gets_line (Suc n) s = l \<and> l \<noteq> [] \<and> gets_line (Suc n) l = l
     \<and> (r = [] \<or> last l = 10 \<or> length l = Suc n)"
proof (induction n arbitrary: s)
  case 0
  then show ?case by (cases s) (auto intro!: exI [of _ "[hd s]"] exI [of _ "tl s"])
next
  case (Suc n)
  then obtain c cs where s: "s = c # cs" by (cases s) auto
  show ?case
  proof (cases "c = 10 \<or> cs = []")
    case True
    then show ?thesis using s by (intro exI [of _ "[c]"] exI [of _ cs]) auto
  next
    case False
    obtain l r where "cs = l @ r" "gets_line (Suc n) cs = l" "l \<noteq> []" "gets_line (Suc n) l = l"
      "r = [] \<or> last l = 10 \<or> length l = Suc n" using Suc.IH [of cs] False by blast
    then show ?thesis using s False by (intro exI [of _ "c # l"] exI [of _ r]) (simp del: gets_line.simps(2) add: gets_line.simps(2) [of "Suc n"])
  qed
qed

lemma text_lines: "0 \<notin> set t \<Longrightarrow> \<exists>ls. lines_ok ls \<and> concat ls = t"
proof (induction "length t" arbitrary: t rule: less_induct)
  case less
  show ?case
  proof (cases "t = []")
    case True
    then show ?thesis by (intro exI [of _ "[]"]) simp
  next
    case False
    obtain l r where d: "t = l @ r" "l \<noteq> []" "gets_line (Suc 254) l = l"
      "r = [] \<or> last l = 10 \<or> length l = Suc 254" using gets_line_decompose [OF False, of 254] by blast
    obtain ls where ls: "lines_ok ls" "concat ls = r" using less.hyps [of r] less.prems d by auto
    have "ls = []" if "r = []"
      using ls that by (cases ls) (auto simp: lines_ok_Cons is_line_def)
    then have "lines_ok (l # ls)"
      using d ls less.prems by (auto simp: lines_ok_Cons is_line_def full_line_def)
    then show ?thesis using ls d by (intro exI [of _ "l # ls"]) simp
  qed
qed

text \<open>A file read up to a line boundary.\<close>

definition at_line :: "bytes list \<Rightarrow> bytes list \<Rightarrow> fil" where
  "at_line pre post = \<lparr>f_text = concat pre @ concat post, fptr = length (concat pre)\<rparr>"

lemma at_line_open: "open_fil (concat ls) = at_line [] ls"
  by (simp add: open_fil_def at_line_def)

lemma ini_read_line:
  assumes "lines_ok (l # ls)" "length l < n" "n \<le> 256"
  shows "ini_read n (at_line pre (l # ls)) = (Some l, at_line (pre @ [l]) ls)"
proof -
  have "gets_line (n - 1) (l @ concat ls) = l" using assms by (intro gets_line_first) auto
  moreover have "cstr l = l" "l \<noteq> []" using assms(1) by (auto simp: lines_ok_Cons is_line_def)
  ultimately show ?thesis by (simp add: ini_read_def at_line_def Let_def)
qed

lemma ini_read_next:
  "lines_ok (l # ls) \<Longrightarrow> ini_read 256 (at_line pre (l # ls)) = (Some l, at_line (pre @ [l]) ls)"
  using is_line_length [of l] by (intro ini_read_line) (auto simp: lines_ok_Cons)

lemma ini_read_end: "ini_read n (at_line pre []) = (None, at_line pre [])"
  by (simp add: ini_read_def at_line_def)

section \<open>Finding an entry\<close>

definition is_head :: "bytes \<Rightarrow> bool" where
  "is_head l \<longleftrightarrow> ch0 (skipleading l) = 91"

definition is_sec :: "bytes \<Rightarrow> bytes \<Rightarrow> bool" where
  "is_sec S l \<longleftrightarrow> is_head l
     \<and> (case strchr (skipleading l) 93 of None \<Rightarrow> False | Some ep \<Rightarrow> section_match (skipleading l) S ep)"

definition is_key :: "bytes \<Rightarrow> bytes \<Rightarrow> bool" where
  "is_key K l \<longleftrightarrow> (case key_sep (skipleading l) of None \<Rightarrow> False | Some ep \<Rightarrow> key_match (skipleading l) K ep)"

lemma find_section_step:
  assumes "lines_ok (x # ls)" "- 1 \<le> idx"
  shows "\<exists>j\<ge>- 1. find_section S (- 1) idx (at_line pre (x # ls)) =
    (if is_sec S x then Some ((skipleading x, the (strchr (skipleading x) 93), j), at_line (pre @ [x]) ls)
     else find_section S (- 1) j (at_line (pre @ [x]) ls))"
  using assms(2) unfolding find_section.simps [of S "- 1" idx "at_line pre (x # ls)"]
  by (cases "is_sec S x") (auto simp: ini_read_next [OF assms(1)] is_sec_def is_head_def Let_def split: option.splits
      intro: exI [of _ idx] exI [of _ "idx + 1"])

lemma find_section_end: "find_section S (- 1) idx (at_line pre []) = None"
  by (subst find_section.simps) (simp add: ini_read_end)

lemma find_section_lines:
  assumes "lines_ok (xs @ s # ys)" "\<forall>x\<in>set xs. \<not> is_sec S x" "is_sec S s" "- 1 \<le> idx"
  shows "\<exists>ep i. find_section S (- 1) idx (at_line pre (xs @ s # ys))
    = Some ((skipleading s, ep, i), at_line (pre @ xs @ [s]) ys)"
  using assms
proof (induction xs arbitrary: pre idx)
  case Nil
  then show ?case using find_section_step [of s ys idx S pre] by auto
next
  case (Cons x xs)
  then obtain j where "- 1 \<le> j" "find_section S (- 1) idx (at_line pre (x # xs @ s # ys)) =
      find_section S (- 1) j (at_line (pre @ [x]) (xs @ s # ys))"
    using find_section_step [of x "xs @ s # ys" idx S pre] by auto
  then show ?case using Cons.IH [of j "pre @ [x]"] Cons.prems by (auto simp: lines_ok_Cons)
qed

lemma find_key_step:
  assumes "lines_ok (x # ls)" "- 1 \<le> idx" "\<not> is_head x"
  shows "\<exists>j\<ge>- 1. find_key K (- 1) idx (at_line pre (x # ls)) =
    (if is_key K x \<and> ch0 (skipleading x) \<notin> {35, 59} then Some (skipleading x, the (key_sep (skipleading x)), j)
     else find_key K (- 1) j (at_line (pre @ [x]) ls))"
  using assms(2,3) unfolding find_key.simps [of K "- 1" idx "at_line pre (x # ls)"]
  by (cases "is_key K x") (auto simp: ini_read_next [OF assms(1)] is_key_def is_head_def Let_def split: option.splits
      intro: exI [of _ idx] exI [of _ "idx + 1"])

lemma find_key_lines:
  assumes "lines_ok (us @ l # ws)" "\<forall>x\<in>set us. \<not> is_key K x \<and> \<not> is_head x" "is_key K l" "\<not> is_head l"
    "ch0 (skipleading l) \<notin> {35, 59}" "- 1 \<le> idx"
  shows "\<exists>i. find_key K (- 1) idx (at_line pre (us @ l # ws)) = Some (skipleading l, the (key_sep (skipleading l)), i)"
  using assms
proof (induction us arbitrary: pre idx)
  case Nil
  then show ?case using find_key_step [of l ws idx K pre] by auto
next
  case (Cons x xs)
  then obtain j where "- 1 \<le> j" "find_key K (- 1) idx (at_line pre (x # xs @ l # ws)) =
      find_key K (- 1) j (at_line (pre @ [x]) (xs @ l # ws))"
    using find_key_step [of x "xs @ l # ws" idx K pre] by auto
  then show ?case using Cons.IH [of j "pre @ [x]"] Cons.prems by (auto simp: lines_ok_Cons)
qed

section \<open>Copying\<close>

text \<open>\<open>copied t pre post c\<close>: \<open>pre\<close> has been read, and the output together with the cached lines is \<open>t\<close>.\<close>

definition copying :: "bytes \<Rightarrow> bytes list \<Rightarrow> bytes list \<Rightarrow> bytes list \<Rightarrow> ini_copy" where
  "copying out d cached post =
     \<lparr>c_rfp = at_line (d @ cached) post, c_out = out, c_mark = length (concat d), c_cache = length (concat cached)\<rparr>"

definition copied :: "bytes \<Rightarrow> bytes list \<Rightarrow> bytes list \<Rightarrow> ini_copy \<Rightarrow> bool" where
  "copied t pre post c \<longleftrightarrow>
     (\<exists>out d cached. pre = d @ cached \<and> c = copying out d cached post \<and> out @ concat cached = t
        \<and> length (concat cached) < 256)"

lemma flush_loop_lines:
  "lines_ok (cached @ post) \<Longrightarrow> length buf + length (concat cached) < 256 \<Longrightarrow>
     flush_loop (length buf + length (concat cached)) buf (at_line d (cached @ post))
       = Some (buf @ concat cached, at_line (d @ cached) post)"
proof (induction cached arbitrary: buf d)
  case Nil
  then show ?case by (subst flush_loop.simps) simp
next
  case (Cons l ls)
  have l: "is_line l" using Cons.prems by (simp add: lines_ok_Cons)
  then have "l \<noteq> []" by (simp add: is_line_def)
  moreover have "ini_read (256 - length buf) (at_line d (l # ls @ post)) = (Some l, at_line (d @ [l]) (ls @ post))"
    using Cons.prems by (intro ini_read_line) simp_all
  moreover have "flush_loop (length (buf @ l) + length (concat ls)) (buf @ l) (at_line (d @ [l]) (ls @ post))
      = Some ((buf @ l) @ concat ls, at_line ((d @ [l]) @ ls) post)"
    using Cons.prems by (intro Cons.IH) (simp_all add: lines_ok_Cons)
  ultimately show ?case by (subst flush_loop.simps) (simp add: add.assoc)
qed

lemma cache_flush_copied:
  assumes "copied t pre post c" "lines_ok (pre @ post)"
  shows "\<exists>flag c'. cache_flush (c\<lparr>c_rfp := (c_rfp c)\<lparr>fptr := p\<rparr>\<rparr>) = Some (flag, c') \<and> copied t pre post c' \<and> c_out c' = t
    \<and> c_cache c' = 0 \<and> c_rfp c' = at_line pre post \<and> c' = copying t pre [] post
    \<and> (flag \<longrightarrow> pre \<noteq> [] \<and> last (last pre) = 10)"
proof -
  obtain out d cached where c: "pre = d @ cached" "c = copying out d cached post" "out @ concat cached = t"
    "length (concat cached) < 256" using assms(1) by (auto simp: copied_def)
  have r: "(c_rfp (copying out d cached post))\<lparr>fptr := length (concat d)\<rparr> = at_line d (cached @ post)"
    by (simp add: copying_def at_line_def)
  have f: "flush_loop (length (concat cached)) [] (at_line d (cached @ post)) = Some (concat cached, at_line (d @ cached) post)"
    using flush_loop_lines [of cached post "[]" d] assms(2) c by (simp add: lines_ok_append)
  have e: "pre \<noteq> [] \<and> last (last pre) = 10"
    if "2 < length (concat cached)" "drop (length (concat cached) - 2) (concat cached) = INI_LINETERM"
  proof -
    have "cached \<noteq> []" using that by auto
    moreover have "last (concat cached) = 10"
      using that by (metis (no_types) INI_LINETERM_def last.simps last_drop diff_less length_greater_0_conv list.distinct(1)
        list.size(3) not_less_zero zero_less_numeral order_less_trans drop_eq_Nil linorder_not_le)
    moreover have "last (concat cached) = last (last cached)" if "cached \<noteq> []" "last cached \<noteq> []"
      using that by (cases cached rule: rev_cases) simp_all
    moreover have "last cached \<noteq> []" if "cached \<noteq> []"
      using assms(2) c(1) that by (cases cached rule: rev_cases) (auto simp: lines_ok_append lines_ok_Cons is_line_def)
    ultimately show ?thesis using c(1) by simp
  qed
  have "cache_flush (c\<lparr>c_rfp := (c_rfp c)\<lparr>fptr := p\<rparr>\<rparr>)
      = Some (2 < length (concat cached) \<and> drop (length (concat cached) - 2) (concat cached) = INI_LINETERM,
              copying t pre [] post)"
    using r f c by (simp add: cache_flush_def copying_def at_line_def)
  moreover have "copied t pre post (copying t pre [] post)"
    unfolding copied_def by (rule exI [of _ t], rule exI [of _ pre], rule exI [of _ "[]"]) simp
  ultimately show ?thesis using e by (auto simp: copying_def)
qed

lemma copied_rfp: "copied t pre post c \<Longrightarrow> c_rfp c = at_line pre post"
  by (auto simp: copied_def copying_def)

lemma at_line_move: "at_line (pre @ [l]) post = (at_line pre (l # post))\<lparr>fptr := length (concat (pre @ [l]))\<rparr>"
  by (simp add: at_line_def)

lemma cache_flush_past:
  assumes "copied t pre (l # post) c" "lines_ok (pre @ l # post)"
  shows "\<exists>flag. cache_flush (c\<lparr>c_rfp := at_line (pre @ [l]) post\<rparr>) = Some (flag, copying t pre [] (l # post))"
  using cache_flush_copied [OF assms, of "length (concat (pre @ [l]))"] copied_rfp [OF assms(1)]
  unfolding at_line_move by auto

lemma cache_flush_here:
  assumes "copied t pre post c" "lines_ok (pre @ post)"
  shows "\<exists>flag. cache_flush c = Some (flag, copying t pre [] post) \<and> (flag \<longrightarrow> pre \<noteq> [] \<and> last (last pre) = 10)"
proof -
  have "c\<lparr>c_rfp := (c_rfp c)\<lparr>fptr := fptr (c_rfp c)\<rparr>\<rparr> = c" by simp
  then show ?thesis using cache_flush_copied [OF assms, of "fptr (c_rfp c)"] by auto
qed

lemma copied_start: "copied t pre post (copying t pre [] post)"
  unfolding copied_def by (rule exI [of _ t], rule exI [of _ pre], rule exI [of _ "[]"]) simp

lemma copied_one:
  "length l < 256 \<Longrightarrow> copied (t @ l) (pre @ [l]) post (copying t pre [l] post)"
  unfolding copied_def by (rule exI [of _ t], rule exI [of _ pre], rule exI [of _ "[l]"]) simp

lemma copy_line_copied:
  assumes "copied t pre (l # post) c" "lines_ok (pre @ l # post)"
  shows "\<exists>c'. copy_line (length l) (c\<lparr>c_rfp := at_line (pre @ [l]) post\<rparr>) = Some c' \<and> copied (t @ l) (pre @ [l]) post c'"
proof -
  obtain out d cached where c: "pre = d @ cached" "c = copying out d cached (l # post)" "out @ concat cached = t"
    "length (concat cached) < 256" using assms(1) by (auto simp: copied_def)
  have l: "lines_ok (l # post)" "length l < 256"
    using assms(2) is_line_length [of l] by (auto simp: lines_ok_append lines_ok_Cons)
  show ?thesis
  proof (cases "length (concat cached) + length l < 256")
    case True
    let ?c' = "copying out d (cached @ [l]) post"
    have "copied (t @ l) (pre @ [l]) post ?c'"
      unfolding copied_def using c True by (intro exI [of _ out] exI [of _ d] exI [of _ "cached @ [l]"]) simp
    moreover have "copy_line (length l) (c\<lparr>c_rfp := at_line (pre @ [l]) post\<rparr>) = Some ?c'"
      using True c by (simp add: copy_line_def cache_accum_def copying_def)
    ultimately show ?thesis by blast
  next
    case False
    obtain flag where "cache_flush (c\<lparr>c_rfp := at_line (pre @ [l]) post\<rparr>) = Some (flag, copying t pre [] (l # post))"
      using cache_flush_past [OF assms] by blast
    then have "copy_line (length l) (c\<lparr>c_rfp := at_line (pre @ [l]) post\<rparr>) = Some (copying t pre [l] post)"
      using False c ini_read_next [OF l(1), of pre] l(2)
      by (simp add: copy_line_def cache_accum_def copying_def len0_def)
    then show ?thesis using copied_one [OF l(2), of t pre post] by blast
  qed
qed

text \<open>The three loops.\<close>

lemma copy_section_step:
  assumes "copied t pre (l # post) c" "lines_ok (pre @ l # post)"
  shows "\<exists>c'. copied (t @ l) (pre @ [l]) post c'
    \<and> copy_section S True c = (if is_sec S l then Some (True, c') else copy_section S True c')"
proof -
  obtain c' where c': "copy_line (length l) (c\<lparr>c_rfp := at_line (pre @ [l]) post\<rparr>) = Some c'"
    "copied (t @ l) (pre @ [l]) post c'" using copy_line_copied [OF assms] by blast
  have "ini_read 256 (c_rfp c) = (Some l, at_line (pre @ [l]) post)"
    using assms by (simp add: copied_rfp [OF assms(1)] ini_read_next lines_ok_append)
  then have "copy_section S True c = (if is_sec S l then Some (True, c') else copy_section S True c')"
    using c'(1) by (subst copy_section.simps) (simp add: Let_def is_sec_def is_head_def)
  then show ?thesis using c'(2) by blast
qed

lemma copy_section_found:
  assumes "copied t pre (xs @ s # ys) c" "lines_ok (pre @ xs @ s # ys)" "\<forall>x\<in>set xs. \<not> is_sec S x" "is_sec S s"
  shows "\<exists>c'. copy_section S True c = Some (True, c') \<and> copied (t @ concat xs @ s) (pre @ xs @ [s]) ys c'"
  using assms
proof (induction xs arbitrary: t pre c)
  case Nil
  then show ?case using copy_section_step [of t pre s ys c S] by auto
next
  case (Cons x xs)
  obtain c' where "copied (t @ x) (pre @ [x]) (xs @ s # ys) c'" "copy_section S True c = copy_section S True c'"
    using copy_section_step [of t pre x "xs @ s # ys" c S] Cons.prems by auto
  then show ?case using Cons.IH [of "t @ x" "pre @ [x]" c'] Cons.prems by auto
qed

lemma copy_section_none:
  assumes "copied t pre xs c" "lines_ok (pre @ xs)" "\<forall>x\<in>set xs. \<not> is_sec S x"
  shows "\<exists>c'. copy_section S True c = Some (False, c') \<and> copied (t @ concat xs) (pre @ xs) [] c'"
  using assms
proof (induction xs arbitrary: t pre c)
  case Nil
  have "c\<lparr>c_rfp := at_line pre []\<rparr> = c" using copied_rfp [OF Nil(1)] by simp
  moreover have "ini_read 256 (c_rfp c) = (None, at_line pre [])" using copied_rfp [OF Nil(1)] by (simp add: ini_read_end)
  ultimately show ?case using Nil by (subst copy_section.simps) auto
next
  case (Cons x xs)
  obtain c' where "copied (t @ x) (pre @ [x]) xs c'" "copy_section S True c = copy_section S True c'"
    using copy_section_step [of t pre x xs c S] Cons.prems by auto
  then show ?case using Cons.IH [of "t @ x" "pre @ [x]" c'] Cons.prems by auto
qed

definition stops :: "bytes \<Rightarrow> bytes \<Rightarrow> bool" where
  "stops K l \<longleftrightarrow> is_key K l \<or> is_head l"

lemma copy_keys_step:
  assumes "copied t pre (l # post) c" "lines_ok (pre @ l # post)"
  shows "\<exists>c'. copied (t @ l) (pre @ [l]) post c'
    \<and> copy_keys (Some K) c = (if stops K l then Some (Some (is_head l), c\<lparr>c_rfp := at_line (pre @ [l]) post\<rparr>)
        else copy_keys (Some K) c')"
proof -
  obtain c' where c': "copy_line (length l) (c\<lparr>c_rfp := at_line (pre @ [l]) post\<rparr>) = Some c'"
    "copied (t @ l) (pre @ [l]) post c'" using copy_line_copied [OF assms] by blast
  have "ini_read 256 (c_rfp c) = (Some l, at_line (pre @ [l]) post)"
    using assms by (simp add: copied_rfp [OF assms(1)] ini_read_next lines_ok_append)
  then have "copy_keys (Some K) c = (if stops K l then Some (Some (is_head l), c\<lparr>c_rfp := at_line (pre @ [l]) post\<rparr>)
        else copy_keys (Some K) c')"
    using c'(1) by (subst copy_keys.simps) (simp add: Let_def is_key_def is_head_def stops_def len0_def split: option.splits)
  then show ?thesis using c'(2) by blast
qed

lemma copy_keys_stop:
  assumes "copied t pre (us @ l # ws) c" "lines_ok (pre @ us @ l # ws)" "\<forall>x\<in>set us. \<not> stops K x" "stops K l"
  shows "\<exists>c'. copy_keys (Some K) c = Some (Some (is_head l), c'\<lparr>c_rfp := at_line (pre @ us @ [l]) ws\<rparr>)
    \<and> copied (t @ concat us) (pre @ us) (l # ws) c'"
  using assms
proof (induction us arbitrary: t pre c)
  case Nil
  then show ?case using copy_keys_step [of t pre l ws c K] by (intro exI [of _ c]) auto
next
  case (Cons x us)
  obtain c' where "copied (t @ x) (pre @ [x]) (us @ l # ws) c'" "copy_keys (Some K) c = copy_keys (Some K) c'"
    using copy_keys_step [of t pre x "us @ l # ws" c K] Cons.prems by auto
  then show ?case using Cons.IH [of "t @ x" "pre @ [x]" c'] Cons.prems by auto
qed

lemma copy_keys_none:
  assumes "copied t pre us c" "lines_ok (pre @ us)" "\<forall>x\<in>set us. \<not> stops K x"
  shows "\<exists>c'. copy_keys (Some K) c = Some (None, c') \<and> copied (t @ concat us) (pre @ us) [] c'"
  using assms
proof (induction us arbitrary: t pre c)
  case Nil
  have "c\<lparr>c_rfp := at_line pre []\<rparr> = c" using copied_rfp [OF Nil(1)] by simp
  moreover have "ini_read 256 (c_rfp c) = (None, at_line pre [])" using copied_rfp [OF Nil(1)] by (simp add: ini_read_end)
  ultimately show ?case using Nil by (subst copy_keys.simps) auto
next
  case (Cons x us)
  obtain c' where "copied (t @ x) (pre @ [x]) us c'" "copy_keys (Some K) c = copy_keys (Some K) c'"
    using copy_keys_step [of t pre x us c K] Cons.prems by auto
  then show ?case using Cons.IH [of "t @ x" "pre @ [x]" c'] Cons.prems by auto
qed

lemma copy_rest_copied:
  assumes "copied t pre xs c" "lines_ok (pre @ xs)"
  shows "\<exists>c'. copy_rest c = Some c' \<and> copied (t @ concat xs) (pre @ xs) [] c'"
  using assms
proof (induction xs arbitrary: t pre c)
  case Nil
  have "c\<lparr>c_rfp := at_line pre []\<rparr> = c" using copied_rfp [OF Nil(1)] by simp
  moreover have "ini_read 256 (c_rfp c) = (None, at_line pre [])" using copied_rfp [OF Nil(1)] by (simp add: ini_read_end)
  ultimately show ?case using Nil by (subst copy_rest.simps) auto
next
  case (Cons x xs)
  obtain c' where c': "copy_line (length x) (c\<lparr>c_rfp := at_line (pre @ [x]) xs\<rparr>) = Some c'"
    "copied (t @ x) (pre @ [x]) xs c'" using copy_line_copied [of t pre x xs c] Cons.prems by blast
  have "ini_read 256 (c_rfp c) = (Some x, at_line (pre @ [x]) xs)"
    using Cons.prems by (simp add: copied_rfp [OF Cons.prems(1)] ini_read_next lines_ok_append)
  then have "copy_rest c = copy_rest c'" using c'(1) by (subst copy_rest.simps) simp
  then show ?case using Cons.IH [of "t @ x" "pre @ [x]" c'] Cons.prems c'(2) by auto
qed

section \<open>A change of the file\<close>

lemma len0_simps [simp]: "len0 (Some s) = s" "len0 None = []"
  by (simp_all add: len0_def)

lemma copying_fields [simp]:
  "c_out (copying t d cached post) = t" "c_rfp (copying t d cached post) = at_line (d @ cached) post"
  "c_cache (copying t d cached post) = length (concat cached)" "c_mark (copying t d cached post) = length (concat d)"
  by (simp_all add: copying_def)

lemma copying_init: "\<lparr>c_rfp = open_fil (concat ls), c_out = [], c_mark = 0, c_cache = 0\<rparr> = copying [] [] [] ls"
  by (simp add: copying_def at_line_open)

text \<open>A new section goes to the end of the file.\<close>

lemma copy_file_new_section:
  assumes "lines_ok ls" "S \<noteq> []" "\<forall>x\<in>set ls. \<not> is_sec S x"
  shows "\<exists>flag. copy_file (Some S) (Some K) (Some V) (concat ls)
      = Some (concat ls @ (if flag then [] else INI_LINETERM) @ writesection (Some S) @ writekey K V)
    \<and> (flag \<longrightarrow> ls \<noteq> [] \<and> last (last ls) = 10)"
proof -
  obtain c where c: "copy_section S True (copying [] [] [] ls) = Some (False, c)" "copied (concat ls) ls [] c"
    using copy_section_none [OF copied_start, of "[]" ls S "[]"] assms by auto
  obtain flag where f: "cache_flush c = Some (flag, copying (concat ls) ls [] [])" "flag \<longrightarrow> ls \<noteq> [] \<and> last (last ls) = 10"
    using cache_flush_here [OF c(2)] assms(1) by auto
  have "copy_file (Some S) (Some K) (Some V) (concat ls) = Some (concat ls @ append_entry flag (Some S) (Some K) (Some V))"
    using c(1) f(1) assms(2) by (simp add: copy_file_def copying_init)
  then show ?thesis using f(2) by (auto simp: append_entry_def)
qed

lemma copy_file_section:
  assumes "lines_ok (xs @ s # ys)" "S \<noteq> []" "\<forall>x\<in>set xs. \<not> is_sec S x" "is_sec S s"
  shows "copy_file (Some S) (Some K) V (concat (xs @ s # ys))
    = copy_entry (Some K) V (copying (concat (xs @ [s])) (xs @ [s]) [] ys)"
proof -
  obtain c where c: "copy_section S True (copying [] [] [] (xs @ s # ys)) = Some (True, c)"
    "copied (concat xs @ s) (xs @ [s]) ys c"
    using copy_section_found [OF copied_start, of "[]" xs s ys S "[]"] assms by auto
  obtain flag where "cache_flush c = Some (flag, copying (concat xs @ s) (xs @ [s]) [] ys)"
    using cache_flush_here [OF c(2)] assms(1) by auto
  then show ?thesis using c(1) assms(2) copying_init [of "xs @ s # ys"] by (simp add: copy_file_def)
qed

text \<open>A new key goes to the end of the file when its section is the last.\<close>

lemma copy_file_new_key:
  assumes "lines_ok (xs @ s # ys)" "S \<noteq> []" "\<forall>x\<in>set xs. \<not> is_sec S x" "is_sec S s" "\<forall>x\<in>set ys. \<not> stops K x"
  shows "\<exists>flag. copy_file (Some S) (Some K) (Some V) (concat (xs @ s # ys))
      = Some (concat (xs @ s # ys) @ (if flag then [] else INI_LINETERM) @ writekey K V)
    \<and> (flag \<longrightarrow> last (last (s # ys)) = 10)"
proof -
  have l: "lines_ok ((xs @ [s]) @ ys)" using assms(1) by simp
  obtain c where c: "copy_keys (Some K) (copying (concat (xs @ [s])) (xs @ [s]) [] ys) = Some (None, c)"
    "copied (concat (xs @ [s]) @ concat ys) ((xs @ [s]) @ ys) [] c"
    using copy_keys_none [OF copied_start l assms(5)] by blast
  obtain flag where f: "cache_flush c = Some (flag, copying (concat (xs @ s # ys)) (xs @ s # ys) [] [])"
    "flag \<longrightarrow> last (last (s # ys)) = 10"
    using cache_flush_here [OF c(2)] assms(1) by (auto simp: last_append split: if_splits)
  have "copy_file (Some S) (Some K) (Some V) (concat (xs @ s # ys))
      = Some (concat (xs @ s # ys) @ append_entry flag None (Some K) (Some V))"
    unfolding copy_file_section [OF assms(1-4)] using c(1) f(1) by (simp add: copy_entry_def)
  then show ?thesis using f(2) by (auto simp: append_entry_def writesection_def)
qed

text \<open>Otherwise the entry replaces the line of its key, or is inserted before the next section.\<close>

lemma copy_file_change:
  assumes "lines_ok (xs @ s # us @ l # ws)" "S \<noteq> []" "\<forall>x\<in>set xs. \<not> is_sec S x" "is_sec S s"
    "\<forall>x\<in>set us. \<not> stops K x" "stops K l"
  shows "copy_file (Some S) (Some K) (Some V) (concat (xs @ s # us @ l # ws))
      = Some (concat (xs @ s # us) @ writekey K V @ (if is_head l then l else []) @ concat ws)"
proof -
  let ?pre = "(xs @ [s]) @ us" and ?out = "concat (xs @ [s]) @ concat us"
  have ok: "lines_ok ((xs @ [s]) @ us @ l # ws)" "lines_ok (?pre @ l # ws)" "lines_ok ((?pre @ [l]) @ ws)"
    using assms(1) by simp_all
  have ok': "lines_ok (l # ws)" using ok(2) unfolding lines_ok_append [of ?pre] by blast
  obtain c where c: "copy_keys (Some K) (copying (concat (xs @ [s])) (xs @ [s]) [] (us @ l # ws))
      = Some (Some (is_head l), c\<lparr>c_rfp := at_line ((xs @ [s]) @ us @ [l]) ws\<rparr>)" "copied ?out ?pre (l # ws) c"
    using copy_keys_stop [OF copied_start ok(1) assms(5,6)] by blast
  obtain flag where f: "cache_flush (c\<lparr>c_rfp := at_line (?pre @ [l]) ws\<rparr>) = Some (flag, copying ?out ?pre [] (l # ws))"
    using cache_flush_past [OF c(2) ok(2)] by blast
  have r: "ini_read 256 (at_line ?pre (l # ws)) = (Some l, at_line (?pre @ [l]) ws)" using ini_read_next [OF ok'] .
  let ?t = "?out @ writekey K V @ (if is_head l then l else [])"
  let ?c = "if is_head l then copying (?out @ writekey K V) ?pre [l] ws else copying (?out @ writekey K V) (?pre @ [l]) [] ws"
  have l: "length l < 256" using ok' is_line_length [of l] by (simp add: lines_ok_Cons)
  have "copied ?t (?pre @ [l]) ws ?c"
    using copied_one [OF l, of "?out @ writekey K V" ?pre ws] copied_start [of "?out @ writekey K V" "?pre @ [l]" ws] by simp
  then obtain c' where c': "copy_rest ?c = Some c'" "copied (?t @ concat ws) ((?pre @ [l]) @ ws) [] c'"
    using copy_rest_copied [OF _ ok(3)] by blast
  obtain flag' where f': "cache_flush c' = Some (flag', copying (?t @ concat ws) ((?pre @ [l]) @ ws) [] [])"
    using cache_flush_here [OF c'(2)] ok(3) by auto
  have "copy_rest (if is_head l then snd (cache_accum (length l) ((copying ?out ?pre [] (l # ws))\<lparr>c_rfp := at_line (?pre @ [l]) ws, c_out := ?out @ writekey K V\<rparr>))
      else (copying ?out ?pre [] (l # ws))\<lparr>c_rfp := at_line (?pre @ [l]) ws, c_out := ?out @ writekey K V, c_mark := fptr (at_line (?pre @ [l]) ws)\<rparr>) = Some c'"
    using l c'(1) by (simp add: cache_accum_def copying_def at_line_def split: if_splits)
  then show ?thesis
    unfolding copy_file_section [OF assms(1-4)] using c(1) f r f'
    by (cases "is_head l") (simp_all add: copy_entry_def)
qed

section \<open>The lines written\<close>

definition section_ok :: "bytes \<Rightarrow> bool" where
  "section_ok S \<longleftrightarrow> S \<noteq> [] \<and> set S \<inter> {0, 10, 93} = {} \<and> length S \<le> 251"

definition key_ok :: "bytes \<Rightarrow> bool" where
  "key_ok K \<longleftrightarrow> K \<noteq> [] \<and> set K \<inter> {0, 10, 61} = {} \<and> hd K \<notin> {35, 59, 91} \<and> \<not> blank (hd K) \<and> \<not> blank (last K)"

text \<open>The entry fits into the line buffer.\<close>

definition entry_ok :: "bytes \<Rightarrow> bytes \<Rightarrow> bool" where
  "entry_ok K V \<longleftrightarrow> key_ok K \<and> value_ok V \<and> length K + length (stored V) + 4 \<le> 256"

lemma gets_line_nl: "10 \<notin> set x \<Longrightarrow> length x < n \<Longrightarrow> gets_line n (x @ [10]) = x @ [10]"
proof (induction x arbitrary: n)
  case Nil
  then show ?case by (cases n) simp_all
next
  case (Cons c cs)
  then show ?case by (cases n) simp_all
qed

lemma is_line_nl: "set x \<inter> {0, 10} = {} \<Longrightarrow> length x < 255 \<Longrightarrow> is_line (x @ [10]) \<and> full_line (x @ [10])"
  using gets_line_nl [of x 255] by (simp add: is_line_def full_line_def)

lemma strchr_first: "c \<notin> set x \<Longrightarrow> strchr (x @ c # r) c = Some (length x)"
  by (induction x) (auto simp: strchr_def)

lemma length_stored: "length (stored V) \<ge> length V"
proof -
  have "length V \<le> length (esc V)" by (induction V) auto
  then show ?thesis by (simp add: stored_def)
qed

lemma set_stored: "set (stored V) \<subseteq> set V \<union> {34, 92}"
  using set_esc [of V] by (auto simp: stored_def split: if_splits)

lemma writekey_line:
  assumes "entry_ok K V"
  shows "writekey K V = K @ 61 # stored V @ [13, 10]"
proof -
  have len: "length K + length (stored V) \<le> 252" using assms by (simp add: entry_ok_def)
  have k: "save_strncpy K (256 - 3) QUOTE_NONE = K" using len by (simp add: save_strncpy_def)
  have m: "256 - length (K @ [61::u8]) - 2 = 253 - length K" by simp
  have "save_strncpy V (253 - length K) (check_enquote V) = stored V"
  proof (cases "check_enquote V = QUOTE_ENQUOTE")
    case True
    then have "2 + length (esc V) + length K \<le> 252" using len by (simp add: stored_def)
    moreover from this have "enquote_loop (253 - length K) 1 V = esc V" by (intro enquote_loop_esc) linarith
    ultimately show ?thesis using True by (simp add: save_strncpy_def stored_def)
  next
    case False
    then have "check_enquote V = QUOTE_NONE" "stored V = V" by (simp_all add: check_enquote_def stored_def split: if_splits)
    then show ?thesis using len by (simp add: save_strncpy_def)
  qed
  then show ?thesis by (simp only: writekey_def k m Let_def INI_LINETERM_def) simp
qed

lemma skiptrailing_key: "K \<noteq> [] \<Longrightarrow> \<not> blank (last K) \<Longrightarrow> skiptrailing (K @ r) (length K) = length K"
  by (cases K rule: rev_cases) (simp_all add: skiptrailing_def)

lemma key_line:
  assumes "entry_ok K V"
  shows "is_line (writekey K V)" "full_line (writekey K V)" "is_key K (writekey K V)" "\<not> is_head (writekey K V)"
    "skipleading (writekey K V) = K @ 61 # stored V @ [13, 10]" "key_sep (K @ 61 # stored V @ [13, 10]) = Some (length K)"
    "ch0 (K @ 61 # stored V @ [13, 10]) \<notin> {35, 59}"
proof -
  let ?l = "K @ 61 # stored V @ [13, 10]"
  have w: "writekey K V = ?l" by (rule writekey_line [OF assms])
  have K: "K \<noteq> []" "set K \<inter> {0, 10, 61} = {}" "hd K \<notin> {35, 59, 91}" "\<not> blank (hd K)" "\<not> blank (last K)"
    and v: "set V \<inter> {0, 10} = {}" and len: "length K + length (stored V) + 4 \<le> 256"
    using assms by (auto simp: entry_ok_def key_ok_def value_ok_def)
  have set: "set (stored V) \<inter> {0, 10} = {}" using v set_stored [of V] by auto
  have "is_line ((K @ 61 # stored V @ [13]) @ [10]) \<and> full_line ((K @ 61 # stored V @ [13]) @ [10])"
    by (rule is_line_nl) (use K set len in auto)
  then show "is_line (writekey K V)" "full_line (writekey K V)" using w by simp_all
  show sl: "skipleading (writekey K V) = ?l" unfolding w by (rule skipleading_id) (use K in \<open>cases K; simp\<close>)+
  show ks: "key_sep ?l = Some (length K)" using strchr_first [of 61 K] K by (simp add: key_sep_def)
  have h: "ch0 ?l = hd K" using K by (cases K) simp_all
  then show "ch0 ?l \<notin> {35, 59}" using K by simp
  show "\<not> is_head (writekey K V)" using h K sl by (simp add: is_head_def)
  have "strnicmp ?l K (length K) = 0" using K set by (subst strnicmp_eq) auto
  then have "key_match ?l K (length K)" using K skiptrailing_key [of K] by (simp add: key_match_def)
  then show "is_key K (writekey K V)" using sl ks by (simp add: is_key_def)
qed

lemma section_line:
  assumes "section_ok S"
  shows "is_line (writesection (Some S))" "full_line (writesection (Some S))" "is_sec S (writesection (Some S))"
proof -
  let ?l = "91 # S @ [93, 13, 10]"
  have S: "S \<noteq> []" "set S \<inter> {0, 10, 93} = {}" "length S \<le> 251" using assms by (auto simp: section_ok_def)
  then have w: "writesection (Some S) = ?l" by (simp add: writesection_def save_strncpy_def INI_LINETERM_def)
  have "is_line ((91 # S @ [93, 13]) @ [10]) \<and> full_line ((91 # S @ [93, 13]) @ [10])"
    by (rule is_line_nl) (use S in auto)
  then show "is_line (writesection (Some S))" "full_line (writesection (Some S))" using w by simp_all
  have sl: "skipleading ?l = ?l" by (simp add: skipleading_def blank_def)
  have "strchr ((91 # S) @ 93 # [13, 10]) 93 = Some (length (91 # S))" by (rule strchr_first) (use S in auto)
  then have c: "strchr ?l 93 = Some (Suc (length S))" by simp
  have "strnicmp (S @ [93, 13, 10]) S (length S) = 0" using S by (subst strnicmp_eq) auto
  then have "section_match ?l S (Suc (length S))" by (simp add: section_match_def)
  then show "is_sec S (writesection (Some S))" using w sl c by (simp add: is_sec_def is_head_def)
qed

text \<open>An entry behind the first head of its section, and before any other line that would end the search, is found.\<close>

lemma get_entry_found:
  assumes "lines_ok (xs @ s # us @ writekey K V # ws)" "\<forall>x\<in>set xs. \<not> is_sec S x" "is_sec S s"
    "\<forall>x\<in>set us. \<not> stops K x" "entry_ok K V" "section_ok S" "length V < n"
  shows "getkeystring (open_fil (concat (xs @ s # us @ writekey K V # ws))) (Some S) (Some K) (- 1) (- 1) n = Some V"
proof -
  note kl = key_line [OF assms(5)]
  have S: "S \<noteq> []" using assms(6) by (simp add: section_ok_def)
  obtain ep i where f: "find_section S (- 1) (- 1) (at_line [] (xs @ s # us @ writekey K V # ws))
      = Some ((skipleading s, ep, i), at_line (xs @ [s]) (us @ writekey K V # ws))"
    using find_section_lines [OF assms(1-3), of "- 1" "[]"] by auto
  have ok: "lines_ok (us @ writekey K V # ws)" using assms(1) by (simp add: lines_ok_append lines_ok_Cons)
  obtain j where k: "find_key K (- 1) (- 1) (at_line (xs @ [s]) (us @ writekey K V # ws))
      = Some (K @ 61 # stored V @ [13, 10], length K, j)"
    using find_key_lines [OF ok, of K "- 1" "xs @ [s]"] assms(4) kl by (auto simp: stops_def)
  obtain t q where c: "cleanstring (skipleading (stored V @ [13, 10])) = (t, q)"
    "q = QUOTE_NONE \<and> t = V \<or> q = QUOTE_DEQUOTE \<and> deq t = V"
    using clean_stored [of V] assms(5) by (auto simp: entry_ok_def)
  have "save_strncpy t n q = V" using c(2) assms(7) by (auto simp: save_strncpy_def dequote_loop_deq)
  then show ?thesis using f k c S
    by (simp add: getkeystring_def get_entry_def at_line_open [of "xs @ s # us @ writekey K V # ws", simplified])
qed

section \<open>Ending the last line\<close>

lemma gets_line_plain: "10 \<notin> set x \<Longrightarrow> length x \<le> n \<Longrightarrow> gets_line n x = x"
proof (induction x arbitrary: n)
  case (Cons c cs)
  then show ?case by (cases n) simp_all
qed simp

lemma gets_line_newline: "gets_line n l = l \<Longrightarrow> l \<noteq> [] \<Longrightarrow> last l \<noteq> 10 \<Longrightarrow> 10 \<notin> set l"
proof (induction n arbitrary: l)
  case (Suc n)
  then obtain c cs where l: "l = c # cs" by (cases l) auto
  then show ?case using Suc by (cases "cs = []") (auto split: if_splits)
qed simp

lemma end_line:
  assumes "is_line l" "flag \<longrightarrow> last l = 10"
  shows "\<exists>b r. (\<forall>c\<in>set b. blank c) \<and> (\<forall>x\<in>set r. \<forall>c\<in>set x. blank c) \<and> lines_ok ((l @ b) # r)
    \<and> full_line (last ((l @ b) # r)) \<and> concat ((l @ b) # r) = l @ (if flag then [] else INI_LINETERM)"
proof -
  have crlf: "is_line [13, 10]" "full_line [13, 10]" "is_line [10]" "full_line [10]"
    using is_line_nl [of "[13]"] is_line_nl [of "[]"] by simp_all
  have bl: "blank 13" "blank 10" by (simp_all add: blank_def)
  consider "flag" | "\<not> flag" "full_line l" | "\<not> flag" "\<not> full_line l" "length l < 254" | "\<not> flag" "\<not> full_line l" "length l = 254"
    using is_line_length [OF assms(1)] by (fastforce simp: full_line_def)
  then show ?thesis
  proof cases
    case 1
    then show ?thesis using assms by (intro exI [of _ "[]"]) (simp add: full_line_def)
  next
    case 2
    then show ?thesis using assms crlf bl
      by (intro exI [of _ "[]"] exI [of _ "[[13, 10]]"]) (simp add: INI_LINETERM_def)
  next
    case 3
    have "set (l @ [13]) \<inter> {0, 10} = {}"
      using 3 assms(1) gets_line_newline [of 255 l] by (auto simp: is_line_def full_line_def)
    then have "is_line ((l @ [13]) @ [10]) \<and> full_line ((l @ [13]) @ [10])" using 3 by (intro is_line_nl) auto
    then show ?thesis using 3 bl by (intro exI [of _ "[13, 10]"] exI [of _ "[]"]) (simp add: INI_LINETERM_def)
  next
    case 4
    have "10 \<notin> set (l @ [13])" "0 \<notin> set (l @ [13])"
      using 4 assms(1) gets_line_newline [of 255 l] by (auto simp: is_line_def full_line_def)
    then have "is_line (l @ [13])" "full_line (l @ [13])"
      using 4 gets_line_plain [of "l @ [13]" 255] by (simp_all add: is_line_def full_line_def)
    then show ?thesis using 4 bl crlf
      by (intro exI [of _ "[13]"] exI [of _ "[[10]]"]) (simp add: INI_LINETERM_def)
  qed
qed

text \<open>Blanks at the end of a line do not change what it is.\<close>

lemma skipleading_append:
  "\<forall>c\<in>set b. blank c \<Longrightarrow> skipleading (l @ b) = (if skipleading l = [] then [] else skipleading l @ b)"
  by (auto simp: skipleading_def dropWhile_append)

lemma strchr_blank: "\<forall>c\<in>set b. blank c \<Longrightarrow> \<not> blank x \<Longrightarrow> strchr (s @ b) x = strchr s x"
  using strchr_append [of s b x] by (auto simp: strchr_def split: option.splits)

lemma strchr_less: "strchr s c = Some i \<Longrightarrow> i < length s"
  by (induction s arbitrary: i) (auto simp: strchr_def split: if_splits)

lemma strchr_Nil [simp]: "strchr [] c = None"
  by (simp add: strchr_def)

lemma take_strnicmp:
  "0 \<notin> set (s @ b) \<Longrightarrow> 0 \<notin> set t \<Longrightarrow> n \<le> length s \<Longrightarrow> strnicmp (s @ b) t n = 0 \<longleftrightarrow> strnicmp s t n = 0"
  by (simp add: strnicmp_eq)

lemma skipleading_no_nul: "0 \<notin> set l \<Longrightarrow> 0 \<notin> set (skipleading l)"
  by (auto simp: skipleading_def dest: set_dropWhileD)

lemma blank_end:
  assumes "\<forall>c\<in>set b. blank c" "0 \<notin> set l" "0 \<notin> set S" "0 \<notin> set K"
  shows "is_head (l @ b) = is_head l" "is_sec S (l @ b) = is_sec S l" "is_key K (l @ b) = is_key K l"
proof -
  let ?s = "skipleading l"
  have b0: "0 \<notin> set b" using assms(1) by (auto simp: blank_def)
  have s0: "0 \<notin> set ?s" by (rule skipleading_no_nul [OF assms(2)])
  have nb: "\<not> blank 93" "\<not> blank 61" "\<not> blank 58" by (simp_all add: blank_def)
  show h: "is_head (l @ b) = is_head l"
    using skipleading_append [OF assms(1), of l] by (auto simp: is_head_def ch0_append)
  show "is_sec S (l @ b) = is_sec S l"
  proof (cases "?s = []")
    case False
    have "section_match (?s @ b) S ep = section_match ?s S ep" if "strchr ?s 93 = Some ep" for ep
    proof -
      have "strnicmp (tl ?s @ b) S (length S) = 0 \<longleftrightarrow> strnicmp (tl ?s) S (length S) = 0"
        if "int ep - 1 = int (length S)"
        using that strchr_less [OF \<open>strchr ?s 93 = Some ep\<close>] s0 b0 assms(3)
        by (intro take_strnicmp) (auto dest: list.set_sel(2) [OF False])
      then show ?thesis using False by (auto simp: section_match_def)
    qed
    then show ?thesis using False h skipleading_append [OF assms(1), of l] strchr_blank [OF assms(1) nb(1), of ?s]
      by (simp add: is_sec_def split: option.splits)
  qed (use h skipleading_append [OF assms(1), of l] in \<open>simp add: is_sec_def\<close>)
  show "is_key K (l @ b) = is_key K l"
  proof (cases "?s = []")
    case False
    have ks: "key_sep (?s @ b) = key_sep ?s" using strchr_blank [OF assms(1)] nb by (simp add: key_sep_def split: option.splits)
    have "key_match (?s @ b) K ep = key_match ?s K ep" if "key_sep ?s = Some ep" for ep
    proof -
      have ep: "ep < length ?s" using that by (auto simp: key_sep_def dest: strchr_less split: option.splits)
      then have e: "skiptrailing (?s @ b) ep = skiptrailing ?s ep" by (simp add: skiptrailing_def)
      have "skiptrailing ?s ep \<le> ep"
        using length_dropWhile_le [of blank "rev (take ep ?s)"] by (simp add: skiptrailing_def)
      then have "strnicmp (?s @ b) K (length K) = 0 \<longleftrightarrow> strnicmp ?s K (length K) = 0"
        if "skiptrailing ?s ep = length K"
        using that ep s0 b0 assms(4) by (intro take_strnicmp) auto
      then show ?thesis using e by (auto simp: key_match_def)
    qed
    then show ?thesis using False ks skipleading_append [OF assms(1), of l]
      by (simp add: is_key_def split: option.splits)
  qed (use skipleading_append [OF assms(1), of l] in \<open>simp add: is_key_def key_sep_def\<close>)
qed

lemma blank_line:
  assumes "\<forall>c\<in>set x. blank c"
  shows "\<not> is_head x" "\<not> is_sec S x" "\<not> is_key K x" "\<not> stops K x"
proof -
  have "skipleading x = []" using assms by (simp add: skipleading_def)
  then show "\<not> is_head x" "\<not> is_sec S x" "\<not> is_key K x" "\<not> stops K x"
    by (simp_all add: is_head_def is_sec_def is_key_def stops_def key_sep_def strchr_def)
qed

end
