(* ===== verification/Mini_Ini_Map.thy ===== *)
theory Mini_Ini_Map
  imports Mini_Ini_Facts
begin

text \<open>
  The settings file is a map: the value written to an entry is the one read, and every other
  entry keeps its value. \<open>look_sec\<close> is the map a list of lines stands for.
\<close>

section \<open>The map of a file\<close>

definition value_of :: "bytes \<Rightarrow> bytes \<times> quote_option" where
  "value_of l = (let sp = skipleading l in cleanstring (skipleading (drop (the (key_sep sp) + 1) sp)))"

definition entry_line :: "bytes \<Rightarrow> bytes \<Rightarrow> bool" where
  "entry_line K l \<longleftrightarrow> is_key K l \<and> ch0 (skipleading l) \<notin> {35, 59}"

fun look_key :: "bytes \<Rightarrow> bytes list \<Rightarrow> (bytes \<times> quote_option) option" where
  "look_key K [] = None"
| "look_key K (l # ls) =
     (if is_head l then None else if entry_line K l then Some (value_of l) else look_key K ls)"

fun look_sec :: "bytes \<Rightarrow> bytes \<Rightarrow> bytes list \<Rightarrow> (bytes \<times> quote_option) option" where
  "look_sec S K [] = None"
| "look_sec S K (l # ls) = (if is_sec S l then look_key K ls else look_sec S K ls)"

definition look :: "nat \<Rightarrow> bytes \<Rightarrow> bytes \<Rightarrow> bytes list \<Rightarrow> bytes option" where
  "look n S K ls = map_option (\<lambda>(v, q). save_strncpy v n q) (look_sec S K ls)"

lemma find_key_look:
  "lines_ok ls \<Longrightarrow> - 1 \<le> idx \<Longrightarrow>
     map_option (\<lambda>(sp, ep, i). cleanstring (skipleading (drop (ep + 1) sp))) (find_key K (- 1) idx (at_line pre ls))
       = look_key K ls"
proof (induction ls arbitrary: pre idx)
  case Nil
  then show ?case by (subst find_key.simps) (simp add: ini_read_end)
next
  case (Cons l ls)
  show ?case
  proof (cases "is_head l")
    case True
    then show ?thesis by (subst find_key.simps) (simp add: ini_read_next [OF Cons.prems(1)] is_head_def)
  next
    case False
    obtain j where "- 1 \<le> j" "find_key K (- 1) idx (at_line pre (l # ls)) =
        (if is_key K l \<and> ch0 (skipleading l) \<notin> {35, 59} then Some (skipleading l, the (key_sep (skipleading l)), j)
         else find_key K (- 1) j (at_line (pre @ [l]) ls))"
      using find_key_step [OF Cons.prems(1,2) False] by blast
    then show ?thesis using Cons.IH [of j "pre @ [l]"] Cons.prems False
      by (auto simp: lines_ok_Cons entry_line_def value_of_def Let_def)
  qed
qed

lemma find_section_look:
  "lines_ok ls \<Longrightarrow> - 1 \<le> idx \<Longrightarrow>
     Option.bind (find_section S (- 1) idx (at_line pre ls)) (\<lambda>(x, f). get_entry (Some K) (- 1) n f) = look n S K ls"
proof (induction ls arbitrary: pre idx)
  case Nil
  then show ?case by (simp add: find_section_end look_def)
next
  case (Cons l ls)
  obtain j where "- 1 \<le> j" "find_section S (- 1) idx (at_line pre (l # ls)) =
    (if is_sec S l then Some ((skipleading l, the (strchr (skipleading l) 93), j), at_line (pre @ [l]) ls)
     else find_section S (- 1) j (at_line (pre @ [l]) ls))"
    using find_section_step [OF Cons.prems] by blast
  moreover have "get_entry (Some K) (- 1) n (at_line (pre @ [l]) ls) = map_option (\<lambda>(v, q). save_strncpy v n q) (look_key K ls)"
  proof -
    have "look_key K ls = map_option (\<lambda>(sp, ep, i). cleanstring (skipleading (drop (ep + 1) sp)))
        (find_key K (- 1) (- 1) (at_line (pre @ [l]) ls))"
      using find_key_look [of ls "- 1" K "pre @ [l]"] Cons.prems by (simp add: lines_ok_Cons)
    then show ?thesis
      by (cases "find_key K (- 1) (- 1) (at_line (pre @ [l]) ls)") (auto simp: get_entry_def split: prod.splits)
  qed
  ultimately show ?case using Cons.IH [of j "pre @ [l]"] Cons.prems by (auto simp: look_def lines_ok_Cons)
qed

lemma getkeystring_look:
  assumes "lines_ok ls" "S \<noteq> []"
  shows "getkeystring (open_fil (concat ls)) (Some S) (Some K) (- 1) (- 1) n = look n S K ls"
  using find_section_look [OF assms(1), of "- 1" S "[]" K n] assms(2)
  by (cases "find_section S (- 1) (- 1) (at_line [] ls)") (auto simp: getkeystring_def at_line_open)

section \<open>Changes that keep an entry\<close>

definition same_text :: "bytes \<Rightarrow> bytes \<Rightarrow> bool" where
  "same_text a b \<longleftrightarrow> map toupper a = map toupper b"

lemma is_sec_unique:
  assumes "is_sec S l" "is_sec S' l" "0 \<notin> set l" "0 \<notin> set S" "0 \<notin> set S'"
  shows "same_text S S'"
proof -
  let ?t = "tl (skipleading l)"
  obtain ep where ep: "int ep - 1 = int (length S)" "int ep - 1 = int (length S')"
    "strnicmp ?t S (length S) = 0" "strnicmp ?t S' (length S') = 0"
    using assms(1,2) by (auto simp: is_sec_def section_match_def split: option.splits)
  have "0 \<notin> set ?t" using skipleading_no_nul [OF assms(3)] by (cases "skipleading l") auto
  then show ?thesis using ep assms(4,5) by (simp add: strnicmp_eq same_text_def)
qed

lemma is_key_unique:
  assumes "is_key K l" "is_key K' l" "0 \<notin> set l" "0 \<notin> set K" "0 \<notin> set K'"
  shows "same_text K K'"
proof -
  let ?t = "skipleading l"
  obtain ep where ep: "skiptrailing ?t ep = length K" "skiptrailing ?t ep = length K'"
    "strnicmp ?t K (length K) = 0" "strnicmp ?t K' (length K') = 0"
    using assms(1,2) by (auto simp: is_key_def key_match_def split: option.splits)
  then show ?thesis using assms(4,5) skipleading_no_nul [OF assms(3)] by (simp add: strnicmp_eq same_text_def)
qed

text \<open>A line that is neither a head nor the entry can come or go.\<close>

definition silent :: "bytes \<Rightarrow> bytes \<Rightarrow> bool" where
  "silent K l \<longleftrightarrow> \<not> is_head l \<and> \<not> entry_line K l"

lemma is_sec_head: "is_sec S l \<Longrightarrow> is_head l"
  by (simp add: is_sec_def)

lemma look_key_silent: "\<forall>x\<in>set m. silent K x \<Longrightarrow> look_key K (a @ m @ b) = look_key K (a @ b)"
proof (induction a)
  case Nil
  then show ?case by (induction m) (auto simp: silent_def)
qed auto

lemma look_sec_silent: "\<forall>x\<in>set m. silent K x \<Longrightarrow> look_sec S K (a @ m @ b) = look_sec S K (a @ b)"
proof (induction a)
  case Nil
  then show ?case by (induction m) (auto simp: silent_def dest: is_sec_head)
qed (auto simp: look_key_silent)

lemma look_sec_other:
  assumes "is_head s" "\<not> is_sec S s" "\<forall>x\<in>set m. \<not> is_head x"
  shows "look_sec S K (a @ s # m @ b) = look_sec S K (a @ s # b)"
proof (induction a)
  case Nil
  have "look_sec S K (m @ b) = look_sec S K b" using assms(3) by (induction m) (auto dest: is_sec_head)
  then show ?case using assms(2) by simp
next
  case (Cons x a)
  have "look_key K (a @ s # m @ b) = look_key K (a @ s # b)" using assms(1) by (induction a) auto
  then show ?case using Cons by simp
qed

lemma look_sec_end:
  assumes "is_head s" "\<not> is_sec S s" "\<not> is_head k"
  shows "look_sec S K (a @ [s, k]) = look_sec S K a"
proof (induction a)
  case Nil
  then show ?case using assms is_sec_head [of S k] by auto
next
  case (Cons x a)
  have "look_key K (a @ [s, k]) = look_key K a" using assms(1) by (induction a) auto
  then show ?case using Cons by simp
qed

text \<open>Blanks at the end of a line keep its value.\<close>

lemma before_comment_blank:
  assumes "\<forall>c\<in>set b. blank c"
  shows "before_comment i (t @ b) = before_comment i t \<or> before_comment i (t @ b) = before_comment i t @ b"
proof (induction i t rule: before_comment.induct)
  case (1 i)
  have "set b \<inter> {34, 35, 59} = {}" using assms by (auto simp: blank_def)
  then show ?case using before_comment_plain [of b i] by simp
next
  case (2 i c)
  have p: "before_comment j b = b" for j
    by (rule before_comment_plain) (use assms in \<open>auto simp: blank_def\<close>)
  show ?case
  proof (cases b)
    case (Cons x xs)
    have "x \<noteq> 34" using assms Cons by (auto simp: blank_def)
    then show ?thesis using p Cons by auto
  qed simp
next
  case (3 i c c' cs)
  then show ?case by auto
qed

lemma striptrailing_append: "\<forall>c\<in>set b. blank c \<Longrightarrow> striptrailing (x @ b) = striptrailing x"
proof -
  assume "\<forall>c\<in>set b. blank c"
  then have "dropWhile blank (rev b @ rev x) = dropWhile blank (rev x)" by (intro dropWhile_append2) auto
  then show ?thesis
    using length_dropWhile_le [of blank "rev x"] by (simp add: striptrailing_def skiptrailing_def)
qed

lemma value_of_blank:
  assumes "\<forall>c\<in>set b. blank c" "key_sep (skipleading l) = Some ep"
  shows "value_of (l @ b) = value_of l"
proof -
  let ?s = "skipleading l"
  have ep: "ep < length ?s" using assms(2) by (auto simp: key_sep_def dest: strchr_less split: option.splits)
  then have s: "skipleading (l @ b) = ?s @ b" using skipleading_append [OF assms(1), of l] by auto
  have "\<not> blank 61" "\<not> blank 58" by (simp_all add: blank_def)
  then have ks: "key_sep (?s @ b) = Some ep"
    using assms(2) strchr_blank [OF assms(1)] by (simp add: key_sep_def split: option.splits)
  have c: "cleanstring (t @ b) = cleanstring t" for t
    using before_comment_blank [OF assms(1), of False t] striptrailing_append [OF assms(1)]
    by (auto simp: cleanstring_def)
  have "drop (ep + 1) (?s @ b) = drop (ep + 1) ?s @ b" using ep by simp
  then show ?thesis
    using s ks assms(2) c skipleading_append [OF assms(1), of "drop (ep + 1) ?s"]
    by (cases "skipleading (drop (ep + 1) ?s) = []") (auto simp: value_of_def Let_def)
qed

lemma entry_line_blank:
  assumes "\<forall>c\<in>set b. blank c" "0 \<notin> set l" "0 \<notin> set K"
  shows "entry_line K (l @ b) = entry_line K l"
  using blank_end(3) [OF assms(1,2,3,3)] skipleading_append [OF assms(1), of l]
  by (simp add: entry_line_def ch0_append)

lemma look_key_last:
  assumes "\<forall>c\<in>set b. blank c" "\<forall>x\<in>set r. \<forall>c\<in>set x. blank c" "0 \<notin> set l" "0 \<notin> set K"
  shows "look_key K (a @ (l @ b) # r) = look_key K (a @ [l])"
proof (induction a)
  case Nil
  have r: "look_key K r = None" using assms(2) blank_line(1,3) by (induction r) (auto simp: entry_line_def)
  have "value_of (l @ b) = value_of l" if "entry_line K l"
    using that value_of_blank [OF assms(1)] by (auto simp: entry_line_def is_key_def split: option.splits)
  then show ?case using r blank_end(1) [OF assms(1,3,4,4)] entry_line_blank [OF assms(1,3,4)] by simp
qed simp

lemma look_sec_last:
  assumes "\<forall>c\<in>set b. blank c" "\<forall>x\<in>set r. \<forall>c\<in>set x. blank c" "0 \<notin> set l" "0 \<notin> set K" "0 \<notin> set S"
  shows "look_sec S K (a @ (l @ b) # r) = look_sec S K (a @ [l])"
proof (induction a)
  case Nil
  have "look_sec S K r = None" using assms(2) blank_line(2) by (induction r) auto
  moreover have "look_key K r = None" using assms(2) blank_line(1,3) by (induction r) (auto simp: entry_line_def)
  ultimately show ?case using blank_end(2) [OF assms(1,3,5,4)] by simp
next
  case (Cons x a)
  then show ?case using look_key_last [OF assms(1-4)] by simp
qed

lemma look_sec_none: "\<forall>x\<in>set a. \<not> is_sec S x \<Longrightarrow> look_sec S K (a @ b) = look_sec S K b"
  by (induction a) auto

text \<open>Names count up to the case of their letters.\<close>

lemma same_text_match:
  assumes "same_text S S'" "0 \<notin> set l" "0 \<notin> set S" "0 \<notin> set S'"
  shows "is_sec S l = is_sec S' l" "is_key S l = is_key S' l"
proof -
  have len: "length S = length S'" using assms(1) by (metis length_map same_text_def)
  have z: "0 \<notin> set (skipleading l)" "0 \<notin> set (tl (skipleading l))"
    using skipleading_no_nul [OF assms(2)] by (cases "skipleading l"; auto)+
  show "is_sec S l = is_sec S' l"
    using assms len z by (simp add: is_sec_def section_match_def strnicmp_eq same_text_def split: option.splits)
  show "is_key S l = is_key S' l"
    using assms len z by (auto simp: is_key_def key_match_def strnicmp_eq same_text_def split: option.splits)
qed

lemma look_sec_same:
  assumes "same_text S S'" "same_text K K'" "lines_ok ls" "0 \<notin> set S" "0 \<notin> set S'" "0 \<notin> set K" "0 \<notin> set K'"
  shows "look_sec S K ls = look_sec S' K' ls"
  using assms(3)
proof (induction ls)
  case (Cons l ls)
  have k: "look_key K xs = look_key K' xs" if "lines_ok xs" for xs
    using that
  proof (induction xs)
    case (Cons x xs)
    then have "entry_line K x = entry_line K' x"
      using same_text_match(2) [OF assms(2) _ assms(6,7), of x] by (simp add: entry_line_def lines_ok_Cons is_line_def)
    then show ?case using Cons by (simp add: lines_ok_Cons)
  qed simp
  have "is_sec S l = is_sec S' l"
    using Cons.prems same_text_match(1) [OF assms(1) _ assms(4,5), of l] by (simp add: lines_ok_Cons is_line_def)
  then show ?case using Cons k [of ls] by (simp add: lines_ok_Cons)
qed simp

section \<open>Every write is a map update\<close>

text \<open>\<open>keeps S K ls ls'\<close>: all entries but one are the same in both files.\<close>

definition keeps :: "bytes \<Rightarrow> bytes \<Rightarrow> bytes list \<Rightarrow> bytes list \<Rightarrow> bool" where
  "keeps S K ls ls' \<longleftrightarrow> (\<forall>S' K'. 0 \<notin> set S' \<longrightarrow> 0 \<notin> set K' \<longrightarrow> \<not> (same_text S S' \<and> same_text K K')
     \<longrightarrow> look_sec S' K' ls' = look_sec S' K' ls)"

lemma key_line_silent:
  assumes "entry_ok K V" "0 \<notin> set K'" "\<not> same_text K K'"
  shows "silent K' (writekey K V)"
proof -
  have "0 \<notin> set K" "0 \<notin> set (writekey K V)"
    using assms(1) key_line(1) [OF assms(1)] by (auto simp: entry_ok_def key_ok_def is_line_def)
  then show ?thesis
    using is_key_unique [OF key_line(3) [OF assms(1)] _ _ _ assms(2)] assms(3) key_line(4) [OF assms(1)]
    by (auto simp: silent_def entry_line_def)
qed

lemma other_section:
  assumes "is_sec S s" "is_line s" "0 \<notin> set S" "0 \<notin> set S'" "\<not> same_text S S'"
  shows "is_head s" "\<not> is_sec S' s"
  using assms is_sec_unique [of S s S'] by (auto simp: is_line_def dest: is_sec_head)

lemma keeps_new_section:
  assumes "entry_ok K V" "section_ok S" "\<forall>x\<in>set ls'. \<not> is_sec S x" "lines_ok ls'"
    "\<And>S' K'. 0 \<notin> set S' \<Longrightarrow> 0 \<notin> set K' \<Longrightarrow> look_sec S' K' ls' = look_sec S' K' ls"
  shows "keeps S K ls (ls' @ [writesection (Some S), writekey K V])"
  unfolding keeps_def
proof (intro allI impI)
  fix S' K'
  assume z: "0 \<notin> set S'" "0 \<notin> set K'" and d: "\<not> (same_text S S' \<and> same_text K K')"
  have S0: "0 \<notin> set S" using assms(2) by (auto simp: section_ok_def)
  let ?s = "writesection (Some S)" and ?k = "writekey K V"
  note sl = section_line [OF assms(2)]
  have "look_sec S' K' (ls' @ [?s, ?k]) = look_sec S' K' ls'"
  proof (cases "same_text S S'")
    case True
    then have "\<forall>x\<in>set ls'. \<not> is_sec S' x"
      using assms(3,4) same_text_match(1) [OF True _ S0 z(1)] by (induction ls') (auto simp: lines_ok_Cons is_line_def)
    moreover have "look_sec S' K' ((ls' @ [?s]) @ [?k] @ []) = look_sec S' K' ((ls' @ [?s]) @ [])"
      using key_line_silent [OF assms(1) z(2)] True d by (intro look_sec_silent) auto
    ultimately show ?thesis using look_sec_none [of ls' S' K' "[?s]"] look_sec_none [of ls' S' K' "[]"] by simp
  next
    case False
    show ?thesis
      by (rule look_sec_end) (use other_section [OF sl(3,1) S0 z(1) False] key_line(4) [OF assms(1)] in auto)
  qed
  then show "look_sec S' K' (ls' @ [?s, ?k]) = look_sec S' K' ls" using assms(5) z by simp
qed

lemma keeps_change:
  assumes "entry_ok K V" "section_ok S" "is_sec S s" "is_line s" "is_line l" "\<forall>x\<in>set us. \<not> stops K x" "stops K l"
  shows "keeps S K (xs @ s # us @ l # ws) (xs @ s # us @ writekey K V # (if is_head l then [l] else []) @ ws)"
  unfolding keeps_def
proof (intro allI impI)
  fix S' K'
  assume z: "0 \<notin> set S'" "0 \<notin> set K'" and d: "\<not> (same_text S S' \<and> same_text K K')"
  have z': "0 \<notin> set S" "0 \<notin> set K" "0 \<notin> set l"
    using assms(1,2,5) by (auto simp: section_ok_def entry_ok_def key_ok_def is_line_def)
  let ?k = "writekey K V" and ?b = "(if is_head l then [l] else []) @ ws"
  show "look_sec S' K' (xs @ s # us @ ?k # ?b) = look_sec S' K' (xs @ s # us @ l # ws)"
  proof (cases "same_text K K'")
    case False
    have "look_sec S' K' ((xs @ s # us) @ [?k] @ ?b) = look_sec S' K' ((xs @ s # us) @ ?b)"
      using key_line_silent [OF assms(1) z(2) False] by (intro look_sec_silent) simp
    moreover have "silent K' l" if "\<not> is_head l"
      using that assms(7) is_key_unique [of K l K'] False z z' by (auto simp: stops_def silent_def entry_line_def)
    then have "look_sec S' K' ((xs @ s # us) @ ?b) = look_sec S' K' ((xs @ s # us) @ l # ws)"
      using look_sec_silent [of "[l]" K' S' "xs @ s # us" ws] by auto
    ultimately show ?thesis by simp
  next
    case True
    then have h: "is_head s" "\<not> is_sec S' s" using other_section [OF assms(3,4) z'(1) z(1)] d by auto
    have "look_sec S' K' (xs @ s # (us @ [?k]) @ ?b) = look_sec S' K' (xs @ s # ?b)"
      by (rule look_sec_other [OF h]) (use assms(6) key_line(4) [OF assms(1)] in \<open>auto simp: stops_def\<close>)
    moreover have "look_sec S' K' (xs @ s # (us @ (if is_head l then [] else [l])) @ ?b) = look_sec S' K' (xs @ s # ?b)"
      by (rule look_sec_other [OF h]) (use assms(6) in \<open>auto simp: stops_def\<close>)
    ultimately show ?thesis by (cases "is_head l") simp_all
  qed
qed

lemma keeps_new_key:
  assumes "entry_ok K V" "section_ok S" "is_sec S s" "is_line s" "\<forall>x\<in>set ys. \<not> stops K x"
    "\<And>S' K'. 0 \<notin> set S' \<Longrightarrow> 0 \<notin> set K' \<Longrightarrow> look_sec S' K' (xs @ s # ys) = look_sec S' K' ls"
  shows "keeps S K ls (xs @ s # ys @ [writekey K V])"
  unfolding keeps_def
proof (intro allI impI)
  fix S' K'
  assume z: "0 \<notin> set S'" "0 \<notin> set K'" and d: "\<not> (same_text S S' \<and> same_text K K')"
  have S0: "0 \<notin> set S" using assms(2) by (auto simp: section_ok_def)
  let ?k = "writekey K V"
  have "look_sec S' K' (xs @ s # ys @ [?k]) = look_sec S' K' (xs @ s # ys)"
  proof (cases "same_text K K'")
    case False
    have "look_sec S' K' ((xs @ s # ys) @ [?k] @ []) = look_sec S' K' ((xs @ s # ys) @ [])"
      using key_line_silent [OF assms(1) z(2) False] by (intro look_sec_silent) simp
    then show ?thesis by simp
  next
    case True
    then have h: "is_head s" "\<not> is_sec S' s" using other_section [OF assms(3,4) S0 z(1)] d by auto
    have "look_sec S' K' (xs @ s # (ys @ [?k]) @ []) = look_sec S' K' (xs @ s # [])"
      by (rule look_sec_other [OF h]) (use assms(5) key_line(4) [OF assms(1)] in \<open>auto simp: stops_def\<close>)
    moreover have "look_sec S' K' (xs @ s # ys @ []) = look_sec S' K' (xs @ s # [])"
      by (rule look_sec_other [OF h]) (use assms(5) in \<open>auto simp: stops_def\<close>)
    ultimately show ?thesis by simp
  qed
  then show "look_sec S' K' (xs @ s # ys @ [?k]) = look_sec S' K' ls" using assms(6) z by simp
qed

lemma end_last_line:
  assumes "lines_ok (ls @ [l])" "flag \<longrightarrow> last l = 10"
  shows "\<exists>b r. (\<forall>c\<in>set b. blank c) \<and> (\<forall>x\<in>set r. \<forall>c\<in>set x. blank c) \<and> lines_ok (ls @ (l @ b) # r)
    \<and> full_line (last ((l @ b) # r)) \<and> concat (ls @ (l @ b) # r) = concat (ls @ [l]) @ (if flag then [] else INI_LINETERM)
    \<and> (\<forall>S K. 0 \<notin> set S \<longrightarrow> 0 \<notin> set K \<longrightarrow> look_sec S K (ls @ (l @ b) # r) = look_sec S K (ls @ [l])
         \<and> is_sec S (l @ b) = is_sec S l \<and> stops K (l @ b) = stops K l)"
proof -
  have l: "is_line l" "0 \<notin> set l" using assms(1) by (auto simp: lines_ok_append is_line_def)
  obtain b r where br: "\<forall>c\<in>set b. blank c" "\<forall>x\<in>set r. \<forall>c\<in>set x. blank c" "lines_ok ((l @ b) # r)"
    "full_line (last ((l @ b) # r))" "concat ((l @ b) # r) = l @ (if flag then [] else INI_LINETERM)"
    using end_line [OF l(1) assms(2)] by blast
  have "lines_ok (ls @ (l @ b) # r)" using assms(1) br(3) by (simp add: lines_ok_append)
  then show ?thesis using br look_sec_last [OF br(1,2) l(2)] blank_end [OF br(1) l(2)]
    by (intro exI [of _ b] exI [of _ r]) (simp add: stops_def)
qed

lemma lines_appended:
  "lines_ok xs \<Longrightarrow> xs = [] \<or> full_line (last xs) \<Longrightarrow> lines_ok ys \<Longrightarrow> lines_ok (xs @ ys)"
  by (auto simp: lines_ok_append)

text \<open>What the three places of a new entry have in common.\<close>

definition updated :: "bytes \<Rightarrow> bytes \<Rightarrow> bytes \<Rightarrow> bytes list \<Rightarrow> bytes list \<Rightarrow> bool" where
  "updated S K V ls ls' \<longleftrightarrow> lines_ok ls' \<and> keeps S K ls ls'
     \<and> (\<exists>xs s us ws. ls' = xs @ s # us @ writekey K V # ws \<and> (\<forall>x\<in>set xs. \<not> is_sec S x) \<and> is_sec S s
          \<and> (\<forall>x\<in>set us. \<not> stops K x))"

lemma updated_new_section:
  assumes "lines_ok ls" "section_ok S" "entry_ok K V" "\<forall>x\<in>set ls. \<not> is_sec S x"
  shows "\<exists>ls'. copy_file (Some S) (Some K) (Some V) (concat ls) = Some (concat ls') \<and> updated S K V ls ls'"
proof -
  note kl = key_line [OF assms(3)] and sl = section_line [OF assms(2)]
  have S: "S \<noteq> []" "0 \<notin> set S" "0 \<notin> set K" using assms(2,3) by (auto simp: section_ok_def entry_ok_def key_ok_def)
  obtain flag where f: "copy_file (Some S) (Some K) (Some V) (concat ls)
      = Some (concat ls @ (if flag then [] else INI_LINETERM) @ writesection (Some S) @ writekey K V)"
    "flag \<longrightarrow> ls \<noteq> [] \<and> last (last ls) = 10"
    using copy_file_new_section [OF assms(1) S(1) assms(4)] by blast
  obtain ls' where ls': "lines_ok ls'" "ls' = [] \<or> full_line (last ls')" "\<forall>x\<in>set ls'. \<not> is_sec S x"
    "concat ls' = concat ls @ (if flag then [] else INI_LINETERM)"
    "\<And>S' K'. 0 \<notin> set S' \<Longrightarrow> 0 \<notin> set K' \<Longrightarrow> look_sec S' K' ls' = look_sec S' K' ls"
  proof (cases ls rule: rev_cases)
    case Nil
    have "is_line ([13] @ [10]) \<and> full_line ([13] @ [10])" by (rule is_line_nl) simp_all
    then have "lines_ok [[13, 10]] \<and> full_line (last [[13, 10]])" by simp
    moreover have "\<not> is_sec S' [13, 10]" for S' by (rule blank_line) (simp add: blank_def)
    ultimately show ?thesis using Nil f(2) by (intro that [of "[[13, 10]]"]) (simp_all add: INI_LINETERM_def)
  next
    case (snoc ls0 l)
    obtain b r where br: "\<forall>x\<in>set r. \<forall>c\<in>set x. blank c" "lines_ok (ls0 @ (l @ b) # r)"
      "full_line (last ((l @ b) # r))" "concat (ls0 @ (l @ b) # r) = concat (ls0 @ [l]) @ (if flag then [] else INI_LINETERM)"
      "\<And>S K. 0 \<notin> set S \<Longrightarrow> 0 \<notin> set K \<Longrightarrow> look_sec S K (ls0 @ (l @ b) # r) = look_sec S K (ls0 @ [l])"
      "is_sec S (l @ b) = is_sec S l"
      using end_last_line [of ls0 l flag] assms(1) f(2) snoc S by auto
    then show ?thesis using assms(4) snoc blank_line(2)
      by (intro that [of "ls0 @ (l @ b) # r"]) (auto simp: last_append)
  qed
  have "lines_ok (ls' @ [writesection (Some S), writekey K V])"
    by (rule lines_appended [OF ls'(1,2)]) (use kl sl in simp)
  moreover have "keeps S K ls (ls' @ [writesection (Some S), writekey K V])"
    by (rule keeps_new_section [OF assms(3,2) ls'(3,1)]) (rule ls'(5))
  ultimately have "updated S K V ls (ls' @ [writesection (Some S), writekey K V])"
    unfolding updated_def using ls'(3) sl(3)
    by (intro conjI exI [of _ ls'] exI [of _ "writesection (Some S)"] exI [of _ "[]"]) simp_all
  then show ?thesis using f(1) ls'(4) by (intro exI [of _ "ls' @ [writesection (Some S), writekey K V]"]) simp
qed

lemma updated_change:
  assumes "lines_ok (xs @ s # us @ l # ws)" "section_ok S" "entry_ok K V" "\<forall>x\<in>set xs. \<not> is_sec S x" "is_sec S s"
    "\<forall>x\<in>set us. \<not> stops K x" "stops K l"
  shows "\<exists>ls'. copy_file (Some S) (Some K) (Some V) (concat (xs @ s # us @ l # ws)) = Some (concat ls')
    \<and> updated S K V (xs @ s # us @ l # ws) ls'"
proof -
  have S: "S \<noteq> []" using assms(2) by (simp add: section_ok_def)
  let ?ls' = "xs @ s # us @ writekey K V # (if is_head l then [l] else []) @ ws"
  have "copy_file (Some S) (Some K) (Some V) (concat (xs @ s # us @ l # ws)) = Some (concat ?ls')"
    using copy_file_change [OF assms(1) S assms(4-7)] by simp
  moreover have "lines_ok ?ls'"
    using assms(1) key_line(1,2) [OF assms(3)] by (auto simp: lines_ok_append lines_ok_Cons)
  moreover have "keeps S K (xs @ s # us @ l # ws) ?ls'"
    by (rule keeps_change [OF assms(3,2,5) _ _ assms(6,7)])
      (use assms(1) in \<open>simp_all add: lines_ok_append lines_ok_Cons\<close>)
  ultimately show ?thesis unfolding updated_def using assms(4-6) by blast
qed

lemma updated_new_key:
  assumes "lines_ok (xs @ s # ys)" "section_ok S" "entry_ok K V" "\<forall>x\<in>set xs. \<not> is_sec S x" "is_sec S s"
    "\<forall>x\<in>set ys. \<not> stops K x"
  shows "\<exists>ls'. copy_file (Some S) (Some K) (Some V) (concat (xs @ s # ys)) = Some (concat ls')
    \<and> updated S K V (xs @ s # ys) ls'"
proof -
  note kl = key_line [OF assms(3)]
  have S: "S \<noteq> []" "0 \<notin> set S" "0 \<notin> set K" using assms(2,3) by (auto simp: section_ok_def entry_ok_def key_ok_def)
  let ?ls = "xs @ s # ys"
  obtain flag where f: "copy_file (Some S) (Some K) (Some V) (concat ?ls)
      = Some (concat ?ls @ (if flag then [] else INI_LINETERM) @ writekey K V)" "flag \<longrightarrow> last (last (s # ys)) = 10"
    using copy_file_new_key [OF assms(1) S(1) assms(4-6)] by blast
  obtain s' ys' where e: "lines_ok (xs @ s' # ys')" "full_line (last (s' # ys'))" "is_sec S s'" "\<forall>x\<in>set ys'. \<not> stops K x"
    "concat (xs @ s' # ys') = concat ?ls @ (if flag then [] else INI_LINETERM)"
    "\<And>S' K'. 0 \<notin> set S' \<Longrightarrow> 0 \<notin> set K' \<Longrightarrow> look_sec S' K' (xs @ s' # ys') = look_sec S' K' ?ls"
  proof (cases ys rule: rev_cases)
    case Nil
    obtain b r where "\<forall>x\<in>set r. \<forall>c\<in>set x. blank c" "lines_ok (xs @ (s @ b) # r)"
      "full_line (last ((s @ b) # r))" "concat (xs @ (s @ b) # r) = concat (xs @ [s]) @ (if flag then [] else INI_LINETERM)"
      "\<And>S K. 0 \<notin> set S \<Longrightarrow> 0 \<notin> set K \<Longrightarrow> look_sec S K (xs @ (s @ b) # r) = look_sec S K (xs @ [s])"
      "is_sec S (s @ b) = is_sec S s"
      using end_last_line [of xs s flag] assms(1) f(2) Nil S by auto
    then show ?thesis using Nil assms(5) blank_line(4) by (intro that [of "s @ b" r]) auto
  next
    case (snoc ys0 l)
    obtain b r where "\<forall>x\<in>set r. \<forall>c\<in>set x. blank c" "lines_ok ((xs @ s # ys0) @ (l @ b) # r)"
      "full_line (last ((l @ b) # r))"
      "concat ((xs @ s # ys0) @ (l @ b) # r) = concat ((xs @ s # ys0) @ [l]) @ (if flag then [] else INI_LINETERM)"
      "\<And>S K. 0 \<notin> set S \<Longrightarrow> 0 \<notin> set K \<Longrightarrow>
        look_sec S K ((xs @ s # ys0) @ (l @ b) # r) = look_sec S K ((xs @ s # ys0) @ [l])"
      "stops K (l @ b) = stops K l"
      using end_last_line [of "xs @ s # ys0" l flag] assms(1) f(2) snoc S by auto
    then show ?thesis using snoc assms(5,6) blank_line(4)
      by (intro that [of s "ys0 @ (l @ b) # r"]) (auto simp: last_append)
  qed
  let ?ls' = "xs @ s' # ys' @ [writekey K V]"
  have "lines_ok ((xs @ s' # ys') @ [writekey K V])"
    by (rule lines_appended [OF e(1)]) (use e(2) kl in \<open>simp_all add: last_append\<close>)
  then have "lines_ok ?ls'" by simp
  moreover have "keeps S K ?ls ?ls'"
    by (rule keeps_new_key [OF assms(3,2) e(3) _ e(4)]) (use e(1,6) in \<open>simp_all add: lines_ok_append lines_ok_Cons\<close>)
  ultimately have "updated S K V ?ls ?ls'" unfolding updated_def using assms(4) e(3,4) by blast
  then show ?thesis using f(1) e(5) by (intro exI [of _ ?ls']) simp
qed

lemma copy_file_updated:
  assumes "lines_ok ls" "section_ok S" "entry_ok K V"
  shows "\<exists>ls'. copy_file (Some S) (Some K) (Some V) (concat ls) = Some (concat ls') \<and> updated S K V ls ls'"
proof (cases "\<exists>x\<in>set ls. is_sec S x")
  case False
  then show ?thesis using updated_new_section [OF assms] by blast
next
  case True
  then obtain xs s ys where ls: "ls = xs @ s # ys" "is_sec S s" "\<forall>x\<in>set xs. \<not> is_sec S x"
    using split_list_first_prop [of ls "is_sec S"] by blast
  show ?thesis
  proof (cases "\<exists>x\<in>set ys. stops K x")
    case True
    then obtain us l ws where "ys = us @ l # ws" "stops K l" "\<forall>x\<in>set us. \<not> stops K x"
      using split_list_first_prop [of ys "stops K"] by blast
    then show ?thesis using updated_change [of xs s us l ws S K V] assms ls by simp
  next
    case False
    then show ?thesis using updated_new_key [of xs s ys S K V] assms ls by simp
  qed
qed

lemma updated_look:
  assumes "updated S K V ls ls'" "section_ok S" "entry_ok K V" "length V < n"
  shows "look n S K ls' = Some V"
proof -
  obtain xs s us ws where u: "ls' = xs @ s # us @ writekey K V # ws" "\<forall>x\<in>set xs. \<not> is_sec S x" "is_sec S s"
    "\<forall>x\<in>set us. \<not> stops K x" "lines_ok ls'" using assms(1) by (auto simp: updated_def)
  have "S \<noteq> []" using assms(2) by (simp add: section_ok_def)
  then show ?thesis
    using get_entry_found [of xs s us K V ws S n] getkeystring_look [OF u(5), of S K n] u assms by simp
qed

lemma ini_gets_look:
  assumes "lines_ok ls" "S \<noteq> []" "fs F = Some (concat ls)"
  shows "ini_gets (Some S) K D n F fs = (case look n S K ls of Some v \<Rightarrow> v | None \<Rightarrow> save_strncpy D n QUOTE_NONE)"
  using getkeystring_look [OF assms(1,2), of K n] assms(3) by (simp add: ini_gets_def)

lemma ini_gets_missing:
  "fs F = None \<Longrightarrow> ini_gets (Some S) K D n F fs = (case look n S K [] of Some v \<Rightarrow> v | None \<Rightarrow> save_strncpy D n QUOTE_NONE)"
  by (simp add: ini_gets_def look_def)

lemma look_short: "look m S K ls = Some V \<Longrightarrow> length V < n \<Longrightarrow> n \<le> m \<Longrightarrow> look n S K ls = Some V"
proof -
  assume a: "look m S K ls = Some V" "length V < n" "n \<le> m"
  then obtain v q where v: "look_sec S K ls = Some (v, q)" "save_strncpy v m q = V" by (auto simp: look_def)
  have "q \<noteq> QUOTE_ENQUOTE" if "look_key K xs = Some (v, q)" for xs
    using that by (induction xs) (auto simp: value_of_def cleanstring_def Let_def split: if_splits)
  then have "q \<noteq> QUOTE_ENQUOTE" using v(1) by (induction ls) (auto split: if_splits)
  then show ?thesis using save_strncpy_short [of q v m n] a v by (simp add: look_def)
qed

lemma lines_no_nul: "lines_ok ls \<Longrightarrow> 0 \<notin> set (concat ls)"
  by (induction ls) (auto simp: lines_ok_Cons is_line_def)

lemma written_map:
  assumes "section_ok S" "entry_ok K V" "fs' F = Some (concat ls')" "updated S K V ls ls'"
  shows "(\<forall>D n. length V < n \<longrightarrow> n \<le> 256 \<longrightarrow> ini_gets (Some S) K D n F fs' = V) \<and> (\<forall>t. fs' F = Some t \<longrightarrow> 0 \<notin> set t)
    \<and> (\<forall>S' K' D m. S' \<noteq> [] \<longrightarrow> 0 \<notin> set S' \<longrightarrow> 0 \<notin> set K' \<longrightarrow> \<not> (same_text S S' \<and> same_text K K') \<longrightarrow>
        ini_gets (Some S') K' D m F fs' = (case look m S' K' ls of Some v \<Rightarrow> v | None \<Rightarrow> save_strncpy D m QUOTE_NONE))"
proof -
  have ok: "lines_ok ls'" "keeps S K ls ls'" using assms(4) by (auto simp: updated_def)
  have "look m S' K' ls' = look m S' K' ls"
    if "0 \<notin> set S'" "0 \<notin> set K'" "\<not> (same_text S S' \<and> same_text K K')" for m S' K'
    using ok(2) that by (simp add: look_def keeps_def)
  moreover have "S \<noteq> []" using assms(1) by (simp add: section_ok_def)
  ultimately show ?thesis
    using ini_gets_look [where fs = fs' and F = F, OF ok(1) _ assms(3)] updated_look [OF assms(4,1,2)]
      lines_no_nul [OF ok(1)] assms(3) by simp
qed

lemma ini_puts_update:
  assumes "section_ok S" "entry_ok K V" "ini_tempname F 256 \<noteq> F"
    "\<forall>t. fs F = Some t \<longrightarrow> 0 \<notin> set t"
  shows "\<exists>fs'. ini_puts True (Some S) (Some K) (Some V) F fs = Some (True, fs')
    \<and> (\<forall>t. fs' F = Some t \<longrightarrow> 0 \<notin> set t) \<and> (\<forall>D n. length V < n \<longrightarrow> n \<le> 256 \<longrightarrow> ini_gets (Some S) K D n F fs' = V)
    \<and> (\<forall>S' K' D m. S' \<noteq> [] \<longrightarrow> 0 \<notin> set S' \<longrightarrow> 0 \<notin> set K' \<longrightarrow> \<not> (same_text S S' \<and> same_text K K')
         \<longrightarrow> ini_gets (Some S') K' D m F fs' = ini_gets (Some S') K' D m F fs)"
proof (cases "fs F")
  case None
  let ?ls = "[writesection (Some S), writekey K V]" and ?fs = "fs(F := Some (writesection (Some S) @ writekey K V))"
  note kl = key_line [OF assms(2)] and sl = section_line [OF assms(1)]
  have "keeps S K [] ([] @ ?ls)" by (rule keeps_new_section [OF assms(2,1)]) simp_all
  then have "updated S K V [] ?ls" unfolding updated_def using kl sl
    by (intro conjI exI [of _ "[]"] exI [of _ "writesection (Some S)"]) simp_all
  then show ?thesis
    using written_map [OF assms(1,2), where fs' = ?fs and F = F and ls' = ?ls and ls = "[]"] ini_gets_missing [where fs = fs and F = F, OF None] None
    by (intro exI [of _ ?fs]) (simp add: ini_puts_def)
next
  case (Some t)
  obtain ls where ls: "lines_ok ls" "concat ls = t" using text_lines assms(4) Some by blast
  have S: "S \<noteq> []" using assms(1) by (simp add: section_ok_def)
  have gk: "getkeystring (open_fil t) (Some S) (Some K) (- 1) (- 1) m = look m S K ls" for m
    using getkeystring_look [OF ls(1) S] ls(2) by simp
  have old: "ini_gets (Some S') K' D m F fs = (case look m S' K' ls of Some v \<Rightarrow> v | None \<Rightarrow> save_strncpy D m QUOTE_NONE)"
    if "S' \<noteq> []" for S' K' D m using ini_gets_look [OF ls(1) that, of fs F] ls(2) Some by simp
  show ?thesis
  proof (cases "look 256 S K ls = Some V")
    case True
    then have "ini_puts True (Some S) (Some K) (Some V) F fs = Some (True, fs)" using Some gk by (simp add: ini_puts_def)
    moreover have "ini_gets (Some S) K D n F fs = V" if "length V < n" "n \<le> 256" for D n
      using old [OF S] look_short [OF True that] by simp
    ultimately show ?thesis using assms(4) by blast
  next
    case False
    obtain ls' where ls': "copy_file (Some S) (Some K) (Some V) t = Some (concat ls')" "updated S K V ls ls'"
      using copy_file_updated [OF ls(1) assms(1,2)] ls(2) by blast
    let ?tmp = "ini_tempname F 256"
    let ?fs = "close_rename F (fs(?tmp := Some (concat ls')))"
    have "ini_puts True (Some S) (Some K) (Some V) F fs = Some (True, ?fs)"
      using Some gk False ls'(1) by (simp add: ini_puts_def)
    moreover have "?fs F = Some (concat ls')" using assms(3) by (simp add: close_rename_def Let_def)
    ultimately show ?thesis
      using written_map [OF assms(1,2) _ ls'(2), where fs' = ?fs and F = F] old by (intro exI [of _ ?fs]) simp
  qed
qed

text \<open>
  C22: the settings file is a map. Writing an entry succeeds, returns, and leaves a file without
  NULs; the entry reads back as the value written, whatever characters it holds besides line
  ends, and every entry of another name or section reads as before, wherever the line was
  replaced or inserted and however the last line ended.
\<close>

theorem ini_file_is_map:
  assumes "section_ok S" "entry_ok K V" "ini_tempname F 256 \<noteq> F" "\<forall>t. fs F = Some t \<longrightarrow> 0 \<notin> set t"
  shows "\<exists>fs'. ini_puts True (Some S) (Some K) (Some V) F fs = Some (True, fs')
    \<and> (\<forall>t. fs' F = Some t \<longrightarrow> 0 \<notin> set t) \<and> (\<forall>D n. length V < n \<longrightarrow> n \<le> 256 \<longrightarrow> ini_gets (Some S) K D n F fs' = V)
    \<and> (\<forall>S' K' D m. S' \<noteq> [] \<longrightarrow> 0 \<notin> set S' \<longrightarrow> 0 \<notin> set K' \<longrightarrow> \<not> (same_text S S' \<and> same_text K K')
         \<longrightarrow> ini_gets (Some S') K' D m F fs' = ini_gets (Some S') K' D m F fs)"
  using assms by (rule ini_puts_update)

text \<open>A password with quotes and a comment sign, in a file whose last line is not ended.\<close>

definition demo_ini :: bytes where
  "demo_ini = [91, 87, 93, 13, 10, 112, 61, 49, 10, 91, 67, 93, 10, 120, 61, 53]"

theorem ini_file_is_map_witness:
  "\<exists>fs'. ini_puts True (Some [87]) (Some [112]) (Some [97, 34, 59, 32]) [47, 99] [[47, 99] \<mapsto> demo_ini] = Some (True, fs')
    \<and> ini_gets (Some [87]) [112] [] 32 [47, 99] fs' = [97, 34, 59, 32]
    \<and> ini_gets (Some [67]) [120] [] 32 [47, 99] fs' = ini_gets (Some [67]) [120] [] 32 [47, 99] [[47, 99] \<mapsto> demo_ini]"
proof -
  have "section_ok [87]" by (simp add: section_ok_def)
  moreover have "entry_ok [112] [97, 34, 59, 32]"
    by (simp add: entry_ok_def key_ok_def value_ok_def stored_def check_enquote_def blank_def)
  moreover have "ini_tempname [47, 99] 256 \<noteq> [47, 99]" by (simp add: ini_tempname_def save_strncpy_def)
  ultimately obtain fs' where f: "ini_puts True (Some [87]) (Some [112]) (Some [97, 34, 59, 32]) [47, 99] [[47, 99] \<mapsto> demo_ini] = Some (True, fs')"
    "\<forall>D n. 4 < n \<longrightarrow> n \<le> 256 \<longrightarrow> ini_gets (Some [87]) [112] D n [47, 99] fs' = [97, 34, 59, 32]"
    "\<forall>S' K' D m. S' \<noteq> [] \<longrightarrow> 0 \<notin> set S' \<longrightarrow> 0 \<notin> set K' \<longrightarrow> \<not> (same_text [87] S' \<and> same_text [112] K')
       \<longrightarrow> ini_gets (Some S') K' D m [47, 99] fs' = ini_gets (Some S') K' D m [47, 99] [[47, 99] \<mapsto> demo_ini]"
    using ini_file_is_map [of "[87]" "[112]" "[97, 34, 59, 32]" "[47, 99]" "[[47, 99] \<mapsto> demo_ini]"]
    by (auto simp: demo_ini_def)
  have "\<not> same_text [87] [67]" by (simp add: same_text_def toupper_def)
  then show ?thesis using f(1,2) spec [OF spec [OF spec [OF spec [OF f(3)]]], of "[67]" "[120]" "[]" 32] by simp
qed

text \<open>
  A value with a blank at its front does not come back: it is not quoted, and reading skips
  the blanks behind the equal sign.
\<close>

theorem leading_blank_lost:
  "(case ini_puts True (Some [87]) (Some [112]) (Some [32, 97]) [47, 99] (\<lambda>_. None) of
      Some (ok, fs) \<Rightarrow> ok \<and> fs [47, 99] = Some [91, 87, 93, 13, 10, 112, 61, 32, 97, 13, 10]
        \<and> ini_gets (Some [87]) [112] [] 32 [47, 99] fs = [97]
    | None \<Rightarrow> False)"
  by code_simp

end
