(* ===== verification/Configuration.thy ===== *)
theory Configuration
  imports Mini_Ini_Map
begin

text \<open>
  The settings (\<open>application/configuration.c\<close>): the table of parameters with the variables
  they set, loading them at start, the commands that read, write and list them, and the part
  of \<open>root_task\<close> (\<open>application/root.c\<close>) that derives the controller's address and the Wi-Fi
  band from them. \<open>int32_t\<close> variables are \<open>int\<close>s, strings are the arrays they live in. The
  two corrections of the scanner, owned by \<open>Navigation.c\<close>, are \<open>cfg_detY0\<close> and
  \<open>cfg_detTheta0\<close> here.
\<close>

section \<open>The variables and the table\<close>

record config =
  agv_id :: int
  controller_port :: int
  local_port :: int
  RSI_BAND :: int
  RSI_SCAN_CHANNEL_BIT_MAP_2_4 :: int
  wifi_ssid :: bytes
  wifi_password :: bytes
  remote_ip_str :: bytes
  cfg_detY0 :: rat
  cfg_detTheta0 :: rat
  controller_ip :: u32
  RSI_CONFIG_CLIENT_BAND :: int
  RSI_CLIENT_BITMAP_2_4 :: int
  RSI_CLIENT_BITMAP_5_0 :: int
  RSI_SCAN_CHANNEL_BIT_MAP_5 :: int
  ini :: ini_fs

datatype paramtype = PARAM_TYPE_INT32 | PARAM_TYPE_FLOAT | PARAM_TYPE_STR

text \<open>What \<open>p_data\<close> points to.\<close>

datatype p_data = P_agv_id | P_ssid | P_password | P_remote_ip | P_local_port | P_controller_port
  | P_band | P_channels | P_detY | P_detTheta

record config_item =
  ci_name :: bytes
  ci_sec :: bytes
  ci_type :: paramtype
  ci_data :: p_data
  ci_size :: nat
  ci_attr :: nat

abbreviation (input) CONFIG_ATTR_RESET_ONCHANGE :: nat where "CONFIG_ATTR_RESET_ONCHANGE \<equiv> 1"

definition CONFIG_FILENAME :: bytes where "CONFIG_FILENAME = str ''/config.ini''"

definition item :: "string \<Rightarrow> string \<Rightarrow> paramtype \<Rightarrow> p_data \<Rightarrow> nat \<Rightarrow> nat \<Rightarrow> config_item" where
  "item name sec ty p sz attr =
     \<lparr>ci_name = str name, ci_sec = str sec, ci_type = ty, ci_data = p, ci_size = sz, ci_attr = attr\<rparr>"

definition params :: "config_item list" where
  "params =
     [item ''agvid'' ''DEVICE'' PARAM_TYPE_INT32 P_agv_id 4 CONFIG_ATTR_RESET_ONCHANGE,
      item ''ssid'' ''WIFI'' PARAM_TYPE_STR P_ssid 32 CONFIG_ATTR_RESET_ONCHANGE,
      item ''password'' ''WIFI'' PARAM_TYPE_STR P_password 32 CONFIG_ATTR_RESET_ONCHANGE,
      item ''controler_ip'' ''COM'' PARAM_TYPE_STR P_remote_ip 16 CONFIG_ATTR_RESET_ONCHANGE,
      item ''local_port'' ''COM'' PARAM_TYPE_INT32 P_local_port 4 CONFIG_ATTR_RESET_ONCHANGE,
      item ''controller_port'' ''COM'' PARAM_TYPE_INT32 P_controller_port 4 CONFIG_ATTR_RESET_ONCHANGE,
      item ''band'' ''WIFI'' PARAM_TYPE_INT32 P_band 4 CONFIG_ATTR_RESET_ONCHANGE,
      item ''channels'' ''WIFI'' PARAM_TYPE_INT32 P_channels 4 CONFIG_ATTR_RESET_ONCHANGE,
      item ''detY'' ''MOTION_CTRL'' PARAM_TYPE_FLOAT P_detY 0 0,
      item ''detTheta'' ''MOTION_CTRL'' PARAM_TYPE_FLOAT P_detTheta 0 0]"

text \<open>Reading and writing through the pointer, as the type of the item says.\<close>

definition get_int :: "p_data \<Rightarrow> config \<Rightarrow> int" where
  "get_int p c = (case p of P_agv_id \<Rightarrow> agv_id c | P_local_port \<Rightarrow> local_port c
     | P_controller_port \<Rightarrow> controller_port c | P_band \<Rightarrow> RSI_BAND c
     | P_channels \<Rightarrow> RSI_SCAN_CHANNEL_BIT_MAP_2_4 c | _ \<Rightarrow> 0)"

definition set_int :: "p_data \<Rightarrow> int \<Rightarrow> config \<Rightarrow> config" where
  "set_int p n c = (case p of P_agv_id \<Rightarrow> c\<lparr>agv_id := n\<rparr> | P_local_port \<Rightarrow> c\<lparr>local_port := n\<rparr>
     | P_controller_port \<Rightarrow> c\<lparr>controller_port := n\<rparr> | P_band \<Rightarrow> c\<lparr>RSI_BAND := n\<rparr>
     | P_channels \<Rightarrow> c\<lparr>RSI_SCAN_CHANNEL_BIT_MAP_2_4 := n\<rparr> | _ \<Rightarrow> c)"

definition get_float :: "p_data \<Rightarrow> config \<Rightarrow> rat" where
  "get_float p c = (case p of P_detY \<Rightarrow> cfg_detY0 c | P_detTheta \<Rightarrow> cfg_detTheta0 c | _ \<Rightarrow> 0)"

definition set_float :: "p_data \<Rightarrow> rat \<Rightarrow> config \<Rightarrow> config" where
  "set_float p x c = (case p of P_detY \<Rightarrow> c\<lparr>cfg_detY0 := x\<rparr> | P_detTheta \<Rightarrow> c\<lparr>cfg_detTheta0 := x\<rparr> | _ \<Rightarrow> c)"

definition get_str :: "p_data \<Rightarrow> config \<Rightarrow> bytes" where
  "get_str p c = (case p of P_ssid \<Rightarrow> wifi_ssid c | P_password \<Rightarrow> wifi_password c | P_remote_ip \<Rightarrow> remote_ip_str c | _ \<Rightarrow> [])"

definition set_str :: "p_data \<Rightarrow> bytes \<Rightarrow> config \<Rightarrow> config" where
  "set_str p b c = (case p of P_ssid \<Rightarrow> c\<lparr>wifi_ssid := b\<rparr> | P_password \<Rightarrow> c\<lparr>wifi_password := b\<rparr>
     | P_remote_ip \<Rightarrow> c\<lparr>remote_ip_str := b\<rparr> | _ \<Rightarrow> c)"

section \<open>Loading\<close>

text \<open>\<open>ini_gets\<close> leaves its string and a NUL in the array and the rest of it as it was.\<close>

definition store_str :: "bytes \<Rightarrow> bytes \<Rightarrow> bytes" where
  "store_str v b = v @ 0 # drop (length v + 1) b"

definition load_item :: "config_item \<Rightarrow> config \<Rightarrow> config" where
  "load_item it c =
     (let p = ci_data it; sec = Some (ci_sec it); name = ci_name it
      in case ci_type it of
           PARAM_TYPE_INT32 \<Rightarrow> set_int p (ini_getl sec name (get_int p c) CONFIG_FILENAME (ini c)) c
         | PARAM_TYPE_FLOAT \<Rightarrow> set_float p (ini_getf sec name (get_float p c) CONFIG_FILENAME (ini c)) c
         | PARAM_TYPE_STR \<Rightarrow>
             set_str p (store_str (ini_gets sec name (cstr (get_str p c)) (ci_size it) CONFIG_FILENAME (ini c)) (get_str p c)) c)"

definition load_configuration :: "config \<Rightarrow> config" where
  "load_configuration c = fold load_item params c"

section \<open>Reading and writing\<close>

definition get_config_item :: "bytes \<Rightarrow> config_item option" where
  "get_config_item name = find (\<lambda>it. ci_name it = name) params"

definition write_val :: "config_item \<Rightarrow> bytes \<Rightarrow> config \<Rightarrow> config" where
  "write_val it val c =
     (case ci_type it of
        PARAM_TYPE_INT32 \<Rightarrow> set_int (ci_data it) (atoi val) c
      | PARAM_TYPE_FLOAT \<Rightarrow> set_float (ci_data it) (fl32 (fl64 (atof val))) c
      | PARAM_TYPE_STR \<Rightarrow> set_str (ci_data it) (strncpy (get_str (ci_data it) c) val (ci_size it)) c)"

text \<open>\<open>wr\<close>: the file can be written. \<open>None\<close>: the call does not return.\<close>

definition write_config :: "bool \<Rightarrow> bytes \<Rightarrow> bytes \<Rightarrow> config \<Rightarrow> (int \<times> config) option" where
  "write_config wr name val c =
     (case get_config_item name of
        None \<Rightarrow> Some (- perr_code ENODEV, c)
      | Some it \<Rightarrow>
          Option.bind (ini_puts wr (Some (ci_sec it)) (Some (ci_name it)) (Some val) CONFIG_FILENAME (ini c)) (\<lambda>(_, fs).
            Some ((if ci_attr it = CONFIG_ATTR_RESET_ONCHANGE then 1 else 0), write_val it val (c\<lparr>ini := fs\<rparr>))))"

text \<open>The result is the string left in the buffer, \<open>None\<close> when it is not touched.\<close>

definition read_config :: "bytes \<Rightarrow> nat \<Rightarrow> config \<Rightarrow> int \<times> bytes option" where
  "read_config name sz c =
     (case get_config_item name of
        None \<Rightarrow> (- perr_code ENODEV, None)
      | Some it \<Rightarrow> (0, Some (ini_gets (Some (ci_sec it)) (ci_name it) [] sz CONFIG_FILENAME (ini c))))"

text \<open>The arguments of the calls of the callback.\<close>

definition list_config :: "config \<Rightarrow> (bytes \<times> paramtype \<times> bytes) list" where
  "list_config c =
     map (\<lambda>it. (ci_name it, ci_type it, ini_gets (Some (ci_sec it)) (ci_name it) [] 64 CONFIG_FILENAME (ini c))) params"

section \<open>The controller's address and the band\<close>

text \<open>\<open>strtoul\<close> in base 10: the number and the rest of the text, which is all of it when there are no digits.\<close>

definition strtoul10 :: "bytes \<Rightarrow> u32 \<times> bytes" where
  "strtoul10 s =
     (let (neg, t) = take_sign (dropWhile isspace s);
          (n, r) = digits_val 10 0 t
      in if \<not> isdigit (ch0 t) then (0, s)
         else (if n > 4294967295 then 4294967295 else if neg then - of_nat n else of_nat n, r))"

abbreviation (input) skip_spaces :: "bytes \<Rightarrow> bytes" where
  "skip_spaces s \<equiv> dropWhile (\<lambda>c. c = 32) s"

text \<open>The loop of \<open>inet_addr\<close> (\<open>rs9113_wifi/wifi.c\<close>) over the numbers still to come.\<close>

fun inet_loop :: "nat \<Rightarrow> u32 \<Rightarrow> bytes \<Rightarrow> u32" where
  "inet_loop 0 ip s = ip"
| "inet_loop (Suc k) ip s =
     (let (tmp, r) = strtoul10 (skip_spaces s);
          ip' = push_bit 8 ip OR tmp;
          r' = skip_spaces r
      in if k = 0 then ip'
         else if ch0 r' \<noteq> 46 then 0
         else inet_loop k ip' (tl r'))"

definition inet_addr :: "bytes \<Rightarrow> u32" where
  "inet_addr s = inet_loop 4 0 s"

definition MAKE_IP :: "u32 \<Rightarrow> u32 \<Rightarrow> u32 \<Rightarrow> u32 \<Rightarrow> u32" where
  "MAKE_IP h mh ml l = push_bit 24 l OR push_bit 16 ml OR push_bit 8 mh OR h"

abbreviation (input) RSI_BAND_5GHZ :: int where "RSI_BAND_5GHZ \<equiv> 1"

text \<open>The steps of \<open>root_task\<close> from the loading of the settings to the address of the controller.\<close>

definition root_configure :: "config \<Rightarrow> config" where
  "root_configure c0 =
     (let c = load_configuration c0;
          c1 = c\<lparr>RSI_CONFIG_CLIENT_BAND := RSI_BAND c, RSI_CLIENT_BITMAP_2_4 := RSI_SCAN_CHANNEL_BIT_MAP_2_4 c\<rparr>;
          c2 = (if RSI_BAND c1 = RSI_BAND_5GHZ
                then c1\<lparr>RSI_SCAN_CHANNEL_BIT_MAP_5 := RSI_SCAN_CHANNEL_BIT_MAP_2_4 c1,
                        RSI_CLIENT_BITMAP_5_0 := RSI_SCAN_CHANNEL_BIT_MAP_2_4 c1\<rparr> else c1);
          ip = inet_addr (cstr (remote_ip_str c2))
      in if ip = 0 then c2
         else c2\<lparr>controller_ip := drop_bit 24 ip OR (drop_bit 8 ip AND 0xFF00) OR (push_bit 8 ip AND 0xFF0000) OR push_bit 24 ip\<rparr>)"

section \<open>The table\<close>

lemma table_names:
  "\<forall>it\<in>set params. section_ok (ci_sec it) \<and> key_ok (ci_name it)
    \<and> (ci_type it = PARAM_TYPE_STR \<longrightarrow> 0 < ci_size it \<and> ci_size it \<le> 32)"
  by code_simp

lemma table_distinct:
  "\<forall>it\<in>set params. \<forall>it'\<in>set params. ci_name it = ci_name it' \<or> \<not> same_text (ci_name it) (ci_name it')"
  "distinct (map ci_data params)" "distinct (map ci_name params)"
  by code_simp+

lemma table_types:
  "\<forall>it\<in>set params. (ci_type it = PARAM_TYPE_STR \<longleftrightarrow> ci_data it \<in> {P_ssid, P_password, P_remote_ip})
    \<and> (ci_type it = PARAM_TYPE_FLOAT \<longleftrightarrow> ci_data it \<in> {P_detY, P_detTheta})"
  by code_simp

lemma get_config_item_in: "get_config_item name = Some it \<Longrightarrow> it \<in> set params \<and> ci_name it = name"
  by (auto simp: get_config_item_def find_Some_iff)

lemma config_file_name: "ini_tempname CONFIG_FILENAME 256 \<noteq> CONFIG_FILENAME"
  by code_simp

lemma load_item_ini [simp]: "ini (load_item it c) = ini c"
  by (cases "ci_type it"; cases "ci_data it") (simp_all add: load_item_def Let_def set_int_def set_float_def set_str_def)

lemma load_item_other:
  assumes "ci_data it \<noteq> p"
  shows "get_int p (load_item it c) = get_int p c" "get_float p (load_item it c) = get_float p c"
    "get_str p (load_item it c) = get_str p c"
  using assms
  by (cases "ci_type it"; cases "ci_data it"; cases p;
      simp add: load_item_def Let_def set_int_def set_float_def set_str_def get_int_def get_float_def get_str_def)+

lemma fold_load_other:
  assumes "p \<notin> ci_data ` set its"
  shows "get_int p (fold load_item its c) = get_int p c" "get_float p (fold load_item its c) = get_float p c"
    "get_str p (fold load_item its c) = get_str p c"
  using assms by (induction its arbitrary: c) (auto simp: load_item_other)

lemma fold_load_ini [simp]: "ini (fold load_item its c) = ini c"
  by (induction its arbitrary: c) simp_all

text \<open>Each variable is loaded once.\<close>

lemma load_configuration_item:
  assumes "it \<in> set params"
  shows "\<exists>c'. ini c' = ini c \<and> get_int (ci_data it) c' = get_int (ci_data it) c \<and> get_float (ci_data it) c' = get_float (ci_data it) c
    \<and> get_str (ci_data it) c' = get_str (ci_data it) c
    \<and> get_int (ci_data it) (load_configuration c) = get_int (ci_data it) (load_item it c')
    \<and> get_float (ci_data it) (load_configuration c) = get_float (ci_data it) (load_item it c')
    \<and> get_str (ci_data it) (load_configuration c) = get_str (ci_data it) (load_item it c')"
proof -
  obtain xs ys where s: "params = xs @ it # ys" using assms by (meson split_list)
  then have "ci_data it \<notin> ci_data ` set xs" "ci_data it \<notin> ci_data ` set ys"
    using table_distinct(2) unfolding s by (auto simp: image_iff rev_image_eqI)
  then show ?thesis
    by (intro exI [of _ "fold load_item xs c"]) (simp add: load_configuration_def s fold_load_other)
qed

section \<open>A setting survives a reset\<close>

lemma write_val_ini [simp]: "ini (write_val it val c) = ini c"
  by (cases "ci_type it"; cases "ci_data it") (simp_all add: write_val_def set_int_def set_float_def set_str_def)

text \<open>How a stored text sets a number when it is loaded.\<close>

definition load_number :: "bytes \<Rightarrow> int" where
  "load_number v = (if 2 \<le> length v \<and> toupper (v ! 1) = 88 then strtol v 16 else strtol v 10)"

lemma get_set_str:
  "ci_type it = PARAM_TYPE_STR \<Longrightarrow> it \<in> set params \<Longrightarrow> get_str (ci_data it) (set_str (ci_data it) b c) = b"
  using table_types by (auto simp: get_str_def set_str_def)

lemma get_set_int:
  assumes "ci_type it = PARAM_TYPE_INT32" "it \<in> set params"
  shows "get_int (ci_data it) (set_int (ci_data it) n c) = n"
proof -
  have "ci_data it \<notin> {P_ssid, P_password, P_remote_ip, P_detY, P_detTheta}" using table_types assms by force
  then show ?thesis by (cases "ci_data it") (simp_all add: get_int_def set_int_def)
qed

lemma cstr_store_str: "0 \<notin> set v \<Longrightarrow> cstr (store_str v b) = v"
  by (simp add: store_str_def)

lemma load_str:
  assumes "it \<in> set params" "ci_type it = PARAM_TYPE_STR" "0 \<notin> set v"
    "\<And>D. ini_gets (Some (ci_sec it)) (ci_name it) D (ci_size it) CONFIG_FILENAME (ini c) = v"
  shows "cstr (get_str (ci_data it) (load_configuration c)) = v"
proof -
  obtain c' where "ini c' = ini c" "get_str (ci_data it) (load_configuration c) = get_str (ci_data it) (load_item it c')"
    using load_configuration_item [OF assms(1)] by metis
  then show ?thesis
    using assms(2-4) get_set_str [OF assms(2,1)] by (simp add: load_item_def Let_def cstr_store_str)
qed

lemma load_int:
  assumes "it \<in> set params" "ci_type it = PARAM_TYPE_INT32" "v \<noteq> []"
    "\<And>D. ini_gets (Some (ci_sec it)) (ci_name it) D 64 CONFIG_FILENAME (ini c) = v"
  shows "get_int (ci_data it) (load_configuration c) = load_number v"
proof -
  obtain c' where "ini c' = ini c" "get_int (ci_data it) (load_configuration c) = get_int (ci_data it) (load_item it c')"
    using load_configuration_item [OF assms(1)] by metis
  then show ?thesis
    using assms(2-4) get_set_int [OF assms(2,1)] by (simp add: load_item_def Let_def ini_getl_def load_number_def)
qed

lemma read_config_other:
  assumes "name \<noteq> other" "get_config_item name = Some it"
    "\<And>S' K' D m. S' \<noteq> [] \<Longrightarrow> 0 \<notin> set S' \<Longrightarrow> 0 \<notin> set K' \<Longrightarrow> \<not> (same_text (ci_sec it) S' \<and> same_text name K')
       \<Longrightarrow> ini_gets (Some S') K' D m CONFIG_FILENAME (ini c') = ini_gets (Some S') K' D m CONFIG_FILENAME (ini c)"
  shows "read_config other n c' = read_config other n c"
proof (cases "get_config_item other")
  case None
  then show ?thesis by (simp add: read_config_def)
next
  case (Some it')
  have i: "it \<in> set params" "ci_name it = name" "it' \<in> set params" "ci_name it' = other"
    using get_config_item_in [OF assms(2)] get_config_item_in [OF Some] by auto
  then have "\<not> same_text name other" using table_distinct(1) assms(1) by blast
  moreover have "section_ok (ci_sec it')" "key_ok other" using table_names i by auto
  then have "ci_sec it' \<noteq> []" "0 \<notin> set (ci_sec it')" "0 \<notin> set other" by (auto simp: section_ok_def key_ok_def)
  ultimately show ?thesis using assms(3) Some i(4) by (simp add: read_config_def)
qed

text \<open>A written setting is read back as long as the file stays as it is.\<close>

lemma write_config_reads:
  assumes "get_config_item name = Some it" "entry_ok name val" "\<forall>t. ini c CONFIG_FILENAME = Some t \<longrightarrow> 0 \<notin> set t"
  shows "\<exists>c'. write_config True name val c = Some ((if ci_attr it = 1 then 1 else 0), c')
    \<and> (\<forall>c0 n. ini c0 = ini c' \<longrightarrow> length val < n \<longrightarrow> n \<le> 256 \<longrightarrow> read_config name n c0 = (0, Some val))"
proof -
  have it: "it \<in> set params" "ci_name it = name" using get_config_item_in [OF assms(1)] by auto
  have "section_ok (ci_sec it)" using table_names it(1) by auto
  then obtain fs where fs: "ini_puts True (Some (ci_sec it)) (Some name) (Some val) CONFIG_FILENAME (ini c) = Some (True, fs)"
    "\<And>D n. length val < n \<Longrightarrow> n \<le> 256 \<Longrightarrow> ini_gets (Some (ci_sec it)) name D n CONFIG_FILENAME fs = val"
    using ini_puts_update [where fs = "ini c" and F = CONFIG_FILENAME, OF _ assms(2) config_file_name assms(3)] by blast
  then show ?thesis using assms(1) it(2) by (simp add: write_config_def read_config_def)
qed

text \<open>
  C23: a setting that was written is read back, also after a reset: a string parameter is what
  was written when the file is loaded, a number is loaded from its text, and every other
  setting keeps the text it has in the file.
\<close>

theorem setting_survives_reset:
  assumes "get_config_item name = Some it" "entry_ok name val" "val \<noteq> []"
    "length val < (if ci_type it = PARAM_TYPE_STR then ci_size it else 64)"
    "\<forall>t. ini c CONFIG_FILENAME = Some t \<longrightarrow> 0 \<notin> set t"
  shows "\<exists>c'. write_config True name val c = Some ((if ci_attr it = 1 then 1 else 0), c') \<and> read_config name 64 c' = (0, Some val)
    \<and> (\<forall>other n. other \<noteq> name \<longrightarrow> read_config other n c' = read_config other n c)
    \<and> (\<forall>c0. ini c0 = ini c' \<longrightarrow>
         (ci_type it = PARAM_TYPE_STR \<longrightarrow> cstr (get_str (ci_data it) (load_configuration c0)) = val)
       \<and> (ci_type it = PARAM_TYPE_INT32 \<longrightarrow> get_int (ci_data it) (load_configuration c0) = load_number val))"
proof -
  have it: "it \<in> set params" "ci_name it = name" using get_config_item_in [OF assms(1)] by auto
  have ok: "section_ok (ci_sec it)" "ci_type it = PARAM_TYPE_STR \<longrightarrow> ci_size it \<le> 32" using table_names it(1) by auto
  have val: "0 \<notin> set val" using assms(2) by (simp add: entry_ok_def value_ok_def)
  obtain fs where fs: "ini_puts True (Some (ci_sec it)) (Some name) (Some val) CONFIG_FILENAME (ini c) = Some (True, fs)"
    "\<And>D n. length val < n \<Longrightarrow> n \<le> 256 \<Longrightarrow> ini_gets (Some (ci_sec it)) name D n CONFIG_FILENAME fs = val"
    "\<And>S' K' D m. S' \<noteq> [] \<Longrightarrow> 0 \<notin> set S' \<Longrightarrow> 0 \<notin> set K' \<Longrightarrow> \<not> (same_text (ci_sec it) S' \<and> same_text name K')
       \<Longrightarrow> ini_gets (Some S') K' D m CONFIG_FILENAME fs = ini_gets (Some S') K' D m CONFIG_FILENAME (ini c)"
    using ini_puts_update [where fs = "ini c" and F = CONFIG_FILENAME, OF ok(1) assms(2) config_file_name assms(5)] by blast
  have len: "length val < 64" using assms(4) ok(2) by (auto split: if_splits)
  let ?c' = "write_val it val (c\<lparr>ini := fs\<rparr>)"
  have "write_config True name val c = Some ((if ci_attr it = 1 then 1 else 0), ?c')"
    using assms(1) it(2) fs(1) by (simp add: write_config_def)
  moreover have "read_config name 64 ?c' = (0, Some val)"
    using assms(1) it(2) fs(2) [OF len] by (simp add: read_config_def)
  moreover have "read_config other n ?c' = read_config other n c" if "other \<noteq> name" for other n
    by (rule read_config_other [OF that [symmetric] assms(1)]) (use fs(3) in simp)
  moreover have "cstr (get_str (ci_data it) (load_configuration c0)) = val"
    if "ini c0 = ini ?c'" "ci_type it = PARAM_TYPE_STR" for c0
    by (rule load_str [OF it(1) that(2) val]) (use that fs(2) [of "ci_size it"] assms(4) ok(2) it(2) in simp)
  moreover have "get_int (ci_data it) (load_configuration c0) = load_number val"
    if "ini c0 = ini ?c'" "ci_type it = PARAM_TYPE_INT32" for c0
    by (rule load_int [OF it(1) that(2) assms(3)]) (use that fs(2) [OF len] it(2) in simp)
  ultimately show ?thesis by blast
qed

definition demo_config :: config where
  "demo_config = \<lparr>agv_id = 0, controller_port = 3000, local_port = 3001, RSI_BAND = 0, RSI_SCAN_CHANNEL_BIT_MAP_2_4 = 0,
     wifi_ssid = replicate 32 0, wifi_password = replicate 32 0, remote_ip_str = replicate 16 0, cfg_detY0 = 0,
     cfg_detTheta0 = 0, controller_ip = 0, RSI_CONFIG_CLIENT_BAND = 0, RSI_CLIENT_BITMAP_2_4 = 0, RSI_CLIENT_BITMAP_5_0 = 0,
     RSI_SCAN_CHANNEL_BIT_MAP_5 = 0, ini = \<lambda>_. None\<rparr>"

theorem setting_survives_reset_witness:
  "\<exists>c'. write_config True (str ''password'') (str ''a;b'') demo_config = Some (1, c')
    \<and> cstr (wifi_password (load_configuration (demo_config\<lparr>ini := ini c'\<rparr>))) = str ''a;b''"
proof -
  have i: "get_config_item (str ''password'') = Some (item ''password'' ''WIFI'' PARAM_TYPE_STR P_password 32 1)" by code_simp
  have e: "entry_ok (str ''password'') (str ''a;b'')" "str ''a;b'' \<noteq> []" "length (str ''a;b'') = 3" by code_simp+
  have s: "get_str P_password c = wifi_password c" for c by (simp add: get_str_def)
  obtain c' where c: "write_config True (str ''password'') (str ''a;b'') demo_config = Some (1, c')"
    "\<forall>c0. ini c0 = ini c' \<longrightarrow> cstr (get_str P_password (load_configuration c0)) = str ''a;b''"
    using setting_survives_reset [OF i e(1,2), of demo_config] e(3)
    by (auto simp: item_def demo_config_def)
  then show ?thesis using s spec [OF c(2), of "demo_config\<lparr>ini := ini c'\<rparr>"] by simp
qed

section \<open>A string as long as its array\<close>

text \<open>
  a string parameter that is as long as its array or longer is stored without a terminating
  NUL, so that its readers run past it; loading the same text from the file cuts it to fit.
\<close>

theorem long_setting_unterminated:
  assumes "get_config_item name = Some it" "ci_type it = PARAM_TYPE_STR" "ci_size it \<le> length val" "0 \<notin> set val"
    "length (get_str (ci_data it) c) = ci_size it" "write_config wr name val c = Some (r, c')"
  shows "r = 1 \<and> length (get_str (ci_data it) c') = ci_size it \<and> 0 \<notin> set (get_str (ci_data it) c')"
proof -
  have it: "it \<in> set params" using get_config_item_in [OF assms(1)] by simp
  obtain ok fs where fs: "r = (if ci_attr it = 1 then 1 else 0)" "c' = write_val it val (c\<lparr>ini := fs\<rparr>)"
    using assms(1,6) by (auto simp: write_config_def split: bind_splits)
  have g: "get_str (ci_data it) (c\<lparr>ini := fs\<rparr>) = get_str (ci_data it) c" by (cases "ci_data it") (simp_all add: get_str_def)
  have w: "get_str (ci_data it) c' = take (ci_size it) val"
    using assms(2,3,5) get_set_str [OF assms(2) it] fs(2) g by (simp add: write_val_def strncpy_def)
  have "\<forall>it\<in>set params. ci_type it = PARAM_TYPE_STR \<longrightarrow> ci_attr it = 1" by code_simp
  then show ?thesis using it assms(2-4) fs(1) w by (auto dest: in_set_takeD)
qed

theorem long_setting_unterminated_witness:
  "\<exists>c'. write_config True (str ''controler_ip'') (str ''192.168.100.200 '') demo_config = Some (1, c')
    \<and> length (remote_ip_str c') = 16 \<and> 0 \<notin> set (remote_ip_str c')"
proof -
  let ?it = "item ''controler_ip'' ''COM'' PARAM_TYPE_STR P_remote_ip 16 1" and ?v = "str ''192.168.100.200 ''"
  have i: "get_config_item (str ''controler_ip'') = Some ?it" by code_simp
  have f: "ci_type ?it = PARAM_TYPE_STR" "ci_size ?it = 16" "ci_data ?it = P_remote_ip" "ci_sec ?it = str ''COM''"
    "ci_name ?it = str ''controler_ip''" by (simp_all add: item_def)
  have v: "0 \<notin> set ?v" "length ?v = 16" by code_simp+
  have g: "get_str P_remote_ip c = remote_ip_str c" for c by (simp add: get_str_def)
  have "ini demo_config CONFIG_FILENAME = None" by (simp add: demo_config_def)
  then obtain r c' where w: "write_config True (str ''controler_ip'') ?v demo_config = Some (r, c')"
    using i f by (simp add: write_config_def ini_puts_def)
  have "r = 1 \<and> length (get_str (ci_data ?it) c') = ci_size ?it \<and> 0 \<notin> set (get_str (ci_data ?it) c')"
    by (rule long_setting_unterminated [OF i _ _ v(1) _ w])
      (use f v(2) g [of demo_config] in \<open>simp_all add: demo_config_def\<close>)
  then show ?thesis using w f g by auto
qed

section \<open>The address of the controller\<close>

lemma dec_digits_digits: "dec_digits n \<noteq> []" "\<forall>c\<in>set (dec_digits n). isdigit c"
proof (induction n rule: dec_digits.induct)
  case (1 n)
  have d: "isdigit (of_nat (48 + m))" if "m < 10" for m
  proof -
    have "m \<in> {0, 1, 2, 3, 4, 5, 6, 7, 8, 9}" using that by auto
    then show ?thesis by (auto simp: isdigit_def)
  qed
  show "dec_digits n \<noteq> []" by (subst dec_digits.simps) simp
  show "\<forall>c\<in>set (dec_digits n). isdigit c"
    using 1(2) d by (subst dec_digits.simps) auto
qed

lemma digit_plain: "isdigit c \<Longrightarrow> c \<noteq> 32 \<and> \<not> isspace c \<and> c \<noteq> 45 \<and> c \<noteq> 43"
  by (auto simp: isdigit_def isspace_def word_le_nat_alt)

lemma strtoul10_dec:
  assumes "n \<le> 255" "\<not> isdigit (ch0 s)"
  shows "strtoul10 (dec_digits n @ s) = (of_nat n, s)" "skip_spaces (dec_digits n @ s) = dec_digits n @ s"
proof -
  obtain c cs where d: "dec_digits n = c # cs" using dec_digits_digits(1) [of n] by (cases "dec_digits n") auto
  then have c: "isdigit c" using dec_digits_digits(2) [of n] by simp
  have "digits_val 10 0 (dec_digits n @ s) = digits_val 10 n s" using digits_val_dec [of 0 n s] by simp
  also have "\<dots> = (n, s)"
  proof (cases s)
    case (Cons x xs)
    then have "digit_val x = None \<or> (\<exists>d. digit_val x = Some d \<and> 10 \<le> d)"
      using assms(2) by (auto simp: digit_val_def word_le_nat_alt)
    then show ?thesis using Cons by auto
  qed simp
  finally show "strtoul10 (dec_digits n @ s) = (of_nat n, s)"
    using d c digit_plain [OF c] assms(1) by (simp add: strtoul10_def take_sign_def)
  show "skip_spaces (dec_digits n @ s) = dec_digits n @ s" using d digit_plain [OF c] by simp
qed

definition dotted :: "u8 \<Rightarrow> u8 \<Rightarrow> u8 \<Rightarrow> u8 \<Rightarrow> bytes" where
  "dotted a b c d = dec_digits (unat a) @ 46 # dec_digits (unat b) @ 46 # dec_digits (unat c) @ 46 # dec_digits (unat d)"

lemma inet_loop_step:
  "inet_loop (Suc (Suc k)) ip (dec_digits (unat a) @ 46 # s) = inet_loop (Suc k) (push_bit 8 ip OR ucast (a :: u8)) s"
proof -
  have "unat a < 2 ^ LENGTH(8)" by (rule unsigned_less)
  then have "unat a \<le> 255" by simp
  moreover have "\<not> isdigit (ch0 (46 # s))" by (simp add: isdigit_def)
  ultimately show ?thesis
    using strtoul10_dec [of "unat a" "46 # s"] by (simp add: Let_def)
qed

lemma inet_addr_dotted:
  "inet_addr (dotted a b c d) = push_bit 24 (ucast a) OR push_bit 16 (ucast b) OR push_bit 8 (ucast c) OR ucast d"
proof -
  have "unat d < 2 ^ LENGTH(8)" by (rule unsigned_less)
  then have "unat d \<le> 255" by simp
  then have last: "inet_loop (Suc 0) ip (dec_digits (unat d)) = push_bit 8 ip OR ucast d" for ip
    using strtoul10_dec [of "unat d" "[]"] by (simp add: isdigit_def)
  have "inet_addr (dotted a b c d) = inet_loop (Suc (Suc (Suc (Suc 0)))) 0 (dotted a b c d)"
    by (simp add: inet_addr_def numeral_eq_Suc)
  also have "\<dots> = push_bit 8 (push_bit 8 (push_bit 8 (push_bit 8 0 OR ucast a) OR ucast b) OR ucast c) OR ucast d"
    unfolding dotted_def inet_loop_step last ..
  finally show ?thesis by (simp add: push_bit_or or.assoc)
qed

text \<open>The word with its bytes the other way round.\<close>

lemma swap_address:
  fixes a b c d :: u8
  defines "ip \<equiv> push_bit 24 (ucast a) OR push_bit 16 (ucast b) OR push_bit 8 (ucast c) OR ucast d :: u32"
  shows "drop_bit 24 ip OR (drop_bit 8 ip AND 0xFF00) OR (push_bit 8 ip AND 0xFF0000) OR push_bit 24 ip
    = MAKE_IP (ucast a) (ucast b) (ucast c) (ucast d)"
proof -
  have m: "(0xFF00 :: u32) = push_bit 8 (mask 8)" "(0xFF0000 :: u32) = push_bit 16 (mask 8)"
    by (simp_all add: mask_eq_exp_minus_1)
  have b: "bit (ucast x :: u32) n \<longleftrightarrow> n < 8 \<and> bit x n" for x :: u8 and n
    using bit_imp_le_length [of x n] by (auto simp: bit_simps)
  show ?thesis
    unfolding m ip_def MAKE_IP_def
  proof (rule bit_word_eqI)
    fix n :: nat
    assume "n < LENGTH(32)"
    then consider "n < 8" | "8 \<le> n" "n < 16" | "16 \<le> n" "n < 24" | "24 \<le> n" "n < 32" by fastforce
    then show "bit (drop_bit 24 (push_bit 24 (ucast a) OR push_bit 16 (ucast b) OR push_bit 8 (ucast c) OR ucast d)
        OR (drop_bit 8 (push_bit 24 (ucast a) OR push_bit 16 (ucast b) OR push_bit 8 (ucast c) OR ucast d) AND push_bit 8 (mask 8))
        OR (push_bit 8 (push_bit 24 (ucast a) OR push_bit 16 (ucast b) OR push_bit 8 (ucast c) OR ucast d) AND push_bit 16 (mask 8))
        OR push_bit 24 (push_bit 24 (ucast a) OR push_bit 16 (ucast b) OR push_bit 8 (ucast c) OR ucast d) :: u32) n
      = bit (push_bit 24 (ucast d) OR push_bit 16 (ucast c) OR push_bit 8 (ucast b) OR ucast a :: u32) n"
      by cases (auto simp: bit_or_iff bit_and_iff bit_push_bit_iff bit_drop_bit_eq bit_mask_iff b)
  qed
qed

text \<open>
  C40: an address in the settings selects the controller that the macro \<open>MAKE_IP\<close> of the built-in
  settings would: dotted decimal, four numbers of one byte.
\<close>

theorem configured_address:
  assumes "ini_gets (Some (str ''COM'')) (str ''controler_ip'') (cstr (remote_ip_str c)) 16 CONFIG_FILENAME (ini c) = dotted b1 b2 b3 b4"
    "\<not> (b1 = 0 \<and> b2 = 0 \<and> b3 = 0 \<and> b4 = 0)"
  shows "controller_ip (root_configure c) = MAKE_IP (ucast b1) (ucast b2) (ucast b3) (ucast b4)"
proof -
  let ?it = "item ''controler_ip'' ''COM'' PARAM_TYPE_STR P_remote_ip 16 1"
  have p: "?it \<in> set params" by (simp add: params_def)
  obtain c' where c': "ini c' = ini c" "get_str P_remote_ip c' = get_str P_remote_ip c"
    "get_str P_remote_ip (load_configuration c) = get_str P_remote_ip (load_item ?it c')"
    using load_configuration_item [OF p, of c] by (auto simp: item_def)
  have z: "0 \<notin> set (dotted b1 b2 b3 b4)"
    using dec_digits_digits(2) by (fastforce simp: dotted_def isdigit_def)
  have r: "cstr (remote_ip_str (load_configuration c)) = dotted b1 b2 b3 b4"
    using c' assms(1) cstr_store_str [OF z] by (simp add: load_item_def item_def Let_def get_str_def set_str_def)
  let ?ip = "push_bit 24 (ucast b1) OR push_bit 16 (ucast b2) OR push_bit 8 (ucast b3) OR ucast b4 :: u32"
  have "?ip \<noteq> 0"
  proof
    assume i: "?ip = 0"
    have "bit b1 n = False" "bit b2 n = False" "bit b3 n = False" "bit b4 n = False" if "n < 8" for n
      using that arg_cong [OF i, of "\<lambda>w. bit w (n + 24)"] arg_cong [OF i, of "\<lambda>w. bit w (n + 16)"]
        arg_cong [OF i, of "\<lambda>w. bit w (n + 8)"] arg_cong [OF i, of "\<lambda>w. bit w n"]
      by (simp_all add: bit_simps)
    then have "b1 = 0" "b2 = 0" "b3 = 0" "b4 = 0" by (auto intro!: bit_word_eqI)
    then show False using assms(2) by simp
  qed
  then show ?thesis
    using r inet_addr_dotted [of b1 b2 b3 b4] swap_address [of b1 b2 b3 b4]
    by (simp add: root_configure_def Let_def)
qed

theorem configured_address_witness:
  "controller_ip (root_configure (demo_config\<lparr>remote_ip_str := str ''192.168.51.180'' @ [0, 0]\<rparr>)) = MAKE_IP 192 168 51 180"
proof -
  let ?c = "demo_config\<lparr>remote_ip_str := str ''192.168.51.180'' @ [0, 0]\<rparr>"
  have "ini_gets (Some (str ''COM'')) (str ''controler_ip'') (cstr (remote_ip_str ?c)) 16 CONFIG_FILENAME (ini ?c) = dotted 192 168 51 180"
    by code_simp
  then show ?thesis using configured_address [of ?c 192 168 51 180] by simp
qed

text \<open>A hexadecimal number in the settings is another number now than after a reset.\<close>

theorem hex_setting_differs:
  "atoi (str ''0x10'') = 0 \<and> load_number (str ''0x10'') = 16"
  by code_simp

end
