(* ===== verification/Shell_Cmds.thy ===== *)
theory Shell_Cmds
  imports Shell Configuration Agv_Facts
begin

text \<open>
  The commands of the shell (\<open>common/lwshell.c\<close>), on the state of the whole vehicle: driving the
  motors, the dumper, charging, power, settings, calibration and the reports. \<open>sh_env\<close> holds
  what comes from outside: what the other tasks do during a pause, the clock and the other
  inputs of \<open>agv_env\<close>, the load of the processor, two input pins, the addresses of the Wi-Fi
  module and whether the settings file can be written. The commands on files and directories,
  which only call FatFs, are the function \<open>se_file\<close>. An absent argument is a null pointer,
  which \<open>atoi\<close> and \<open>strcmp\<close> read: \<open>Fault\<close>; so is a text longer than the buffer it is printed to.
\<close>

section \<open>State\<close>

record shell = agv_world +
  sh_config :: config
  spi_debug :: bool
  sh_out :: bytes

record 'w sh_env =
  se_pause :: "u32 \<Rightarrow> 'w \<Rightarrow> 'w"
  se_agv :: agv_env
  OSCPUUsage :: int
  se_wifi_intr :: int
  se_inposition :: bool
  se_ip :: "int list"
  se_mac :: "u8 list"
  se_write :: bool
  se_file :: "bytes \<Rightarrow> bytes list \<Rightarrow> 'w \<Rightarrow> 'w outcome"

definition say :: "bytes \<Rightarrow> 'a shell_scheme \<Rightarrow> 'a shell_scheme" where
  "say text s = s\<lparr>sh_out := sh_out s @ text\<rparr>"

definition CRNL :: bytes where "CRNL = [13, 10]"

definition MS_TO_TICKS :: "int \<Rightarrow> u32" where
  "MS_TO_TICKS ms = of_int (sint (word_of_int (ms * 1000) :: 32 word) sdiv 1000)"

section \<open>Printing\<close>

text \<open>\<open>%f\<close> and \<open>%.2f\<close>: \<open>k\<close> decimals of the exact value, ties to even.\<close>

definition print_fixed :: "nat \<Rightarrow> rat \<Rightarrow> bytes" where
  "print_fixed k x =
     (let n = nat (round_even (\<bar>x\<bar> * 10 ^ k)); ds = dec_digits (n mod 10 ^ k)
      in (if x < 0 then [45] else []) @ dec_digits (n div 10 ^ k) @ 46 # replicate (k - length ds) 48 @ ds)"

definition hex_digit :: "nat \<Rightarrow> u8" where
  "hex_digit n = (if n < 10 then of_nat (48 + n) else of_nat (87 + n))"

definition print_hex2 :: "u8 \<Rightarrow> bytes" where
  "print_hex2 b = [hex_digit (unat b div 16), hex_digit (unat b mod 16)]"

text \<open>\<open>sprintf\<close> into an array of \<open>n\<close> bytes; the text goes to the output.\<close>

definition say_buf :: "nat \<Rightarrow> bytes \<Rightarrow> 'a shell_scheme \<Rightarrow> 'a shell_scheme outcome" where
  "say_buf n text s = (if length text < n then Ret (say text s) else Fault)"

section \<open>Commands\<close>

definition arg :: "bytes list \<Rightarrow> nat \<Rightarrow> bytes option" where
  "arg args i = (if i < length args then Some (args ! i) else None)"

definition atoi_arg :: "bytes list \<Rightarrow> nat \<Rightarrow> int outcome" where
  "atoi_arg args i = (case arg args i of None \<Rightarrow> Fault | Some t \<Rightarrow> Ret (atoi t))"

text \<open>\<open>strcmp\<close> with \<open>on\<close> and \<open>off\<close>.\<close>

definition on_off :: "bytes list \<Rightarrow> bool option outcome" where
  "on_off args = (case arg args 0 of None \<Rightarrow> Fault
     | Some t \<Rightarrow> Ret (if t = str ''on'' then Some True else if t = str ''off'' then Some False else None))"

definition upd_motors :: "(motors \<Rightarrow> motors) \<Rightarrow> 'a shell_scheme \<Rightarrow> 'a shell_scheme" where
  "upd_motors g s = s\<lparr>mc_motors := g (mc_motors s)\<rparr>"

definition sh_motors :: "'a shell_scheme sh_env \<Rightarrow> bytes list \<Rightarrow> 'a shell_scheme \<Rightarrow> (int \<times> 'a shell_scheme) outcome" where
  "sh_motors env args s =
     obind (atoi_arg args 0) (\<lambda>pps_l. obind (atoi_arg args 1) (\<lambda>pps_r. obind (atoi_arg args 2) (\<lambda>msecs.
       if (pps_l = 0 \<and> pps_r = 0) \<or> msecs = 0 then Ret (- perr_code EINVAL, s)
       else
         let s1 = upd_motors (motor_set_direction (if pps_l > 0 then MOVE_FOREWARD_L else MOVE_ROLLBACK_L)
                                                  (if pps_r > 0 then MOVE_FOREWARD_R else MOVE_ROLLBACK_R)) s;
             s2 = upd_motors (DriveWithPluse (of_int \<bar>pps_l\<bar>) (of_int \<bar>pps_r\<bar>)) (se_pause env 20 s1);
             s3 = upd_motors (DriveWithPluse 0 0) (se_pause env (MS_TO_TICKS msecs) s2)
         in Ret (0, s3))))"

definition sh_dumper :: "'a shell_scheme sh_env \<Rightarrow> bytes list \<Rightarrow> 'a shell_scheme \<Rightarrow> (int \<times> 'a shell_scheme) outcome" where
  "sh_dumper env args s =
     obind (atoi_arg args 0) (\<lambda>pps. obind (atoi_arg args 1) (\<lambda>msecs.
       if pps = 0 \<or> msecs = 0 then Ret (- perr_code EINVAL, s)
       else
         let s1 = upd_motors (dumper_set_direction (if pps > 0 then DUMPER_MOTOR_DIR_UP else DUMPER_MOTOR_DIR_DOWN)) s;
             s2 = upd_motors (dumper_drive_with_pluse \<bar>pps\<bar>) (se_pause env 20 s1);
             s3 = upd_motors (dumper_drive_with_pluse 0) (se_pause env (MS_TO_TICKS msecs) s2)
         in Ret (0, s3)))"

text \<open>A query of the battery, or switching the charger first; events go to the coordinator.\<close>

definition bms_op_world ::
  "((u32 \<Rightarrow> bytes \<Rightarrow> 'a shell_scheme outcome \<Rightarrow> 'a shell_scheme outcome) \<Rightarrow> u32 \<Rightarrow> u32 \<Rightarrow> u32
      \<Rightarrow> bms \<times> 'a shell_scheme outcome \<Rightarrow> bms \<times> 'a shell_scheme outcome)
    \<Rightarrow> agv_env \<Rightarrow> 'a shell_scheme \<Rightarrow> 'a shell_scheme outcome" where
  "bms_op_world op env s =
     (case env of (_, now, now2, ext) \<Rightarrow>
        (case op (\<lambda>e ps ow. obind ow (motionctrl_event_callback e (of_nat (length ps)) ps)) now now2 ext (agv_bms s, Ret s) of
           (b, ow) \<Rightarrow> obind ow (\<lambda>s1. Ret (s1\<lparr>agv_bms := b\<rparr>))))"

definition sh_charge :: "'a shell_scheme sh_env \<Rightarrow> bytes list \<Rightarrow> 'a shell_scheme \<Rightarrow> (int \<times> 'a shell_scheme) outcome" where
  "sh_charge env args s =
     obind (on_off args) (\<lambda>r. case r of
         None \<Rightarrow> Ret (- perr_code EINVAL, s)
       | Some on \<Rightarrow> obind (bms_op_world (\<lambda>evt now now2 ext. bms_charge evt now now2 ext on) (se_agv env) s) (\<lambda>s1. Ret (0, s1)))"

definition sh_power :: "bytes list \<Rightarrow> 'a shell_scheme \<Rightarrow> (int \<times> 'a shell_scheme) outcome" where
  "sh_power args s =
     obind (on_off args) (\<lambda>r. case r of
         None \<Rightarrow> Ret (- perr_code EINVAL, s)
       | Some on \<Rightarrow> Ret (0, upd_motors (\<lambda>m. m\<lparr>motors_detach := (if on then 1 else 0)\<rparr>) s))"

definition sh_debug :: "bytes list \<Rightarrow> 'a shell_scheme \<Rightarrow> (int \<times> 'a shell_scheme) outcome" where
  "sh_debug args s =
     obind (on_off args) (\<lambda>r. case r of
         None \<Rightarrow> Ret (- perr_code EINVAL, s)
       | Some on \<Rightarrow> Ret (0, s\<lparr>spi_debug := on\<rparr>))"

definition sh_usage :: "'a shell_scheme sh_env \<Rightarrow> 'a shell_scheme \<Rightarrow> (int \<times> 'a shell_scheme) outcome" where
  "sh_usage env s =
     (let d = print_int (OSCPUUsage env)
      in obind (say_buf 32 (str ''cpu usage: '' @ replicate (2 - length d) 32 @ d @ str ''%'' @ CRNL) s) (\<lambda>s1. Ret (0, s1)))"

text \<open>The settings see the corrections of the scanner where \<open>Navigation.c\<close> keeps them.\<close>

definition settings :: "'a shell_scheme \<Rightarrow> config" where
  "settings s = (sh_config s)\<lparr>cfg_detY0 := detY0 s, cfg_detTheta0 := detTheta0 s\<rparr>"

definition put_settings :: "config \<Rightarrow> 'a shell_scheme \<Rightarrow> 'a shell_scheme" where
  "put_settings c s = s\<lparr>sh_config := c, detY0 := cfg_detY0 c, detTheta0 := cfg_detTheta0 c\<rparr>"

text \<open>A write that does not return is a call that does not return.\<close>

definition write_setting :: "bool \<Rightarrow> bytes \<Rightarrow> bytes \<Rightarrow> 'a shell_scheme \<Rightarrow> (int \<times> 'a shell_scheme) outcome" where
  "write_setting wr name val s =
     (case write_config wr name val (settings s) of None \<Rightarrow> Hang | Some (r, c) \<Rightarrow> Ret (r, put_settings c s))"

definition show_config_item :: "bytes \<times> paramtype \<times> bytes \<Rightarrow> 'a shell_scheme \<Rightarrow> 'a shell_scheme" where
  "show_config_item it s =
     (case it of (name, ty, val) \<Rightarrow>
        say ((case ty of PARAM_TYPE_INT32 \<Rightarrow> 9 # str ''int '' | PARAM_TYPE_FLOAT \<Rightarrow> 9 # str ''double ''
              | PARAM_TYPE_STR \<Rightarrow> 9 # str ''string '') @ name @ str '' = '' @ val @ CRNL) s)"

text \<open>An argument is missing when it is absent or empty.\<close>

definition no_arg :: "bytes list \<Rightarrow> nat \<Rightarrow> bool" where
  "no_arg args i \<longleftrightarrow> arg args i = None \<or> arg args i = Some []"

definition sh_set :: "'a shell_scheme sh_env \<Rightarrow> bytes list \<Rightarrow> 'a shell_scheme \<Rightarrow> (int \<times> 'a shell_scheme) outcome" where
  "sh_set env args s =
     (if no_arg args 0 then Ret (0, fold show_config_item (list_config (settings s)) s)
      else if no_arg args 1 then
        case read_config (args ! 0) 32 (settings s) of
          (err, None) \<Rightarrow> Ret (0, say (str ''data not found'' @ CRNL) s)
        | (err, Some val) \<Rightarrow> Ret (0, say (args ! 0 @ str '' = '' @ val @ CRNL) s)
      else
        obind (write_setting (se_write env) (args ! 0) (args ! 1) s) (\<lambda>(err, s1).
          Ret (0, if err < 0 then say (str ''data not found'' @ CRNL) s1
                  else if err = 1 then say (str ''to make it work, a reset is needed'' @ CRNL) s1 else s1)))"

definition sh_cali_camera :: "'a shell_scheme sh_env \<Rightarrow> 'a shell_scheme \<Rightarrow> (int \<times> 'a shell_scheme) outcome" where
  "sh_cali_camera env s0 =
     (let s = Calibrate s0; y = print_fixed 6 (detY0 s); th = print_fixed 6 (detTheta0 s)
      in if \<not> length y < 32 then Fault
         else obind (write_setting (se_write env) (str ''detY'') y s) (\<lambda>(_, s1).
           let th1 = print_fixed 6 (detTheta0 s1)
           in if \<not> length th1 < 32 then Fault
              else obind (write_setting (se_write env) (str ''detTheta'') th1 s1) (\<lambda>(_, s2).
                obind (say_buf 32 (9 # str ''detY0 = '' @ print_fixed 6 (detY0 s2)) s2) (\<lambda>s3.
                obind (say_buf 32 (9 # str ''detTheta0 = '' @ print_fixed 6 (detTheta0 s3)) s3) (\<lambda>s4. Ret (0, s4))))))"

definition battery_text :: "battery_info \<Rightarrow> bytes" where
  "battery_text b = str ''vol: '' @ print_fixed 6 (voltage b) @ str '' current: '' @ print_fixed 2 (current b)
     @ str '' power: '' @ dec_digits (unat (power b)) @ str '' temperature: '' @ print_fixed 2 (temperature b) @ CRNL"

definition sh_sysstate :: "'a shell_scheme sh_env \<Rightarrow> 'a shell_scheme \<Rightarrow> (int \<times> 'a shell_scheme) outcome" where
  "sh_sysstate env s0 =
     obind (bms_op_world bms_query (se_agv env) s0) (\<lambda>s.
       let s1 = say (str (if is_dumper_homing (se_inposition env) then ''dumper in position.'' else ''dumper not in position.'') @ CRNL) s
       in obind (say_buf 64 (battery_text (bms_get_battery_info (agv_bms s1))) (say (str ''battery info: '') s1)) (\<lambda>s2.
            Ret (0, say (str (if se_wifi_intr env > 0 then ''wifi intr: high'' else ''wifi intr: low'') @ CRNL) s2)))"

text \<open>The numbers of an address with the separator between them.\<close>

fun separated :: "u8 \<Rightarrow> bytes list \<Rightarrow> bytes" where
  "separated c [] = []"
| "separated c [t] = t"
| "separated c (t # ts) = t @ c # separated c ts"

definition sh_sysinfo :: "'a shell_scheme sh_env \<Rightarrow> 'a shell_scheme \<Rightarrow> (int \<times> 'a shell_scheme) outcome" where
  "sh_sysinfo env s =
     obind (say_buf 20 (str ''AGVID: '' @ print_int (agv_id (sh_config s)) @ CRNL) (say (str ''Software version: 0.6'' @ CRNL) s)) (\<lambda>s1.
     let ip = separated 46 (map print_int (se_ip env)) @ CRNL; mac = separated 45 (map print_hex2 (se_mac env)) @ CRNL
     in if \<not> length ip < 20 then Fault
        else if \<not> length mac < 20 then Fault
        else Ret (0, say (str ''MAC:'' @ mac) (say (str ''IP:'' @ ip) s1)))"

text \<open>\<open>system_reset\<close> resets the processor: nothing after it is executed.\<close>

definition sh_reset :: "'a shell_scheme \<Rightarrow> (int \<times> 'a shell_scheme) outcome" where
  "sh_reset s = Hang"

section \<open>The table\<close>

text \<open>The function pointers of the table.\<close>

datatype cmd_handler = H_cd | H_ls | H_rm | H_rmdir | H_cat | H_pwd | H_set | H_usage | H_reset | H_cali_camera
  | H_motors | H_dumper | H_charge | H_power | H_debug | H_sysstate | H_sysinfo | H_help

definition cmd :: "string \<Rightarrow> string \<Rightarrow> cmd_handler \<Rightarrow> bytes \<times> bytes \<times> cmd_handler" where
  "cmd name comment h = (str name, str comment, h)"

definition builtin_cmds :: "(bytes \<times> bytes \<times> cmd_handler) list" where
  "builtin_cmds =
     [cmd ''cd'' ''change directory'' H_cd,
      cmd ''ls'' ''list contens in directory'' H_ls,
      cmd ''rm'' ''remove a file'' H_rm,
      cmd ''rmdir'' ''remove a directory'' H_rmdir,
      cmd ''cat'' ''optputs the text file contents'' H_cat,
      cmd ''pwd'' ''print working directory'' H_pwd,
      cmd ''set'' ''set [param [val]]:     set parameters'' H_set,
      cmd ''usage'' ''print the cpu usage and other statistic information'' H_usage,
      cmd ''reset'' ''reset the system'' H_reset,
      cmd ''calibrate'' ''calibrate the camera'' H_cali_camera,
      cmd ''motors'' ''drive the two wheels to move.'' H_motors,
      cmd ''dumper'' ''drive the dumper up and (or) down'' H_dumper,
      cmd ''charge'' ''chargeing on/off'' H_charge,
      cmd ''power'' ''switch the motors power'' H_power,
      cmd ''debug'' ''switch the debug information'' H_debug,
      cmd ''sys-state'' ''check the system information. for example: ip, version...'' H_sysstate,
      cmd ''sys-info'' ''check the system information. for example: ip, version...'' H_sysinfo,
      cmd ''help'' ''print this information'' H_help]"

definition sh_help :: "'a shell_scheme \<Rightarrow> (int \<times> 'a shell_scheme) outcome" where
  "sh_help s =
     Ret (0, fold (\<lambda>(name, comment, _). say (9 # name @ 58 # comment @ CRNL)) builtin_cmds (say (str ''builtin commands:'' @ CRNL) s))"

text \<open>The commands on files and directories; their results are not used.\<close>

definition sh_file :: "'a shell_scheme sh_env \<Rightarrow> bytes \<Rightarrow> bytes list \<Rightarrow> 'a shell_scheme \<Rightarrow> (int \<times> 'a shell_scheme) outcome" where
  "sh_file env name args s = obind (se_file env name args s) (\<lambda>s'. Ret (0, s'))"

definition handler :: "'a shell_scheme sh_env \<Rightarrow> cmd_handler \<Rightarrow> bytes list \<Rightarrow> 'a shell_scheme \<Rightarrow> (int \<times> 'a shell_scheme) outcome" where
  "handler env h args s =
     (case h of
        H_cd \<Rightarrow> sh_file env (str ''cd'') args s
      | H_ls \<Rightarrow> sh_file env (str ''ls'') args s
      | H_rm \<Rightarrow> sh_file env (str ''rm'') args s
      | H_rmdir \<Rightarrow> sh_file env (str ''rmdir'') args s
      | H_cat \<Rightarrow> sh_file env (str ''cat'') args s
      | H_pwd \<Rightarrow> sh_file env (str ''pwd'') args s
      | H_set \<Rightarrow> sh_set env args s
      | H_usage \<Rightarrow> sh_usage env s
      | H_reset \<Rightarrow> sh_reset s
      | H_cali_camera \<Rightarrow> sh_cali_camera env s
      | H_motors \<Rightarrow> sh_motors env args s
      | H_dumper \<Rightarrow> sh_dumper env args s
      | H_charge \<Rightarrow> sh_charge env args s
      | H_power \<Rightarrow> sh_power args s
      | H_debug \<Rightarrow> sh_debug args s
      | H_sysstate \<Rightarrow> sh_sysstate env s
      | H_sysinfo \<Rightarrow> sh_sysinfo env s
      | H_help \<Rightarrow> sh_help s)"

definition get_cmd_handler :: "bytes \<Rightarrow> cmd_handler option" where
  "get_cmd_handler name = map_option (\<lambda>(_, _, h). h) (find (\<lambda>(n, _, _). n = name) builtin_cmds)"

definition exec_cmd_builtin :: "'a shell_scheme sh_env \<Rightarrow> bytes \<Rightarrow> bytes list \<Rightarrow> 'a shell_scheme \<Rightarrow> (int \<times> 'a shell_scheme) outcome" where
  "exec_cmd_builtin env name args s =
     (case get_cmd_handler name of
        None \<Rightarrow> Ret (- perr_code ENOTSUP, say (str ''Invalid command.'' @ CRNL) s)
      | Some h \<Rightarrow> obind (handler env h args s) (\<lambda>(_, s'). Ret (0, s')))"

definition exec :: "'a shell_scheme sh_env \<Rightarrow> bytes list \<Rightarrow> 'a shell_scheme \<Rightarrow> (int \<times> 'a shell_scheme) outcome" where
  "exec env args s = exec_cmd_builtin env (hd args) (tl args) s"

text \<open>The console on the vehicle: what is read, and the state it starts in.\<close>

definition run_exec :: "'a shell_scheme sh_env \<Rightarrow> bytes list \<Rightarrow> 'a shell_scheme \<Rightarrow> 'a shell_scheme outcome" where
  "run_exec env args s = obind (exec env args s) (\<lambda>(_, s'). Ret s')"

definition run_console :: "'a shell_scheme sh_env \<Rightarrow> read_ch list \<Rightarrow> 'a shell_scheme \<Rightarrow> 'a shell_scheme outcome" where
  "run_console env rs s = omap con_world (console_run say (run_exec env) rs (console_start say s))"

section \<open>A line typed on the vehicle\<close>

lemma say_say [simp]: "say b (say a s) = say (a @ b) s"
  by (simp add: say_def)

lemma edit_run_say:
  assumes "\<forall>c\<in>set x. isprint c" "length l + length x \<le> 127"
  shows "edit_run say run (map Ch x @ rs) (l, d, s) = edit_run say run rs (l @ x, d, say x s)"
  using assms
proof (induction x arbitrary: l s)
  case Nil
  then show ?case by (simp add: say_def)
next
  case (Cons c x)
  then have "c \<noteq> 8 \<and> c \<noteq> 13 \<and> c \<noteq> 10" by (auto simp: isprint_def)
  then show ?case using Cons by (simp add: edit_char_def)
qed

lemma console_line:
  assumes "\<forall>c\<in>set x. isprint c" "length x \<le> 127" "words x \<noteq> []"
  shows "run_console env (map Ch (x @ [13])) s
    = obind (run_exec env (take 8 (words x)) (say ([62, 32] @ x @ [13, 10, 13]) s)) (\<lambda>s'. Ret (say [62, 32] s'))"
proof -
  have "omap con_world m = omap (\<lambda>e. snd (snd e)) (omap con_editor m)" for m :: "'a shell_scheme console outcome"
    by (cases m) (simp_all add: con_editor_def)
  then have "run_console env (map Ch (x @ [13])) s
      = omap (\<lambda>e. snd (snd e)) (edit_run say (run_exec env) (map Ch x @ [Ch 13]) ([], False, say [62, 32] s))"
    using console_run_edits [OF con_start(1), of say "run_exec env" "map Ch (x @ [13])" say s] con_start(2) [of say s]
    by (simp add: run_console_def)
  also have "\<dots> = obind (run_exec env (take 8 (words x)) (say ([62, 32] @ x @ [13, 10, 13]) s)) (\<lambda>s'. Ret (say [62, 32] s'))"
    unfolding edit_run_say [OF assms(1), of "[]", simplified, OF assms(2)]
    using assms(3) by (simp add: edit_char_def omap_def obind_assoc)
  finally show ?thesis .
qed

lemma words_cons:
  assumes "x \<noteq> []" "\<forall>c\<in>set x. \<not> IS_SEPARATOR c"
  shows "words x = [x]" "words (x @ 32 # r) = x # words (32 # r)" "words (32 # x) = [x]" "words (32 # x @ 32 # r) = x # words (32 # r)"
proof -
  have 32: "IS_SEPARATOR 32" by (simp add: IS_SEPARATOR_def)
  have d: "dropWhile IS_SEPARATOR (x @ z) = x @ z" for z using assms by (cases x) auto
  have t: "takeWhile (\<lambda>c. \<not> IS_SEPARATOR c) x = x" "dropWhile (\<lambda>c. \<not> IS_SEPARATOR c) x = []"
    "takeWhile (\<lambda>c. \<not> IS_SEPARATOR c) (x @ 32 # z) = x" "dropWhile (\<lambda>c. \<not> IS_SEPARATOR c) (x @ 32 # z) = 32 # z" for z
    using assms(2) 32 by (simp_all add: takeWhile_append dropWhile_append)
  show "words x = [x]" using d [of "[]"] assms(1) by (subst words.simps) (simp add: Let_def t(1,2))
  show "words (x @ 32 # r) = x # words (32 # r)" using d [of "32 # r"] t(3,4) assms(1) by (subst words.simps) (simp add: Let_def)
  show "words (32 # x) = [x]" using d [of "[]"] 32 assms(1) by (subst words.simps) (simp add: Let_def t(1,2))
  show "words (32 # x @ 32 # r) = x # words (32 # r)"
    using d [of "32 # r"] t(3,4) 32 assms(1) by (subst words.simps) (simp add: Let_def)
qed

text \<open>\<open>set\<close> with a name of the table and a value of printable characters without blanks.\<close>

lemma set_words:
  assumes "get_config_item name = Some it" "\<forall>c\<in>set val. isprint c \<and> c \<noteq> 32" "val \<noteq> []"
  shows "words (str ''set '' @ name @ 32 # val) = [str ''set'', name, val]" "words (str ''set '' @ name) = [str ''set'', name]"
    "\<forall>c\<in>set (str ''set '' @ name). isprint c" "length name \<le> 15" "name \<noteq> []" "key_ok name"
proof -
  have names: "\<forall>it\<in>set params. ci_name it \<noteq> [] \<and> (\<forall>c\<in>set (ci_name it). isprint c \<and> \<not> IS_SEPARATOR c) \<and> length (ci_name it) \<le> 15"
    by code_simp
  have n: "name \<noteq> []" "\<forall>c\<in>set name. isprint c \<and> \<not> IS_SEPARATOR c" "length name \<le> 15" "key_ok name"
    using names table_names get_config_item_in [OF assms(1)] by auto
  have v: "\<forall>c\<in>set val. \<not> IS_SEPARATOR c" using assms(2) by (auto simp: IS_SEPARATOR_def isprint_def)
  have s: "str ''set '' = str ''set'' @ [32]" "str ''set'' \<noteq> []" "\<forall>c\<in>set (str ''set''). \<not> IS_SEPARATOR c"
    "\<forall>c\<in>set (str ''set ''). isprint c" by code_simp+
  show "words (str ''set '' @ name @ 32 # val) = [str ''set'', name, val]"
    using words_cons(2) [OF s(2,3), of "name @ 32 # val"] words_cons(4) [OF n(1), of val] words_cons(3) [OF assms(3) v] n(2) s(1) by simp
  show "words (str ''set '' @ name) = [str ''set'', name]"
    using words_cons(2) [OF s(2,3), of name] words_cons(3) [OF n(1)] n(2) s(1) by simp
  show "\<forall>c\<in>set (str ''set '' @ name). isprint c" using s(4) n(2) by auto
  show "length name \<le> 15" "name \<noteq> []" "key_ok name" using n by auto
qed

lemma typed_value_ok:
  assumes "key_ok name" "length name \<le> 15" "\<forall>c\<in>set val. isprint c \<and> c \<noteq> 32" "length val \<le> 31"
  shows "entry_ok name val"
proof -
  have nb: "\<not> blank c" if "c \<in> set val" for c
  proof -
    have "32 \<le> c" "c \<noteq> 32" using assms(3) that by (auto simp: isprint_def)
    then show ?thesis by (simp add: blank_def)
  qed
  have "0 \<notin> set val" "10 \<notin> set val" using assms(3) by (auto simp: isprint_def)
  then have "value_ok val" using nb hd_in_set [of val] last_in_set [of val] by (auto simp: value_ok_def)
  moreover have "length (esc val) \<le> 2 * length val" by (induction val) auto
  then have "length (stored val) \<le> 64" using assms(4) by (simp add: stored_def)
  ultimately show ?thesis using assms(1,2) by (simp add: entry_ok_def)
qed

text \<open>
  C25: a setting typed on the console is what the console shows for it later, also after a reset,
  as long as the settings file is the one it wrote.
\<close>

theorem typed_setting_is_shown:
  fixes s :: "'a shell_scheme"
  assumes "get_config_item name = Some it" "\<forall>c\<in>set val. isprint c \<and> c \<noteq> 32" "val \<noteq> []" "length val \<le> 31" "se_write env"
    "\<forall>t. ini (sh_config s) CONFIG_FILENAME = Some t \<longrightarrow> 0 \<notin> set t"
  shows "\<exists>s1. run_console env (map Ch (str ''set '' @ name @ 32 # val @ [13])) s = Ret s1
    \<and> (\<forall>env' (s2 :: 'a shell_scheme). ini (sh_config s2) = ini (sh_config s1) \<longrightarrow>
         run_console env' (map Ch (str ''set '' @ name @ [13])) s2
           = Ret (say (str ''> set '' @ name @ [13, 10, 13] @ name @ str '' = '' @ val @ CRNL @ str ''> '') s2))"
proof -
  note w = set_words [OF assms(1-3)]
  have st: "str '' '' = [32]" "length (str ''set '') = 4" "str ''set '' = [115, 101, 116, 32]" "str ''> '' = [62, 32]"
    "str ''> set '' = [62, 32] @ str ''set ''" "get_cmd_handler (str ''set'') = Some H_set" by code_simp+
  have in_set: "\<forall>c\<in>set val. isprint c" "isprint 32" "\<forall>c\<in>set (str ''set ''). isprint c" "\<forall>c\<in>set name. isprint c"
    using assms(2) w(3) by (auto simp: isprint_def)
  have name: "\<not> no_arg [name, val] 0" "\<not> no_arg [name, val] 1" "\<not> no_arg [name] 0" "no_arg [name] 1"
    using w(5) assms(3) by (simp_all add: no_arg_def arg_def)
  let ?x = "str ''set '' @ name @ 32 # val" and ?s = "\<lambda>x. say ([62, 32] @ x @ [13, 10, 13])"
  have ini: "ini (settings u) = ini (sh_config u)" for u :: "'a shell_scheme" by (simp add: settings_def)
  obtain r c' where c': "write_config True name val (settings (?s ?x s)) = Some (r, c')"
    "\<And>c0 n. ini c0 = ini c' \<Longrightarrow> length val < n \<Longrightarrow> n \<le> 256 \<Longrightarrow> read_config name n c0 = (0, Some val)"
    using write_config_reads [OF assms(1) typed_value_ok [OF w(6,4) assms(2,4)], of "settings (?s ?x s)"] assms(6) ini
    by (force simp: say_def)
  define s1 where "s1 = say [62, 32] (if r < 0 then say (str ''data not found'' @ CRNL) (put_settings c' (?s ?x s))
                  else if r = 1 then say (str ''to make it work, a reset is needed'' @ CRNL) (put_settings c' (?s ?x s))
                  else put_settings c' (?s ?x s))"
  have "run_console env (map Ch (?x @ [13])) s = obind (run_exec env (take 8 (words ?x)) (?s ?x s)) (\<lambda>s'. Ret (say [62, 32] s'))"
    by (rule console_line) (use w(1,4) st(2) assms(4) in_set in auto)
  also have "\<dots> = Ret s1"
    using w(1) name st(6) c'(1) assms(5)
    by (simp add: run_exec_def exec_def exec_cmd_builtin_def handler_def sh_set_def write_setting_def s1_def Let_def)
  finally have 1: "run_console env (map Ch (str ''set '' @ name @ 32 # val @ [13])) s = Ret s1" by simp
  have i1: "ini (sh_config s1) = ini c'" by (simp add: s1_def say_def put_settings_def)
  have "run_console env' (map Ch (str ''set '' @ name @ [13])) s2
      = Ret (say (str ''> set '' @ name @ [13, 10, 13] @ name @ str '' = '' @ val @ CRNL @ str ''> '') s2)"
    if "ini (sh_config s2) = ini (sh_config s1)" for env' :: "'a shell_scheme sh_env" and s2 :: "'a shell_scheme"
  proof -
    let ?y = "str ''set '' @ name"
    have "read_config name 32 (settings (?s ?y s2)) = (0, Some val)"
      by (rule c'(2)) (use that i1 assms(4) ini in \<open>simp_all add: say_def\<close>)
    moreover have "run_console env' (map Ch (?y @ [13])) s2
        = obind (run_exec env' (take 8 (words ?y)) (?s ?y s2)) (\<lambda>s'. Ret (say [62, 32] s'))"
      by (rule console_line) (use w(2,4) st(2) in_set in auto)
    ultimately show ?thesis
      using w(2) name st(4,5,6) by (simp add: run_exec_def exec_def exec_cmd_builtin_def handler_def sh_set_def)
  qed
  then show ?thesis using 1 by blast
qed

definition demo_shell :: shell where
  "demo_shell = agv_world.extend demo_agv \<lparr>sh_config = demo_config, spi_debug = False, sh_out = []\<rparr>"

definition demo_sh_env :: "shell sh_env" where
  "demo_sh_env = \<lparr>se_pause = \<lambda>_ s. s, se_agv = (\<lambda>x. x, 0, 0, 0), OSCPUUsage = 5, se_wifi_intr = 0, se_inposition = True,
     se_ip = [192, 168, 0, 9], se_mac = [2, 0, 0, 0, 0, 9], se_write = True, se_file = \<lambda>_ _ s. Ret s\<rparr>"

theorem typed_setting_is_shown_witness:
  "\<exists>s1. run_console demo_sh_env (map Ch (str ''set '' @ str ''agvid'' @ 32 # str ''17'' @ [13])) demo_shell = Ret s1
    \<and> run_console demo_sh_env (map Ch (str ''set '' @ str ''agvid'' @ [13])) s1
        = Ret (say (str ''> set '' @ str ''agvid'' @ [13, 10, 13] @ str ''agvid'' @ str '' = '' @ str ''17'' @ CRNL @ str ''> '') s1)"
proof -
  have a: "get_config_item (str ''agvid'') = Some (item ''agvid'' ''DEVICE'' PARAM_TYPE_INT32 P_agv_id 4 1)"
    "\<forall>c\<in>set (str ''17''). isprint c \<and> c \<noteq> 32" "str ''17'' \<noteq> []" "length (str ''17'') \<le> 31" by code_simp+
  have b: "se_write demo_sh_env" "\<forall>t. ini (sh_config demo_shell) CONFIG_FILENAME = Some t \<longrightarrow> 0 \<notin> set t"
    by (simp_all add: demo_sh_env_def demo_shell_def demo_config_def agv_world.defs)
  show ?thesis using typed_setting_is_shown [OF a b] by blast
qed

section \<open>Arguments that are not there\<close>

text \<open>The arguments a command reads without asking whether they are there.\<close>

definition needed_args :: "cmd_handler \<Rightarrow> nat" where
  "needed_args h = (case h of H_motors \<Rightarrow> 3 | H_dumper \<Rightarrow> 2 | H_charge \<Rightarrow> 1 | H_power \<Rightarrow> 1 | H_debug \<Rightarrow> 1 | _ \<Rightarrow> 0)"

lemma atoi_arg_cases: "atoi_arg args i = (if i < length args then Ret (atoi (args ! i)) else Fault)"
  by (simp add: atoi_arg_def arg_def)

text \<open>
  a command of the console that drives the motors, the dumper, the charger, the power or the
  trace reads a null pointer when it is typed with too few arguments, whatever the others are.
\<close>

theorem too_few_arguments_fault:
  assumes "get_cmd_handler name = Some h" "length args < needed_args h"
  shows "exec env (name # args) s = Fault"
proof (cases h)
  case H_motors
  then show ?thesis using assms
    by (auto simp: exec_def exec_cmd_builtin_def handler_def sh_motors_def atoi_arg_cases needed_args_def)
next
  case H_dumper
  then show ?thesis using assms
    by (auto simp: exec_def exec_cmd_builtin_def handler_def sh_dumper_def atoi_arg_cases needed_args_def)
qed (use assms in \<open>simp_all add: exec_def exec_cmd_builtin_def handler_def sh_charge_def sh_power_def sh_debug_def
      on_off_def arg_def needed_args_def\<close>)

theorem too_few_arguments_fault_witness:
  "exec demo_sh_env [str ''motors'', str ''500'', str ''500''] demo_shell = Fault"
proof -
  have "get_cmd_handler (str ''motors'') = Some H_motors" by code_simp
  then show ?thesis by (rule too_few_arguments_fault) (simp add: needed_args_def)
qed

section \<open>A test drive ends\<close>

text \<open>
  a test drive of the wheels or the dumper that is carried out ends with their pulses off,
  whatever the other tasks do while it lasts; an invalid one changes nothing.
\<close>

theorem test_drive_stops:
  assumes "exec env (name # args) s = Ret (r, s')"
  shows "(name = str ''motors'' \<longrightarrow> s' = s \<and> (atoi (args ! 2) = 0 \<or> atoi (args ! 0) = 0 \<and> atoi (args ! 1) = 0)
        \<or> pwm_left (mc_motors s') = PwmStopped \<and> pwm_right (mc_motors s') = PwmStopped)
    \<and> (name = str ''dumper'' \<longrightarrow> s' = s \<and> (atoi (args ! 0) = 0 \<or> atoi (args ! 1) = 0) \<or> pwm_unload (mc_motors s') = PwmStopped)"
proof -
  have h: "get_cmd_handler (str ''motors'') = Some H_motors" "get_cmd_handler (str ''dumper'') = Some H_dumper" by code_simp+
  have m: "s' = s \<and> (atoi (args ! 2) = 0 \<or> atoi (args ! 0) = 0 \<and> atoi (args ! 1) = 0)
      \<or> pwm_left (mc_motors s') = PwmStopped \<and> pwm_right (mc_motors s') = PwmStopped" if "sh_motors env args s = Ret (r', s')" for r'
    using that by (auto simp: sh_motors_def atoi_arg_cases Let_def upd_motors_def DriveWithPluse_def motor_ctrl_def split: if_splits)
  have d: "s' = s \<and> (atoi (args ! 0) = 0 \<or> atoi (args ! 1) = 0) \<or> pwm_unload (mc_motors s') = PwmStopped"
    if "sh_dumper env args s = Ret (r', s')" for r'
    using that by (auto simp: sh_dumper_def atoi_arg_cases Let_def upd_motors_def dumper_drive_with_pluse_def motor_ctrl_def
        split: if_splits)
  show ?thesis
  proof (intro conjI impI)
    assume "name = str ''motors''"
    then obtain r' where "sh_motors env args s = Ret (r', s')"
      using assms h by (cases "sh_motors env args s") (auto simp: exec_def exec_cmd_builtin_def handler_def)
    then show "s' = s \<and> (atoi (args ! 2) = 0 \<or> atoi (args ! 0) = 0 \<and> atoi (args ! 1) = 0)
        \<or> pwm_left (mc_motors s') = PwmStopped \<and> pwm_right (mc_motors s') = PwmStopped" by (rule m)
  next
    assume "name = str ''dumper''"
    then obtain r' where "sh_dumper env args s = Ret (r', s')"
      using assms h by (cases "sh_dumper env args s") (auto simp: exec_def exec_cmd_builtin_def handler_def)
    then show "s' = s \<and> (atoi (args ! 0) = 0 \<or> atoi (args ! 1) = 0) \<or> pwm_unload (mc_motors s') = PwmStopped" by (rule d)
  qed
qed

theorem test_drive_stops_witness:
  "\<exists>r s'. exec demo_sh_env [str ''motors'', str ''500'', str ''-500'', str ''100''] demo_shell = Ret (r, s')
    \<and> pwm_left (mc_motors s') = PwmStopped"
proof -
  let ?args = "[str ''500'', str ''-500'', str ''100'']"
  have h: "get_cmd_handler (str ''motors'') = Some H_motors" "atoi (?args ! 2) = 100" "atoi (?args ! 0) = 500" "atoi (?args ! 1) = - 500"
    by code_simp+
  then obtain r s' where e: "exec demo_sh_env (str ''motors'' # ?args) demo_shell = Ret (r, s')"
    by (auto simp: exec_def exec_cmd_builtin_def handler_def sh_motors_def atoi_arg_cases Let_def)
  then show ?thesis using test_drive_stops [OF e] h by auto
qed

section \<open>A report that does not fit\<close>

text \<open>
  \<open>sys-state\<close> prints the battery to 64 bytes. This frame, with 48 V, 6553.5 A, 100 % and
  -10 degrees, needs 65 with the terminator.
\<close>

theorem battery_text_overflows:
  "length (battery_text (s_battery_info (fst (snd (bms_can_msg_process evt now
      \<lparr>StdId = 0x10, ExtId = 0, IDE = 0, RTR = 0, DLC = 8, Data = [1, 0xE0, 0xFF, 0xFF, 100, 30, 0, 0], FMI = 0\<rparr> (b, ws)))))) = 64"
proof -
  have "s_battery_info (fst (snd (bms_can_msg_process evt now
      \<lparr>StdId = 0x10, ExtId = 0, IDE = 0, RTR = 0, DLC = 8, Data = [1, 0xE0, 0xFF, 0xFF, 100, 30, 0, 0], FMI = 0\<rparr> (b, ws))))
    = \<lparr>bat_state = 0, voltage = fl32 (ddiv 480 10), current = fl32 (ddiv 65535 10), power = 100, temperature = fl32 (- 10)\<rparr>"
    by (simp add: bms_can_msg_process_def Let_def)
  moreover have f: "fl64 (13107 / 2) = 13107 / 2" "fl32 (13107 / 2) = 13107 / 2"
    by (rule fl64_exact [of _ 13107 "- 1"] fl32_dyadic [of _ 1 13107]; simp add: pow2_def)+
  then have "fl32 (ddiv 480 10) = 48" "fl32 (ddiv 65535 10) = 13107 / 2" "fl32 (- 10) = - 10"
    using fl64_of_int [of 48] fl32_minus [of 10] by (simp_all add: ddiv_def f(1) del: divide_const_simps)
  moreover have "round_even 48000000 = 48000000" "round_even 655350 = 655350" "round_even 1000 = 1000"
    using round_even_int [of 48000000] round_even_int [of 655350] round_even_int [of 1000] by simp_all
  then have "length (print_fixed 6 48) = 9" "length (print_fixed 2 (13107 / 2)) = 7" "length (print_fixed 2 (- 10)) = 6"
    by (simp_all add: print_fixed_def dec_digits.simps Let_def)
  moreover have "length (dec_digits 100) = 3" by (simp add: dec_digits.simps)
  moreover have "length (str ''vol: '') = 5" "length (str '' current: '') = 10" "length (str '' power: '') = 8"
    "length (str '' temperature: '') = 14" "length CRNL = 2" by code_simp+
  ultimately show ?thesis by (simp add: battery_text_def)
qed

end
