(* ===== verification/Algorithm.thy ===== *)
theory Algorithm
  imports Motors Encoder Can_Dispatcher Float_Facts
begin

text \<open>
  The control by an external computer over the CAN bus (\<open>application/algorithm.c\<close>), which
  \<open>root.c\<close> starts in place of the coordinator's task: the message processor that takes wheel speeds,
  a task that sets the wheels every 10 ms, one that clears the encoders as often, and one
  that answers a request for the encoders. The bytes a \<open>memcpy\<close> copies come with the sizes of the two
  objects; a copy that leaves either is \<open>Fault\<close>. Speeds are kept as the words of the
  \<open>int32_t\<close> variables. The negation of the smallest of them, which overflows, gives itself here as
  on the processor.
\<close>

section \<open>State\<close>

record algo =
  algo_vel_l :: u32
  algo_vel_r :: u32
  encoder_data_l :: int
  encoder_data_r :: int
  enc_task_created :: nat
  algo_t0 :: u16
  algo_t1 :: u16
  algo_motors :: motors
  algo_enc :: enc_state
  algo_sent :: "can_msg list"
  algo_can_user :: nat

abbreviation (input) SAGV_CANID :: u32 where "SAGV_CANID \<equiv> 0x07"
abbreviation (input) PC_CANID :: u32 where "PC_CANID \<equiv> 0x09"
abbreviation (input) ENCODER_CANID :: u32 where "ENCODER_CANID \<equiv> 0x110"
abbreviation (input) DLYTEST_CANID :: u32 where "DLYTEST_CANID \<equiv> 0x120"
abbreviation (input) AGV_CMD_TYPE_VEL :: u32 where "AGV_CMD_TYPE_VEL \<equiv> 0x220"
abbreviation (input) AGV_CMD_TYPE_ENC :: u32 where "AGV_CMD_TYPE_ENC \<equiv> 0x230"

section \<open>Messages\<close>

text \<open>\<open>memcpy(dst, src, n)\<close> into an object of \<open>size\<close> bytes; the source is an object too.\<close>

definition memcpy :: "nat \<Rightarrow> bytes \<Rightarrow> nat \<Rightarrow> bytes outcome" where
  "memcpy dst_size src n = (if n \<le> dst_size \<and> n \<le> length src then Ret (take n src) else Fault)"

text \<open>
  \<open>testMsg\<close> with its identifier, type and length set; what else is in it (\<open>rest\<close>: the extended
  identifier and the data) is whatever was on the stack.
\<close>

definition test_frame :: "u32 \<Rightarrow> u32 \<times> bytes \<Rightarrow> can_msg" where
  "test_frame ident rest = \<lparr>StdId = ident, ExtId = fst rest, IDE = 0, RTR = 0, DLC = 8, Data = snd rest\<rparr>"

definition can_send :: "can_mailbox \<Rightarrow> can_msg \<Rightarrow> algo \<Rightarrow> algo" where
  "can_send txok msg s = (case can_dispatcher_send_msg txok msg of (_, sent, _) \<Rightarrow> s\<lparr>algo_sent := algo_sent s @ sent\<rparr>)"

text \<open>\<open>n\<close> is the number of bytes copied; \<open>tmp\<close> is two words long.\<close>

definition process_frame :: "nat \<Rightarrow> can_mailbox \<Rightarrow> u32 \<Rightarrow> u32 \<times> bytes \<Rightarrow> can_rx_msg \<Rightarrow> algo \<Rightarrow> (int \<times> algo) outcome" where
  "process_frame n txok now rest msg s =
     (if IDE msg \<noteq> 0 \<or> RTR msg \<noteq> 0 then Ret (- perr_code ENOTSUP, s)
      else obind (memcpy 8 (Data msg) n) (\<lambda>tmp. Ret (0,
        if StdId msg = AGV_CMD_TYPE_VEL OR PC_CANID then s\<lparr>algo_vel_l := of_le32 tmp, algo_vel_r := of_le32 (drop 4 tmp)\<rparr>
        else if StdId msg = AGV_CMD_TYPE_ENC OR PC_CANID then s\<lparr>enc_task_created := enc_task_created s + 1\<rparr>
        else if StdId msg = DLYTEST_CANID OR PC_CANID then
          can_send txok (test_frame (SAGV_CANID OR DLYTEST_CANID) rest) (s\<lparr>algo_t1 := ucast now\<rparr>)
        else s)))"

definition algo_can_msg_process :: "can_mailbox \<Rightarrow> u32 \<Rightarrow> u32 \<times> bytes \<Rightarrow> can_rx_msg \<Rightarrow> algo \<Rightarrow> (int \<times> algo) outcome" where
  "algo_can_msg_process = process_frame 16"

section \<open>Tasks\<close>

definition read_both :: "algo \<Rightarrow> algo" where
  "read_both s =
     (case get_count_and_clear 0 (algo_enc s) of (l, e1) \<Rightarrow>
        (case get_count_and_clear 1 e1 of (r, e2) \<Rightarrow> s\<lparr>encoder_data_l := l, encoder_data_r := r, algo_enc := e2\<rparr>))"

text \<open>What \<open>canSendTask\<close> does before its loop; a round of it, whose message is never sent.\<close>

definition canSendTask_start :: "can_mailbox \<Rightarrow> u32 \<Rightarrow> u32 \<times> bytes \<Rightarrow> algo \<Rightarrow> algo" where
  "canSendTask_start txok now rest s =
     (can_send txok (test_frame (SAGV_CANID OR DLYTEST_CANID) rest) s)\<lparr>algo_t0 := ucast now\<rparr>"

definition canSendTask_round :: "algo \<Rightarrow> algo" where
  "canSendTask_round s = read_both s"

text \<open>The answer to a request for the encoders; \<open>bits\<close> are the bits of a \<open>float\<close>.\<close>

abbreviation (input) encoder_period :: rat where "encoder_period \<equiv> 10"

definition encoder_vel :: "int \<Rightarrow> rat" where
  "encoder_vel n = fdiv (fl32 (of_int n)) encoder_period"

definition send_encoder_task :: "can_mailbox \<Rightarrow> (rat \<Rightarrow> u32) \<Rightarrow> u32 \<Rightarrow> algo \<Rightarrow> algo outcome" where
  "send_encoder_task txok bits ext s =
     (let s1 = read_both s; vels = le32 (bits (encoder_vel (encoder_data_l s1))) @ le32 (bits (encoder_vel (encoder_data_r s1)))
      in obind (memcpy 8 vels 16) (\<lambda>d. Ret (can_send txok (test_frame (SAGV_CANID OR ENCODER_CANID) (ext, d)) s1)))"

definition sAGV_algo_start :: "algo \<Rightarrow> algo" where
  "sAGV_algo_start s = s\<lparr>algo_vel_l := 0, algo_vel_r := 0\<rparr>"

definition sAGV_algo_round :: "algo \<Rightarrow> algo" where
  "sAGV_algo_round s =
     (let (dir_l, l) = (if 0 < sint (algo_vel_l s) then (MOVE_FOREWARD_L, algo_vel_l s)
                        else if sint (algo_vel_l s) < 0 then (MOVE_ROLLBACK_L, - algo_vel_l s) else (0, 0));
          (dir_r, r) = (if 0 < sint (algo_vel_r s) then (MOVE_FOREWARD_R, algo_vel_r s)
                        else if sint (algo_vel_l s) < 0 then (MOVE_ROLLBACK_R, - algo_vel_r s) else (1, 0))
      in s\<lparr>algo_motors := Drive (fl32 (of_nat (unat l))) (fl32 (of_nat (unat r))) (motor_set_direction dir_l dir_r (algo_motors s))\<rparr>)"

text \<open>
  \<open>canSendTest\<close> up to the creation of its tasks; the encoders count during the pause, the
  processor is the parameter of the registry.
\<close>

definition canSendTest :: "(enc_state \<Rightarrow> enc_state) \<Rightarrow> 'p \<Rightarrow> algo \<times> 'p can_disp \<Rightarrow> (algo \<times> 'p can_disp) outcome" where
  "canSendTest pause processor sd =
     (case sd of (s, d) \<Rightarrow>
        let e1 = snd (open_encoder 1 (algo_enc s));
            e2 = pause (snd (open_encoder 2 e1));
            e3 = snd (get_count_and_clear 0 e2);
            e4 = snd (get_count_and_clear 1 e3)
        in obind (can_dispatcher_register_user (Some [112, 99]) processor d) (\<lambda>(u, d').
             Ret (s\<lparr>algo_enc := e4, algo_can_user := u\<rparr>, d')))"

section \<open>Every data frame overruns\<close>

text \<open>
  every standard data frame on the bus, whatever its identifier, makes the processor copy 16 bytes
  out of and into 8; other frames are refused and change nothing.
\<close>

theorem data_frame_overruns:
  "algo_can_msg_process txok now rest msg s =
    (if IDE msg = 0 \<and> RTR msg = 0 then Fault else Ret (- perr_code ENOTSUP, s))"
  by (auto simp: algo_can_msg_process_def process_frame_def memcpy_def)

definition vel_frame :: "u32 \<Rightarrow> u32 \<Rightarrow> can_rx_msg" where
  "vel_frame l r = \<lparr>StdId = 0x229, ExtId = 0, IDE = 0, RTR = 0, DLC = 8, Data = le32 l @ le32 r, FMI = 0\<rparr>"

section \<open>The wheels follow the speeds\<close>

text \<open>The wheel outputs a signed speed asks for.\<close>

definition wheel_pps :: "int \<Rightarrow> u32" where
  "wheel_pps v = to_pps (fl32 (of_int \<bar>v\<bar>))"

text \<open>The pulse generators run at the speeds that were set last.\<close>

definition drive_ok :: "motors \<Rightarrow> bool" where
  "drive_ok m \<longleftrightarrow> pwm_left m = motor_ctrl (left_pps m) PwmStopped \<and> pwm_right m = motor_ctrl (right_pps m) PwmStopped"

lemma Drive_outputs:
  "drive_ok m \<Longrightarrow> pwm_left (Drive l r m) = motor_ctrl (to_pps l) PwmStopped \<and> pwm_right (Drive l r m) = motor_ctrl (to_pps r) PwmStopped"
  by (auto simp: drive_ok_def Drive_def motor_ctrl_def Let_def)

lemma Drive_directions [simp]: "dir_left (Drive l r m) = dir_left m" "dir_right (Drive l r m) = dir_right m"
  by (simp_all add: Drive_def Let_def)

lemma drive_ok_Drive: "drive_ok m \<Longrightarrow> drive_ok (Drive l r m)"
  by (auto simp: drive_ok_def Drive_def motor_ctrl_def Let_def)

lemma drive_ok_directions [simp]: "drive_ok (motor_set_direction a b m) = drive_ok m"
  by (simp add: drive_ok_def motor_set_direction_def)

lemma unat_abs_word:
  fixes v :: u32
  shows "0 < sint v \<Longrightarrow> int (unat v) = \<bar>sint v\<bar>" "sint v < 0 \<Longrightarrow> int (unat (- v)) = \<bar>sint v\<bar>"
    "sint v \<le> 0 \<Longrightarrow> int (unat (- v)) = \<bar>sint v\<bar>"
proof -
  have b: "- (2 ^ 31) \<le> sint v" "sint v < 2 ^ 31" using sint_greater_eq [of v] sint_less [of v] by simp_all
  have v: "of_int (sint v) = v" by simp
  have "int (unat (of_int k :: u32)) = k" if "0 \<le> k" "k \<le> 2 ^ 31" for k
    using that by (simp add: unsigned_of_int take_bit_int_eq_self)
  from this [of "sint v"] this [of "- sint v"]
  show "0 < sint v \<Longrightarrow> int (unat v) = \<bar>sint v\<bar>" "sint v < 0 \<Longrightarrow> int (unat (- v)) = \<bar>sint v\<bar>"
    "sint v \<le> 0 \<Longrightarrow> int (unat (- v)) = \<bar>sint v\<bar>" using b v by simp_all
qed

lemma to_pps_0: "to_pps 0 = 0"
proof -
  have "fl64 (1 / 2) = 1 / 2" by (rule fl64_exact [of _ 1 "- 1"]) (simp_all add: pow2_def)
  moreover have "\<lfloor>1 / 2 :: rat\<rfloor> = 0" by (simp add: floor_eq_iff)
  ultimately show ?thesis by (simp add: to_pps_def VEL_TO_PPS_def fmul_def ddiv_def dadd_def ftrunc_def del: divide_const_simps)
qed

lemma round_outputs:
  assumes "drive_ok (algo_motors s)"
  shows "pwm_left (algo_motors (sAGV_algo_round s)) = motor_ctrl (wheel_pps (sint (algo_vel_l s))) PwmStopped"
    "pwm_right (algo_motors (sAGV_algo_round s)) =
       motor_ctrl (wheel_pps (if 0 < sint (algo_vel_r s) \<or> sint (algo_vel_l s) < 0 then sint (algo_vel_r s) else 0)) PwmStopped"
    "dir_left (algo_motors (sAGV_algo_round s)) = (if sint (algo_vel_l s) < 0 then MOVE_ROLLBACK_L else MOVE_FOREWARD_L)"
    "dir_right (algo_motors (sAGV_algo_round s)) =
       (if sint (algo_vel_r s) \<le> 0 \<and> sint (algo_vel_l s) < 0 then MOVE_ROLLBACK_R else MOVE_FOREWARD_R)"
    "drive_ok (algo_motors (sAGV_algo_round s))"
proof -
  let ?L = "sint (algo_vel_l s)" and ?R = "sint (algo_vel_r s)"
  have rat: "(of_nat n :: rat) = of_int (int n)" for n by simp
  have p: "0 < ?L \<Longrightarrow> to_pps (fl32 (of_nat (unat (algo_vel_l s)))) = wheel_pps ?L"
    "?L < 0 \<Longrightarrow> to_pps (fl32 (of_nat (unat (- algo_vel_l s)))) = wheel_pps ?L"
    "0 < ?R \<Longrightarrow> to_pps (fl32 (of_nat (unat (algo_vel_r s)))) = wheel_pps ?R"
    "\<not> 0 < ?R \<Longrightarrow> to_pps (fl32 (of_nat (unat (- algo_vel_r s)))) = wheel_pps ?R" "to_pps 0 = wheel_pps 0"
    using unat_abs_word by (simp_all only: rat wheel_pps_def not_less) simp
  note m = Drive_outputs [of "motor_set_direction dl dr (algo_motors s)" for dl dr, simplified, OF assms]
  have L0: "?L = 0 \<or> ?L < 0 \<or> 0 < ?L" by linarith
  have dr: "drive_ok (Drive a b (motor_set_direction c d (algo_motors s)))" for a b c d
    by (rule drive_ok_Drive) (simp add: assms)
  show "pwm_left (algo_motors (sAGV_algo_round s)) = motor_ctrl (wheel_pps ?L) PwmStopped"
    using L0 m p by (auto simp: sAGV_algo_round_def Let_def)
  show "pwm_right (algo_motors (sAGV_algo_round s)) = motor_ctrl (wheel_pps (if 0 < ?R \<or> ?L < 0 then ?R else 0)) PwmStopped"
    using m p by (auto simp: sAGV_algo_round_def Let_def)
  show "dir_left (algo_motors (sAGV_algo_round s)) = (if ?L < 0 then MOVE_ROLLBACK_L else MOVE_FOREWARD_L)"
    by (auto simp: sAGV_algo_round_def Let_def motor_set_direction_def)
  show "dir_right (algo_motors (sAGV_algo_round s)) = (if ?R \<le> 0 \<and> ?L < 0 then MOVE_ROLLBACK_R else MOVE_FOREWARD_R)"
    by (auto simp: sAGV_algo_round_def Let_def motor_set_direction_def)
  show "drive_ok (algo_motors (sAGV_algo_round s))"
    using dr by (auto simp: sAGV_algo_round_def Let_def)
qed

text \<open>
  C39: ten milliseconds after the speeds were set the wheels run at them, in the direction of their signs,
  with one exception: the right wheel turns backwards only if the left one does, and stands
  still when the left one stands or turns forwards.
\<close>

theorem wheels_follow_speeds:
  assumes "drive_ok (algo_motors s)" "L = sint (algo_vel_l s)" "R = sint (algo_vel_r s)" "m = algo_motors (sAGV_algo_round s)"
  shows "drive_ok m \<and> pwm_left m = motor_ctrl (wheel_pps L) PwmStopped \<and> dir_left m = (if L < 0 then MOVE_ROLLBACK_L else MOVE_FOREWARD_L)
    \<and> (if 0 \<le> R \<or> L < 0
       then pwm_right m = motor_ctrl (wheel_pps R) PwmStopped \<and> (R \<noteq> 0 \<longrightarrow> dir_right m = (if R < 0 then MOVE_ROLLBACK_R else MOVE_FOREWARD_R))
       else pwm_right m = PwmStopped \<and> dir_right m = MOVE_FOREWARD_R)"
proof -
  have "motor_ctrl (wheel_pps 0) PwmStopped = PwmStopped" using to_pps_0 by (simp add: wheel_pps_def motor_ctrl_def)
  then show ?thesis using round_outputs [OF assms(1)] assms(2-4) by auto
qed

definition demo_algo :: "u32 \<Rightarrow> u32 \<Rightarrow> algo" where
  "demo_algo l r = \<lparr>algo_vel_l = l, algo_vel_r = r, encoder_data_l = 0, encoder_data_r = 0, enc_task_created = 0, algo_t0 = 0,
     algo_t1 = 0, algo_motors = demo_motors,
     algo_enc = \<lparr>encoders = \<lambda>_. \<lparr>port = 1, enc_count = 0, lastval = 0\<rparr>, hw = \<lparr>TIM3_CNT = 0, TIM4_CNT = 0\<rparr>\<rparr>, algo_sent = [],
     algo_can_user = 0\<rparr>"

theorem wheels_follow_speeds_witness:
  "pwm_right (algo_motors (sAGV_algo_round (demo_algo 100 (- 100)))) = PwmStopped"
proof -
  have a: "drive_ok (algo_motors (demo_algo 100 (- 100)))" by (simp add: demo_algo_def demo_motors_def drive_ok_def motor_ctrl_def)
  have b: "100 = sint (algo_vel_l (demo_algo 100 (- 100)))" "- 100 = sint (algo_vel_r (demo_algo 100 (- 100)))"
    by (simp_all add: demo_algo_def)
  show ?thesis using wheels_follow_speeds [OF a b refl] by simp
qed

end
