(* ===== verification/Vehicle.thy ===== *)
theory Vehicle
  imports Agv_Run_Facts Agv_Facts
begin

text \<open>
  The control cycle and the coordinator together. Both work on the globals of the motion
  controller: the state of the cycle keeps the coordinator's own variables behind its own, and
  \<open>coordinator\<close> is the coordinator's view of it. The callback of the cycle is
  \<open>motionctrl_event_callback\<close> on that view; a call that faults or does not return leaves
  \<open>Fault\<close> or \<open>Hang\<close> in its place. The task of the coordinator runs between two cycles.
\<close>

section \<open>The shared state\<close>

type_synonym vehicle = "unit agv_world_ext outcome cycle_scheme"

definition coordinator :: "vehicle \<Rightarrow> agv_world outcome" where
  "coordinator s = obind (cycle.more s) (\<lambda>c. Ret (motion.extend (motion.truncate s) c))"

definition put_coordinator :: "agv_world outcome \<Rightarrow> vehicle \<Rightarrow> vehicle" where
  "put_coordinator oag s =
     (case oag of
        Ret ag \<Rightarrow> cycle.more_update (\<lambda>_. Ret (motion.more ag)) (motion.extend (motion.truncate ag) (motion.more s))
      | Fault \<Rightarrow> cycle.more_update (\<lambda>_. Fault) s
      | Hang \<Rightarrow> cycle.more_update (\<lambda>_. Hang) s)"

definition coordinator_evt :: "vehicle event_cb" where
  "coordinator_evt e ps s =
     put_coordinator (obind (coordinator s) (motionctrl_event_callback e (of_nat (length ps)) ps)) s"

text \<open>A round of \<open>agv_task\<close>: nothing is posted while it waits, so the wait ends with the time-out.\<close>

definition agv_task_round :: "agv_env \<Rightarrow> nat \<Rightarrow> 'a agv_world_scheme \<Rightarrow> ((u32 \<times> bytes) option \<times> 'a agv_world_scheme) outcome" where
  "agv_task_round env prio s =
     (case agv_task_pend prio s of
        (Some p, s1) \<Rightarrow> agv_task_body env p s1
      | (None, s1) \<Rightarrow> (case agv_task_resume prio s1 of (p, s2) \<Rightarrow> agv_task_body env p s2))"

definition vehicle_task :: "agv_env \<Rightarrow> nat \<Rightarrow> vehicle \<Rightarrow> ((u32 \<times> bytes) option \<times> vehicle) outcome" where
  "vehicle_task env prio s =
     obind (coordinator s) (\<lambda>ag. obind (agv_task_round env prio ag) (\<lambda>(notify, ag1). Ret (notify, put_coordinator (Ret ag1) s)))"

section \<open>The two views agree\<close>

lemma world_fields [simp]:
  fixes s :: "'b motion_scheme" and c :: "'a agv_world_ext"
  shows "Motionstyle (motion.extend (motion.truncate s) c) = Motionstyle s"
    "fCurVel (motion.extend (motion.truncate s) c) = fCurVel s"
    "fCurVelL (motion.extend (motion.truncate s) c) = fCurVelL s" "fCurVelR (motion.extend (motion.truncate s) c) = fCurVelR s"
    "ethCommBreakFlag (motion.extend (motion.truncate s) c) = ethCommBreakFlag s"
    "motion.more (motion.extend (motion.truncate s) c) = c"
    "motion.truncate (motion.extend (motion.truncate s) c) = motion.truncate s"
  by (simp_all add: motion.defs)

lemma coordinator_Ret: "coordinator s = Ret ag \<longleftrightarrow> cycle.more s = Ret (motion.more ag) \<and> motion.truncate s = motion.truncate ag"
proof -
  have "motion.extend (motion.truncate ag) (motion.more ag) = ag" by (cases ag) (simp add: motion.defs)
  then show ?thesis by (cases "cycle.more s") (auto simp: coordinator_def)
qed

lemma put_keeps [simp]:
  "nAgvWorkMode (put_coordinator oag s) = nAgvWorkMode s" "nEvent (put_coordinator oag s) = nEvent s"
  "OutOfTrack (put_coordinator oag s) = OutOfTrack s" "GSMissing (put_coordinator oag s) = GSMissing s"
  by (cases s; cases oag; simp add: put_coordinator_def motion.defs)+

lemma put_Ret [simp]:
  "cycle.more (put_coordinator (Ret ag) s) = Ret (motion.more ag)"
  "motion.truncate (put_coordinator (Ret ag) s) = motion.truncate ag"
  by (cases s; simp add: put_coordinator_def motion.defs)+

lemma coordinator_put [simp]: "coordinator (put_coordinator (Ret ag) s) = Ret ag"
  by (simp add: coordinator_Ret)

section \<open>The callback keeps to its contract\<close>

lemma post_event_motion:
  "post_event e n ps ag = Ret ag' \<Longrightarrow> motion.truncate ag' = motion.truncate ag"
  by (auto simp: motion.defs dest!: post_event_eq)

lemma wheels_of_truncate:
  "motion.truncate a = motion.truncate b \<Longrightarrow> Motionstyle a = Motionstyle b \<and> fCurVel a = fCurVel b \<and> fCurVelL a = fCurVelL b
     \<and> fCurVelR a = fCurVelR b \<and> ethCommBreakFlag a = ethCommBreakFlag b"
  by (cases a; cases b) (simp add: motion.defs)

abbreviation (input) same_wheels :: "'a agv_world_scheme \<Rightarrow> 'b motion_scheme \<Rightarrow> bool" where
  "same_wheels a b \<equiv> Motionstyle a = Motionstyle b \<and> fCurVel a = fCurVel b \<and> fCurVelL a = fCurVelL b
     \<and> fCurVelR a = fCurVelR b \<and> ethCommBreakFlag a = ethCommBreakFlag b"

lemma post_event_wheels: "post_event e n ps ag = Ret ag' \<Longrightarrow> same_wheels ag' ag"
  by (drule post_event_motion) (drule wheels_of_truncate, simp)

lemma check_and_release_wheels: "same_wheels (snd (check_and_release_point t ag)) ag"
  by (simp add: check_and_release_point_def case_prod_unfold)

lemma error_callback_wheels: "error_callback e ag = Ret ag' \<Longrightarrow> same_wheels ag' ag"
  unfolding error_callback_def by (rule post_event_wheels)

lemma measure_wheels: "same_wheels (Get_TwoDDev (UpdateAgvHeadDirToNew ag)) ag"
  by (simp add: UpdateAgvHeadDirToNew_eq Get_TwoDDev_def)

lemma arrival_filter_wheels:
  assumes "arrival_filter ag = Ret ag'" shows "same_wheels ag' ag"
proof -
  obtain r ag1 where r: "check_and_release_point (twoD_TagCode ag) ag = (r, ag1)" by fastforce
  then have 1: "same_wheels ag1 ag" using check_and_release_wheels [of "twoD_TagCode ag" ag] by simp
  obtain ag2 where ag2: "(if r \<noteq> 0 then error_callback WAY_POINT_ERROR ag1 else Ret ag1) = Ret ag2"
    and ag': "ag' = (if Motionstyle ag2 = MOTIONSTATE_GOSTRAIGHT then
                   let s3 = Get_TwoDDev (UpdateAgvHeadDirToNew ag2)
                   in if \<bar>GS_DEV s3\<bar> < 30 \<and> \<bar>GS_Angle s3\<bar> < 2
                      then s3\<lparr>dety_filter := sliding_filter_input (GS_DEV s3) (dety_filter s3)\<rparr> else s3
                 else ag2)"
    using assms r by (cases "if r \<noteq> 0 then error_callback WAY_POINT_ERROR ag1 else Ret ag1") (simp_all add: arrival_filter_def)
  have 2: "same_wheels ag2 ag1" using ag2 error_callback_wheels [of _ ag1 ag2] by (cases "r = 0") auto
  have "same_wheels ag' ag2" using measure_wheels [of ag2] ag' by (simp add: Let_def)
  then show ?thesis using 1 2 by simp
qed

lemma callback_wheels:
  assumes "motionctrl_event_callback e n ps ag = Ret ag'" shows "same_wheels ag' ag"
  using assms
  by (auto simp: motionctrl_event_callback_def over_filter_def Let_def split: if_splits
      dest!: post_event_wheels arrival_filter_wheels)

text \<open>What the coordinator has received and not yet read, and the blocks it has left.\<close>

definition decode_evt :: "bytes \<Rightarrow> u32 \<times> bytes" where
  "decode_evt d = (ucast (d ! 1), take (unat (d ! 2)) (drop 3 d))"

definition coord_obs :: "unit agv_world_ext outcome \<Rightarrow> (u32 \<times> bytes) list" where
  "coord_obs oc = (case oc of Ret c \<Rightarrow> map decode_evt (queued_evts (motion.extend demo_motion c)) | _ \<Rightarrow> [])"

definition coord_room :: "nat os_q \<Rightarrow> os_mem \<Rightarrow> nat \<Rightarrow> unit agv_world_ext outcome \<Rightarrow> bool" where
  "coord_room q m n oc =
     (case oc of
        Ret c \<Rightarrow> (let ag = motion.extend demo_motion c
                  in evt_ok ag \<and> n \<le> OSMemNFree (evtmem ag) \<and> mtcmdQ ag = q \<and> cmdmem ag = m)
      | _ \<Rightarrow> False)"

lemma more_fields:
  fixes ag :: agv_world
  shows "mtevtQ (motion.extend x (motion.more ag)) = mtevtQ ag" "evtmem (motion.extend x (motion.more ag)) = evtmem ag"
    "mtcmdQ (motion.extend x (motion.more ag)) = mtcmdQ ag" "cmdmem (motion.extend x (motion.more ag)) = cmdmem ag"
  by (cases ag; simp add: motion.defs)+

lemma obs_more [simp]: "coord_obs (Ret (motion.more ag)) = map decode_evt (queued_evts ag)"
  by (simp add: coord_obs_def queued_evts_def more_fields)

lemma room_more [simp]:
  "coord_room q m n (Ret (motion.more ag)) \<longleftrightarrow> evt_ok ag \<and> n \<le> OSMemNFree (evtmem ag) \<and> mtcmdQ ag = q \<and> cmdmem ag = m"
  by (simp add: coord_room_def evt_ok_def more_fields Let_def)

lemma decode_posted:
  assumes "take (Suc (Suc (Suc (length ps)))) d = [a, ucast e, of_nat (length ps)] @ ps" "length ps \<le> 28" "e = EVENT_ACTION_OVER \<or> e = EVENT_ERROR"
  shows "decode_evt d = (e, ps)"
proof -
  obtain r where r: "d = a # ucast e # of_nat (length ps) # r" "take (length ps) r = ps"
    using assms(1) by (cases d; cases "tl d"; cases "tl (tl d)") auto
  have "unat (of_nat (length ps) :: u8) = length ps" using assms(2) by (simp add: unat_of_nat take_bit_nat_eq_self)
  moreover have "ucast (ucast e :: u8) = e" using assms(3) by auto
  ultimately show ?thesis using r by (simp add: decode_evt_def)
qed

text \<open>A report of the end of an action or of an error is queued as it is.\<close>

lemma callback_over_error:
  assumes "e = EVENT_ACTION_OVER \<or> e = EVENT_ERROR" "length ps = 1" "evt_ok ag" "0 < OSMemNFree (evtmem ag)"
  obtains ag' where "motionctrl_event_callback e (of_nat (length ps)) ps ag = Ret ag'" "evt_ok ag'"
    "map decode_evt (queued_evts ag') = map decode_evt (queued_evts ag) @ [(e, ps)]"
    "OSMemNFree (evtmem ag') = OSMemNFree (evtmem ag) - 1" "mtcmdQ ag' = mtcmdQ ag" "cmdmem ag' = cmdmem ag"
proof -
  define ag1 where "ag1 = (if e = EVENT_ACTION_OVER \<and> ucast (ps ! 0) = motion_state_code MOTIONSTATE_GOSTRAIGHT
    then over_filter ag else ag)"
  have k: "mtevtQ ag1 = mtevtQ ag" "evtmem ag1 = evtmem ag" "mtcmdQ ag1 = mtcmdQ ag" "cmdmem ag1 = cmdmem ag"
    by (simp_all add: ag1_def over_filter_def Let_def)
  have "motionctrl_event_callback e (of_nat (length ps)) ps ag = post_event e (of_nat (length ps)) ps ag1"
    using assms(1,2) by (auto simp: motionctrl_event_callback_def ag1_def)
  moreover have "evt_ok ag1" "0 < OSMemNFree (evtmem ag1)" "length ps \<le> 28" using assms k by (simp_all add: evt_ok_def)
  then obtain ag' d where d: "post_event e (of_nat (length ps)) ps ag1 = Ret ag'" "evt_ok ag'" "queued_evts ag' = queued_evts ag1 @ [d]"
    "take (Suc (Suc (Suc (length ps)))) d = [ucast (evt_seq ag1), ucast e, of_nat (length ps)] @ ps"
    "OSMemNFree (evtmem ag') = OSMemNFree (evtmem ag1) - 1"
    by (rule post_event_deposit)
  moreover have "decode_evt d = (e, ps)" using decode_posted [OF d(4)] assms(1,2) by auto
  moreover have "queued_evts ag1 = queued_evts ag" by (simp add: queued_evts_def k)
  moreover note post_event_frame [OF d(1)]
  ultimately show thesis using that [of ag'] k by simp
qed

lemma coordinator_evt_wheels [simp]:
  "Motionstyle (coordinator_evt e ps s) = Motionstyle s" "fCurVel (coordinator_evt e ps s) = fCurVel s"
  "ethCommBreakFlag (coordinator_evt e ps s) = ethCommBreakFlag s"
  "fCurVelL (coordinator_evt e ps s) = fCurVelL s" "fCurVelR (coordinator_evt e ps s) = fCurVelR s"
proof -
  have "Motionstyle (coordinator_evt e ps s) = Motionstyle s \<and> fCurVel (coordinator_evt e ps s) = fCurVel s
    \<and> fCurVelL (coordinator_evt e ps s) = fCurVelL s \<and> fCurVelR (coordinator_evt e ps s) = fCurVelR s
    \<and> ethCommBreakFlag (coordinator_evt e ps s) = ethCommBreakFlag s"
  proof (cases "obind (coordinator s) (motionctrl_event_callback e (of_nat (length ps)) ps)")
    case (Ret ag')
    then obtain ag where ag: "coordinator s = Ret ag" "motionctrl_event_callback e (of_nat (length ps)) ps ag = Ret ag'"
      by (cases "coordinator s") auto
    have "motion.truncate (coordinator_evt e ps s) = motion.truncate ag'" by (simp only: coordinator_evt_def Ret put_Ret)
    from wheels_of_truncate [OF this] callback_wheels [OF ag(2)]
      wheels_of_truncate [of s ag] ag(1) coordinator_Ret
    show ?thesis by simp
  qed (simp_all add: coordinator_evt_def put_coordinator_def)
  then show "Motionstyle (coordinator_evt e ps s) = Motionstyle s" "fCurVel (coordinator_evt e ps s) = fCurVel s"
    "ethCommBreakFlag (coordinator_evt e ps s) = ethCommBreakFlag s"
    "fCurVelL (coordinator_evt e ps s) = fCurVelL s" "fCurVelR (coordinator_evt e ps s) = fCurVelR s" by blast+
qed

lemma coordinator_evt_mode [simp]:
  "nAgvWorkMode (coordinator_evt e ps s) = nAgvWorkMode s" "nEvent (coordinator_evt e ps s) = nEvent s"
  "OutOfTrack (coordinator_evt e ps s) = OutOfTrack s" "GSMissing (coordinator_evt e ps s) = GSMissing s"
  by (simp_all add: coordinator_evt_def)

interpretation coord: event_reports coordinator_evt coord_obs "coord_room q m" for q m
proof
  fix e :: u32 and ps :: bytes and n :: nat and s :: vehicle
  assume a: "e = EVENT_ACTION_OVER \<or> e = EVENT_ERROR" "length ps = 1" "coord_room q m (Suc n) (cycle.more s)"
  obtain c where c: "cycle.more s = Ret c" using a(3) by (cases "cycle.more s") (simp_all add: coord_room_def)
  obtain ag where ag: "coordinator s = Ret ag" using c by (simp add: coordinator_def)
  then have m: "cycle.more s = Ret (motion.more ag)" by (simp add: coordinator_Ret)
  have "evt_ok ag" "0 < OSMemNFree (evtmem ag)" using a(3) m by auto
  from callback_over_error [OF a(1,2) this]
  obtain ag' where ag': "motionctrl_event_callback e (of_nat (length ps)) ps ag = Ret ag'" "evt_ok ag'"
    "map decode_evt (queued_evts ag') = map decode_evt (queued_evts ag) @ [(e, ps)]"
    "OSMemNFree (evtmem ag') = OSMemNFree (evtmem ag) - 1" "mtcmdQ ag' = mtcmdQ ag" "cmdmem ag' = cmdmem ag" by blast
  then show "coord_room q m n (cycle.more (coordinator_evt e ps s))
      \<and> coord_obs (cycle.more (coordinator_evt e ps s)) = coord_obs (cycle.more s) @ [(e, ps)]"
    using a(3) m ag by (auto simp: coordinator_evt_def)
next
  show "coord_room q m (Suc n) c \<Longrightarrow> coord_room q m n c" for n c
    by (auto simp: coord_room_def Let_def split: outcome.splits)
qed simp_all

section \<open>From the end of a move to the next command\<close>

text \<open>A cycle that ends a move without an error queues one event: the end of the action.\<close>

lemma cycle_queues_over:
  assumes "coordinator s = Ret ag" "evt_ok ag" "3 \<le> OSMemNFree (evtmem ag)"
    and "nAgvWorkMode s = AGV_MODE_RUNNING" "nEvent s = NO_EVENT" "Motionstyle s \<noteq> MOTIONSTATE_ONSTOPING"
      "encoder_errcnt_l s \<le> 4" "encoder_errcnt_r s \<le> 4"
    and "AGV_Run coordinator_evt lm s = s'" "nEvent s' = NO_EVENT" "Motionstyle s' = MOTIONSTATE_ONSTOPING"
  obtains ag' where "coordinator s' = Ret ag'" "evt_ok ag'"
    "map decode_evt (queued_evts ag') = map decode_evt (queued_evts ag) @ [(EVENT_ACTION_OVER, [ucast (over_of (Motionstyle s))])]"
    "mtcmdQ ag' = mtcmdQ ag" "cmdmem ag' = cmdmem ag"
proof -
  have m: "cycle.more s = Ret (motion.more ag)" using assms(1) by (simp add: coordinator_Ret)
  have r: "AGV_Running coordinator_evt lm s = s'" using assms(4,9) by (simp add: AGV_Run_def)
  have "coord_room (mtcmdQ ag) (cmdmem ag) (Suc (Suc (Suc 0))) (cycle.more s)" using assms(2,3) m by simp
  note k = coord.running_reports [OF r this]
  have o: "coord_obs (cycle.more s') = coord_obs (cycle.more s) @ [(EVENT_ACTION_OVER, [ucast (over_of (Motionstyle s))])]"
    using k(1) assms(5-8,10,11) by auto
  obtain c where "cycle.more s' = Ret c" using k(2) by (cases "cycle.more s'") (simp_all add: coord_room_def)
  then obtain ag' where ag': "coordinator s' = Ret ag'" by (simp add: coordinator_def)
  then have m': "cycle.more s' = Ret (motion.more ag')" by (simp add: coordinator_Ret)
  show thesis using that [OF ag'] o k(2) unfolding m m' by simp
qed

text \<open>The task takes the oldest event; the state it handles it in differs in the queue and the number of the event.\<close>

lemma pend_takes_first:
  assumes "evt_ok ag" "queued_evts ag = d # ds"
  obtains p q where "agv_task_pend prio ag = (Some p, ag\<lparr>mtevtQ := q\<rparr>)" "p \<noteq> 0" "blk_read p 0 32 (evtmem ag) = Ret d"
    "length d = 32"
proof -
  have own: "mbox.owned (mtevtQ ag) (evtmem ag) []" "OSMemBlkSize (evtmem ag) = 32"
    using assms(1) by (simp_all add: evt_ok_def mbox_ok_def)
  obtain p q where pq: "OSQAccept (mtevtQ ag) = ((p, OS_ERR_NONE), q)" "p \<noteq> 0"
    "d = mem_read p (OSMemBlkSize (evtmem ag)) (OSMemPool (evtmem ag))"
    and rd: "\<forall>off n. off + n \<le> OSMemBlkSize (evtmem ag) \<longrightarrow> blk_read p off n (evtmem ag) = Ret (take n (drop off d))"
    using mbox_accept [OF own(1), of d ds] assms(2) unfolding queued_evts_def by metis
  have l: "length d = 32" using pq(3) own(2) by simp
  moreover have "agv_task_pend prio ag = (Some p, ag\<lparr>mtevtQ := q\<rparr>)"
    using pq(1) by (auto simp: agv_task_pend_def OSQPend_def OSQAccept_def split: if_splits)
  moreover have "blk_read p 0 32 (evtmem ag) = Ret d" using rd own(2) l by simp
  ultimately show thesis using that pq(2) by blast
qed

lemma set_work_state_keeps [simp]:
  "motion.truncate (set_work_state ws ag) = motion.truncate ag" "mtcmdQ (set_work_state ws ag) = mtcmdQ ag"
  "cmdmem (set_work_state ws ag) = cmdmem ag" "evtmem (set_work_state ws ag) = evtmem ag"
  by (simp_all add: set_work_state_def motion.defs)

lemma over_handled:
  fixes ag :: agv_world
  assumes "process_motionctrl_event env EVENT_ACTION_OVER ps ag = Ret (n, ag2)" "cmd_ok ag" "buffered_cmds ag = d # ds"
  obtains ag1 :: agv_world and r and ag3 :: agv_world where "n" "cmd_ok ag2" "buffered_cmds ag2 = ds" "motion.truncate ag1 = motion.truncate ag"
    "issue_command env (ucast (d ! 0)) (drop 2 d) ag1 = Ret (r, ag3)"
    "r \<noteq> - perr_code EINVAL \<longrightarrow> motion.truncate ag2 = motion.truncate ag3"
proof -
  let ?ag = "ag\<lparr>agvstat := (agvstat ag)\<lparr>mtstate := get_motion_state ag\<rparr>\<rparr>"
  obtain ret ag4 ws where i: "issue_next_cmd env EVENT_ACTION_OVER ?ag = Ret (ret, ag4)" and n: "n" "ag2 = set_work_state ws ag4"
    using assms(1) by (auto simp: process_motionctrl_event_def Let_def split: if_splits)
  have "cmd_ok ?ag" "buffered_cmds ?ag = d # ds" using assms(2,3) by (simp_all add: cmd_ok_def buffered_cmds_def)
  from oldest_issued [OF this i] obtain q r ag3 where k: "cmd_ok ag4" "buffered_cmds ag4 = ds"
    "issue_command env (ucast (d ! 0)) (drop 2 d) (?ag\<lparr>mtcmdQ := q\<rparr>) = Ret (r, ag3)"
    "r \<noteq> - perr_code EINVAL \<longrightarrow> ag4 = ag3\<lparr>cmdmem := cmdmem ag4\<rparr>" by blast
  have "motion.truncate ag4 = motion.truncate ag3" if "r \<noteq> - perr_code EINVAL"
  proof -
    have "motion.truncate ag4 = motion.truncate (ag3\<lparr>cmdmem := cmdmem ag4\<rparr>)" using k(4) that by simp
    also have "\<dots> = motion.truncate ag3" by (simp add: motion.defs)
    finally show ?thesis .
  qed
  moreover have "motion.truncate (?ag\<lparr>mtcmdQ := q\<rparr>) = motion.truncate ag" by (simp add: motion.defs)
  moreover have "cmd_ok ag2" "buffered_cmds ag2 = ds" using k(1,2) n(2) by (simp_all add: cmd_ok_def buffered_cmds_def)
  ultimately show thesis using that [of "?ag\<lparr>mtcmdQ := q\<rparr>" r ag3] k(3) n by simp
qed

lemma over_round:
  assumes "coordinator s1 = Ret w1" "evt_ok w1" "map decode_evt (queued_evts w1) = [(EVENT_ACTION_OVER, [x])]"
  obtains ps p w2 where "ps ! 0 = x" "motion.truncate w2 = motion.truncate s1" "mtcmdQ w2 = mtcmdQ w1" "cmdmem w2 = cmdmem w1"
    "vehicle_task env prio s1 = obind (process_motionctrl_event env EVENT_ACTION_OVER ps w2) (\<lambda>(n, w3).
       Ret (if n then Some (EVENT_ACTION_OVER, ps) else None, put_coordinator (Ret (w3\<lparr>evtmem := snd (OSMemPut p (evtmem w3))\<rparr>)) s1))"
proof -
  obtain e where e: "queued_evts w1 = [e]" "decode_evt e = (EVENT_ACTION_OVER, [x])" using assms(3) by auto
  obtain p q where p: "agv_task_pend prio w1 = (Some p, w1\<lparr>mtevtQ := q\<rparr>)" "p \<noteq> 0" "blk_read p 0 32 (evtmem w1) = Ret e" "length e = 32"
    by (rule pend_takes_first [OF assms(2) e(1)])
  have over: "ucast (e ! 1) = EVENT_ACTION_OVER" "drop 3 e ! 0 = x"
    using e(2) by (simp_all add: decode_evt_def) (cases "unat (e ! 2)"; cases "drop 3 e"; simp)
  let ?w = "w1\<lparr>mtevtQ := q, task_seq := ucast (e ! 0)\<rparr>"
  have "motion.truncate ?w = motion.truncate s1" using assms(1) by (simp add: coordinator_Ret motion.defs)
  moreover have "vehicle_task env prio s1 = obind (process_motionctrl_event env EVENT_ACTION_OVER (drop 3 e) ?w) (\<lambda>(n, w3).
       Ret (if n then Some (EVENT_ACTION_OVER, drop 3 e) else None, put_coordinator (Ret (w3\<lparr>evtmem := snd (OSMemPut p (evtmem w3))\<rparr>)) s1))"
    using assms(1) p over(1)
    by (cases "process_motionctrl_event env EVENT_ACTION_OVER (drop 3 e) ?w")
      (auto simp: vehicle_task_def agv_task_round_def agv_task_body_def)
  ultimately show thesis using that [of "drop 3 e" ?w p] over(2) by simp
qed

text \<open>
  C6: the next move follows the last: when a cycle ends a move without an error and the task
  of the coordinator runs next, the server is told that this action is over, the oldest
  buffered command leaves the queue and is issued with its parameters on the vehicle as the
  cycle left it, and what the motion controller then holds is what the command set up.
\<close>

theorem next_move_follows:
  assumes "coordinator s = Ret ag" "evt_ok ag" "queued_evts ag = []" "3 \<le> OSMemNFree (evtmem ag)"
    and "cmd_ok ag" "buffered_cmds ag = d # ds"
    and "nAgvWorkMode s = AGV_MODE_RUNNING" "nEvent s = NO_EVENT" "Motionstyle s \<noteq> MOTIONSTATE_ONSTOPING"
      "encoder_errcnt_l s \<le> 4" "encoder_errcnt_r s \<le> 4"
    and "AGV_Run coordinator_evt lm s = s1" "nEvent s1 = NO_EVENT" "Motionstyle s1 = MOTIONSTATE_ONSTOPING"
    and "vehicle_task env prio s1 = Ret (notify, s2)"
  shows "\<exists>ps (ag1 :: agv_world) r ag3 ag2. notify = Some (EVENT_ACTION_OVER, ps) \<and> ps ! 0 = ucast (over_of (Motionstyle s))
    \<and> issue_command env (ucast (d ! 0)) (drop 2 d) ag1 = Ret (r, ag3) \<and> motion.truncate ag1 = motion.truncate s1
    \<and> (r \<noteq> - perr_code EINVAL \<longrightarrow> motion.truncate s2 = motion.truncate ag3)
    \<and> coordinator s2 = Ret ag2 \<and> cmd_ok ag2 \<and> buffered_cmds ag2 = ds"
proof -
  obtain w1 where w1: "coordinator s1 = Ret w1" "evt_ok w1"
    "map decode_evt (queued_evts w1) = map decode_evt (queued_evts ag) @ [(EVENT_ACTION_OVER, [ucast (over_of (Motionstyle s))])]"
    "mtcmdQ w1 = mtcmdQ ag" "cmdmem w1 = cmdmem ag"
    by (rule cycle_queues_over [OF assms(1,2,4,7-14)])
  then have "map decode_evt (queued_evts w1) = [(EVENT_ACTION_OVER, [ucast (over_of (Motionstyle s))])]" using assms(3) by simp
  then obtain ps p w2 where o: "ps ! 0 = ucast (over_of (Motionstyle s))" "motion.truncate w2 = motion.truncate s1"
    "mtcmdQ w2 = mtcmdQ w1" "cmdmem w2 = cmdmem w1"
    "vehicle_task env prio s1 = obind (process_motionctrl_event env EVENT_ACTION_OVER ps w2) (\<lambda>(n, w3).
       Ret (if n then Some (EVENT_ACTION_OVER, ps) else None, put_coordinator (Ret (w3\<lparr>evtmem := snd (OSMemPut p (evtmem w3))\<rparr>)) s1))"
    by (rule over_round [OF w1(1,2)])
  obtain n w3 where pr: "process_motionctrl_event env EVENT_ACTION_OVER ps w2 = Ret (n, w3)"
    and s2: "notify = (if n then Some (EVENT_ACTION_OVER, ps) else None)"
      "s2 = put_coordinator (Ret (w3\<lparr>evtmem := snd (OSMemPut p (evtmem w3))\<rparr>)) s1"
    using assms(15) o(5) by auto
  have "cmd_ok w2" "buffered_cmds w2 = d # ds" using assms(5,6) w1(4,5) o(3,4) by (simp_all add: cmd_ok_def buffered_cmds_def)
  then obtain ag1 :: agv_world and r and ag3 :: agv_world where k: "n" "cmd_ok w3" "buffered_cmds w3 = ds"
    "motion.truncate ag1 = motion.truncate w2" "issue_command env (ucast (d ! 0)) (drop 2 d) ag1 = Ret (r, ag3)"
    "r \<noteq> - perr_code EINVAL \<longrightarrow> motion.truncate w3 = motion.truncate ag3"
    by (rule over_handled [OF pr])
  define w4 where "w4 = w3\<lparr>evtmem := snd (OSMemPut p (evtmem w3))\<rparr>"
  have w4: "motion.truncate w4 = motion.truncate w3" "cmd_ok w4" "buffered_cmds w4 = ds"
    using k(2,3) by (simp_all add: w4_def motion.defs cmd_ok_def buffered_cmds_def)
  have "s2 = put_coordinator (Ret w4) s1" using s2(2) w4_def by simp
  then have "motion.truncate s2 = motion.truncate w3" "coordinator s2 = Ret w4" using w4(1) by simp_all
  then show ?thesis using s2(1) k o(1,2) w4 by auto
qed

section \<open>An example\<close>

text \<open>A vehicle that creeps up to the last tag of its way, standing on it in this cycle, with an unloading buffered.\<close>

definition still_enc :: enc_state where
  "still_enc = \<lparr>encoders = \<lambda>d. \<lparr>port = (if d = 0 then 1 else 2), enc_count = 0, lastval = 0\<rparr>, hw = \<lparr>TIM3_CNT = 0, TIM4_CNT = 0\<rparr>\<rparr>"

definition demo_arriving :: "agv_world \<Rightarrow> vehicle" where
  "demo_arriving ag = motion.extend (motion.truncate ag\<lparr>Motionstyle := MOTIONSTATE_GOSTRAIGHT, fCurVel := 40, NewTag := 1,
       twoD_XP := 0, twoD_Angle := 0, mc_enc := still_enc\<rparr>)
     \<lparr>nAgvWorkMode = AGV_MODE_RUNNING, nEvent = NO_EVENT, OutOfTrack = 0, GSMissing = 0, twoD_Progress = 0, RealTwoDProgress = 0,
      rotateR = 0, s_max_vel = 0, encoder_errcnt_l = 0, encoder_errcnt_r = 0,
      cy_trace = \<lparr>Px = 0, Py = 0, Ptheta = 0, glide_buff = [0], tr_fuzzy = demo_fuzzy 0\<rparr>,
      cy_est = \<lparr>PxOld = 0, PyOld = 0, PthetaOld = 0\<rparr>, \<dots> = Ret (motion.more ag)\<rparr>"

lemma arriving_ends:
  fixes s :: vehicle
  assumes "nAgvWorkMode s = AGV_MODE_RUNNING" "nEvent s = NO_EVENT" "Motionstyle s = MOTIONSTATE_GOSTRAIGHT" "ethCommBreakFlag s = 0"
    "OutOfTrack s = 0" "GSMissing s = 0" "NewTag s \<noteq> 0" "fCurVel s = 40" "sRemain s = 0" "twoD_XP s = 0" "twoD_Angle s = 0"
    and "read_encoders coordinator_evt s = (0, 0, s1)" "s1 = s\<lparr>mc_enc := mc_enc s1\<rparr>"
  shows "nEvent (AGV_Run coordinator_evt lm s) = NO_EVENT \<and> Motionstyle (AGV_Run coordinator_evt lm s) = MOTIONSTATE_ONSTOPING"
proof -
  have v: "fl32 (1 / 100) < 40" "0 < fl32 (1 / 100)" using fl32_near [of "1 / 100"] by (simp_all add: abs_if split: if_splits)
  define p where "p = straight_plan lm 0 0 s1"
  have m: "mean_way 0 0 = 0" by (simp add: mean_way_def ENCODERCNT_TO_LENGTH_def fmul_def dmul_def ddiv_def)
  have s1: "Motionstyle s1 = MOTIONSTATE_GOSTRAIGHT" "fCurVel s1 = 40" "NewTag s1 \<noteq> 0" "sRemain s1 = 0" "twoD_XP s1 = 0"
    "nEvent s1 = NO_EVENT" "ethCommBreakFlag s1 = 0" "OutOfTrack s1 = 0" "GSMissing s1 = 0" "twoD_Angle s1 = 0"
    by (subst assms(13), simp add: assms(1-11))+
  have h: "head_dir 0 x = X_FORWARD" for x
    using fl32_near [of "450001 / 10000"] by (simp add: head_dir_def abs_if split: if_splits)
  have p: "fCurVel p = 40" "NewTag p \<noteq> 0" "sRemain p = 0" "GS_DevFB p = 0" "Motionstyle p = MOTIONSTATE_GOSTRAIGHT"
    using s1 by (simp_all add: p_def straight_plan_def m h Let_def fsub_def Get_TwoDDev_def UpdateAgvHeadDirToNew_eq)
  have t: "fTargetVel (straight_tag p) = 0" using p v by (simp add: straight_tag_def Let_def)
  have "go_straight coordinator_evt lm 0 0 s1 = straight_over coordinator_evt (straight_tag p\<lparr>fCurVel := 0\<rparr>)"
    using t v by (simp add: go_straight_def p_def Let_def)
  moreover have "nEvent (straight_tag p) = NO_EVENT" using s1 by (simp add: p_def)
  ultimately have "nEvent (go_straight coordinator_evt lm 0 0 s1) = NO_EVENT"
    "Motionstyle (go_straight coordinator_evt lm 0 0 s1) = MOTIONSTATE_ONSTOPING"
    by (simp_all add: straight_over_def Let_def)
  then show ?thesis
    using assms(1,2,12) s1 by (simp add: AGV_Run_def AGV_Running_def run_no_event_def moving_straight_def ServoLeftInvaild_def ServoRightInvalid_def Let_def)
qed

lemma accepted_or_busy_issued:
  assumes "cmd_ok s" "buffered_cmds s = d # ds"
    and "\<forall>q. \<exists>r s1. issue_command env (ucast (d ! 0)) (drop 2 d) (s\<lparr>mtcmdQ := q\<rparr>) = Ret (r, s1) \<and> r \<noteq> - perr_code EINVAL"
  shows "\<exists>r s'. issue_next_cmd env EVENT_ACTION_OVER s = Ret (r, s')"
proof -
  obtain p q where p: "OSQAccept (mtcmdQ s) = ((p, OS_ERR_NONE), q)" "p \<noteq> 0" "blk_read p 0 512 (cmdmem s) = Ret d"
    by (rule take_command [OF assms(1,2)])
  obtain r s1 where "issue_command env (ucast (d ! 0)) (drop 2 d) (s\<lparr>mtcmdQ := q\<rparr>) = Ret (r, s1)" "r \<noteq> - perr_code EINVAL"
    using assms(3) by blast
  then show ?thesis using p by (auto simp: issue_next_cmd_def issue_buffered_def Let_def)
qed

lemma demo_agv_fields:
  "sRemain demo_agv = 0" "ethCommBreakFlag demo_agv = 0"
  "fCurVelL demo_agv = 0" "fCurVelR demo_agv = 0"
  by (simp_all add: demo_agv_def agv_init_def OSQCreate_def OSMemCreate_def demo_base_def demo_motion_def demo_navi_def
      demo_nav_def nav.defs navi.defs motion.defs)

lemma still_encoders:
  assumes "mc_enc s = still_enc" "fCurVelL s = 0" "fCurVelR s = 0" "encoder_errcnt_l s = 0" "encoder_errcnt_r s = 0"
  shows "\<exists>e. read_encoders evt s = (0, 0, s\<lparr>mc_enc := e\<rparr>)"
proof -
  have "expect_cnt 0 = 0" by (simp add: expect_cnt_def LENGTH_TO_ENCODERCNT_def dmul_def ddiv_def ftrunc_def)
  then have "check_count (expect_cnt 0) 0 0 = (0, 0)" by (simp add: check_count_def)
  moreover have "\<exists>e1. get_count_and_clear a still_enc = (0, e1) \<and> (\<exists>e2. get_count_and_clear b e1 = (0, e2))" for a b
    by (auto simp: get_count_and_clear_def still_enc_def bsp_EncoderGetPulseNum_def bsp_EncoderSetZero_def tim_cnt_def tim_set_def Let_def)
  then obtain e1 e2 where "get_count_and_clear (encoder_l s) still_enc = (0, e1)" "get_count_and_clear (encoder_r s) e1 = (0, e2)" by blast
  moreover have "s\<lparr>mc_enc := e2, encoder_errcnt_l := 0, encoder_errcnt_r := 0\<rparr> = s\<lparr>mc_enc := e2\<rparr>" using assms(4,5) by (cases s) simp
  ultimately show ?thesis using assms by (intro exI [of _ e2]) (simp add: read_encoders_def Let_def)
qed

theorem next_move_follows_witness:
  "\<exists>(s :: vehicle) ag d s1 ps s2 ag2. coordinator s = Ret ag \<and> buffered_cmds ag = [d] \<and> d ! 0 = 9 \<and> Motionstyle s = MOTIONSTATE_GOSTRAIGHT
    \<and> AGV_Run coordinator_evt demo_libm s = s1 \<and> Motionstyle s1 = MOTIONSTATE_ONSTOPING
    \<and> vehicle_task (\<lambda>x. x, 0, 0, 0) 5 s1 = Ret (Some (EVENT_ACTION_OVER, ps), s2) \<and> ps ! 0 = 1
    \<and> coordinator s2 = Ret ag2 \<and> buffered_cmds ag2 = []"
proof -
  obtain a d where a: "cmd_ok a" "buffered_cmds a = [d]" "d ! 0 = ucast ACTION_UNLOAD"
    "a = demo_agv\<lparr>cmdmem := cmdmem a, mtcmdQ := mtcmdQ a\<rparr>"
    by (rule one_buffered [OF demo_busy, of ACTION_UNLOAD]) simp
  define s where "s = demo_arriving a"
  define ag where "ag = a\<lparr>Motionstyle := MOTIONSTATE_GOSTRAIGHT, fCurVel := 40, NewTag := 1,
       twoD_XP := 0, twoD_Angle := 0, mc_enc := still_enc\<rparr>"
  have more: "cycle.more s = Ret (motion.more a)" "motion.truncate s = motion.truncate ag"
    by (simp_all add: s_def ag_def demo_arriving_def motion.defs)
  have c: "coordinator s = Ret ag" unfolding coordinator_Ret using more by (simp add: ag_def)
  have f: "sRemain a = 0" "ethCommBreakFlag a = 0" "fCurVelL a = 0" "fCurVelR a = 0"
    "mtevtQ a = mtevtQ demo_agv" "evtmem a = evtmem demo_agv"
    by (subst a(4), simp add: demo_agv_fields)+
  have ok: "evt_ok ag" "queued_evts ag = []" "3 \<le> OSMemNFree (evtmem ag)" "cmd_ok ag" "buffered_cmds ag = [d]"
    using demo_agv_ok a(1,2) f(5,6) length_mem_free [of "evtmem demo_agv"]
    by (simp_all add: ag_def evt_ok_def queued_evts_def cmd_ok_def buffered_cmds_def)
  have sf: "nAgvWorkMode s = AGV_MODE_RUNNING" "nEvent s = NO_EVENT" "Motionstyle s = MOTIONSTATE_GOSTRAIGHT" "ethCommBreakFlag s = 0"
    "OutOfTrack s = 0" "GSMissing s = 0" "NewTag s \<noteq> 0" "fCurVel s = 40" "sRemain s = 0" "twoD_XP s = 0" "twoD_Angle s = 0"
    "mc_enc s = still_enc" "fCurVelL s = 0" "fCurVelR s = 0" "encoder_errcnt_l s = 0" "encoder_errcnt_r s = 0"
    using f by (simp_all add: s_def demo_arriving_def motion.defs)
  obtain e where "read_encoders coordinator_evt s = (0, 0, s\<lparr>mc_enc := e\<rparr>)" using still_encoders [OF sf(12-16)] by blast
  then have e: "nEvent (AGV_Run coordinator_evt demo_libm s) = NO_EVENT" "Motionstyle (AGV_Run coordinator_evt demo_libm s) = MOTIONSTATE_ONSTOPING"
    using arriving_ends [OF sf(1-11), of "s\<lparr>mc_enc := e\<rparr>" demo_libm] by simp_all
  define s1 where "s1 = AGV_Run coordinator_evt demo_libm s"
  obtain w1 where w1: "coordinator s1 = Ret w1" "evt_ok w1" "map decode_evt (queued_evts w1) = [(EVENT_ACTION_OVER, [1])]"
    "mtcmdQ w1 = mtcmdQ ag" "cmdmem w1 = cmdmem ag"
    by (rule cycle_queues_over [OF c ok(1,3) sf(1,2) _ _ _ s1_def [symmetric] e [folded s1_def]]) (use sf ok(2) in simp_all)
  obtain ps p w2 where o: "ps ! 0 = 1" "motion.truncate w2 = motion.truncate s1" "mtcmdQ w2 = mtcmdQ w1" "cmdmem w2 = cmdmem w1"
    "vehicle_task (\<lambda>x. x, 0, 0, 0) 5 s1 = obind (process_motionctrl_event (\<lambda>x. x, 0, 0, 0) EVENT_ACTION_OVER ps w2) (\<lambda>(n, w3).
       Ret (if n then Some (EVENT_ACTION_OVER, ps) else None, put_coordinator (Ret (w3\<lparr>evtmem := snd (OSMemPut p (evtmem w3))\<rparr>)) s1))"
    by (rule over_round [OF w1(1-3)])
  let ?w = "w2\<lparr>agvstat := (agvstat w2)\<lparr>mtstate := get_motion_state w2\<rparr>\<rparr>"
  have "cmd_ok ?w" "buffered_cmds ?w = [d]" using ok(4,5) w1(4,5) o(3,4) by (simp_all add: cmd_ok_def buffered_cmds_def)
  moreover have "\<exists>r s1. issue_command (\<lambda>x. x, 0, 0, 0) (ucast (d ! 0)) (drop 2 d) x = Ret (r, s1) \<and> r \<noteq> - perr_code EINVAL" for x :: agv_world
    using a(3) by (simp add: issue_command_def motionctrl_cmd_def Let_def)
  ultimately obtain r w3 where "issue_next_cmd (\<lambda>x. x, 0, 0, 0) EVENT_ACTION_OVER ?w = Ret (r, w3)"
    using accepted_or_busy_issued by blast
  then obtain notify s2 where t: "vehicle_task (\<lambda>x. x, 0, 0, 0) 5 s1 = Ret (notify, s2)"
    using o(5) by (auto simp: process_motionctrl_event_def Let_def)
  have "Motionstyle s \<noteq> MOTIONSTATE_ONSTOPING" "encoder_errcnt_l s \<le> 4" "encoder_errcnt_r s \<le> 4" using sf by simp_all
  from next_move_follows [OF c ok sf(1,2) this s1_def [symmetric] e [folded s1_def] t]
  obtain ps ag2 where "notify = Some (EVENT_ACTION_OVER, ps)" "ps ! 0 = 1" "coordinator s2 = Ret ag2" "buffered_cmds ag2 = []"
    using sf(3) by auto
  then show ?thesis using c ok(5) a(3) sf(3) s1_def e t by (intro exI conjI) (assumption | simp)+
qed

end
