(* ===== verification/Os_Core.thy ===== *)
theory Os_Core
  imports Os_Queue
begin

text \<open>
  The core of uC/OS-II (\<open>ucosii/uCOS-II/Source/os_core.c\<close>, \<open>os_time.c\<close>) as it is configured here:
  64 priorities, one task each. A set of tasks, the ready list or the waiting list of an event,
  is a byte of groups and eight bytes of bits, and its highest priority comes out of a table.
  Tasks and events are numbered, 0 is NULL. Waiting for several events at once, profiling, names
  and the hooks are left out; the firmware uses none of them.
\<close>

section \<open>Sets of priorities as bits\<close>

definition OSUnMapTbl :: "u8 list" where
  "OSUnMapTbl = [
     0, 0, 1, 0, 2, 0, 1, 0, 3, 0, 1, 0, 2, 0, 1, 0, 4, 0, 1, 0, 2, 0, 1, 0, 3, 0, 1, 0, 2, 0, 1, 0,
     5, 0, 1, 0, 2, 0, 1, 0, 3, 0, 1, 0, 2, 0, 1, 0, 4, 0, 1, 0, 2, 0, 1, 0, 3, 0, 1, 0, 2, 0, 1, 0,
     6, 0, 1, 0, 2, 0, 1, 0, 3, 0, 1, 0, 2, 0, 1, 0, 4, 0, 1, 0, 2, 0, 1, 0, 3, 0, 1, 0, 2, 0, 1, 0,
     5, 0, 1, 0, 2, 0, 1, 0, 3, 0, 1, 0, 2, 0, 1, 0, 4, 0, 1, 0, 2, 0, 1, 0, 3, 0, 1, 0, 2, 0, 1, 0,
     7, 0, 1, 0, 2, 0, 1, 0, 3, 0, 1, 0, 2, 0, 1, 0, 4, 0, 1, 0, 2, 0, 1, 0, 3, 0, 1, 0, 2, 0, 1, 0,
     5, 0, 1, 0, 2, 0, 1, 0, 3, 0, 1, 0, 2, 0, 1, 0, 4, 0, 1, 0, 2, 0, 1, 0, 3, 0, 1, 0, 2, 0, 1, 0,
     6, 0, 1, 0, 2, 0, 1, 0, 3, 0, 1, 0, 2, 0, 1, 0, 4, 0, 1, 0, 2, 0, 1, 0, 3, 0, 1, 0, 2, 0, 1, 0,
     5, 0, 1, 0, 2, 0, 1, 0, 3, 0, 1, 0, 2, 0, 1, 0, 4, 0, 1, 0, 2, 0, 1, 0, 3, 0, 1, 0, 2, 0, 1, 0]"

record prio_map =
  pm_grp :: u8
  pm_tbl :: "u8 list"

definition pm_set :: "u8 \<Rightarrow> u8 \<Rightarrow> u8 \<Rightarrow> prio_map \<Rightarrow> prio_map" where
  "pm_set y bity bitx m = m\<lparr>pm_grp := pm_grp m OR bity, pm_tbl := (pm_tbl m)[unat y := pm_tbl m ! unat y OR bitx]\<rparr>"

definition pm_clear :: "u8 \<Rightarrow> u8 \<Rightarrow> u8 \<Rightarrow> prio_map \<Rightarrow> prio_map" where
  "pm_clear y bity bitx m =
     (let b = pm_tbl m ! unat y AND NOT bitx; m1 = m\<lparr>pm_tbl := (pm_tbl m)[unat y := b]\<rparr>
      in if b = 0 then m1\<lparr>pm_grp := pm_grp m AND NOT bity\<rparr> else m1)"

definition pm_high :: "prio_map \<Rightarrow> u8" where
  "pm_high m =
     (let y = OSUnMapTbl ! unat (pm_grp m)
      in push_bit 3 y + OSUnMapTbl ! unat (pm_tbl m ! unat y))"

definition pm_empty :: prio_map where
  "pm_empty = \<lparr>pm_grp = 0, pm_tbl = replicate 8 0\<rparr>"

section \<open>The sets they stand for\<close>

definition lowest_in :: "nat \<Rightarrow> nat \<Rightarrow> bool" where
  "lowest_in n i \<longleftrightarrow> i < 8 \<and> n mod (2 * 2 ^ i) = 2 ^ i"

fun table_ok :: "nat \<Rightarrow> u8 list \<Rightarrow> bool" where
  "table_ok n [] = True"
| "table_ok n (x # xs) = ((n = 0 \<or> lowest_in n (unat x)) \<and> table_ok (n + 1) xs)"

lemma table_okD: "table_ok n xs \<Longrightarrow> i < length xs \<Longrightarrow> 0 < n + i \<Longrightarrow> lowest_in (n + i) (unat (xs ! i))"
proof (induction xs arbitrary: n i)
  case (Cons x xs)
  then show ?case using Cons.IH [of "n + 1" "i - 1"] by (cases i) auto
qed simp

lemma unmap_table_ok: "table_ok 0 OSUnMapTbl"
  by (simp add: OSUnMapTbl_def lowest_in_def)

lemma OSUnMapTbl_lowest:
  fixes g :: u8
  assumes "g \<noteq> 0"
  shows "bit g (unat (OSUnMapTbl ! unat g))" "unat (OSUnMapTbl ! unat g) < 8" "i < unat (OSUnMapTbl ! unat g) \<Longrightarrow> \<not> bit g i"
proof -
  have "unat g < 256" using unsigned_less [of g] by simp
  moreover have "0 < unat g" using assms by (simp add: unat_gt_0)
  ultimately have l: "lowest_in (unat g) (unat (OSUnMapTbl ! unat g))"
    using table_okD [OF unmap_table_ok, of "unat g"] by (simp add: OSUnMapTbl_def)
  let ?k = "unat (OSUnMapTbl ! unat g)"
  have b: "bit g j \<longleftrightarrow> odd (unat g div 2 ^ j)" for j
  proof -
    have "bit g j = bit (unat g) j" by (simp add: bit_unsigned_iff)
    then show ?thesis by (simp only: bit_iff_odd [of "unat g"])
  qed
  have d: "unat g = 2 ^ ?k * (2 * (unat g div (2 * 2 ^ ?k)) + 1)"
    using l div_mult_mod_eq [of "unat g" "2 * 2 ^ ?k"] by (simp add: lowest_in_def algebra_simps)
  show "bit g ?k" unfolding b by (subst d) simp
  show "?k < 8" using l by (simp add: lowest_in_def)
  show "\<not> bit g i" if "i < ?k"
  proof -
    have "(2 :: nat) ^ ?k = 2 ^ i * (2 * 2 ^ (?k - Suc i))" using that by (simp flip: power_add power_Suc)
    then have "unat g = 2 ^ i * (2 * (2 ^ (?k - Suc i) * (2 * (unat g div (2 * 2 ^ ?k)) + 1)))"
      using d by (metis mult.assoc)
    then have "unat g div 2 ^ i = 2 * (2 ^ (?k - Suc i) * (2 * (unat g div (2 * 2 ^ ?k)) + 1))"
      by (metis nonzero_mult_div_cancel_left power_not_zero zero_neq_numeral)
    then show ?thesis unfolding b by simp
  qed
qed
definition pm_ok :: "prio_map \<Rightarrow> bool" where
  "pm_ok m \<longleftrightarrow> length (pm_tbl m) = 8 \<and> (\<forall>y<8. bit (pm_grp m) y \<longleftrightarrow> pm_tbl m ! y \<noteq> 0)"

definition prios :: "prio_map \<Rightarrow> nat set" where
  "prios m = {p. p < 64 \<and> bit (pm_tbl m ! (p div 8)) (p mod 8)}"

text \<open>The bit masks of a priority.\<close>

definition prio_y :: "u8 \<Rightarrow> u8" where "prio_y p = drop_bit 3 p"
definition prio_bity :: "u8 \<Rightarrow> u8" where "prio_bity p = push_bit (unat (prio_y p)) 1"
definition prio_bitx :: "u8 \<Rightarrow> u8" where "prio_bitx p = push_bit (unat (p AND 7)) 1"

lemma prio_y_nat: "unat (prio_y p) = unat p div 8"
  by (simp add: prio_y_def drop_bit_eq_div unat_div_distrib)

lemma prio_x_nat: "unat (p AND 7) = unat (p :: u8) mod 8"
proof -
  have "p AND 7 = p AND mask 3" by (simp add: mask_eq_exp_minus_1)
  then have "p AND 7 = take_bit 3 p" by (simp only: take_bit_eq_mask)
  then show ?thesis by (simp only: unsigned_take_bit_eq) (simp add: take_bit_eq_mod)
qed

lemma bit_prio_bity: "p < 64 \<Longrightarrow> bit (prio_bity p) i \<longleftrightarrow> i = unat p div 8"
  by (auto simp: prio_bity_def bit_simps prio_y_nat word_less_nat_alt)

lemma bit_prio_bitx: "bit (prio_bitx p) i \<longleftrightarrow> i = unat p mod 8"
  by (auto simp: prio_bitx_def bit_simps prio_x_nat)

abbreviation (input) pm_ins :: "u8 \<Rightarrow> prio_map \<Rightarrow> prio_map" where
  "pm_ins p \<equiv> pm_set (prio_y p) (prio_bity p) (prio_bitx p)"

abbreviation (input) pm_del :: "u8 \<Rightarrow> prio_map \<Rightarrow> prio_map" where
  "pm_del p \<equiv> pm_clear (prio_y p) (prio_bity p) (prio_bitx p)"

lemma pm_empty [simp]: "pm_ok pm_empty" "prios pm_empty = {}"
  by (auto simp: pm_ok_def prios_def pm_empty_def nth_replicate split: if_splits)

lemma div_mod_8: "(p :: nat) div 8 = q div 8 \<Longrightarrow> p mod 8 = q mod 8 \<Longrightarrow> p = q"
  by (metis div_mult_mod_eq)

lemma prios_ins:
  assumes "pm_ok m" "p < 64" shows "pm_ok (pm_ins p m)" "prios (pm_ins p m) = insert (unat p) (prios m)"
proof -
  have y: "unat p div 8 < 8" "unat p < 64" using assms(2) by (auto simp: word_less_nat_alt)
  have n: "pm_tbl m ! (unat p div 8) OR prio_bitx p \<noteq> 0"
  proof
    assume z: "pm_tbl m ! (unat p div 8) OR prio_bitx p = 0"
    have "bit (pm_tbl m ! (unat p div 8) OR prio_bitx p) (unat p mod 8)" by (simp add: bit_or_iff bit_prio_bitx)
    with z show False by simp
  qed
  show "pm_ok (pm_ins p m)"
    using assms y n by (auto simp: pm_ok_def pm_set_def prio_y_nat nth_list_update bit_or_iff bit_prio_bity)
  show "prios (pm_ins p m) = insert (unat p) (prios m)"
    using assms y by (auto simp: pm_ok_def prios_def pm_set_def prio_y_nat nth_list_update bit_or_iff bit_prio_bitx dest: div_mod_8)
qed

lemma prios_del:
  assumes "pm_ok m" "p < 64" shows "pm_ok (pm_del p m)" "prios (pm_del p m) = prios m - {unat p}"
proof -
  have y: "unat p div 8 < 8" "unat p < 64" using assms(2) by (auto simp: word_less_nat_alt)
  show "pm_ok (pm_del p m)"
    using assms y by (auto simp: pm_ok_def pm_clear_def Let_def prio_y_nat nth_list_update bit_and_iff bit_not_iff bit_prio_bity)
  have "prios (pm_del p m) = {q. q < 64 \<and> bit ((pm_tbl m)[unat p div 8 := pm_tbl m ! (unat p div 8) AND NOT (prio_bitx p)] ! (q div 8)) (q mod 8)}"
    by (simp add: prios_def pm_clear_def prio_y_nat Let_def)
  also have "\<dots> = prios m - {unat p}"
    using assms y by (auto simp: pm_ok_def prios_def nth_list_update bit_and_iff bit_not_iff bit_prio_bitx dest: div_mod_8)
  finally show "prios (pm_del p m) = prios m - {unat p}" .
qed

lemma u8_not_bit: "(x :: u8) = 0 \<longleftrightarrow> (\<forall>i<8. \<not> bit x i)"
  by (auto intro: bit_eqI dest: bit_imp_le_length)

lemma pm_grp_0: "pm_ok m \<Longrightarrow> pm_grp m = 0 \<longleftrightarrow> prios m = {}"
proof -
  assume ok: "pm_ok m"
  have "pm_grp m = 0 \<longleftrightarrow> (\<forall>y<8. pm_tbl m ! y = 0)" using ok by (auto simp: u8_not_bit [of "pm_grp m"] pm_ok_def)
  also have "\<dots> \<longleftrightarrow> (\<forall>y<8. \<forall>x<8. \<not> bit (pm_tbl m ! y) x)" by (simp add: u8_not_bit)
  also have "\<dots> \<longleftrightarrow> prios m = {}"
  proof
    assume a: "\<forall>y<8. \<forall>x<8. \<not> bit (pm_tbl m ! y) x"
    have "\<not> bit (pm_tbl m ! (p div 8)) (p mod 8)" if "p < 64" for p using a that by simp
    then show "prios m = {}" by (simp add: prios_def)
  next
    assume e: "prios m = {}"
    have "\<not> bit (pm_tbl m ! y) x" if "y < 8" "x < 8" for y x
    proof -
      have "8 * y + x < 64" "(8 * y + x) div 8 = y" "(8 * y + x) mod 8 = x" using that by auto
      moreover have "8 * y + x \<notin> prios m" using e by simp
      ultimately show ?thesis by (simp add: prios_def)
    qed
    then show "\<forall>y<8. \<forall>x<8. \<not> bit (pm_tbl m ! y) x" by simp
  qed
  finally show ?thesis .
qed

lemma pm_high_Min:
  assumes "pm_ok m" "prios m \<noteq> {}" shows "unat (pm_high m) = Min (prios m)" "pm_high m < 64"
proof -
  define y where "y = unat (OSUnMapTbl ! unat (pm_grp m))"
  define x where "x = unat (OSUnMapTbl ! unat (pm_tbl m ! y))"
  have "pm_grp m \<noteq> 0" using assms pm_grp_0 by blast
  from OSUnMapTbl_lowest [OF this] have y: "bit (pm_grp m) y" "y < 8" "\<And>i. i < y \<Longrightarrow> \<not> bit (pm_grp m) i" by (simp_all add: y_def)
  then have "pm_tbl m ! y \<noteq> 0" using assms(1) by (simp add: pm_ok_def)
  from OSUnMapTbl_lowest [OF this] have x: "bit (pm_tbl m ! y) x" "x < 8" "\<And>i. i < x \<Longrightarrow> \<not> bit (pm_tbl m ! y) i" by (simp_all add: x_def)
  have h: "unat (pm_high m) = 8 * y + x"
  proof -
    have "unat (push_bit 3 (OSUnMapTbl ! unat (pm_grp m))) = 8 * y"
      using y(2) by (simp add: push_bit_eq_mult unat_word_ariths y_def)
    then show ?thesis using y(2) x(2) by (simp add: pm_high_def Let_def unat_word_ariths x_def [symmetric] flip: y_def)
  qed
  have mem: "8 * y + x \<in> prios m" using y(2) x by (auto simp: prios_def)
  moreover have "8 * y + x \<le> q" if q: "q \<in> prios m" for q
  proof -
    have b: "q < 64" "bit (pm_tbl m ! (q div 8)) (q mod 8)" using q by (auto simp: prios_def)
    then have "pm_tbl m ! (q div 8) \<noteq> 0" by auto
    then have "bit (pm_grp m) (q div 8)" using assms(1) b(1) by (simp add: pm_ok_def)
    then have "y \<le> q div 8" using y(3) not_le by blast
    moreover have "x \<le> q mod 8" if "q div 8 = y" using x(3) b(2) that not_le by blast
    ultimately have "y < q div 8 \<or> y = q div 8 \<and> x \<le> q mod 8" by linarith
    then show ?thesis using x(2) div_mult_mod_eq [of q 8] by linarith
  qed
  moreover have "finite (prios m)" by (simp add: prios_def)
  ultimately show "unat (pm_high m) = Min (prios m)" unfolding h by (metis Min_eqI)
  then show "pm_high m < 64" using h y(2) x(2) by (simp add: word_less_nat_alt)
qed

section \<open>Tasks, events and the kernel's variables\<close>

record os_tcb =
  OSTCBPrio :: u8
  OSTCBX :: u8
  OSTCBY :: u8
  OSTCBBitX :: u8
  OSTCBBitY :: u8
  OSTCBStat :: u8
  OSTCBStatPend :: u8
  OSTCBDly :: u32
  OSTCBEventPtr :: nat
  OSTCBMessage :: nat

record os_event =
  OSEventType :: u8
  OSEventPtr :: nat
  OSEventCnt :: u16
  OSEventWait :: prio_map

datatype tick_step = OS_TICK_STEP_DIS | OS_TICK_STEP_WAIT | OS_TICK_STEP_ONCE

text \<open>
  An entry of \<open>OSTCBPrioTbl\<close> is 0 for no task, 1 for \<open>OS_TCB_RESERVED\<close>, else the task; the lists
  of control blocks, linked in the code, are lists.
\<close>

record kernel =
  tcb :: "nat \<Rightarrow> os_tcb"
  ecb :: "nat \<Rightarrow> os_event"
  OSTCBPrioTbl :: "nat list"
  OSTCBList :: "nat list"
  OSTCBFreeList :: "nat list"
  OSEventFreeList :: "nat list"
  OSRdy :: prio_map
  OSTCBCur :: nat
  OSTCBHighRdy :: nat
  OSPrioCur :: u8
  OSPrioHighRdy :: u8
  OSIntNesting :: u8
  OSLockNesting :: u8
  OSRunning :: bool
  OSTime :: u32
  OSTickStepState :: tick_step

abbreviation (input) OS_TCB_RESERVED :: nat where "OS_TCB_RESERVED \<equiv> 1"
abbreviation (input) OS_TASK_IDLE_PRIO :: u8 where "OS_TASK_IDLE_PRIO \<equiv> 63"
abbreviation (input) OS_STAT_RDY :: u8 where "OS_STAT_RDY \<equiv> 0"
abbreviation (input) OS_STAT_SUSPEND :: u8 where "OS_STAT_SUSPEND \<equiv> 0x08"
abbreviation (input) OS_STAT_MUTEX :: u8 where "OS_STAT_MUTEX \<equiv> 0x10"
abbreviation (input) OS_STAT_PEND_ANY :: u8 where "OS_STAT_PEND_ANY \<equiv> 0x37"
abbreviation (input) OS_STAT_PEND_OK :: u8 where "OS_STAT_PEND_OK \<equiv> 0"
abbreviation (input) OS_STAT_PEND_TO :: u8 where "OS_STAT_PEND_TO \<equiv> 1"
abbreviation (input) OS_STAT_PEND_ABORT :: u8 where "OS_STAT_PEND_ABORT \<equiv> 2"

definition upd_tcb :: "nat \<Rightarrow> (os_tcb \<Rightarrow> os_tcb) \<Rightarrow> kernel \<Rightarrow> kernel" where
  "upd_tcb t f s = s\<lparr>tcb := (tcb s)(t := f (tcb s t))\<rparr>"

definition upd_ecb :: "nat \<Rightarrow> (os_event \<Rightarrow> os_event) \<Rightarrow> kernel \<Rightarrow> kernel" where
  "upd_ecb e f s = s\<lparr>ecb := (ecb s)(e := f (ecb s e))\<rparr>"

text \<open>The priority of a task and the positions precomputed from it.\<close>

definition set_prio :: "u8 \<Rightarrow> os_tcb \<Rightarrow> os_tcb" where
  "set_prio p b =
     b\<lparr>OSTCBPrio := p, OSTCBY := prio_y p, OSTCBX := p AND 7, OSTCBBitY := prio_bity p, OSTCBBitX := prio_bitx p\<rparr>"

text \<open>The task of a control block enters or leaves a set of priorities.\<close>

definition enter :: "os_tcb \<Rightarrow> prio_map \<Rightarrow> prio_map" where
  "enter b = pm_set (OSTCBY b) (OSTCBBitY b) (OSTCBBitX b)"

definition leave :: "os_tcb \<Rightarrow> prio_map \<Rightarrow> prio_map" where
  "leave b = pm_clear (OSTCBY b) (OSTCBBitY b) (OSTCBBitX b)"

section \<open>The scheduler\<close>

definition OS_InitRdyList :: "kernel \<Rightarrow> kernel" where
  "OS_InitRdyList s =
     s\<lparr>OSRdy := pm_empty, OSPrioCur := 0, OSPrioHighRdy := 0, OSTCBHighRdy := 0, OSTCBCur := 0\<rparr>"

definition OS_SchedNew :: "kernel \<Rightarrow> kernel" where
  "OS_SchedNew s = s\<lparr>OSPrioHighRdy := pm_high (OSRdy s)\<rparr>"

text \<open>The context switch of the port makes the highest ready task the current one.\<close>

definition ctx_sw :: "kernel \<Rightarrow> kernel" where
  "ctx_sw s =
     (let s1 = OS_SchedNew s; s2 = s1\<lparr>OSTCBHighRdy := OSTCBPrioTbl s1 ! unat (OSPrioHighRdy s1)\<rparr>
      in if OSPrioHighRdy s2 \<noteq> OSPrioCur s2 then s2\<lparr>OSPrioCur := OSPrioHighRdy s2, OSTCBCur := OSTCBHighRdy s2\<rparr> else s2)"

definition OS_Sched :: "kernel \<Rightarrow> kernel" where
  "OS_Sched s = (if OSIntNesting s = 0 \<and> OSLockNesting s = 0 then ctx_sw s else s)"

definition OSStart :: "kernel \<Rightarrow> kernel" where
  "OSStart s =
     (if OSRunning s then s
      else let s1 = OS_SchedNew s; t = OSTCBPrioTbl s1 ! unat (OSPrioHighRdy s1)
           in s1\<lparr>OSPrioCur := OSPrioHighRdy s1, OSTCBHighRdy := t, OSTCBCur := t, OSRunning := True\<rparr>)"

definition OSIntEnter :: "kernel \<Rightarrow> kernel" where
  "OSIntEnter s = (if OSRunning s \<and> OSIntNesting s < 255 then s\<lparr>OSIntNesting := OSIntNesting s + 1\<rparr> else s)"

definition OSIntExit :: "kernel \<Rightarrow> kernel" where
  "OSIntExit s =
     (if OSRunning s then
        let s1 = (if OSIntNesting s > 0 then s\<lparr>OSIntNesting := OSIntNesting s - 1\<rparr> else s)
        in if OSIntNesting s1 = 0 \<and> OSLockNesting s1 = 0 then ctx_sw s1 else s1
      else s)"

definition OSSchedLock :: "kernel \<Rightarrow> kernel" where
  "OSSchedLock s =
     (if OSRunning s \<and> OSIntNesting s = 0 \<and> OSLockNesting s < 255 then s\<lparr>OSLockNesting := OSLockNesting s + 1\<rparr> else s)"

definition OSSchedUnlock :: "kernel \<Rightarrow> kernel" where
  "OSSchedUnlock s =
     (if OSRunning s \<and> OSIntNesting s = 0 \<and> OSLockNesting s > 0 then
        let s1 = s\<lparr>OSLockNesting := OSLockNesting s - 1\<rparr>
        in if OSLockNesting s1 = 0 then OS_Sched s1 else s1
      else s)"

section \<open>Waiting\<close>

definition OS_EventWaitListInit :: "nat \<Rightarrow> kernel \<Rightarrow> kernel" where
  "OS_EventWaitListInit e = upd_ecb e (\<lambda>b. b\<lparr>OSEventWait := pm_empty\<rparr>)"

definition OS_EventTaskRemove :: "nat \<Rightarrow> nat \<Rightarrow> kernel \<Rightarrow> kernel" where
  "OS_EventTaskRemove t e s = upd_ecb e (\<lambda>b. b\<lparr>OSEventWait := leave (tcb s t) (OSEventWait b)\<rparr>) s"

definition OS_EventTaskWait :: "nat \<Rightarrow> kernel \<Rightarrow> kernel" where
  "OS_EventTaskWait e s =
     (let c = OSTCBCur s;
          s1 = upd_tcb c (\<lambda>b. b\<lparr>OSTCBEventPtr := e\<rparr>) s;
          s2 = upd_ecb e (\<lambda>b. b\<lparr>OSEventWait := enter (tcb s1 c) (OSEventWait b)\<rparr>) s1
      in s2\<lparr>OSRdy := leave (tcb s2 c) (OSRdy s2)\<rparr>)"

text \<open>The waiting task of highest priority is made ready, unless it is suspended.\<close>

definition OS_EventTaskRdy_tcb :: "nat \<Rightarrow> nat \<Rightarrow> u8 \<Rightarrow> u8 \<Rightarrow> kernel \<Rightarrow> u8 \<times> kernel" where
  "OS_EventTaskRdy_tcb e msg msk pend_stat s =
     (let w = OSEventWait (ecb s e); y = OSUnMapTbl ! unat (pm_grp w); prio = pm_high w;
          t = OSTCBPrioTbl s ! unat prio;
          s1 = upd_tcb t (\<lambda>b. b\<lparr>OSTCBDly := 0, OSTCBMessage := msg, OSTCBStat := OSTCBStat b AND NOT msk,
                              OSTCBStatPend := pend_stat\<rparr>) s;
          b = tcb s1 t;
          s2 = (if OSTCBStat b AND OS_STAT_SUSPEND = OS_STAT_RDY
                then s1\<lparr>OSRdy := pm_set y (OSTCBBitY b) (OSTCBBitX b) (OSRdy s1)\<rparr> else s1)
      in (prio, OS_EventTaskRemove t e s2))"

section \<open>Time\<close>

definition OSTimeDly :: "u32 \<Rightarrow> kernel \<Rightarrow> kernel" where
  "OSTimeDly ticks s =
     (if OSIntNesting s > 0 \<or> OSLockNesting s > 0 then s
      else if ticks > 0 then
        let c = OSTCBCur s
        in OS_Sched (upd_tcb c (\<lambda>b. b\<lparr>OSTCBDly := ticks\<rparr>) (s\<lparr>OSRdy := leave (tcb s c) (OSRdy s)\<rparr>))
      else s)"

definition tick_task :: "nat \<Rightarrow> kernel \<Rightarrow> kernel" where
  "tick_task t s =
     (if OSTCBDly (tcb s t) = 0 then s
      else
        let s1 = upd_tcb t (\<lambda>b. b\<lparr>OSTCBDly := OSTCBDly b - 1\<rparr>) s
        in if OSTCBDly (tcb s1 t) \<noteq> 0 then s1
           else
             let s2 = upd_tcb t (\<lambda>b. if OSTCBStat b AND OS_STAT_PEND_ANY \<noteq> OS_STAT_RDY
                        then b\<lparr>OSTCBStat := OSTCBStat b AND NOT OS_STAT_PEND_ANY, OSTCBStatPend := OS_STAT_PEND_TO\<rparr>
                        else b\<lparr>OSTCBStatPend := OS_STAT_PEND_OK\<rparr>) s1
             in if OSTCBStat (tcb s2 t) AND OS_STAT_SUSPEND = OS_STAT_RDY
                then s2\<lparr>OSRdy := enter (tcb s2 t) (OSRdy s2)\<rparr> else s2)"

text \<open>The list of tasks ends with the idle task, which is created first.\<close>

fun tick_tasks :: "nat list \<Rightarrow> kernel \<Rightarrow> kernel" where
  "tick_tasks [] s = s"
| "tick_tasks (t # ts) s = (if OSTCBPrio (tcb s t) = OS_TASK_IDLE_PRIO then s else tick_tasks ts (tick_task t s))"

definition OSTimeTick :: "kernel \<Rightarrow> kernel" where
  "OSTimeTick s =
     (let s1 = s\<lparr>OSTime := OSTime s + 1\<rparr>
      in if \<not> OSRunning s1 then s1
         else case OSTickStepState s1 of
           OS_TICK_STEP_WAIT \<Rightarrow> s1
         | OS_TICK_STEP_ONCE \<Rightarrow> tick_tasks (OSTCBList s1) (s1\<lparr>OSTickStepState := OS_TICK_STEP_WAIT\<rparr>)
         | OS_TICK_STEP_DIS \<Rightarrow> tick_tasks (OSTCBList s1) s1)"

text \<open>The interrupt of the system's timer: \<open>os_cpu_c.c\<close> of the port.\<close>

definition OS_CPU_SysTickHandler :: "kernel \<Rightarrow> kernel" where
  "OS_CPU_SysTickHandler s = OSIntExit (OSTimeTick (s\<lparr>OSIntNesting := OSIntNesting s + 1\<rparr>))"

section \<open>Creating a task\<close>

text \<open>The stack, the identifier and the options of a task play no part here.\<close>

definition OS_TCBInit :: "u8 \<Rightarrow> kernel \<Rightarrow> nat option \<times> kernel" where
  "OS_TCBInit prio s =
     (case OSTCBFreeList s of
        [] \<Rightarrow> (None, s)
      | t # ts \<Rightarrow>
          let s1 = upd_tcb t (\<lambda>b. set_prio prio (b\<lparr>OSTCBStat := OS_STAT_RDY, OSTCBStatPend := OS_STAT_PEND_OK, OSTCBDly := 0,
                     OSTCBEventPtr := 0, OSTCBMessage := 0\<rparr>)) (s\<lparr>OSTCBFreeList := ts\<rparr>)
          in (Some t, s1\<lparr>OSTCBPrioTbl := (OSTCBPrioTbl s1)[unat prio := t], OSTCBList := t # OSTCBList s1,
                        OSRdy := enter (tcb s1 t) (OSRdy s1)\<rparr>))"

end
