(* ===== verification/Os_Mutex.thy ===== *)
theory Os_Mutex
  imports Os_Core
begin

text \<open>
  The mutexes of uC/OS-II (\<open>ucosii/uCOS-II/Source/os_mutex.c\<close>). The count of a mutex holds two
  priorities: in the upper byte the ceiling its owner is raised to (0xFF for none), in the lower one
  the priority the owner has of itself (0xFF while the mutex is free). A pend that has to wait is
  two steps: the call, which suspends the task, and what it does when it runs again. The checks of
  the arguments are configured out, so a ceiling outside the table is a \<open>Fault\<close>.
\<close>

section \<open>Operations\<close>

abbreviation (input) OS_PRIO_MUTEX_CEIL_DIS :: u8 where "OS_PRIO_MUTEX_CEIL_DIS \<equiv> 0xFF"
abbreviation (input) OS_MUTEX_AVAILABLE :: u8 where "OS_MUTEX_AVAILABLE \<equiv> 0xFF"
abbreviation (input) OS_EVENT_TYPE_UNUSED :: u8 where "OS_EVENT_TYPE_UNUSED \<equiv> 0"
abbreviation (input) OS_EVENT_TYPE_MUTEX :: u8 where "OS_EVENT_TYPE_MUTEX \<equiv> 4"

definition mutex_pcp :: "os_event \<Rightarrow> u8" where
  "mutex_pcp e = ucast (drop_bit 8 (OSEventCnt e))"

definition mutex_low :: "os_event \<Rightarrow> u8" where
  "mutex_low e = ucast (OSEventCnt e AND 0x00FF)"

definition set_low :: "u8 \<Rightarrow> os_event \<Rightarrow> os_event" where
  "set_low p e = e\<lparr>OSEventCnt := (OSEventCnt e AND 0xFF00) OR ucast p\<rparr>"

definition OSMutexCreate :: "u8 \<Rightarrow> kernel \<Rightarrow> ((nat \<times> os_err) \<times> kernel) outcome" where
  "OSMutexCreate prio s =
     (if OSIntNesting s > 0 then Ret ((0, OS_ERR_CREATE_ISR), s)
      else if prio \<noteq> OS_PRIO_MUTEX_CEIL_DIS \<and> unat prio \<ge> length (OSTCBPrioTbl s) then Fault
      else if prio \<noteq> OS_PRIO_MUTEX_CEIL_DIS \<and> OSTCBPrioTbl s ! unat prio \<noteq> 0 then Ret ((0, OS_ERR_PRIO_EXIST), s)
      else case OSEventFreeList s of
        [] \<Rightarrow> Ret ((0, OS_ERR_PEVENT_NULL), s)
      | e # es \<Rightarrow>
          let s1 = (if prio \<noteq> OS_PRIO_MUTEX_CEIL_DIS then s\<lparr>OSTCBPrioTbl := (OSTCBPrioTbl s)[unat prio := OS_TCB_RESERVED]\<rparr> else s);
              s2 = upd_ecb e (\<lambda>b. b\<lparr>OSEventType := OS_EVENT_TYPE_MUTEX, OSEventCnt := push_bit 8 (ucast prio) OR 0x00FF,
                                    OSEventPtr := 0\<rparr>) (s1\<lparr>OSEventFreeList := es\<rparr>)
          in Ret ((e, OS_ERR_NONE), OS_EventWaitListInit e s2))"

text \<open>The current task takes the mutex.\<close>

definition acquire :: "nat \<Rightarrow> kernel \<Rightarrow> os_err \<times> kernel" where
  "acquire e s =
     (let c = OSTCBCur s; p = OSTCBPrio (tcb s c); pcp = mutex_pcp (ecb s e)
      in (if pcp \<noteq> OS_PRIO_MUTEX_CEIL_DIS \<and> p \<le> pcp then OS_ERR_PCP_LOWER else OS_ERR_NONE,
          upd_ecb e (\<lambda>b. (set_low p b)\<lparr>OSEventPtr := c\<rparr>) s))"

definition OSMutexAccept :: "nat \<Rightarrow> kernel \<Rightarrow> (bool \<times> os_err) \<times> kernel" where
  "OSMutexAccept e s =
     (if OSEventType (ecb s e) \<noteq> OS_EVENT_TYPE_MUTEX then ((False, OS_ERR_EVENT_TYPE), s)
      else if OSIntNesting s > 0 then ((False, OS_ERR_PEND_ISR), s)
      else if mutex_low (ecb s e) = OS_MUTEX_AVAILABLE then
        case acquire e s of (err, s1) \<Rightarrow> ((True, err), s1)
      else ((False, OS_ERR_NONE), s))"

text \<open>The owner is raised to the ceiling, in the ready list or in the waiting list it is in.\<close>

definition promote_owner :: "nat \<Rightarrow> kernel \<Rightarrow> kernel" where
  "promote_owner e s =
     (let pcp = mutex_pcp (ecb s e); t = OSEventPtr (ecb s e); b = tcb s t
      in if OSTCBPrio b > pcp \<and> mutex_low (ecb s e) > OSTCBPrio (tcb s (OSTCBCur s)) then
           let rdy = (pm_tbl (OSRdy s) ! unat (OSTCBY b) AND OSTCBBitX b \<noteq> 0);
               e2 = OSTCBEventPtr b;
               s1 = (if rdy then s\<lparr>OSRdy := leave b (OSRdy s)\<rparr>
                     else if e2 \<noteq> 0 then upd_ecb e2 (\<lambda>v. v\<lparr>OSEventWait := leave b (OSEventWait v)\<rparr>) s else s);
               s2 = upd_tcb t (set_prio pcp) s1; b2 = tcb s2 t;
               s3 = (if rdy then s2\<lparr>OSRdy := enter b2 (OSRdy s2)\<rparr>
                     else if e2 \<noteq> 0 then upd_ecb e2 (\<lambda>v. v\<lparr>OSEventWait := enter b2 (OSEventWait v)\<rparr>) s2 else s2)
           in s3\<lparr>OSTCBPrioTbl := (OSTCBPrioTbl s3)[unat pcp := t]\<rparr>
         else s)"

definition OSMutexPend :: "nat \<Rightarrow> u32 \<Rightarrow> kernel \<Rightarrow> os_err option \<times> kernel" where
  "OSMutexPend e timeout s =
     (if OSEventType (ecb s e) \<noteq> OS_EVENT_TYPE_MUTEX then (Some OS_ERR_EVENT_TYPE, s)
      else if OSIntNesting s > 0 then (Some OS_ERR_PEND_ISR, s)
      else if OSLockNesting s > 0 then (Some OS_ERR_PEND_LOCKED, s)
      else if mutex_low (ecb s e) = OS_MUTEX_AVAILABLE then
        case acquire e s of (err, s1) \<Rightarrow> (Some err, s1)
      else
        let s1 = (if mutex_pcp (ecb s e) \<noteq> OS_PRIO_MUTEX_CEIL_DIS then promote_owner e s else s);
            s2 = upd_tcb (OSTCBCur s1) (\<lambda>b. b\<lparr>OSTCBStat := OSTCBStat b OR OS_STAT_MUTEX, OSTCBStatPend := OS_STAT_PEND_OK,
                                             OSTCBDly := timeout\<rparr>) s1
        in (None, OS_Sched (OS_EventTaskWait e s2)))"

text \<open>The task runs again: it owns the mutex, was told to give up, or has waited too long.\<close>

definition OSMutexPend_resume :: "nat \<Rightarrow> kernel \<Rightarrow> os_err \<times> kernel" where
  "OSMutexPend_resume e s =
     (let c = OSTCBCur s; st = OSTCBStatPend (tcb s c);
          (err, s1) = (if st = OS_STAT_PEND_OK then (OS_ERR_NONE, s)
                       else if st = OS_STAT_PEND_ABORT then (OS_ERR_PEND_ABORT, s)
                       else (OS_ERR_TIMEOUT, OS_EventTaskRemove c e s))
      in (err, upd_tcb c (\<lambda>b. b\<lparr>OSTCBStat := OS_STAT_RDY, OSTCBStatPend := OS_STAT_PEND_OK, OSTCBEventPtr := 0\<rparr>) s1))"

definition OSMutex_RdyAtPrio :: "nat \<Rightarrow> u8 \<Rightarrow> kernel \<Rightarrow> kernel" where
  "OSMutex_RdyAtPrio t prio s =
     (let s1 = upd_tcb t (set_prio prio) (s\<lparr>OSRdy := leave (tcb s t) (OSRdy s), OSPrioCur := prio\<rparr>)
      in s1\<lparr>OSRdy := enter (tcb s1 t) (OSRdy s1), OSTCBPrioTbl := (OSTCBPrioTbl s1)[unat prio := t]\<rparr>)"

definition OSMutexPost :: "nat \<Rightarrow> kernel \<Rightarrow> os_err \<times> kernel" where
  "OSMutexPost e s =
     (if OSIntNesting s > 0 then (OS_ERR_POST_ISR, s)
      else if OSEventType (ecb s e) \<noteq> OS_EVENT_TYPE_MUTEX then (OS_ERR_EVENT_TYPE, s)
      else
        let pcp = mutex_pcp (ecb s e); prio = mutex_low (ecb s e); c = OSTCBCur s
        in if c \<noteq> OSEventPtr (ecb s e) then (OS_ERR_NOT_MUTEX_OWNER, s)
           else
             let s1 = (if pcp \<noteq> OS_PRIO_MUTEX_CEIL_DIS then
                         let s0 = (if OSTCBPrio (tcb s c) = pcp then OSMutex_RdyAtPrio c prio s else s)
                         in s0\<lparr>OSTCBPrioTbl := (OSTCBPrioTbl s0)[unat pcp := OS_TCB_RESERVED]\<rparr>
                       else s)
             in if pm_grp (OSEventWait (ecb s1 e)) \<noteq> 0 then
                  case OS_EventTaskRdy_tcb e 0 OS_STAT_MUTEX OS_STAT_PEND_OK s1 of
                    (p, s2) \<Rightarrow>
                      let s3 = upd_ecb e (\<lambda>b. (set_low p b)\<lparr>OSEventPtr := OSTCBPrioTbl s2 ! unat p\<rparr>) s2
                      in (if pcp \<noteq> OS_PRIO_MUTEX_CEIL_DIS \<and> p \<le> pcp then OS_ERR_PCP_LOWER else OS_ERR_NONE, OS_Sched s3)
                else (OS_ERR_NONE, upd_ecb e (\<lambda>b. b\<lparr>OSEventCnt := OSEventCnt b OR 0x00FF, OSEventPtr := 0\<rparr>) s1))"

section \<open>Deleting and asking\<close>

text \<open>The loop that readies every waiting task: there are 64 of them at most.\<close>

fun ready_all :: "nat \<Rightarrow> nat \<Rightarrow> kernel \<Rightarrow> kernel outcome" where
  "ready_all 0 e s = (if pm_grp (OSEventWait (ecb s e)) = 0 then Ret s else Hang)"
| "ready_all (Suc n) e s =
     (if pm_grp (OSEventWait (ecb s e)) = 0 then Ret s
      else ready_all n e (snd (OS_EventTaskRdy_tcb e 0 OS_STAT_MUTEX OS_STAT_PEND_ABORT s)))"

definition free_mutex :: "nat \<Rightarrow> kernel \<Rightarrow> kernel" where
  "free_mutex e s =
     (let pcp = mutex_pcp (ecb s e);
          s1 = (if pcp \<noteq> OS_PRIO_MUTEX_CEIL_DIS then s\<lparr>OSTCBPrioTbl := (OSTCBPrioTbl s)[unat pcp := 0]\<rparr> else s)
      in upd_ecb e (\<lambda>b. b\<lparr>OSEventType := OS_EVENT_TYPE_UNUSED, OSEventCnt := 0,
                            OSEventPtr := (case OSEventFreeList s1 of [] \<Rightarrow> 0 | k # _ \<Rightarrow> k)\<rparr>)
           (s1\<lparr>OSEventFreeList := e # OSEventFreeList s1\<rparr>))"

datatype del_opt = OS_DEL_NO_PEND | OS_DEL_ALWAYS | OS_DEL_OTHER

definition OSMutexDel :: "nat \<Rightarrow> del_opt \<Rightarrow> kernel \<Rightarrow> ((nat \<times> os_err) \<times> kernel) outcome" where
  "OSMutexDel e opt s =
     (if OSEventType (ecb s e) \<noteq> OS_EVENT_TYPE_MUTEX then Ret ((e, OS_ERR_EVENT_TYPE), s)
      else if OSIntNesting s > 0 then Ret ((e, OS_ERR_DEL_ISR), s)
      else
        let waiting = (pm_grp (OSEventWait (ecb s e)) \<noteq> 0)
        in case opt of
             OS_DEL_NO_PEND \<Rightarrow>
               if waiting then Ret ((e, OS_ERR_TASK_WAITING), s) else Ret ((0, OS_ERR_NONE), free_mutex e s)
           | OS_DEL_ALWAYS \<Rightarrow>
               let pcp = mutex_pcp (ecb s e); t = OSEventPtr (ecb s e);
                   s1 = (if pcp \<noteq> OS_PRIO_MUTEX_CEIL_DIS \<and> t \<noteq> 0 \<and> OSTCBPrio (tcb s t) = pcp
                         then OSMutex_RdyAtPrio t (mutex_low (ecb s e)) s else s)
               in obind (ready_all 64 e s1) (\<lambda>s2.
                    let s3 = free_mutex e s2 in Ret ((0, OS_ERR_NONE), if waiting then OS_Sched s3 else s3))
           | OS_DEL_OTHER \<Rightarrow> Ret ((e, OS_ERR_INVALID_OPT), s))"

record mutex_data =
  OSMutexPCP :: u8
  OSOwnerPrio :: u8
  OSValue :: bool
  OSMutexWait :: prio_map

definition OSMutexQuery :: "nat \<Rightarrow> kernel \<Rightarrow> os_err \<times> mutex_data option" where
  "OSMutexQuery e s =
     (if OSIntNesting s > 0 then (OS_ERR_QUERY_ISR, None)
      else if OSEventType (ecb s e) \<noteq> OS_EVENT_TYPE_MUTEX then (OS_ERR_EVENT_TYPE, None)
      else (OS_ERR_NONE, Some \<lparr>OSMutexPCP = mutex_pcp (ecb s e), OSOwnerPrio = mutex_low (ecb s e),
              OSValue = (mutex_low (ecb s e) = 0xFF), OSMutexWait = OSEventWait (ecb s e)\<rparr>))"

end
