(* ===== verification/Os_Mutex_Facts.thy ===== *)
theory Os_Mutex_Facts
  imports Os_Mutex
begin

text \<open>
  What the mutexes guarantee to the tasks: at most one task at a time has a mutex, it is passed on
  to the waiting task of highest priority, and an owner that a task of higher priority waits for
  runs at the ceiling. The invariant \<open>kernel_ok\<close> ties the ready list, the waiting lists, the table of
  priorities and the counts of the mutexes together; every call that a task makes keeps it.
\<close>

section \<open>Tasks in the sets of priorities\<close>

definition tcb_ok :: "os_tcb \<Rightarrow> bool" where
  "tcb_ok b \<longleftrightarrow> OSTCBPrio b < 64 \<and> OSTCBY b = prio_y (OSTCBPrio b) \<and> OSTCBBitY b = prio_bity (OSTCBPrio b)
     \<and> OSTCBBitX b = prio_bitx (OSTCBPrio b)"

lemma enter_prios:
  assumes "tcb_ok b" "pm_ok m" shows "pm_ok (enter b m)" "prios (enter b m) = insert (unat (OSTCBPrio b)) (prios m)"
  using prios_ins [OF assms(2), of "OSTCBPrio b"] assms(1) by (simp_all add: enter_def tcb_ok_def)

lemma leave_prios:
  assumes "tcb_ok b" "pm_ok m" shows "pm_ok (leave b m)" "prios (leave b m) = prios m - {unat (OSTCBPrio b)}"
  using prios_del [OF assms(2), of "OSTCBPrio b"] assms(1) by (simp_all add: leave_def tcb_ok_def)

lemma in_map_iff: "tcb_ok b \<Longrightarrow> pm_ok m \<Longrightarrow> pm_tbl m ! unat (OSTCBY b) AND OSTCBBitX b \<noteq> 0 \<longleftrightarrow> unat (OSTCBPrio b) \<in> prios m"
proof -
  assume a: "tcb_ok b" "pm_ok m"
  then have p: "unat (OSTCBPrio b) < 64" by (simp add: tcb_ok_def word_less_nat_alt)
  have "pm_tbl m ! unat (OSTCBY b) AND OSTCBBitX b \<noteq> 0 \<longleftrightarrow> bit (pm_tbl m ! (unat (OSTCBPrio b) div 8)) (unat (OSTCBPrio b) mod 8)"
    using a(1) by (auto simp: tcb_ok_def prio_y_nat u8_not_bit bit_and_iff bit_prio_bitx)
  then show ?thesis using p by (simp add: prios_def)
qed

lemma tcb_ok_set_prio: "p < 64 \<Longrightarrow> tcb_ok (set_prio p b)"
  by (simp add: tcb_ok_def set_prio_def)

lemma set_prio_fields [simp]:
  "OSTCBPrio (set_prio p b) = p" "OSTCBStat (set_prio p b) = OSTCBStat b" "OSTCBStatPend (set_prio p b) = OSTCBStatPend b"
  "OSTCBDly (set_prio p b) = OSTCBDly b" "OSTCBEventPtr (set_prio p b) = OSTCBEventPtr b"
  by (simp_all add: set_prio_def)

lemma upd_simps [simp]:
  "tcb (upd_tcb t f s) = (tcb s)(t := f (tcb s t))" "ecb (upd_tcb t f s) = ecb s"
  "OSTCBPrioTbl (upd_tcb t f s) = OSTCBPrioTbl s" "OSTCBList (upd_tcb t f s) = OSTCBList s" "OSRdy (upd_tcb t f s) = OSRdy s"
  "OSTCBCur (upd_tcb t f s) = OSTCBCur s" "OSPrioCur (upd_tcb t f s) = OSPrioCur s" "OSIntNesting (upd_tcb t f s) = OSIntNesting s"
  "OSLockNesting (upd_tcb t f s) = OSLockNesting s" "OSRunning (upd_tcb t f s) = OSRunning s"
  "OSTickStepState (upd_tcb t f s) = OSTickStepState s"
  "ecb (upd_ecb e g s) = (ecb s)(e := g (ecb s e))" "tcb (upd_ecb e g s) = tcb s"
  "OSTCBPrioTbl (upd_ecb e g s) = OSTCBPrioTbl s" "OSTCBList (upd_ecb e g s) = OSTCBList s" "OSRdy (upd_ecb e g s) = OSRdy s"
  "OSTCBCur (upd_ecb e g s) = OSTCBCur s" "OSPrioCur (upd_ecb e g s) = OSPrioCur s" "OSIntNesting (upd_ecb e g s) = OSIntNesting s"
  "OSLockNesting (upd_ecb e g s) = OSLockNesting s" "OSRunning (upd_ecb e g s) = OSRunning s"
  "OSTickStepState (upd_ecb e g s) = OSTickStepState s"
  by (simp_all add: upd_tcb_def upd_ecb_def)

section \<open>The two priorities of a mutex\<close>

lemma byte_masks: "bit (0x00FF :: u16) i \<longleftrightarrow> i < 8" "bit (0xFF00 :: u16) i \<longleftrightarrow> 8 \<le> i \<and> i < 16" "bit (0xFF :: u8) i \<longleftrightarrow> i < 8"
proof -
  have m: "(0x00FF :: u16) = mask 8" "(0xFF00 :: u16) = push_bit 8 (mask 8)" "(0xFF :: u8) = mask 8"
    by (simp_all add: mask_eq_exp_minus_1)
  show "bit (0x00FF :: u16) i \<longleftrightarrow> i < 8" unfolding m(1) bit_mask_iff by auto
  show "bit (0xFF00 :: u16) i \<longleftrightarrow> 8 \<le> i \<and> i < 16" unfolding m(2) bit_push_bit_iff bit_mask_iff by auto
  show "bit (0xFF :: u8) i \<longleftrightarrow> i < 8" unfolding m(3) bit_mask_iff by auto
qed

lemma mutex_low_bit: "bit (mutex_low e) i \<longleftrightarrow> i < 8 \<and> bit (OSEventCnt e) i"
  by (auto simp: mutex_low_def bit_ucast_iff bit_and_iff byte_masks simp del: bit_numeral_word_iff)

lemma mutex_pcp_bit: "bit (mutex_pcp e) i \<longleftrightarrow> i < 8 \<and> bit (OSEventCnt e) (i + 8)"
  by (auto simp: mutex_pcp_def bit_ucast_iff bit_drop_bit_eq add.commute dest: bit_imp_le_length)

lemma set_low_fields [simp]:
  "mutex_low (set_low p e) = p" "mutex_pcp (set_low p e) = mutex_pcp e" "OSEventPtr (set_low p e) = OSEventPtr e"
  "OSEventWait (set_low p e) = OSEventWait e" "OSEventType (set_low p e) = OSEventType e"
proof -
  show "mutex_low (set_low p e) = p"
    by (rule bit_eqI) (auto simp: mutex_low_bit set_low_def bit_or_iff bit_and_iff bit_ucast_iff byte_masks simp del: bit_numeral_word_iff dest: bit_imp_le_length)
  show "mutex_pcp (set_low p e) = mutex_pcp e"
    by (rule bit_eqI) (auto simp: mutex_pcp_bit set_low_def bit_or_iff bit_and_iff bit_ucast_iff byte_masks simp del: bit_numeral_word_iff dest: bit_imp_le_length)
qed (simp_all add: set_low_def)

lemma free_low_fields:
  assumes "OSEventCnt e' = OSEventCnt e OR 0x00FF"
  shows "mutex_low e' = 0xFF" "mutex_pcp e' = mutex_pcp e"
  by (rule bit_eqI; auto simp: mutex_low_bit mutex_pcp_bit assms bit_or_iff byte_masks simp del: bit_numeral_word_iff)+

lemma mutex_fields_cong [simp]:
  "mutex_low (e\<lparr>OSEventPtr := x\<rparr>) = mutex_low e" "mutex_pcp (e\<lparr>OSEventPtr := x\<rparr>) = mutex_pcp e"
  "mutex_low (e\<lparr>OSEventWait := w\<rparr>) = mutex_low e" "mutex_pcp (e\<lparr>OSEventWait := w\<rparr>) = mutex_pcp e"
  by (simp_all add: mutex_low_def mutex_pcp_def)

section \<open>The invariant\<close>

definition pr :: "kernel \<Rightarrow> nat \<Rightarrow> nat" where "pr s t = unat (OSTCBPrio (tcb s t))"

definition rdy :: "kernel \<Rightarrow> nat \<Rightarrow> bool" where "rdy s t \<longleftrightarrow> pr s t \<in> prios (OSRdy s)"

definition wt :: "kernel \<Rightarrow> nat \<Rightarrow> nat \<Rightarrow> bool" where "wt s m t \<longleftrightarrow> pr s t \<in> prios (OSEventWait (ecb s m))"

abbreviation (input) tasks :: "kernel \<Rightarrow> nat set" where "tasks s \<equiv> set (OSTCBList s)"
abbreviation (input) owner :: "kernel \<Rightarrow> nat \<Rightarrow> nat" where "owner s m \<equiv> OSEventPtr (ecb s m)"

text \<open>Every bit stands for a task, and the table leads back to it.\<close>

definition shape :: "nat set \<Rightarrow> kernel \<Rightarrow> bool" where
  "shape M s \<longleftrightarrow> length (OSTCBPrioTbl s) = 64 \<and> 0 \<notin> tasks s \<and> 0 \<notin> M \<and> pm_ok (OSRdy s) \<and> (\<forall>m\<in>M. pm_ok (OSEventWait (ecb s m)))
     \<and> (\<forall>t\<in>tasks s. tcb_ok (tcb s t) \<and> OSTCBPrioTbl s ! pr s t = t)
     \<and> prios (OSRdy s) \<subseteq> pr s ` tasks s \<and> (\<forall>m\<in>M. prios (OSEventWait (ecb s m)) \<subseteq> pr s ` tasks s)"

text \<open>The priorities the tasks were created with, and the ceilings, are all different.\<close>

definition bases :: "(nat \<Rightarrow> u8) \<Rightarrow> nat set \<Rightarrow> kernel \<Rightarrow> bool" where
  "bases base M s \<longleftrightarrow> inj_on base (tasks s) \<and> (\<forall>t\<in>tasks s. base t < 64)
     \<and> (\<forall>m\<in>M. mutex_pcp (ecb s m) \<noteq> 0xFF \<longrightarrow> mutex_pcp (ecb s m) < 64 \<and> mutex_pcp (ecb s m) \<notin> base ` tasks s
           \<and> (\<forall>m'\<in>M. mutex_pcp (ecb s m') = mutex_pcp (ecb s m) \<longrightarrow> m' = m))
     \<and> (\<forall>t\<in>tasks s. OSTCBPrio (tcb s t) = base t
           \<or> (\<exists>m\<in>M. mutex_pcp (ecb s m) \<noteq> 0xFF \<and> owner s m = t \<and> OSTCBPrio (tcb s t) = mutex_pcp (ecb s m)))"

definition mutex_ok :: "(nat \<Rightarrow> u8) \<Rightarrow> kernel \<Rightarrow> nat \<Rightarrow> bool" where
  "mutex_ok base s m \<longleftrightarrow> OSEventType (ecb s m) = OS_EVENT_TYPE_MUTEX
     \<and> (if owner s m = 0 then mutex_low (ecb s m) = 0xFF \<and> prios (OSEventWait (ecb s m)) = {}
        else owner s m \<in> tasks s \<and> mutex_low (ecb s m) = base (owner s m))"

text \<open>A task runs or is delayed; waits for one mutex, ready again only if its time is up; or has just been given one.\<close>

definition task_free :: "nat set \<Rightarrow> kernel \<Rightarrow> nat \<Rightarrow> bool" where
  "task_free M s t \<longleftrightarrow> OSTCBEventPtr (tcb s t) = 0 \<and> OSTCBStat (tcb s t) = 0 \<and> (rdy s t \<longrightarrow> OSTCBDly (tcb s t) = 0)
     \<and> (\<forall>m\<in>M. \<not> wt s m t)"

definition task_waits :: "nat set \<Rightarrow> kernel \<Rightarrow> nat \<Rightarrow> bool" where
  "task_waits M s t \<longleftrightarrow> OSTCBEventPtr (tcb s t) \<in> M \<and> (\<forall>m\<in>M. wt s m t \<longleftrightarrow> m = OSTCBEventPtr (tcb s t)) \<and> (\<forall>m\<in>M. owner s m \<noteq> t)
     \<and> (\<not> rdy s t \<and> OSTCBStat (tcb s t) = OS_STAT_MUTEX \<and> OSTCBStatPend (tcb s t) = OS_STAT_PEND_OK
        \<or> rdy s t \<and> OSTCBStat (tcb s t) = 0 \<and> OSTCBStatPend (tcb s t) = OS_STAT_PEND_TO \<and> OSTCBDly (tcb s t) = 0)"

definition task_granted :: "nat set \<Rightarrow> kernel \<Rightarrow> nat \<Rightarrow> bool" where
  "task_granted M s t \<longleftrightarrow> OSTCBEventPtr (tcb s t) \<in> M \<and> owner s (OSTCBEventPtr (tcb s t)) = t \<and> rdy s t
     \<and> OSTCBStat (tcb s t) = 0 \<and> OSTCBStatPend (tcb s t) = OS_STAT_PEND_OK \<and> OSTCBDly (tcb s t) = 0 \<and> (\<forall>m\<in>M. \<not> wt s m t)"

definition task_ok :: "nat set \<Rightarrow> kernel \<Rightarrow> nat \<Rightarrow> bool" where
  "task_ok M s t \<longleftrightarrow> task_free M s t \<or> task_waits M s t \<or> task_granted M s t"

definition core :: "(nat \<Rightarrow> u8) \<Rightarrow> nat set \<Rightarrow> kernel \<Rightarrow> bool" where
  "core base M s \<longleftrightarrow> shape M s \<and> bases base M s \<and> (\<forall>m\<in>M. mutex_ok base s m)
     \<and> (\<forall>m\<in>M. \<forall>m'\<in>M. owner s m = owner s m' \<longrightarrow> owner s m \<noteq> 0 \<longrightarrow> m = m')
     \<and> (\<forall>t\<in>tasks s. task_ok M s t) \<and> (\<exists>i\<in>tasks s. base i = OS_TASK_IDLE_PRIO \<and> rdy s i)"

text \<open>Whoever makes a task of higher priority wait runs at the ceiling.\<close>

definition inherits :: "(nat \<Rightarrow> u8) \<Rightarrow> nat set \<Rightarrow> kernel \<Rightarrow> bool" where
  "inherits base M s \<longleftrightarrow> (\<forall>m\<in>M. mutex_pcp (ecb s m) \<noteq> 0xFF \<longrightarrow> (\<forall>t\<in>tasks s. wt s m t \<longrightarrow> base t < base (owner s m) \<longrightarrow>
     OSTCBPrio (tcb s (owner s m)) \<le> mutex_pcp (ecb s m)))"

definition cur_ok :: "kernel \<Rightarrow> bool" where
  "cur_ok s \<longleftrightarrow> OSTCBCur s \<in> tasks s \<and> OSPrioCur s = OSTCBPrio (tcb s (OSTCBCur s)) \<and> OSIntNesting s = 0 \<and> OSLockNesting s = 0
     \<and> OSRunning s"

definition kernel_ok :: "(nat \<Rightarrow> u8) \<Rightarrow> nat set \<Rightarrow> kernel \<Rightarrow> bool" where
  "kernel_ok base M s \<longleftrightarrow> core base M s \<and> inherits base M s \<and> cur_ok s \<and> rdy s (OSTCBCur s)"

lemma wait_task: "shape M s \<Longrightarrow> m \<in> M \<Longrightarrow> p \<in> prios (OSEventWait (ecb s m)) \<Longrightarrow> \<exists>u\<in>tasks s. p = pr s u \<and> wt s m u"
  by (fastforce simp: shape_def wt_def)

lemma ready_task: "shape M s \<Longrightarrow> p \<in> prios (OSRdy s) \<Longrightarrow> \<exists>u\<in>tasks s. p = pr s u \<and> rdy s u"
  unfolding shape_def rdy_def by (metis imageE subsetD)

lemma prio_cases:
  assumes "core base M s" "t \<in> tasks s"
  obtains "OSTCBPrio (tcb s t) = base t"
    | m where "m \<in> M" "mutex_pcp (ecb s m) \<noteq> 0xFF" "owner s m = t" "OSTCBPrio (tcb s t) = mutex_pcp (ecb s m)"
proof -
  have "OSTCBPrio (tcb s t) = base t
      \<or> (\<exists>m\<in>M. mutex_pcp (ecb s m) \<noteq> 0xFF \<and> owner s m = t \<and> OSTCBPrio (tcb s t) = mutex_pcp (ecb s m))"
    using assms by (simp add: core_def bases_def)
  then show thesis using that by blast
qed

lemma ceilings:
  assumes "core base M s" "m \<in> M" "mutex_pcp (ecb s m) \<noteq> 0xFF"
  shows "mutex_pcp (ecb s m) < 64" "t \<in> tasks s \<Longrightarrow> base t \<noteq> mutex_pcp (ecb s m)"
    "k \<in> M \<Longrightarrow> mutex_pcp (ecb s k) = mutex_pcp (ecb s m) \<Longrightarrow> k = m"
proof -
  have b: "mutex_pcp (ecb s m) < 64" "mutex_pcp (ecb s m) \<notin> base ` tasks s" "\<forall>k\<in>M. mutex_pcp (ecb s k) = mutex_pcp (ecb s m) \<longrightarrow> k = m"
    using assms by (simp_all add: core_def bases_def)
  show "mutex_pcp (ecb s m) < 64" "k \<in> M \<Longrightarrow> mutex_pcp (ecb s k) = mutex_pcp (ecb s m) \<Longrightarrow> k = m" using b by auto
  show "base t \<noteq> mutex_pcp (ecb s m)" if "t \<in> tasks s" using b(2) imageI [OF that, of base] by auto
qed

lemma single_owner: "core base M s \<Longrightarrow> m \<in> M \<Longrightarrow> k \<in> M \<Longrightarrow> owner s m \<noteq> 0 \<Longrightarrow> owner s k = owner s m \<Longrightarrow> k = m"
  by (simp add: core_def)

lemma pr_inj: "shape M s \<Longrightarrow> t \<in> tasks s \<Longrightarrow> u \<in> tasks s \<Longrightarrow> pr s t = pr s u \<longleftrightarrow> t = u"
  by (metis shape_def)

lemma pr_less: "shape M s \<Longrightarrow> t \<in> tasks s \<Longrightarrow> pr s t < 64"
  by (simp add: shape_def tcb_ok_def pr_def word_less_nat_alt)

section \<open>The scheduler picks the ready task of highest priority\<close>

lemma highest_ready:
  assumes "core base M s"
  obtains t where "t \<in> tasks s" "rdy s t" "pm_high (OSRdy s) = OSTCBPrio (tcb s t)" "OSTCBPrioTbl s ! unat (pm_high (OSRdy s)) = t"
    "\<And>u. u \<in> tasks s \<Longrightarrow> rdy s u \<Longrightarrow> pr s t \<le> pr s u"
proof -
  have sh: "shape M s" using assms by (simp add: core_def)
  have "prios (OSRdy s) \<noteq> {}" using assms by (auto simp: core_def rdy_def)
  then have h: "unat (pm_high (OSRdy s)) = Min (prios (OSRdy s))" using pm_high_Min sh by (simp add: shape_def)
  have fin: "finite (prios (OSRdy s))" by (simp add: prios_def)
  have "prios (OSRdy s) \<subseteq> pr s ` tasks s" using sh by (simp add: shape_def)
  then have "Min (prios (OSRdy s)) \<in> pr s ` tasks s" using Min_in [OF fin \<open>prios (OSRdy s) \<noteq> {}\<close>] by (rule subsetD)
  then obtain t where t: "t \<in> tasks s" "Min (prios (OSRdy s)) = pr s t" by blast
  moreover have "rdy s t" using t(2) Min_in [OF fin \<open>prios (OSRdy s) \<noteq> {}\<close>] by (simp add: rdy_def)
  moreover have "pm_high (OSRdy s) = OSTCBPrio (tcb s t)" using h t(2) unfolding pr_def by (metis word_unat_eq_iff)
  moreover from this have "OSTCBPrioTbl s ! unat (pm_high (OSRdy s)) = t" using sh t(1) by (simp add: shape_def flip: pr_def)
  moreover have "pr s t \<le> pr s u" if "rdy s u" for u using that fin t(2) by (metis Min_le rdy_def)
  ultimately show thesis using that by blast
qed

lemma ctx_sw_frame [simp]:
  "tcb (ctx_sw s) = tcb s" "ecb (ctx_sw s) = ecb s" "OSTCBPrioTbl (ctx_sw s) = OSTCBPrioTbl s" "OSTCBList (ctx_sw s) = OSTCBList s"
  "OSRdy (ctx_sw s) = OSRdy s" "OSIntNesting (ctx_sw s) = OSIntNesting s" "OSLockNesting (ctx_sw s) = OSLockNesting s"
  "OSRunning (ctx_sw s) = OSRunning s"
  by (simp_all add: ctx_sw_def OS_SchedNew_def Let_def)

lemma core_cong:
  assumes "tcb s' = tcb s" "ecb s' = ecb s" "OSTCBPrioTbl s' = OSTCBPrioTbl s" "OSTCBList s' = OSTCBList s" "OSRdy s' = OSRdy s"
  shows "core base M s' = core base M s" "inherits base M s' = inherits base M s" "rdy s' t = rdy s t" "wt s' m t = wt s m t" "pr s' t = pr s t"
proof -
  show e: "pr s' t = pr s t" "rdy s' t = rdy s t" "wt s' m t = wt s m t" for t m using assms by (simp_all add: pr_def rdy_def wt_def)
  then have p: "pr s' = pr s" "rdy s' = rdy s" "wt s' = wt s" by (intro ext; simp)+
  show "core base M s' = core base M s" "inherits base M s' = inherits base M s"
    using assms p by (simp_all add: core_def shape_def bases_def mutex_ok_def task_ok_def task_free_def task_waits_def task_granted_def inherits_def)
qed

text \<open>A switch from a task of priority \<open>OSPrioCur\<close> leaves the highest ready task running.\<close>

lemma ctx_sw_ok:
  assumes "core base M s" "inherits base M s" "cur_ok s"
  shows "kernel_ok base M (ctx_sw s)" "OSTCBPrio (tcb s (OSTCBCur (ctx_sw s))) = pm_high (OSRdy s)"
proof -
  obtain t where t: "t \<in> tasks s" "rdy s t" "pm_high (OSRdy s) = OSTCBPrio (tcb s t)" "OSTCBPrioTbl s ! unat (pm_high (OSRdy s)) = t"
    by (rule highest_ready [OF assms(1)]) (rule that; assumption)
  have sh: "shape M s" using assms(1) by (simp add: core_def)
  have c: "OSTCBCur (ctx_sw s) = t \<and> OSPrioCur (ctx_sw s) = OSTCBPrio (tcb s t)"
  proof (cases "pm_high (OSRdy s) = OSPrioCur s")
    case True
    then have "pr s (OSTCBCur s) = pr s t" using assms(3) t(3) by (simp add: cur_ok_def pr_def)
    then have "OSTCBCur s = t" using pr_inj [OF sh _ t(1)] assms(3) by (simp add: cur_ok_def)
    then show ?thesis using True t by (simp add: ctx_sw_def OS_SchedNew_def Let_def)
  next
    case False
    then show ?thesis using t by (simp add: ctx_sw_def OS_SchedNew_def Let_def)
  qed
  then show "kernel_ok base M (ctx_sw s)"
    using assms t core_cong(1,2) [of "ctx_sw s" s base M] core_cong(3) [of "ctx_sw s" s] by (simp add: kernel_ok_def cur_ok_def)
  show "OSTCBPrio (tcb s (OSTCBCur (ctx_sw s))) = pm_high (OSRdy s)" using c t by simp
qed

lemma OS_Sched_cur: "cur_ok s \<Longrightarrow> OS_Sched s = ctx_sw s"
  by (simp add: OS_Sched_def cur_ok_def)

section \<open>Taking a free mutex\<close>

lemma task_nonzero: "core base M s \<Longrightarrow> t \<in> tasks s \<Longrightarrow> t \<noteq> 0"
  by (metis core_def shape_def)

lemma free_no_wait: "task_free M s t \<Longrightarrow> m \<in> M \<Longrightarrow> \<not> wt s m t"
  by (simp add: task_free_def)

lemma acquire_core:
  assumes ok: "core base M s" and m: "m \<in> M" "owner s m = 0"
    and c: "c \<in> tasks s" "task_free M s c" "\<forall>m'\<in>M. owner s m' \<noteq> c"
  defines "s' \<equiv> upd_ecb m (\<lambda>b. (set_low (OSTCBPrio (tcb s c)) b)\<lparr>OSEventPtr := c\<rparr>) s"
  shows "core base M s'" "inherits base M s \<Longrightarrow> inherits base M s'"
proof -
  have p: "pr s' t = pr s t" "rdy s' t = rdy s t" "wt s' k t = wt s k t" for t k by (simp_all add: s'_def pr_def rdy_def wt_def)
  have cp: "OSTCBPrio (tcb s c) = base c" using ok c by (auto simp: core_def bases_def)
  have c0: "c \<noteq> 0" by (rule task_nonzero [OF ok c(1)])
  have w0: "prios (OSEventWait (ecb s m)) = {}" using ok m by (auto simp: core_def mutex_ok_def)
  have o: "owner s' k = (if k = m then c else owner s k)" "mutex_pcp (ecb s' k) = mutex_pcp (ecb s k)"
    "mutex_low (ecb s' k) = (if k = m then base c else mutex_low (ecb s k))" "OSEventWait (ecb s' k) = OSEventWait (ecb s k)"
    "OSEventType (ecb s' k) = OSEventType (ecb s k)" for k
    by (simp_all add: s'_def cp)
  have f: "tcb s' = tcb s" "OSTCBPrioTbl s' = OSTCBPrioTbl s" "OSTCBList s' = OSTCBList s" "OSRdy s' = OSRdy s" by (simp_all add: s'_def)
  have "pr s' = pr s" using p(1) by (intro ext)
  then have "shape M s'" using ok o f by (simp add: core_def shape_def)
  moreover have "bases base M s'"
  proof -
    have b: "bases base M s" using ok by (simp add: core_def)
    have "OSTCBPrio (tcb s t) = base t
        \<or> (\<exists>k\<in>M. mutex_pcp (ecb s k) \<noteq> 0xFF \<and> owner s' k = t \<and> OSTCBPrio (tcb s t) = mutex_pcp (ecb s k))" if "t \<in> tasks s" for t
    proof -
      have "t \<noteq> 0" by (rule task_nonzero [OF ok that])
      then have "owner s k = t \<Longrightarrow> owner s' k = t" for k using m(2) o(1) by auto
      then show ?thesis using b that unfolding bases_def by blast
    qed
    then show ?thesis using b unfolding bases_def f o(2) by blast
  qed
  moreover have "\<forall>k\<in>M. mutex_ok base s' k" using ok o f c0 c(1) by (auto simp: core_def mutex_ok_def)
  moreover have "\<forall>k\<in>M. \<forall>k'\<in>M. owner s' k = owner s' k' \<longrightarrow> owner s' k \<noteq> 0 \<longrightarrow> k = k'"
    using ok o(1) c(3) by (auto simp: core_def)
  moreover have "\<forall>t\<in>tasks s'. task_ok M s' t"
  proof
    fix t assume "t \<in> tasks s'"
    then have t: "task_ok M s t" "t \<in> tasks s" using ok f by (auto simp: core_def)
    have "\<not> wt s m t" using w0 by (simp add: wt_def)
    moreover have "t \<noteq> 0" by (rule task_nonzero [OF ok t(2)])
    ultimately show "task_ok M s' t"
      using t(1) c m f o p unfolding task_ok_def task_free_def task_waits_def task_granted_def by (cases "t = c") auto
  qed
  moreover have "\<exists>i\<in>tasks s'. base i = OS_TASK_IDLE_PRIO \<and> rdy s' i" using ok p f by (simp add: core_def)
  ultimately show "core base M s'" unfolding core_def by blast
  show "inherits base M s'" if "inherits base M s" using that w0 o p f by (auto simp: inherits_def wt_def)
qed

section \<open>Starting to wait\<close>

lemma block_core:
  assumes ok: "core base M s" "inherits base M s" and m: "m \<in> M" "owner s m \<noteq> 0"
    and c: "OSTCBCur s = c" "c \<in> tasks s" "task_free M s c" "\<forall>m'\<in>M. owner s m' \<noteq> c" "base c \<noteq> OS_TASK_IDLE_PRIO"
    and inh: "mutex_pcp (ecb s m) \<noteq> 0xFF \<longrightarrow> base c < base (owner s m) \<longrightarrow> OSTCBPrio (tcb s (owner s m)) \<le> mutex_pcp (ecb s m)"
    and s'_def: "s' = OS_EventTaskWait m (upd_tcb c (\<lambda>b. b\<lparr>OSTCBStat := OSTCBStat b OR OS_STAT_MUTEX, OSTCBStatPend := OS_STAT_PEND_OK,
                                             OSTCBDly := timeout\<rparr>) s)"
  shows "core base M s'" "inherits base M s'"
proof -
  have sh: "shape M s" using ok(1) by (simp add: core_def)
  have tb: "tcb s' t = (if t = c then (tcb s c)\<lparr>OSTCBStat := OS_STAT_MUTEX, OSTCBStatPend := OS_STAT_PEND_OK, OSTCBDly := timeout,
      OSTCBEventPtr := m\<rparr> else tcb s t)" for t
    using c(1,3) by (simp add: s'_def OS_EventTaskWait_def Let_def task_free_def)
  have f: "OSTCBPrioTbl s' = OSTCBPrioTbl s" "OSTCBList s' = OSTCBList s" using c(1) by (simp_all add: s'_def OS_EventTaskWait_def Let_def)
  have b: "tcb_ok (tcb s c)" "pm_ok (OSRdy s)" "pm_ok (OSEventWait (ecb s m))" using sh c(2) m(1) by (auto simp: shape_def)
  have same: "enter (b\<lparr>OSTCBStat := x, OSTCBStatPend := y, OSTCBDly := z, OSTCBEventPtr := v\<rparr>) = enter b"
    "leave (b\<lparr>OSTCBStat := x, OSTCBStatPend := y, OSTCBDly := z, OSTCBEventPtr := v\<rparr>) = leave b" for b x y z v
    by (simp_all add: enter_def leave_def)
  have e: "ecb s' k = (if k = m then (ecb s m)\<lparr>OSEventWait := enter (tcb s c) (OSEventWait (ecb s m))\<rparr> else ecb s k)"
    "OSRdy s' = leave (tcb s c) (OSRdy s)" for k
    using c(1) same by (simp_all add: s'_def OS_EventTaskWait_def Let_def)
  have pr: "pr s' = pr s" by (intro ext) (simp add: pr_def tb)
  have ins: "pm_ok (enter (tcb s c) (OSEventWait (ecb s m)))"
    "prios (enter (tcb s c) (OSEventWait (ecb s m))) = insert (pr s c) (prios (OSEventWait (ecb s m)))"
    using enter_prios [OF b(1,3)] by (simp_all add: pr_def)
  have del: "pm_ok (OSRdy s')" "prios (OSRdy s') = prios (OSRdy s) - {pr s c}" using leave_prios [OF b(1,2)] by (simp_all add: pr_def e)
  have r: "rdy s' t \<longleftrightarrow> rdy s t \<and> t \<noteq> c" and w: "wt s' k t \<longleftrightarrow> wt s k t \<or> k = m \<and> t = c" if "t \<in> tasks s" for t k
    using pr_inj [OF sh that c(2)] del ins by (auto simp: rdy_def wt_def pr e)
  have o: "owner s' k = owner s k" "mutex_pcp (ecb s' k) = mutex_pcp (ecb s k)" "mutex_low (ecb s' k) = mutex_low (ecb s k)"
    "OSEventType (ecb s' k) = OSEventType (ecb s k)" for k by (simp_all add: e)
  have "shape M s'" using sh f pr ins del c(2) by (auto simp: shape_def e tb tcb_ok_def)
  moreover have "bases base M s'" using ok(1) o f tb by (simp add: core_def bases_def)
  moreover have "\<forall>k\<in>M. mutex_ok base s' k" using ok(1) o f m by (auto simp: core_def mutex_ok_def e)
  moreover have "\<forall>k\<in>M. \<forall>k'\<in>M. owner s' k = owner s' k' \<longrightarrow> owner s' k \<noteq> 0 \<longrightarrow> k = k'" using ok(1) o(1) by (simp add: core_def)
  moreover have "\<forall>t\<in>tasks s'. task_ok M s' t"
  proof
    fix t assume "t \<in> tasks s'"
    then have t: "task_ok M s t" "t \<in> tasks s" using ok(1) f by (auto simp: core_def)
    show "task_ok M s' t"
    proof (cases "t = c")
      case True
      then have "task_waits M s' t" using c r [OF t(2)] w [OF t(2)] m tb o(1) by (auto simp: task_waits_def task_free_def)
      then show ?thesis by (simp add: task_ok_def)
    next
      case False
      then show ?thesis using t(1) r [OF t(2)] w [OF t(2)] tb [of t] o(1)
        by (simp add: task_ok_def task_free_def task_waits_def task_granted_def)
    qed
  qed
  moreover have "\<exists>i\<in>tasks s'. base i = OS_TASK_IDLE_PRIO \<and> rdy s' i" using ok(1) r f c(5) by (auto simp: core_def)
  ultimately show "core base M s'" unfolding core_def by blast
  have oc: "owner s k \<noteq> c" if "k \<in> M" for k using c(4) that by simp
  show "inherits base M s'"
    unfolding inherits_def
  proof (intro ballI impI)
    fix k t assume k: "k \<in> M" "mutex_pcp (ecb s' k) \<noteq> 0xFF" "t \<in> tasks s'" "wt s' k t" "base t < base (owner s' k)"
    then show "OSTCBPrio (tcb s' (owner s' k)) \<le> mutex_pcp (ecb s' k)"
      using ok(2) inh w [of t k] f oc [of k] tb [of "owner s k"] o by (auto simp: inherits_def)
  qed
qed

section \<open>Raising the owner\<close>

lemma owner_state:
  assumes "core base M s" "m \<in> M" "owner s m \<noteq> 0"
  shows "owner s m \<in> tasks s" "mutex_low (ecb s m) = base (owner s m)" "\<not> wt s k (owner s m) \<or> k \<notin> M"
    "OSTCBEventPtr (tcb s (owner s m)) \<noteq> 0 \<Longrightarrow> rdy s (owner s m)"
    "OSTCBPrio (tcb s (owner s m)) = base (owner s m)
       \<or> mutex_pcp (ecb s m) \<noteq> 0xFF \<and> OSTCBPrio (tcb s (owner s m)) = mutex_pcp (ecb s m)"
proof -
  show t: "owner s m \<in> tasks s" "mutex_low (ecb s m) = base (owner s m)" using assms by (auto simp: core_def mutex_ok_def)
  have "task_ok M s (owner s m)" using assms(1) t by (simp add: core_def)
  moreover have "\<not> task_waits M s (owner s m)" using assms(2) by (auto simp: task_waits_def)
  ultimately have k: "task_free M s (owner s m) \<or> task_granted M s (owner s m)" by (simp add: task_ok_def)
  then show "\<not> wt s k (owner s m) \<or> k \<notin> M" by (auto simp: task_free_def task_granted_def)
  show "OSTCBEventPtr (tcb s (owner s m)) \<noteq> 0 \<Longrightarrow> rdy s (owner s m)" using k by (auto simp: task_free_def task_granted_def)
  show "OSTCBPrio (tcb s (owner s m)) = base (owner s m)
       \<or> mutex_pcp (ecb s m) \<noteq> 0xFF \<and> OSTCBPrio (tcb s (owner s m)) = mutex_pcp (ecb s m)"
    using assms(1) t(1)
  proof (cases rule: prio_cases)
    case (2 k)
    then show ?thesis using single_owner [OF assms(1,2) 2(1) assms(3)] by simp
  qed simp
qed

lemma ceiling_free:
  assumes "core base M s" "m \<in> M" "mutex_pcp (ecb s m) \<noteq> 0xFF" "u \<in> tasks s" "OSTCBPrio (tcb s u) = mutex_pcp (ecb s m)"
  shows "owner s m = u"
  using assms(1,4)
proof (cases rule: prio_cases)
  case 1
  then show ?thesis using ceilings(2) [OF assms(1-3) assms(4)] assms(5) by metis
next
  case (2 k)
  then have "mutex_pcp (ecb s k) = mutex_pcp (ecb s m)" using assms(5) by simp
  then have "k = m" by (rule ceilings(3) [OF assms(1-3) 2(1)])
  then show ?thesis using 2(3) by simp
qed

lemma promote_core:
  assumes ok: "core base M s" "inherits base M s" and m: "m \<in> M" "owner s m \<noteq> 0" "mutex_pcp (ecb s m) \<noteq> 0xFF"
    and pr: "OSTCBPrio (tcb s (owner s m)) > mutex_pcp (ecb s m)"
    and s': "s' = promote_owner m s" "mutex_low (ecb s m) > OSTCBPrio (tcb s (OSTCBCur s))"
  shows "core base M s'" "inherits base M s'" "OSTCBPrio (tcb s' (owner s m)) = mutex_pcp (ecb s m)"
    "t \<noteq> owner s m \<Longrightarrow> tcb s' t = tcb s t" "\<And>k. owner s' k = owner s k \<and> mutex_pcp (ecb s' k) = mutex_pcp (ecb s k)
       \<and> mutex_low (ecb s' k) = mutex_low (ecb s k)" "t \<in> tasks s \<Longrightarrow> rdy s' t = rdy s t"
    "t \<in> tasks s \<Longrightarrow> \<forall>k\<in>M. wt s' k t = wt s k t" "OSTCBList s' = OSTCBList s" "OSTCBCur s' = OSTCBCur s" "OSPrioCur s' = OSPrioCur s"
    "OSIntNesting s' = OSIntNesting s" "OSLockNesting s' = OSLockNesting s" "OSRunning s' = OSRunning s"
proof -
  define q where "q = owner s m"
  define pcp where "pcp = mutex_pcp (ecb s m)"
  have sh: "shape M s" using ok(1) by (simp add: core_def)
  note q = owner_state [OF ok(1) m(1,2), folded q_def pcp_def]
  have p64: "pcp < 64" using ok(1) m by (auto simp: core_def bases_def pcp_def)
  have new: "OSTCBPrio (tcb s u) \<noteq> pcp" if "u \<in> tasks s" for u
    using ceiling_free [OF ok(1) m(1,3) that] pr by (auto simp: pcp_def)
  then have newn: "pr s u \<noteq> unat pcp" if "u \<in> tasks s" for u using that by (metis pr_def word_unat_eq_iff)
  have stray: "unat pcp \<notin> prios (OSRdy s)" "\<And>k. k \<in> M \<Longrightarrow> unat pcp \<notin> prios (OSEventWait (ecb s k))"
  proof -
    have n: "unat pcp \<notin> pr s ` tasks s" using newn by fastforce
    show "unat pcp \<notin> prios (OSRdy s)" using n sh by (auto simp: shape_def)
    show "unat pcp \<notin> prios (OSEventWait (ecb s k))" if "k \<in> M" for k using n sh that by (auto simp: shape_def)
  qed
  have b: "tcb_ok (tcb s q)" "pm_ok (OSRdy s)" using sh q(1) by (auto simp: shape_def)
  have base: "OSTCBPrio (tcb s q) = base q" using q(5) pr by (auto simp: q_def pcp_def)
  let ?R = "pm_tbl (OSRdy s) ! unat (OSTCBY (tcb s q)) AND OSTCBBitX (tcb s q) \<noteq> 0"
  have R: "?R \<longleftrightarrow> rdy s q" using in_map_iff [OF b] by (simp add: rdy_def pr_def)
  have ev: "\<not> rdy s q \<Longrightarrow> OSTCBEventPtr (tcb s q) = 0" using q(4) by auto
  have s2: "s' = (upd_tcb q (set_prio pcp) s)\<lparr>OSRdy := (if rdy s q then enter (set_prio pcp (tcb s q)) (leave (tcb s q) (OSRdy s)) else OSRdy s),
      OSTCBPrioTbl := (OSTCBPrioTbl s)[unat pcp := q]\<rparr>"
    using pr s' R ev by (auto simp: promote_owner_def Let_def upd_tcb_def simp flip: q_def pcp_def)
  have f: "ecb s' = ecb s" "OSTCBList s' = OSTCBList s" "OSTCBPrioTbl s' = (OSTCBPrioTbl s)[unat pcp := q]"
    and tb: "tcb s' t = (if t = q then set_prio pcp (tcb s q) else tcb s t)" for t by (simp_all add: s2)
  have prq: "pr s' t = (if t = q then unat pcp else pr s t)" for t by (simp add: pr_def tb)
  have pq: "pr s u \<noteq> pr s q" if "u \<in> tasks s" "u \<noteq> q" for u using pr_inj [OF sh that(1) q(1)] that(2) by simp
  have l: "pm_ok (leave (tcb s q) (OSRdy s))" "prios (leave (tcb s q) (OSRdy s)) = prios (OSRdy s) - {pr s q}"
    using leave_prios [OF b] by (simp_all add: pr_def)
  have e: "pm_ok (OSRdy s')" "prios (OSRdy s') = (if rdy s q then insert (unat pcp) (prios (OSRdy s) - {pr s q}) else prios (OSRdy s))"
    using enter_prios [OF tcb_ok_set_prio [OF p64] l(1), of "tcb s q"] l(2) b(2) by (simp_all add: s2)
  show rr: "rdy s' t = rdy s t" if "t \<in> tasks s" for t
    using that e(2) prq [of t] newn [OF that] pq [OF that] stray(1) by (cases "t = q") (auto simp: rdy_def)
  show ww: "\<forall>k\<in>M. wt s' k t = wt s k t" if "t \<in> tasks s" for t
    using that q(3) stray(2) prq [of t] by (auto simp: wt_def f)
  have "shape M s'"
  proof -
    have t1: "tcb_ok (tcb s' t) \<and> OSTCBPrioTbl s' ! pr s' t = t" if "t \<in> tasks s" for t
      using sh that newn [OF that] pr_less [OF sh that] tcb_ok_set_prio [OF p64] p64
      by (auto simp: shape_def tb f prq nth_list_update word_less_nat_alt)
    have t2: "prios (OSEventWait (ecb s' k)) \<subseteq> pr s' ` tasks s" if kM: "k \<in> M" for k
    proof
      fix p assume p: "p \<in> prios (OSEventWait (ecb s' k))"
      then obtain u where u: "u \<in> tasks s" "p = pr s u" "wt s k u" using wait_task [OF sh kM] p f by auto
      then have "u \<noteq> q" using q(3) [of k] kM by auto
      then show "p \<in> pr s' ` tasks s" using u prq by auto
    qed
    have t3: "prios (OSRdy s') \<subseteq> pr s' ` tasks s"
    proof
      fix p assume p: "p \<in> prios (OSRdy s')"
      consider "p = unat pcp" | u where "u \<in> tasks s" "p = pr s u" "u \<noteq> q"
      proof (cases "p = unat pcp")
        case False
        then have p': "p \<in> prios (OSRdy s)" "rdy s q \<longrightarrow> p \<noteq> pr s q" using p e(2) by (auto split: if_splits)
        obtain u where "u \<in> tasks s" "p = pr s u" "rdy s u" using ready_task [OF sh p'(1)] by auto
        then show thesis using p'(2) that by auto
      qed (use that in simp)
      then show "p \<in> pr s' ` tasks s" by cases (use q(1) prq in \<open>auto simp: image_iff intro: bexI [of _ q]\<close>)
    qed
    show ?thesis using sh e(1) t1 t2 t3 by (simp add: shape_def f)
  qed
  moreover have "bases base M s'"
  proof -
    have "bases base M s" using ok(1) by (simp add: core_def)
    moreover have "\<exists>k\<in>M. mutex_pcp (ecb s k) \<noteq> 0xFF \<and> owner s k = q \<and> pcp = mutex_pcp (ecb s k)"
      using m by (auto simp: q_def pcp_def)
    ultimately show ?thesis unfolding bases_def f tb by simp
  qed
  moreover have "\<forall>t\<in>tasks s'. task_ok M s' t"
  proof
    fix t assume "t \<in> tasks s'"
    then have t: "t \<in> tasks s" "task_ok M s t" using ok(1) f by (auto simp: core_def)
    then show "task_ok M s' t" using rr [OF t(1)] ww [OF t(1)] tb [of t]
      by (auto simp: task_ok_def task_free_def task_waits_def task_granted_def f)
  qed
  moreover have "\<exists>i\<in>tasks s'. base i = OS_TASK_IDLE_PRIO \<and> rdy s' i" using ok(1) rr f by (auto simp: core_def)
  ultimately show "core base M s'" using ok(1) by (simp add: core_def mutex_ok_def f)
  show "inherits base M s'"
    unfolding inherits_def
  proof (intro ballI impI)
    fix k t assume k: "k \<in> M" "mutex_pcp (ecb s' k) \<noteq> 0xFF" "t \<in> tasks s'" "wt s' k t" "base t < base (owner s' k)"
    show "OSTCBPrio (tcb s' (owner s' k)) \<le> mutex_pcp (ecb s' k)"
    proof (cases "owner s k = q")
      case True
      then have "k = m" using ok(1) k(1) m unfolding core_def q_def by metis
      then show ?thesis using tb [of q] by (simp add: f q_def pcp_def)
    next
      case False
      then show ?thesis using ok(2) k ww f tb [of "owner s k"] by (auto simp: inherits_def)
    qed
  qed
  show "OSTCBPrio (tcb s' (owner s m)) = mutex_pcp (ecb s m)" "t \<noteq> owner s m \<Longrightarrow> tcb s' t = tcb s t"
    using tb by (simp_all add: q_def pcp_def)
  show "\<And>k. owner s' k = owner s k \<and> mutex_pcp (ecb s' k) = mutex_pcp (ecb s k) \<and> mutex_low (ecb s' k) = mutex_low (ecb s k)"
    by (simp add: f)
  show "OSTCBList s' = OSTCBList s" "OSTCBCur s' = OSTCBCur s" "OSPrioCur s' = OSPrioCur s"
    "OSIntNesting s' = OSIntNesting s" "OSLockNesting s' = OSLockNesting s" "OSRunning s' = OSRunning s" by (simp_all add: s2)
qed

section \<open>The end of a wait\<close>

lemma leave_cong [simp]:
  "leave (b\<lparr>OSTCBStat := x\<rparr>) = leave b" "leave (b\<lparr>OSTCBStatPend := y\<rparr>) = leave b" "leave (b\<lparr>OSTCBDly := z\<rparr>) = leave b"
  "leave (b\<lparr>OSTCBEventPtr := v\<rparr>) = leave b" "leave (b\<lparr>OSTCBMessage := u\<rparr>) = leave b"
  "enter (b\<lparr>OSTCBStat := x\<rparr>) = enter b" "enter (b\<lparr>OSTCBStatPend := y\<rparr>) = enter b" "enter (b\<lparr>OSTCBDly := z\<rparr>) = enter b"
  "enter (b\<lparr>OSTCBEventPtr := v\<rparr>) = enter b" "enter (b\<lparr>OSTCBMessage := u\<rparr>) = enter b"
  by (simp_all add: leave_def enter_def)

lemma resume_core:
  assumes ok: "kernel_ok base M s" and ev: "OSTCBEventPtr (tcb s (OSTCBCur s)) = m" "m \<noteq> 0"
    and r: "OSMutexPend_resume m s = (err, s')"
  shows "kernel_ok base M s'" "task_free M s' (OSTCBCur s)" "ecb s' = (ecb s)(m := (ecb s m)\<lparr>OSEventWait := OSEventWait (ecb s' m)\<rparr>)"
    "OSTCBCur s' = OSTCBCur s" "OSTCBList s' = OSTCBList s" "t \<noteq> OSTCBCur s \<Longrightarrow> tcb s' t = tcb s t"
    "err = OS_ERR_NONE \<and> m \<in> M \<and> owner s m = OSTCBCur s \<or> err = OS_ERR_TIMEOUT \<and> (\<forall>k\<in>M. owner s k \<noteq> OSTCBCur s)"
proof -
  define c where "c = OSTCBCur s"
  have core: "core base M s" "inherits base M s" and cur: "cur_ok s" "rdy s c" and c: "c \<in> tasks s"
    using ok by (auto simp: kernel_ok_def c_def cur_ok_def)
  have sh: "shape M s" using core by (simp add: core_def)
  have "task_ok M s c" using core c by (simp add: core_def)
  moreover have "\<not> task_free M s c" using ev by (simp add: task_free_def c_def)
  ultimately have cases: "task_waits M s c \<or> task_granted M s c" by (simp add: task_ok_def)
  then have mM: "m \<in> M" using ev by (auto simp: task_waits_def task_granted_def c_def)
  have b: "tcb_ok (tcb s c)" "pm_ok (OSEventWait (ecb s m))" using sh c mM by (auto simp: shape_def)
  define w where "w = (if task_waits M s c then leave (tcb s c) (OSEventWait (ecb s m)) else OSEventWait (ecb s m))"
  have w: "pm_ok w" "prios w = prios (OSEventWait (ecb s m)) - {pr s c}"
  proof -
    have "task_granted M s c \<Longrightarrow> pr s c \<notin> prios (OSEventWait (ecb s m))" using mM by (auto simp: task_granted_def wt_def)
    then show "pm_ok w" "prios w = prios (OSEventWait (ecb s m)) - {pr s c}"
      using leave_prios [OF b] b(2) cases by (auto simp: w_def pr_def)
  qed
  have st: "task_waits M s c \<Longrightarrow> OSTCBStatPend (tcb s c) = 1" "task_granted M s c \<Longrightarrow> OSTCBStatPend (tcb s c) = 0"
    "task_granted M s c \<Longrightarrow> \<not> task_waits M s c" "OSTCBDly (tcb s c) = 0"
    using cases cur(2) by (auto simp: task_waits_def task_granted_def)
  define s2 where "s2 = upd_tcb c (\<lambda>b. b\<lparr>OSTCBStat := OS_STAT_RDY, OSTCBStatPend := OS_STAT_PEND_OK, OSTCBEventPtr := 0\<rparr>)
      (upd_ecb m (\<lambda>b. b\<lparr>OSEventWait := w\<rparr>) s)"
  have noop: "upd_ecb m (\<lambda>b. b\<lparr>OSEventWait := OSEventWait (ecb s m)\<rparr>) s = s" by (simp add: upd_ecb_def fun_upd_idem)
  have wl: "upd_ecb m (\<lambda>b. b\<lparr>OSEventWait := leave x (OSEventWait b)\<rparr>) s
      = upd_ecb m (\<lambda>b. b\<lparr>OSEventWait := leave x (OSEventWait (ecb s m))\<rparr>) s" for x by (simp add: upd_ecb_def)
  have es: "s' = s2" "err = (if task_waits M s c then OS_ERR_TIMEOUT else OS_ERR_NONE)"
    using r st cases
    by (auto simp: OSMutexPend_resume_def OS_EventTaskRemove_def s2_def w_def noop wl Let_def simp flip: c_def split: if_splits)
  have tb: "tcb s' t = (if t = c then (tcb s c)\<lparr>OSTCBStat := 0, OSTCBStatPend := 0, OSTCBEventPtr := 0\<rparr> else tcb s t)" for t
    by (simp add: es s2_def)
  have f: "OSTCBPrioTbl s' = OSTCBPrioTbl s" "OSTCBList s' = OSTCBList s" "OSRdy s' = OSRdy s" "OSTCBCur s' = c"
    "ecb s' k = (if k = m then (ecb s m)\<lparr>OSEventWait := w\<rparr> else ecb s k)" for k by (simp_all add: es s2_def c_def)
  have pr: "pr s' = pr s" by (intro ext) (simp add: pr_def tb)
  have rr: "rdy s' t = rdy s t" for t by (simp add: rdy_def pr f)
  have ww: "wt s' k t \<longleftrightarrow> wt s k t \<and> \<not> (t = c \<and> k = m)" if "t \<in> tasks s" for k t
    using pr_inj [OF sh that c] w(2) by (auto simp: wt_def pr f)
  have o: "owner s' k = owner s k" "mutex_pcp (ecb s' k) = mutex_pcp (ecb s k)" "mutex_low (ecb s' k) = mutex_low (ecb s k)"
    "OSEventType (ecb s' k) = OSEventType (ecb s k)" for k by (simp_all add: f)
  show free: "task_free M s' (OSTCBCur s)"
    using cases st(4) ww [OF c] ev tb [of c] by (auto simp: task_free_def task_waits_def task_granted_def simp flip: c_def)
  have "shape M s'" using sh f(1-3) f(5) pr w by (auto simp: shape_def tb tcb_ok_def)
  moreover have "bases base M s'" using core(1) o f(2) tb by (simp add: core_def bases_def)
  moreover have "\<forall>k\<in>M. mutex_ok base s' k" using core(1) o f(2,5) w(2) by (auto simp: core_def mutex_ok_def)
  moreover have "\<forall>k\<in>M. \<forall>k'\<in>M. owner s' k = owner s' k' \<longrightarrow> owner s' k \<noteq> 0 \<longrightarrow> k = k'" using core(1) o(1) by (simp add: core_def)
  moreover have "\<forall>t\<in>tasks s'. task_ok M s' t"
  proof
    fix t assume "t \<in> tasks s'"
    then have t: "task_ok M s t" "t \<in> tasks s" using core(1) f(2) by (auto simp: core_def)
    show "task_ok M s' t"
    proof (cases "t = c")
      case True
      then show ?thesis using free by (simp add: task_ok_def c_def)
    next
      case False
      then show ?thesis using t(1) rr ww [OF t(2)] tb [of t] o(1)
        by (simp add: task_ok_def task_free_def task_waits_def task_granted_def)
    qed
  qed
  moreover have "\<exists>i\<in>tasks s'. base i = OS_TASK_IDLE_PRIO \<and> rdy s' i" using core(1) rr f(2) by (simp add: core_def)
  ultimately have "core base M s'" unfolding core_def by blast
  moreover have "OSTCBPrio (tcb s' t) = OSTCBPrio (tcb s t)" for t by (simp add: tb)
  then have "inherits base M s'" using core(2) o ww f(2) by (simp add: inherits_def)
  moreover have "cur_ok s'" using cur(1) tb by (simp add: cur_ok_def es s2_def)
  ultimately show "kernel_ok base M s'" using cur(2) rr f(4) by (simp add: kernel_ok_def)
  show "ecb s' = (ecb s)(m := (ecb s m)\<lparr>OSEventWait := OSEventWait (ecb s' m)\<rparr>)" by (auto simp: f)
  show "OSTCBCur s' = OSTCBCur s" "OSTCBList s' = OSTCBList s" "t \<noteq> OSTCBCur s \<Longrightarrow> tcb s' t = tcb s t"
    by (simp_all add: f tb c_def)
  show "err = OS_ERR_NONE \<and> m \<in> M \<and> owner s m = OSTCBCur s \<or> err = OS_ERR_TIMEOUT \<and> (\<forall>k\<in>M. owner s k \<noteq> OSTCBCur s)"
    using es(2) cases ev mM by (auto simp: task_waits_def task_granted_def simp flip: c_def)
qed

section \<open>Giving a mutex back\<close>

text \<open>First the priority of the owner is what it was created with again.\<close>

definition lower_owner :: "nat \<Rightarrow> kernel \<Rightarrow> kernel" where
  "lower_owner m s =
     (let pcp = mutex_pcp (ecb s m); c = OSTCBCur s
      in if pcp \<noteq> OS_PRIO_MUTEX_CEIL_DIS then
           let s0 = (if OSTCBPrio (tcb s c) = pcp then OSMutex_RdyAtPrio c (mutex_low (ecb s m)) s else s)
           in s0\<lparr>OSTCBPrioTbl := (OSTCBPrioTbl s0)[unat pcp := OS_TCB_RESERVED]\<rparr>
         else s)"

lemma base_free:
  assumes "core base M s" "c \<in> tasks s" "u \<in> tasks s" "u \<noteq> c"
  shows "OSTCBPrio (tcb s u) \<noteq> base c"
  using assms(1,3)
proof (cases rule: prio_cases)
  case 1
  have "inj_on base (tasks s)" using assms(1) by (simp add: core_def bases_def)
  then show ?thesis using 1 assms(2-4) by (auto dest: inj_onD)
next
  case (2 m)
  then show ?thesis using ceilings(2) [OF assms(1) 2(1,2) assms(2)] by simp
qed

lemma lower_owner_core:
  assumes ok: "core base M s" "cur_ok s" "rdy s (OSTCBCur s)" and m: "m \<in> M" "owner s m = OSTCBCur s"
    and s': "s' = lower_owner m s"
  shows "core base M s'" "cur_ok s'" "OSTCBPrio (tcb s' (OSTCBCur s)) = base (OSTCBCur s)"
    "ecb s' = ecb s" "OSTCBList s' = OSTCBList s" "OSTCBCur s' = OSTCBCur s" "t \<noteq> OSTCBCur s \<Longrightarrow> tcb s' t = tcb s t"
    "t \<in> tasks s \<Longrightarrow> rdy s' t = rdy s t" "t \<in> tasks s \<Longrightarrow> k \<in> M \<Longrightarrow> wt s' k t = wt s k t"
    "OSTCBEventPtr (tcb s' (OSTCBCur s)) = OSTCBEventPtr (tcb s (OSTCBCur s))"
proof -
  define c where "c = OSTCBCur s"
  define pcp where "pcp = mutex_pcp (ecb s m)"
  have sh: "shape M s" and c: "c \<in> tasks s" using ok by (auto simp: core_def cur_ok_def c_def)
  have c0: "owner s m \<noteq> 0" using m(2) task_nonzero [OF ok(1) c] by (simp add: c_def)
  note q = owner_state [OF ok(1) m(1) c0, unfolded m(2), folded c_def pcp_def]
  have b64: "base c < 64" using ok(1) c by (auto simp: core_def bases_def)
  have b: "tcb_ok (tcb s c)" "pm_ok (OSRdy s)" using sh c by (auto simp: shape_def)
  define raised where "raised \<longleftrightarrow> OSTCBPrio (tcb s c) \<noteq> base c"
  have rp: "raised \<Longrightarrow> pcp \<noteq> 0xFF \<and> OSTCBPrio (tcb s c) = pcp" using q(5) by (auto simp: raised_def)
  have pcpb: "pcp \<noteq> 0xFF \<Longrightarrow> OSTCBPrio (tcb s c) = pcp \<longleftrightarrow> raised"
  proof -
    assume a: "pcp \<noteq> 0xFF"
    have "base c \<noteq> pcp" using ceilings(2) [OF ok(1) m(1) _ c] a unfolding pcp_def by blast
    then show ?thesis using rp unfolding raised_def by metis
  qed
  define R where "R = (if raised then enter (set_prio (base c) (tcb s c)) (leave (tcb s c) (OSRdy s)) else OSRdy s)"
  define tab where "tab = (let tab0 = (if raised then (OSTCBPrioTbl s)[unat (base c) := c] else OSTCBPrioTbl s)
      in if pcp \<noteq> 0xFF then tab0[unat pcp := 1] else tab0)"
  have s2: "tcb s' = (tcb s)(c := (if raised then set_prio (base c) (tcb s c) else tcb s c))" "OSRdy s' = R" "OSTCBPrioTbl s' = tab"
    "ecb s' = ecb s" "OSTCBList s' = OSTCBList s" "OSTCBCur s' = c" "OSIntNesting s' = OSIntNesting s" "OSLockNesting s' = OSLockNesting s"
    "OSRunning s' = OSRunning s" "OSPrioCur s' = base c"
  proof -
    have pc: "\<not> raised \<Longrightarrow> OSPrioCur s = base c" using ok(2) by (simp add: cur_ok_def raised_def c_def)
    have "s' = (if pcp \<noteq> 0xFF
        then (if raised then OSMutex_RdyAtPrio c (base c) s else s)
               \<lparr>OSTCBPrioTbl := (OSTCBPrioTbl (if raised then OSMutex_RdyAtPrio c (base c) s else s))[unat pcp := 1]\<rparr> else s)"
      unfolding s' lower_owner_def Let_def c_def [symmetric] pcp_def [symmetric] q(2) using pcpb by (cases "pcp = 0xFF") simp_all
    moreover have "pcp = 0xFF \<Longrightarrow> \<not> raised" using rp by blast
    ultimately have "tcb s' = (tcb s)(c := (if raised then set_prio (base c) (tcb s c) else tcb s c)) \<and> OSRdy s' = R \<and> OSTCBPrioTbl s' = tab
      \<and> ecb s' = ecb s \<and> OSTCBList s' = OSTCBList s \<and> OSTCBCur s' = c \<and> OSIntNesting s' = OSIntNesting s \<and> OSLockNesting s' = OSLockNesting s
      \<and> OSRunning s' = OSRunning s \<and> OSPrioCur s' = base c"
      using pc by (cases raised; cases "pcp = 0xFF") (simp_all add: OSMutex_RdyAtPrio_def R_def tab_def Let_def c_def)
    then show "tcb s' = (tcb s)(c := (if raised then set_prio (base c) (tcb s c) else tcb s c))" "OSRdy s' = R" "OSTCBPrioTbl s' = tab"
      "ecb s' = ecb s" "OSTCBList s' = OSTCBList s" "OSTCBCur s' = c" "OSIntNesting s' = OSIntNesting s" "OSLockNesting s' = OSLockNesting s"
      "OSRunning s' = OSRunning s" "OSPrioCur s' = base c" by blast+
  qed
  have tb: "tcb s' t = (if t = c then (if raised then set_prio (base c) (tcb s c) else tcb s c) else tcb s t)" for t by (simp add: s2)
  have prq: "pr s' t = (if t = c then unat (base c) else pr s t)" for t by (simp add: pr_def tb raised_def)
  have pq: "pr s u \<noteq> pr s c" if "u \<in> tasks s" "u \<noteq> c" for u using pr_inj [OF sh that(1) c] that(2) by simp
  have new: "pr s u \<noteq> unat (base c)" if "u \<in> tasks s" "u \<noteq> c" for u
    using base_free [OF ok(1) c that] by (metis pr_def word_unat_eq_iff)
  have l: "pm_ok (leave (tcb s c) (OSRdy s))" "prios (leave (tcb s c) (OSRdy s)) = prios (OSRdy s) - {pr s c}"
    using leave_prios [OF b] by (simp_all add: pr_def)
  have e: "pm_ok R" "prios R = insert (unat (base c)) (prios (OSRdy s) - {pr s c})"
    using enter_prios [OF tcb_ok_set_prio [OF b64] l(1), of "tcb s c"] l(2) b(2) ok(3)
    by (auto simp: R_def raised_def rdy_def pr_def simp flip: c_def)
  have rr: "rdy s' t = rdy s t" if "t \<in> tasks s" for t
    using that e(2) prq [of t] new [OF that] pq [OF that] ok(3) by (cases "t = c") (auto simp: rdy_def s2 c_def)
  have nowait: "\<not> wt s' k c" if "k \<in> M" for k
  proof
    assume w: "wt s' k c"
    then have "unat (base c) \<in> prios (OSEventWait (ecb s k))" by (simp add: wt_def prq s2)
    from wait_task [OF sh that this] obtain u where u: "u \<in> tasks s" "pr s u = unat (base c)" "wt s k u" by auto
    then have "u = c" using new by blast
    then show False using u(3) q(3) that by auto
  qed
  have ww: "wt s' k t = wt s k t" if "t \<in> tasks s" "k \<in> M" for t k
    using nowait [OF that(2)] q(3) that prq [of t] by (cases "t = c") (auto simp: wt_def s2)
  have tabn: "tab ! pr s' t = t" if "t \<in> tasks s" for t
  proof -
    have x: "OSTCBPrioTbl s ! pr s t = t" "pr s t < 64" "length (OSTCBPrioTbl s) = 64" using sh that pr_less by (auto simp: shape_def)
    have y: "unat (base c) < 64" using b64 by (simp add: word_less_nat_alt)
    have z: "pcp \<noteq> 0xFF \<Longrightarrow> unat pcp \<noteq> pr s' t"
    proof
      assume p: "pcp \<noteq> 0xFF" "unat pcp = pr s' t"
      show False
      proof (cases "t = c")
        case True
        then have "pcp = base c" using p(2) by (simp add: prq word_unat_eq_iff)
        then show False using p(1) ceilings(2) [OF ok(1) m(1) _ c] unfolding pcp_def by metis
      next
        case False
        then have "OSTCBPrio (tcb s t) = mutex_pcp (ecb s m)" using p(2) tb [of t] by (simp add: pr_def pcp_def word_unat_eq_iff)
        then show False using ceiling_free [OF ok(1) m(1) _ that] p(1) False m(2) by (simp add: pcp_def c_def)
      qed
    qed
    show ?thesis
    proof (cases "t = c")
      case True
      have "\<not> raised \<Longrightarrow> pr s c = unat (base c)" by (simp add: raised_def pr_def)
      then show ?thesis using True x y z by (cases raised) (auto simp: tab_def prq nth_list_update Let_def)
    next
      case False
      then show ?thesis using x y z new [OF that False] by (auto simp: tab_def prq nth_list_update Let_def)
    qed
  qed
  have "shape M s'"
  proof -
    have t1: "tcb_ok (tcb s' t)" if "t \<in> tasks s" for t using sh that tcb_ok_set_prio [OF b64] by (auto simp: shape_def tb)
    have t2: "prios (OSEventWait (ecb s' k)) \<subseteq> pr s' ` tasks s" if kM: "k \<in> M" for k
    proof
      fix p assume p: "p \<in> prios (OSEventWait (ecb s' k))"
      then obtain u where u: "u \<in> tasks s" "p = pr s u" "wt s k u" using wait_task [OF sh kM] by (auto simp: s2)
      then have "u \<noteq> c" using q(3) [of k] kM by auto
      then show "p \<in> pr s' ` tasks s" using u prq by auto
    qed
    have t3: "prios R \<subseteq> pr s' ` tasks s"
    proof
      fix p assume p: "p \<in> prios R"
      show "p \<in> pr s' ` tasks s"
      proof (cases "p = unat (base c)")
        case True
        then have "p = pr s' c" by (simp add: prq)
        then show ?thesis using c by blast
      next
        case False
        then have "p \<in> prios (OSRdy s)" "p \<noteq> pr s c" using p e(2) by auto
        then obtain u where "u \<in> tasks s" "p = pr s u" using ready_task [OF sh] by blast
        moreover from this have "p = pr s' u" using \<open>p \<noteq> pr s c\<close> by (auto simp: prq)
        ultimately show ?thesis by blast
      qed
    qed
    have "length tab = 64" using sh by (simp add: shape_def tab_def Let_def)
    then show ?thesis using sh e(1) t1 t2 t3 tabn by (simp add: shape_def s2)
  qed
  moreover have "bases base M s'"
  proof -
    have "bases base M s" using ok(1) by (simp add: core_def)
    then show ?thesis unfolding bases_def s2(4,5) tb by (auto simp: raised_def)
  qed
  moreover have "\<forall>t\<in>tasks s'. task_ok M s' t"
  proof
    fix t assume "t \<in> tasks s'"
    then have t: "t \<in> tasks s" "task_ok M s t" using ok(1) s2 by (auto simp: core_def)
    then show "task_ok M s' t" using rr [OF t(1)] ww [OF t(1)] tb [of t] s2(4)
      by (auto simp: task_ok_def task_free_def task_waits_def task_granted_def)
  qed
  moreover have "\<exists>i\<in>tasks s'. base i = OS_TASK_IDLE_PRIO \<and> rdy s' i" using ok(1) rr s2 by (auto simp: core_def)
  ultimately show "core base M s'" using ok(1) by (simp add: core_def mutex_ok_def s2)
  show "OSTCBPrio (tcb s' (OSTCBCur s)) = base (OSTCBCur s)" using tb [of c] by (simp add: raised_def c_def)
  then show "cur_ok s'" using ok(2) s2 by (simp add: cur_ok_def c_def)
  show "ecb s' = ecb s" "OSTCBList s' = OSTCBList s" "OSTCBCur s' = OSTCBCur s" by (simp_all add: s2 c_def)
  show "t \<noteq> OSTCBCur s \<Longrightarrow> tcb s' t = tcb s t" "OSTCBEventPtr (tcb s' (OSTCBCur s)) = OSTCBEventPtr (tcb s (OSTCBCur s))"
    using tb by (simp_all add: c_def)
  show "t \<in> tasks s \<Longrightarrow> rdy s' t = rdy s t" "t \<in> tasks s \<Longrightarrow> k \<in> M \<Longrightarrow> wt s' k t = wt s k t" using rr ww by auto
qed

text \<open>Then the mutex is free, or it is the highest waiting task's.\<close>

lemma release_core:
  assumes ok: "core base M s" and m: "m \<in> M" "owner s m = c" and c: "c \<in> tasks s" "OSTCBPrio (tcb s c) = base c" "task_free M s c"
    and w: "prios (OSEventWait (ecb s m)) = {}"
    and s': "s' = upd_ecb m (\<lambda>b. b\<lparr>OSEventCnt := OSEventCnt b OR 0x00FF, OSEventPtr := 0\<rparr>) s"
  shows "core base M s'" "\<forall>k\<in>M. owner s' k \<noteq> c" "owner s' m = 0" "k \<noteq> m \<Longrightarrow> ecb s' k = ecb s k" "wt s' k t = wt s k t"
    "mutex_pcp (ecb s' k) = mutex_pcp (ecb s k)" "tcb s' = tcb s" "OSTCBList s' = OSTCBList s"
proof -
  have c0: "c \<noteq> 0" by (rule task_nonzero [OF ok c(1)])
  have f: "tcb s' = tcb s" "OSTCBPrioTbl s' = OSTCBPrioTbl s" "OSTCBList s' = OSTCBList s" "OSRdy s' = OSRdy s" by (simp_all add: s')
  have o: "owner s' k = (if k = m then 0 else owner s k)" "mutex_pcp (ecb s' k) = mutex_pcp (ecb s k)"
    "mutex_low (ecb s' k) = (if k = m then 0xFF else mutex_low (ecb s k))" "OSEventWait (ecb s' k) = OSEventWait (ecb s k)"
    "OSEventType (ecb s' k) = OSEventType (ecb s k)" for k
    using free_low_fields [of "ecb s' m" "ecb s m"] by (simp_all add: s')
  have p: "pr s' = pr s" "rdy s' t = rdy s t" "wt s' k t = wt s k t" for t k
    by (simp_all add: pr_def [abs_def] rdy_def wt_def f o)
  have "shape M s'" using ok o f p(1) by (simp add: core_def shape_def)
  moreover have "bases base M s'"
  proof -
    have b: "bases base M s" using ok by (simp add: core_def)
    have "OSTCBPrio (tcb s t) = base t
        \<or> (\<exists>k\<in>M. mutex_pcp (ecb s k) \<noteq> 0xFF \<and> owner s' k = t \<and> OSTCBPrio (tcb s t) = mutex_pcp (ecb s k))" if t: "t \<in> tasks s" for t
      using ok t
    proof (cases rule: prio_cases)
      case (2 k)
      show ?thesis
      proof (cases "k = m")
        case True
        then show ?thesis using 2(3) m(2) c(2) by simp
      next
        case False
        then show ?thesis using 2 o(1) [of k] by auto
      qed
    qed simp
    then show ?thesis using b unfolding bases_def f o(2) by blast
  qed
  moreover have "\<forall>k\<in>M. mutex_ok base s' k" using ok o f w by (auto simp: core_def mutex_ok_def)
  moreover have "\<forall>k\<in>M. \<forall>k'\<in>M. owner s' k = owner s' k' \<longrightarrow> owner s' k \<noteq> 0 \<longrightarrow> k = k'"
    using ok o(1) by (auto simp: core_def)
  moreover have "\<forall>t\<in>tasks s'. task_ok M s' t"
  proof
    fix t assume "t \<in> tasks s'"
    then have t: "task_ok M s t" "t \<in> tasks s" using ok f by (auto simp: core_def)
    have "t \<noteq> 0" by (rule task_nonzero [OF ok t(2)])
    then show "task_ok M s' t"
      using t(1) c(3) m f o p unfolding task_ok_def task_free_def task_waits_def task_granted_def by (cases "t = c") auto
  qed
  moreover have "\<exists>i\<in>tasks s'. base i = OS_TASK_IDLE_PRIO \<and> rdy s' i" using ok p f by (simp add: core_def)
  ultimately show "core base M s'" unfolding core_def by blast
  show "\<forall>k\<in>M. owner s' k \<noteq> c"
  proof
    fix k assume k: "k \<in> M"
    show "owner s' k \<noteq> c"
      using single_owner [OF ok m(1) k] m(2) c0 o(1) [of k] by (cases "k = m") auto
  qed
  show "owner s' m = 0" "wt s' k t = wt s k t" "mutex_pcp (ecb s' k) = mutex_pcp (ecb s k)" "tcb s' = tcb s" "OSTCBList s' = OSTCBList s"
    "k \<noteq> m \<Longrightarrow> ecb s' k = ecb s k"
    using o p f by (simp_all add: s')
qed

lemma hand_over_core:
  assumes ok: "core base M s" and m: "m \<in> M" "owner s m = c" and c: "c \<in> tasks s" "OSTCBPrio (tcb s c) = base c" "task_free M s c"
    and w: "prios (OSEventWait (ecb s m)) \<noteq> {}"
    and r: "OS_EventTaskRdy_tcb m 0 OS_STAT_MUTEX OS_STAT_PEND_OK s = (p, s2)"
    and s': "s' = upd_ecb m (\<lambda>b. (set_low p b)\<lparr>OSEventPtr := OSTCBPrioTbl s2 ! unat p\<rparr>) s2"
  obtains t where "t \<in> tasks s" "wt s m t" "p = base t" "\<And>u. u \<in> tasks s \<Longrightarrow> wt s m u \<Longrightarrow> base t \<le> base u"
    "core base M s'" "owner s' m = t" "\<And>k. k \<noteq> m \<Longrightarrow> ecb s' k = ecb s k" "mutex_pcp (ecb s' m) = mutex_pcp (ecb s m)"
    "\<And>u. u \<noteq> t \<Longrightarrow> tcb s' u = tcb s u" "OSTCBPrio (tcb s' t) = base t" "OSTCBEventPtr (tcb s' t) = m"
    "\<And>u k. u \<in> tasks s \<Longrightarrow> k \<in> M \<Longrightarrow> wt s' k u \<longleftrightarrow> wt s k u \<and> u \<noteq> t" "rdy s' t" "\<And>u. u \<in> tasks s \<Longrightarrow> rdy s u \<Longrightarrow> rdy s' u"
    "OSTCBList s' = OSTCBList s" "OSTCBCur s' = OSTCBCur s"
    "OSPrioCur s' = OSPrioCur s" "OSIntNesting s' = OSIntNesting s" "OSLockNesting s' = OSLockNesting s" "OSRunning s' = OSRunning s"
proof -
  have sh: "shape M s" using ok by (simp add: core_def)
  have c0: "c \<noteq> 0" by (rule task_nonzero [OF ok c(1)])
  have pm: "pm_ok (OSEventWait (ecb s m))" "pm_ok (OSRdy s)" using sh m(1) by (auto simp: shape_def)
  have h: "unat (pm_high (OSEventWait (ecb s m))) = Min (prios (OSEventWait (ecb s m)))" using pm_high_Min [OF pm(1) w] by simp
  have fin: "finite (prios (OSEventWait (ecb s m)))" by (simp add: prios_def)
  obtain t where t: "t \<in> tasks s" "unat (pm_high (OSEventWait (ecb s m))) = pr s t" "wt s m t"
    using wait_task [OF sh m(1) Min_in [OF fin w]] h by auto
  have "task_ok M s t" using ok t(1) by (simp add: core_def)
  then have tw: "task_waits M s t" using t(3) m(1) by (auto simp: task_ok_def task_free_def task_granted_def)
  have tc: "t \<noteq> c" using free_no_wait [OF c(3) m(1)] t(3) by auto
  have tb0: "OSTCBPrio (tcb s t) = base t" using ok t(1) by (cases rule: prio_cases) (use tw in \<open>auto simp: task_waits_def\<close>)
  have p: "p = base t" "unat p = pr s t"
    using r t(2) tb0 by (auto simp: OS_EventTaskRdy_tcb_def Let_def pr_def word_unat_eq_iff)
  have tab: "OSTCBPrioTbl s ! pr s t = t" "tcb_ok (tcb s t)" using sh t(1) by (auto simp: shape_def)
  have y: "OSUnMapTbl ! unat (pm_grp (OSEventWait (ecb s m))) = OSTCBY (tcb s t)"
  proof -
    have g: "pm_grp (OSEventWait (ecb s m)) \<noteq> 0" using pm_grp_0 [OF pm(1)] w by simp
    let ?y = "OSUnMapTbl ! unat (pm_grp (OSEventWait (ecb s m)))"
    have "bit (pm_grp (OSEventWait (ecb s m))) (unat ?y)" "unat ?y < 8" using OSUnMapTbl_lowest [OF g] by simp_all
    then have "pm_tbl (OSEventWait (ecb s m)) ! unat ?y \<noteq> 0" using pm(1) by (simp add: pm_ok_def)
    from OSUnMapTbl_lowest(2) [OF this] have x: "unat (OSUnMapTbl ! unat (pm_tbl (OSEventWait (ecb s m)) ! unat ?y)) < 8" .
    have "unat (push_bit 3 ?y) = 8 * unat ?y" using \<open>unat ?y < 8\<close> by (simp add: push_bit_eq_mult unat_word_ariths)
    then have "pr s t = 8 * unat ?y + unat (OSUnMapTbl ! unat (pm_tbl (OSEventWait (ecb s m)) ! unat ?y))"
      using t(2) x \<open>unat ?y < 8\<close> by (simp add: pm_high_def Let_def unat_word_ariths)
    then have "pr s t div 8 = unat ?y" using x by simp
    then show ?thesis using tab(2) by (simp add: tcb_ok_def pr_def word_unat_eq_iff prio_y_nat)
  qed
  define b where "b = (tcb s t)\<lparr>OSTCBDly := 0, OSTCBMessage := 0, OSTCBStat := 0, OSTCBStatPend := OS_STAT_PEND_OK\<rparr>"
  have st: "OSTCBStat (tcb s t) AND NOT OS_STAT_MUTEX = 0" using tw by (auto simp: task_waits_def)
  have s2: "s2 = OS_EventTaskRemove t m ((upd_tcb t (\<lambda>_. b) s)\<lparr>OSRdy := enter b (OSRdy s)\<rparr>)"
    using r t(2) tab(1) st y unfolding b_def
    by (auto simp: OS_EventTaskRdy_tcb_def Let_def enter_def upd_tcb_def)
  have eb: "enter b = enter (tcb s t)" "leave b = leave (tcb s t)" by (simp_all add: b_def)
  have tb: "tcb s' u = (if u = t then b else tcb s u)" for u by (simp add: s' s2 OS_EventTaskRemove_def)
  have R: "OSRdy s' = enter (tcb s t) (OSRdy s)" by (simp add: s' s2 OS_EventTaskRemove_def eb)
  have W: "ecb s' k = (if k = m then (set_low p ((ecb s m)\<lparr>OSEventWait := leave (tcb s t) (OSEventWait (ecb s m))\<rparr>))\<lparr>OSEventPtr := t\<rparr> else ecb s k)" for k
    using tab(1) p(2) by (simp add: s' s2 OS_EventTaskRemove_def eb)
  have f: "OSTCBPrioTbl s' = OSTCBPrioTbl s" "OSTCBList s' = OSTCBList s" "OSTCBCur s' = OSTCBCur s" "OSPrioCur s' = OSPrioCur s"
    "OSIntNesting s' = OSIntNesting s" "OSLockNesting s' = OSLockNesting s" "OSRunning s' = OSRunning s"
    by (simp_all add: s' s2 OS_EventTaskRemove_def)
  have pr: "pr s' = pr s" by (intro ext) (simp add: pr_def tb b_def)
  have e: "pm_ok (OSRdy s')" "prios (OSRdy s') = insert (pr s t) (prios (OSRdy s))"
    using enter_prios [OF tab(2) pm(2)] by (simp_all add: R pr_def)
  have l: "pm_ok (OSEventWait (ecb s' m))" "prios (OSEventWait (ecb s' m)) = prios (OSEventWait (ecb s m)) - {pr s t}"
    using leave_prios [OF tab(2) pm(1)] by (simp_all add: W pr_def)
  have rr: "rdy s' u \<longleftrightarrow> rdy s u \<or> u = t" if "u \<in> tasks s" for u
    using pr_inj [OF sh that t(1)] e(2) by (auto simp: rdy_def pr)
  have wm: "k = m" if "wt s k t" "k \<in> M" for k using tw t(3) m(1) that by (metis task_waits_def)
  have ww: "wt s' k u \<longleftrightarrow> wt s k u \<and> u \<noteq> t" if "u \<in> tasks s" "k \<in> M" for k u
  proof (cases "k = m")
    case True
    then show ?thesis using pr_inj [OF sh that(1) t(1)] l(2) by (auto simp: wt_def pr)
  next
    case False
    then have "\<not> wt s k t" using wm that(2) by blast
    then show ?thesis using False by (auto simp: wt_def pr W)
  qed
  have o: "owner s' k = (if k = m then t else owner s k)" "mutex_pcp (ecb s' k) = mutex_pcp (ecb s k)"
    "mutex_low (ecb s' k) = (if k = m then base t else mutex_low (ecb s k))" "OSEventType (ecb s' k) = OSEventType (ecb s k)" for k
    by (simp_all add: W p(1))
  have "shape M s'" using sh f(1,2) e l t(1) pr by (auto simp: shape_def tb W b_def tcb_ok_def)
  moreover have "bases base M s'"
  proof -
    have bb: "bases base M s" using ok by (simp add: core_def)
    have "OSTCBPrio (tcb s' u) = base u
        \<or> (\<exists>k\<in>M. mutex_pcp (ecb s k) \<noteq> 0xFF \<and> owner s' k = u \<and> OSTCBPrio (tcb s' u) = mutex_pcp (ecb s k))" if u: "u \<in> tasks s" for u
      using ok u
    proof (cases rule: prio_cases)
      case 1
      then show ?thesis using tb0 by (auto simp: tb b_def)
    next
      case (2 k)
      show ?thesis
      proof (cases "u = t \<or> k = m")
        case True
        then show ?thesis using 2(3) m(2) c(2) tb0 tc by (auto simp: tb b_def)
      next
        case False
        then show ?thesis using 2 o(1) [of k] tb [of u] by auto
      qed
    qed
    then show ?thesis using bb unfolding bases_def f o(2) by blast
  qed
  moreover have "\<forall>k\<in>M. mutex_ok base s' k"
    using ok o f(2) t(1) task_nonzero [OF ok t(1)] by (auto simp: core_def mutex_ok_def W)
  moreover have "\<forall>k\<in>M. \<forall>k'\<in>M. owner s' k = owner s' k' \<longrightarrow> owner s' k \<noteq> 0 \<longrightarrow> k = k'"
    using ok o(1) tw by (auto simp: core_def task_waits_def)
  moreover have "\<forall>u\<in>tasks s'. task_ok M s' u"
  proof
    fix u assume "u \<in> tasks s'"
    then have u: "task_ok M s u" "u \<in> tasks s" using ok f by (auto simp: core_def)
    show "task_ok M s' u"
    proof (cases "u = t")
      case True
      have "OSTCBEventPtr (tcb s t) = m" using tw t(3) m(1) by (auto simp: task_waits_def)
      then have "task_granted M s' t" using rr [OF t(1)] ww [OF t(1)] m(1) o(1) by (simp add: task_granted_def tb b_def)
      then show ?thesis using True by (simp add: task_ok_def)
    next
      case False
      show ?thesis
      proof (cases "u = c")
        case True
        then have "task_free M s' u" using c(3) False rr [OF u(2)] ww [OF u(2)] tb [of u] by (simp add: task_free_def)
        then show ?thesis by (simp add: task_ok_def)
      next
        case uc: False
        then have ow: "owner s' k = u \<longleftrightarrow> owner s k = u" for k using False o(1) m(2) by auto
        then show ?thesis using u(1) False rr [OF u(2)] ww [OF u(2)] tb [of u]
          by (simp add: task_ok_def task_free_def task_waits_def task_granted_def)
      qed
    qed
  qed
  moreover have "\<exists>i\<in>tasks s'. base i = OS_TASK_IDLE_PRIO \<and> rdy s' i" using ok rr f by (auto simp: core_def)
  ultimately have core': "core base M s'" unfolding core_def by blast
  have least: "base t \<le> base u" if "u \<in> tasks s" "wt s m u" for u
  proof -
    have "task_ok M s u" using ok that(1) by (simp add: core_def)
    then have uw: "task_waits M s u" using that(2) m(1) by (auto simp: task_ok_def task_free_def task_granted_def)
    have "OSTCBPrio (tcb s u) = base u" using ok that(1) by (cases rule: prio_cases) (use uw in \<open>auto simp: task_waits_def\<close>)
    moreover have "Min (prios (OSEventWait (ecb s m))) \<le> pr s u" using that(2) fin unfolding wt_def by (metis Min_le)
    then have "pr s t \<le> pr s u" using h t(2) by simp
    ultimately show ?thesis using tb0 by (simp add: pr_def word_le_nat_alt)
  qed
  show thesis
  proof (rule that)
    show "t \<in> tasks s" "wt s m t" "p = base t" "core base M s'" "owner s' m = t" "mutex_pcp (ecb s' m) = mutex_pcp (ecb s m)"
      using t p core' o by simp_all
    show "base t \<le> base u" if "u \<in> tasks s" "wt s m u" for u using least that by blast
    show "ecb s' k = ecb s k" if "k \<noteq> m" for k using that W by simp
    show "tcb s' u = tcb s u" if "u \<noteq> t" for u using that tb by simp
    show "OSTCBPrio (tcb s' t) = base t" "OSTCBEventPtr (tcb s' t) = m"
      using tb0 tw t(3) m(1) by (auto simp: tb b_def task_waits_def)
    show "wt s' k u \<longleftrightarrow> wt s k u \<and> u \<noteq> t" if "u \<in> tasks s" "k \<in> M" for u k using ww that by blast
    show "rdy s' t" using rr [OF t(1)] by simp
    show "rdy s' u" if "u \<in> tasks s" "rdy s u" for u using rr that by blast
  qed (use f in simp_all)
qed

end
