(* ===== verification/Os_Run.thy ===== *)
theory Os_Run
  imports Os_Mutex_Facts
begin

text \<open>
  Tasks that share mutexes. Each call a task makes on a mutex, each delay and each tick keeps
  \<open>kernel_ok\<close>; the runs of the tasks are a step relation that also records which task may be in the
  section of which mutex, by what the calls returned to it.
\<close>

section \<open>The calls of the running task\<close>

lemma current_free:
  assumes "kernel_ok base M s" "OSTCBEventPtr (tcb s (OSTCBCur s)) = 0"
  shows "OSTCBCur s \<in> tasks s" "OSTCBCur s \<noteq> 0" "task_free M s (OSTCBCur s)"
proof -
  have c: "core base M s" "OSTCBCur s \<in> tasks s" using assms(1) by (simp_all add: kernel_ok_def cur_ok_def)
  then have "task_ok M s (OSTCBCur s)" "0 \<notin> M" by (simp_all add: core_def shape_def)
  then show "task_free M s (OSTCBCur s)" using assms(2) by (auto simp: task_ok_def task_waits_def task_granted_def)
  show "OSTCBCur s \<in> tasks s" "OSTCBCur s \<noteq> 0" using c task_nonzero by auto
qed

lemma mutex_free_iff:
  assumes "core base M s" "m \<in> M" shows "mutex_low (ecb s m) = 0xFF \<longleftrightarrow> owner s m = 0"
proof
  assume a: "mutex_low (ecb s m) = 0xFF"
  show "owner s m = 0"
  proof (rule ccontr)
    assume o: "owner s m \<noteq> 0"
    then have "base (owner s m) < 64" using assms owner_state(1) [OF assms o] by (auto simp: core_def bases_def)
    then show False using owner_state(2) [OF assms o] a by simp
  qed
qed (use assms in \<open>auto simp: core_def mutex_ok_def\<close>)

lemma base_prio:
  assumes "core base M s" "c \<in> tasks s" "\<forall>k\<in>M. owner s k \<noteq> c" shows "OSTCBPrio (tcb s c) = base c"
  using assms(1,2) by (cases rule: prio_cases) (use assms(3) in auto)

lemma acquire_ok:
  assumes ok: "kernel_ok base M s" and m: "m \<in> M" "owner s m = 0"
    and c: "OSTCBEventPtr (tcb s (OSTCBCur s)) = 0" "\<forall>k\<in>M. owner s k \<noteq> OSTCBCur s" and a: "acquire m s = (err, s')"
  shows "kernel_ok base M s'" "err = OS_ERR_NONE \<or> err = OS_ERR_PCP_LOWER" "owner s' k = (if k = m then OSTCBCur s else owner s k)"
    "tcb s' = tcb s" "OSTCBList s' = OSTCBList s"
proof -
  have k: "core base M s" "inherits base M s" "cur_ok s" "rdy s (OSTCBCur s)" using ok by (simp_all add: kernel_ok_def)
  have s': "s' = upd_ecb m (\<lambda>b. (set_low (OSTCBPrio (tcb s (OSTCBCur s))) b)\<lparr>OSEventPtr := OSTCBCur s\<rparr>) s"
    using a by (simp add: acquire_def Let_def)
  note r = acquire_core [OF k(1) m current_free(1,3) [OF ok c(1)] c(2), folded s']
  have "cur_ok s'" "rdy s' (OSTCBCur s')" using k(3,4) by (simp_all add: s' cur_ok_def rdy_def pr_def)
  then show "kernel_ok base M s'" using r k(2) by (simp add: kernel_ok_def)
  show "err = OS_ERR_NONE \<or> err = OS_ERR_PCP_LOWER" using a by (auto simp: acquire_def Let_def)
  show "owner s' k = (if k = m then OSTCBCur s else owner s k)" "tcb s' = tcb s" "OSTCBList s' = OSTCBList s" by (simp_all add: s')
qed

lemma mutex_type: "kernel_ok base M s \<Longrightarrow> m \<in> M \<Longrightarrow> OSEventType (ecb s m) = 4"
  by (simp add: kernel_ok_def core_def mutex_ok_def)

text \<open>A task that must wait has raised the owner first, if its own priority is the higher one.\<close>

lemma promote_ok:
  assumes ok: "kernel_ok base M s" and m: "m \<in> M" "owner s m \<noteq> 0"
    and c: "OSTCBCur s = c" "OSTCBPrio (tcb s c) = base c" "owner s m \<noteq> c"
    and s1: "s1 = (if mutex_pcp (ecb s m) \<noteq> 0xFF then promote_owner m s else s)"
  shows "core base M s1" "inherits base M s1" "cur_ok s1" "owner s1 k = owner s k" "mutex_pcp (ecb s1 k) = mutex_pcp (ecb s k)"
    "tcb s1 c = tcb s c" "OSTCBEventPtr (tcb s1 t) = OSTCBEventPtr (tcb s t)" "rdy s1 c = rdy s c" "k \<in> M \<Longrightarrow> wt s1 k c = wt s k c"
    "OSTCBList s1 = OSTCBList s" "OSTCBCur s1 = c"
    "mutex_pcp (ecb s m) \<noteq> 0xFF \<longrightarrow> base c < base (owner s m) \<longrightarrow> OSTCBPrio (tcb s1 (owner s m)) \<le> mutex_pcp (ecb s m)"
proof -
  let ?pcp = "mutex_pcp (ecb s m)"
  have k: "core base M s" "inherits base M s" "cur_ok s" using ok by (simp_all add: kernel_ok_def)
  have ct: "c \<in> tasks s" using k(3) c(1) by (simp add: cur_ok_def)
  have "core base M s1 \<and> inherits base M s1 \<and> (\<forall>k. owner s1 k = owner s k \<and> mutex_pcp (ecb s1 k) = mutex_pcp (ecb s k))
      \<and> tcb s1 c = tcb s c \<and> (\<forall>t. OSTCBEventPtr (tcb s1 t) = OSTCBEventPtr (tcb s t))
      \<and> rdy s1 c = rdy s c \<and> (\<forall>k\<in>M. wt s1 k c = wt s k c) \<and> OSTCBList s1 = OSTCBList s \<and> OSTCBCur s1 = c \<and> cur_ok s1
      \<and> (?pcp \<noteq> 0xFF \<longrightarrow> base c < base (owner s m) \<longrightarrow> OSTCBPrio (tcb s1 (owner s m)) \<le> ?pcp)"
  proof (cases "?pcp \<noteq> 0xFF \<and> OSTCBPrio (tcb s (owner s m)) > ?pcp \<and> mutex_low (ecb s m) > OSTCBPrio (tcb s c)")
    case True
    then have s1': "s1 = promote_owner m s" by (simp add: s1)
    have pre: "?pcp \<noteq> 0xFF" "OSTCBPrio (tcb s (owner s m)) > ?pcp" "mutex_low (ecb s m) > OSTCBPrio (tcb s (OSTCBCur s))"
      using True by (simp_all add: c)
    note pm = promote_core [OF k(1,2) m pre(1,2) s1' pre(3)]
    have "OSTCBEventPtr (tcb s1 (owner s m)) = OSTCBEventPtr (tcb s (owner s m))"
      using pre by (simp add: s1' promote_owner_def Let_def)
    then have ev: "OSTCBEventPtr (tcb s1 t) = OSTCBEventPtr (tcb s t)" for t using pm(4) by (cases "t = owner s m") simp_all
    have tc: "tcb s1 c = tcb s c" by (rule pm(4)) (use c(3) in simp)
    have "cur_ok s1" using k(3) pm tc by (simp add: cur_ok_def c)
    moreover have "rdy s1 c = rdy s c" "\<forall>k\<in>M. wt s1 k c = wt s k c" using pm(6,7) ct by blast+
    moreover have "OSTCBCur s1 = c" using pm(9) c(1) by simp
    moreover have "OSTCBPrio (tcb s1 (owner s m)) \<le> ?pcp" using pm(3) by simp
    ultimately show ?thesis using pm(1,2,5,8) ev tc by blast
  next
    case False
    then have "s1 = s" by (auto simp: s1 promote_owner_def Let_def c(1))
    then show ?thesis using k False owner_state(2) [OF k(1) m] c by auto
  qed
  then show "core base M s1" "inherits base M s1" "cur_ok s1" "owner s1 k = owner s k" "mutex_pcp (ecb s1 k) = mutex_pcp (ecb s k)"
    "tcb s1 c = tcb s c" "OSTCBEventPtr (tcb s1 t) = OSTCBEventPtr (tcb s t)" "rdy s1 c = rdy s c" "k \<in> M \<Longrightarrow> wt s1 k c = wt s k c"
    "OSTCBList s1 = OSTCBList s" "OSTCBCur s1 = c"
    "mutex_pcp (ecb s m) \<noteq> 0xFF \<longrightarrow> base c < base (owner s m) \<longrightarrow> OSTCBPrio (tcb s1 (owner s m)) \<le> mutex_pcp (ecb s m)"
    by simp_all
qed

lemma pend_ok:
  assumes ok: "kernel_ok base M s" and m: "m \<in> M"
    and c: "OSTCBEventPtr (tcb s (OSTCBCur s)) = 0" "\<forall>k\<in>M. owner s k \<noteq> OSTCBCur s" "base (OSTCBCur s) \<noteq> 63"
    and p: "OSMutexPend m timeout s = (r, s')"
  shows "kernel_ok base M s' \<and> OSTCBList s' = OSTCBList s \<and>
    (owner s m = 0 \<and> (r = Some OS_ERR_NONE \<or> r = Some OS_ERR_PCP_LOWER) \<and> tcb s' = tcb s
        \<and> (\<forall>k. owner s' k = (if k = m then OSTCBCur s else owner s k))
      \<or> owner s m \<noteq> 0 \<and> r = None \<and> (\<forall>k. owner s' k = owner s k)
        \<and> (\<forall>t. OSTCBEventPtr (tcb s' t) = (if t = OSTCBCur s then m else OSTCBEventPtr (tcb s t))))"
proof (cases "owner s m = 0")
  case True
  have n: "OSIntNesting s = 0" "OSLockNesting s = 0" "core base M s" using ok by (simp_all add: kernel_ok_def cur_ok_def)
  have "mutex_low (ecb s m) = 0xFF" using mutex_free_iff [OF n(3) m] True by simp
  then obtain err where a: "acquire m s = (err, s')" "r = Some err"
    using p n mutex_type [OF ok m] by (auto simp: OSMutexPend_def split: prod.splits)
  show ?thesis using acquire_ok [OF ok m True c(1,2) a(1)] a(2) True by auto
next
  case False
  define c where "c = OSTCBCur s"
  have k: "core base M s" "OSIntNesting s = 0" "OSLockNesting s = 0" using ok by (simp_all add: kernel_ok_def cur_ok_def)
  note cf = current_free [OF ok c(1), folded c_def]
  define s1 where "s1 = (if mutex_pcp (ecb s m) \<noteq> 0xFF then promote_owner m s else s)"
  have oc: "OSTCBPrio (tcb s c) = base c" "owner s m \<noteq> c" "\<forall>k\<in>M. owner s k \<noteq> c" "base c \<noteq> 63"
    using base_prio [OF k(1) cf(1)] c m by (simp_all add: c_def)
  note s1 = promote_ok [OF ok m False c_def [symmetric] oc(1,2) s1_def]
  define s2 where "s2 = OS_EventTaskWait m (upd_tcb c (\<lambda>b. b\<lparr>OSTCBStat := OSTCBStat b OR OS_STAT_MUTEX, OSTCBStatPend := OS_STAT_PEND_OK,
                                           OSTCBDly := timeout\<rparr>) s1)"
  have p2: "r = None" "s' = OS_Sched s2"
    using p k False mutex_free_iff [OF k(1) m] mutex_type [OF ok m] s1(11)
    by (simp_all add: OSMutexPend_def Let_def s2_def flip: s1_def)
  have pre: "owner s1 m \<noteq> 0" "c \<in> tasks s1" "task_free M s1 c" "\<forall>k\<in>M. owner s1 k \<noteq> c"
      "mutex_pcp (ecb s1 m) \<noteq> 0xFF \<longrightarrow> base c < base (owner s1 m) \<longrightarrow> OSTCBPrio (tcb s1 (owner s1 m)) \<le> mutex_pcp (ecb s1 m)"
    using s1 False cf oc(3) by (simp_all add: task_free_def)
  note bl = block_core [OF s1(1,2) m pre(1) s1(11) pre(2-4) oc(4) pre(5) s2_def]
  have f: "OSTCBList s2 = OSTCBList s1" "owner s2 k = owner s1 k" "OSTCBPrio (tcb s2 t) = OSTCBPrio (tcb s1 t)"
     "OSTCBEventPtr (tcb s2 t) = (if t = c then m else OSTCBEventPtr (tcb s1 t))" for k t
    using s1(11) by (simp_all add: s2_def OS_EventTaskWait_def Let_def)
  have cu: "cur_ok s2" using s1(3) by (simp add: cur_ok_def f) (simp add: s2_def OS_EventTaskWait_def Let_def)
  show ?thesis using ctx_sw_ok(1) [OF bl cu] False p2 OS_Sched_cur [OF cu] f s1 by (simp add: c_def)
qed

lemma accept_ok:
  assumes ok: "kernel_ok base M s" and m: "m \<in> M"
    and c: "OSTCBEventPtr (tcb s (OSTCBCur s)) = 0" "\<forall>k\<in>M. owner s k \<noteq> OSTCBCur s"
    and p: "OSMutexAccept m s = ((got, err), s')"
  shows "kernel_ok base M s' \<and> OSTCBList s' = OSTCBList s \<and> tcb s' = tcb s \<and> got = (owner s m = 0)
    \<and> (\<forall>k. owner s' k = (if got \<and> k = m then OSTCBCur s else owner s k))"
proof -
  have n: "OSIntNesting s = 0" "core base M s" using ok by (simp_all add: kernel_ok_def cur_ok_def)
  show ?thesis
  proof (cases "owner s m = 0")
    case True
    then have a: "acquire m s = (err, s')" "got"
      using p n mutex_type [OF ok m] mutex_free_iff [OF n(2) m] by (auto simp: OSMutexAccept_def split: prod.splits)
    show ?thesis using acquire_ok [OF ok m True c a(1)] a(2) True by simp
  next
    case False
    then have "s' = s" "\<not> got"
      using p n mutex_type [OF ok m] mutex_free_iff [OF n(2) m] by (auto simp: OSMutexAccept_def)
    then show ?thesis using ok False by simp
  qed
qed

text \<open>A post that nobody waits for lets the owner go on, otherwise the scheduler is called.\<close>

lemma post_eq:
  assumes "kernel_ok base M s" "m \<in> M" "owner s m = OSTCBCur s"
  shows "OSMutexPost m s =
    (if prios (OSEventWait (ecb s m)) \<noteq> {} then
       case OS_EventTaskRdy_tcb m 0 OS_STAT_MUTEX OS_STAT_PEND_OK (lower_owner m s) of
         (p, s2) \<Rightarrow> (if mutex_pcp (ecb s m) \<noteq> 0xFF \<and> p \<le> mutex_pcp (ecb s m) then OS_ERR_PCP_LOWER else OS_ERR_NONE,
                    OS_Sched (upd_ecb m (\<lambda>b. (set_low p b)\<lparr>OSEventPtr := OSTCBPrioTbl s2 ! unat p\<rparr>) s2))
     else (OS_ERR_NONE, upd_ecb m (\<lambda>b. b\<lparr>OSEventCnt := OSEventCnt b OR 0x00FF, OSEventPtr := 0\<rparr>) (lower_owner m s)))"
proof -
  have k: "core base M s" "cur_ok s" "rdy s (OSTCBCur s)" "OSIntNesting s = 0" using assms(1) by (simp_all add: kernel_ok_def cur_ok_def)
  have "ecb (lower_owner m s) = ecb s" by (rule lower_owner_core(4) [OF k(1-3) assms(2,3) refl])
  moreover have "pm_ok (OSEventWait (ecb s m))" using k(1) assms(2) by (simp add: core_def shape_def)
  moreover have "OSMutexPost m s =
    (if pm_grp (OSEventWait (ecb (lower_owner m s) m)) \<noteq> 0 then
       case OS_EventTaskRdy_tcb m 0 OS_STAT_MUTEX OS_STAT_PEND_OK (lower_owner m s) of
         (p, s2) \<Rightarrow> (if mutex_pcp (ecb s m) \<noteq> 0xFF \<and> p \<le> mutex_pcp (ecb s m) then OS_ERR_PCP_LOWER else OS_ERR_NONE,
                    OS_Sched (upd_ecb m (\<lambda>b. (set_low p b)\<lparr>OSEventPtr := OSTCBPrioTbl s2 ! unat p\<rparr>) s2))
     else (OS_ERR_NONE, upd_ecb m (\<lambda>b. b\<lparr>OSEventCnt := OSEventCnt b OR 0x00FF, OSEventPtr := 0\<rparr>) (lower_owner m s)))"
    using k(4) mutex_type [OF assms(1,2)] assms(3)
    unfolding OSMutexPost_def lower_owner_def Let_def by (simp split del: if_split)
  ultimately show ?thesis using pm_grp_0 by simp
qed

lemma post_ok:
  assumes ok: "kernel_ok base M s" and m: "m \<in> M" and c: "OSTCBEventPtr (tcb s (OSTCBCur s)) = 0"
    and p: "OSMutexPost m s = (err, s')"
  shows "kernel_ok base M s' \<and> OSTCBList s' = OSTCBList s \<and> (\<forall>t. OSTCBEventPtr (tcb s' t) = OSTCBEventPtr (tcb s t))
    \<and> (\<forall>k. k \<noteq> m \<longrightarrow> owner s' k = owner s k)
    \<and> (if owner s m \<noteq> OSTCBCur s then err = OS_ERR_NOT_MUTEX_OWNER \<and> s' = s
       else err \<noteq> OS_ERR_NOT_MUTEX_OWNER \<and> OSTCBPrio (tcb s' (OSTCBCur s)) = base (OSTCBCur s)
         \<and> (if \<forall>t\<in>tasks s. \<not> wt s m t then owner s' m = 0 \<and> OSTCBCur s' = OSTCBCur s
            else owner s' m \<in> tasks s \<and> wt s m (owner s' m) \<and> OSTCBEventPtr (tcb s (owner s' m)) = m
              \<and> (\<forall>t\<in>tasks s. wt s m t \<longrightarrow> base (owner s' m) \<le> base t)
              \<and> OSTCBPrio (tcb s' (OSTCBCur s')) = pm_high (OSRdy s')))"
proof (cases "owner s m = OSTCBCur s")
  case False
  then show ?thesis using p ok mutex_type [OF ok m] by (auto simp: OSMutexPost_def kernel_ok_def cur_ok_def)
next
  case True
  define c where "c = OSTCBCur s"
  have k: "core base M s" "inherits base M s" "cur_ok s" "rdy s (OSTCBCur s)" using ok by (simp_all add: kernel_ok_def)
  define s1 where "s1 = lower_owner m s"
  note l = lower_owner_core [OF k(1,3,4) m True s1_def]
  note cf = current_free [OF ok \<open>OSTCBEventPtr (tcb s (OSTCBCur s)) = 0\<close>]
  have ev: "OSTCBEventPtr (tcb s1 t) = OSTCBEventPtr (tcb s t)" for t using l(7,10) by (cases "t = OSTCBCur s") simp_all
  have own: "owner s1 m = c" "c \<in> tasks s1" "OSTCBPrio (tcb s1 c) = base c" using l True cf(1) by (simp_all add: c_def)
  have fr: "task_free M s1 c"
  proof -
    have "task_ok M s1 c" "c \<noteq> 0" using l(1) own(2) task_nonzero [OF l(1)] by (auto simp: core_def)
    moreover have "0 \<notin> M" using l(1) by (simp add: core_def shape_def)
    ultimately show ?thesis using ev [of c] assms(3) by (auto simp: task_ok_def task_waits_def task_granted_def c_def)
  qed
  have others: "OSTCBPrio (tcb s1 (owner s k)) \<le> mutex_pcp (ecb s k)"
    if "k \<in> M" "k \<noteq> m" "mutex_pcp (ecb s k) \<noteq> 0xFF" "t \<in> tasks s" "wt s1 k t" "base t < base (owner s k)" for k t
  proof -
    have "owner s k \<noteq> OSTCBCur s" using single_owner [OF k(1) m that(1)] True cf(2) that(2) by auto
    then show ?thesis using k(2) that l(7) l(9) [OF that(4,1)] by (simp add: inherits_def)
  qed
  have sh: "shape M s" using k(1) by (simp add: core_def)
  have ww: "wt s1 k t = wt s k t" if "t \<in> tasks s" "k \<in> M" for t k using l(9) that by blast
  have we: "prios (OSEventWait (ecb s m)) = {} \<longleftrightarrow> (\<forall>t\<in>tasks s. \<not> wt s m t)"
    using wait_task [OF sh m] by (auto simp: wt_def)
  show ?thesis
  proof (cases "prios (OSEventWait (ecb s m)) = {}")
    case w: True
    then have s': "s' = upd_ecb m (\<lambda>b. b\<lparr>OSEventCnt := OSEventCnt b OR 0x00FF, OSEventPtr := 0\<rparr>) s1" "err = OS_ERR_NONE"
      using p post_eq [OF ok m True] by (simp_all add: s1_def)
    have w1: "prios (OSEventWait (ecb s1 m)) = {}" using w l(4) by simp
    note r = release_core [OF l(1) m own(1,2,3) fr w1 s'(1)]
    have "inherits base M s'"
      unfolding inherits_def
    proof (intro ballI impI)
      fix k t assume a: "k \<in> M" "mutex_pcp (ecb s' k) \<noteq> 0xFF" "t \<in> tasks s'" "wt s' k t" "base t < base (owner s' k)"
      have "\<not> wt s m t" using w by (simp add: wt_def)
      then have "k \<noteq> m" using a ww [of t m] m r(5,8) l(5) by auto
      then show "OSTCBPrio (tcb s' (owner s' k)) \<le> mutex_pcp (ecb s' k)" using a r(4-8) l(4,5) others [of k t] by simp
    qed
    moreover have "cur_ok s'" "rdy s' (OSTCBCur s')"
      using l(2,6,8) k(4) cf(1) by (simp_all add: s' cur_ok_def rdy_def pr_def)
    ultimately have "kernel_ok base M s'" using r(1) by (simp add: kernel_ok_def)
    then show ?thesis using True r l ev w we s' by (simp add: c_def)
  next
    case w: False
    obtain q s2 where r: "OS_EventTaskRdy_tcb m 0 OS_STAT_MUTEX OS_STAT_PEND_OK s1 = (q, s2)" by (cases "OS_EventTaskRdy_tcb m 0 0x10 0 s1") auto
    define s3 where "s3 = upd_ecb m (\<lambda>b. (set_low q b)\<lparr>OSEventPtr := OSTCBPrioTbl s2 ! unat q\<rparr>) s2"
    have s': "s' = OS_Sched s3" "err \<noteq> OS_ERR_NOT_MUTEX_OWNER" using p post_eq [OF ok m True] r w by (auto simp: s1_def s3_def split: if_splits)
    have w1: "prios (OSEventWait (ecb s1 m)) \<noteq> {}" using w l(4) by simp
    obtain t where t: "t \<in> tasks s1" "wt s1 m t" "\<And>u. u \<in> tasks s1 \<Longrightarrow> wt s1 m u \<Longrightarrow> base t \<le> base u"
      "core base M s3" "owner s3 m = t" "\<And>k. k \<noteq> m \<Longrightarrow> ecb s3 k = ecb s1 k" "mutex_pcp (ecb s3 m) = mutex_pcp (ecb s1 m)"
      "\<And>u. u \<noteq> t \<Longrightarrow> tcb s3 u = tcb s1 u" "OSTCBPrio (tcb s3 t) = base t" "OSTCBEventPtr (tcb s3 t) = m"
      "\<And>u k. u \<in> tasks s1 \<Longrightarrow> k \<in> M \<Longrightarrow> wt s3 k u \<longleftrightarrow> wt s1 k u \<and> u \<noteq> t"
      "OSTCBList s3 = OSTCBList s1" "OSTCBCur s3 = OSTCBCur s1" "OSPrioCur s3 = OSPrioCur s1" "OSIntNesting s3 = OSIntNesting s1"
      "OSLockNesting s3 = OSLockNesting s1" "OSRunning s3 = OSRunning s1"
      by (rule hand_over_core [OF l(1) m own(1,2,3) fr w1 r s3_def]) (rule that; assumption)
    have tm: "OSTCBEventPtr (tcb s1 t) = m"
    proof -
      have "task_ok M s1 t" using l(1) t(1) by (simp add: core_def)
      then show ?thesis using t(2) m by (auto simp: task_ok_def task_free_def task_waits_def task_granted_def)
    qed
    have tc: "t \<noteq> c" using t(2) free_no_wait [OF fr m] by auto
    have "inherits base M s3"
      unfolding inherits_def
    proof (intro ballI impI)
      fix k u assume a: "k \<in> M" "mutex_pcp (ecb s3 k) \<noteq> 0xFF" "u \<in> tasks s3" "wt s3 k u" "base u < base (owner s3 k)"
      have u: "u \<in> tasks s1" "u \<in> tasks s" "wt s1 k u" using a t(11,12) l(5) by auto
      have km: "k \<noteq> m" using a(5) t(3,5) u by fastforce
      have "owner s3 k \<noteq> t" using single_owner [OF t(4) m a(1)] t(5) km task_nonzero [OF l(1) t(1)] by auto
      then show "OSTCBPrio (tcb s3 (owner s3 k)) \<le> mutex_pcp (ecb s3 k)"
        using a others [OF a(1) km _ u(2,3)] t(6) [OF km] t(8) l(4) by simp
    qed
    moreover have cu: "cur_ok s3" using l(2,6) t(8) [OF tc [symmetric]] t(12-17) by (simp add: cur_ok_def c_def)
    ultimately have "kernel_ok base M s' \<and> OSTCBPrio (tcb s' (OSTCBCur s')) = pm_high (OSRdy s')"
      using ctx_sw_ok [OF t(4) _ cu] OS_Sched_cur [OF cu] s'(1) by simp
    moreover have "OSTCBEventPtr (tcb s3 u) = OSTCBEventPtr (tcb s u)" for u using ev t(8,10) tm by (cases "u = t") simp_all
    moreover have "\<not> (\<forall>t\<in>tasks s. \<not> wt s m t)" using w we by blast
    moreover have "owner s' m = t" "OSTCBList s' = OSTCBList s" "tcb s' = tcb s3" "ecb s' = ecb s3" "OSTCBPrio (tcb s' c) = base c"
      "t \<in> tasks s" "wt s m t" "OSTCBEventPtr (tcb s t) = m"
      using s'(1) OS_Sched_cur [OF cu] t l tc own(3) ww [of t m] m tm ev by (simp_all)
    moreover have "owner s3 k = owner s k" if "k \<noteq> m" for k using t(6) [OF that] l(4) by simp
    moreover have "\<forall>u\<in>tasks s. wt s m u \<longrightarrow> base t \<le> base u" using t(3) ww m l(5) by auto
    ultimately show ?thesis using True s'(2) by (simp add: c_def) blast
  qed
qed

section \<open>Delays and ticks\<close>

text \<open>One task leaves or enters the ready list; its priority and what it waits for are as before.\<close>

lemma core_ready:
  assumes ok: "core base M s" and t: "t \<in> tasks s" "enter b = enter (tcb s t)" "leave b = leave (tcb s t)" "tcb_ok b"
      "OSTCBPrio b = OSTCBPrio (tcb s t)" "OSTCBEventPtr b = OSTCBEventPtr (tcb s t)"
    and s': "tcb s' = (tcb s)(t := b)" "ecb s' = ecb s" "OSTCBPrioTbl s' = OSTCBPrioTbl s" "OSTCBList s' = OSTCBList s"
      "OSRdy s' = (if on then enter (tcb s t) (OSRdy s) else if off then leave (tcb s t) (OSRdy s) else OSRdy s)"
    and st: "task_ok M s' t" and idle: "base t = 63 \<Longrightarrow> on \<or> \<not> off"
  shows "core base M s'" "inherits base M s' = inherits base M s" "\<And>u. u \<in> tasks s \<Longrightarrow> rdy s' u = (if u = t then on \<or> \<not> off \<and> rdy s t else rdy s u)"
    "wt s' = wt s" "pr s' = pr s"
proof -
  have sh: "shape M s" using ok by (simp add: core_def)
  have b: "tcb_ok (tcb s t)" "pm_ok (OSRdy s)" using sh t(1) by (simp_all add: shape_def)
  show pr: "pr s' = pr s" by (intro ext) (simp add: pr_def s' t)
  then show wt: "wt s' = wt s" by (intro ext) (simp add: wt_def s')
  have r: "pm_ok (OSRdy s')" "prios (OSRdy s') = (if on then insert (pr s t) (prios (OSRdy s))
      else if off then prios (OSRdy s) - {pr s t} else prios (OSRdy s))"
    using enter_prios [OF b] leave_prios [OF b] b(2) by (simp_all add: s' pr_def)
  show rd: "rdy s' u = (if u = t then on \<or> \<not> off \<and> rdy s t else rdy s u)" if "u \<in> tasks s" for u
    using pr_inj [OF sh that t(1)] by (auto simp: rdy_def r pr)
  have prio: "OSTCBPrio (tcb s' u) = OSTCBPrio (tcb s u)" for u by (simp add: s' t)
  have "prios (OSRdy s') \<subseteq> pr s ` tasks s" using sh t(1) r(2) by (auto simp: shape_def)
  then have "shape M s'" using sh r(1) t(4) pr by (simp add: shape_def s')
  moreover have "bases base M s'" using ok prio by (simp add: core_def bases_def s'(2,4))
  moreover have "\<forall>k\<in>M. mutex_ok base s' k" using ok by (simp add: core_def mutex_ok_def s'(2,4))
  moreover have "\<forall>u\<in>tasks s'. task_ok M s' u"
  proof
    fix u assume "u \<in> tasks s'"
    then have u: "u \<in> tasks s" "task_ok M s u" using ok s' by (auto simp: core_def)
    show "task_ok M s' u"
    proof (cases "u = t")
      case False
      then have "tcb s' u = tcb s u" "rdy s' u = rdy s u" using rd [OF u(1)] by (simp_all add: s')
      then show ?thesis using u(2) by (simp add: task_ok_def task_free_def task_waits_def task_granted_def wt s'(2))
    qed (use st in simp)
  qed
  moreover have "\<exists>i\<in>tasks s'. base i = OS_TASK_IDLE_PRIO \<and> rdy s' i"
  proof -
    obtain i where i: "i \<in> tasks s" "base i = 63" "rdy s i" using ok by (auto simp: core_def)
    then show ?thesis using rd [OF i(1)] idle s'(4) by (intro bexI [of _ i]) auto
  qed
  ultimately show "core base M s'" using ok by (simp add: core_def s'(2))
  show "inherits base M s' = inherits base M s" by (simp add: inherits_def prio wt s'(2,4))
qed

lemma delay_ok:
  assumes ok: "kernel_ok base M s" and c: "OSTCBEventPtr (tcb s (OSTCBCur s)) = 0" "base (OSTCBCur s) \<noteq> 63"
  shows "kernel_ok base M (OSTimeDly ticks s) \<and> OSTCBList (OSTimeDly ticks s) = OSTCBList s \<and> ecb (OSTimeDly ticks s) = ecb s
    \<and> (\<forall>t. OSTCBEventPtr (tcb (OSTimeDly ticks s) t) = OSTCBEventPtr (tcb s t))"
proof (cases "ticks > 0")
  case False
  then show ?thesis using ok by (simp add: OSTimeDly_def)
next
  case True
  define c where "c = OSTCBCur s"
  have k: "core base M s" "inherits base M s" "cur_ok s" using ok by (simp_all add: kernel_ok_def)
  note cf = current_free [OF ok c(1), folded c_def]
  define s1 where "s1 = upd_tcb c (\<lambda>b. b\<lparr>OSTCBDly := ticks\<rparr>) (s\<lparr>OSRdy := leave (tcb s c) (OSRdy s)\<rparr>)"
  have e: "OSTimeDly ticks s = OS_Sched s1" using True k(3) by (simp add: OSTimeDly_def cur_ok_def s1_def Let_def c_def)
  have f: "tcb s1 = (tcb s)(c := (tcb s c)\<lparr>OSTCBDly := ticks\<rparr>)" "ecb s1 = ecb s" "OSTCBPrioTbl s1 = OSTCBPrioTbl s" "OSTCBList s1 = OSTCBList s"
    "OSRdy s1 = (if False then enter (tcb s c) (OSRdy s) else if True then leave (tcb s c) (OSRdy s) else OSRdy s)"
    by (simp_all add: s1_def)
  have b: "tcb_ok (tcb s c)" "pm_ok (OSRdy s)" using k(1) cf(1) by (simp_all add: core_def shape_def)
  have "\<not> rdy s1 c" using leave_prios [OF b] by (simp add: rdy_def pr_def f)
  moreover have "wt s1 k c = wt s k c" for k by (simp add: wt_def pr_def f)
  ultimately have st: "task_ok M s1 c" using cf(3) by (simp add: task_ok_def task_free_def f)
  have b': "tcb_ok ((tcb s c)\<lparr>OSTCBDly := ticks\<rparr>)" using b(1) by (simp add: tcb_ok_def)
  have idle: "base c = 63 \<Longrightarrow> False \<or> \<not> True" using c(2) by (simp add: c_def)
  have r: "core base M s1" "inherits base M s1"
    by (rule core_ready(1) [OF k(1) cf(1) _ _ b' _ _ f st idle]; simp)
      (subst core_ready(2) [OF k(1) cf(1) _ _ b' _ _ f st idle]; simp add: k(2))
  have "OSTCBCur s1 = c" "OSPrioCur s1 = OSPrioCur s" "OSIntNesting s1 = OSIntNesting s" "OSLockNesting s1 = OSLockNesting s"
    "OSRunning s1 = OSRunning s" by (simp_all add: s1_def c_def)
  then have cu: "cur_ok s1" using k(3) cf(1) by (simp add: cur_ok_def f(1,4) c_def)
  show ?thesis using ctx_sw_ok(1) [OF r cu] OS_Sched_cur [OF cu] by (simp add: e f)
qed

definition ticked :: "os_tcb \<Rightarrow> os_tcb" where
  "ticked b =
     (if OSTCBDly b = 0 then b
      else if OSTCBDly b - 1 \<noteq> 0 then b\<lparr>OSTCBDly := OSTCBDly b - 1\<rparr>
      else if OSTCBStat b AND OS_STAT_PEND_ANY \<noteq> 0
        then b\<lparr>OSTCBDly := 0, OSTCBStat := OSTCBStat b AND NOT OS_STAT_PEND_ANY, OSTCBStatPend := OS_STAT_PEND_TO\<rparr>
        else b\<lparr>OSTCBDly := 0, OSTCBStatPend := OS_STAT_PEND_OK\<rparr>)"

lemma ticked_fields [simp]:
  "OSTCBPrio (ticked b) = OSTCBPrio b" "OSTCBEventPtr (ticked b) = OSTCBEventPtr b" "enter (ticked b) = enter b" "leave (ticked b) = leave b"
  "tcb_ok (ticked b) = tcb_ok b"
  by (simp_all add: ticked_def tcb_ok_def)

definition same_but_ready :: "kernel \<Rightarrow> kernel \<Rightarrow> bool" where
  "same_but_ready s s' \<longleftrightarrow> ecb s' = ecb s \<and> OSTCBPrioTbl s' = OSTCBPrioTbl s \<and> OSTCBList s' = OSTCBList s \<and> OSTCBCur s' = OSTCBCur s
     \<and> OSPrioCur s' = OSPrioCur s \<and> OSIntNesting s' = OSIntNesting s \<and> OSLockNesting s' = OSLockNesting s \<and> OSRunning s' = OSRunning s
     \<and> (\<forall>t. OSTCBPrio (tcb s' t) = OSTCBPrio (tcb s t) \<and> OSTCBEventPtr (tcb s' t) = OSTCBEventPtr (tcb s t))"

lemma tick_task_ok:
  assumes ok: "core base M s" and t: "t \<in> tasks s"
  shows "core base M (tick_task t s) \<and> inherits base M (tick_task t s) = inherits base M s \<and> same_but_ready s (tick_task t s)"
proof (cases "OSTCBDly (tcb s t) = 0")
  case True
  then show ?thesis using ok by (simp add: tick_task_def same_but_ready_def)
next
  case d: False
  define s' where "s' = tick_task t s"
  define on where "on \<longleftrightarrow> OSTCBDly (tcb s t) - 1 = 0"
  have tk: "task_ok M s t" "tcb_ok (tcb s t)" "pm_ok (OSRdy s)" using ok t by (simp_all add: core_def shape_def)
  then have state: "task_free M s t \<and> \<not> rdy s t \<and> OSTCBStat (tcb s t) = 0
      \<or> task_waits M s t \<and> \<not> rdy s t \<and> OSTCBStat (tcb s t) = OS_STAT_MUTEX \<and> OSTCBStatPend (tcb s t) = 0"
    using d by (auto simp: task_ok_def task_free_def task_waits_def task_granted_def)
  have f: "tcb s' = (tcb s)(t := ticked (tcb s t))" "ecb s' = ecb s" "OSTCBPrioTbl s' = OSTCBPrioTbl s" "OSTCBList s' = OSTCBList s"
    "OSRdy s' = (if on then enter (tcb s t) (OSRdy s) else if False then leave (tcb s t) (OSRdy s) else OSRdy s)"
    and g: "OSTCBCur s' = OSTCBCur s" "OSPrioCur s' = OSPrioCur s" "OSIntNesting s' = OSIntNesting s" "OSLockNesting s' = OSLockNesting s"
      "OSRunning s' = OSRunning s"
    using d state by (auto simp: s'_def tick_task_def Let_def ticked_def on_def)
  have r: "rdy s' t \<longleftrightarrow> on" using enter_prios [OF tk(2,3)] state by (auto simp: rdy_def pr_def f)
  have w: "wt s' k t = wt s k t" for k by (simp add: wt_def pr_def f)
  have st: "task_ok M s' t"
    using state d r w by (auto simp: task_ok_def task_free_def task_waits_def f ticked_def on_def)
  have tb: "tcb_ok (ticked (tcb s t))" using tk(2) by simp
  have "core base M s'" "inherits base M s' = inherits base M s"
    by (rule core_ready(1) [OF ok t _ _ tb _ _ f st]; simp) (rule core_ready(2) [OF ok t _ _ tb _ _ f st]; simp)
  then show ?thesis using f g by (simp add: same_but_ready_def flip: s'_def)
qed

lemma tick_tasks_ok:
  "core base M s \<Longrightarrow> set ts \<subseteq> tasks s \<Longrightarrow>
    core base M (tick_tasks ts s) \<and> inherits base M (tick_tasks ts s) = inherits base M s \<and> same_but_ready s (tick_tasks ts s)"
proof (induction ts s rule: tick_tasks.induct)
  case (1 s)
  then show ?case by (simp add: same_but_ready_def)
next
  case (2 t ts s)
  show ?case
  proof (cases "OSTCBPrio (tcb s t) = 63")
    case True
    then show ?thesis using 2(2) by (simp add: same_but_ready_def)
  next
    case False
    have k: "core base M (tick_task t s)" "inherits base M (tick_task t s) = inherits base M s" "same_but_ready s (tick_task t s)"
      using tick_task_ok [OF 2(2)] 2(3) by simp_all
    then have "set ts \<subseteq> tasks (tick_task t s)" using 2(3) by (simp add: same_but_ready_def)
    then show ?thesis using 2(1) [OF False k(1)] k(2,3) False by (simp add: same_but_ready_def)
  qed
qed

lemma tick_ok:
  assumes ok: "kernel_ok base M s"
  shows "kernel_ok base M (OS_CPU_SysTickHandler s) \<and> OSTCBList (OS_CPU_SysTickHandler s) = OSTCBList s \<and> ecb (OS_CPU_SysTickHandler s) = ecb s
    \<and> (\<forall>t. OSTCBEventPtr (tcb (OS_CPU_SysTickHandler s) t) = OSTCBEventPtr (tcb s t) \<and> OSTCBPrio (tcb (OS_CPU_SysTickHandler s) t) = OSTCBPrio (tcb s t))
    \<and> OSTCBPrio (tcb (OS_CPU_SysTickHandler s) (OSTCBCur (OS_CPU_SysTickHandler s))) = pm_high (OSRdy (OS_CPU_SysTickHandler s))"
proof -
  have k: "core base M s" "inherits base M s" "cur_ok s" using ok by (simp_all add: kernel_ok_def)
  define s1 where "s1 = OSTimeTick (s\<lparr>OSIntNesting := 1\<rparr>)"
  have s1: "core base M s1 \<and> inherits base M s1 \<and> same_but_ready (s\<lparr>OSIntNesting := 1\<rparr>) s1"
  proof -
    have t: "core base M (tick_tasks (OSTCBList s) x) \<and> inherits base M (tick_tasks (OSTCBList s) x) \<and> same_but_ready x (tick_tasks (OSTCBList s) x)"
      if "tcb x = tcb s" "ecb x = ecb s" "OSTCBPrioTbl x = OSTCBPrioTbl s" "OSTCBList x = OSTCBList s" "OSRdy x = OSRdy s" for x
      using tick_tasks_ok [of base M x "OSTCBList s"] core_cong(1,2) [OF that] k(1,2) that(4) by simp
    have run: "OSRunning s" using k(3) by (simp add: cur_ok_def)
    let ?x = "s\<lparr>OSIntNesting := 1, OSTime := OSTime s + 1\<rparr>"
    show ?thesis
    proof (cases "OSTickStepState s")
      case OS_TICK_STEP_DIS
      then show ?thesis using t [of ?x] run by (simp add: s1_def OSTimeTick_def same_but_ready_def)
    next
      case OS_TICK_STEP_WAIT
      then show ?thesis
        using k(1,2) core_cong(1,2) [of ?x s base M] run by (simp add: s1_def OSTimeTick_def same_but_ready_def)
    next
      case OS_TICK_STEP_ONCE
      then show ?thesis using t [of "?x\<lparr>OSTickStepState := OS_TICK_STEP_WAIT\<rparr>"] run
        by (simp add: s1_def OSTimeTick_def same_but_ready_def)
    qed
  qed
  define s2 where "s2 = s1\<lparr>OSIntNesting := 0\<rparr>"
  have c: "core base M s2" "inherits base M s2" using s1 core_cong(1,2) [of s2 s1 base M] by (simp_all add: s2_def)
  have cu: "cur_ok s2" using s1 k(3) by (simp add: same_but_ready_def cur_ok_def s2_def)
  have e: "OS_CPU_SysTickHandler s = ctx_sw s2"
    using s1 k(3) by (simp add: OS_CPU_SysTickHandler_def OSIntExit_def Let_def same_but_ready_def cur_ok_def s1_def [symmetric] s2_def)
  show ?thesis using ctx_sw_ok [OF c cu] s1 by (simp add: e) (simp add: s2_def same_but_ready_def)
qed

section \<open>Runs\<close>

text \<open>
  The tasks of a run use the mutexes as the kernel asks for: a task that waits has nothing else to do
  than to see how its wait ended, and a task takes no second mutex, nor delays itself or waits when it
  is the idle task. The set records who is in the section of which mutex: it grows when a call has
  returned success, and shrinks when a post has.
\<close>

type_synonym run_state = "kernel \<times> (nat \<times> nat) set"

definition idle_task :: "(nat \<Rightarrow> u8) \<Rightarrow> nat \<Rightarrow> bool" where
  "idle_task base t \<longleftrightarrow> base t = OS_TASK_IDLE_PRIO"

definition granted :: "os_err \<Rightarrow> bool" where
  "granted e \<longleftrightarrow> e = OS_ERR_NONE \<or> e = OS_ERR_PCP_LOWER"

definition in_no_section :: "run_state \<Rightarrow> bool" where
  "in_no_section x \<longleftrightarrow> (\<forall>m. (OSTCBCur (fst x), m) \<notin> snd x)"

definition call_ends :: "run_state \<Rightarrow> bool" where
  "call_ends x \<longleftrightarrow> OSTCBEventPtr (tcb (fst x) (OSTCBCur (fst x))) = 0"

inductive kstep :: "(nat \<Rightarrow> u8) \<Rightarrow> nat set \<Rightarrow> run_state \<Rightarrow> run_state \<Rightarrow> bool" for base :: "nat \<Rightarrow> u8" and M :: "nat set" where
  pend: "call_ends (s, H) \<Longrightarrow> in_no_section (s, H) \<Longrightarrow> \<not> idle_task base (OSTCBCur s) \<Longrightarrow> m \<in> M \<Longrightarrow> OSMutexPend m timeout s = (r, s') \<Longrightarrow>
    kstep base M (s, H) (s', if \<exists>e. r = Some e \<and> granted e then insert (OSTCBCur s, m) H else H)"
| resume: "\<not> call_ends (s, H) \<Longrightarrow> m = OSTCBEventPtr (tcb s (OSTCBCur s)) \<Longrightarrow> OSMutexPend_resume m s = (e, s') \<Longrightarrow>
    kstep base M (s, H) (s', if granted e then insert (OSTCBCur s, m) H else H)"
| accept: "call_ends (s, H) \<Longrightarrow> in_no_section (s, H) \<Longrightarrow> m \<in> M \<Longrightarrow> OSMutexAccept m s = ((got, e), s') \<Longrightarrow>
    kstep base M (s, H) (s', if got then insert (OSTCBCur s, m) H else H)"
| post: "call_ends (s, H) \<Longrightarrow> m \<in> M \<Longrightarrow> OSMutexPost m s = (e, s') \<Longrightarrow>
    kstep base M (s, H) (s', if granted e then H - {(OSTCBCur s, m)} else H)"
| delay: "call_ends (s, H) \<Longrightarrow> \<not> idle_task base (OSTCBCur s) \<Longrightarrow> kstep base M (s, H) (OSTimeDly ticks s, H)"
| tick: "kstep base M (s, H) (OS_CPU_SysTickHandler s, H)"

text \<open>At the start the kernel runs, every task is ready and every mutex is free.\<close>

definition started :: "(nat \<Rightarrow> u8) \<Rightarrow> nat set \<Rightarrow> kernel \<Rightarrow> bool" where
  "started base M s \<longleftrightarrow> kernel_ok base M s \<and> (\<forall>m\<in>M. owner s m = 0) \<and> (\<forall>t\<in>tasks s. OSTCBEventPtr (tcb s t) = 0)"

definition runs_to :: "(nat \<Rightarrow> u8) \<Rightarrow> nat set \<Rightarrow> kernel \<Rightarrow> run_state \<Rightarrow> bool" where
  "runs_to base M s0 x \<longleftrightarrow> started base M s0 \<and> (kstep base M)\<^sup>*\<^sup>* (s0, {}) x"

definition held_ok :: "nat set \<Rightarrow> run_state \<Rightarrow> bool" where
  "held_ok M x \<longleftrightarrow>
     (\<forall>(t, m)\<in>snd x. m \<in> M \<and> t \<in> tasks (fst x) \<and> owner (fst x) m = t \<and> OSTCBEventPtr (tcb (fst x) t) = 0)
   \<and> (\<forall>m\<in>M. owner (fst x) m \<noteq> 0 \<longrightarrow> (owner (fst x) m, m) \<in> snd x \<or> OSTCBEventPtr (tcb (fst x) (owner (fst x) m)) = m)"

lemma held_D:
  assumes "held_ok M (s, H)"
  shows "(t, k) \<in> H \<Longrightarrow> k \<in> M \<and> t \<in> tasks s \<and> owner s k = t \<and> OSTCBEventPtr (tcb s t) = 0"
    "k \<in> M \<Longrightarrow> owner s k \<noteq> 0 \<Longrightarrow> (owner s k, k) \<in> H \<or> OSTCBEventPtr (tcb s (owner s k)) = k"
  using assms by (auto simp: held_ok_def)

lemma held_I:
  assumes "\<And>t k. (t, k) \<in> H \<Longrightarrow> k \<in> M \<and> t \<in> tasks s \<and> owner s k = t \<and> OSTCBEventPtr (tcb s t) = 0"
    "\<And>k. k \<in> M \<Longrightarrow> owner s k \<noteq> 0 \<Longrightarrow> (owner s k, k) \<in> H \<or> OSTCBEventPtr (tcb s (owner s k)) = k"
  shows "held_ok M (s, H)"
  using assms by (auto simp: held_ok_def)

lemma owns_none:
  assumes ok: "kernel_ok base M s" "held_ok M (s, H)" and c: "call_ends (s, H)" "in_no_section (s, H)"
  shows "\<forall>k\<in>M. owner s k \<noteq> OSTCBCur s"
proof
  fix k assume k: "k \<in> M"
  have z: "0 \<notin> M" "OSTCBCur s \<noteq> 0" using ok(1) current_free(2) [OF ok(1)] c(1) by (auto simp: kernel_ok_def core_def shape_def call_ends_def)
  show "owner s k \<noteq> OSTCBCur s"
  proof
    assume o: "owner s k = OSTCBCur s"
    then have "(OSTCBCur s, k) \<in> H \<or> OSTCBEventPtr (tcb s (OSTCBCur s)) = k"
      using held_D(2) [OF ok(2) k] z(2) by simp
    then show False using c z(1) k by (auto simp: call_ends_def in_no_section_def)
  qed
qed

text \<open>A call that leaves the owners and the waits of all but the current task alone keeps the books.\<close>

lemma held_same:
  assumes "held_ok M (s, H)" "\<forall>k\<in>M. owner s' k = owner s k" "\<forall>t. OSTCBEventPtr (tcb s' t) = OSTCBEventPtr (tcb s t)"
    "OSTCBList s' = OSTCBList s"
  shows "held_ok M (s', H)"
  by (rule held_I) (use assms(2-4) held_D [OF assms(1)] in auto)

lemma held_taken:
  assumes "held_ok M (s, H)" "m \<in> M" "owner s m = 0" "c \<in> tasks s" "OSTCBEventPtr (tcb s c) = 0" "0 \<notin> tasks s"
    "\<forall>k. owner s' k = (if k = m then c else owner s k)" "tcb s' = tcb s" "OSTCBList s' = OSTCBList s"
  shows "held_ok M (s', insert (c, m) H)"
proof (rule held_I)
  fix t k assume "(t, k) \<in> insert (c, m) H"
  then show "k \<in> M \<and> t \<in> tasks s' \<and> owner s' k = t \<and> OSTCBEventPtr (tcb s' t) = 0"
    using held_D(1) [OF assms(1), of t k] assms(2-9) by auto
next
  fix k assume "k \<in> M" "owner s' k \<noteq> 0"
  then show "(owner s' k, k) \<in> insert (c, m) H \<or> OSTCBEventPtr (tcb s' (owner s' k)) = k"
    using held_D(2) [OF assms(1), of k] assms(7,8) by (cases "k = m") auto
qed

lemma held_waits:
  assumes "held_ok M (s, H)" "\<forall>k\<in>M. owner s k \<noteq> c" "\<forall>k. owner s' k = owner s k" "OSTCBList s' = OSTCBList s"
    "\<forall>t. OSTCBEventPtr (tcb s' t) = (if t = c then m else OSTCBEventPtr (tcb s t))"
  shows "held_ok M (s', H)"
proof (rule held_I)
  fix t k assume "(t, k) \<in> H"
  then show "k \<in> M \<and> t \<in> tasks s' \<and> owner s' k = t \<and> OSTCBEventPtr (tcb s' t) = 0"
    using held_D(1) [OF assms(1), of t k] assms(2-5) by auto
next
  fix k assume "k \<in> M" "owner s' k \<noteq> 0"
  then show "(owner s' k, k) \<in> H \<or> OSTCBEventPtr (tcb s' (owner s' k)) = k"
    using held_D(2) [OF assms(1), of k] assms(2,3,5) by auto
qed

lemma held_given_back:
  assumes "held_ok M (s, H)" "\<forall>t. OSTCBEventPtr (tcb s' t) = OSTCBEventPtr (tcb s t)" "\<forall>k. k \<noteq> m \<longrightarrow> owner s' k = owner s k"
    "OSTCBList s' = OSTCBList s" "owner s m = c" "owner s' m = 0 \<or> OSTCBEventPtr (tcb s (owner s' m)) = m"
  shows "held_ok M (s', H - {(c, m)})"
proof (rule held_I)
  fix t k assume t: "(t, k) \<in> H - {(c, m)}"
  then have h: "k \<in> M" "t \<in> tasks s" "owner s k = t" "OSTCBEventPtr (tcb s t) = 0" using held_D(1) [OF assms(1), of t k] by auto
  then have "k \<noteq> m" using assms(5) t by auto
  then show "k \<in> M \<and> t \<in> tasks s' \<and> owner s' k = t \<and> OSTCBEventPtr (tcb s' t) = 0" using h assms(2-4) by simp
next
  fix k assume k: "k \<in> M" "owner s' k \<noteq> 0"
  show "(owner s' k, k) \<in> H - {(c, m)} \<or> OSTCBEventPtr (tcb s' (owner s' k)) = k"
  proof (cases "k = m")
    case True
    then show ?thesis using k assms(2,6) by simp
  next
    case False
    then show ?thesis using held_D(2) [OF assms(1) k(1)] k(2) assms(2,3) by simp
  qed
qed

lemma held_resumed:
  assumes ok: "kernel_ok base M s" "held_ok M (s, H)" and ev: "OSTCBEventPtr (tcb s (OSTCBCur s)) = m" "m \<noteq> 0"
    and r: "OSMutexPend_resume m s = (err, s')"
  shows "held_ok M (s', if granted err then insert (OSTCBCur s, m) H else H)"
proof -
  note rs = resume_core [OF ok(1) ev r]
  have c: "OSTCBCur s \<in> tasks s" using ok(1) by (simp add: kernel_ok_def cur_ok_def)
  have o: "owner s' k = owner s k" for k by (subst rs(3)) simp
  have e: "OSTCBEventPtr (tcb s' t) = (if t = OSTCBCur s then 0 else OSTCBEventPtr (tcb s t))" for t
    using rs(2) rs(6) by (auto simp: task_free_def)
  have g: "if granted err then m \<in> M \<and> owner s m = OSTCBCur s else \<forall>k\<in>M. owner s k \<noteq> OSTCBCur s"
    using rs(7) by (auto simp: granted_def)
  show ?thesis
  proof (rule held_I)
    fix t k assume t: "(t, k) \<in> (if granted err then insert (OSTCBCur s, m) H else H)"
    show "k \<in> M \<and> t \<in> tasks s' \<and> owner s' k = t \<and> OSTCBEventPtr (tcb s' t) = 0"
    proof (cases "(t, k) \<in> H")
      case True
      then show ?thesis using held_D(1) [OF ok(2) True] o e rs(5) by simp
    next
      case False
      then show ?thesis using t g c o e rs(5) by (auto split: if_splits)
    qed
  next
    fix k assume k: "k \<in> M" "owner s' k \<noteq> 0"
    show "(owner s' k, k) \<in> (if granted err then insert (OSTCBCur s, m) H else H) \<or> OSTCBEventPtr (tcb s' (owner s' k)) = k"
      using held_D(2) [OF ok(2) k(1)] k g o e ev(1) by (cases "owner s k = OSTCBCur s") (auto split: if_splits)
  qed
qed

lemma kstep_ok:
  assumes "kstep base M x y" "kernel_ok base M (fst x)" "held_ok M x"
  shows "kernel_ok base M (fst y) \<and> held_ok M y \<and> OSTCBList (fst y) = OSTCBList (fst x)"
  using assms
proof (induction rule: kstep.induct)
  case (pend s H m timeout r s')
  have k: "kernel_ok base M s" "held_ok M (s, H)" using pend by simp_all
  have ev: "OSTCBEventPtr (tcb s (OSTCBCur s)) = 0" "base (OSTCBCur s) \<noteq> 63" using pend(1,3) by (simp_all add: call_ends_def idle_task_def)
  note own = owns_none [OF k pend(1,2)]
  note p = pend_ok [OF k(1) pend(4) ev(1) own ev(2) pend(5)]
  have t: "OSTCBCur s \<in> tasks s" "0 \<notin> tasks s" using k(1) by (simp_all add: kernel_ok_def cur_ok_def core_def shape_def)
  show ?case
  proof (cases "owner s m = 0")
    case True
    have "held_ok M (s', insert (OSTCBCur s, m) H)"
      by (rule held_taken [OF k(2) pend(4) True t(1) ev(1) t(2)]) (use p True in auto)
    then show ?thesis using p True by (auto simp: granted_def)
  next
    case False
    have "held_ok M (s', H)" by (rule held_waits [OF k(2) own]) (use p False in auto)
    then show ?thesis using p False by simp
  qed
next
  case (resume s H m e s')
  have k: "kernel_ok base M s" "held_ok M (s, H)" using resume by simp_all
  have ev: "OSTCBEventPtr (tcb s (OSTCBCur s)) = m" "m \<noteq> 0" using resume(1,2) by (simp_all add: call_ends_def)
  show ?case using resume_core(1,5) [OF k(1) ev resume(3)] held_resumed [OF k ev resume(3)] by simp
next
  case (accept s H m got e s')
  have k: "kernel_ok base M s" "held_ok M (s, H)" using accept by simp_all
  have ev: "OSTCBEventPtr (tcb s (OSTCBCur s)) = 0" using accept(1) by (simp add: call_ends_def)
  note p = accept_ok [OF k(1) accept(3) ev owns_none [OF k accept(1,2)] accept(4)]
  have t: "OSTCBCur s \<in> tasks s" "0 \<notin> tasks s" using k(1) by (simp_all add: kernel_ok_def cur_ok_def core_def shape_def)
  show ?case
  proof (cases "owner s m = 0")
    case True
    have "held_ok M (s', insert (OSTCBCur s, m) H)"
      by (rule held_taken [OF k(2) accept(3) True t(1) ev t(2)]) (use p True in auto)
    then show ?thesis using p True by simp
  next
    case False
    have "held_ok M (s', H)" by (rule held_same [OF k(2)]) (use p False in auto)
    then show ?thesis using p False by simp
  qed
next
  case (post s H m e s')
  have k: "kernel_ok base M s" "held_ok M (s, H)" using post by simp_all
  have ev: "OSTCBEventPtr (tcb s (OSTCBCur s)) = 0" using post(1) by (simp add: call_ends_def)
  note p = post_ok [OF k(1) post(2) ev post(3)]
  show ?case
  proof (cases "owner s m = OSTCBCur s")
    case True
    have "held_ok M (s', H - {(OSTCBCur s, m)})"
      by (rule held_given_back [OF k(2) _ _ _ True]) (use p True in \<open>auto split: if_splits\<close>)
    moreover have "granted e" using post(3) post_eq [OF k(1) post(2) True] by (auto simp: granted_def split: if_splits prod.splits)
    ultimately show ?thesis using p by simp
  next
    case False
    then show ?thesis using p k by (auto simp: granted_def)
  qed
next
  case (delay s H ticks)
  have k: "kernel_ok base M s" "held_ok M (s, H)" using delay by simp_all
  have ev: "OSTCBEventPtr (tcb s (OSTCBCur s)) = 0" "base (OSTCBCur s) \<noteq> 63" using delay(1,2) by (simp_all add: call_ends_def idle_task_def)
  note p = delay_ok [OF k(1) ev, of ticks]
  have "held_ok M (OSTimeDly ticks s, H)" by (rule held_same [OF k(2)]) (use p in auto)
  then show ?case using p by simp
next
  case (tick s H)
  have k: "kernel_ok base M s" "held_ok M (s, H)" using tick by simp_all
  note p = tick_ok [OF k(1)]
  have "held_ok M (OS_CPU_SysTickHandler s, H)" by (rule held_same [OF k(2)]) (use p in auto)
  then show ?case using p by simp
qed

lemma runs_ok:
  assumes "runs_to base M s0 x"
  shows "kernel_ok base M (fst x)" "held_ok M x" "OSTCBList (fst x) = OSTCBList s0"
proof -
  have "(kstep base M)\<^sup>*\<^sup>* (s0, {}) x" "started base M s0" using assms by (simp_all add: runs_to_def)
  then have "kernel_ok base M (fst x) \<and> held_ok M x \<and> OSTCBList (fst x) = OSTCBList s0"
  proof (induction rule: rtranclp_induct)
    case base
    then show ?case by (simp add: started_def held_ok_def)
  next
    case (step y z)
    then show ?case using kstep_ok [OF step(2)] by simp
  qed
  then show "kernel_ok base M (fst x)" "held_ok M x" "OSTCBList (fst x) = OSTCBList s0" by simp_all
qed

end
