(* ===== verification/Os_Kernel.thy ===== *)
theory Os_Kernel
  imports Os_Run
begin

text \<open>
  What the kernel promises to tasks that share mutexes: one task at a time, the waiting task of
  highest priority next, the ceiling for an owner that holds up a higher one, and sets of priorities
  that are sets. A small system of four tasks and a mutex, made by the calls that create them, shows
  the premises to hold.
\<close>

section \<open>A small system\<close>

lemma prios_code [code]: "prios m = set (filter (\<lambda>p. bit (pm_tbl m ! (p div 8)) (p mod 8)) [0..<64])"
  by (auto simp: prios_def)

definition blank_tcb :: os_tcb where
  "blank_tcb = \<lparr>OSTCBPrio = 0, OSTCBX = 0, OSTCBY = 0, OSTCBBitX = 0, OSTCBBitY = 0, OSTCBStat = 0, OSTCBStatPend = 0, OSTCBDly = 0,
     OSTCBEventPtr = 0, OSTCBMessage = 0\<rparr>"

definition blank_ecb :: os_event where
  "blank_ecb = \<lparr>OSEventType = 0, OSEventPtr = 0, OSEventCnt = 0, OSEventWait = pm_empty\<rparr>"

definition blank_kernel :: kernel where
  "blank_kernel = OS_InitRdyList \<lparr>tcb = (\<lambda>_. blank_tcb), ecb = (\<lambda>_. blank_ecb), OSTCBPrioTbl = replicate 64 0, OSTCBList = [],
     OSTCBFreeList = [2, 3, 4, 5, 6], OSEventFreeList = [1, 2, 3], OSRdy = pm_empty, OSTCBCur = 0, OSTCBHighRdy = 0, OSPrioCur = 0,
     OSPrioHighRdy = 0, OSIntNesting = 0, OSLockNesting = 0, OSRunning = False, OSTime = 0, OSTickStepState = OS_TICK_STEP_DIS\<rparr>"

definition made :: "((nat \<times> os_err) \<times> kernel) outcome \<Rightarrow> kernel" where
  "made r = (case r of Ret (_, s) \<Rightarrow> s | _ \<Rightarrow> blank_kernel)"

text \<open>The idle task is number 2; 3, 4 and 5 have priorities 10, 20 and 30; the mutex has ceiling 5.\<close>

definition small_system :: kernel where
  "small_system = OSStart (made (OSMutexCreate 5 (snd (OS_TCBInit 30 (snd (OS_TCBInit 20 (snd (OS_TCBInit 10
     (snd (OS_TCBInit 63 blank_kernel))))))))))"

definition small_base :: "nat \<Rightarrow> u8" where
  "small_base t = (if t = 2 then 63 else if t = 3 then 10 else if t = 4 then 20 else 30)"

lemma small_started: "started small_base {1} small_system"
  by code_simp

text \<open>
  Tasks 3 and 4 sleep, task 5 takes the mutex; task 3 wakes up, takes the processor and has to wait,
  so 5 runs again.
\<close>

definition sleeping :: kernel where "sleeping = OSTimeDly 100 (OSTimeDly 1 small_system)"
definition taken :: kernel where "taken = snd (OSMutexPend 1 0 sleeping)"
definition woken :: kernel where "woken = OS_CPU_SysTickHandler taken"
definition contended :: kernel where "contended = snd (OSMutexPend 1 0 woken)"

lemma small_runs:
  "runs_to small_base {1} small_system (taken, {(5, 1)})" "runs_to small_base {1} small_system (woken, {(5, 1)})"
  "runs_to small_base {1} small_system (contended, {(5, 1)})"
proof -
  let ?step = "kstep small_base {1}" and ?s1 = "OSTimeDly 1 small_system"
  have "?step (small_system, {}) (?s1, {})" by (rule kstep.delay) code_simp+
  moreover have "?step (?s1, {}) (sleeping, {})" unfolding sleeping_def by (rule kstep.delay) code_simp+
  moreover have "?step (sleeping, {}) (taken, {(5, 1)})"
  proof -
    have e: "OSMutexPend 1 0 sleeping = (fst (OSMutexPend 1 0 sleeping), taken)" by (simp add: taken_def)
    have "fst (OSMutexPend 1 0 sleeping) = Some OS_ERR_NONE" "OSTCBCur sleeping = 5" by code_simp+
    moreover have "call_ends (sleeping, {})" "\<not> idle_task small_base (OSTCBCur sleeping)" by code_simp+
    ultimately show ?thesis using kstep.pend [OF _ _ _ _ e, of "{}" small_base "{1}"] by (simp add: in_no_section_def granted_def)
  qed
  ultimately have t: "?step\<^sup>*\<^sup>* (small_system, {}) (taken, {(5, 1)})" by (meson rtranclp.rtrancl_into_rtrancl rtranclp.rtrancl_refl)
  then show "runs_to small_base {1} small_system (taken, {(5, 1)})" using small_started by (simp add: runs_to_def)
  have "?step (taken, {(5, 1)}) (woken, {(5, 1)})" unfolding woken_def by (rule kstep.tick)
  with t have w: "?step\<^sup>*\<^sup>* (small_system, {}) (woken, {(5, 1)})" by (meson rtranclp.rtrancl_into_rtrancl)
  then show "runs_to small_base {1} small_system (woken, {(5, 1)})" using small_started by (simp add: runs_to_def)
  have "?step (woken, {(5, 1)}) (contended, {(5, 1)})"
  proof -
    have e: "OSMutexPend 1 0 woken = (fst (OSMutexPend 1 0 woken), contended)" by (simp add: contended_def)
    have "fst (OSMutexPend 1 0 woken) = None" "OSTCBCur woken = 3" by code_simp+
    moreover have "call_ends (woken, {(5, 1)})" "\<not> idle_task small_base (OSTCBCur woken)" by code_simp+
    ultimately show ?thesis using kstep.pend [OF _ _ _ _ e, of "{(5, 1)}" small_base "{1}"] by (simp add: in_no_section_def)
  qed
  with w have "?step\<^sup>*\<^sup>* (small_system, {}) (contended, {(5, 1)})" by (meson rtranclp.rtrancl_into_rtrancl)
  then show "runs_to small_base {1} small_system (contended, {(5, 1)})" using small_started by (simp add: runs_to_def)
qed

section \<open>Mutual exclusion\<close>

text \<open>
  C10: However tasks, delays and ticks interleave, at most one task is in the section that a mutex
  guards: two tasks whose calls have both returned success and that have not posted are the same, and it
  is the one the mutex has for its owner.
\<close>
theorem mutex_exclusive:
  assumes "runs_to base M s0 (s, H)" "(t, m) \<in> H" "(u, m) \<in> H"
  shows "t = u \<and> OSEventPtr (ecb s m) = t \<and> mutex_low (ecb s m) = base t"
proof -
  note k = runs_ok [OF assms(1), simplified]
  have o: "owner s m = t" "owner s m = u" "m \<in> M" "t \<in> tasks s" using held_D(1) [OF k(2)] assms(2,3) by blast+
  have c: "core base M s" using k(1) by (simp add: kernel_ok_def)
  have "owner s m \<noteq> 0" using o(1,4) task_nonzero [OF c] by auto
  then show ?thesis using owner_state(2) [OF c o(3)] o(1,2) by auto
qed

theorem mutex_exclusive_witness:
  "runs_to small_base {1} small_system (contended, {(5, 1)}) \<and> OSEventPtr (ecb contended 1) = 5 \<and> mutex_low (ecb contended 1) = 30"
proof -
  have "(5 :: nat, 1 :: nat) \<in> {(5, 1)}" by simp
  from mutex_exclusive [OF small_runs(3) this this] show ?thesis using small_runs(3) by (simp add: small_base_def)
qed

section \<open>Handing over\<close>

text \<open>
  C11: Only the owner can post a mutex, anybody else gets an error and changes nothing. The owner falls back
  to the priority it was created with. If nobody waits the mutex is free; otherwise it belongs to the waiting
  task of highest priority, and the task that runs is the ready one of highest priority.
\<close>
theorem mutex_handed_over:
  assumes "runs_to base M s0 (s, H)" "m \<in> M" "OSTCBEventPtr (tcb s (OSTCBCur s)) = 0" "OSMutexPost m s = (e, s')"
  shows "(OSEventPtr (ecb s m) \<noteq> OSTCBCur s \<longrightarrow> e = OS_ERR_NOT_MUTEX_OWNER \<and> s' = s)
    \<and> (OSEventPtr (ecb s m) = OSTCBCur s \<longrightarrow> e \<noteq> OS_ERR_NOT_MUTEX_OWNER \<and> OSTCBPrio (tcb s' (OSTCBCur s)) = base (OSTCBCur s)
      \<and> ((\<forall>t\<in>set (OSTCBList s). \<not> wt s m t) \<longrightarrow> OSEventPtr (ecb s' m) = 0)
      \<and> (\<forall>t\<in>set (OSTCBList s). wt s m t \<longrightarrow> OSEventPtr (ecb s' m) \<in> set (OSTCBList s) \<and> wt s m (OSEventPtr (ecb s' m))
            \<and> base (OSEventPtr (ecb s' m)) \<le> base t \<and> unat (OSTCBPrio (tcb s' (OSTCBCur s'))) = Min (prios (OSRdy s'))))"
proof -
  note k = runs_ok [OF assms(1), simplified]
  note p = post_ok [OF k(1) assms(2-4)]
  have "core base M s'" using p by (simp add: kernel_ok_def)
  then have "pm_ok (OSRdy s')" "prios (OSRdy s') \<noteq> {}" by (auto simp: core_def shape_def rdy_def)
  then have "unat (pm_high (OSRdy s')) = Min (prios (OSRdy s'))" by (rule pm_high_Min(1))
  then show ?thesis
    using p by (cases "\<forall>t\<in>tasks s. \<not> wt s m t"; cases "owner s m = OSTCBCur s") (simp_all, blast?)
qed

theorem mutex_handed_over_witness:
  "OSTCBCur contended = 5 \<and> OSTCBPrio (tcb contended 5) = 5 \<and> (\<exists>e s'. OSMutexPost 1 contended = (e, s') \<and> OSTCBPrio (tcb s' 5) = 30
     \<and> OSEventPtr (ecb s' 1) \<in> {2, 3, 4, 5} \<and> small_base (OSEventPtr (ecb s' 1)) \<le> 10)"
proof -
  obtain e s' where r: "OSMutexPost 1 contended = (e, s')" by (cases "OSMutexPost 1 contended") auto
  have c: "OSTCBCur contended = 5" "OSTCBPrio (tcb contended 5) = 5" "OSTCBEventPtr (tcb contended (OSTCBCur contended)) = 0"
    "OSEventPtr (ecb contended 1) = OSTCBCur contended" "OSTCBList contended = [5, 4, 3, 2]" "wt contended 1 3" by code_simp+
  show ?thesis using mutex_handed_over [OF small_runs(3) _ c(3) r] c r by (auto simp: small_base_def insert_commute)
qed

section \<open>Inheritance\<close>

text \<open>
  C12: While a task waits for a mutex with a ceiling and its owner was created with a lower priority, the
  owner runs at the ceiling or above; so if the owner is ready when a tick has been served, no task below the
  ceiling gets the processor from it.
\<close>
theorem owner_inherits:
  assumes "runs_to base M s0 (s, H)" "m \<in> M" "mutex_pcp (ecb s m) \<noteq> 0xFF" "t \<in> set (OSTCBList s)" "wt s m t" "base t < base (OSEventPtr (ecb s m))"
  shows "OSTCBPrio (tcb s (OSEventPtr (ecb s m))) \<le> mutex_pcp (ecb s m)
    \<and> (rdy (OS_CPU_SysTickHandler s) (OSEventPtr (ecb s m)) \<longrightarrow>
         OSTCBPrio (tcb (OS_CPU_SysTickHandler s) (OSTCBCur (OS_CPU_SysTickHandler s))) \<le> mutex_pcp (ecb s m))"
proof -
  note k = runs_ok [OF assms(1), simplified]
  let ?s = "OS_CPU_SysTickHandler s" and ?o = "OSEventPtr (ecb s m)"
  have c: "core base M s" "inherits base M s" using k(1) by (simp_all add: kernel_ok_def)
  have t: "kernel_ok base M ?s" "ecb ?s = ecb s" "OSTCBList ?s = OSTCBList s"
    "OSTCBPrio (tcb ?s (OSTCBCur ?s)) = pm_high (OSRdy ?s)" "\<forall>u. OSTCBPrio (tcb ?s u) = OSTCBPrio (tcb s u)"
    using tick_ok [OF k(1)] by blast+
  have i: "OSTCBPrio (tcb s ?o) \<le> mutex_pcp (ecb s m)" using c(2) assms(2-6) by (simp add: inherits_def)
  have "OSTCBPrio (tcb ?s (OSTCBCur ?s)) \<le> mutex_pcp (ecb s m)" if r: "rdy ?s ?o"
  proof -
    have ok: "pm_ok (OSRdy ?s)" "finite (prios (OSRdy ?s))" using t(1) by (simp_all add: kernel_ok_def core_def shape_def prios_def)
    have "Min (prios (OSRdy ?s)) \<le> pr ?s ?o" using r ok(2) by (simp add: rdy_def)
    moreover have "unat (pm_high (OSRdy ?s)) = Min (prios (OSRdy ?s))" using pm_high_Min(1) [OF ok(1)] r by (auto simp: rdy_def)
    ultimately have "OSTCBPrio (tcb ?s (OSTCBCur ?s)) \<le> OSTCBPrio (tcb s ?o)" using t(4,5) by (simp add: pr_def word_le_nat_alt)
    then show ?thesis using i by simp
  qed
  then show ?thesis using i by blast
qed

theorem owner_inherits_witness:
  "wt contended 1 3 \<and> small_base 3 = 10 \<and> small_base (OSEventPtr (ecb contended 1)) = 30
    \<and> OSTCBPrio (tcb contended (OSEventPtr (ecb contended 1))) \<le> 5"
proof -
  have c: "mutex_pcp (ecb contended 1) \<noteq> 0xFF" "3 \<in> set (OSTCBList contended)" "wt contended 1 3"
    "small_base 3 < small_base (OSEventPtr (ecb contended 1))" "mutex_pcp (ecb contended 1) = 5" "OSEventPtr (ecb contended 1) = 5"
    by code_simp+
  show ?thesis using owner_inherits [OF small_runs(3) _ c(1-4)] c(3,5,6) by (simp add: small_base_def)
qed

section \<open>Sets of priorities\<close>

datatype prio_op = Enters u8 | Leaves u8

primrec op_prio :: "prio_op \<Rightarrow> u8" where
  "op_prio (Enters p) = p"
| "op_prio (Leaves p) = p"

primrec do_op :: "prio_op \<Rightarrow> prio_map \<Rightarrow> prio_map" where
  "do_op (Enters p) = enter (set_prio p blank_tcb)"
| "do_op (Leaves p) = leave (set_prio p blank_tcb)"

primrec set_op :: "prio_op \<Rightarrow> nat set \<Rightarrow> nat set" where
  "set_op (Enters p) A = insert (unat p) A"
| "set_op (Leaves p) A = A - {unat p}"

lemma fold_ops:
  "pm_ok m \<Longrightarrow> list_all (\<lambda>x. op_prio x < 64) xs \<Longrightarrow> pm_ok (fold do_op xs m) \<and> prios (fold do_op xs m) = fold set_op xs (prios m)"
proof (induction xs arbitrary: m)
  case (Cons x xs)
  have b: "tcb_ok (set_prio (op_prio x) blank_tcb)" using Cons.prems(2) by (simp add: tcb_ok_set_prio)
  have "pm_ok (do_op x m) \<and> prios (do_op x m) = set_op x (prios m)"
    using enter_prios [OF b Cons.prems(1)] leave_prios [OF b Cons.prems(1)] by (cases x) simp_all
  then show ?case using Cons.IH [of "do_op x m"] Cons.prems(2) by simp
qed simp

text \<open>
  C26: The bits of a ready or waiting list are a finite set of priorities: any sequence of tasks entering and
  leaving does to the bits what it does to the set, the group byte is 0 just when the set is empty, and the
  table look-up yields the least element, which is the highest priority.
\<close>
theorem prio_map_refines_set:
  assumes "list_all (\<lambda>x. op_prio x < 64) xs" "A = fold set_op xs {}"
  shows "prios (fold do_op xs pm_empty) = A \<and> (pm_grp (fold do_op xs pm_empty) = 0 \<longleftrightarrow> A = {})
    \<and> (A \<noteq> {} \<longrightarrow> unat (pm_high (fold do_op xs pm_empty)) = Min A)"
  using fold_ops [OF pm_empty(1) assms(1)] pm_grp_0 pm_high_Min(1) by (simp add: assms(2))

theorem prio_map_refines_set_witness:
  "unat (pm_high (fold do_op [Enters 42, Enters 9, Enters 14, Leaves 9] pm_empty)) = 14"
proof -
  have l: "list_all (\<lambda>x. op_prio x < 64) [Enters 42, Enters 9, Enters 14, Leaves 9]" by simp
  have a: "{42, 14} = fold set_op [Enters 42, Enters 9, Enters 14, Leaves 9] {}" by auto
  from prio_map_refines_set [OF l a] have "unat (pm_high (fold do_op [Enters 42, Enters 9, Enters 14, Leaves 9] pm_empty)) = Min {42, 14}"
    by blast
  then show ?thesis by simp
qed

section \<open>Deleting a mutex ends\<close>

definition waiters_ok :: "nat \<Rightarrow> kernel \<Rightarrow> bool" where
  "waiters_ok e s \<longleftrightarrow> pm_ok (OSEventWait (ecb s e))
     \<and> (\<forall>p\<in>prios (OSEventWait (ecb s e)). tcb_ok (tcb s (OSTCBPrioTbl s ! p)) \<and> pr s (OSTCBPrioTbl s ! p) = p)"

lemma waiter_readied:
  assumes "waiters_ok e s" "prios (OSEventWait (ecb s e)) \<noteq> {}" "OS_EventTaskRdy_tcb e msg msk st s = (q, s1)"
  shows "waiters_ok e s1" "card (prios (OSEventWait (ecb s1 e))) < card (prios (OSEventWait (ecb s e)))"
proof -
  let ?w = "OSEventWait (ecb s e)" and ?t = "OSTCBPrioTbl s ! unat (pm_high (OSEventWait (ecb s e)))"
  have ok: "pm_ok ?w" "finite (prios ?w)" using assms(1) by (simp_all add: waiters_ok_def prios_def)
  have h: "unat (pm_high ?w) \<in> prios ?w" using pm_high_Min(1) [OF ok(1) assms(2)] Min_in [OF ok(2) assms(2)] by simp
  then have t: "tcb_ok (tcb s ?t)" "pr s ?t = unat (pm_high ?w)" using assms(1) by (simp_all add: waiters_ok_def)
  have f: "OSTCBPrioTbl s1 = OSTCBPrioTbl s" "OSTCBPrio (tcb s1 u) = OSTCBPrio (tcb s u)" "tcb_ok (tcb s1 u) = tcb_ok (tcb s u)"
    "OSEventWait (ecb s1 e) = leave (tcb s ?t) ?w" for u
    using assms(3) by (auto simp: OS_EventTaskRdy_tcb_def OS_EventTaskRemove_def Let_def tcb_ok_def split: if_splits)
  have l: "pm_ok (leave (tcb s ?t) ?w)" "prios (leave (tcb s ?t) ?w) = prios ?w - {unat (pm_high ?w)}"
    using leave_prios [OF t(1) ok(1)] t(2) by (simp_all add: pr_def)
  then show "waiters_ok e s1" using assms(1) by (simp add: waiters_ok_def f pr_def)
  show "card (prios (OSEventWait (ecb s1 e))) < card (prios ?w)"
    unfolding f(4) l(2) by (rule card_Diff1_less [OF ok(2) h])
qed

lemma ready_all_returns:
  "waiters_ok e s \<Longrightarrow> card (prios (OSEventWait (ecb s e))) \<le> n \<Longrightarrow> \<exists>s'. ready_all n e s = Ret s' \<and> prios (OSEventWait (ecb s' e)) = {}"
proof (induction n arbitrary: s)
  case 0
  then have "prios (OSEventWait (ecb s e)) = {}" by (simp add: prios_def)
  then show ?case using 0 pm_grp_0 [of "OSEventWait (ecb s e)"] by (simp add: waiters_ok_def)
next
  case (Suc n)
  have g: "pm_grp (OSEventWait (ecb s e)) = 0 \<longleftrightarrow> prios (OSEventWait (ecb s e)) = {}"
    using Suc.prems(1) pm_grp_0 by (simp add: waiters_ok_def)
  show ?case
  proof (cases "prios (OSEventWait (ecb s e)) = {}")
    case False
    obtain q s1 where r: "OS_EventTaskRdy_tcb e 0 OS_STAT_MUTEX OS_STAT_PEND_ABORT s = (q, s1)"
      by (cases "OS_EventTaskRdy_tcb e 0 0x10 2 s") auto
    note w = waiter_readied [OF Suc.prems(1) False r]
    then show ?thesis using Suc.IH [OF w(1)] Suc.prems(2) g False r by simp
  qed (use g in simp)
qed

text \<open>
  C28: Deleting a mutex that tasks use always comes back: the loop that readies the waiting tasks, which is
  given one round per priority, empties the waiting list, and the mutex is an unused event again.
\<close>
theorem mutex_delete_returns:
  assumes "runs_to base M s0 (s, H)" "m \<in> M"
  shows "\<exists>s'. OSMutexDel m OS_DEL_ALWAYS s = Ret ((0, OS_ERR_NONE), s') \<and> OSEventType (ecb s' m) = OS_EVENT_TYPE_UNUSED
    \<and> prios (OSEventWait (ecb s' m)) = {}"
proof -
  note ok = runs_ok(1) [OF assms(1), simplified]
  have k: "core base M s" "OSIntNesting s = 0" using ok by (simp_all add: kernel_ok_def cur_ok_def)
  have sh: "shape M s" using k(1) by (simp add: core_def)
  define s1 where "s1 = (if mutex_pcp (ecb s m) \<noteq> 0xFF \<and> owner s m \<noteq> 0 \<and> OSTCBPrio (tcb s (owner s m)) = mutex_pcp (ecb s m)
      then OSMutex_RdyAtPrio (owner s m) (mutex_low (ecb s m)) s else s)"
  have w: "waiters_ok m s1"
  proof -
    have "tcb_ok (tcb s1 (OSTCBPrioTbl s1 ! p)) \<and> pr s1 (OSTCBPrioTbl s1 ! p) = p" if p: "p \<in> prios (OSEventWait (ecb s m))" for p
    proof -
      obtain u where u: "u \<in> tasks s" "p = pr s u" "wt s m u" using wait_task [OF sh assms(2) p] by blast
      have t: "OSTCBPrioTbl s ! p = u" "tcb_ok (tcb s u)" using sh u by (auto simp: shape_def)
      show ?thesis
      proof (cases "owner s m = 0")
        case True
        then show ?thesis using t u(2) by (simp add: s1_def)
      next
        case False
        note o = owner_state [OF k(1) assms(2) False]
        have "u \<noteq> owner s m" using o(3) [of m] assms(2) u(3) by auto
        moreover from this have "OSTCBPrio (tcb s u) \<noteq> base (owner s m)" using base_free [OF k(1) o(1) u(1)] by simp
        then have "unat (base (owner s m)) \<noteq> p" using u(2) by (metis pr_def word_unat_eq_iff)
        ultimately show ?thesis using t u(2) o(2) by (simp add: s1_def OSMutex_RdyAtPrio_def Let_def pr_def)
      qed
    qed
    moreover have "OSEventWait (ecb s1 m) = OSEventWait (ecb s m)" by (simp add: s1_def OSMutex_RdyAtPrio_def Let_def)
    ultimately show ?thesis using sh assms(2) by (simp add: waiters_ok_def shape_def)
  qed
  have "card (prios (OSEventWait (ecb s1 m))) \<le> card {p :: nat. p < 64}" by (rule card_mono) (auto simp: prios_def)
  then obtain s2 where s2: "ready_all 64 m s1 = Ret s2" "prios (OSEventWait (ecb s2 m)) = {}" using ready_all_returns [OF w] by auto
  then have e: "OSEventType (ecb (free_mutex m s2) m) = 0" "prios (OSEventWait (ecb (free_mutex m s2) m)) = {}"
    by (simp_all add: free_mutex_def Let_def)
  have "\<exists>b. OSMutexDel m OS_DEL_ALWAYS s = Ret ((0, OS_ERR_NONE), if b then OS_Sched (free_mutex m s2) else free_mutex m s2)"
    using k(2) mutex_type [OF ok assms(2)] s2(1) unfolding OSMutexDel_def Let_def s1_def by (intro exI) simp
  then show ?thesis using e by (auto simp: OS_Sched_def)
qed

theorem mutex_delete_returns_witness:
  "\<exists>s'. OSMutexDel 1 OS_DEL_ALWAYS contended = Ret ((0, OS_ERR_NONE), s') \<and> prios (OSEventWait (ecb s' 1)) = {}"
  using mutex_delete_returns [OF small_runs(3), of 1] by auto

section \<open>Well-formed control blocks\<close>

text \<open>
  C27: Whatever the tasks do, every control block stays well formed: the priority is one of the 64, the row, the
  column and the two masks kept with it are the ones of that priority, the table of priorities leads back to the
  task, and in the ready list and every waiting list the group byte names just the rows that are not empty.
\<close>
theorem control_blocks_typed:
  assumes "runs_to base M s0 (s, H)"
  shows "pm_ok (OSRdy s) \<and> (\<forall>m\<in>M. pm_ok (OSEventWait (ecb s m)) \<and> OSEventType (ecb s m) = OS_EVENT_TYPE_MUTEX)
    \<and> (\<forall>t\<in>set (OSTCBList s). OSTCBPrio (tcb s t) < 64 \<and> OSTCBY (tcb s t) = prio_y (OSTCBPrio (tcb s t))
        \<and> OSTCBBitY (tcb s t) = prio_bity (OSTCBPrio (tcb s t)) \<and> OSTCBBitX (tcb s t) = prio_bitx (OSTCBPrio (tcb s t))
        \<and> OSTCBPrioTbl s ! unat (OSTCBPrio (tcb s t)) = t)"
  using runs_ok(1) [OF assms] by (auto simp: kernel_ok_def core_def shape_def tcb_ok_def mutex_ok_def pr_def)

theorem control_blocks_typed_witness:
  "OSTCBPrioTbl contended ! unat (OSTCBPrio (tcb contended 5)) = 5 \<and> OSTCBPrio (tcb contended 5) < 64"
proof -
  have "5 \<in> set (OSTCBList contended)" by code_simp
  then show ?thesis using control_blocks_typed [OF small_runs(3)] by simp
qed

end
