(* ===== verification/Spec2Isabelle.thy ===== *)
theory Spec2Isabelle
  imports Agvcp_Conn Can_Dispatcher Log_Print Agv_Facts Mc_Tools Can_Rx Uart_Rx Circ_Buf Tools Floats Bms Encoder Motors Navigation
    Sliding_Filter Fuzzy Agv_Run_Facts Shell_Cmds Algorithm Vehicle Os_Kernel
begin

text \<open>
  The firmware of an automated guided vehicle: an STM32F407 (a 32-bit little-endian
  Cortex-M4) under uC/OS-II that drives two wheels and a dumper, reads two-dimensional
  codes on the floor through a scanner on the CAN bus, and takes its orders from a dispatch
  server over UDP. Paths are relative to \<open>src/usr\<close> unless they begin otherwise.

  \<^bold>\<open>How the parts interact.\<close> The server's datagrams reach \<open>application/agvcp.c\<close>, which
  acknowledges them, removes repetitions and buffers the actions in blocks of a partition; the
  blocks go through a queue to the handler \<open>agv_command_handler\<close> of \<open>application/agv.c\<close>. The
  coordinator executes a command at once or queues it until the one before is over, locks
  the tags of its route and sets the motion controller going (\<open>application/motion_ctrl.c\<close>).
  Every 20 ms the control cycle (\<open>motion_ctrl/rAGVControl.c\<close>, called from
  \<open>motion_ctrl/reverseMotionControl.c\<close>) reads the encoders, plans a speed
  (\<open>motion_ctrl/TshapeVplan.c\<close>), tracks the path (\<open>motion_ctrl/Tracingzq.c\<close> over
  \<open>motion_ctrl/fuzzyhuo.c\<close>) and sets the wheels (\<open>application/motors.c\<close>). Tags come in
  from the CAN interrupt (\<open>bsp/src/bsp_can.c\<close>) through the dispatcher
  (\<open>application/can_dispatcher.c\<close>) to \<open>application/Navigation.c\<close>. Tags, ends of moves, errors and
  battery values return to the coordinator as events through a second queue of blocks, and
  from there to the server as notifications.

  As \<open>application/root.c\<close> stands, the task of the coordinator is not started: the external control
  of \<open>application/algorithm.c\<close> takes wheel speeds from the CAN bus and reports the encoders there.
  Both are modelled. A console on the serial line and one over UDP (\<open>application/console.c\<close>,
  \<open>common/lwshell.c\<close>) run commands on the motors, the battery and the settings, which
  \<open>application/configuration.c\<close> keeps in a file through minIni (\<open>common/minIni\<close>). All tasks run under
  uC/OS-II: they wait on queues, share registries and pools under mutexes, and sleep.

  \<^bold>\<open>Theories, from the kernel up.\<close>
  \<^item> \<open>Prelude\<close>: machine types, outcomes of a C function (\<open>Ok\<close>, \<open>Fault\<close> for undefined
    behaviour, \<open>Hang\<close> for a call that never returns), error codes, byte encodings, and the
    two collections \<open>fw_defs\<close> and \<open>fw_inv\<close>.
  \<^item> \<open>Os_Queue\<close>, \<open>Os_Mem\<close>: the queues and partitions of uC/OS-II
    (\<open>src/ucosii/uCOS-II/Source/os_q.c\<close>, \<open>os_mem.c\<close>), slot by slot and link by link. The
    locales \<open>msg_queue\<close> and \<open>block_pool\<close> are what the tasks rely on; \<open>mailbox\<close> extends both
    to the pattern get a block, fill it, post its address. All three are interpreted on the
    kernel's operations.
  \<^item> \<open>Os_Core\<close>, \<open>Os_Mutex\<close>: the bit tables, the scheduler, delays and ticks of
    \<open>src/ucosii/uCOS-II/Source/os_core.c\<close>, \<open>os_time.c\<close> and all of \<open>os_mutex.c\<close> on one record \<open>kernel\<close>.
    \<open>Os_Mutex_Facts\<close> has the invariant \<open>kernel_ok\<close> and a lemma for each part of a call, \<open>Os_Run\<close> one
    for each call and the runs \<open>kstep\<close> of the tasks, \<open>Os_Kernel\<close> the properties.
  \<^item> \<open>Fifo\<close> and \<open>Can_Rx\<close>, \<open>Uart_Rx\<close>, \<open>Circ_Buf\<close>: buffers an interrupt fills, with
    the locale \<open>lossy_fifo\<close>; \<open>bsp_can.c\<close>, \<open>bsp_uart.c\<close>, \<open>circ_buf.h\<close> and the copies of the
    circular buffer in \<open>console.c\<close> and \<open>log_print.c\<close> interpret it.
  \<^item> \<open>List_Head\<close>, \<open>Reg_Pool\<close>, \<open>Can_Dispatcher\<close>, \<open>Log_Print\<close>: the intrusive lists of
    \<open>include/common/list.h\<close> on a store of links (locale \<open>registry\<close>), registries whose nodes
    are blocks of a partition, and the two services built on them.
  \<^item> \<open>Tools\<close>: \<open>common/tools.c\<close>. \<open>Sliding_Filter\<close>: \<open>common/sliding_filter.c\<close>.
  \<^item> \<open>Agvcp\<close>, \<open>Agvcp_Log\<close>, \<open>Agvcp_Conn\<close>: the control protocol, its acknowledged sends, its
    buffered actions, its connection loop and the session around it. The locale \<open>conn_steps\<close>
    collects what a relation between connection states needs to be kept by every wait and
    send, with a datagram that is read and processed as one step; \<open>conn_rel\<close> is the case in which
    the two can be taken apart. It is interpreted three times, for the growing list of buffered
    actions, the unchanged vehicle and the datagrams still to be read. \<open>Agvcp_Log\<close>
    interprets \<open>conn_steps\<close> on the log of accepted requests: which datagrams became requests, that
    none but a read repeats the number of the one before it, and that the buffered actions are those of
    the log. It also shows that a send ends with its acknowledgement and not before.
  \<^item> \<open>Floats\<close>, \<open>Float_Facts\<close>: \<open>float\<close> and \<open>double\<close> as rationals, each operation rounded
    to nearest even with gradual underflow.
  \<^item> \<open>Agv_Types\<close>, \<open>Mc_Tools\<close>, \<open>Motors\<close>, \<open>Encoder\<close>, \<open>Navigation\<close>, \<open>Motion_Cmd\<close>: the
    motion controller's data, its helpers (\<open>MCTools.c\<close>, \<open>angle.c\<close>, \<open>DataBank.c\<close>), wheels and
    dumper, encoders, scanner, and the commands of \<open>motion_ctrl.c\<close>. Their records extend one
    another as the C modules share globals: \<open>nav\<close>, \<open>navi\<close>, \<open>motion\<close>.
  \<^item> \<open>Fuzzy\<close>, \<open>Tshape_Vplan\<close>, \<open>Tracing\<close>, \<open>Agv_Run\<close>, \<open>Agv_Run_Facts\<close>: the control
    cycle and what it calls, on the record \<open>cycle\<close> that extends \<open>motion\<close>.
  \<^item> \<open>Bms\<close>: the battery. \<open>Agv\<close>, \<open>Agv_Facts\<close>: the coordinator, on \<open>agv_world\<close>.
  \<^item> \<open>Cycle_Reports\<close>: what a cycle may report, in the locale \<open>event_reports\<close> over the receiver of the
    events. \<open>Vehicle\<close> puts coordinator and cycle together on the record they share and
    interprets the locale on the coordinator's queue. \<open>Algorithm\<close>: the external control.
  \<^item> \<open>Cstrings\<close>, \<open>Mini_Ini\<close>, \<open>Mini_Ini_Facts\<close>, \<open>Mini_Ini_Map\<close>, \<open>Configuration\<close>: C strings, the settings
    file as its lines, its view as a map, and the table of settings.
  \<^item> \<open>Shell\<close>, \<open>Shell_Cmds\<close>: the line editor of the consoles and the commands.

  \<^bold>\<open>What the lemmas show.\<close> For each component: an invariant that every operation keeps
  (\<open>osq_quiet\<close>, \<open>mem_ok\<close>, \<open>can_ok\<close>, \<open>uart_ok\<close>, \<open>circ_ok\<close>, \<open>dlist\<close>, \<open>reg_ok\<close>, \<open>conn_ok\<close>,
  \<open>cmd_ok\<close>); an abstraction to a list, a set or a set of blocks and the refinement of it by
  runs of operations; what a task delivers, to whom, in which order and how often; bounds of the
  numeric code under rounding; what happens on the error paths. The theorems stated with
  a number C\<open>n\<close> are the properties of the program; where one has hypotheses a second
  theorem meets them at a concrete state.

  \<^bold>\<open>Conventions and bounds.\<close>
  \<^item> Enumerations have four bytes, \<open>char\<close> is unsigned, records are packed as declared.
  \<^item> What C leaves uninitialised (a stack buffer, a block fresh from a partition) is an
    argument, so a theorem holds whatever it contains. A read or write outside an object is
    \<open>Fault\<close>.
  \<^item> A region that a kernel mutex guards or an interrupt handler runs is one step. Tasks
    interleave between such steps, so runs are lists of them.
  \<^item> The acknowledged send polls the socket 100 times per attempt (\<open>wait_ack\<close>) and an
    endless retry is a recursion on the datagrams still to come: when they are used up the
    call would wait for ever and the result is \<open>Hang\<close>. The restart of the processor is also \<open>Hang\<close>.
  \<^item> \<open>list_for_each\<close> and the walk through a waiting list have the number of blocks as fuel; a
    registry never holds more. The exponent search of a rounding has 200 steps for \<open>float\<close>, 1200
    for \<open>double\<close>: more than either exponent range, and below the overflow threshold
    \<open>Float_Facts\<close> proves that it ends inside them.
  \<^item> 140 control cycles are enough for an emergency stop from the highest planned speed.
  \<^item> \<open>sqrt\<close>, \<open>sin\<close> and \<open>cos\<close> of the C library are arguments (record \<open>libm\<close>);
    where a theorem needs one of their properties it is a named hypothesis (\<open>sqrt_ok\<close>).
  \<^item> A quotient by zero is 0, where the processor goes on with an infinity or a NaN: the
    theorems of the planner assume positive accelerations, and nothing is claimed of the fit
    of \<open>Rotating.c\<close> at such points.
  \<^item> Values of \<open>int\<close> that the code keeps far from its limits are \<open>int\<close> or \<open>nat\<close>; where the
    width matters (sequence numbers, ticks, lengths, pulse counters) they are words.

  \<^item> The loop of \<open>OSMutexDel\<close> has 64 rounds, one per priority; \<open>mutex_delete_returns\<close> shows that they do.
  \<^item> The mutexes of the kernel are modelled by themselves; in the services that use them a guarded
    region stays one step, which \<open>mutex_exclusive\<close> justifies.

  \<^bold>\<open>Not modelled.\<close> Vendored code that the program only calls: \<open>src/library\<close>, \<open>rs9113_wifi\<close>, FatFs;
  sockets are the lists of datagrams in \<open>agvcp_conn\<close>, the file system the answers of its calls and
  the bytes of a file, and the shell's commands on files and directories a function of the
  environment. Of uC/OS-II: semaphores, flags, mailboxes, timers, deletion and suspension of
  tasks, pends on several events, \<open>OSQDel\<close>, \<open>OSQPendAbort\<close>, \<open>OSQPostOpt\<close>. Of minIni: \<open>ini_browse\<close> and
  \<open>ini_putf\<close>. Register set-up in \<open>bsp\<close> beyond the tables of the CAN driver. The creation of the
  tasks in \<open>root.c\<close> and the bench tests of \<open>test.c\<close>.
\<close>

end
